(* ===== verification/Kvm_Prelude.thy ===== *)
theory Kvm_Prelude
  imports Main "HOL-Library.Word" "HOL-Library.AList" "HOL-Library.Multiset"
begin

text \<open>
  Shared vocabulary of the development: machine integers, C++ exceptions as values, the
  state-and-exception type in which the member functions of the source are written, its weakest
  precondition calculus, \<open>std::map\<close> as a sorted association list, and the word lemmas the
  components share.

  A member function of a C++ class that may throw is a function from the state of the object to
  a pair: what it returned (\<open>Inr\<close>) or threw (\<open>Inl\<close>), and the state it leaves behind. The state
  is kept on the throwing path as well, because the source has callers that catch.
\<close>

type_synonym byte = "8 word"
type_synonym u32 = "32 word"
type_synonym u64 = "64 word"

text \<open>
  The exceptions of the source. \<open>Fatal\<close> is a failed \<^verbatim>\<open>TT_FATAL\<close> or \<^verbatim>\<open>TT_ASSERT\<close>, \<open>Thrown\<close> a
  \<^verbatim>\<open>TT_THROW\<close>, the other two are the standard library's classes. The string names the check.
\<close>

datatype fault =
    Fatal string
  | Thrown string
  | Runtime_Error string
  | Invalid_Argument string

type_synonym ('s, 'a) io = "'s \<Rightarrow> (fault + 'a) \<times> 's"

named_theorems wp_rules \<open>weakest preconditions of the building blocks\<close>
named_theorems frame_rules \<open>what a piece of code leaves alone\<close>
named_theorems map_rules \<open>ordered and unordered maps\<close>
named_theorems word_facts \<open>unsigned 32-bit arithmetic\<close>

section \<open>Returning, throwing, sequencing, catching\<close>

definition ret :: "'a \<Rightarrow> ('s, 'a) io" where
  "ret a = (\<lambda>s. (Inr a, s))"

definition throw :: "fault \<Rightarrow> ('s, 'a) io" where
  "throw e = (\<lambda>s. (Inl e, s))"

definition bindE :: "('s, 'a) io \<Rightarrow> ('a \<Rightarrow> ('s, 'b) io) \<Rightarrow> ('s, 'b) io" where
  "bindE m f = (\<lambda>s. case m s of (Inl e, s') \<Rightarrow> (Inl e, s') | (Inr a, s') \<Rightarrow> f a s')"

definition seqE :: "('s, 'a) io \<Rightarrow> ('s, 'b) io \<Rightarrow> ('s, 'b) io" where
  "seqE m n = bindE m (\<lambda>_. n)"

definition gets :: "('s \<Rightarrow> 'a) \<Rightarrow> ('s, 'a) io" where
  "gets f = (\<lambda>s. (Inr (f s), s))"

definition modify :: "('s \<Rightarrow> 's) \<Rightarrow> ('s, unit) io" where
  "modify f = (\<lambda>s. (Inr (), f s))"

text \<open>\<open>check b e\<close> is \<^verbatim>\<open>TT_FATAL(b, ...)\<close> and, with another fault, \<^verbatim>\<open>if (!b) throw e\<close>.\<close>

definition check :: "bool \<Rightarrow> fault \<Rightarrow> ('s, unit) io" where
  "check b e = (if b then ret () else throw e)"

definition whenE :: "bool \<Rightarrow> ('s, unit) io \<Rightarrow> ('s, unit) io" where
  "whenE b m = (if b then m else ret ())"

text \<open>\<open>try m catch (...) { h }\<close>: the handler sees the state the throwing code left.\<close>

definition catchE :: "('s, 'a) io \<Rightarrow> (fault \<Rightarrow> ('s, 'a) io) \<Rightarrow> ('s, 'a) io" where
  "catchE m h = (\<lambda>s. case m s of (Inl e, s') \<Rightarrow> h e s' | (Inr a, s') \<Rightarrow> (Inr a, s'))"

text \<open>A range-based \<^verbatim>\<open>for\<close> loop: the first throw ends it.\<close>

fun forE :: "'x list \<Rightarrow> ('x \<Rightarrow> ('s, unit) io) \<Rightarrow> ('s, unit) io" where
  "forE [] f = ret ()"
| "forE (x # xs) f = seqE (f x) (forE xs f)"

text \<open>A pure function that may throw, called from a member function.\<close>

definition lift_sum :: "fault + 'a \<Rightarrow> ('s, 'a) io" where
  "lift_sum r = (case r of Inl e \<Rightarrow> throw e | Inr a \<Rightarrow> ret a)"

lemmas io_defs = ret_def throw_def bindE_def seqE_def gets_def modify_def check_def whenE_def
  catchE_def

lemma bindE_ret [simp]: "bindE (ret a) f = f a"
  by (simp add: bindE_def ret_def fun_eq_iff)

lemma seqE_ret [simp]: "seqE (ret a) m = m"
  by (simp add: seqE_def)

section \<open>Weakest preconditions\<close>

text \<open>
  \<open>wp m Q E s\<close>: started in \<open>s\<close>, \<open>m\<close> either returns a value and a state that satisfy \<open>Q\<close> or
  throws and leaves a fault and a state that satisfy \<open>E\<close>.
\<close>

definition wp :: "('s, 'a) io \<Rightarrow> ('a \<Rightarrow> 's \<Rightarrow> bool) \<Rightarrow> (fault \<Rightarrow> 's \<Rightarrow> bool) \<Rightarrow> 's \<Rightarrow> bool" where
  "wp m Q E s = (case m s of (Inl e, s') \<Rightarrow> E e s' | (Inr a, s') \<Rightarrow> Q a s')"

lemma wp_ret [wp_rules]: "wp (ret a) Q E s = Q a s"
  by (simp add: wp_def ret_def)

lemma wp_throw [wp_rules]: "wp (throw e) Q E s = E e s"
  by (simp add: wp_def throw_def)

lemma wp_bindE [wp_rules]: "wp (bindE m f) Q E s = wp m (\<lambda>a. wp (f a) Q E) E s"
  by (simp add: wp_def bindE_def split: prod.splits sum.splits)

lemma wp_seqE [wp_rules]: "wp (seqE m n) Q E s = wp m (\<lambda>_. wp n Q E) E s"
  by (simp add: seqE_def wp_bindE)

lemma wp_gets [wp_rules]: "wp (gets f) Q E s = Q (f s) s"
  by (simp add: wp_def gets_def)

lemma wp_modify [wp_rules]: "wp (modify f) Q E s = Q () (f s)"
  by (simp add: wp_def modify_def)

lemma wp_check [wp_rules]: "wp (check b e) Q E s = (if b then Q () s else E e s)"
  by (simp add: check_def wp_ret wp_throw)

lemma wp_whenE [wp_rules]: "wp (whenE b m) Q E s = (if b then wp m Q E s else Q () s)"
  by (simp add: whenE_def wp_ret)

lemma wp_catchE [wp_rules]: "wp (catchE m h) Q E s = wp m Q (\<lambda>e. wp (h e) Q E) s"
  by (simp add: wp_def catchE_def split: prod.splits sum.splits)

lemma wp_lift_sum [wp_rules]: "wp (lift_sum x) Q E s = (case x of Inl e \<Rightarrow> E e s | Inr a \<Rightarrow> Q a s)"
  by (cases x) (simp_all add: lift_sum_def wp_ret wp_throw)

lemma wp_if [wp_rules]: "wp (if b then m else n) Q E s = (if b then wp m Q E s else wp n Q E s)"
  by simp

lemma wp_mono:
  "wp m Q E s \<Longrightarrow> (\<And>a t. Q a t \<Longrightarrow> Q' a t) \<Longrightarrow> (\<And>e t. E e t \<Longrightarrow> E' e t) \<Longrightarrow> wp m Q' E' s"
  by (simp add: wp_def split: prod.splits sum.splits)

lemma wp_conj: "wp m Q E s \<Longrightarrow> wp m Q' E' s \<Longrightarrow>
    wp m (\<lambda>a t. Q a t \<and> Q' a t) (\<lambda>e t. E e t \<and> E' e t) s"
  by (simp add: wp_def split: prod.splits sum.splits)

lemma wp_returnD: "wp m Q E s \<Longrightarrow> m s = (Inr a, t) \<Longrightarrow> Q a t"
  by (simp add: wp_def)

lemma wp_throwD: "wp m Q E s \<Longrightarrow> m s = (Inl e, t) \<Longrightarrow> E e t"
  by (simp add: wp_def)

lemma wpI: "(\<And>a t. m s = (Inr a, t) \<Longrightarrow> Q a t) \<Longrightarrow> (\<And>e t. m s = (Inl e, t) \<Longrightarrow> E e t) \<Longrightarrow> wp m Q E s"
  by (simp add: wp_def split: prod.splits sum.splits)

lemma wp_forE:
  assumes "I s" and "\<And>x t. x \<in> set xs \<Longrightarrow> I t \<Longrightarrow> wp (f x) (\<lambda>_. I) E t"
  shows "wp (forE xs f) (\<lambda>_. I) E s"
  using assms
proof (induction xs arbitrary: s)
  case Nil
  then show ?case by (simp add: wp_ret)
next
  case (Cons x xs)
  have "wp (f x) (\<lambda>_. I) E s" using Cons.prems by simp
  then show ?case
    by (auto simp: wp_seqE intro!: wp_mono [where Q = "\<lambda>_. I" and E = E] Cons.IH Cons.prems(2))
qed

section \<open>Frames\<close>

text \<open>\<open>keeps f m\<close>: whether \<open>m\<close> returns or throws, it does not change the view \<open>f\<close> of the state.\<close>

definition keeps :: "('s \<Rightarrow> 'v) \<Rightarrow> ('s, 'a) io \<Rightarrow> bool" where
  "keeps f m = (\<forall>s. f (snd (m s)) = f s)"

lemma keepsD: "keeps f m \<Longrightarrow> m s = (r, t) \<Longrightarrow> f t = f s"
  unfolding keeps_def by (metis snd_conv)

lemma keeps_weaken: "keeps f m \<Longrightarrow> (\<And>s t. f s = f t \<Longrightarrow> g s = g t) \<Longrightarrow> keeps g m"
  unfolding keeps_def by blast

lemma keeps_ret [frame_rules]: "keeps f (ret a)"
  by (simp add: keeps_def ret_def)

lemma keeps_throw [frame_rules]: "keeps f (throw e)"
  by (simp add: keeps_def throw_def)

lemma keeps_gets [frame_rules]: "keeps f (gets g)"
  by (simp add: keeps_def gets_def)

lemma keeps_check [frame_rules]: "keeps f (check b e)"
  by (simp add: keeps_def check_def ret_def throw_def)

lemma keeps_modify [frame_rules]: "(\<And>s. f (g s) = f s) \<Longrightarrow> keeps f (modify g)"
  by (simp add: keeps_def modify_def)

lemma keeps_bindE [frame_rules]: "keeps f m \<Longrightarrow> (\<And>a. keeps f (g a)) \<Longrightarrow> keeps f (bindE m g)"
  by (auto simp: keeps_def bindE_def split: prod.splits sum.splits) (metis snd_conv)+

lemma keeps_seqE [frame_rules]: "keeps f m \<Longrightarrow> keeps f n \<Longrightarrow> keeps f (seqE m n)"
  unfolding seqE_def by (intro keeps_bindE)

lemma keeps_whenE [frame_rules]: "keeps f m \<Longrightarrow> keeps f (whenE b m)"
  by (simp add: whenE_def keeps_ret)

lemma keeps_if [frame_rules]: "keeps f m \<Longrightarrow> keeps f n \<Longrightarrow> keeps f (if b then m else n)"
  by simp

lemma keeps_option [frame_rules]:
  "keeps f m \<Longrightarrow> (\<And>x. keeps f (n x)) \<Longrightarrow> keeps f (case a of None \<Rightarrow> m | Some x \<Rightarrow> n x)"
  by (simp split: option.split)

lemma keeps_sum [frame_rules]:
  "(\<And>x. keeps f (m x)) \<Longrightarrow> (\<And>x. keeps f (n x)) \<Longrightarrow> keeps f (case a of Inl x \<Rightarrow> m x | Inr x \<Rightarrow> n x)"
  by (simp split: sum.split)

lemma keeps_prod [frame_rules]: "(\<And>x y. keeps f (n x y)) \<Longrightarrow> keeps f (case a of (x, y) \<Rightarrow> n x y)"
  by (simp split: prod.split)

lemma keeps_Let [frame_rules]: "(\<And>x. keeps f (n x)) \<Longrightarrow> keeps f (let x = a in n x)"
  by (simp add: Let_def)

lemma wp_keeps:
  "keeps f m \<Longrightarrow> (\<And>a t. f t = f s \<Longrightarrow> Q a t) \<Longrightarrow> (\<And>e t. f t = f s \<Longrightarrow> E e t) \<Longrightarrow> wp m Q E s"
  by (rule wpI) (auto dest: keepsD)

section \<open>\<^verbatim>\<open>std::map\<close>: association lists in key order\<close>

text \<open>
  A \<^verbatim>\<open>std::map\<close> iterates in key order, which the source relies on. It is a list of key-value
  pairs in strictly ascending key order; \<open>emplace\<close> inserts only when the key is new.
\<close>

type_synonym 'v omap = "(u32 \<times> 'v) list"

definition omap_ok :: "'v omap \<Rightarrow> bool" where
  "omap_ok m = sorted_wrt (<) (map fst m)"

fun omap_emplace :: "u32 \<Rightarrow> 'v \<Rightarrow> 'v omap \<Rightarrow> 'v omap" where
  "omap_emplace k v [] = [(k, v)]"
| "omap_emplace k v ((k', v') # m) =
     (if k < k' then (k, v) # (k', v') # m
      else if k = k' then (k', v') # m
      else (k', v') # omap_emplace k v m)"

definition omap_erase :: "u32 \<Rightarrow> 'v omap \<Rightarrow> 'v omap" where
  "omap_erase k m = filter (\<lambda>e. fst e \<noteq> k) m"

text \<open>\<^verbatim>\<open>it->second = v\<close> through an iterator at a key of the map.\<close>

definition omap_assign :: "u32 \<Rightarrow> 'v \<Rightarrow> 'v omap \<Rightarrow> 'v omap" where
  "omap_assign k v m = map (\<lambda>e. if fst e = k then (k, v) else e) m"

text \<open>
  The entries before \<^verbatim>\<open>lower_bound(k)\<close> and those from it on: the iterator itself is the first
  entry of the second list (\<open>[]\<close> is \<^verbatim>\<open>end()\<close>), and \<^verbatim>\<open>std::prev\<close> of it the last of the first.
\<close>

definition omap_before :: "u32 \<Rightarrow> 'v omap \<Rightarrow> 'v omap" where
  "omap_before k m = takeWhile (\<lambda>e. fst e < k) m"

definition omap_from :: "u32 \<Rightarrow> 'v omap \<Rightarrow> 'v omap" where
  "omap_from k m = dropWhile (\<lambda>e. fst e < k) m"

lemma omap_split: "omap_before k m @ omap_from k m = m"
  by (simp add: omap_before_def omap_from_def)

lemma omap_ok_Nil [simp]: "omap_ok []"
  by (simp add: omap_ok_def)

lemma omap_ok_Cons: "omap_ok ((k, v) # m) \<longleftrightarrow> (\<forall>e \<in> set m. k < fst e) \<and> omap_ok m"
  by (auto simp: omap_ok_def)

lemma omap_ok_append:
  "omap_ok (m @ n) \<longleftrightarrow> omap_ok m \<and> omap_ok n \<and> (\<forall>d \<in> set m. \<forall>e \<in> set n. fst d < fst e)"
  by (auto simp: omap_ok_def sorted_wrt_append)

lemma omap_before_less: "e \<in> set (omap_before k m) \<Longrightarrow> fst e < k"
  by (auto simp: omap_before_def dest: set_takeWhileD)

lemma omap_from_ge: "omap_ok m \<Longrightarrow> e \<in> set (omap_from k m) \<Longrightarrow> k \<le> fst e"
proof (induction m)
  case Nil
  then show ?case by (simp add: omap_from_def)
next
  case (Cons d m)
  then show ?case
    by (cases d) (fastforce simp: omap_from_def omap_ok_Cons split: if_splits)
qed

lemma omap_erase_notin: "k \<notin> fst ` set m \<Longrightarrow> omap_erase k m = m"
  by (force simp: omap_erase_def filter_id_conv)

text \<open>Where the key's place in the order is known, \<open>emplace\<close> and \<open>erase\<close> act at that place.\<close>

lemma omap_emplace_between:
  assumes "\<forall>d \<in> set m. fst d < k" and "\<forall>e \<in> set n. k < fst e"
  shows "omap_emplace k v (m @ n) = m @ (k, v) # n"
  using assms
proof (induction m)
  case Nil
  then show ?case by (cases n) auto
next
  case (Cons d m)
  then show ?case by (cases d) auto
qed

lemma omap_erase_between:
  assumes "\<forall>d \<in> set m. fst d < k" and "\<forall>e \<in> set n. k < fst e"
  shows "omap_erase k (m @ (k, v) # n) = m @ n"
proof -
  have "filter (\<lambda>e. fst e \<noteq> k) m = m" "filter (\<lambda>e. fst e \<noteq> k) n = n"
    using assms by (auto simp: filter_id_conv)
  then show ?thesis by (simp add: omap_erase_def)
qed

section \<open>Unsigned 32-bit arithmetic\<close>

lemma unat_less_4G [simp]: "unat (a :: u32) < 4294967296"
proof -
  have "unat a < 2 ^ LENGTH(32)" by (rule unsigned_less)
  then show ?thesis by simp
qed

lemma unat_plus_u32: "unat (a + b :: u32) = (unat a + unat b) mod 4294967296"
  by (simp add: unat_word_ariths)

lemma unat_plus_fits [word_facts]:
  "unat a + unat b < 4294967296 \<Longrightarrow> unat (a + b :: u32) = unat a + unat b"
  by (simp add: unat_plus_u32)

lemma unat_plus_le [word_facts]:
  "unat a + unat b \<le> unat c \<Longrightarrow> unat (a + b :: u32) = unat a + unat b" for c :: u32
  by (intro unat_plus_fits) (rule le_less_trans [OF _ unat_less_4G])

lemma unat_mult_fits [word_facts]:
  "unat a * unat b < 4294967296 \<Longrightarrow> unat (a * b :: u32) = unat a * unat b"
  by (simp add: unat_word_ariths)

lemma unat_minus_fits [word_facts]: "b \<le> a \<Longrightarrow> unat (a - b :: u32) = unat a - unat b"
  by (simp add: unat_sub word_le_nat_alt)

text \<open>The source's idiom for an addition that does not wrap: \<^verbatim>\<open>a + b >= a\<close>.\<close>

lemma no_wrap_iff [word_facts]: "a \<le> a + b \<longleftrightarrow> unat a + unat b < 4294967296" for a b :: u32
  by (simp add: no_olen_add_nat)

lemma u32_eq_iff: "a = b \<longleftrightarrow> unat a = unat b" for a b :: u32
  by (rule word_unat_eq_iff)

lemma u32_pos_iff: "0 < a \<longleftrightarrow> 0 < unat a" for a :: u32
  by (simp add: word_less_nat_alt)

lemma unat_eq_0_u32 [simp]: "unat (a :: u32) = 0 \<longleftrightarrow> a = 0"
  by (rule unat_eq_zero)


section \<open>Byte buffers\<close>

text \<open>\<^verbatim>\<open>memcpy(dst + off, src, src_len)\<close> into a buffer that has room for it.\<close>

definition memcpy :: "nat \<Rightarrow> 'b list \<Rightarrow> 'b list \<Rightarrow> 'b list" where
  "memcpy off src dst = take off dst @ src @ drop (off + length src) dst"

lemma length_memcpy [simp]: "off + length src \<le> length dst \<Longrightarrow> length (memcpy off src dst) = length dst"
  by (simp add: memcpy_def)

lemma nth_memcpy: "off + length src \<le> length dst \<Longrightarrow> i < length dst \<Longrightarrow>
    memcpy off src dst ! i = (if off \<le> i \<and> i < off + length src then src ! (i - off) else dst ! i)"
  by (auto simp: memcpy_def nth_append min_def)

lemma memcpy_all: "length src = length dst \<Longrightarrow> memcpy 0 src dst = src"
  by (simp add: memcpy_def)

text \<open>A copy of whole unit \<open>u\<close>, seen at unit \<open>w\<close> and place \<open>k\<close>.\<close>

lemma unit_index:
  assumes "k < (n :: nat)"
  shows "u * n \<le> w * n + k \<and> w * n + k < u * n + n \<longleftrightarrow> w = u"
proof
  assume a: "u * n \<le> w * n + k \<and> w * n + k < u * n + n"
  then have "(w * n + k) div n = u" using assms by (intro div_nat_eqI) (auto simp: algebra_simps)
  then show "w = u" using assms by simp
qed (use assms in auto)

lemma unit_below: "k < n \<Longrightarrow> w < m \<Longrightarrow> w * n + k < m * (n :: nat)"
proof -
  assume a: "k < n" "w < m"
  then have "Suc w * n \<le> m * n" by (intro mult_le_mono1) simp
  then show ?thesis using a by simp
qed

text \<open>\<open>[0..<unat n]\<close> as words: the values a counting loop over a \<^verbatim>\<open>uint32_t\<close> takes.\<close>

definition upto_u32 :: "u32 \<Rightarrow> u32 list" where
  "upto_u32 n = map of_nat [0 ..< unat n]"

lemma unat_of_nat_less [simp]: "i < unat (n :: u32) \<Longrightarrow> unat (of_nat i :: u32) = i"
  by (simp add: unat_of_nat less_trans [OF _ unat_less_4G])


text \<open>Flat memory behind a pointer: the bytes at an offset, and a copy to an offset.\<close>

definition mem_read :: "(nat \<Rightarrow> 'b) \<Rightarrow> nat \<Rightarrow> nat \<Rightarrow> 'b list" where
  "mem_read mem off n = map (\<lambda>i. mem (off + i)) [0 ..< n]"

definition mem_write :: "nat \<Rightarrow> 'b list \<Rightarrow> (nat \<Rightarrow> 'b) \<Rightarrow> nat \<Rightarrow> 'b" where
  "mem_write off bs mem = (\<lambda>a. if off \<le> a \<and> a < off + length bs then bs ! (a - off) else mem a)"

lemma length_mem_read [simp]: "length (mem_read mem off n) = n"
  by (simp add: mem_read_def)

lemma mem_read_write_same: "n \<le> length bs \<Longrightarrow> mem_read (mem_write off bs mem) off n = take n bs"
  by (intro nth_equalityI) (auto simp: mem_read_def mem_write_def)

lemma mem_read_write_disjoint: "off + length bs \<le> o' \<or> o' + n \<le> off \<Longrightarrow>
    mem_read (mem_write off bs mem) o' n = mem_read mem o' n"
  by (auto simp: mem_read_def mem_write_def)

text \<open>\<^verbatim>\<open>memcpy\<close> of a \<^verbatim>\<open>uint32_t\<close> to and from bytes, on the little-endian host.\<close>

definition le32 :: "u32 \<Rightarrow> byte list" where
  "le32 x = [ucast x, ucast (drop_bit 8 x), ucast (drop_bit 16 x), ucast (drop_bit 24 x)]"

definition read_le32 :: "byte list \<Rightarrow> nat \<Rightarrow> u32" where
  "read_le32 bs i = or (or (ucast (bs ! i)) (push_bit 8 (ucast (bs ! (i + 1)))))
     (or (push_bit 16 (ucast (bs ! (i + 2)))) (push_bit 24 (ucast (bs ! (i + 3)))))"

lemma length_le32 [simp]: "length (le32 x) = 4"
  by (simp add: le32_def)

lemma read_le32_le32 [simp]: "read_le32 (le32 x @ rest) 0 = x"
proof (rule bit_word_eqI)
  fix n assume n: "n < LENGTH(32)"
  show "bit (read_le32 (le32 x @ rest) 0) n = bit x n"
    using n by (cases "n < 8"; cases "n < 16"; cases "n < 24") (auto simp: read_le32_def le32_def bit_simps)
qed

lemma read_le32_le32_only [simp]: "read_le32 (le32 x) 0 = x"
  using read_le32_le32 [of x "[]"] by (simp only: append_Nil2)

end
