(* ===== verification/Protocol.thy ===== *)
theory Protocol
  imports Kvm_Prelude
begin

unbundle bit_operations_syntax

text \<open>
  The constants and the pure helpers of the protocol headers that the value store and the worker use:
  value units and chunk counts, powers of two, serial counters, and the words of the move and commit
  channels. The tokens, routes and descriptors of the handshake are in \<open>Client_Bootstrap\<close>, the L1
  layout of the server in \<open>Server_Layout\<close>. The headers
  (\<^verbatim>\<open>common/protocol/bootstrap.hpp\<close>, \<^verbatim>\<open>layout.hpp\<close>, \<^verbatim>\<open>packet.hpp\<close>) are part of
  the tt-metal patch series of the repository, and the definitions follow that text.
\<close>

section \<open>Value units\<close>

definition kFabricMaxPayloadBytes :: u32 where
  "kFabricMaxPayloadBytes = 4352"

definition kMaxPutKeyBytes :: u32 where
  "kMaxPutKeyBytes = 128"

text \<open>Sixteen bytes of packet header and thirty-two of chunk header precede the value.\<close>

definition kMaxChunkValueBytes :: u32 where
  "kMaxChunkValueBytes = ((kFabricMaxPayloadBytes - 16 - 32) div 32) * 32"

definition kMaxChunkAlignedValueBytes :: u32 where
  "kMaxChunkAlignedValueBytes = ((- 1) div kMaxChunkValueBytes) * kMaxChunkValueBytes"

definition chunk_count_for :: "u32 \<Rightarrow> u32" where
  "chunk_count_for bytes = (if bytes = 0 then 0 else 1 + (bytes - 1) div kMaxChunkValueBytes)"

definition chunk_aligned_value_bytes :: "u32 \<Rightarrow> u32" where
  "chunk_aligned_value_bytes bytes = chunk_count_for bytes * kMaxChunkValueBytes"

lemma kMaxChunkValueBytes_eq: "kMaxChunkValueBytes = 4288"
  by (simp add: kMaxChunkValueBytes_def kFabricMaxPayloadBytes_def)

lemma unat_kMaxChunkValueBytes [simp]: "unat kMaxChunkValueBytes = 4288"
  by (simp add: kMaxChunkValueBytes_eq)

lemma kMaxChunkAlignedValueBytes_eq: "kMaxChunkAlignedValueBytes = 4294963712"
  by (simp add: kMaxChunkAlignedValueBytes_def kMaxChunkValueBytes_eq)

lemma unat_chunk_count_for: "unat (chunk_count_for b) = (unat b + 4287) div 4288"
proof (cases "b = 0")
  case True
  then show ?thesis by (simp add: chunk_count_for_def)
next
  case False
  then have pos: "1 \<le> unat b" by (simp add: unat_gt_0 Suc_le_eq)
  have sub: "unat (b - 1) = unat b - 1"
    using False by (simp add: unat_minus_one)
  have q: "unat ((b - 1) div kMaxChunkValueBytes) = (unat b - 1) div 4288"
    by (simp add: unat_div sub)
  have "(unat b - 1) div 4288 \<le> unat b - 1" by (rule div_le_dividend)
  then have small: "unat (1 :: u32) + unat ((b - 1) div kMaxChunkValueBytes) < 4294967296"
    using unat_less_4G [of b] pos unfolding q unat_1 by linarith
  have "unat (chunk_count_for b) = 1 + (unat b - 1) div 4288"
    using False unat_plus_fits [OF small] by (simp only: chunk_count_for_def q if_False) simp
  also have "\<dots> = (unat b - 1 + 4288) div 4288" by simp
  also have "\<dots> = (unat b + 4287) div 4288" using pos by (simp add: algebra_simps)
  finally show ?thesis .
qed

lemma chunk_count_for_0_iff [simp]: "chunk_count_for b = 0 \<longleftrightarrow> b = 0"
proof -
  have "chunk_count_for b = 0 \<longleftrightarrow> unat (chunk_count_for b) = 0" by simp
  also have "\<dots> \<longleftrightarrow> unat b = 0" by (simp add: unat_chunk_count_for div_eq_0_iff)
  finally show ?thesis by simp
qed

text \<open>The units cover the bytes, and the last unit is not empty.\<close>

lemma chunk_count_for_covers: "unat b \<le> unat (chunk_count_for b) * 4288"
  unfolding unat_chunk_count_for by linarith

lemma chunk_count_for_tight: "unat (chunk_count_for b) * 4288 < unat b + 4288"
  unfolding unat_chunk_count_for by linarith

lemma chunk_count_for_bound: "unat (chunk_count_for b) \<le> 1001625"
  unfolding unat_chunk_count_for using unat_less_4G [of b] by linarith

lemma unat_chunk_aligned_value_bytes:
  assumes "b \<le> kMaxChunkAlignedValueBytes"
  shows "unat (chunk_aligned_value_bytes b) = unat (chunk_count_for b) * 4288"
proof -
  have "unat b \<le> 4294963712"
    using assms by (simp add: word_le_nat_alt kMaxChunkAlignedValueBytes_eq)
  then have "(unat b + 4287) div 4288 \<le> (4294963712 + 4287) div 4288"
    by (intro div_le_mono) simp
  then have "(unat b + 4287) div 4288 \<le> 1001624" by simp
  then show ?thesis
    by (simp add: chunk_aligned_value_bytes_def unat_mult_fits unat_chunk_count_for)
qed

section \<open>Powers of two\<close>

text \<open>
  \<open>ceil_power_of_two\<close> doubles a 32-bit power until it reaches the argument. Above \<open>2\<^sup>3\<^sup>1\<close> the
  doubling wraps to zero and the loop never ends, so the function is partial. \<open>next_pow2\<close> of the
  layout header is the same loop.
\<close>

partial_function (option) pow2_loop :: "u32 \<Rightarrow> u32 \<Rightarrow> u32 option" where
  "pow2_loop x p = (if p < x then pow2_loop x (push_bit 1 p) else Some p)"

definition ceil_power_of_two :: "u32 \<Rightarrow> u32 option" where
  "ceil_power_of_two value = pow2_loop value 1"

definition hash_num_buckets :: "u32 \<Rightarrow> u32 option" where
  "hash_num_buckets max_keys = pow2_loop (if max_keys \<noteq> 0 then max_keys * 2 else 2) 1"

definition buddy_block_units_for :: "u32 \<Rightarrow> u32 option" where
  "buddy_block_units_for bytes = ceil_power_of_two (chunk_count_for bytes)"

definition normalize_value_heap_bytes :: "u32 \<Rightarrow> u32 \<Rightarrow> u32 option" where
  "normalize_value_heap_bytes requested_bytes max_value_bytes =
     (let rounded_request = (requested_bytes div kMaxChunkValueBytes) * kMaxChunkValueBytes
      in map_option (\<lambda>units. let minimum = units * kMaxChunkValueBytes
                             in if rounded_request < minimum then minimum else rounded_request)
           (buddy_block_units_for max_value_bytes))"

lemma unat_shift1_u32: "unat p < 2147483648 \<Longrightarrow> unat (push_bit 1 p :: u32) = 2 * unat p"
  by (simp add: push_bit_eq_mult unat_mult_fits)

lemma unat_pow2_u32: "k < 32 \<Longrightarrow> unat (2 ^ k :: u32) = 2 ^ k"
proof -
  assume "k < 32"
  then have "(2::nat) ^ k < 2 ^ 32" by (rule power_strict_increasing) simp
  moreover have "(2 ^ k :: u32) = of_nat (2 ^ k)" by simp
  ultimately show ?thesis by (simp only: unat_of_nat) simp
qed

lemma pow2_loop_step: "unat p < 2 ^ 31 \<Longrightarrow> p < x \<Longrightarrow> pow2_loop x p = pow2_loop x (push_bit 1 p)"
  by (subst pow2_loop.simps) simp

lemma pow2_loop_stop: "\<not> p < x \<Longrightarrow> pow2_loop x p = Some p"
  by (subst pow2_loop.simps) simp

text \<open>
  Started at a power of two that is not yet past the argument, the loop returns the least power
  of two that is at least the argument.
\<close>

lemma pow2_loop_total:
  assumes "unat p = 2 ^ k" and "k \<le> 31" and "unat x \<le> 2 ^ 31"
    and "k = 0 \<or> 2 ^ (k - 1) < unat x"
  shows "\<exists>j \<ge> k. pow2_loop x p = Some (2 ^ j) \<and> j \<le> 31 \<and> unat x \<le> 2 ^ j
           \<and> (j = 0 \<or> 2 ^ (j - 1) < unat x)"
  using assms
proof (induction "31 - k" arbitrary: k p)
  case (0 k p)
  then have "\<not> p < x" by (simp add: word_less_nat_alt)
  moreover have "p = 2 ^ k" using 0 by (simp add: word_unat_eq_iff unat_pow2_u32)
  ultimately show ?case using 0 by (auto intro!: exI [of _ k] simp: pow2_loop_stop word_less_nat_alt)
next
  case (Suc d k p)
  have pk: "p = 2 ^ k" using Suc.prems Suc.hyps(2) by (simp add: word_unat_eq_iff unat_pow2_u32)
  show ?case
  proof (cases "p < x")
    case False
    then show ?thesis
      using Suc.prems pk by (auto intro!: exI [of _ k] simp: pow2_loop_stop word_less_nat_alt)
  next
    case True
    have k31: "k < 31" using Suc.hyps(2) by simp
    have d1: "d = 31 - Suc k" using Suc.hyps(2) by simp
    from k31 have le: "(2::nat) ^ k \<le> 2 ^ 30" by (intro power_increasing) auto
    then have u: "unat (push_bit 1 p) = 2 ^ Suc k"
      using Suc.prems(1) unat_shift1_u32 [of p] by simp
    have "2 ^ (Suc k - 1) < unat x" using True Suc.prems(1) by (simp add: word_less_nat_alt)
    then obtain j where "j \<ge> Suc k" "pow2_loop x (push_bit 1 p) = Some (2 ^ j)" "j \<le> 31"
      "unat x \<le> 2 ^ j" "j = 0 \<or> 2 ^ (j - 1) < unat x"
      using Suc.hyps(1) [OF d1 u _ Suc.prems(3)] k31 by (metis Suc_leI)
    moreover have "unat p < 2 ^ 31" using Suc.prems(1) le by simp
    ultimately show ?thesis using pow2_loop_step [OF _ True] by (intro exI [of _ j]) auto
  qed
qed

text \<open>Masking with a power of two less one is the remainder.\<close>

lemma pow2_u32_exponent:
  assumes "unat (nb :: u32) = 2 ^ k"
  shows "k < 32" and "nb = 2 ^ k"
proof -
  show k: "k < 32"
  proof (rule ccontr)
    assume "\<not> k < 32"
    then have "(2::nat) ^ 32 \<le> 2 ^ k" by (intro power_increasing) auto
    then show False using assms unat_less_4G [of nb] by simp
  qed
  show "nb = 2 ^ k" using assms k by (simp add: word_unat_eq_iff unat_pow2_u32)
qed

lemma unat_and_mask:
  assumes "unat (nb :: u32) = 2 ^ k"
  shows "unat (x AND (nb - 1)) = unat x mod unat nb"
proof -
  have "x AND (nb - 1) = take_bit k x"
    by (simp add: take_bit_eq_mask mask_eq_exp_minus_1 pow2_u32_exponent [OF assms])
  then have "unat (x AND (nb - 1)) = take_bit k (unat x)" by (simp add: unsigned_take_bit_eq)
  then show ?thesis by (simp add: take_bit_eq_mod assms)
qed

end
