(* ===== verification/Host_Pool.thy ===== *)
theory Host_Pool
  imports Protocol
begin

text \<open>
  The host value pool: \<^verbatim>\<open>ServerRuntimeCore::pool_alloc\<close> and \<^verbatim>\<open>pool_release\<close> of
  \<^verbatim>\<open>src/native/ttnn/server_runtime/server_storage.cpp\<close>. The pool is an arena of value units; the
  free units are kept in a \<^verbatim>\<open>std::map\<close> from the first unit of a free extent to its length.
  Allocation is first fit, and a release merges the extent with the free extents that touch it.

  The abstract pool is the set of free units. The extents are kept maximal (no two of them touch),
  so a free set has one representation only, and every statement about the list of extents
  reduces to one about sets. The locale \<open>extent_allocator\<close> states what the owners of extents rely on.
\<close>

section \<open>The free extents and their operations\<close>

record pool_state =
  pool_mapped :: bool
  pool_units_total :: u32
  pool_free :: "u32 omap"

definition pool_alloc :: "u32 \<Rightarrow> ('z pool_state_scheme, u32 option) io" where
  "pool_alloc units =
     bindE (gets (\<lambda>s. (pool_mapped s, pool_free s))) (\<lambda>(mapped, free).
     if \<not> mapped \<or> units = 0 then ret None
     else case find (\<lambda>it. \<not> snd it < units) free of
         None \<Rightarrow> ret None
       | Some (unit, len) \<Rightarrow>
           (let leftover = len - units in
            seqE (modify (pool_free_update (omap_erase unit)))
           (seqE (whenE (0 < leftover)
                   (modify (pool_free_update (omap_emplace (unit + units) leftover))))
                 (ret (Some unit)))))"

definition pool_release :: "u32 \<Rightarrow> u32 \<Rightarrow> ('z pool_state_scheme, unit) io" where
  "pool_release unit units =
     (if units = 0 then ret () else
      bindE (gets (\<lambda>s. (pool_units_total s, pool_free s))) (\<lambda>(cap, free).
      seqE (check (unit + units \<le> cap \<and> unit \<le> unit + units)
              (Fatal ''pool_release: extent is outside the pool''))
     (let next = omap_from unit free in
      seqE (check (next = [] \<or> unit + units \<le> fst (hd next))
              (Fatal ''pool_release: extent overlaps the next free extent''))
     (bindE (if next \<noteq> [] \<and> fst (hd next) = unit + units
             then seqE (modify (pool_free_update (omap_erase (fst (hd next)))))
                       (ret (units + snd (hd next)))
             else ret units) (\<lambda>units.
      if omap_before unit free \<noteq> [] then
        (let prev = last (omap_before unit free) in
         seqE (check (fst prev + snd prev \<le> unit)
                 (Fatal ''pool_release: extent overlaps the previous free extent''))
              (if fst prev + snd prev = unit
               then modify (pool_free_update (omap_assign (fst prev) (snd prev + units)))
               else modify (pool_free_update (omap_emplace unit units))))
      else modify (pool_free_update (omap_emplace unit units)))))))"

section \<open>The abstract pool\<close>

text \<open>The units of an extent, and the free units.\<close>

definition run :: "u32 \<Rightarrow> u32 \<Rightarrow> nat set" where
  "run u n = {unat u ..< unat u + unat n}"

definition free_set :: "u32 omap \<Rightarrow> nat set" where
  "free_set m = (\<Union>e \<in> set m. run (fst e) (snd e))"

text \<open>Extents are not empty, inside the pool, in order, and no two of them touch.\<close>

definition apart :: "u32 \<times> u32 \<Rightarrow> u32 \<times> u32 \<Rightarrow> bool" where
  "apart d e = (unat (fst d) + unat (snd d) < unat (fst e))"

definition free_ok :: "u32 \<Rightarrow> u32 omap \<Rightarrow> bool" where
  "free_ok cap m = ((\<forall>e \<in> set m. snd e \<noteq> 0 \<and> unat (fst e) + unat (snd e) \<le> unat cap)
     \<and> sorted_wrt apart m)"

definition pool_ok :: "'z pool_state_scheme \<Rightarrow> bool" where
  "pool_ok s = free_ok (pool_units_total s) (pool_free s)"

definition pool_free_set :: "'z pool_state_scheme \<Rightarrow> nat set" where
  "pool_free_set s = free_set (pool_free s)"

lemma free_set_simps [simp]:
  "free_set [] = {}"
  "free_set ((u, n) # m) = run u n \<union> free_set m"
  "free_set (m @ m') = free_set m \<union> free_set m'"
  by (auto simp: free_set_def)

lemma run_0 [simp]: "run u 0 = {}"
  by (simp add: run_def)

lemma run_eq_empty [simp]: "run u n = {} \<longleftrightarrow> n = 0"
  by (simp add: run_def)

lemma finite_run [simp]: "finite (run u n)"
  by (simp add: run_def)

lemma card_run [simp]: "card (run u n) = unat n"
  by (simp add: run_def)

lemma finite_free_set [simp]: "finite (free_set m)"
  by (simp add: free_set_def)

lemma free_ok_Nil [simp]: "free_ok cap []"
  by (simp add: free_ok_def)

lemma free_ok_append: "free_ok cap (m @ m') \<longleftrightarrow>
    free_ok cap m \<and> free_ok cap m' \<and> (\<forall>d \<in> set m. \<forall>e \<in> set m'. apart d e)"
  by (auto simp: free_ok_def sorted_wrt_append)

lemma free_ok_Cons: "free_ok cap (d # m) \<longleftrightarrow>
    snd d \<noteq> 0 \<and> unat (fst d) + unat (snd d) \<le> unat cap \<and> (\<forall>e \<in> set m. apart d e)
    \<and> free_ok cap m"
  by (auto simp: free_ok_def)

lemma free_ok_bound: "free_ok cap m \<Longrightarrow> e \<in> set m \<Longrightarrow>
    0 < unat (snd e) \<and> unat (fst e) + unat (snd e) \<le> unat cap"
  by (auto simp: free_ok_def unat_gt_0)

lemma free_set_bounded: "free_ok cap m \<Longrightarrow> x \<in> free_set m \<Longrightarrow> x < unat cap"
  by (force simp: free_set_def run_def dest: free_ok_bound)

lemma free_ok_omap_ok: "free_ok cap m \<Longrightarrow> omap_ok m"
  unfolding free_ok_def omap_ok_def sorted_wrt_map
  by (erule conjE, erule sorted_wrt_mono_rel [rotated])
    (auto simp: apart_def word_less_nat_alt)

text \<open>Two extents of the list are the same entry, or one lies wholly and strictly before the other.\<close>

lemma free_ok_cases:
  "free_ok cap m \<Longrightarrow> d \<in> set m \<Longrightarrow> e \<in> set m \<Longrightarrow> d = e \<or> apart d e \<or> apart e d"
  by (induction m) (auto simp: free_ok_Cons)

text \<open>A run of free units lies inside one extent.\<close>

lemma free_run_in_extent:
  assumes ok: "free_ok cap m" and sub: "{v ..< v + k} \<subseteq> free_set m" and k: "0 < k"
  obtains e where "e \<in> set m" "unat (fst e) \<le> v" "v + k \<le> unat (fst e) + unat (snd e)"
proof -
  have "v \<in> free_set m" using sub k by auto
  then obtain e where e: "e \<in> set m" "unat (fst e) \<le> v" "v < unat (fst e) + unat (snd e)"
    by (auto simp: free_set_def run_def)
  have "v + k \<le> unat (fst e) + unat (snd e)"
  proof (rule ccontr)
    assume "\<not> v + k \<le> unat (fst e) + unat (snd e)"
    then have "unat (fst e) + unat (snd e) \<in> free_set m" using sub e by auto
    then obtain d where "d \<in> set m" "unat (fst d) \<le> unat (fst e) + unat (snd e)"
      "unat (fst e) + unat (snd e) < unat (fst d) + unat (snd d)"
      by (auto simp: free_set_def run_def)
    then show False using free_ok_cases [OF ok e(1), of d] e by (auto simp: apart_def)
  qed
  then show ?thesis using that e by blast
qed

text \<open>The first extent starts at the least free unit and ends at the first unit that is not free.\<close>

lemma free_set_hd:
  assumes ok: "free_ok cap ((u, n) # m)"
  shows "unat u \<in> free_set ((u, n) # m)" "\<forall>x \<in> free_set ((u, n) # m). unat u \<le> x"
    "unat u + unat n \<notin> free_set ((u, n) # m)" "free_set m = free_set ((u, n) # m) - run u n"
proof -
  have a: "\<forall>e \<in> set m. unat u + unat n < unat (fst e)" and n: "0 < unat n"
    using ok by (auto simp: free_ok_Cons apart_def unat_gt_0)
  then have b: "\<forall>x \<in> free_set m. unat u + unat n < x" by (fastforce simp: free_set_def run_def)
  show "unat u \<in> free_set ((u, n) # m)" using n by (simp add: run_def)
  show "\<forall>x \<in> free_set ((u, n) # m). unat u \<le> x" using b by (auto simp: run_def)
  show "unat u + unat n \<notin> free_set ((u, n) # m)" using b by (auto simp: run_def)
  show "free_set m = free_set ((u, n) # m) - run u n" using b by (fastforce simp: run_def)
qed

lemma free_set_empty_iff: "free_ok cap m \<Longrightarrow> free_set m = {} \<longleftrightarrow> m = []"
  by (cases m) (auto simp: free_ok_Cons)

text \<open>The free set determines the list of extents.\<close>

theorem free_set_inj:
  assumes "free_ok cap m" and "free_ok cap' m'" and "free_set m = free_set m'"
  shows "m = m'"
  using assms
proof (induction m arbitrary: m')
  case Nil
  then show ?case using free_set_empty_iff [of cap' m'] by simp
next
  case (Cons d m)
  obtain u n where d: "d = (u, n)" by (cases d)
  have "m' \<noteq> []" using Cons.prems free_set_empty_iff [of cap "d # m"] by auto
  then obtain v k r where m': "m' = (v, k) # r" by (cases m') auto
  note A = free_set_hd [OF Cons.prems(1) [unfolded d]]
  note B = free_set_hd [OF Cons.prems(2) [unfolded m']]
  note eq = Cons.prems(3) [unfolded d m']
  have uv: "unat u = unat v"
    using A(1) B(1) A(2) B(2) eq by (metis order_antisym)
  have "\<not> unat n < unat k" using A(3) eq uv by (auto simp: run_def)
  moreover have "\<not> unat k < unat n" using B(3) eq uv by (auto simp: run_def)
  ultimately have nk: "unat n = unat k" by simp
  have "u = v" "n = k" using uv nk by (simp_all add: u32_eq_iff)
  then have "free_set m = free_set r" using A(4) B(4) eq by simp
  moreover have "free_ok cap m" using Cons.prems(1) by (simp add: free_ok_Cons)
  moreover have "free_ok cap' r" using Cons.prems(2) m' by (simp add: free_ok_Cons)
  ultimately show ?case using Cons.IH \<open>u = v\<close> \<open>n = k\<close> d m' by blast
qed


section \<open>Allocation\<close>

lemma find_split: "find P xs = Some e \<Longrightarrow> \<exists>a b. xs = a @ e # b \<and> P e \<and> (\<forall>d \<in> set a. \<not> P d)"
proof (induction xs)
  case Nil
  then show ?case by simp
next
  case (Cons x xs)
  show ?case
  proof (cases "P x")
    case True
    then show ?thesis using Cons.prems by (intro exI [of _ "[]"] exI [of _ xs]) simp
  next
    case False
    then obtain a b where "xs = a @ e # b" "P e" "\<forall>d \<in> set a. \<not> P d"
      using Cons by auto
    then show ?thesis using False by (intro exI [of _ "x # a"] exI [of _ b]) simp
  qed
qed

lemma pool_alloc_run:
  "pool_alloc units s =
     (if \<not> pool_mapped s \<or> units = 0 then (Inr None, s)
      else case find (\<lambda>it. \<not> snd it < units) (pool_free s) of
          None \<Rightarrow> (Inr None, s)
        | Some (u, n) \<Rightarrow> (Inr (Some u), s\<lparr>pool_free :=
            (if units < n then omap_emplace (u + units) (n - units) (omap_erase u (pool_free s))
             else omap_erase u (pool_free s))\<rparr>))"
proof -
  have "\<not> n < units \<Longrightarrow> 0 < n - units \<longleftrightarrow> units < n" for n
    by (simp add: word_less_nat_alt unat_minus_fits word_le_nat_alt not_less)
  moreover have "find (\<lambda>it. \<not> snd it < units) (pool_free s) = Some (u, n) \<Longrightarrow> \<not> n < units" for u n
    by (auto dest: find_split)
  ultimately show ?thesis by (auto simp: pool_alloc_def io_defs Let_def split: option.splits)
qed

text \<open>Cutting \<open>units\<close> units off the front of an extent.\<close>

lemma alloc_cut:
  fixes a b :: "u32 omap"
  assumes ok: "free_ok cap (a @ (u, n) # b)" and le: "units \<le> n" and pos: "units \<noteq> 0"
  defines "m' \<equiv> (if units < n then omap_emplace (u + units) (n - units) (omap_erase u (a @ (u, n) # b))
             else omap_erase u (a @ (u, n) # b))"
  shows "free_ok cap m'" "free_set m' = free_set (a @ (u, n) # b) - run u units"
    "run u units \<subseteq> free_set (a @ (u, n) # b)"
proof -
  have A: "\<forall>d \<in> set a. unat (fst d) + unat (snd d) < unat u"
    and B: "\<forall>e \<in> set b. unat u + unat n < unat (fst e)"
    and okA: "free_ok cap a" and okB: "free_ok cap b"
    and cross: "\<forall>d \<in> set a. \<forall>e \<in> set b. apart d e"
    and un: "unat u + unat n \<le> unat cap"
    using ok by (auto simp: free_ok_append free_ok_Cons apart_def)
  have capb: "unat cap < 4294967296" by simp
  have le': "unat units \<le> unat n" using le by (simp add: word_le_nat_alt)
  have uu: "unat (u + units) = unat u + unat units"
    using un le' capb by (intro unat_plus_fits) linarith
  have nu: "unat (n - units) = unat n - unat units" by (rule unat_minus_fits [OF le])
  have er: "omap_erase u (a @ (u, n) # b) = a @ b"
    using A B by (intro omap_erase_between) (auto simp: word_less_nat_alt)
  have fa: "\<forall>x \<in> free_set a. x < unat u" using A by (fastforce simp: free_set_def run_def)
  have fb: "\<forall>x \<in> free_set b. unat u + unat n < x" using B by (fastforce simp: free_set_def run_def)
  have m': "m' = a @ (if units < n then [(u + units, n - units)] else []) @ b"
  proof (cases "units < n")
    case True
    have "omap_emplace (u + units) (n - units) (a @ b) = a @ (u + units, n - units) # b"
      using A B uu le' by (intro omap_emplace_between) (auto simp: word_less_nat_alt)
    then show ?thesis using True by (simp add: m'_def er)
  next
    case False
    then show ?thesis by (simp add: m'_def er)
  qed
  show "free_ok cap m'"
    unfolding m' free_ok_append using okA okB cross A B un le' uu nu
    by (auto simp: free_ok_Cons apart_def word_less_nat_alt)
  show "free_set m' = free_set (a @ (u, n) # b) - run u units"
  proof (cases "units < n")
    case True
    then show ?thesis unfolding m' using fa fb le' uu nu by (fastforce simp: run_def)
  next
    case False
    then have "units = n" using le by simp
    then show ?thesis unfolding m' using fa fb by (fastforce simp: run_def)
  qed
  show "run u units \<subseteq> free_set (a @ (u, n) # b)"
    using le' by (auto simp: run_def)
qed

text \<open>
  What an allocation promises: when it succeeds, it takes the lowest run of free units that is
  long enough and nothing else; when it fails on a mapped pool, no run is long enough.
\<close>

lemma pool_alloc_Some:
  assumes ok: "pool_ok s" and r: "pool_alloc units s = (Inr (Some u), t)"
  shows "pool_ok t" "pool_free_set t = pool_free_set s - run u units"
    "run u units \<subseteq> pool_free_set s" "units \<noteq> 0" "pool_mapped s"
    "\<And>v. {v ..< v + unat units} \<subseteq> pool_free_set s \<Longrightarrow> unat u \<le> v"
    "t = s\<lparr>pool_free := pool_free t\<rparr>"
proof -
  have m: "pool_mapped s" "units \<noteq> 0"
    using r by (auto simp: pool_alloc_run split: if_splits)
  then obtain n where f: "find (\<lambda>it. \<not> snd it < units) (pool_free s) = Some (u, n)"
    and t: "t = s\<lparr>pool_free :=
            (if units < n then omap_emplace (u + units) (n - units) (omap_erase u (pool_free s))
             else omap_erase u (pool_free s))\<rparr>"
    using r by (auto simp: pool_alloc_run split: option.splits)
  from find_split [OF f] obtain a b where ab: "pool_free s = a @ (u, n) # b"
    "units \<le> n" "\<forall>d \<in> set a. snd d < units"
    by auto
  note cut = alloc_cut [OF ok [unfolded pool_ok_def ab(1)] ab(2) m(2)]
  show "pool_ok t" using cut(1) [folded ab(1)] by (simp add: pool_ok_def t)
  show "pool_free_set t = pool_free_set s - run u units"
    using cut(2) [folded ab(1)] by (simp add: pool_free_set_def t)
  show "run u units \<subseteq> pool_free_set s" using cut(3) by (simp add: pool_free_set_def ab(1))
  show "units \<noteq> 0" "pool_mapped s" by (fact m)+
  show "t = s\<lparr>pool_free := pool_free t\<rparr>" by (simp add: t)
  fix v assume "{v ..< v + unat units} \<subseteq> pool_free_set s"
  then obtain e where e: "e \<in> set (pool_free s)" "unat (fst e) \<le> v"
    "v + unat units \<le> unat (fst e) + unat (snd e)"
    using free_run_in_extent ok m(2) unfolding pool_ok_def pool_free_set_def
    by (metis unat_gt_0)
  then have "\<not> snd e < units" by (simp add: word_less_nat_alt)
  then have "e \<in> set ((u, n) # b)" using e(1) ab by auto
  then have "unat u \<le> unat (fst e)"
    using ok by (auto simp: pool_ok_def ab(1) free_ok_append free_ok_Cons apart_def)
  then show "unat u \<le> v" using e(2) by simp
qed

lemma pool_alloc_None:
  assumes ok: "pool_ok s" and r: "pool_alloc units s = (Inr None, t)"
  shows "t = s" "pool_mapped s \<Longrightarrow> units \<noteq> 0 \<Longrightarrow> \<not> {v ..< v + unat units} \<subseteq> pool_free_set s"
proof -
  show "t = s" using r by (auto simp: pool_alloc_run split: if_splits option.splits)
  assume m: "pool_mapped s" "units \<noteq> 0"
  then have none: "find (\<lambda>it. \<not> snd it < units) (pool_free s) = None"
    using r by (auto simp: pool_alloc_run split: option.splits)
  show "\<not> {v ..< v + unat units} \<subseteq> pool_free_set s"
  proof
    assume "{v ..< v + unat units} \<subseteq> pool_free_set s"
    then obtain e where e: "e \<in> set (pool_free s)" "unat (fst e) \<le> v"
      "v + unat units \<le> unat (fst e) + unat (snd e)"
      using free_run_in_extent ok m(2) unfolding pool_ok_def pool_free_set_def
      by (metis unat_gt_0)
    then have "\<not> snd e < units" by (simp add: word_less_nat_alt)
    then show False using none e(1) unfolding find_None_iff by blast
  qed
qed

lemma pool_alloc_returns: "\<exists>r t. pool_alloc units s = (Inr r, t)"
  by (auto simp: pool_alloc_run split: option.splits)


section \<open>Release\<close>

text \<open>
  A range that is inside the pool and touches no free unit splits the list into the extents that
  end at or before it and those that begin at or after its end.
\<close>

definition releasable :: "u32 \<Rightarrow> u32 \<Rightarrow> 'z pool_state_scheme \<Rightarrow> bool" where
  "releasable unit units s = (unat unit + unat units \<le> unat (pool_units_total s)
     \<and> run unit units \<inter> pool_free_set s = {})"

lemma extent_disjoint_iff:
  "k \<noteq> 0 \<Longrightarrow> n \<noteq> 0 \<Longrightarrow> run u k \<inter> run v n = {} \<longleftrightarrow>
     unat u + unat k \<le> unat v \<or> unat v + unat n \<le> unat u"
  using unat_gt_0 [of k] unat_gt_0 [of n] by (auto simp: run_def)

lemma pool_release_run:
  fixes s :: "'z pool_state_scheme" and unit units :: u32
  assumes "units \<noteq> 0"
  defines "next \<equiv> omap_from unit (pool_free s)" and "before \<equiv> omap_before unit (pool_free s)"
  shows "pool_release unit units s =
     (if \<not> (unit + units \<le> pool_units_total s \<and> unit \<le> unit + units)
      then (Inl (Fatal ''pool_release: extent is outside the pool''), s)
      else if next \<noteq> [] \<and> fst (hd next) < unit + units
      then (Inl (Fatal ''pool_release: extent overlaps the next free extent''), s)
      else let merge = (next \<noteq> [] \<and> fst (hd next) = unit + units);
               units' = (if merge then units + snd (hd next) else units);
               free' = (if merge then omap_erase (fst (hd next)) (pool_free s) else pool_free s);
               prev = last before
           in if before = [] then (Inr (), s\<lparr>pool_free := omap_emplace unit units' free'\<rparr>)
              else if \<not> fst prev + snd prev \<le> unit
              then (Inl (Fatal ''pool_release: extent overlaps the previous free extent''),
                    s\<lparr>pool_free := free'\<rparr>)
              else if fst prev + snd prev = unit
              then (Inr (), s\<lparr>pool_free := omap_assign (fst prev) (snd prev + units') free'\<rparr>)
              else (Inr (), s\<lparr>pool_free := omap_emplace unit units' free'\<rparr>))"
  using assms(1) unfolding next_def before_def
  by (auto simp: pool_release_def io_defs Let_def not_le)

text \<open>Inserting a range between the extents before and after it, merged or not.\<close>

lemma release_step:
  fixes A B :: "u32 omap" and u n cap :: u32
  assumes ok: "free_ok cap (A @ B)" and inb: "unat u + unat n \<le> unat cap" and n: "n \<noteq> 0"
    and A: "\<forall>d \<in> set A. unat (fst d) + unat (snd d) \<le> unat u"
    and B: "\<forall>e \<in> set B. unat u + unat n \<le> unat (fst e)"
  defines "merge \<equiv> B \<noteq> [] \<and> fst (hd B) = u + n"
  defines "n' \<equiv> (if merge then n + snd (hd B) else n)"
    and "B' \<equiv> (if merge then tl B else B)"
  shows "free_ok cap (A @ B')" and "n' \<noteq> 0" and "unat u + unat n' \<le> unat cap"
    and "\<forall>e \<in> set B'. unat u + unat n' < unat (fst e)"
    and "free_set (A @ B') \<union> run u n' = free_set (A @ B) \<union> run u n"
    and "(if merge then omap_erase (fst (hd B)) (A @ B) else A @ B) = A @ B'"
proof -
  have un: "unat (u + n) = unat u + unat n"
    by (rule unat_plus_le [OF inb])
  have all: "free_ok cap (A @ B') \<and> n' \<noteq> 0 \<and> unat u + unat n' \<le> unat cap
      \<and> (\<forall>e \<in> set B'. unat u + unat n' < unat (fst e))
      \<and> free_set (A @ B') \<union> run u n' = free_set (A @ B) \<union> run u n
      \<and> (if merge then omap_erase (fst (hd B)) (A @ B) else A @ B) = A @ B'"
  proof (cases merge)
    case False
    have "unat u + unat n < unat (fst e)" if e: "e \<in> set B" for e
    proof -
      obtain v k R where Bs: "B = (v, k) # R" using e by (cases B) auto
      then have "v \<noteq> u + n" using False by (simp add: merge_def)
      then have "unat u + unat n \<noteq> unat v" using un by (metis u32_eq_iff)
      moreover have "unat u + unat n \<le> unat v" using B Bs by simp
      moreover have "e = (v, k) \<or> unat v + unat k < unat (fst e)"
        using ok e by (auto simp: Bs free_ok_append free_ok_Cons apart_def)
      ultimately show ?thesis by auto
    qed
    then show ?thesis using False ok n inb by (simp add: n'_def B'_def)
  next
    case True
    then obtain k R where Bs: "B = (u + n, k) # R" by (cases B) (auto simp: merge_def)
    have k: "unat u + unat n + unat k \<le> unat cap" and R: "\<forall>e \<in> set R. unat u + unat n + unat k < unat (fst e)"
      using ok un by (auto simp: Bs free_ok_append free_ok_Cons apart_def)
    have nk: "unat (n + k) = unat n + unat k"
      using k unat_less_4G [of cap] by (intro unat_plus_fits) linarith
    have "omap_erase (u + n) (A @ (u + n, k) # R) = A @ R"
    proof (rule omap_erase_between)
      show "\<forall>d \<in> set A. fst d < u + n"
        using A un n unat_gt_0 [of n] by (auto simp: word_less_nat_alt)
      show "\<forall>e \<in> set R. u + n < fst e" using R un by (fastforce simp: word_less_nat_alt)
    qed
    moreover have "n + k \<noteq> 0" using nk n by (metis add_is_0 unat_eq_0_u32)
    moreover have "run u (n + k) = run u n \<union> run (u + n) k" using nk un by (auto simp: run_def)
    moreover have "free_ok cap (A @ R)" using ok by (auto simp: Bs free_ok_append free_ok_Cons)
    ultimately show ?thesis using True k R nk by (auto simp: n'_def B'_def Bs)
  qed
  show "free_ok cap (A @ B')" using all by blast
  show "n' \<noteq> 0" using all by blast
  show "unat u + unat n' \<le> unat cap" using all by blast
  show "\<forall>e \<in> set B'. unat u + unat n' < unat (fst e)" using all by blast
  show "free_set (A @ B') \<union> run u n' = free_set (A @ B) \<union> run u n" using all by blast
  show "(if merge then omap_erase (fst (hd B)) (A @ B) else A @ B) = A @ B'" using all by blast
qed

lemma release_emplace:
  assumes ok: "free_ok cap (A @ B)" and inb: "unat u + unat n \<le> unat cap" and n: "n \<noteq> 0"
    and A: "\<forall>d \<in> set A. unat (fst d) + unat (snd d) < unat u"
    and B: "\<forall>e \<in> set B. unat u + unat n < unat (fst e)"
  shows "omap_emplace u n (A @ B) = A @ (u, n) # B" "free_ok cap (A @ (u, n) # B)"
proof -
  show "omap_emplace u n (A @ B) = A @ (u, n) # B"
    using A B by (intro omap_emplace_between) (fastforce simp: word_less_nat_alt)+
  show "free_ok cap (A @ (u, n) # B)"
    using assms by (auto simp: free_ok_append free_ok_Cons apart_def)
qed

lemma release_assign:
  assumes ok: "free_ok cap (A @ (p, l) # B)" and inb: "unat u + unat n \<le> unat cap"
    and u: "unat u = unat p + unat l" and n: "n \<noteq> 0"
    and B: "\<forall>e \<in> set B. unat u + unat n < unat (fst e)"
  shows "omap_assign p (l + n) (A @ (p, l) # B) = A @ (p, l + n) # B"
    "free_ok cap (A @ (p, l + n) # B)"
    "free_set (A @ (p, l + n) # B) = free_set (A @ (p, l) # B) \<union> run u n"
proof -
  have ln: "unat (l + n) = unat l + unat n"
    using inb u unat_less_4G [of cap] by (intro unat_plus_fits) linarith
  have A: "\<forall>d \<in> set A. fst d \<noteq> p"
    using ok by (auto simp: free_ok_append apart_def)
  have B': "\<forall>e \<in> set B. fst e \<noteq> p" using B u by fastforce
  have "map (\<lambda>e. if fst e = p then (p, l + n) else e) A = A"
    using A by (intro map_idI) auto
  moreover have "map (\<lambda>e. if fst e = p then (p, l + n) else e) B = B"
    using B' by (intro map_idI) auto
  ultimately show "omap_assign p (l + n) (A @ (p, l) # B) = A @ (p, l + n) # B"
    by (simp add: omap_assign_def)
  have "l + n \<noteq> 0" using ln n by (metis add_is_0 unat_eq_0_u32)
  then show "free_ok cap (A @ (p, l + n) # B)"
    using ok inb u ln B by (auto simp: free_ok_append free_ok_Cons apart_def)
  have "run p (l + n) = run p l \<union> run u n" using u ln by (auto simp: run_def)
  then show "free_set (A @ (p, l + n) # B) = free_set (A @ (p, l) # B) \<union> run u n" by auto
qed


text \<open>Where a releasable range stands among the extents.\<close>

lemma releasable_parts:
  fixes s :: "'z pool_state_scheme" and unit units :: u32
  assumes ok: "pool_ok s" and rel: "releasable unit units s" and n: "units \<noteq> 0"
  defines "A \<equiv> omap_before unit (pool_free s)" and "B \<equiv> omap_from unit (pool_free s)"
  shows "pool_free s = A @ B" "free_ok (pool_units_total s) (A @ B)"
    "unat unit + unat units \<le> unat (pool_units_total s)"
    "\<forall>d \<in> set A. unat (fst d) + unat (snd d) \<le> unat unit"
    "\<forall>e \<in> set B. unat unit + unat units \<le> unat (fst e)"
proof -
  show m: "pool_free s = A @ B" by (simp add: A_def B_def omap_split)
  show okm: "free_ok (pool_units_total s) (A @ B)" using ok by (simp add: pool_ok_def m)
  show "unat unit + unat units \<le> unat (pool_units_total s)" using rel by (simp add: releasable_def)
  have ext: "unat unit + unat units \<le> unat (fst e) \<or> unat (fst e) + unat (snd e) \<le> unat unit"
    "0 < unat (snd e)" if "e \<in> set (A @ B)" for e
  proof -
    have "snd e \<noteq> 0" using okm that by (auto simp: free_ok_def)
    moreover have "run unit units \<inter> run (fst e) (snd e) = {}"
      using rel that by (auto simp: releasable_def pool_free_set_def free_set_def m)
    ultimately show "unat unit + unat units \<le> unat (fst e) \<or> unat (fst e) + unat (snd e) \<le> unat unit"
      "0 < unat (snd e)"
      using n extent_disjoint_iff unat_gt_0 by blast+
  qed
  show "\<forall>d \<in> set A. unat (fst d) + unat (snd d) \<le> unat unit"
  proof
    fix d assume d: "d \<in> set A"
    then have "unat (fst d) < unat unit"
      using omap_before_less [of d unit "pool_free s"] by (simp add: A_def word_less_nat_alt)
    then show "unat (fst d) + unat (snd d) \<le> unat unit" using ext(1) [of d] d by auto
  qed
  show "\<forall>e \<in> set B. unat unit + unat units \<le> unat (fst e)"
  proof
    fix e assume e: "e \<in> set B"
    then have "unat unit \<le> unat (fst e)"
      using omap_from_ge [OF free_ok_omap_ok [OF okm], of e unit]
      unfolding m [symmetric] by (simp add: B_def word_le_nat_alt)
    then show "unat unit + unat units \<le> unat (fst e)" using ext [of e] e by auto
  qed
qed

text \<open>The last step: the range joins the extent before it or becomes an entry.\<close>

definition put_range :: "u32 \<Rightarrow> u32 \<Rightarrow> u32 omap \<Rightarrow> u32 omap \<Rightarrow> u32 omap" where
  "put_range u n A m = (if A \<noteq> [] \<and> fst (last A) + snd (last A) = u
     then omap_assign (fst (last A)) (snd (last A) + n) m else omap_emplace u n m)"

lemma put_range:
  assumes ok: "free_ok cap (A @ B)" and inb: "unat u + unat n \<le> unat cap" and n: "n \<noteq> 0"
    and A: "\<forall>d \<in> set A. unat (fst d) + unat (snd d) \<le> unat u"
    and B: "\<forall>e \<in> set B. unat u + unat n < unat (fst e)"
  shows "free_ok cap (put_range u n A (A @ B))
    \<and> free_set (put_range u n A (A @ B)) = free_set (A @ B) \<union> run u n"
proof (cases "A \<noteq> [] \<and> fst (last A) + snd (last A) = u")
  case True
  then obtain A' p l where A': "A = A' @ [(p, l)]" by (cases A rule: rev_cases) auto
  have u: "unat u = unat p + unat l"
    using True A A' unat_plus_le [of p l u] by simp
  show ?thesis
    using True release_assign [of cap A' p l B u n, OF _ inb u n B] ok by (simp add: put_range_def A')
next
  case False
  have "\<forall>d \<in> set A. unat (fst d) + unat (snd d) < unat u"
  proof (cases A rule: rev_cases)
    case (snoc A' e)
    have le: "unat (fst e) + unat (snd e) \<le> unat u" using A snoc by simp
    then have "unat (fst e + snd e) = unat (fst e) + unat (snd e)"
      by (intro unat_plus_fits) (rule le_less_trans [OF _ unat_less_4G])
    then have "unat (fst e) + unat (snd e) < unat u"
      using le False snoc by (metis last_snoc le_neq_implies_less snoc_eq_iff_butlast u32_eq_iff)
    then show ?thesis using ok snoc by (fastforce simp: free_ok_append apart_def)
  qed simp
  from release_emplace [OF ok inb n this B] False show ?thesis
    by (auto simp: put_range_def)
qed

text \<open>Releasing a range that is inside the pool and not free gives its units back.\<close>

lemma pool_release_ok:
  assumes ok: "pool_ok s" and rel: "releasable unit units s"
  obtains t where "pool_release unit units s = (Inr (), t)" "pool_ok t"
    "pool_free_set t = pool_free_set s \<union> run unit units" "t = s\<lparr>pool_free := pool_free t\<rparr>"
proof (cases "units = 0")
  case True
  then have "pool_release unit units s = (Inr (), s)" by (simp add: pool_release_def io_defs)
  then show ?thesis using that [of s] ok True by simp
next
  case False
  define cap where "cap = pool_units_total s"
  define A where "A = omap_before unit (pool_free s)"
  define B where "B = omap_from unit (pool_free s)"
  note P = releasable_parts [OF ok rel False, folded A_def B_def cap_def]
  define merge where "merge = (B \<noteq> [] \<and> fst (hd B) = unit + units)"
  define n where "n = (if merge then units + snd (hd B) else units)"
  define B' where "B' = (if merge then tl B else B)"
  note step = release_step [OF P(2,3) False P(4,5), folded merge_def, folded n_def B'_def]
  define l where "l = put_range unit n A (A @ B')"
  have l: "free_ok cap l" "free_set l = free_set (A @ B) \<union> run unit units"
    using put_range [OF step(1,3,2) P(4) step(4)] step(5) by (auto simp: l_def)
  have uu: "unat (unit + units) = unat unit + unat units"
    by (rule unat_plus_le [OF P(3)])
  have chk: "unit + units \<le> cap \<and> unit \<le> unit + units"
    "\<not> (B \<noteq> [] \<and> fst (hd B) < unit + units)"
    using P(3,5) uu by (cases B; auto simp: word_le_nat_alt word_less_nat_alt)+
  have "fst (last A) + snd (last A) \<le> unit" if "A \<noteq> []"
  proof -
    have "unat (fst (last A)) + unat (snd (last A)) \<le> unat unit" using P(4) that by simp
    then show ?thesis using unat_plus_le by (simp add: word_le_nat_alt)
  qed
  then have "pool_release unit units s = (Inr (), s\<lparr>pool_free := l\<rparr>)"
    using pool_release_run [OF False, of unit s, folded A_def B_def cap_def, folded merge_def,
        folded n_def, unfolded P(1)] chk step(6)
    by (auto simp: Let_def l_def put_range_def n_def [symmetric])
  then show ?thesis
    using that [of "s\<lparr>pool_free := l\<rparr>"] l by (simp add: pool_ok_def pool_free_set_def cap_def P(1))
qed


text \<open>
  A release that returns was of a releasable range. One that throws leaves a well-formed pool
  with no unit gained: at most the free extent right after the range is lost, when the range
  touches it and overlaps the extent before.
\<close>

lemma pool_release_returnD:
  assumes ok: "pool_ok s" and n: "units \<noteq> 0" and r: "pool_release unit units s = (Inr (), t)"
  shows "releasable unit units s"
proof -
  define cap where "cap = pool_units_total s"
  define A where "A = omap_before unit (pool_free s)"
  define B where "B = omap_from unit (pool_free s)"
  have m: "pool_free s = A @ B" by (simp add: A_def B_def omap_split)
  have okm: "free_ok cap (A @ B)" using ok by (simp add: pool_ok_def m cap_def)
  note R = pool_release_run [OF n, of unit s, folded A_def B_def cap_def]
  have inb: "unit + units \<le> cap" "unit \<le> unit + units" using r R by (auto split: if_splits)
  then have uu: "unat (unit + units) = unat unit + unat units"
    by (intro unat_plus_fits) (simp add: no_wrap_iff)
  have "B = [] \<or> unit + units \<le> fst (hd B)" using r R by (auto split: if_splits)
  then have "\<forall>e \<in> set B. unat unit + unat units \<le> unat (fst e)"
    using okm uu by (cases B) (fastforce simp: free_ok_append free_ok_Cons apart_def word_le_nat_alt)+
  moreover have "\<forall>d \<in> set A. unat (fst d) + unat (snd d) \<le> unat unit"
  proof (cases A rule: rev_cases)
    case (snoc A' e)
    then have e: "fst e + snd e \<le> unit" using r R by (auto simp: Let_def split: if_splits)
    moreover have "unat (fst e + snd e) = unat (fst e) + unat (snd e)"
      using okm snoc by (intro unat_plus_le [of _ _ cap]) (auto simp: free_ok_append free_ok_Cons)
    ultimately show ?thesis
      using okm snoc by (fastforce simp: free_ok_append apart_def word_le_nat_alt)
  qed simp
  ultimately have "run unit units \<inter> free_set (A @ B) = {}"
    by (fastforce simp: free_set_def run_def)
  then show ?thesis
    using inb uu by (simp add: releasable_def pool_free_set_def m cap_def word_le_nat_alt)
qed

lemma erase_extent:
  "free_ok cap m \<Longrightarrow> free_ok cap (omap_erase k m)" "free_set (omap_erase k m) \<subseteq> free_set m"
  by (auto simp: free_ok_def omap_erase_def free_set_def intro: sorted_wrt_filter)

lemma pool_release_throw:
  assumes ok: "pool_ok s" and n: "units \<noteq> 0" and rel: "\<not> releasable unit units s"
  obtains e t where "pool_release unit units s = (Inl (Fatal e), t)" "pool_ok t"
    "pool_free_set t \<subseteq> pool_free_set s" "t = s\<lparr>pool_free := pool_free t\<rparr>"
proof -
  obtain r t where rt: "pool_release unit units s = (r, t)" by (cases "pool_release unit units s") auto
  have "r \<noteq> Inr ()" using pool_release_returnD [OF ok n] rel rt by blast
  with rt pool_release_run [OF n, of unit s] obtain e where
    "r = Inl (Fatal e)" "t = s \<or> t = s\<lparr>pool_free := omap_erase (fst (hd (omap_from unit (pool_free s)))) (pool_free s)\<rparr>"
    by (auto simp: Let_def split: if_splits)
  then show ?thesis
    using rt ok that [of e t] erase_extent by (auto simp: pool_ok_def pool_free_set_def)
qed

section \<open>The contract of an extent allocator\<close>

text \<open>
  What the owners of extents rely on. \<open>free\<close> is the set of free units and \<open>cap\<close> the number of
  units of the pool; \<open>rest\<close> is all that the two operations leave alone.

  A multiset of owned extents \<open>partitions\<close> the pool when every unit below \<open>cap\<close> is either free or
  in exactly one owned extent. Allocating adds an extent to the partition, releasing takes one
  out, and a release of an owned extent never throws.
\<close>

locale extent_allocator =
  fixes alloc :: "u32 \<Rightarrow> ('s, u32 option) io" and release :: "u32 \<Rightarrow> u32 \<Rightarrow> ('s, unit) io"
    and inv :: "'s \<Rightarrow> bool" and free :: "'s \<Rightarrow> nat set" and cap :: "'s \<Rightarrow> nat"
    and rest :: "'s \<Rightarrow> 'r"
  assumes alloc_returns: "\<exists>r t. alloc n s = (Inr r, t)"
    and alloc_fails: "inv s \<Longrightarrow> alloc n s = (Inr None, t) \<Longrightarrow> t = s"
    and alloc_takes: "inv s \<Longrightarrow> alloc n s = (Inr (Some u), t) \<Longrightarrow>
        inv t \<and> run u n \<subseteq> free s \<and> free t = free s - run u n \<and> n \<noteq> 0
          \<and> cap t = cap s \<and> rest t = rest s"
    and release_gives: "inv s \<Longrightarrow> unat u + unat n \<le> cap s \<Longrightarrow> run u n \<inter> free s = {} \<Longrightarrow>
        \<exists>t. release u n s = (Inr (), t) \<and> inv t \<and> free t = free s \<union> run u n
          \<and> cap t = cap s \<and> rest t = rest s"
    and free_bounded: "inv s \<Longrightarrow> free s \<subseteq> {..< cap s}"
begin

definition covers :: "nat \<Rightarrow> (u32 \<times> u32) multiset \<Rightarrow> nat" where
  "covers x own = size (filter_mset (\<lambda>e. x \<in> run (fst e) (snd e)) own)"

definition partitions :: "(u32 \<times> u32) multiset \<Rightarrow> 's \<Rightarrow> bool" where
  "partitions own s = (inv s \<and> (\<forall>e \<in># own. unat (fst e) + unat (snd e) \<le> cap s)
     \<and> (\<forall>x < cap s. covers x own = (if x \<in> free s then 0 else 1)))"

lemma covers_simps [simp]:
  "covers x {#} = 0"
  "covers x (add_mset e own) = (if x \<in> run (fst e) (snd e) then Suc (covers x own) else covers x own)"
  "covers x (own + own') = covers x own + covers x own'"
  by (simp_all add: covers_def)

lemma partitions_inv: "partitions own s \<Longrightarrow> inv s"
  by (simp add: partitions_def)

lemma partitions_alloc:
  assumes p: "partitions own s" and a: "alloc n s = (Inr (Some u), t)"
  shows "partitions (add_mset (u, n) own) t \<and> cap t = cap s \<and> rest t = rest s"
proof -
  have t: "inv t" "run u n \<subseteq> free s" "free t = free s - run u n" "cap t = cap s" "rest t = rest s"
    "n \<noteq> 0"
    using alloc_takes [OF partitions_inv [OF p] a] by auto
  have "unat u + unat n - 1 \<in> run u n" using t(6) unat_gt_0 [of n] by (auto simp: run_def)
  then have "unat u + unat n - 1 < cap s"
    using t(2) free_bounded [OF partitions_inv [OF p]] by auto
  then have "unat u + unat n \<le> cap s" using t(6) unat_gt_0 [of n] by linarith
  then show ?thesis using p t by (auto simp: partitions_def)
qed

lemma partitions_release:
  assumes p: "partitions (add_mset (u, n) own) s"
  shows "\<exists>t. release u n s = (Inr (), t) \<and> partitions own t \<and> cap t = cap s \<and> rest t = rest s"
proof -
  have b: "unat u + unat n \<le> cap s" and i: "inv s" using p by (auto simp: partitions_def)
  have c: "covers x (add_mset (u, n) own) = (if x \<in> free s then 0 else 1)" if "x < cap s" for x
    using p that by (simp add: partitions_def)
  have zero: "x \<notin> free s \<and> covers x own = 0" if "x \<in> run u n" for x
  proof -
    have "x < cap s" using that b by (simp add: run_def)
    then show ?thesis using c [of x] that by (auto split: if_splits)
  qed
  then have "run u n \<inter> free s = {}" by blast
  from release_gives [OF i b this] obtain t where t: "release u n s = (Inr (), t)" "inv t"
    "free t = free s \<union> run u n" "cap t = cap s" "rest t = rest s" by blast
  have "covers x own = (if x \<in> free t then 0 else 1)" if x: "x < cap s" for x
    using c [OF x] zero [of x] t(3) by (cases "x \<in> run u n") auto
  then have "partitions own t" using p t by (simp add: partitions_def)
  then show ?thesis using t by blast
qed

text \<open>Owned extents are disjoint from each other and from the free units.\<close>

lemma partitions_disjoint:
  assumes "partitions (add_mset (u, n) own) s"
  shows "run u n \<inter> free s = {}" "e \<in># own \<Longrightarrow> run u n \<inter> run (fst e) (snd e) = {}"
proof -
  have z: "x \<notin> free s \<and> covers x own = 0" if "x \<in> run u n" for x
  proof -
    have "x < cap s" using that assms by (auto simp: run_def partitions_def)
    then have "covers x (add_mset (u, n) own) = (if x \<in> free s then 0 else 1)"
      using assms by (simp only: partitions_def)
    then show ?thesis using that by (auto split: if_splits)
  qed
  then show "run u n \<inter> free s = {}" by blast
  assume "e \<in># own"
  then have "covers x own \<noteq> 0" if "x \<in> run (fst e) (snd e)" for x
    using that by (cases e) (auto simp: covers_def)
  with z show "run u n \<inter> run (fst e) (snd e) = {}" by blast
qed

lemma covers_sum:
  "(\<forall>e \<in># own. unat (fst e) + unat (snd e) \<le> k) \<Longrightarrow>
     (\<Sum>x < k. covers x own) = (\<Sum>e \<in># own. unat (snd e))"
proof (induction own)
  case empty
  then show ?case by simp
next
  case (add e own)
  have "(\<Sum>x < k. covers x (add_mset e own)) =
      (\<Sum>x < k. covers x own + (if x \<in> run (fst e) (snd e) then 1 else 0))"
    by (intro sum.cong) auto
  also have "\<dots> = (\<Sum>x < k. covers x own) + card ({..< k} \<inter> run (fst e) (snd e))"
    by (simp add: sum.distrib sum.If_cases)
  also have "{..< k} \<inter> run (fst e) (snd e) = run (fst e) (snd e)"
    using add.prems by (auto simp: run_def)
  finally show ?case using add by simp
qed

lemma partitions_accounting:
  assumes p: "partitions own s"
  shows "card (free s) + (\<Sum>e \<in># own. unat (snd e)) = cap s"
proof -
  have "(\<Sum>e \<in># own. unat (snd e)) = (\<Sum>x < cap s. covers x own)"
    using p by (intro covers_sum [symmetric]) (simp add: partitions_def)
  also have "\<dots> = (\<Sum>x < cap s. if x \<in> free s then 0 else 1)"
    using p by (intro sum.cong) (auto simp: partitions_def)
  also have "\<dots> = card ({..< cap s} - free s)"
    by (simp add: sum.If_cases Int_Diff Collect_neg_eq Diff_eq)
  also have "\<dots> = cap s - card (free s)"
    using free_bounded [OF partitions_inv [OF p]] by (simp add: card_Diff_subset finite_subset)
  finally show ?thesis
    using card_mono [OF finite_lessThan free_bounded [OF partitions_inv [OF p]]] by simp
qed

lemma partitions_empty: "inv s \<Longrightarrow> free s = {..< cap s} \<Longrightarrow> partitions {#} s"
  by (simp add: partitions_def)

text \<open>The partition is a fact about the free set alone.\<close>

lemma partitions_cong:
  "partitions own s \<Longrightarrow> inv t \<Longrightarrow> free t = free s \<Longrightarrow> cap t = cap s \<Longrightarrow> partitions own t"
  by (simp add: partitions_def)

end

lemma pool_frame:
  "t = s\<lparr>pool_free := m\<rparr> \<Longrightarrow> pool_units_total t = pool_units_total s \<and> pool_mapped t = pool_mapped s
     \<and> t\<lparr>pool_free := []\<rparr> = s\<lparr>pool_free := []\<rparr>"
  by simp

lemma pool_state_eqI:
  "pool_free r = pool_free s \<Longrightarrow> r\<lparr>pool_free := []\<rparr> = s\<lparr>pool_free := []\<rparr> \<Longrightarrow> r = s"
  by (cases r; cases s) simp

interpretation pool: extent_allocator pool_alloc pool_release pool_ok pool_free_set
  "\<lambda>s. unat (pool_units_total s)" "\<lambda>s. s\<lparr>pool_free := []\<rparr>"
proof
  fix n u and s t :: "'a pool_state_scheme"
  show "\<exists>r t. pool_alloc n s = (Inr r, t)" by (rule pool_alloc_returns)
  show "pool_ok s \<Longrightarrow> pool_alloc n s = (Inr None, t) \<Longrightarrow> t = s" by (rule pool_alloc_None(1))
  show "pool_ok s \<Longrightarrow> pool_free_set s \<subseteq> {..< unat (pool_units_total s)}"
    using free_set_bounded by (auto simp: pool_ok_def pool_free_set_def)
  show "pool_ok t \<and> run u n \<subseteq> pool_free_set s \<and> pool_free_set t = pool_free_set s - run u n
      \<and> n \<noteq> 0 \<and> unat (pool_units_total t) = unat (pool_units_total s)
      \<and> t\<lparr>pool_free := []\<rparr> = s\<lparr>pool_free := []\<rparr>"
    if "pool_ok s" "pool_alloc n s = (Inr (Some u), t)"
    using pool_alloc_Some(1-4) [OF that] pool_frame [OF pool_alloc_Some(7) [OF that]] by simp
  show "\<exists>t. pool_release u n s = (Inr (), t) \<and> pool_ok t \<and> pool_free_set t = pool_free_set s \<union> run u n
      \<and> unat (pool_units_total t) = unat (pool_units_total s) \<and> t\<lparr>pool_free := []\<rparr> = s\<lparr>pool_free := []\<rparr>"
    if ok: "pool_ok s" and range: "unat u + unat n \<le> unat (pool_units_total s)"
      "run u n \<inter> pool_free_set s = {}"
  proof -
    have rel: "releasable u n s" using range by (simp add: releasable_def)
    obtain t where "pool_release u n s = (Inr (), t)" "pool_ok t"
      "pool_free_set t = pool_free_set s \<union> run u n" and t: "t = s\<lparr>pool_free := pool_free t\<rparr>"
      by (rule pool_release_ok [OF ok rel])
    then show ?thesis using pool_frame [OF t] by simp
  qed
qed


section \<open>Properties\<close>

text \<open>
  First fit. On a well-formed pool the allocation always returns. A unit offset it returns
  heads a run of free units, the lowest one of that length; exactly that run leaves the free set,
  and nothing but the free list changes.
\<close>

theorem pool_alloc_first_fit:
  assumes "pool_ok s" and "pool_alloc units s = (Inr (Some u), t)"
  shows "run u units \<subseteq> pool_free_set s \<and> pool_free_set t = pool_free_set s - run u units
    \<and> (\<forall>v. {v ..< v + unat units} \<subseteq> pool_free_set s \<longrightarrow> unat u \<le> v)
    \<and> pool_ok t \<and> t = s\<lparr>pool_free := pool_free t\<rparr>"
  using pool_alloc_Some [OF assms] by blast

definition demo_pool :: pool_state where
  "demo_pool = \<lparr>pool_mapped = True, pool_units_total = 20, pool_free = [(1, 2), (5, 4), (12, 8)]\<rparr>"

lemma demo_pool_ok: "pool_ok demo_pool"
  by (simp add: pool_ok_def demo_pool_def free_ok_def apart_def)

lemma demo_pool_alloc:
  "pool_alloc 3 demo_pool = (Inr (Some 5), demo_pool\<lparr>pool_free := [(1, 2), (8, 1), (12, 8)]\<rparr>)"
  by (simp add: pool_alloc_run demo_pool_def omap_erase_def)

theorem pool_alloc_first_fit_witness:
  "run 5 3 \<subseteq> pool_free_set demo_pool"
  using pool_alloc_first_fit [OF demo_pool_ok demo_pool_alloc] by blast

text \<open>
  an allocation fails only when it must. On a well-formed mapped pool, a nonzero request is
  refused exactly when no run of that many consecutive free units exists, and then the pool is
  unchanged. Extents that touch are always merged, so no free run is hidden by fragmentation.
\<close>

theorem pool_alloc_complete:
  assumes "pool_ok s" and "pool_mapped s" and "units \<noteq> 0"
  shows "pool_alloc units s = (Inr None, s)
    \<longleftrightarrow> (\<forall>v. \<not> {v ..< v + unat units} \<subseteq> pool_free_set s)"
proof
  assume "pool_alloc units s = (Inr None, s)"
  then show "\<forall>v. \<not> {v ..< v + unat units} \<subseteq> pool_free_set s"
    using pool_alloc_None(2) [OF assms(1)] assms(2,3) by blast
next
  assume none: "\<forall>v. \<not> {v ..< v + unat units} \<subseteq> pool_free_set s"
  obtain r t where rt: "pool_alloc units s = (Inr r, t)" using pool_alloc_returns by blast
  have "r = None"
  proof (cases r)
    case (Some u)
    then have "run u units \<subseteq> pool_free_set s" using rt pool_alloc_Some(3) [OF assms(1)] by blast
    then show ?thesis using none unfolding run_def by blast
  qed simp
  then show "pool_alloc units s = (Inr None, s)" using rt pool_alloc_None(1) [OF assms(1)] by blast
qed

theorem pool_alloc_complete_witness:
  "\<forall>v. \<not> {v ..< v + unat (9 :: u32)} \<subseteq> pool_free_set demo_pool"
proof -
  have "pool_alloc 9 demo_pool = (Inr None, demo_pool)"
    by (simp add: pool_alloc_run demo_pool_def)
  then show ?thesis using pool_alloc_complete [OF demo_pool_ok, of 9] by (simp add: demo_pool_def)
qed

text \<open>
  C12: a release is accepted exactly when it is legitimate. On a well-formed pool, releasing a
  nonempty range returns if and only if the range is inside the pool and none of its units is
  free; it then adds exactly those units. Otherwise it throws, the pool stays well formed, and
  no unit becomes free: a double free never makes a unit available twice.
\<close>

theorem pool_release_exact:
  assumes "pool_ok s" and "units \<noteq> 0"
  shows "if releasable unit units s
     then \<exists>t. pool_release unit units s = (Inr (), t) \<and> pool_ok t
            \<and> pool_free_set t = pool_free_set s \<union> run unit units
     else \<exists>e t. pool_release unit units s = (Inl (Fatal e), t) \<and> pool_ok t
            \<and> pool_free_set t \<subseteq> pool_free_set s"
proof (cases "releasable unit units s")
  case True
  then show ?thesis using pool_release_ok [OF assms(1)] by (metis (full_types))
next
  case False
  then show ?thesis using pool_release_throw [OF assms] by (metis (full_types))
qed

theorem pool_release_exact_witness:
  "\<exists>t. pool_release 3 2 demo_pool = (Inr (), t) \<and> pool_ok t
     \<and> pool_free_set t = pool_free_set demo_pool \<union> run 3 2"
proof -
  have "releasable 3 2 demo_pool"
    by (auto simp: releasable_def demo_pool_def pool_free_set_def run_def)
  then show ?thesis using pool_release_exact [OF demo_pool_ok, of 2 3] by simp
qed

text \<open>
  Allocation and release are inverse. Releasing the extent that an allocation returned restores
  the very same list of free extents, not only the same set.
\<close>

theorem pool_alloc_release_roundtrip:
  assumes "pool_ok s" and "pool_alloc units s = (Inr (Some u), t)"
  shows "pool_release u units t = (Inr (), s)"
proof -
  note A = pool_alloc_Some [OF assms]
  have "run u units \<subseteq> {..< unat (pool_units_total s)}"
    using A(3) pool.free_bounded [OF assms(1)] by blast
  moreover have "unat u + unat units - 1 \<in> run u units"
    using A(4) unat_gt_0 [of units] by (auto simp: run_def)
  ultimately have "unat u + unat units - 1 < unat (pool_units_total s)" by blast
  moreover have cap: "pool_units_total t = pool_units_total s" using pool_frame [OF A(7)] by simp
  ultimately have "releasable u units t"
    using A(2,4) unat_gt_0 [of units] by (auto simp: releasable_def)
  then obtain r where r: "pool_release u units t = (Inr (), r)" "pool_ok r"
    "pool_free_set r = pool_free_set t \<union> run u units" "r = t\<lparr>pool_free := pool_free r\<rparr>"
    using pool_release_ok [OF A(1)] by blast
  have "pool_free_set r = pool_free_set s" using r(3) A(2,3) by blast
  then have "pool_free r = pool_free s"
    using free_set_inj r(2) assms(1) unfolding pool_ok_def pool_free_set_def by blast
  moreover have "r\<lparr>pool_free := []\<rparr> = s\<lparr>pool_free := []\<rparr>"
    using pool_frame [OF r(4)] pool_frame [OF A(7)] by simp
  ultimately have "r = s" by (rule pool_state_eqI)
  then show ?thesis using r(1) by simp
qed

theorem pool_alloc_release_roundtrip_witness:
  "pool_release 5 3 (demo_pool\<lparr>pool_free := [(1, 2), (8, 1), (12, 8)]\<rparr>) = (Inr (), demo_pool)"
  by (rule pool_alloc_release_roundtrip [OF demo_pool_ok demo_pool_alloc])

end
