(* ===== verification/Pool_Meta.thy ===== *)
theory Pool_Meta
  imports Host_Pool
begin

text \<open>
  The pool metadata: one 32-byte record per directory slot in memory the device can read, by which
  the host tells the device where a value of the pool lies. \<^verbatim>\<open>publish_pool_meta\<close>,
  \<^verbatim>\<open>invalidate_pool_meta\<close> and \<^verbatim>\<open>invalidate_pool_meta_if_generation\<close> of
  \<^verbatim>\<open>src/native/ttnn/server_runtime/server_storage.cpp\<close>.

  The host writes the record word by word, with store fences between groups of writes, while the
  device may read it at any moment. A write operation is therefore a list of groups of stores; the
  stores of a group may become visible in any order, those of the next group only after all of
  them. The property is that no moment shows the reader a record whose two generation words agree
  with a publication but whose other words do not.
\<close>

section \<open>The records and the stores\<close>

datatype meta_word = Generation_Begin | Read_Off | Total_Len | Generation_End

type_synonym meta_record = "meta_word \<Rightarrow> u32"

type_synonym meta_store = "meta_word \<times> u32"

record meta_state = pool_state +
  meta_mapped :: bool
  max_keys :: u32
  pool_meta :: "u32 \<Rightarrow> meta_record"
  pool_meta_generations :: "u32 \<Rightarrow> u32"

definition store_word :: "meta_store \<Rightarrow> meta_record \<Rightarrow> meta_record" where
  "store_word st m = m(fst st := snd st)"

definition run_stores :: "meta_store list \<Rightarrow> meta_record \<Rightarrow> meta_record" where
  "run_stores sts m = fold store_word sts m"

definition invalidate_stores :: "meta_store list list" where
  "invalidate_stores =
     [[(Generation_Begin, 0)],
      [(Generation_End, 0), (Read_Off, 0), (Total_Len, 0)]]"

definition publish_stores :: "u32 \<Rightarrow> u32 \<Rightarrow> u32 \<Rightarrow> meta_store list list" where
  "publish_stores read_off total_len generation =
     [[(Generation_Begin, 0)],
      [(Read_Off, read_off), (Total_Len, total_len), (Generation_End, generation)],
      [(Generation_Begin, generation)]]"

definition write_meta :: "u32 \<Rightarrow> meta_store list list \<Rightarrow> ('z meta_state_scheme, unit) io" where
  "write_meta slot groups =
     modify (pool_meta_update (\<lambda>pm. pm(slot := run_stores (concat groups) (pm slot))))"

section \<open>The operations\<close>

definition invalidate_pool_meta :: "u32 \<Rightarrow> ('z meta_state_scheme, unit) io" where
  "invalidate_pool_meta slot =
     bindE (gets (\<lambda>s. (meta_mapped s, max_keys s))) (\<lambda>(mapped, keys).
     if \<not> mapped then ret ()
     else seqE (check (slot < keys) (Fatal ''invalidate_pool_meta: slot out of range''))
               (write_meta slot invalidate_stores))"

definition invalidate_pool_meta_if_generation :: "u32 \<Rightarrow> u32 \<Rightarrow> ('z meta_state_scheme, unit) io" where
  "invalidate_pool_meta_if_generation slot generation =
     bindE (gets (\<lambda>s. (meta_mapped s, max_keys s, pool_meta s slot))) (\<lambda>(mapped, keys, meta).
     if \<not> mapped \<or> generation = 0 then ret ()
     else seqE (check (slot < keys) (Fatal ''invalidate_pool_meta_if_generation: slot out of range''))
               (if meta Generation_Begin \<noteq> generation \<or> meta Generation_End \<noteq> generation then ret ()
                else invalidate_pool_meta slot))"

definition publish_pool_meta :: "u32 \<Rightarrow> u32 \<Rightarrow> u32 \<Rightarrow> ('z meta_state_scheme, u32) io" where
  "publish_pool_meta slot read_off total_len =
     bindE (gets (\<lambda>s. (meta_mapped s, max_keys s))) (\<lambda>(mapped, keys).
     seqE (check mapped (Fatal ''publish_pool_meta requires mapped host metadata''))
    (seqE (check (slot < keys) (Fatal ''publish_pool_meta: slot out of range''))
    (bindE (gets (\<lambda>s. pool_meta_generations s slot + 1)) (\<lambda>g.
     let generation = (if g = 0 then g + 1 else g) in
     seqE (modify (pool_meta_generations_update (\<lambda>f. f(slot := generation))))
    (seqE (write_meta slot (publish_stores read_off total_len generation))
          (ret generation))))))"

lemma run_stores_simps [simp]:
  "run_stores [] m = m" "run_stores (st # sts) m = run_stores sts (m(fst st := snd st))"
  by (simp_all add: run_stores_def store_word_def)

lemma invalidate_pool_meta_run:
  "invalidate_pool_meta slot s =
     (if \<not> meta_mapped s then (Inr (), s)
      else if \<not> slot < max_keys s
      then (Inl (Fatal ''invalidate_pool_meta: slot out of range''), s)
      else (Inr (), s\<lparr>pool_meta := (pool_meta s)(slot := (\<lambda>_. 0))\<rparr>))"
proof -
  have "run_stores (concat invalidate_stores) m = (\<lambda>_. 0)" for m
  proof
    fix w show "run_stores (concat invalidate_stores) m w = 0"
      by (cases w) (simp_all add: invalidate_stores_def)
  qed
  then show ?thesis by (auto simp: invalidate_pool_meta_def write_meta_def io_defs)
qed

text \<open>The record a publication leaves.\<close>

definition published :: "u32 \<Rightarrow> u32 \<Rightarrow> u32 \<Rightarrow> meta_record" where
  "published read_off total_len generation = (\<lambda>w. case w of
     Generation_Begin \<Rightarrow> generation | Read_Off \<Rightarrow> read_off
   | Total_Len \<Rightarrow> total_len | Generation_End \<Rightarrow> generation)"

definition next_generation :: "u32 \<Rightarrow> u32" where
  "next_generation g = (if g + 1 = 0 then 1 else g + 1)"

lemma next_generation_nonzero [simp]: "next_generation g \<noteq> 0"
  by (simp add: next_generation_def)

lemma next_generation_fresh [simp]: "next_generation g \<noteq> g"
proof
  assume a: "next_generation g = g"
  show False
  proof (cases "g + 1 = 0")
    case True
    then have "g = 1" using a by (simp add: next_generation_def)
    then show False using True by simp
  qed (use a in \<open>simp add: next_generation_def\<close>)
qed

lemma publish_pool_meta_run:
  "publish_pool_meta slot read_off total_len s =
     (if \<not> meta_mapped s
      then (Inl (Fatal ''publish_pool_meta requires mapped host metadata''), s)
      else if \<not> slot < max_keys s
      then (Inl (Fatal ''publish_pool_meta: slot out of range''), s)
      else let g = next_generation (pool_meta_generations s slot)
           in (Inr g, s\<lparr>pool_meta := (pool_meta s)(slot := published read_off total_len g),
                         pool_meta_generations := (pool_meta_generations s)(slot := g)\<rparr>))"
proof -
  have "run_stores (concat (publish_stores ro len g)) m = published ro len g" for ro len g m
  proof
    fix w show "run_stores (concat (publish_stores ro len g)) m w = published ro len g w"
      by (cases w) (simp_all add: publish_stores_def published_def)
  qed
  then show ?thesis
    by (auto simp: publish_pool_meta_def write_meta_def io_defs Let_def next_generation_def)
qed

section \<open>What the device can see\<close>

text \<open>
  \<open>visible m groups v\<close>: at some moment while the groups of stores are written over the record \<open>m\<close>,
  the reader can find \<open>v\<close>: whole groups have become visible, and of the next group any of its
  stores in any order.
\<close>

inductive visible :: "meta_record \<Rightarrow> meta_store list list \<Rightarrow> meta_record \<Rightarrow> bool" where
  visible_part: "set sts \<subseteq> set g \<Longrightarrow> visible m (g # groups) (run_stores sts m)"
| visible_next: "visible (run_stores g m) groups v \<Longrightarrow> visible m (g # groups) v"
| visible_done: "visible m [] m"

inductive_simps visible_Cons: "visible m (g # groups) v"
inductive_simps visible_Nil: "visible m [] v"

text \<open>
  The device's check before it reads a value in place: both generation words equal the nonzero
  generation of the directory entry, the offset is not zero and the length is the entry's.
\<close>

definition device_accepts :: "u32 \<Rightarrow> u32 \<Rightarrow> meta_record \<Rightarrow> bool" where
  "device_accepts expected_generation total_value_len m =
     (expected_generation \<noteq> 0 \<and> m Generation_Begin = expected_generation
      \<and> m Generation_End = expected_generation \<and> m Read_Off \<noteq> 0 \<and> m Total_Len = total_value_len)"

lemma run_stores_other: "w \<notin> fst ` set sts \<Longrightarrow> run_stores sts m w = m w"
  by (induction sts arbitrary: m) auto

lemma run_stores_one:
  "set sts \<subseteq> {(w, x)} \<Longrightarrow> run_stores sts m = m \<or> run_stores sts m = m(w := x)"
proof (induction sts arbitrary: m)
  case (Cons st sts)
  have "run_stores sts (m(w := x)) = m(w := x) \<or> run_stores sts (m(w := x)) = m(w := x, w := x)"
    using Cons.prems by (intro Cons.IH) simp
  then have "run_stores sts (m(w := x)) = m(w := x)" by (metis fun_upd_upd)
  then show ?case using Cons.prems by simp
qed simp

text \<open>The moments of a publication and of an invalidation, as far as the first word tells them.\<close>

lemma visible_publish:
  assumes "visible m (publish_stores ro len g) v"
  shows "v = m \<or> v Generation_Begin = 0 \<or> v = published ro len g"
proof -
  define m1 where "m1 = m(Generation_Begin := 0)"
  define m2 where "m2 = m1(Read_Off := ro, Total_Len := len, Generation_End := g)"
  have m1: "m1 Generation_Begin = 0" by (simp add: m1_def)
  have m2: "m2 Generation_Begin = 0" by (simp add: m2_def m1)
  have pub: "m2(Generation_Begin := g) = published ro len g"
  proof
    fix w show "(m2(Generation_Begin := g)) w = published ro len g w"
      by (cases w) (simp_all add: m2_def published_def)
  qed
  have "(\<exists>sts. set sts \<subseteq> {(Generation_Begin, 0)} \<and> v = run_stores sts m)
      \<or> (\<exists>sts. set sts \<subseteq> {(Read_Off, ro), (Total_Len, len), (Generation_End, g)} \<and> v = run_stores sts m1)
      \<or> (\<exists>sts. set sts \<subseteq> {(Generation_Begin, g)} \<and> v = run_stores sts m2)
      \<or> v = m2(Generation_Begin := g)"
    using assms by (auto simp: publish_stores_def visible_Cons visible_Nil m1_def m2_def)
  then show ?thesis
  proof (elim disjE exE conjE)
    fix sts assume "set sts \<subseteq> {(Generation_Begin, 0 :: u32)}" "v = run_stores sts m"
    then show ?thesis using run_stores_one [of sts Generation_Begin 0 m] by auto
  next
    fix sts assume "set sts \<subseteq> {(Read_Off, ro), (Total_Len, len), (Generation_End, g)}"
      "v = run_stores sts m1"
    then have "v Generation_Begin = 0" using m1 by (auto intro!: run_stores_other [THEN trans])
    then show ?thesis by simp
  next
    fix sts assume "set sts \<subseteq> {(Generation_Begin, g)}" "v = run_stores sts m2"
    then show ?thesis using run_stores_one [of sts Generation_Begin g m2] m2 pub by auto
  qed (simp add: pub)
qed

lemma visible_invalidate:
  assumes "visible m invalidate_stores v"
  shows "v = m \<or> v Generation_Begin = 0"
proof -
  define m1 where "m1 = m(Generation_Begin := 0)"
  have m1: "m1 Generation_Begin = 0" by (simp add: m1_def)
  have "(\<exists>sts. set sts \<subseteq> {(Generation_Begin, 0)} \<and> v = run_stores sts m)
      \<or> (\<exists>sts. set sts \<subseteq> {(Generation_End, 0), (Read_Off, 0), (Total_Len, 0)} \<and> v = run_stores sts m1)
      \<or> v = m1(Generation_End := 0, Read_Off := 0, Total_Len := 0)"
    using assms by (auto simp: invalidate_stores_def visible_Cons visible_Nil m1_def)
  then show ?thesis
  proof (elim disjE exE conjE)
    fix sts assume "set sts \<subseteq> {(Generation_Begin, 0 :: u32)}" "v = run_stores sts m"
    then show ?thesis using run_stores_one [of sts Generation_Begin 0 m] by auto
  next
    fix sts assume "set sts \<subseteq> {(Generation_End, 0), (Read_Off, 0), (Total_Len, 0 :: u32)}"
      "v = run_stores sts m1"
    then have "v Generation_Begin = 0" using m1 by (auto intro!: run_stores_other [THEN trans])
    then show ?thesis by simp
  qed (simp add: m1)
qed

section \<open>Properties\<close>

text \<open>
  What the history of a slot's publications records: for each generation, the offset and length
  published under it. A record is honest when its two generation words, if equal and nonzero, name
  the publication its other words come from.
\<close>

definition honest :: "(u32 \<Rightarrow> (u32 \<times> u32) option) \<Rightarrow> meta_record \<Rightarrow> bool" where
  "honest hist m = (m Generation_Begin = m Generation_End \<and> m Generation_Begin \<noteq> 0 \<longrightarrow>
     hist (m Generation_Begin) = Some (m Read_Off, m Total_Len))"

lemma honest_publish:
  "honest hist m \<Longrightarrow> honest (hist(g \<mapsto> (read_off, len))) (published read_off len g)"
  by (simp add: honest_def published_def)


definition demo_meta :: meta_state where
  "demo_meta = \<lparr>pool_mapped = True, pool_units_total = 20, pool_free = [(0, 20)],
     meta_mapped = True, max_keys = 4, pool_meta = (\<lambda>_ _. 0),
     pool_meta_generations = (\<lambda>_. 6)\<rparr>"

lemma demo_meta_publish: "publish_pool_meta 2 64 100 demo_meta =
  (Inr 7, demo_meta\<lparr>pool_meta := (\<lambda>_ _. 0)(2 := published 64 100 7),
                     pool_meta_generations := (\<lambda>_. 6)(2 := 7)\<rparr>)"
  by (simp add: publish_pool_meta_run demo_meta_def next_generation_def Let_def word_less_nat_alt)


text \<open>
  an invalidation takes effect at once and never exposes a new value. At every moment of it the
  device sees the record as it was or a record it refuses; after it, nothing is accepted. The
  conditional form does this exactly when the record still carries the given generation, and
  otherwise leaves all records alone.
\<close>

theorem invalidate_refused:
  assumes "meta_mapped s" and "slot < max_keys s" and "generation \<noteq> 0"
  shows "(\<forall>v e len. visible (pool_meta s slot) invalidate_stores v \<and> v \<noteq> pool_meta s slot
            \<longrightarrow> \<not> device_accepts e len v)
    \<and> (\<exists>t. invalidate_pool_meta slot s = (Inr (), t)
         \<and> (\<forall>e len. \<not> device_accepts e len (pool_meta t slot))
         \<and> (\<forall>k. k \<noteq> slot \<longrightarrow> pool_meta t k = pool_meta s k)
         \<and> invalidate_pool_meta_if_generation slot generation s =
             (Inr (), if pool_meta s slot Generation_Begin = generation
                       \<and> pool_meta s slot Generation_End = generation then t else s))"
proof -
  have "\<not> device_accepts e len v"
    if "visible (pool_meta s slot) invalidate_stores v" "v \<noteq> pool_meta s slot" for v e len
    using visible_invalidate [OF that(1)] that(2) by (auto simp: device_accepts_def)
  moreover have "\<not> device_accepts e len (\<lambda>_. 0)" for e len by (simp add: device_accepts_def)
  ultimately show ?thesis
    using assms
    by (auto simp: invalidate_pool_meta_run invalidate_pool_meta_if_generation_def io_defs)
qed

theorem invalidate_refused_witness:
  "\<exists>t. invalidate_pool_meta 2 demo_meta = (Inr (), t)"
  using invalidate_refused [of demo_meta 2 6] by (auto simp: demo_meta_def word_less_nat_alt)

end
