(* ===== verification/Value_Read.thy ===== *)
theory Value_Read
  imports Protocol
begin

text \<open>
  Reading a value out of device DRAM and writing one into it: \<^verbatim>\<open>read_value_units_into\<close> and
  \<^verbatim>\<open>read_value_units\<close> of \<^verbatim>\<open>server_runtime/server_storage.cpp\<close>, and the bank-coalesced write of
  \<^verbatim>\<open>stage_value_host_to_device\<close> in \<^verbatim>\<open>server_runtime/server_tiering.cpp\<close>.

  A value is a run of units. Unit \<open>x\<close> of the heap is page \<open>x div num_banks\<close> of bank
  \<open>x mod num_banks\<close>, so the units of a value that fall in one bank are consecutive pages there,
  and one device access per bank moves them all. What the device answers is a parameter: the
  answer to the \<open>i\<close>-th access of a call, so that the memory may change between accesses. Times
  are left out of the read profile; its counters are kept.
\<close>

section \<open>The geometry and the device\<close>

record geometry =
  device_found :: bool
  value_buffer_found :: bool
  num_banks :: u32
  aligned_page :: u32
  value_base :: u32

type_synonym dram_reader = "nat \<Rightarrow> u32 \<Rightarrow> u32 \<Rightarrow> nat \<Rightarrow> byte list"

record value_read_profile =
  vp_calls :: nat
  vp_bytes :: nat
  vp_passes :: nat
  vp_retries :: nat

definition no_reads :: value_read_profile where
  "no_reads = \<lparr>vp_calls = 0, vp_bytes = 0, vp_passes = 0, vp_retries = 0\<rparr>"

definition device_read ::
  "dram_reader \<Rightarrow> u32 \<Rightarrow> u32 \<Rightarrow> nat \<Rightarrow> value_read_profile \<Rightarrow> byte list \<times> value_read_profile" where
  "device_read rd bank addr n p =
     (rd (vp_calls p) bank addr n, p\<lparr>vp_calls := vp_calls p + 1, vp_bytes := vp_bytes p + n\<rparr>)"

section \<open>One pass over the value\<close>

definition read_unit :: "geometry \<Rightarrow> dram_reader \<Rightarrow> u32 \<Rightarrow> u32 \<Rightarrow>
    byte list \<times> value_read_profile \<Rightarrow> byte list \<times> value_read_profile" where
  "read_unit geo rd base_unit u = (\<lambda>(into, p).
     let unit = base_unit + u;
         bank = unit mod num_banks geo;
         page_addr = value_base geo + (unit div num_banks geo) * aligned_page geo
     in case device_read rd bank page_addr (unat kMaxChunkValueBytes) p of (bytes, p') \<Rightarrow>
        (memcpy (unat u * unat kMaxChunkValueBytes) bytes into, p'))"

text \<open>The first unit of the value in a bank, and how many of its units are there.\<close>

definition first_unit_in_bank :: "geometry \<Rightarrow> u32 \<Rightarrow> u32 \<Rightarrow> u32" where
  "first_unit_in_bank geo base_unit bank =
     (bank + num_banks geo - base_unit mod num_banks geo) mod num_banks geo"

definition read_bank :: "geometry \<Rightarrow> dram_reader \<Rightarrow> u32 \<Rightarrow> u32 \<Rightarrow> u32 \<Rightarrow>
    byte list \<times> value_read_profile \<Rightarrow> byte list \<times> value_read_profile" where
  "read_bank geo rd base_unit units bank = (\<lambda>(into, p).
     let first_u = first_unit_in_bank geo base_unit bank
     in if units \<le> first_u then (into, p)
     else let n_pages = 1 + (units - 1 - first_u) div num_banks geo;
              first_page_addr =
                value_base geo + ((base_unit + first_u) div num_banks geo) * aligned_page geo;
              read_bytes = unat n_pages * unat (aligned_page geo)
     in case device_read rd bank first_page_addr read_bytes p of (scratch, p') \<Rightarrow>
        (fold (\<lambda>page into.
            let u = first_u + page * num_banks geo
            in memcpy (unat u * unat kMaxChunkValueBytes)
                 (take (unat kMaxChunkValueBytes) (drop (unat page * unat (aligned_page geo)) scratch))
                 into)
          (upto_u32 n_pages) into, p'))"

definition read_all :: "geometry \<Rightarrow> dram_reader \<Rightarrow> u32 \<Rightarrow> u32 \<Rightarrow>
    byte list \<times> value_read_profile \<Rightarrow> byte list \<times> value_read_profile" where
  "read_all geo rd base_unit units = (\<lambda>(into, p).
     let p' = p\<lparr>vp_passes := vp_passes p + 1\<rparr>
     in if \<not> num_banks geo < units
        then fold (read_unit geo rd base_unit) (upto_u32 units) (into, p')
        else fold (read_bank geo rd base_unit units) (upto_u32 (num_banks geo)) (into, p'))"

section \<open>Reading until two passes agree\<close>

definition kValueReadMaxMismatches :: nat where
  "kValueReadMaxMismatches = 101"

text \<open>
  \<open>settle\<close> is the retry loop; the first argument counts the mismatches still allowed. The flag of
  the result says whether two passes agreed or the last one was taken as it is.
\<close>

fun settle :: "nat \<Rightarrow> (byte list \<times> value_read_profile \<Rightarrow> byte list \<times> value_read_profile) \<Rightarrow> nat \<Rightarrow>
    byte list \<Rightarrow> byte list \<Rightarrow> value_read_profile \<Rightarrow> bool \<times> byte list \<times> value_read_profile" where
  "settle 0 pass total_len dst other p = (False, dst, p)"
| "settle (Suc left) pass total_len dst other p =
     (case pass (other, p) of (other', p') \<Rightarrow>
        if take total_len dst = take total_len other' then (True, dst, p')
        else let p'' = p'\<lparr>vp_retries := vp_retries p' + 1\<rparr>;
                 dst' = memcpy 0 other' dst
             in if left = 0 then (False, dst', p'')
                else settle left pass total_len dst' other' p'')"

definition read_value_units_into :: "geometry \<Rightarrow> dram_reader \<Rightarrow> byte list \<Rightarrow> u32 \<Rightarrow> u32 \<Rightarrow>
    fault + bool \<times> byte list \<times> value_read_profile" where
  "read_value_units_into geo rd dst value_byte_off total_len =
     (let base_unit = value_byte_off div kMaxChunkValueBytes;
          units = chunk_count_for total_len;
          whole = unat units * unat kMaxChunkValueBytes
      in if \<not> device_found geo
         then Inl (Fatal ''read_value_units_into: server_submesh has no chip at (0,0)'')
         else if \<not> value_buffer_found geo
         then Inl (Fatal ''read_value_units_into: value MeshBuffer has no device buffer at (0,0)'')
         else if \<not> whole \<le> length dst
         then Inl (Fatal ''read_value_units_into: destination holds fewer than the whole units'')
         else if \<not> kMaxChunkValueBytes \<le> aligned_page geo
         then Inl (Fatal ''read_value_units_into: aligned page is smaller than value unit'')
         else case read_all geo rd base_unit units (dst, no_reads) of (dst', p) \<Rightarrow>
              Inr (settle kValueReadMaxMismatches (read_all geo rd base_unit units)
                     (unat total_len) dst' (replicate whole 0) p))"

definition read_value_units ::
  "geometry \<Rightarrow> dram_reader \<Rightarrow> u32 \<Rightarrow> u32 \<Rightarrow> fault + byte list" where
  "read_value_units geo rd value_byte_off total_len =
     (case read_value_units_into geo rd
             (replicate (unat (chunk_count_for total_len) * unat kMaxChunkValueBytes) 0)
             value_byte_off total_len of
        Inl e \<Rightarrow> Inl e
      | Inr (_, bytes, _) \<Rightarrow> Inr (take (unat total_len) bytes))"

section \<open>The image of a value in a steady memory\<close>

text \<open>
  \<open>heap_fits\<close>: the addresses of the value's units are 32-bit numbers, so that the address
  arithmetic does not wrap.
\<close>

definition heap_fits :: "geometry \<Rightarrow> u32 \<Rightarrow> u32 \<Rightarrow> bool" where
  "heap_fits geo base_unit units =
     (0 < num_banks geo \<and> unat (num_banks geo) < 2147483648 \<and> 4288 \<le> unat (aligned_page geo)
      \<and> unat base_unit + unat units < 4294967296
      \<and> unat (value_base geo)
          + ((unat base_unit + unat units) div unat (num_banks geo) + 1) * unat (aligned_page geo)
        < 4294967296)"

definition unit_byte :: "geometry \<Rightarrow> (nat \<Rightarrow> nat \<Rightarrow> byte) \<Rightarrow> nat \<Rightarrow> nat \<Rightarrow> byte" where
  "unit_byte geo mem x k = mem (x mod unat (num_banks geo))
     (unat (value_base geo) + x div unat (num_banks geo) * unat (aligned_page geo) + k)"

definition steady :: "(nat \<Rightarrow> nat \<Rightarrow> byte) \<Rightarrow> dram_reader \<Rightarrow> bool" where
  "steady mem rd = (\<forall>i bank addr n. rd i bank addr n = map (\<lambda>k. mem (unat bank) (unat addr + k)) [0 ..< n])"

definition value_image :: "geometry \<Rightarrow> (nat \<Rightarrow> nat \<Rightarrow> byte) \<Rightarrow> nat \<Rightarrow> nat \<Rightarrow> byte list" where
  "value_image geo mem base_unit units =
     map (\<lambda>i. unit_byte geo mem (base_unit + i div 4288) (i mod 4288)) [0 ..< units * 4288]"

lemma length_value_image [simp]: "length (value_image geo mem b n) = n * 4288"
  by (simp add: value_image_def)

lemma nth_value_image [simp]:
  "w < n \<Longrightarrow> k < 4288 \<Longrightarrow> value_image geo mem b n ! (w * 4288 + k) = unit_byte geo mem (b + w) k"
  by (simp add: value_image_def unit_below)

text \<open>Two buffers agree when they agree unit by unit.\<close>

lemma units_eqI:
  assumes "length xs = n * (4288 :: nat)" "length ys = n * 4288"
    and "\<And>w k. w < n \<Longrightarrow> k < 4288 \<Longrightarrow> xs ! (w * 4288 + k) = ys ! (w * 4288 + k)"
  shows "xs = ys"
proof (rule nth_equalityI)
  fix i assume "i < length xs"
  then have "i div 4288 < n" using assms(1) by (simp add: div_less_iff_less_mult)
  then show "xs ! i = ys ! i" using assms(3) [of "i div 4288" "i mod 4288"] by simp
qed (use assms in simp)

text \<open>Copying units into a buffer, in any order.\<close>

lemma copy_units:
  assumes "\<And>x. x \<in> set xs \<Longrightarrow> f x < m \<and> length (src x) = (4288 :: nat)"
    and "\<And>x k. x \<in> set xs \<Longrightarrow> k < 4288 \<Longrightarrow> src x ! k = val (f x) k"
    and "m * 4288 \<le> length into" and "k < 4288" and "w < m"
  defines "res \<equiv> fold (\<lambda>x. memcpy (f x * 4288) (src x)) xs into"
  shows "length res = length into
    \<and> res ! (w * 4288 + k) = (if w \<in> f ` set xs then val w k else into ! (w * 4288 + k))"
  using assms(1-3) unfolding res_def
proof (induction xs arbitrary: into)
  case Nil
  then show ?case by simp
next
  case (Cons x xs)
  have room: "f x * 4288 + length (src x) \<le> length into"
    using Cons.prems(1) [of x] Cons.prems(3) mult_le_mono1 [of "Suc (f x)" m 4288] by simp
  have i: "w * 4288 + k < length into"
    using unit_below [OF assms(4,5)] Cons.prems(3) by simp
  define into' where "into' = memcpy (f x * 4288) (src x) into"
  have len: "length into' = length into" using room by (simp add: into'_def)
  have at: "into' ! (w * 4288 + k) = (if w = f x then val w k else into ! (w * 4288 + k))"
    using nth_memcpy [OF room i] unit_index [OF assms(4), of "f x" w] Cons.prems(1,2) [of x] assms(4)
    by (auto simp: into'_def)
  have "length (fold (\<lambda>x. memcpy (f x * 4288) (src x)) xs into') = length into'
    \<and> fold (\<lambda>x. memcpy (f x * 4288) (src x)) xs into' ! (w * 4288 + k)
      = (if w \<in> f ` set xs then val w k else into' ! (w * 4288 + k))"
    using Cons.prems len by (intro Cons.IH) auto
  then show ?case using len at by (auto simp: into'_def)
qed


section \<open>Where the units of a bank are\<close>

lemma bank_of_unit:
  fixes x :: nat
  assumes b: "b < (n :: nat)"
  defines "fu \<equiv> (b + n - x mod n) mod n"
  shows "fu < n" "(x + fu) mod n = b" "(x + w) mod n = b \<Longrightarrow> w mod n = fu"
proof -
  have shift: "x + (y + n - x mod n) = y + n * Suc (x div n)" if "x mod n \<le> n" for y
    using that mult_div_mod_eq [of n x] unfolding mult_Suc_right by linarith
  have le: "x mod n \<le> n" using b by (simp add: order_less_imp_le)
  show "fu < n" using b by (simp add: fu_def)
  have "(x + fu) mod n = (x + (b + n - x mod n)) mod n" by (simp add: fu_def mod_simps)
  then show "(x + fu) mod n = b" using b by (simp only: shift [OF le] mod_mult_self2 mod_less)
  assume "(x + w) mod n = b"
  then have "fu = ((x + w) mod n + (n - x mod n)) mod n" using le by (simp add: fu_def)
  also have "\<dots> = (x + w + (n - x mod n)) mod n" by (simp add: mod_simps)
  also have "x + w + (n - x mod n) = x + (w + n - x mod n)" using le by simp
  also have "\<dots> mod n = w mod n" by (simp only: shift [OF le] mod_mult_self2)
  finally show "w mod n = fu" by simp
qed

lemma page_count:
  assumes "fu < m" and "0 < (n :: nat)"
  shows "p < 1 + (m - 1 - fu) div n \<longleftrightarrow> fu + p * n < m"
  using assms less_eq_div_iff_mult_less_eq [of n p "m - 1 - fu"] by (auto simp: less_Suc_eq_le)

lemma bank_pages:
  fixes fw units nb :: u32
  assumes lt: "unat fw < unat units" and nb: "0 < unat nb"
  defines "n_pages \<equiv> 1 + (units - 1 - fw) div nb"
  shows "j < unat n_pages \<longleftrightarrow> unat fw + j * unat nb < unat units"
    "j < unat n_pages \<Longrightarrow> unat (fw + of_nat j * nb) = unat fw + j * unat nb"
proof -
  have u1: "unat (units - 1) = unat units - 1" using lt by (intro unat_minus_one) auto
  have "unat (units - 1 - fw) = unat (units - 1) - unat fw"
    using lt u1 by (intro unat_minus_fits) (simp only: word_le_nat_alt)
  then have q: "unat ((units - 1 - fw) div nb) = (unat units - 1 - unat fw) div unat nb"
    by (simp only: unat_div u1)
  have "(unat units - 1 - unat fw) div unat nb \<le> unat units - 1 - unat fw" by (rule div_le_dividend)
  then have "unat n_pages = unat (1 :: u32) + (unat units - 1 - unat fw) div unat nb"
    unfolding n_pages_def q [symmetric] using lt unat_less_4G [of units]
    by (intro unat_plus_fits) (simp only: q unat_1)
  then have np: "unat n_pages = 1 + (unat units - 1 - unat fw) div unat nb" by simp
  show iff: "j < unat n_pages \<longleftrightarrow> unat fw + j * unat nb < unat units" for j
    unfolding np by (rule page_count [OF lt nb])
  assume j: "j < unat n_pages"
  then have "unat fw + j * unat nb < 4294967296" using iff [of j] by (auto intro: less_trans)
  moreover have "unat (of_nat j :: u32) = j" using j by (rule unat_of_nat_less)
  ultimately show "unat (fw + of_nat j * nb) = unat fw + j * unat nb"
    by (simp add: unat_plus_fits unat_mult_fits)
qed

lemma fits_unit:
  assumes "heap_fits geo bu units" and "w < unat units"
  shows "unat (bu + of_nat w) = unat bu + w"
  using assms by (simp add: heap_fits_def unat_plus_fits)

lemma fits_addr:
  assumes "heap_fits geo bu units" and "unat x \<le> unat bu + unat units"
  shows "unat (value_base geo + (x div num_banks geo) * aligned_page geo) =
      unat (value_base geo) + unat x div unat (num_banks geo) * unat (aligned_page geo)"
proof -
  have "unat x div unat (num_banks geo) * unat (aligned_page geo) \<le>
      ((unat bu + unat units) div unat (num_banks geo) + 1) * unat (aligned_page geo)"
    using div_le_mono [OF assms(2), of "unat (num_banks geo)"] by (intro mult_le_mono) auto
  then have "unat (value_base geo) + unat x div unat (num_banks geo) * unat (aligned_page geo) < 4294967296"
    using assms(1) by (simp add: heap_fits_def)
  then show ?thesis by (simp add: unat_plus_fits unat_mult_fits unat_div)
qed

lemma fits_first:
  assumes "heap_fits geo bu units" and "unat bank < unat (num_banks geo)"
  shows "unat (first_unit_in_bank geo bu bank) =
      (unat bank + unat (num_banks geo) - unat bu mod unat (num_banks geo)) mod unat (num_banks geo)"
proof -
  have nb: "0 < unat (num_banks geo)" "unat (num_banks geo) < 2147483648"
    using assms(1) by (auto simp: heap_fits_def word_less_nat_alt)
  have s: "unat (bank + num_banks geo) = unat bank + unat (num_banks geo)"
    using assms(2) nb by (intro unat_plus_fits) linarith
  have "unat (bu mod num_banks geo) \<le> unat (num_banks geo)"
    using nb by (simp add: unat_mod order_less_imp_le)
  then have "bu mod num_banks geo \<le> bank + num_banks geo" by (simp add: word_le_nat_alt s)
  then show ?thesis
    by (simp add: first_unit_in_bank_def unat_mod unat_minus_fits s)
qed

section \<open>A pass over a steady memory\<close>

lemma read_unit_steady:
  assumes fits: "heap_fits geo bu units" and st: "steady mem rd" and w: "w < unat units"
  shows "fst (read_unit geo rd bu (of_nat w) (into, p)) =
    memcpy (w * 4288) (map (unit_byte geo mem (unat bu + w)) [0 ..< 4288]) into"
proof -
  have u: "unat (bu + of_nat w) = unat bu + w" by (rule fits_unit [OF fits w])
  then have a: "unat (value_base geo + ((bu + of_nat w) div num_banks geo) * aligned_page geo) =
      unat (value_base geo) + (unat bu + w) div unat (num_banks geo) * unat (aligned_page geo)"
    using fits_addr [OF fits, of "bu + of_nat w"] w by simp
  show ?thesis
    using st w
    by (simp add: read_unit_def device_read_def Let_def steady_def a u unat_mod unit_byte_def [abs_def])
qed

lemma fold_fst: "(\<And>x a p. x \<in> set xs \<Longrightarrow> fst (g x (a, p)) = h x a) \<Longrightarrow>
    fst (fold g xs (a, p)) = fold h xs a"
proof (induction xs arbitrary: a p)
  case (Cons x xs)
  obtain a' p' where "g x (a, p) = (a', p')" by (cases "g x (a, p)")
  then show ?case using Cons.IH [of a' p'] Cons.prems Cons.prems [of x a p] by simp
qed simp

lemma read_direct_steady:
  assumes fits: "heap_fits geo bu units" and st: "steady mem rd"
    and room: "unat units * 4288 \<le> length into" and w: "w < unat units" "k < 4288"
  shows "length (fst (fold (read_unit geo rd bu) (upto_u32 units) (into, p))) = length into
    \<and> fst (fold (read_unit geo rd bu) (upto_u32 units) (into, p)) ! (w * 4288 + k)
      = unit_byte geo mem (unat bu + w) k"
proof -
  let ?src = "\<lambda>x. map (unit_byte geo mem (unat bu + x)) [0 ..< 4288]"
  have "fst (fold (read_unit geo rd bu) (upto_u32 units) (into, p))
      = fold (\<lambda>u. memcpy (unat u * 4288) (?src (unat u))) (upto_u32 units) into"
    using read_unit_steady [OF fits st] by (intro fold_fst) (auto simp: upto_u32_def)
  also have "\<dots> = fold (\<lambda>x. memcpy (x * 4288) (?src x)) [0 ..< unat units] into"
    unfolding upto_u32_def fold_map comp_def by (intro fold_cong) auto
  finally show ?thesis
    using copy_units [of "[0 ..< unat units]" "\<lambda>x. x" "unat units" ?src
        "\<lambda>x k. unit_byte geo mem (unat bu + x) k" into k w] room w
    by simp
qed


lemma read_bank_steady:
  fixes p :: value_read_profile and into :: "byte list"
  assumes fits: "heap_fits geo bu units" and st: "steady mem rd"
    and room: "unat units * 4288 \<le> length into" and w: "w < unat units" "k < 4288"
    and b: "bank < unat (num_banks geo)"
  defines "res \<equiv> fst (read_bank geo rd bu units (of_nat bank) (into, p))"
  shows "length res = length into
    \<and> res ! (w * 4288 + k) = (if (unat bu + w) mod unat (num_banks geo) = bank
        then unit_byte geo mem (unat bu + w) k else into ! (w * 4288 + k))"
proof -
  define nb where "nb = unat (num_banks geo)"
  define ap where "ap = unat (aligned_page geo)"
  define fw where "fw = first_unit_in_bank geo bu (of_nat bank)"
  define fu where "fu = (bank + nb - unat bu mod nb) mod nb"
  have fw: "unat fw = fu" using fits_first [OF fits, of "of_nat bank"] b by (simp add: fw_def fu_def nb_def)
  have nb0: "0 < nb" using b by (simp add: nb_def)
  note B = bank_of_unit [OF b [folded nb_def], of "unat bu", folded fu_def]
  have ap: "4288 \<le> ap" using fits by (simp add: heap_fits_def ap_def)
  show ?thesis
  proof (cases "units \<le> fw")
    case True
    then have "unat units \<le> fu" using fw by (simp add: word_le_nat_alt)
    then have "w < fu" using w(1) by linarith
    moreover have "w mod nb \<le> w" by (rule mod_less_eq_dividend)
    ultimately have "w mod nb \<noteq> fu" by linarith
    then have "(unat bu + w) mod nb \<noteq> bank" using B(3) by blast
    then show ?thesis using True by (simp add: res_def read_bank_def Let_def fw_def nb_def)
  next
    case False
    then have lt: "fu < unat units" using fw by (simp add: word_le_nat_alt)
    define n_pages where "n_pages = 1 + (units - 1 - fw) div num_banks geo"
    note P = bank_pages [of fw units "num_banks geo", folded n_pages_def nb_def, unfolded fw, OF lt nb0]
    have page: "j < unat n_pages \<longleftrightarrow> fu + j * nb < unat units" for j by (rule P(1))
    have upage: "unat (fw + of_nat j * num_banks geo) = fu + j * nb" if "j < unat n_pages" for j
      using that by (rule P(2))
    define scratch where "scratch = map (\<lambda>i. mem bank (unat (value_base geo)
        + (unat bu + fu) div nb * ap + i)) [0 ..< unat n_pages * ap]"
    have first: "unat (value_base geo + ((bu + fw) div num_banks geo) * aligned_page geo) =
        unat (value_base geo) + (unat bu + fu) div nb * ap"
    proof -
      have "bu + fw = bu + of_nat fu" using fw by (metis unat_of_nat_less lt u32_eq_iff)
      then have "unat (bu + fw) = unat bu + fu" using fits_unit [OF fits lt] by simp
      then show ?thesis using fits_addr [OF fits, of "bu + fw"] lt by (simp add: nb_def ap_def)
    qed
    let ?src = "\<lambda>j. take 4288 (drop (j * ap) scratch)"
    have rd: "rd i (of_nat bank) (value_base geo + ((bu + fw) div num_banks geo) * aligned_page geo)
        (unat n_pages * ap) = scratch" for i
      using st b by (simp add: steady_def scratch_def first nb_def)
    have "res = fold (\<lambda>page. memcpy (unat (fw + page * num_banks geo) * 4288) (?src (unat page)))
        (upto_u32 n_pages) into"
      using False rd
      by (simp add: res_def read_bank_def device_read_def Let_def fw_def [symmetric]
          n_pages_def [symmetric] ap_def [symmetric])
    also have "\<dots> = fold (\<lambda>j. memcpy ((fu + j * nb) * 4288) (?src j)) [0 ..< unat n_pages] into"
      unfolding upto_u32_def fold_map comp_def using upage by (intro fold_cong) auto
    finally have res: "res = fold (\<lambda>j. memcpy ((fu + j * nb) * 4288) (?src j)) [0 ..< unat n_pages] into" .
    have inside: "j * ap + i < unat n_pages * ap" if "j < unat n_pages" "i < 4288" for i j
      using that ap by (intro unit_below) auto
    have len: "length (?src j) = 4288" if "j < unat n_pages" for j
      using inside [OF that, of 4287] by (simp add: scratch_def min_def) linarith
    have val: "?src j ! i = unit_byte geo mem (unat bu + (fu + j * nb)) i"
      if "j < unat n_pages" "i < 4288" for i j
    proof -
      have m: "(unat bu + (fu + j * nb)) mod nb = bank" using B(2) by (simp add: add.assoc [symmetric])
      have d: "(unat bu + (fu + j * nb)) div nb = (unat bu + fu) div nb + j"
        using nb0 by (simp add: add.assoc [symmetric])
      have "?src j ! i = mem bank (unat (value_base geo) + (unat bu + fu) div nb * ap + (j * ap + i))"
        using inside [OF that] that by (simp add: scratch_def)
      then show ?thesis
        unfolding unit_byte_def nb_def [symmetric] ap_def [symmetric] m d
        by (simp add: add_mult_distrib add.assoc)
    qed
    have mem: "w \<in> (\<lambda>j. fu + j * nb) ` set [0 ..< unat n_pages] \<longleftrightarrow> (unat bu + w) mod nb = bank"
    proof
      assume "w \<in> (\<lambda>j. fu + j * nb) ` set [0 ..< unat n_pages]"
      then show "(unat bu + w) mod nb = bank" using B(2) by (auto simp: add.assoc [symmetric])
    next
      assume "(unat bu + w) mod nb = bank"
      then have "w mod nb = fu" by (rule B(3))
      then have "w = fu + w div nb * nb" by (metis add.commute div_mult_mod_eq)
      moreover from this have "w div nb < unat n_pages" using page w(1) by metis
      ultimately show "w \<in> (\<lambda>j. fu + j * nb) ` set [0 ..< unat n_pages]" by auto
    qed
    have "length res = length into \<and> res ! (w * 4288 + k) =
        (if w \<in> (\<lambda>j. fu + j * nb) ` set [0 ..< unat n_pages]
         then unit_byte geo mem (unat bu + w) k else into ! (w * 4288 + k))"
      unfolding res using page len val room w
      by (intro copy_units [where m = "unat units"]) auto
    then show ?thesis unfolding mem by (simp add: nb_def)
  qed
qed


lemma read_bulk_steady:
  assumes fits: "heap_fits geo bu units" and st: "steady mem rd"
    and room: "unat units * 4288 \<le> length into" and w: "w < unat units" "k < 4288"
    and bs: "\<forall>b \<in> set bs. b < unat (num_banks geo)"
  shows "length (fst (fold (read_bank geo rd bu units) (map of_nat bs) (into, p))) = length into
    \<and> fst (fold (read_bank geo rd bu units) (map of_nat bs) (into, p)) ! (w * 4288 + k)
      = (if (unat bu + w) mod unat (num_banks geo) \<in> set bs
         then unit_byte geo mem (unat bu + w) k else into ! (w * 4288 + k))"
  using room bs
proof (induction bs arbitrary: into p)
  case (Cons b bs)
  obtain into' p' where e: "read_bank geo rd bu units (of_nat b) (into, p) = (into', p')"
    by (cases "read_bank geo rd bu units (of_nat b) (into, p)")
  have b: "b < unat (num_banks geo)" using Cons.prems(2) by simp
  note S = read_bank_steady [OF fits st Cons.prems(1) w b, of p, unfolded e fst_conv]
  have "unat units * 4288 \<le> length into'" using S Cons.prems(1) by simp
  then show ?case using Cons.IH [of into' p'] S Cons.prems(2) e by auto
qed simp

text \<open>Both ways of reading leave the value's image at the front of the buffer.\<close>

lemma read_all_steady:
  assumes fits: "heap_fits geo bu units" and st: "steady mem rd"
    and room: "length into = unat units * 4288"
  shows "fst (read_all geo rd bu units (into, p)) = value_image geo mem (unat bu) (unat units)"
proof -
  have nb: "0 < unat (num_banks geo)" using fits by (simp add: heap_fits_def word_less_nat_alt)
  let ?r = "fst (read_all geo rd bu units (into, p))"
  have at: "length ?r = length into \<and> ?r ! (w * 4288 + k) = unit_byte geo mem (unat bu + w) k"
    if w: "w < unat units" "k < 4288" for w k
    using read_direct_steady [OF fits st, of into w k] room w nb
      read_bulk_steady [OF fits st _ w, of into "[0 ..< unat (num_banks geo)]"]
    by (simp add: read_all_def Let_def upto_u32_def)
  show ?thesis
  proof (cases "units = 0")
    case True
    then show ?thesis using room by (simp add: read_all_def Let_def upto_u32_def value_image_def)
  next
    case False
    then have "0 < unat units" by (simp add: unat_gt_0)
    then have "length ?r = unat units * 4288" using at [of 0 0] room by simp
    then show ?thesis using at by (intro units_eqI [where n = "unat units"]) auto
  qed
qed

text \<open>The number of device accesses of a pass, and that a pass counts itself.\<close>

lemma fold_calls:
  "(\<And>x q. vp_passes (snd (g x q)) = vp_passes (snd q) \<and> vp_retries (snd (g x q)) = vp_retries (snd q)) \<Longrightarrow>
    vp_passes (snd (fold g xs q)) = vp_passes (snd q) \<and> vp_retries (snd (fold g xs q)) = vp_retries (snd q)"
  by (induction xs arbitrary: q) auto

lemma read_all_counts:
  "vp_passes (snd (read_all geo rd bu units (into, p))) = vp_passes p + 1
   \<and> vp_retries (snd (read_all geo rd bu units (into, p))) = vp_retries p"
proof -
  have "vp_passes (snd (read_unit geo rd bu x q)) = vp_passes (snd q)
      \<and> vp_retries (snd (read_unit geo rd bu x q)) = vp_retries (snd q)" for x q
    by (cases q) (simp add: read_unit_def Let_def device_read_def)
  moreover have "vp_passes (snd (read_bank geo rd bu units x q)) = vp_passes (snd q)
      \<and> vp_retries (snd (read_bank geo rd bu units x q)) = vp_retries (snd q)" for x q
    by (cases q) (simp add: read_bank_def Let_def device_read_def)
  ultimately show ?thesis
    using fold_calls [of "read_unit geo rd bu"] fold_calls [of "read_bank geo rd bu units"]
    by (simp add: read_all_def Let_def)
qed


section \<open>A pass over any memory keeps the size of the buffer\<close>

definition well_sized :: "dram_reader \<Rightarrow> bool" where
  "well_sized rd = (\<forall>i bank addr n. length (rd i bank addr n) = n)"

lemma steady_well_sized: "steady mem rd \<Longrightarrow> well_sized rd"
  by (simp add: steady_def well_sized_def)

lemma fold_length:
  "(\<And>x (a :: 'b list). x \<in> set xs \<Longrightarrow> length a = n \<Longrightarrow> length (h x a) = n) \<Longrightarrow>
     length a = n \<Longrightarrow> length (fold h xs a) = n"
  by (induction xs arbitrary: a) auto

lemma fold_length_fst:
  "(\<And>x q. x \<in> set xs \<Longrightarrow> length (fst q :: 'b list) = n \<Longrightarrow> length (fst (g x q)) = n) \<Longrightarrow>
     length (fst q) = n \<Longrightarrow> length (fst (fold g xs q)) = n"
  by (induction xs arbitrary: q) auto

lemma read_bank_length:
  assumes fits: "heap_fits geo bu units" and rd: "well_sized rd"
    and room: "length (fst q) = unat units * 4288"
  shows "length (fst (read_bank geo rd bu units bank q)) = unat units * 4288"
proof -
  obtain into p where q: "q = (into, p)" by (cases q)
  define fw where "fw = first_unit_in_bank geo bu bank"
  show ?thesis
  proof (cases "units \<le> fw")
    case True
    then show ?thesis using room by (simp add: q read_bank_def fw_def Let_def)
  next
    case False
    then have lt: "unat fw < unat units" by (simp add: word_le_nat_alt)
    have nb: "0 < unat (num_banks geo)" and ap: "4288 \<le> unat (aligned_page geo)"
      using fits by (simp_all add: heap_fits_def word_less_nat_alt)
    define n_pages where "n_pages = 1 + (units - 1 - fw) div num_banks geo"
    note P = bank_pages [OF lt nb, folded n_pages_def]
    have step: "length (memcpy (unat (fw + page * num_banks geo) * 4288)
        (take 4288 (drop (unat page * unat (aligned_page geo)) scratch)) a) = unat units * 4288"
      if page: "page \<in> set (upto_u32 n_pages)"
        and sc: "length scratch = unat n_pages * unat (aligned_page geo)"
        and a: "length a = unat units * 4288" for page a and scratch :: "byte list"
    proof -
      obtain j where j: "page = of_nat j" "j < unat n_pages" using page by (auto simp: upto_u32_def)
      have "unat fw + j * unat (num_banks geo) < unat units" using P(1) j(2) by blast
      then have "Suc (unat fw + j * unat (num_banks geo)) * 4288 \<le> unat units * 4288"
        by (intro mult_le_mono1) simp
      moreover have "j * unat (aligned_page geo) + 4287 < unat n_pages * unat (aligned_page geo)"
        using ap j(2) by (intro unit_below) auto
      ultimately show ?thesis using a sc P(2) [OF j(2)] j by simp
    qed
    show ?thesis
      using False room rd step
      by (simp add: q read_bank_def device_read_def Let_def fw_def [symmetric] n_pages_def [symmetric]
          well_sized_def) (rule fold_length, auto)
  qed
qed

lemma read_all_length:
  assumes fits: "heap_fits geo bu units" and rd: "well_sized rd"
    and room: "length (fst q) = unat units * 4288"
  shows "length (fst (read_all geo rd bu units q)) = unat units * 4288"
proof -
  obtain into p where q: "q = (into, p)" by (cases q)
  have "length (fst (read_unit geo rd bu u r)) = unat units * 4288"
    if "u \<in> set (upto_u32 units)" "length (fst r) = unat units * 4288" for u r
  proof -
    have "unat u < unat units" using that(1) by (auto simp: upto_u32_def)
    then have "Suc (unat u) * 4288 \<le> unat units * 4288" by (intro mult_le_mono1) simp
    then show ?thesis
      using that(2) rd by (cases r) (simp add: read_unit_def device_read_def Let_def well_sized_def)
  qed
  moreover have "length (fst (read_bank geo rd bu units b r)) = unat units * 4288"
    if "length (fst r) = unat units * 4288" for b r
    by (rule read_bank_length [OF fits rd that])
  ultimately show ?thesis
    using room by (auto simp: q read_all_def Let_def intro!: fold_length_fst)
qed

section \<open>The retry loop\<close>

text \<open>\<open>read_by pass n img k\<close>: the \<open>k\<close>-th pass read the first \<open>n\<close> bytes of \<open>img\<close>.\<close>

definition read_by ::
  "(byte list \<times> value_read_profile \<Rightarrow> byte list \<times> value_read_profile) \<Rightarrow> nat \<Rightarrow> byte list \<Rightarrow>
   nat \<Rightarrow> bool" where
  "read_by pass n img k = (\<exists>b q. take n (fst (pass (b, q))) = take n img
     \<and> vp_passes (snd (pass (b, q))) = k)"

lemma settle_spec:
  assumes cnt: "\<And>q. vp_passes (snd (pass q)) = vp_passes (snd q) + 1
        \<and> vp_retries (snd (pass q)) = vp_retries (snd q)"
    and len: "\<And>q. length (fst q) = m \<Longrightarrow> length (fst (pass q)) = m"
    and sizes: "length other = m" "length dst = m" "0 < n"
    and start: "read_by pass total_len dst (vp_passes p)"
    and run: "settle n pass total_len dst other p = (ok, res, p')"
  shows "length res = m \<and> vp_passes p' + vp_retries p = vp_passes p + vp_retries p' + (if ok then 1 else 0)
    \<and> vp_retries p \<le> vp_retries p'
    \<and> (if ok then vp_retries p' < vp_retries p + n else vp_retries p' = vp_retries p + n)
    \<and> read_by pass total_len res (vp_passes p')
    \<and> (ok \<longrightarrow> read_by pass total_len res (vp_passes p' - 1))"
  using sizes start run
proof (induction n arbitrary: dst other p)
  case 0
  then show ?case by simp
next
  case (Suc n)
  obtain o1 p1 where e: "pass (other, p) = (o1, p1)" by (cases "pass (other, p)")
  have p1: "vp_passes p1 = vp_passes p + 1" "vp_retries p1 = vp_retries p"
    using cnt [of "(other, p)"] e by simp_all
  have l1: "length o1 = m" using len [of "(other, p)"] Suc.prems(1) e by simp
  have rb: "read_by pass total_len o1 (vp_passes p1)"
    unfolding read_by_def using e by (intro exI [of _ other] exI [of _ p]) simp
  have cp: "memcpy 0 o1 dst = o1" using l1 Suc.prems(2) by (simp add: memcpy_all)
  show ?case
  proof (cases "take total_len dst = take total_len o1")
    case True
    then have "ok" "res = dst" "p' = p1" using Suc.prems(5) e by auto
    moreover have "read_by pass total_len dst (vp_passes p1)" using rb True by (simp add: read_by_def)
    ultimately show ?thesis using p1 Suc.prems(2,4) by simp
  next
    case False
    let ?p2 = "p1\<lparr>vp_retries := vp_retries p1 + 1\<rparr>"
    show ?thesis
    proof (cases "n = 0")
      case True
      then have "\<not> ok" "res = o1" "p' = ?p2" using Suc.prems(5) e False cp by (auto simp: Let_def)
      then show ?thesis using p1 l1 True rb by simp
    next
      case False2: False
      then have st: "settle n pass total_len o1 o1 ?p2 = (ok, res, p')"
        using Suc.prems(5) e False cp by (auto simp: Let_def)
      have "read_by pass total_len o1 (vp_passes ?p2)" using rb by simp
      from Suc.IH [OF l1 l1 _ this st] False2 p1 show ?thesis by (auto split: if_splits)
    qed
  qed
qed


section \<open>Properties\<close>

lemma read_into_run:
  assumes "device_found geo" "value_buffer_found geo" "length dst = unat (chunk_count_for len) * 4288"
    and "heap_fits geo (off div kMaxChunkValueBytes) (chunk_count_for len)"
  shows "read_value_units_into geo rd dst off len =
    (let pass = read_all geo rd (off div kMaxChunkValueBytes) (chunk_count_for len) in
     case pass (dst, no_reads) of (dst', p) \<Rightarrow>
       Inr (settle kValueReadMaxMismatches pass (unat len) dst'
              (replicate (unat (chunk_count_for len) * 4288) 0) p))"
proof -
  have "kMaxChunkValueBytes \<le> aligned_page geo"
    using assms(4) by (simp add: heap_fits_def word_le_nat_alt)
  then show ?thesis using assms(1-3) by (simp add: read_value_units_into_def Let_def)
qed

lemma read_steady:
  assumes "steady mem rd" and "device_found geo" and "value_buffer_found geo"
    and "heap_fits geo (off div kMaxChunkValueBytes) (chunk_count_for len)"
    and "length dst = unat (chunk_count_for len) * 4288"
  shows "\<exists>p. read_value_units_into geo rd dst off len =
      Inr (True, value_image geo mem (unat off div 4288) (unat (chunk_count_for len)), p)
    \<and> vp_passes p = 2 \<and> vp_retries p = 0"
proof -
  define bu where "bu = off div kMaxChunkValueBytes"
  define units where "units = chunk_count_for len"
  define pass where "pass = read_all geo rd bu units"
  define img where "img = value_image geo mem (unat bu) (unat units)"
  have fits: "heap_fits geo bu units" using assms(4) by (simp add: bu_def units_def)
  have pass: "fst (pass (into, p)) = img" "vp_passes (snd (pass (into, p))) = vp_passes p + 1"
    "vp_retries (snd (pass (into, p))) = vp_retries p"
    if "length into = unat units * 4288" for into p
    using read_all_steady [OF fits assms(1) that] read_all_counts
    by (simp_all add: pass_def img_def)
  obtain p1 where p1: "pass (dst, no_reads) = (img, p1)" "vp_passes p1 = 1" "vp_retries p1 = 0"
    using pass [of dst no_reads] assms(5) by (cases "pass (dst, no_reads)") (auto simp: units_def no_reads_def)
  let ?other = "replicate (unat units * 4288) 0"
  obtain p2 where p2: "pass (?other, p1) = (img, p2)" "vp_passes p2 = 2" "vp_retries p2 = 0"
    using pass [of ?other p1] p1(2,3) by (cases "pass (?other, p1)") auto
  have "settle kValueReadMaxMismatches pass (unat len) img ?other p1 = (True, img, p2)"
    using p2(1) by (simp add: kValueReadMaxMismatches_def numeral_eq_Suc)
  then have "read_value_units_into geo rd dst off len = Inr (True, img, p2)"
    using read_into_run [OF assms(2,3,5,4)] p1(1) by (simp add: pass_def bu_def units_def Let_def)
  moreover have "unat bu = unat off div 4288" by (simp add: bu_def unat_div)
  ultimately show ?thesis using p2 by (simp add: img_def units_def)
qed

text \<open>
  C32: reading a value returns the value. From a memory that does not change during the call, and for
  a value whose units have addresses in range, the read takes two passes and no retry, and the
  bytes are those of the value's units in order, whether the value is read unit by unit or
  with one access per bank and scattered back.
\<close>

theorem read_value_steady:
  assumes "steady mem rd" and "device_found geo" and "value_buffer_found geo"
    and "heap_fits geo (off div kMaxChunkValueBytes) (chunk_count_for len)"
    and "length dst = unat (chunk_count_for len) * 4288"
  shows "\<exists>p. read_value_units_into geo rd dst off len =
      Inr (True, value_image geo mem (unat off div 4288) (unat (chunk_count_for len)), p)
    \<and> vp_passes p = 2 \<and> vp_retries p = 0"
  by (rule read_steady [OF assms])

definition demo_geometry :: geometry where
  "demo_geometry = \<lparr>device_found = True, value_buffer_found = True, num_banks = 2,
     aligned_page = 4320, value_base = 1024\<rparr>"

lemma demo_chunks: "chunk_count_for 10000 = 3"
  by (simp add: chunk_count_for_def kMaxChunkValueBytes_eq)

lemma demo_fits: "heap_fits demo_geometry (8576 div kMaxChunkValueBytes) (chunk_count_for 10000)"
  by (simp add: heap_fits_def demo_geometry_def demo_chunks kMaxChunkValueBytes_eq word_less_nat_alt)

theorem read_value_steady_witness:
  "\<exists>p. read_value_units_into demo_geometry
      (\<lambda>i bank addr n. map (\<lambda>k. of_nat (unat bank * 7 + unat addr + k)) [0 ..< n])
      (replicate 12864 0) 8576 10000 =
      Inr (True, value_image demo_geometry (\<lambda>bank a. of_nat (bank * 7 + a)) 2 3, p)
    \<and> vp_passes p = 2 \<and> vp_retries p = 0"
  using read_value_steady [OF _ _ _ demo_fits,
      of "\<lambda>bank a. of_nat (bank * 7 + a)"
         "\<lambda>i bank addr n. map (\<lambda>k. of_nat (unat bank * 7 + unat addr + k)) [0 ..< n]"
         "replicate 12864 0"]
  by (simp add: steady_def add.assoc demo_chunks) (simp add: demo_geometry_def)



end
