(* ===== verification/Value_Write.thy ===== *)
theory Value_Write
  imports Value_Read
begin

text \<open>
  Writing a value into the device heap without a host mapping: the last part of
  \<^verbatim>\<open>stage_value_host_to_device\<close> in \<^verbatim>\<open>server_runtime/server_tiering.cpp\<close>. The units of the value
  that fall in one bank are gathered, padded with zeros to whole pages, and written with one
  access. The device memory is a function from banks and addresses to bytes.
\<close>

section \<open>Gathering and writing\<close>

type_synonym dram = "nat \<Rightarrow> nat \<Rightarrow> byte"

definition write_dram :: "u32 \<Rightarrow> u32 \<Rightarrow> byte list \<Rightarrow> dram \<Rightarrow> dram" where
  "write_dram bank addr bytes mem = mem(unat bank := (\<lambda>a.
     if unat addr \<le> a \<and> a < unat addr + length bytes then bytes ! (a - unat addr)
     else mem (unat bank) a))"

text \<open>
  The gathering loop over the units \<open>u\<close>, \<open>u + num_banks\<close>, and so on. Its fuel is the number of
  units, which is enough because every round advances \<open>u\<close>.
\<close>

fun gather_pages :: "nat \<Rightarrow> geometry \<Rightarrow> u32 \<Rightarrow> u32 \<Rightarrow> byte list \<Rightarrow> u32 \<Rightarrow> u32 \<Rightarrow> byte list \<Rightarrow>
    u32 \<times> byte list" where
  "gather_pages 0 geo units total_len bytes u n_pages scratch = (n_pages, scratch)"
| "gather_pages (Suc fuel) geo units total_len bytes u n_pages scratch =
     (if u < units then
        let dst = n_pages * aligned_page geo;
            off = u * kMaxChunkValueBytes;
            n = min kMaxChunkValueBytes (total_len - off);
            copied = memcpy (unat dst) (take (unat n) (drop (unat off) bytes)) scratch;
            padded = (if n < aligned_page geo
                      then memcpy (unat dst + unat n) (replicate (unat (aligned_page geo) - unat n) 0) copied
                      else copied)
        in gather_pages fuel geo units total_len bytes (u + num_banks geo) (n_pages + 1) padded
      else (n_pages, scratch))"

definition write_bank :: "geometry \<Rightarrow> u32 \<Rightarrow> u32 \<Rightarrow> u32 \<Rightarrow> byte list \<Rightarrow> u32 \<Rightarrow>
    byte list \<times> dram \<Rightarrow> byte list \<times> dram" where
  "write_bank geo base_unit units total_len bytes bank = (\<lambda>(scratch, mem).
     let first_u = first_unit_in_bank geo base_unit bank
     in if units \<le> first_u then (scratch, mem)
     else let first_page_addr =
            value_base geo + ((base_unit + first_u) div num_banks geo) * aligned_page geo
     in case gather_pages (unat units) geo units total_len bytes first_u 0 scratch of
          (n_pages, gathered) \<Rightarrow>
            (gathered, write_dram bank first_page_addr
                         (take (unat n_pages * unat (aligned_page geo)) gathered) mem))"

definition write_value_units :: "geometry \<Rightarrow> u32 \<Rightarrow> byte list \<Rightarrow> u32 \<Rightarrow> dram \<Rightarrow> dram" where
  "write_value_units geo value_byte_off bytes total_len mem =
     (let base_unit = value_byte_off div kMaxChunkValueBytes;
          units = chunk_count_for total_len;
          max_pages_per_bank = (units + num_banks geo - 1) div num_banks geo;
          scratch = replicate (unat max_pages_per_bank * unat (aligned_page geo)) 0
      in snd (fold (write_bank geo base_unit units total_len bytes) (upto_u32 (num_banks geo))
                (scratch, mem)))"

section \<open>What a page holds\<close>

text \<open>Byte \<open>i\<close> of the page of unit \<open>w\<close>: the value's byte, or zero past its end.\<close>

definition page_byte :: "byte list \<Rightarrow> nat \<Rightarrow> nat \<Rightarrow> byte" where
  "page_byte bytes w i = (if i < 4288 \<and> w * 4288 + i < length bytes then bytes ! (w * 4288 + i) else 0)"

definition pages_hold :: "nat \<Rightarrow> nat \<Rightarrow> nat \<Rightarrow> byte list \<Rightarrow> nat \<Rightarrow> byte list \<Rightarrow> bool" where
  "pages_hold ap fu nb bytes n scratch =
     (\<forall>j < n. \<forall>i < ap. scratch ! (j * ap + i) = page_byte bytes (fu + j * nb) i)"

text \<open>One round of the loop fills page \<open>n\<close> and leaves the others.\<close>

lemma fill_page:
  assumes room: "Suc j * ap \<le> length scratch" and ap: "4288 \<le> ap" and i: "i < ap"
    and n: "n = min 4288 (length bytes - w * 4288)"
  defines "copied \<equiv> memcpy (j * ap) (take n (drop (w * 4288) bytes)) scratch"
  defines "padded \<equiv> (if n < ap then memcpy (j * ap + n) (replicate (ap - n) 0) copied else copied)"
  shows "length padded = length scratch"
    "padded ! (j * ap + i) = page_byte bytes w i"
    "m < j * ap \<Longrightarrow> padded ! m = scratch ! m"
proof -
  have ln: "length (take n (drop (w * 4288) bytes)) = n" using n by simp
  have nap: "n \<le> ap" using n ap by simp
  have r1: "j * ap + length (take n (drop (w * 4288) bytes)) \<le> length scratch"
    using room ln nap by simp
  have lc: "length copied = length scratch" unfolding copied_def by (rule length_memcpy [OF r1])
  have r2: "j * ap + n + length (replicate (ap - n) (0 :: byte)) \<le> length copied"
    using room nap lc by simp
  show "length padded = length scratch"
    using lc length_memcpy [OF r2] by (simp add: padded_def)
  have ib: "j * ap + i < length scratch" using room i by simp
  have c: "copied ! (j * ap + i) = (if i < n then bytes ! (w * 4288 + i) else scratch ! (j * ap + i))"
  proof (cases "i < n")
    case True
    then have "w * 4288 + i < length bytes" unfolding n min_less_iff_conj by linarith
    then have "take n (drop (w * 4288) bytes) ! i = bytes ! (w * 4288 + i)" using True by simp
    then show ?thesis using nth_memcpy [OF r1 ib, unfolded ln] True by (simp add: copied_def)
  next
    case False
    then show ?thesis using nth_memcpy [OF r1 ib, unfolded ln] by (simp add: copied_def)
  qed
  have "padded ! (j * ap + i) = (if i < n then bytes ! (w * 4288 + i) else 0)"
    using nth_memcpy [OF r2, of "j * ap + i"] ib lc c i nap by (auto simp: padded_def)
  then show "padded ! (j * ap + i) = page_byte bytes w i" using n by (auto simp: page_byte_def)
  assume m: "m < j * ap"
  then have mb: "m < length scratch" using room by simp
  show "padded ! m = scratch ! m"
    using nth_memcpy [OF r2, of m] nth_memcpy [OF r1 mb] m mb lc by (simp add: padded_def copied_def)
qed

lemma gather_pages_spec:
  assumes bytes: "length bytes = unat total_len" and units: "units = chunk_count_for total_len"
    and nb: "0 < unat (num_banks geo)" "unat (num_banks geo) < 2147483648"
    and ap: "4288 \<le> unat (aligned_page geo)"
    and N: "\<And>j. j < N \<longleftrightarrow> fu + j * unat (num_banks geo) < unat units"
    and NA: "N * unat (aligned_page geo) < 4294967296"
    and room: "N * unat (aligned_page geo) \<le> length scratch"
    and u: "unat u = fu + j * unat (num_banks geo)" and n: "unat n = j" "j \<le> N" and fuel: "N - j \<le> fuel"
    and hold: "pages_hold (unat (aligned_page geo)) fu (unat (num_banks geo)) bytes j scratch"
  shows "\<exists>sc. gather_pages fuel geo units total_len bytes u n scratch = (of_nat N, sc)
    \<and> length sc = length scratch
    \<and> pages_hold (unat (aligned_page geo)) fu (unat (num_banks geo)) bytes N sc"
  using room u n fuel hold
proof (induction fuel arbitrary: j u n scratch)
  case 0
  then have "j = N" "n = of_nat N" by auto
  then show ?case using 0 by simp
next
  case (Suc fuel)
  show ?case
  proof (cases "u < units")
    case False
    then have "\<not> j < N" using N Suc.prems(2) by (simp add: word_less_nat_alt)
    then have "j = N" "n = of_nat N" using Suc.prems(3,4) by auto
    then show ?thesis using False Suc.prems by simp
  next
    case True
    let ?ap = "unat (aligned_page geo)" and ?nb = "unat (num_banks geo)"
    have j: "j < N" using True N Suc.prems(2) by (simp add: word_less_nat_alt)
    have ub: "unat units \<le> 1001625" by (simp add: units chunk_count_for_bound)
    have uu: "unat u < unat units" using True by (simp add: word_less_nat_alt)
    have "j * ?ap \<le> N * ?ap" using j by (intro mult_le_mono1) simp
    then have "j * ?ap < 4294967296" using NA by linarith
    then have dst: "unat (n * aligned_page geo) = j * ?ap"
      using Suc.prems(3) by (simp add: unat_mult_fits)
    have tot: "unat u * 4288 < unat total_len"
    proof -
      have "Suc (unat u) * 4288 \<le> unat units * 4288" using uu by (intro mult_le_mono1) simp
      then show ?thesis using chunk_count_for_tight [of total_len] by (simp add: units)
    qed
    then have "unat u * 4288 < 4294967296" using unat_less_4G [of total_len] by linarith
    then have off: "unat (u * kMaxChunkValueBytes) = unat u * 4288" by (simp add: unat_mult_fits)
    have sub: "unat (total_len - u * kMaxChunkValueBytes) = unat total_len - unat u * 4288"
      using tot off by (subst unat_minus_fits) (simp_all add: word_le_nat_alt)
    define k where "k = min 4288 (length bytes - unat u * 4288)"
    have k: "unat (min kMaxChunkValueBytes (total_len - u * kMaxChunkValueBytes)) = k"
      using sub by (simp add: k_def bytes min_def word_le_nat_alt)
    define copied where "copied = memcpy (j * ?ap) (take k (drop (unat u * 4288) bytes)) scratch"
    define padded where "padded =
      (if k < ?ap then memcpy (j * ?ap + k) (replicate (?ap - k) 0) copied else copied)"
    have step: "gather_pages (Suc fuel) geo units total_len bytes u n scratch
        = gather_pages fuel geo units total_len bytes (u + num_banks geo) (n + 1) padded"
      using True by (simp add: Let_def dst off k padded_def copied_def word_less_nat_alt)
    have "Suc j * ?ap \<le> N * ?ap" using j by (intro mult_le_mono1) simp
    then have rm: "Suc j * ?ap \<le> length scratch" using Suc.prems(1) by linarith
    note F = fill_page [OF rm ap _ k_def, folded copied_def, folded padded_def]
    have lp: "length padded = length scratch" using F(1) [of 0] ap by simp
    have hold: "pages_hold ?ap fu ?nb bytes (Suc j) padded"
      unfolding pages_hold_def
    proof (intro allI impI)
      fix p i assume p: "p < Suc j" and i: "i < ?ap"
      show "padded ! (p * ?ap + i) = page_byte bytes (fu + p * ?nb) i"
      proof (cases "p = j")
        case True
        then show ?thesis using F(2) [OF i] Suc.prems(2) by simp
      next
        case False
        then have "p < j" using p by simp
        then have "padded ! (p * ?ap + i) = scratch ! (p * ?ap + i)"
          using F(3) [OF i] unit_below [OF i] by blast
        then show ?thesis using Suc.prems(6) \<open>p < j\<close> i by (simp add: pages_hold_def)
      qed
    qed
    have u': "unat (u + num_banks geo) = fu + Suc j * ?nb"
      using uu ub nb(2) Suc.prems(2) by (subst unat_plus_fits) auto
    have "unat n + 1 < 4294967296"
    proof -
      have "N * 1 \<le> N * ?ap" using ap by (intro mult_le_mono2) simp
      then show ?thesis using NA j Suc.prems(3) by linarith
    qed
    then have n': "unat (n + 1) = Suc j" using Suc.prems(3) by (subst unat_plus_fits) auto
    show ?thesis
      unfolding step using Suc.IH [OF _ u' n' _ _ hold] Suc.prems(1,5) lp j by simp
  qed
qed


section \<open>One bank, and all of them\<close>

text \<open>Which page of the write, if any, unit \<open>x\<close> of the heap is on.\<close>

lemma page_of_unit:
  fixes bu fu nb x ap k N :: nat
  assumes fu: "fu < nb" "(bu + fu) mod nb = bank" and k: "k < ap"
    and N: "\<And>j. j < N \<longleftrightarrow> fu + j * nb < units"
    and sub: "\<And>w. (bu + w) mod nb = bank \<Longrightarrow> w mod nb = fu"
    and x: "x mod nb = bank"
  shows "(bu + fu) div nb * ap \<le> x div nb * ap + k \<and> x div nb * ap + k < (bu + fu) div nb * ap + N * ap
      \<longleftrightarrow> bu \<le> x \<and> x < bu + units" (is "?in \<longleftrightarrow> _")
    and "bu \<le> x \<Longrightarrow> x < bu + units \<Longrightarrow> \<exists>j < N. x = bu + fu + j * nb \<and> x div nb = (bu + fu) div nb + j"
proof -
  have nb: "0 < nb" using fu(1) by simp
  have div: "(bu + fu + j * nb) div nb = (bu + fu) div nb + j" for j using nb by simp
  show ex: "\<exists>j < N. x = bu + fu + j * nb \<and> x div nb = (bu + fu) div nb + j"
    if "bu \<le> x" "x < bu + units"
  proof -
    have "(x - bu) mod nb = fu" using sub [of "x - bu"] that x by simp
    then have w: "x - bu = fu + (x - bu) div nb * nb" by (metis add.commute div_mult_mod_eq)
    moreover have "x - bu < units" using that by linarith
    ultimately have "(x - bu) div nb < N" using N by metis
    moreover have e: "x = bu + fu + (x - bu) div nb * nb" using w that(1) by linarith
    moreover have "x div nb = (bu + fu) div nb + (x - bu) div nb" using div e by metis
    ultimately show ?thesis by blast
  qed
  show "?in \<longleftrightarrow> bu \<le> x \<and> x < bu + units"
  proof
    assume i: ?in
    have "(bu + fu) div nb * ap < Suc (x div nb) * ap" using i k by simp
    then have ge: "(bu + fu) div nb \<le> x div nb" unfolding mult_less_cancel2 by simp
    have "x div nb * ap < ((bu + fu) div nb + N) * ap" using i by (simp add: add_mult_distrib)
    then have lt: "x div nb < (bu + fu) div nb + N" unfolding mult_less_cancel2 by simp
    define j where "j = x div nb - (bu + fu) div nb"
    have "x = x div nb * nb + bank" using x by (metis div_mult_mod_eq)
    also have "x div nb * nb = (bu + fu) div nb * nb + j * nb" using ge by (simp add: j_def diff_mult_distrib)
    also have "(bu + fu) div nb * nb + j * nb + bank = bu + fu + j * nb"
      using fu(2) div_mult_mod_eq [of "bu + fu" nb] by linarith
    finally have "x = bu + fu + j * nb" .
    moreover have "j < N" using lt ge unfolding j_def by linarith
    then have "fu + j * nb < units" using N by blast
    ultimately show "bu \<le> x \<and> x < bu + units" by simp
  next
    assume "bu \<le> x \<and> x < bu + units"
    then obtain j where j: "j < N" "x div nb = (bu + fu) div nb + j" using ex by blast
    have "j * ap + k < N * ap" using unit_below [OF k j(1)] .
    then show ?in using j(2) by (simp add: add_mult_distrib)
  qed
qed


text \<open>The pages of a bank: their number fits the scratch buffer and their addresses do not wrap.\<close>

lemma bank_extent:
  assumes fits: "heap_fits geo bu units" and lt: "fu < unat units"
  defines "nb \<equiv> unat (num_banks geo)" and "ap \<equiv> unat (aligned_page geo)"
  defines "N \<equiv> 1 + (unat units - 1 - fu) div nb"
  shows "j < N \<longleftrightarrow> fu + j * nb < unat units" "N \<le> unat units" "N * ap < 4294967296"
    "N * ap \<le> (unat units + nb - 1) div nb * ap" "unat (of_nat N :: u32) = N"
proof -
  have nb: "0 < nb" and ap: "0 < ap" using fits by (auto simp: heap_fits_def word_less_nat_alt nb_def ap_def)
  show "j < N \<longleftrightarrow> fu + j * nb < unat units" unfolding N_def by (rule page_count [OF lt nb])
  have "(unat units - 1 - fu) div nb \<le> unat units - 1 - fu" by (rule div_le_dividend)
  then show "N \<le> unat units" unfolding N_def using lt by linarith
  have "(unat units - 1 - fu) div nb \<le> (unat bu + unat units) div nb" by (intro div_le_mono) simp
  then have "N * ap \<le> ((unat bu + unat units) div nb + 1) * ap"
    unfolding N_def by (intro mult_le_mono1) simp
  then show NA: "N * ap < 4294967296" using fits by (simp add: heap_fits_def nb_def ap_def)
  have "N = (unat units - 1 - fu + nb) div nb"
    unfolding N_def using div_add_self2 [of nb "unat units - 1 - fu"] nb by linarith
  also have "\<dots> \<le> (unat units + nb - 1) div nb" using lt by (intro div_le_mono) linarith
  finally show "N * ap \<le> (unat units + nb - 1) div nb * ap" by (rule mult_le_mono1)
  have "N \<le> N * ap" using ap by simp
  then have "N < 4294967296" using NA by linarith
  then show "unat (of_nat N :: u32) = N" by (simp add: unat_of_nat)
qed

lemma gather_bank:
  assumes fits: "heap_fits geo bu (chunk_count_for total_len)" and bytes: "length bytes = unat total_len"
    and lt: "unat fw < unat (chunk_count_for total_len)"
    and room: "(unat (chunk_count_for total_len) + unat (num_banks geo) - 1) div unat (num_banks geo)
        * unat (aligned_page geo) \<le> length scratch"
  defines "N \<equiv> 1 + (unat (chunk_count_for total_len) - 1 - unat fw) div unat (num_banks geo)"
  shows "\<exists>sc. gather_pages (unat (chunk_count_for total_len)) geo (chunk_count_for total_len) total_len
      bytes fw 0 scratch = (of_nat N, sc) \<and> length sc = length scratch
    \<and> pages_hold (unat (aligned_page geo)) (unat fw) (unat (num_banks geo)) bytes N sc"
proof (rule gather_pages_spec [OF bytes refl, where j = 0])
  note E = bank_extent [OF fits lt, folded N_def]
  show "0 < unat (num_banks geo)" "unat (num_banks geo) < 2147483648" "4288 \<le> unat (aligned_page geo)"
    using fits by (auto simp: heap_fits_def word_less_nat_alt)
  show "j < N \<longleftrightarrow> unat fw + j * unat (num_banks geo) < unat (chunk_count_for total_len)" for j by (rule E(1))
  show "N * unat (aligned_page geo) < 4294967296" by (rule E(3))
  show "N * unat (aligned_page geo) \<le> length scratch" using E(4) room by linarith
  show "N - 0 \<le> unat (chunk_count_for total_len)" using E(2) by simp
qed (simp_all add: pages_hold_def)

text \<open>What the write of a bank's pages does to the units of the heap.\<close>

lemma write_dram_unit:
  assumes B: "fu < nb" "(bu + fu) mod nb = bank" "\<And>w. (bu + w) mod nb = bank \<Longrightarrow> w mod nb = fu"
    and N: "\<And>j. j < N \<longleftrightarrow> fu + j * nb < units" and k: "k < ap"
    and addr: "unat addr = unat (value_base geo) + (bu + fu) div nb * ap"
    and geo: "unat (num_banks geo) = nb" "unat (aligned_page geo) = ap" and bw: "unat bw = bank"
    and sc: "N * ap \<le> length sc" "pages_hold ap fu nb bytes N sc"
  shows "unit_byte geo (write_dram bw addr (take (N * ap) sc) mem) x k =
      (if x mod nb = bank \<and> bu \<le> x \<and> x < bu + units then page_byte bytes (x - bu) k
       else unit_byte geo mem x k)"
proof (cases "x mod nb = bank")
  case False
  then show ?thesis by (simp add: write_dram_def unit_byte_def bw geo)
next
  case True
  note P = page_of_unit [OF B(1,2) k N B(3) True]
  have ra: "unit_byte geo (write_dram bw addr (take (N * ap) sc) mem) x k =
      (if (bu + fu) div nb * ap \<le> x div nb * ap + k \<and> x div nb * ap + k < (bu + fu) div nb * ap + N * ap
       then take (N * ap) sc ! (x div nb * ap + k - (bu + fu) div nb * ap) else unit_byte geo mem x k)"
    using True sc(1) unfolding unit_byte_def write_dram_def geo addr bw by (auto simp: add.assoc min_def)
  show ?thesis
  proof (cases "bu \<le> x \<and> x < bu + units")
    case True
    then obtain j where j: "j < N" "x = bu + fu + j * nb" "x div nb = (bu + fu) div nb + j"
      using P(2) by blast
    have "x div nb * ap + k - (bu + fu) div nb * ap = j * ap + k"
      using j(3) by (simp add: add_mult_distrib)
    moreover have "j * ap + k < N * ap" by (rule unit_below [OF k j(1)])
    moreover have "x - bu = fu + j * nb" using j(2) by simp
    ultimately show ?thesis
      using ra P(1) True sc(2) j(1) k \<open>x mod nb = bank\<close> by (simp add: pages_hold_def)
  next
    case False
    then show ?thesis using ra P(1) by auto
  qed
qed

lemma write_bank_spec:
  fixes scratch :: "byte list" and mem :: dram
  assumes fits: "heap_fits geo bu (chunk_count_for total_len)" and bytes: "length bytes = unat total_len"
    and b: "bank < unat (num_banks geo)"
    and room: "(unat (chunk_count_for total_len) + unat (num_banks geo) - 1) div unat (num_banks geo)
        * unat (aligned_page geo) \<le> length scratch"
  defines "units \<equiv> chunk_count_for total_len"
  shows "\<exists>sc mem'. write_bank geo bu units total_len bytes (of_nat bank) (scratch, mem) = (sc, mem')
    \<and> length sc = length scratch
    \<and> (\<forall>x. \<forall>k < unat (aligned_page geo). unit_byte geo mem' x k =
       (if x mod unat (num_banks geo) = bank \<and> unat bu \<le> x \<and> x < unat bu + unat units
        then page_byte bytes (x - unat bu) k else unit_byte geo mem x k))"
proof -
  define nb where "nb = unat (num_banks geo)"
  define ap where "ap = unat (aligned_page geo)"
  define fw where "fw = first_unit_in_bank geo bu (of_nat bank)"
  have fw: "unat fw = (bank + nb - unat bu mod nb) mod nb"
    using fits_first [OF fits, of "of_nat bank"] b by (simp add: fw_def nb_def)
  note B = bank_of_unit [OF b [folded nb_def], of "unat bu", folded fw]
  have ub: "unat (of_nat bank :: u32) = bank" using b by simp
  show ?thesis
  proof (cases "units \<le> fw")
    case True
    have "\<not> (x mod nb = bank \<and> unat bu \<le> x \<and> x < unat bu + unat units)" for x
    proof
      assume a: "x mod nb = bank \<and> unat bu \<le> x \<and> x < unat bu + unat units"
      then have "(x - unat bu) mod nb = unat fw" using B(3) [of "x - unat bu"] by simp
      moreover have "(x - unat bu) mod nb \<le> x - unat bu" by (rule mod_less_eq_dividend)
      moreover have "unat units \<le> unat fw" using True by (simp add: word_le_nat_alt)
      ultimately show False using a by linarith
    qed
    then show ?thesis using True by (simp add: write_bank_def fw_def [symmetric] nb_def) (auto simp: Let_def)
  next
    case False
    then have lt: "unat fw < unat units" by (simp add: word_le_nat_alt)
    define N where "N = 1 + (unat units - 1 - unat fw) div nb"
    note E = bank_extent [OF fits [folded units_def] lt, folded nb_def ap_def, folded N_def]
    obtain sc where sc: "gather_pages (unat units) geo units total_len bytes fw 0 scratch = (of_nat N, sc)"
      "length sc = length scratch" "pages_hold ap (unat fw) nb bytes N sc"
      using gather_bank [OF fits bytes lt [unfolded units_def] room]
      unfolding N_def nb_def ap_def units_def by blast
    define addr where "addr = value_base geo + ((bu + fw) div num_banks geo) * aligned_page geo"
    have "unat (bu + fw) = unat bu + unat fw"
      using fits_unit [OF fits lt [unfolded units_def]] by simp
    then have addr: "unat addr = unat (value_base geo) + (unat bu + unat fw) div nb * ap"
      using fits_addr [OF fits, of "bu + fw"] lt by (simp add: addr_def nb_def ap_def units_def)
    have le: "N * ap \<le> length sc" using E(4) room sc(2) unfolding nb_def ap_def units_def by linarith
    have "write_bank geo bu units total_len bytes (of_nat bank) (scratch, mem) =
        (sc, write_dram (of_nat bank) addr (take (N * ap) sc) mem)"
      using False sc(1) E(5)
      by (simp add: write_bank_def Let_def fw_def [symmetric] addr_def [symmetric] ap_def)
    moreover have "unit_byte geo (write_dram (of_nat bank) addr (take (N * ap) sc) mem) x k =
       (if x mod nb = bank \<and> unat bu \<le> x \<and> x < unat bu + unat units
        then page_byte bytes (x - unat bu) k else unit_byte geo mem x k)" if "k < ap" for x k
      by (rule write_dram_unit [OF B(1,2,3) E(1) that addr _ _ ub le sc(3)]) (simp_all add: nb_def ap_def)
    ultimately show ?thesis using sc(2) unfolding nb_def ap_def by blast
  qed
qed


lemma write_banks:
  assumes fits: "heap_fits geo bu (chunk_count_for total_len)" and bytes: "length bytes = unat total_len"
    and bs: "\<forall>b \<in> set bs. b < unat (num_banks geo)"
    and room: "(unat (chunk_count_for total_len) + unat (num_banks geo) - 1) div unat (num_banks geo)
        * unat (aligned_page geo) \<le> length scratch"
  shows "\<forall>x. \<forall>k < unat (aligned_page geo).
    unit_byte geo (snd (fold (write_bank geo bu (chunk_count_for total_len) total_len bytes)
      (map of_nat bs) (scratch, mem))) x k =
    (if x mod unat (num_banks geo) \<in> set bs \<and> unat bu \<le> x \<and> x < unat bu + unat (chunk_count_for total_len)
     then page_byte bytes (x - unat bu) k else unit_byte geo mem x k)"
  using bs room
proof (induction bs arbitrary: scratch mem)
  case (Cons b bs)
  have b: "b < unat (num_banks geo)" using Cons.prems(1) by simp
  obtain sc mem' where S: "write_bank geo bu (chunk_count_for total_len) total_len bytes (of_nat b) (scratch, mem) = (sc, mem')"
    "length sc = length scratch"
    "\<forall>x. \<forall>k < unat (aligned_page geo). unit_byte geo mem' x k =
       (if x mod unat (num_banks geo) = b \<and> unat bu \<le> x \<and> x < unat bu + unat (chunk_count_for total_len)
        then page_byte bytes (x - unat bu) k else unit_byte geo mem x k)"
    using write_bank_spec [OF fits bytes b Cons.prems(2)] by blast
  show ?case using Cons.IH [of sc mem'] Cons.prems S by auto
qed simp

lemma write_value_unit:
  assumes fits: "heap_fits geo (off div kMaxChunkValueBytes) (chunk_count_for total_len)"
    and bytes: "length bytes = unat total_len" and k: "k < unat (aligned_page geo)"
  shows "unit_byte geo (write_value_units geo off bytes total_len mem) x k =
    (if unat off div 4288 \<le> x \<and> x < unat off div 4288 + unat (chunk_count_for total_len)
     then page_byte bytes (x - unat off div 4288) k else unit_byte geo mem x k)"
proof -
  let ?nb = "unat (num_banks geo)" and ?units = "chunk_count_for total_len"
  have nb: "0 < ?nb" "?nb < 2147483648" using fits by (auto simp: heap_fits_def word_less_nat_alt)
  have s: "unat (?units + num_banks geo) = unat ?units + ?nb"
    using chunk_count_for_bound [of total_len] nb by (intro unat_plus_fits) linarith
  then have "?units + num_banks geo \<noteq> 0" using nb by (metis add_is_0 neq0_conv unat_0)
  then have m: "unat ((?units + num_banks geo - 1) div num_banks geo) = (unat ?units + ?nb - 1) div ?nb"
    by (simp add: unat_div unat_minus_one s)
  have bu: "unat (off div kMaxChunkValueBytes) = unat off div 4288" by (simp add: unat_div)
  have "x mod ?nb < ?nb" using nb by simp
  then show ?thesis
    using write_banks [OF fits bytes, of "[0 ..< ?nb]"] k m bu
    by (simp add: write_value_units_def Let_def upto_u32_def)
qed

section \<open>Properties\<close>

lemma write_read:
  assumes "heap_fits geo (off div kMaxChunkValueBytes) (chunk_count_for len)"
    and "device_found geo" and "value_buffer_found geo"
    and "length bytes = unat len" and "length dst = unat (chunk_count_for len) * 4288"
    and "steady (write_value_units geo off bytes len mem) rd"
  shows "\<exists>p. read_value_units_into geo rd dst off len =
            Inr (True, bytes @ replicate (unat (chunk_count_for len) * 4288 - unat len) 0, p)"
proof -
  let ?mem = "write_value_units geo off bytes len mem"
  define n where "n = unat (chunk_count_for len)"
  have ap: "4288 \<le> unat (aligned_page geo)" using assms(1) by (simp add: heap_fits_def)
  note W = write_value_unit [OF assms(1,4), folded n_def]
  have le: "unat len \<le> n * 4288" using chunk_count_for_covers [of len] by (simp add: n_def)
  have "value_image geo ?mem (unat off div 4288) n = bytes @ replicate (n * 4288 - unat len) 0"
  proof (rule units_eqI)
    fix w k assume w: "w < n" "k < (4288 :: nat)"
    have "w * 4288 + k < n * 4288" by (rule unit_below [OF w(2,1)])
    then show "value_image geo ?mem (unat off div 4288) n ! (w * 4288 + k) =
        (bytes @ replicate (n * 4288 - unat len) 0) ! (w * 4288 + k)"
      using w W [of k] ap assms(4) by (simp add: page_byte_def nth_append)
  qed (use le assms(4) in simp_all)
  then show ?thesis
    using read_steady [OF assms(6,2,3,1,5)] unfolding n_def by auto
qed

text \<open>
  C33: what is written is what is read. After the bank-coalesced write of a value, a read of the same
  extent from the unchanging memory settles at once and returns the value's bytes followed by
  zeros up to whole units; every unit of the heap outside the extent keeps all its bytes.
\<close>

theorem write_value_then_read:
  assumes "heap_fits geo (off div kMaxChunkValueBytes) (chunk_count_for len)"
    and "device_found geo" and "value_buffer_found geo"
    and "length bytes = unat len" and "length dst = unat (chunk_count_for len) * 4288"
    and "steady (write_value_units geo off bytes len mem) rd"
  shows "(\<exists>p. read_value_units_into geo rd dst off len =
            Inr (True, bytes @ replicate (unat (chunk_count_for len) * 4288 - unat len) 0, p))
    \<and> (\<forall>x k. k < unat (aligned_page geo)
         \<and> (x < unat off div 4288 \<or> unat off div 4288 + unat (chunk_count_for len) \<le> x) \<longrightarrow>
         unit_byte geo (write_value_units geo off bytes len mem) x k = unit_byte geo mem x k)"
  using write_read [OF assms] write_value_unit [OF assms(1,4), where mem = mem] by auto

definition demo_value :: "byte list" where
  "demo_value = map of_nat [0 ..< 10000]"

definition demo_written :: dram where
  "demo_written = write_value_units demo_geometry 8576 demo_value 10000 (\<lambda>_ _. 0)"

theorem write_value_then_read_witness:
  "\<exists>p. read_value_units_into demo_geometry
      (\<lambda>i bank addr n. map (\<lambda>k. demo_written (unat bank) (unat addr + k)) [0 ..< n])
      (replicate 12864 0) 8576 10000 = Inr (True, demo_value @ replicate 2864 0, p)"
proof -
  let ?rd = "\<lambda>i bank addr n. map (\<lambda>k. demo_written (unat bank) (unat addr + k)) [0 ..< n]"
  have st: "steady (write_value_units demo_geometry 8576 demo_value 10000 (\<lambda>_ _. 0)) ?rd"
    by (simp add: steady_def demo_written_def)
  have len: "length demo_value = unat (10000 :: u32)"
    "length (replicate 12864 (0 :: byte)) = unat (chunk_count_for 10000) * 4288"
    by (simp_all add: demo_value_def demo_chunks)
  have e: "unat (chunk_count_for 10000) * 4288 - unat (10000 :: u32) = 2864" by (simp add: demo_chunks)
  have dev: "device_found demo_geometry" "value_buffer_found demo_geometry"
    by (simp_all add: demo_geometry_def)
  show ?thesis
    using write_value_then_read [THEN conjunct1, OF demo_fits dev len st] unfolding e .
qed

end
