(* ===== verification/Host_Store.thy ===== *)
theory Host_Store
  imports Pool_Meta Value_Write
begin

text \<open>
  The host backing store: \<^verbatim>\<open>host_values_\<close>, the map from directory slots to the authoritative bytes
  of their values, with each value either in an extent of the pool or in a vector of its own.
  \<^verbatim>\<open>drop_host_value\<close> is in \<^verbatim>\<open>server_runtime/server_storage.cpp\<close>, \<^verbatim>\<open>pool_stats\<close> in
  \<^verbatim>\<open>server_host_api.cpp\<close>, the close-time accounting in \<^verbatim>\<open>server.cpp\<close>, and the others in
  \<^verbatim>\<open>server_runtime/server_tiering.cpp\<close>.

  Memory the device can reach is kept as bytes: the pool, the staging window, the value heap in
  device DRAM (\<open>heap_dram\<close>, as the host writes it) and the ordered list of what the host writes
  where the device looks (\<open>events\<close>). What the device answers to reads is an argument. Profile counters and
  clocks are left out; the member functions run under \<^verbatim>\<open>host_values_mutex_\<close>, so each of their
  critical sections is one step.
\<close>

section \<open>The state\<close>

record host_value =
  hv_heap :: "byte list"
  hv_len :: u32
  hv_pool_unit :: u32
  hv_pool_units :: u32
  hv_generation :: u32

text \<open>
  What the host does to memory that the device reads, in program order: writes to the server core's
  L1 and copies into the staging window.
\<close>

datatype event = L1_Write u32 "byte list" | Stage_Write nat "byte list"

record host_state = meta_state +
  host_values :: "(u32 \<times> host_value) list"
  pool_mem :: "nat \<Rightarrow> byte"
  pool_read_off :: u32
  stage_mem :: "nat \<Rightarrow> byte"
  stage_bytes :: u32
  stage_noc_ok :: bool
  heap_dram :: dram
  events :: "event list"

definition host_value_bytes :: "'z host_state_scheme \<Rightarrow> host_value \<Rightarrow> nat \<Rightarrow> byte list" where
  "host_value_bytes s hv n =
     (if 0 < hv_pool_units hv
      then mem_read (pool_mem s) (unat (hv_pool_unit hv) * unat kMaxChunkValueBytes) n
      else take n (hv_heap hv))"

definition set_host_value :: "u32 \<Rightarrow> host_value \<Rightarrow> ('z host_state_scheme, unit) io" where
  "set_host_value slot hv = modify (host_values_update (AList.update slot hv))"

definition write_l1 :: "u32 \<Rightarrow> byte list \<Rightarrow> ('z host_state_scheme, unit) io" where
  "write_l1 addr bytes = modify (events_update (\<lambda>es. es @ [L1_Write addr bytes]))"

definition copy_to_stage :: "nat \<Rightarrow> byte list \<Rightarrow> ('z host_state_scheme, unit) io" where
  "copy_to_stage off bytes =
     seqE (modify (stage_mem_update (mem_write off bytes)))
          (modify (events_update (\<lambda>es. es @ [Stage_Write off bytes])))"

section \<open>Dropping and staging values\<close>

definition drop_host_value :: "u32 \<Rightarrow> ('z host_state_scheme, unit) io" where
  "drop_host_value slot =
     bindE (gets (\<lambda>s. map_of (host_values s) slot)) (\<lambda>it. case it of
       None \<Rightarrow> ret ()
     | Some hv \<Rightarrow>
         seqE (invalidate_pool_meta slot)
        (seqE (modify (host_values_update (AList.delete slot)))
              (whenE (hv_pool_units hv \<noteq> 0) (pool_release (hv_pool_unit hv) (hv_pool_units hv)))))"

definition stage_value_device_to_host ::
  "geometry \<Rightarrow> dram_reader \<Rightarrow> u32 \<Rightarrow> u32 \<Rightarrow> u32 \<Rightarrow> ('z host_state_scheme, unit) io" where
  "stage_value_device_to_host geo rd slot value_byte_off total_len =
     (let units = chunk_count_for total_len;
          whole = unat units * unat kMaxChunkValueBytes in
      seqE (drop_host_value slot)
     (bindE (pool_alloc units) (\<lambda>pool_unit.
      bindE (case pool_unit of
          Some u \<Rightarrow>
            bindE (gets (\<lambda>s. mem_read (pool_mem s) (unat u * unat kMaxChunkValueBytes) whole)) (\<lambda>dst.
            bindE (lift_sum (read_value_units_into geo rd dst value_byte_off total_len)) (\<lambda>(_, image, _).
            seqE (modify (pool_mem_update (mem_write (unat u * unat kMaxChunkValueBytes) image)))
                 (ret [])))
        | None \<Rightarrow>
            bindE (lift_sum (read_value_units_into geo rd (replicate whole 0) value_byte_off total_len))
              (\<lambda>(_, image, _). ret (take (unat total_len) image))) (\<lambda>bytes.
      set_host_value slot
        \<lparr>hv_heap = bytes, hv_len = total_len,
         hv_pool_unit = (case pool_unit of Some u \<Rightarrow> u | None \<Rightarrow> 0),
         hv_pool_units = (case pool_unit of Some _ \<Rightarrow> units | None \<Rightarrow> 0),
         hv_generation = 0\<rparr>))))"

record push_destination =
  pd_pool_unit :: "u32 option"
  pd_read_off :: u32
  pd_generation :: u32

definition reserve_device_push_destination ::
  "u32 \<Rightarrow> u32 \<Rightarrow> ('z host_state_scheme, push_destination) io" where
  "reserve_device_push_destination slot total_len =
     (let units = chunk_count_for total_len in
      seqE (drop_host_value slot)
     (bindE (pool_alloc units) (\<lambda>pool_unit. case pool_unit of
        None \<Rightarrow> ret \<lparr>pd_pool_unit = None, pd_read_off = 0, pd_generation = 0\<rparr>
      | Some u \<Rightarrow>
          bindE (gets (\<lambda>s. pool_read_off s + u * kMaxChunkValueBytes)) (\<lambda>read_off.
          bindE (publish_pool_meta slot read_off total_len) (\<lambda>generation.
          ret \<lparr>pd_pool_unit = Some u, pd_read_off = read_off, pd_generation = generation\<rparr>)))))"

definition publish_device_pushed_value ::
  "u32 \<Rightarrow> u32 \<Rightarrow> push_destination \<Rightarrow> ('z host_state_scheme, unit) io" where
  "publish_device_pushed_value slot total_len destination =
     (let units = chunk_count_for total_len in
      bindE (gets (\<lambda>s. if pd_pool_unit destination = None
                       then mem_read (stage_mem s) 0 (unat total_len) else [])) (\<lambda>bytes.
      set_host_value slot
        \<lparr>hv_heap = bytes, hv_len = total_len,
         hv_pool_unit = (case pd_pool_unit destination of Some u \<Rightarrow> u | None \<Rightarrow> 0),
         hv_pool_units = (case pd_pool_unit destination of Some _ \<Rightarrow> units | None \<Rightarrow> 0),
         hv_generation = pd_generation destination\<rparr>))"

section \<open>Serving values to the device\<close>

definition promote_read_off :: "u32 \<Rightarrow> ('z host_state_scheme, u32) io" where
  "promote_read_off slot =
     gets (\<lambda>s. case map_of (host_values s) slot of
         None \<Rightarrow> 0
       | Some hv \<Rightarrow> if hv_pool_units hv = 0 then 0
                    else pool_read_off s + hv_pool_unit hv * kMaxChunkValueBytes)"

definition find_host_value :: "string \<Rightarrow> u32 \<Rightarrow> ('z host_state_scheme, host_value) io" where
  "find_host_value what slot =
     bindE (gets (\<lambda>s. map_of (host_values s) slot)) (\<lambda>it. case it of
       None \<Rightarrow> throw (Fatal (what @ '': slot not in host_values_''))
     | Some hv \<Rightarrow> ret hv)"

definition stage_value_host_to_device ::
  "geometry \<Rightarrow> u32 \<Rightarrow> u32 \<Rightarrow> u32 \<Rightarrow> u32 \<Rightarrow> ('z host_state_scheme, unit) io" where
  "stage_value_host_to_device geo slot value_byte_off total_len stage_read_off =
     bindE (gets stage_noc_ok) (\<lambda>noc_ok.
     if noc_ok then
       if stage_read_off \<noteq> 0 then ret ()
       else bindE (find_host_value ''stage_value_host_to_device'' slot) (\<lambda>hv.
            seqE (check (hv_len hv = total_len)
                   (Fatal ''stage_value_host_to_device: host_values_ size differs from total_len''))
           (bindE (gets stage_bytes) (\<lambda>room.
            seqE (check (total_len \<le> room)
                   (Fatal ''stage_value_host_to_device: total_len exceeds staging capacity''))
          (bindE (gets (\<lambda>s. host_value_bytes s hv (unat total_len))) (copy_to_stage 0)))))
     else
       seqE (check (device_found geo)
              (Fatal ''stage_value_host_to_device: server_submesh has no chip at (0,0)''))
      (seqE (check (value_buffer_found geo)
              (Fatal ''stage_value_host_to_device: value MeshBuffer has no device buffer at (0,0)''))
      (bindE (find_host_value ''stage_value_host_to_device'' slot) (\<lambda>hv.
       bindE (gets (\<lambda>s. host_value_bytes s hv (unat (hv_len hv)))) (\<lambda>bytes.
       seqE (check (length bytes = unat total_len)
              (Fatal ''stage_value_host_to_device: host_values_ size differs from total_len''))
            (modify (heap_dram_update (write_value_units geo value_byte_off bytes total_len))))))))"

definition kStageProgressSize :: nat where
  "kStageProgressSize = 16"

definition publish_stage_progress :: "u32 \<Rightarrow> u32 \<Rightarrow> ('z host_state_scheme, unit) io" where
  "publish_stage_progress stage_progress_addr staged_chunks =
     write_l1 stage_progress_addr (le32 staged_chunks @ replicate (kStageProgressSize - 4) 0)"

definition kStageBlockChunks :: u32 where
  "kStageBlockChunks = 64"

text \<open>
  The block loop of the streaming path. Its fuel is the number of chunks, which bounds the number
  of blocks.
\<close>

fun stream_blocks :: "nat \<Rightarrow> host_value \<Rightarrow> u32 \<Rightarrow> u32 \<Rightarrow> u32 \<Rightarrow> u32 \<Rightarrow> ('z host_state_scheme, unit) io" where
  "stream_blocks 0 hv total_len num_chunks stage_progress_addr base = ret ()"
| "stream_blocks (Suc fuel) hv total_len num_chunks stage_progress_addr base =
     (if base < num_chunks then
        (let this_block = min kStageBlockChunks (num_chunks - base);
             off = base * kMaxChunkValueBytes;
             n = min (this_block * kMaxChunkValueBytes) (total_len - off)
         in seqE (bindE (gets (\<lambda>s. host_value_bytes s hv (unat total_len))) (\<lambda>src.
                    copy_to_stage (unat off) (take (unat n) (drop (unat off) src))))
           (seqE (publish_stage_progress stage_progress_addr (base + this_block))
                 (stream_blocks fuel hv total_len num_chunks stage_progress_addr (base + kStageBlockChunks))))
      else ret ())"

definition stage_host_value_for_stream ::
  "u32 \<Rightarrow> u32 \<Rightarrow> u32 \<Rightarrow> u32 \<Rightarrow> ('z host_state_scheme, unit) io" where
  "stage_host_value_for_stream slot total_len stage_progress_addr stage_read_off =
     (let num_chunks = chunk_count_for total_len in
      bindE (find_host_value ''stage_host_value_for_stream'' slot) (\<lambda>hv.
      seqE (check (hv_len hv = total_len)
             (Fatal ''stage_host_value_for_stream: host_values_ size differs from total_len''))
     (seqE (check ((stage_read_off \<noteq> 0) = (0 < hv_pool_units hv))
             (Fatal ''stage_host_value_for_stream: read offset disagrees with pool residency''))
     (if stage_read_off \<noteq> 0 then publish_stage_progress stage_progress_addr num_chunks
      else bindE (gets stage_bytes) (\<lambda>room.
           seqE (check (total_len \<le> room)
                  (Fatal ''stage_host_value_for_stream: total_len exceeds staging capacity''))
                (stream_blocks (unat num_chunks) hv total_len num_chunks stage_progress_addr 0))))))"

section \<open>Statistics and the accounting at close\<close>

definition pool_stats :: "'z host_state_scheme \<Rightarrow> u32 \<times> u32" where
  "pool_stats s =
     (fold (\<lambda>e free_units. free_units + snd e) (pool_free s) 0,
      fold (\<lambda>e resident. resident + (if 0 < hv_pool_units (snd e) then 1 else 0)) (host_values s) 0)"

definition accounted_units :: "'z host_state_scheme \<Rightarrow> u32" where
  "accounted_units s =
     fold (\<lambda>e accounted. accounted + hv_pool_units (snd e)) (host_values s)
       (fold (\<lambda>e accounted. accounted + snd e) (pool_free s) 0)"


section \<open>What the store holds, and its invariant\<close>

text \<open>The abstract store: the bytes of each slot.\<close>

definition contents :: "'z host_state_scheme \<Rightarrow> u32 \<Rightarrow> byte list option" where
  "contents s slot =
     map_option (\<lambda>hv. host_value_bytes s hv (unat (hv_len hv))) (map_of (host_values s) slot)"

text \<open>The pool extent of a value, and of all values.\<close>

definition extent_of :: "host_value \<Rightarrow> (u32 \<times> u32) multiset" where
  "extent_of hv = (if hv_pool_units hv = 0 then {#} else {#(hv_pool_unit hv, hv_pool_units hv)#})"

definition extents :: "(u32 \<times> host_value) list \<Rightarrow> (u32 \<times> u32) multiset" where
  "extents vs = (\<Sum>e \<leftarrow> vs. extent_of (snd e))"

definition hv_ok :: "host_value \<Rightarrow> bool" where
  "hv_ok hv = (if hv_pool_units hv = 0 then length (hv_heap hv) = unat (hv_len hv)
     else hv_pool_units hv = chunk_count_for (hv_len hv) \<and> hv_heap hv = [])"

text \<open>
  Every unit of the pool is free, in the extent of exactly one value, or in one of the extents
  \<open>extra\<close> that are in use elsewhere.
\<close>

definition host_ok :: "(u32 \<times> u32) multiset \<Rightarrow> 'z host_state_scheme \<Rightarrow> bool" where
  "host_ok extra s = (distinct (map fst (host_values s))
     \<and> (\<forall>e \<in> set (host_values s). hv_ok (snd e) \<and> (meta_mapped s \<longrightarrow> fst e < max_keys s))
     \<and> pool.partitions (extents (host_values s) + extra) s)"

lemma extents_simps [simp]:
  "extents [] = {#}" "extents (e # vs) = extent_of (snd e) + extents vs"
  "extents (vs @ ws) = extents vs + extents ws"
  by (simp_all add: extents_def)

lemma update_new: "k \<notin> fst ` set vs \<Longrightarrow> AList.update k v vs = vs @ [(k, v)]"
  by (induction vs) auto

lemma delete_notin: "k \<notin> fst ` set vs \<Longrightarrow> AList.delete k vs = vs"
  by (force simp: AList.delete_eq filter_id_conv)

lemma extents_delete:
  "distinct (map fst vs) \<Longrightarrow> map_of vs k = Some v \<Longrightarrow>
     extents vs = extent_of v + extents (AList.delete k vs)"
proof (induction vs)
  case (Cons e vs)
  show ?case
  proof (cases "fst e = k")
    case True
    then have "k \<notin> fst ` set vs" using Cons.prems(1) by auto
    then show ?thesis using True Cons.prems(2) by (cases e) (simp add: delete_notin)
  next
    case False
    then show ?thesis using Cons by (cases e) (simp add: add.left_commute)
  qed
qed simp

lemma delete_subset: "e \<in> set (AList.delete k vs) \<Longrightarrow> e \<in> set vs \<and> fst e \<noteq> k"
  by (auto simp: AList.delete_eq)

lemma partitions_updates [simp]:
  "pool.partitions own (pool_meta_update g1 s) = pool.partitions own s"
  "pool.partitions own (pool_meta_generations_update g2 s) = pool.partitions own s"
  "pool.partitions own (host_values_update g3 s) = pool.partitions own s"
  "pool.partitions own (pool_mem_update g4 s) = pool.partitions own s"
  "pool.partitions own (stage_mem_update g5 s) = pool.partitions own s"
  "pool.partitions own (heap_dram_update g6 s) = pool.partitions own s"
  "pool.partitions own (events_update g7 s) = pool.partitions own s"
  by (simp_all add: pool.partitions_def pool_ok_def pool_free_set_def)

lemma host_value_bytes_updates [simp]:
  "host_value_bytes (pool_free_update g8 s) = host_value_bytes s"
  "host_value_bytes (pool_meta_update g9 s) = host_value_bytes s"
  "host_value_bytes (pool_meta_generations_update g10 s) = host_value_bytes s"
  "host_value_bytes (host_values_update g11 s) = host_value_bytes s"
  "host_value_bytes (stage_mem_update g12 s) = host_value_bytes s"
  "host_value_bytes (heap_dram_update g13 s) = host_value_bytes s"
  "host_value_bytes (events_update g14 s) = host_value_bytes s"
  by (rule ext, rule ext, simp add: host_value_bytes_def)+

lemma contents_updates [simp]:
  "contents (pool_free_update g15 s) = contents s"
  "contents (pool_meta_update g16 s) = contents s"
  "contents (pool_meta_generations_update g17 s) = contents s"
  "contents (stage_mem_update g18 s) = contents s"
  "contents (heap_dram_update g19 s) = contents s"
  "contents (events_update g20 s) = contents s"
  by (rule ext, simp add: contents_def)+

lemma pool_rest_eq: "t\<lparr>pool_free := []\<rparr> = s\<lparr>pool_free := []\<rparr> \<Longrightarrow> \<exists>f. t = s\<lparr>pool_free := f\<rparr>"
  by (rule exI [of _ "pool_free t"]) (cases t; cases s; simp)

lemma release_owned:
  assumes "pool.partitions (add_mset (u, n) own) s"
  shows "\<exists>f. pool_release u n s = (Inr (), s\<lparr>pool_free := f\<rparr>) \<and> pool.partitions own (s\<lparr>pool_free := f\<rparr>)"
  using pool.partitions_release [OF assms] pool_rest_eq by blast

lemma alloc_owned:
  assumes "pool.partitions own s"
  shows "pool_alloc n s = (Inr None, s) \<or> (\<exists>u f. pool_alloc n s = (Inr (Some u), s\<lparr>pool_free := f\<rparr>)
    \<and> n \<noteq> 0 \<and> pool.partitions (add_mset (u, n) own) (s\<lparr>pool_free := f\<rparr>))"
proof -
  note ok = pool.partitions_inv [OF assms]
  obtain r t where rt: "pool_alloc n s = (Inr r, t)" using pool.alloc_returns by blast
  show ?thesis
  proof (cases r)
    case None
    then show ?thesis using rt pool.alloc_fails [OF ok] by blast
  next
    case (Some u)
    then show ?thesis
      using rt pool.partitions_alloc [OF assms] pool_rest_eq pool.alloc_takes [OF ok] by metis
  qed
qed

section \<open>Dropping a value\<close>

text \<open>
  Dropping never throws on a well-formed store: it takes the slot's value out, gives its extent
  back, and leaves the bytes of every other slot alone.
\<close>

lemma drop_host_value_ok:
  assumes ok: "host_ok extra s"
  obtains f m where "drop_host_value slot s = (Inr (), s\<lparr>pool_free := f, pool_meta := m,
            host_values := AList.delete slot (host_values s)\<rparr>)"
    "host_ok extra (s\<lparr>pool_free := f, pool_meta := m, host_values := AList.delete slot (host_values s)\<rparr>)"
proof (cases "map_of (host_values s) slot")
  case None
  then have d: "AList.delete slot (host_values s) = host_values s"
    by (simp add: map_of_eq_None_iff delete_notin)
  have "drop_host_value slot s = (Inr (), s)" using None by (simp add: drop_host_value_def io_defs)
  then show ?thesis using that [of "pool_meta s" "pool_free s"] ok d by simp
next
  case (Some hv)
  define m where "m = (if meta_mapped s then (pool_meta s)(slot := (\<lambda>_. 0)) else pool_meta s)"
  define s2 where "s2 = s\<lparr>pool_meta := m, host_values := AList.delete slot (host_values s)\<rparr>"
  have inv: "invalidate_pool_meta slot s = (Inr (), s\<lparr>pool_meta := m\<rparr>)"
    using ok Some by (auto simp: host_ok_def invalidate_pool_meta_run m_def dest!: map_of_SomeD)
  have "pool.partitions (extent_of hv + (extents (AList.delete slot (host_values s)) + extra)) s2"
    using ok Some extents_delete [of "host_values s" slot hv]
    by (auto simp: host_ok_def add.assoc s2_def dest!: map_of_SomeD)
  then obtain f where f: "whenE (hv_pool_units hv \<noteq> 0) (pool_release (hv_pool_unit hv) (hv_pool_units hv)) s2
      = (Inr (), s2\<lparr>pool_free := f\<rparr>)"
    "pool.partitions (extents (AList.delete slot (host_values s)) + extra) (s2\<lparr>pool_free := f\<rparr>)"
  proof (cases "hv_pool_units hv = 0")
    case True
    assume "pool.partitions (extent_of hv + (extents (AList.delete slot (host_values s)) + extra)) s2"
    then show ?thesis using that [of "pool_free s2"] True by (simp add: whenE_def ret_def extent_of_def)
  next
    case False
    assume "pool.partitions (extent_of hv + (extents (AList.delete slot (host_values s)) + extra)) s2"
    then show ?thesis
      using that release_owned [of "hv_pool_unit hv" "hv_pool_units hv" _ s2] False
      by (auto simp: whenE_def extent_of_def)
  qed
  have e: "s2\<lparr>pool_free := f\<rparr> =
      s\<lparr>pool_free := f, pool_meta := m, host_values := AList.delete slot (host_values s)\<rparr>"
    by (simp add: s2_def)
  have up: "host_values_update (AList.delete slot) (s\<lparr>pool_meta := m\<rparr>) = s2"
    by (cases s) (simp add: s2_def)
  have "drop_host_value slot s = (Inr (), s2\<lparr>pool_free := f\<rparr>)"
    using Some inv f(1) up by (simp add: drop_host_value_def bindE_def seqE_def gets_def modify_def)
  moreover have "host_ok extra (s2\<lparr>pool_free := f\<rparr>)"
    using ok f(2) by (auto simp: host_ok_def s2_def distinct_delete dest!: delete_subset)
  ultimately show ?thesis using that unfolding e by blast
qed

lemma contents_drop:
  "contents (s\<lparr>pool_free := f, pool_meta := m, host_values := AList.delete slot (host_values s)\<rparr>)
     = (contents s)(slot := None)"
  by (rule ext) (simp add: contents_def delete_conv')


text \<open>All of the state that dropping a value and allocating an extent leave alone.\<close>

definition still where
  "still s = (pool_mapped s, pool_units_total s, meta_mapped s, max_keys s, pool_read_off s,
     stage_bytes s, stage_noc_ok s, host_state.more s)"

definition outside where
  "outside s = (still s, pool_mem s, stage_mem s, heap_dram s, events s)"

lemma drop_summary:
  assumes "host_ok extra s"
  obtains t where "drop_host_value slot s = (Inr (), t)" "host_ok extra t"
    "contents t = (contents s)(slot := None)" "slot \<notin> fst ` set (host_values t)" "outside t = outside s"
    "host_values t = AList.delete slot (host_values s)"
proof (rule drop_host_value_ok [OF assms, of slot])
  fix f m
  let ?t = "s\<lparr>pool_free := f, pool_meta := m, host_values := AList.delete slot (host_values s)\<rparr>"
  assume "drop_host_value slot s = (Inr (), ?t)" and "host_ok extra ?t"
  moreover have "slot \<notin> fst ` set (host_values ?t)" by (auto simp: AList.delete_eq)
  moreover have "outside ?t = outside s" by (simp add: outside_def still_def)
  ultimately show ?thesis using that [of ?t] contents_drop [where s = s and f = f and m = m and slot = slot] by simp
qed

section \<open>Storing a value\<close>

lemma host_ok_put:
  assumes "host_ok (extent_of hv + extra) s" and "slot \<notin> fst ` set (host_values s)" and "hv_ok hv"
    and "meta_mapped s \<longrightarrow> slot < max_keys s"
  shows "host_ok extra (host_values_update (AList.update slot hv) s)"
    "contents (host_values_update (AList.update slot hv) s) =
      (contents s)(slot \<mapsto> host_value_bytes s hv (unat (hv_len hv)))"
proof -
  show "host_ok extra (host_values_update (AList.update slot hv) s)"
    using assms by (auto simp: host_ok_def update_new add.assoc add.left_commute add.commute [of extra])
  show "contents (host_values_update (AList.update slot hv) s) =
      (contents s)(slot \<mapsto> host_value_bytes s hv (unat (hv_len hv)))"
    by (rule ext) (simp add: contents_def update_conv')
qed

lemma extent_mem:
  "map_of vs slot = Some hv \<Longrightarrow> hv_pool_units hv \<noteq> 0 \<Longrightarrow>
     (hv_pool_unit hv, hv_pool_units hv) \<in># extents vs"
  by (induction vs) (auto simp: extent_of_def split: if_splits)

text \<open>Bytes written into an extent that no value owns do not touch any value.\<close>

lemma contents_pool_write:
  assumes ok: "host_ok (add_mset (u, n) extra) s" and n: "n \<noteq> 0" and len: "length bs \<le> unat n * 4288"
  shows "contents (pool_mem_update (mem_write (unat u * 4288) bs) s) = contents s"
proof
  fix slot
  show "contents (pool_mem_update (mem_write (unat u * 4288) bs) s) slot = contents s slot"
  proof (cases "map_of (host_values s) slot")
    case None
    then show ?thesis by (simp add: contents_def)
  next
    case (Some hv)
    then have hv: "hv_ok hv" using ok by (force simp: host_ok_def dest: map_of_SomeD)
    have "host_value_bytes (pool_mem_update (mem_write (unat u * 4288) bs) s) hv (unat (hv_len hv)) =
        host_value_bytes s hv (unat (hv_len hv))"
    proof (cases "hv_pool_units hv = 0")
      case True
      then show ?thesis by (simp add: host_value_bytes_def)
    next
      case False
      let ?u = "hv_pool_unit hv" and ?n = "hv_pool_units hv"
      have "(?u, ?n) \<in># extents (host_values s) + extra" using extent_mem [OF Some False] by simp
      moreover have "pool.partitions (add_mset (u, n) (extents (host_values s) + extra)) s"
        using ok by (simp add: host_ok_def)
      ultimately have "run u n \<inter> run ?u ?n = {}" using pool.partitions_disjoint(2) by fastforce
      then have "unat u + unat n \<le> unat ?u \<or> unat ?u + unat ?n \<le> unat u"
        using extent_disjoint_iff [OF n False] by blast
      moreover have "unat (hv_len hv) \<le> unat ?n * 4288"
        using hv False chunk_count_for_covers [of "hv_len hv"] by (simp add: hv_ok_def)
      ultimately have "unat u * 4288 + length bs \<le> unat ?u * 4288
          \<or> unat ?u * 4288 + unat (hv_len hv) \<le> unat u * 4288"
        using len by auto
      then show ?thesis using False by (simp add: host_value_bytes_def mem_read_write_disjoint unat_gt_0)
    qed
    then show ?thesis using Some by (simp add: contents_def)
  qed
qed

lemma host_ok_updates [simp]:
  "host_ok extra (pool_mem_update h1 s) = host_ok extra s"
  "host_ok extra (stage_mem_update h2 s) = host_ok extra s"
  "host_ok extra (events_update h3 s) = host_ok extra s"
  "host_ok extra (heap_dram_update h4 s) = host_ok extra s"
  "host_ok extra (pool_meta_update h5 s) = host_ok extra s"
  "host_ok extra (pool_meta_generations_update h6 s) = host_ok extra s"
  by (simp_all add: host_ok_def)

text \<open>After a drop the slot is free for a new value, and an allocation moves into \<open>extra\<close>.\<close>

lemma alloc_host:
  assumes "host_ok extra s"
  shows "pool_alloc n s = (Inr None, s) \<or> (\<exists>u f. pool_alloc n s = (Inr (Some u), s\<lparr>pool_free := f\<rparr>)
    \<and> n \<noteq> 0 \<and> host_ok (add_mset (u, n) extra) (s\<lparr>pool_free := f\<rparr>))"
  using alloc_owned [of "extents (host_values s) + extra" s n] assms by (auto simp: host_ok_def)

lemma stage_device_to_host_ok:
  fixes s :: "'z host_state_scheme"
  assumes ok: "host_ok extra s" and keys: "meta_mapped s \<longrightarrow> slot < max_keys s"
    and rd: "\<And>dst. length dst = unat (chunk_count_for len) * 4288 \<Longrightarrow>
      \<exists>b img p. read_value_units_into geo rd dst off len = Inr (b, img, p)
        \<and> length img = unat (chunk_count_for len) * 4288 \<and> P img"
  shows "\<exists>t img. stage_value_device_to_host geo rd slot off len s = (Inr (), t) \<and> P img
    \<and> length img = unat (chunk_count_for len) * 4288
    \<and> host_ok extra t \<and> contents t = (contents s)(slot \<mapsto> take (unat len) img)"
proof -
  define units where "units = chunk_count_for len"
  obtain s1 where d: "drop_host_value slot s = (Inr (), s1)" and ok1: "host_ok extra s1"
    and c1: "contents s1 = (contents s)(slot := None)" and fresh: "slot \<notin> fst ` set (host_values s1)"
    and o: "outside s1 = outside s"
    using drop_summary [OF ok] by blast
  have k1: "meta_mapped s1 \<longrightarrow> slot < max_keys s1" and pm: "pool_mem s1 = pool_mem s"
    using keys o by (simp_all add: outside_def still_def)
  have le: "unat len \<le> unat units * 4288" using chunk_count_for_covers [of len] by (simp add: units_def)
  from alloc_host [OF ok1, of units] show ?thesis
  proof (elim disjE exE conjE)
    assume a: "pool_alloc units s1 = (Inr None, s1)"
    obtain b img p where r: "read_value_units_into geo rd (replicate (unat units * 4288) 0) off len = Inr (b, img, p)"
      "length img = unat units * 4288" "P img"
      using rd [of "replicate (unat units * 4288) 0"] by (auto simp: units_def)
    define hv where "hv = \<lparr>hv_heap = take (unat len) img, hv_len = len, hv_pool_unit = 0,
      hv_pool_units = 0, hv_generation = 0\<rparr>"
    have "stage_value_device_to_host geo rd slot off len s =
        (Inr (), host_values_update (AList.update slot hv) s1)"
      using d a r(1) pm
      by (simp add: stage_value_device_to_host_def Let_def units_def [symmetric] set_host_value_def io_defs
          lift_sum_def hv_def)
    moreover have hv: "hv_ok hv" "extent_of hv = {#}"
      using r(2) le by (simp_all add: hv_def hv_ok_def extent_of_def)
    moreover note host_ok_put [of hv extra s1 slot]
    moreover have "host_value_bytes s1 hv (unat len) = take (unat len) img"
      by (simp add: host_value_bytes_def hv_def)
    moreover have "hv_len hv = len" by (simp add: hv_def)
    ultimately show ?thesis using ok1 fresh k1 c1 r by (auto simp: units_def)
  next
    fix u g assume a: "pool_alloc units s1 = (Inr (Some u), s1\<lparr>pool_free := g\<rparr>)" and n: "units \<noteq> 0"
      and ok2: "host_ok (add_mset (u, units) extra) (s1\<lparr>pool_free := g\<rparr>)"
    obtain b img p where r: "read_value_units_into geo rd (mem_read (pool_mem s) (unat u * 4288) (unat units * 4288)) off len
        = Inr (b, img, p)"
      "length img = unat units * 4288" "P img"
      using rd [of "mem_read (pool_mem s) (unat u * 4288) (unat units * 4288)"] by (auto simp: units_def)
    define s2 where "s2 = pool_mem_update (mem_write (unat u * 4288) img) (s1\<lparr>pool_free := g\<rparr>)"
    define hv where "hv = \<lparr>hv_heap = [], hv_len = len, hv_pool_unit = u, hv_pool_units = units,
      hv_generation = 0\<rparr>"
    have "stage_value_device_to_host geo rd slot off len s =
        (Inr (), host_values_update (AList.update slot hv) s2)"
      using d a r(1) pm
      by (simp add: stage_value_device_to_host_def Let_def units_def [symmetric] set_host_value_def io_defs
          lift_sum_def hv_def s2_def)
    moreover have hv: "hv_ok hv" "extent_of hv = {#(u, units)#}"
      using n by (simp_all add: hv_def hv_ok_def extent_of_def units_def)
    moreover have "contents s2 = contents s1"
      using contents_pool_write [OF ok2 n, of img] r(2) by (simp add: s2_def)
    moreover have "host_ok (add_mset (u, units) extra) s2" using ok2 by (simp add: s2_def)
    moreover have "slot \<notin> fst ` set (host_values s2)" "meta_mapped s2 \<longrightarrow> slot < max_keys s2"
      using fresh k1 by (simp_all add: s2_def)
    moreover note host_ok_put [of hv extra s2 slot]
    moreover have "host_value_bytes s2 hv (unat len) = take (unat len) img"
      using n le r(2) by (simp add: host_value_bytes_def hv_def s2_def word_gt_0 mem_read_write_same)
    moreover have "hv_len hv = len" by (simp add: hv_def)
    ultimately show ?thesis using c1 r by (auto simp: units_def)
  qed
qed


section \<open>The device push\<close>

definition in_flight :: "push_destination \<Rightarrow> u32 \<Rightarrow> (u32 \<times> u32) multiset" where
  "in_flight d len = (case pd_pool_unit d of None \<Rightarrow> {#} | Some u \<Rightarrow> {#(u, chunk_count_for len)#})"

text \<open>The destination names the place the device must push to, or the staging window (offset zero).\<close>

definition destination_ok :: "push_destination \<Rightarrow> u32 \<Rightarrow> u32 \<Rightarrow> 'z host_state_scheme \<Rightarrow> bool" where
  "destination_ok d slot len s = (case pd_pool_unit d of
      None \<Rightarrow> pd_read_off d = 0 \<and> pd_generation d = 0
    | Some u \<Rightarrow> chunk_count_for len \<noteq> 0 \<and> pd_read_off d = pool_read_off s + u * kMaxChunkValueBytes
        \<and> pd_generation d \<noteq> 0 \<and> pool_meta s slot = published (pd_read_off d) len (pd_generation d))"

lemma reserve_ok:
  fixes s :: "'z host_state_scheme"
  assumes ok: "host_ok extra s" and keys: "slot < max_keys s" and mapped: "pool_mapped s \<longrightarrow> meta_mapped s"
  shows "\<exists>d t. reserve_device_push_destination slot len s = (Inr d, t)
    \<and> host_ok (in_flight d len + extra) t \<and> destination_ok d slot len t
    \<and> contents t = (contents s)(slot := None) \<and> slot \<notin> fst ` set (host_values t)
    \<and> outside t = outside s"
proof -
  obtain s1 where d: "drop_host_value slot s = (Inr (), s1)" and ok1: "host_ok extra s1"
    and c1: "contents s1 = (contents s)(slot := None)" and fresh: "slot \<notin> fst ` set (host_values s1)"
    and o: "outside s1 = outside s"
    using drop_summary [OF ok] by blast
  from alloc_host [OF ok1, of "chunk_count_for len"] show ?thesis
  proof (elim disjE exE conjE)
    assume a: "pool_alloc (chunk_count_for len) s1 = (Inr None, s1)"
    let ?d = "\<lparr>pd_pool_unit = None, pd_read_off = 0, pd_generation = 0\<rparr>"
    have "reserve_device_push_destination slot len s = (Inr ?d, s1)"
      using d a by (simp add: reserve_device_push_destination_def io_defs Let_def)
    then show ?thesis
      using ok1 c1 fresh o
      by (intro exI [of _ ?d] exI [of _ s1] conjI) (simp_all add: in_flight_def destination_ok_def)
  next
    fix u f assume a: "pool_alloc (chunk_count_for len) s1 = (Inr (Some u), s1\<lparr>pool_free := f\<rparr>)"
      and n: "chunk_count_for len \<noteq> 0"
      and ok2: "host_ok (add_mset (u, chunk_count_for len) extra) (s1\<lparr>pool_free := f\<rparr>)"
    have mm: "meta_mapped s1" "slot < max_keys s1"
    proof -
      have "pool_mapped s1"
        using a by (auto simp: pool_alloc_run split: if_splits)
      moreover have "pool_mapped s1 = pool_mapped s" using o by (simp add: outside_def still_def)
      ultimately show "meta_mapped s1" using mapped o by (simp add: outside_def still_def)
      show "slot < max_keys s1" using keys o by (simp add: outside_def still_def)
    qed
    let ?ro = "pool_read_off s1 + u * kMaxChunkValueBytes"
    define g where "g = next_generation (pool_meta_generations s1 slot)"
    define t where "t = s1\<lparr>pool_free := f, pool_meta := (pool_meta s1)(slot := published ?ro len g),
        pool_meta_generations := (pool_meta_generations s1)(slot := g)\<rparr>"
    let ?d = "\<lparr>pd_pool_unit = Some u, pd_read_off = ?ro, pd_generation = g\<rparr>"
    have "reserve_device_push_destination slot len s = (Inr ?d, t)"
      using d a mm
      by (simp add: reserve_device_push_destination_def bindE_def seqE_def gets_def ret_def Let_def
          publish_pool_meta_run g_def t_def)
    moreover have "host_ok (in_flight ?d len + extra) t" using ok2 by (simp add: in_flight_def t_def)
    moreover have "destination_ok ?d slot len t" using n by (simp add: destination_ok_def t_def g_def)
    moreover have "contents t = contents s1" by (simp add: t_def)
    moreover have "host_values t = host_values s1" "outside t = outside s1"
      by (simp_all add: t_def outside_def still_def)
    ultimately show ?thesis using c1 fresh o by (intro exI [of _ ?d] exI [of _ t] conjI) simp_all
  qed
qed

text \<open>
  Between reservation and publication the device writes the bytes, into the reserved extent or into
  the staging window, and nothing else.
\<close>

definition device_pushes :: "push_destination \<Rightarrow> byte list \<Rightarrow> 'z host_state_scheme \<Rightarrow> 'z host_state_scheme" where
  "device_pushes d bytes s = (case pd_pool_unit d of
      None \<Rightarrow> stage_mem_update (mem_write 0 bytes) s
    | Some u \<Rightarrow> pool_mem_update (mem_write (unat u * 4288) bytes) s)"

lemma publish_ok:
  fixes s :: "'z host_state_scheme"
  assumes ok: "host_ok (in_flight d len + extra) s" and dest: "destination_ok d slot len s"
    and fresh: "slot \<notin> fst ` set (host_values s)" and keys: "slot < max_keys s"
    and bytes: "length bytes = unat len"
  shows "\<exists>t. publish_device_pushed_value slot len d (device_pushes d bytes s) = (Inr (), t)
    \<and> host_ok extra t \<and> contents t = (contents s)(slot \<mapsto> bytes)
    \<and> host_values t = AList.update slot
        \<lparr>hv_heap = (if pd_pool_unit d = None then bytes else []), hv_len = len,
         hv_pool_unit = (case pd_pool_unit d of Some u \<Rightarrow> u | None \<Rightarrow> 0),
         hv_pool_units = (case pd_pool_unit d of Some _ \<Rightarrow> chunk_count_for len | None \<Rightarrow> 0),
         hv_generation = pd_generation d\<rparr> (host_values s)
    \<and> t = device_pushes d bytes s\<lparr>host_values := host_values t\<rparr>"
proof -
  define units where "units = chunk_count_for len"
  define s1 where "s1 = device_pushes d bytes s"
  define hv where "hv = \<lparr>hv_heap = (if pd_pool_unit d = None then bytes else []), hv_len = len,
      hv_pool_unit = (case pd_pool_unit d of Some u \<Rightarrow> u | None \<Rightarrow> 0),
      hv_pool_units = (case pd_pool_unit d of Some _ \<Rightarrow> units | None \<Rightarrow> 0), hv_generation = pd_generation d\<rparr>"
  have le: "unat len \<le> unat units * 4288" using chunk_count_for_covers [of len] by (simp add: units_def)
  have h1: "host_values s1 = host_values s" "max_keys s1 = max_keys s"
    by (simp_all add: s1_def device_pushes_def split: option.split)
  have ok1: "host_ok (in_flight d len + extra) s1"
    using ok by (simp add: s1_def device_pushes_def split: option.split)
  have c1: "contents s1 = contents s"
  proof (cases "pd_pool_unit d")
    case None
    then show ?thesis by (simp add: s1_def device_pushes_def)
  next
    case (Some u)
    then show ?thesis
      using contents_pool_write [of u units extra s bytes] ok dest bytes le
      by (simp add: s1_def device_pushes_def in_flight_def destination_ok_def units_def)
  qed
  have ext: "extent_of hv = in_flight d len" "hv_ok hv"
    using dest bytes
    by (auto simp: hv_def extent_of_def in_flight_def destination_ok_def units_def hv_ok_def split: option.splits)
  have val: "host_value_bytes s1 hv (unat len) = bytes"
    using dest bytes le
    by (auto simp: host_value_bytes_def hv_def s1_def device_pushes_def destination_ok_def units_def
        word_gt_0 mem_read_write_same split: option.splits)
  define t where "t = host_values_update (AList.update slot hv) s1"
  have "mem_read (stage_mem s1) 0 (unat len) = bytes" if "pd_pool_unit d = None"
    using that bytes by (simp add: s1_def device_pushes_def mem_read_write_same)
  then have "publish_device_pushed_value slot len d s1 = (Inr (), t)"
    by (simp add: publish_device_pushed_value_def set_host_value_def io_defs Let_def t_def hv_def units_def
        split: option.split)
  moreover have "host_ok extra t" "contents t = (contents s)(slot \<mapsto> bytes)"
    using host_ok_put [of hv extra s1 slot] ok1 ext val c1 fresh keys h1 by (simp_all add: t_def hv_def)
  moreover have "host_values t = AList.update slot hv (host_values s)" by (simp add: t_def h1)
  moreover have "t = s1\<lparr>host_values := host_values t\<rparr>" by (cases s1) (simp add: t_def)
  ultimately show ?thesis unfolding s1_def hv_def units_def by blast
qed


section \<open>Streaming through the staging window\<close>

definition progress :: "u32 \<Rightarrow> byte list" where
  "progress k = le32 k @ replicate 12 0"

lemma progress_inj [simp]: "progress k = progress j \<longleftrightarrow> k = j"
  by (metis progress_def read_le32_le32)

lemma publish_stage_progress_run:
  "publish_stage_progress addr k s = (Inr (), s\<lparr>events := events s @ [L1_Write addr (progress k)]\<rparr>)"
  by (simp add: publish_stage_progress_def write_l1_def modify_def kStageProgressSize_def progress_def)

text \<open>What the staging window holds after some events.\<close>

fun replay :: "event list \<Rightarrow> (nat \<Rightarrow> byte) \<Rightarrow> nat \<Rightarrow> byte" where
  "replay [] mem = mem"
| "replay (Stage_Write off bs # es) mem = replay es (mem_write off bs mem)"
| "replay (L1_Write addr bs # es) mem = replay es mem"

text \<open>
  Each time the progress word is published with a count \<open>k\<close>, the window already holds the first \<open>k\<close>
  chunks of the value.
\<close>

definition gated :: "byte list \<Rightarrow> u32 \<Rightarrow> (nat \<Rightarrow> byte) \<Rightarrow> event list \<Rightarrow> bool" where
  "gated src addr mem es = (\<forall>pre k post. es = pre @ L1_Write addr (progress k) # post \<longrightarrow>
     (let n = min (unat k * 4288) (length src) in mem_read (replay pre mem) 0 n = take n src))"

lemma gated_Nil [simp]: "gated src addr mem []"
  by (simp add: gated_def)

lemma gated_block:
  assumes "mem_read (mem_write off blk mem) 0 (min (unat k * 4288) (length src))
      = take (min (unat k * 4288) (length src)) src"
    and "gated src addr (mem_write off blk mem) es"
  shows "gated src addr mem (Stage_Write off blk # L1_Write addr (progress k) # es)"
  unfolding gated_def
proof (intro allI impI)
  fix pre j post
  assume e: "Stage_Write off blk # L1_Write addr (progress k) # es = pre @ L1_Write addr (progress j) # post"
  then obtain pre' where p: "pre = Stage_Write off blk # pre'" by (cases pre) auto
  show "let n = min (unat j * 4288) (length src) in mem_read (replay pre mem) 0 n = take n src"
  proof (cases pre')
    case Nil
    then show ?thesis using e p assms(1) by simp
  next
    case (Cons x pre'')
    then show ?thesis using e p assms(2) by (fastforce simp: gated_def)
  qed
qed

text \<open>The arithmetic of one block: its place, its size, and where the next one starts.\<close>

lemma block_arith:
  fixes base len :: u32
  defines "num \<equiv> chunk_count_for len"
  assumes lt: "base < num"
  defines "blk \<equiv> min kStageBlockChunks (num - base)"
  shows "unat (base * kMaxChunkValueBytes) = unat base * 4288" "unat base * 4288 < unat len"
    "unat (min (blk * kMaxChunkValueBytes) (len - base * kMaxChunkValueBytes))
       = min (unat blk * 4288) (unat len - unat base * 4288)"
    "unat (base + blk) = unat base + unat blk" "unat blk = min 64 (unat num - unat base)"
    "unat (base + kStageBlockChunks) = unat base + 64"
proof -
  have nb: "unat num \<le> 1001625" by (simp add: num_def chunk_count_for_bound)
  have bn: "unat base < unat num" using lt by (simp add: word_less_nat_alt)
  have "Suc (unat base) * 4288 \<le> unat num * 4288" using bn by (intro mult_le_mono1) simp
  then show bl: "unat base * 4288 < unat len"
    using chunk_count_for_tight [of len] by (simp add: num_def)
  then have "unat base * 4288 < 4294967296" using unat_less_4G [of len] by linarith
  then show off: "unat (base * kMaxChunkValueBytes) = unat base * 4288" by (simp add: unat_mult_fits)
  have "unat (num - base) = unat num - unat base" using lt by (simp add: unat_minus_fits)
  then show blk: "unat blk = min 64 (unat num - unat base)"
    by (simp add: blk_def kStageBlockChunks_def min_def word_le_nat_alt)
  have bm: "unat (blk * kMaxChunkValueBytes) = unat blk * 4288"
    using blk by (subst unat_mult_fits) auto
  have lm: "unat (len - base * kMaxChunkValueBytes) = unat len - unat base * 4288"
    using bl off by (subst unat_minus_fits) (simp_all add: word_le_nat_alt)
  show "unat (min (blk * kMaxChunkValueBytes) (len - base * kMaxChunkValueBytes))
       = min (unat blk * 4288) (unat len - unat base * 4288)"
    using bm lm by (simp add: min_def word_le_nat_alt)
  show "unat (base + blk) = unat base + unat blk" using blk nb bn by (intro unat_plus_fits) linarith
  show "unat (base + kStageBlockChunks) = unat base + 64"
    using nb bn by (subst unat_plus_fits) (auto simp: kStageBlockChunks_def)
qed

lemma mem_read_extend:
  assumes "mem_read mem 0 a = take a src" and "a + n \<le> length src"
  shows "mem_read (mem_write a (take n (drop a src)) mem) 0 (a + n) = take (a + n) src"
proof (rule nth_equalityI)
  show "length (mem_read (mem_write a (take n (drop a src)) mem) 0 (a + n)) = length (take (a + n) src)"
    using assms(2) by simp
  fix i assume "i < length (mem_read (mem_write a (take n (drop a src)) mem) 0 (a + n))"
  then have i: "i < a + n" by simp
  show "mem_read (mem_write a (take n (drop a src)) mem) 0 (a + n) ! i = take (a + n) src ! i"
  proof (cases "i < a")
    case True
    then have "mem i = mem_read mem 0 a ! i" by (simp add: mem_read_def)
    then have "mem i = take a src ! i" by (simp only: assms(1))
    then show ?thesis using True i by (simp add: mem_read_def mem_write_def)
  next
    case False
    then show ?thesis using i assms(2) by (simp add: mem_read_def mem_write_def)
  qed
qed

lemma stream_blocks_ok:
  fixes s :: "'z host_state_scheme" and len :: u32
  defines "num \<equiv> chunk_count_for len"
  assumes src: "host_value_bytes s hv (unat len) = src" "length src = unat len"
    and held: "mem_read (stage_mem s) 0 (min (unat base * 4288) (unat len)) = take (min (unat base * 4288) (unat len)) src"
    and fuel: "unat num \<le> unat base + fuel * 64"
  shows "\<exists>m es. stream_blocks fuel hv len num addr base s =
      (Inr (), s\<lparr>stage_mem := m, events := events s @ es\<rparr>)
    \<and> gated src addr (stage_mem s) es \<and> mem_read m 0 (unat len) = src
    \<and> (if base < num then \<exists>es'. es = es' @ [L1_Write addr (progress num)] else es = [])"
  using src held fuel
proof (induction fuel arbitrary: base s)
  case 0
  then have "unat len \<le> unat base * 4288" "\<not> base < num"
    using chunk_count_for_covers [of len] mult_le_mono1 [of "unat num" "unat base" 4288]
    by (simp_all add: num_def word_less_nat_alt)
  then show ?case using 0 by (intro exI [of _ "stage_mem s"] exI [of _ "[]"]) (simp add: ret_def)
next
  case (Suc fuel)
  show ?case
  proof (cases "base < num")
    case False
    then have "unat num * 4288 \<le> unat base * 4288" by (intro mult_le_mono1) (simp add: word_less_nat_alt)
    then have "unat len \<le> unat base * 4288" using chunk_count_for_covers [of len] by (simp add: num_def)
    then show ?thesis
      using False Suc.prems by (intro exI [of _ "stage_mem s"] exI [of _ "[]"]) (simp add: ret_def)
  next
    case True
    define blk where "blk = min kStageBlockChunks (num - base)"
    note A = block_arith [of base len, folded num_def, OF True, folded blk_def]
    define n where "n = min (unat blk * 4288) (unat len - unat base * 4288)"
    define part where "part = take n (drop (unat base * 4288) src)"
    define s1 where "s1 = s\<lparr>stage_mem := mem_write (unat base * 4288) part (stage_mem s),
        events := events s @ [Stage_Write (unat base * 4288) part, L1_Write addr (progress (base + blk))]\<rparr>"
    have step: "stream_blocks (Suc fuel) hv len num addr base s =
        stream_blocks fuel hv len num addr (base + kStageBlockChunks) s1"
      using True Suc.prems(1) A(1,3)
      by (simp add: Let_def bindE_def seqE_def gets_def copy_to_stage_def modify_def
          publish_stage_progress_run blk_def [symmetric] n_def [symmetric] part_def [symmetric] s1_def)
        (cases s, simp)
    have sum: "unat base * 4288 + n = min (unat (base + blk) * 4288) (unat len)"
    proof -
      have "b < l \<Longrightarrow> b + min k (l - b) = min (b + k) l" for b k l :: nat by auto
      then show ?thesis using A(2) unfolding n_def A(4) add_mult_distrib by blast
    qed
    have "unat base * 4288 \<le> unat len" using A(2) by simp
    then have "mem_read (stage_mem s) 0 (unat base * 4288) = take (unat base * 4288) src"
      using Suc.prems(3) by (simp add: min_def)
    from mem_read_extend [OF this, of n] have ext:
      "mem_read (stage_mem s1) 0 (min (unat (base + blk) * 4288) (unat len))
        = take (min (unat (base + blk) * 4288) (unat len)) src"
      using sum Suc.prems(2) by (simp add: s1_def part_def)
    have cover: "min (unat (base + kStageBlockChunks) * 4288) (unat len) = min (unat (base + blk) * 4288) (unat len)"
    proof (cases "64 \<le> unat num - unat base")
      case True
      then show ?thesis using A(4,5,6) by simp
    next
      case False
      then have "unat (base + blk) = unat num" using A(4,5) \<open>base < num\<close> by (simp add: word_less_nat_alt)
      moreover have "unat num \<le> unat (base + kStageBlockChunks)" using False A(6) by linarith
      then have "unat num * 4288 \<le> unat (base + kStageBlockChunks) * 4288" by (rule mult_le_mono1)
      ultimately show ?thesis using chunk_count_for_covers [of len] by (simp add: num_def min_def)
    qed
    have "\<exists>m es. stream_blocks fuel hv len num addr (base + kStageBlockChunks) s1 =
        (Inr (), s1\<lparr>stage_mem := m, events := events s1 @ es\<rparr>)
      \<and> gated src addr (stage_mem s1) es \<and> mem_read m 0 (unat len) = src
      \<and> (if base + kStageBlockChunks < num then \<exists>es'. es = es' @ [L1_Write addr (progress num)] else es = [])"
      using Suc.prems(1,2,4) ext cover A(6) by (intro Suc.IH) (simp_all add: s1_def)
    then obtain m es where t: "stream_blocks fuel hv len num addr (base + kStageBlockChunks) s1 =
        (Inr (), s1\<lparr>stage_mem := m, events := events s1 @ es\<rparr>)"
      "gated src addr (stage_mem s1) es" "mem_read m 0 (unat len) = src"
      "if base + kStageBlockChunks < num then \<exists>es'. es = es' @ [L1_Write addr (progress num)] else es = []" by blast
    let ?es = "Stage_Write (unat base * 4288) part # L1_Write addr (progress (base + blk)) # es"
    have "gated src addr (stage_mem s) ?es"
      using ext t(2) Suc.prems(2) by (intro gated_block) (simp_all add: s1_def)
    moreover have "\<exists>es'. ?es = es' @ [L1_Write addr (progress num)]"
    proof (cases "base + kStageBlockChunks < num")
      case True
      then show ?thesis using t(4) by (metis append_Cons)
    next
      case False
      then have "unat num \<le> unat base + 64" using A(6) by (simp add: word_less_nat_alt)
      then have "unat (base + blk) = unat num"
        using A(4,5) \<open>base < num\<close> by (simp add: word_less_nat_alt)
      then have "base + blk = num" by (simp add: u32_eq_iff)
      then show ?thesis using False t(4) by simp
    qed
    ultimately show ?thesis using True t(1,3) step by (intro exI [of _ m] exI [of _ ?es]) (simp add: s1_def)
  qed
qed


section \<open>What the operations leave alone\<close>

text \<open>
  Every operation keeps the configuration of the store and the state of its caller, and the
  operations that serve values to the device keep the values and the pool as well.
\<close>

lemma still_updates [simp]:
  "still (pool_free_update k0 s) = still s"
  "still (pool_meta_update k1 s) = still s"
  "still (pool_meta_generations_update k2 s) = still s"
  "still (host_values_update k3 s) = still s"
  "still (pool_mem_update k4 s) = still s"
  "still (stage_mem_update k5 s) = still s"
  "still (heap_dram_update k6 s) = still s"
  "still (events_update k7 s) = still s"
  by (simp_all add: still_def)

lemma still_ops [frame_rules]:
  "keeps still (pool_alloc n)"
  "keeps still (pool_release u n)"
  "keeps still (write_meta slot g)"
  "keeps still (invalidate_pool_meta slot)"
  "keeps still (publish_pool_meta slot ro len)"
  "keeps still (set_host_value slot hv)"
  "keeps still (write_l1 addr bs)"
  "keeps still (copy_to_stage stage_off bytes)"
  "keeps still (drop_host_value slot)"
  "keeps still (lift_sum r)"
  "keeps still (stage_value_device_to_host geo rd slot off len)"
  "keeps still (reserve_device_push_destination slot len)"
  "keeps still (publish_device_pushed_value slot len d)"
  "keeps still (promote_read_off slot)"
  "keeps still (find_host_value what slot)"
  "keeps still (stage_value_host_to_device geo slot off len ro)"
  "keeps still (publish_stage_progress addr k)"
  unfolding pool_alloc_def pool_release_def write_meta_def invalidate_pool_meta_def
    publish_pool_meta_def set_host_value_def write_l1_def copy_to_stage_def
    drop_host_value_def lift_sum_def stage_value_device_to_host_def
    reserve_device_push_destination_def publish_device_pushed_value_def promote_read_off_def
    find_host_value_def stage_value_host_to_device_def publish_stage_progress_def
  by (intro frame_rules; simp)+

lemma still_stream_blocks [frame_rules]: "keeps still (stream_blocks fuel hv len num addr base)"
proof (induction fuel arbitrary: base)
  case (Suc fuel)
  then show ?case unfolding stream_blocks.simps by (intro frame_rules; simp)
qed (simp add: keeps_ret)

lemma still_stage_host_value_for_stream [frame_rules]:
  "keeps still (stage_host_value_for_stream slot len addr ro)"
  unfolding stage_host_value_for_stream_def by (intro frame_rules)

text \<open>The values and whether the pool is partitioned, as one view.\<close>

definition stored where
  "stored s = (contents s, \<lambda>extra. host_ok extra s)"

lemma stored_updates [simp]:
  "stored (stage_mem_update j1 s) = stored s"
  "stored (heap_dram_update j2 s) = stored s"
  "stored (events_update j3 s) = stored s"
  by (simp_all add: stored_def)

lemma stored_ops [frame_rules]:
  "keeps stored (write_l1 addr bs)"
  "keeps stored (copy_to_stage stage_off bytes)"
  "keeps stored (lift_sum r)"
  "keeps stored (promote_read_off slot)"
  "keeps stored (find_host_value what slot)"
  "keeps stored (stage_value_host_to_device geo slot off len ro)"
  "keeps stored (publish_stage_progress addr k)"
  unfolding write_l1_def copy_to_stage_def lift_sum_def promote_read_off_def find_host_value_def
    stage_value_host_to_device_def publish_stage_progress_def
  by (intro frame_rules; simp)+

lemma stored_stream_blocks [frame_rules]: "keeps stored (stream_blocks fuel hv len num addr base)"
proof (induction fuel arbitrary: base)
  case (Suc fuel)
  then show ?case unfolding stream_blocks.simps by (intro frame_rules; simp)
qed (simp add: keeps_ret)

lemma stored_stage_host_value_for_stream [frame_rules]:
  "keeps stored (stage_host_value_for_stream slot len addr ro)"
  unfolding stage_host_value_for_stream_def by (intro frame_rules)

section \<open>Accounting\<close>

lemma fold_plus: "fold (\<lambda>e a. a + f e) xs (a :: u32) = a + (\<Sum>e \<leftarrow> xs. f e)"
  by (induction xs arbitrary: a) (simp_all add: add.assoc)

lemma unat_sum_list: "(\<Sum>x \<leftarrow> xs. unat x) < 4294967296 \<Longrightarrow> unat (\<Sum>x \<leftarrow> xs. (x :: u32)) = (\<Sum>x \<leftarrow> xs. unat x)"
  by (induction xs) (simp_all add: unat_plus_fits)

lemma free_units_sum: "free_ok k m \<Longrightarrow> (\<Sum>e \<leftarrow> m. unat (snd e)) = card (free_set m)"
proof (induction m)
  case (Cons d m)
  obtain u n where d: "d = (u, n)" by (cases d)
  have "run u n \<inter> free_set m = {}" using free_set_hd(4) Cons.prems unfolding d by blast
  then have "card (free_set (d # m)) = unat n + card (free_set m)" by (simp add: d card_Un_disjoint)
  moreover have "free_ok k m" using Cons.prems by (simp add: free_ok_Cons)
  ultimately show ?case using Cons.IH by (simp add: d)
qed simp

lemma extents_units: "(\<Sum>e \<in># extents vs. unat (snd e)) = (\<Sum>e \<leftarrow> vs. unat (hv_pool_units (snd e)))"
  by (induction vs) (auto simp: extent_of_def)

lemma host_ok_sum:
  assumes "host_ok {#} s"
  shows "(\<Sum>e \<leftarrow> pool_free s. unat (snd e)) + (\<Sum>e \<leftarrow> host_values s. unat (hv_pool_units (snd e)))
     = unat (pool_units_total s)"
proof -
  have p: "pool.partitions (extents (host_values s)) s" using assms by (simp add: host_ok_def)
  have "free_ok (pool_units_total s) (pool_free s)"
    using pool.partitions_inv [OF p] by (simp add: pool_ok_def)
  then show ?thesis
    using pool.partitions_accounting [OF p] by (simp add: free_units_sum extents_units pool_free_set_def)
qed

section \<open>Properties\<close>

definition demo_host :: host_state where
  "demo_host = \<lparr>pool_mapped = True, pool_units_total = 20, pool_free = [(3, 17)],
     meta_mapped = True, max_keys = 4, pool_meta = (\<lambda>_ _. 0), pool_meta_generations = (\<lambda>_. 6),
     host_values = [(1, \<lparr>hv_heap = [], hv_len = 10000, hv_pool_unit = 0, hv_pool_units = 3, hv_generation = 0\<rparr>),
                    (2, \<lparr>hv_heap = [7, 8], hv_len = 2, hv_pool_unit = 0, hv_pool_units = 0, hv_generation = 0\<rparr>)],
     pool_mem = (\<lambda>i. of_nat i), pool_read_off = 65536, stage_mem = (\<lambda>_. 0), stage_bytes = 42880,
     stage_noc_ok = True, heap_dram = (\<lambda>_ _. 0), events = []\<rparr>"

lemma demo_host_ok: "host_ok {#} demo_host"
proof -
  have "pool.partitions {#(0, 3)#} demo_host"
    by (auto simp: pool.partitions_def pool.covers_simps demo_host_def pool_ok_def free_ok_def apart_def
        pool_free_set_def run_def)
  then show ?thesis
    by (simp add: host_ok_def demo_host_def hv_ok_def extent_of_def demo_chunks word_less_nat_alt)
qed

text \<open>
  dropping is exact. On a well-formed store, dropping a slot never throws: afterwards the slot
  holds nothing, every other slot holds the bytes it held, the pool partition is intact (the
  slot's extent is free again), and nothing outside the store has changed.
\<close>

theorem drop_host_value_exact:
  assumes "host_ok extra s"
  shows "\<exists>t. drop_host_value slot s = (Inr (), t) \<and> host_ok extra t
    \<and> contents t = (contents s)(slot := None) \<and> outside t = outside s"
  by (rule drop_summary [OF assms, of slot]) blast

theorem drop_host_value_exact_witness:
  "\<exists>t. drop_host_value 1 demo_host = (Inr (), t) \<and> contents t 1 = None \<and> contents t 2 = contents demo_host 2"
  using drop_host_value_exact [OF demo_host_ok, of 1] by auto

text \<open>
  The copy from the device stores the value. On a well-formed store, for a value in range and a
  device memory that does not change during the call, \<^verbatim>\<open>stage_value_device_to_host\<close> returns, the slot
  then holds the value's bytes, read from the units at the given offset, all other slots are
  unchanged, and every pool unit is still free or owned once, whether the pool had room for the
  value or it went to a vector.
\<close>

theorem stage_value_device_to_host_exact:
  assumes "host_ok extra s" and "meta_mapped s \<longrightarrow> slot < max_keys s"
    and "steady mem rd" and "device_found geo" and "value_buffer_found geo"
    and "heap_fits geo (off div kMaxChunkValueBytes) (chunk_count_for len)"
  shows "\<exists>t. stage_value_device_to_host geo rd slot off len s = (Inr (), t) \<and> host_ok extra t
    \<and> contents t = (contents s)(slot \<mapsto>
        take (unat len) (value_image geo mem (unat off div 4288) (unat (chunk_count_for len))))"
proof -
  let ?img = "value_image geo mem (unat off div 4288) (unat (chunk_count_for len))"
  have "\<exists>b img p. read_value_units_into geo rd dst off len = Inr (b, img, p)
      \<and> length img = unat (chunk_count_for len) * 4288 \<and> img = ?img"
    if d: "length dst = unat (chunk_count_for len) * 4288" for dst
    using read_steady [OF assms(3-6) d] by auto
  from stage_device_to_host_ok [OF assms(1,2), of len geo rd off "\<lambda>img. img = ?img", OF this]
  show ?thesis by auto
qed

theorem stage_value_device_to_host_exact_witness:
  "\<exists>t. stage_value_device_to_host demo_geometry
      (\<lambda>i bank addr n. map (\<lambda>k. of_nat (unat bank * 7 + unat addr + k)) [0 ..< n]) 1 8576 10000 demo_host
      = (Inr (), t) \<and> contents t 2 = contents demo_host 2"
proof -
  have "steady (\<lambda>bank a. of_nat (bank * 7 + a))
      (\<lambda>i bank addr n. map (\<lambda>k. of_nat (unat bank * 7 + unat addr + k)) [0 ..< n])"
    by (simp add: steady_def add.assoc)
  from stage_value_device_to_host_exact [OF demo_host_ok _ this _ _ demo_fits, of 1]
  show ?thesis by (auto simp: demo_geometry_def demo_host_def word_less_nat_alt)
qed

text \<open>
  A device push ends in the store. On a well-formed store, reserving a destination for a slot
  removes the old value, takes an extent when the pool has one, and publishes its place under a
  nonzero generation. Once the device has written the bytes there (or, without an extent, into
  the staging window), publishing makes exactly those bytes the slot's value and leaves every
  other slot and the pool partition intact.
\<close>

theorem device_push_exact:
  assumes "host_ok extra s" and "slot < max_keys s" and "pool_mapped s \<longrightarrow> meta_mapped s"
    and "length bytes = unat len"
  shows "\<exists>d t u. reserve_device_push_destination slot len s = (Inr d, t)
    \<and> destination_ok d slot len t \<and> contents t = (contents s)(slot := None)
    \<and> publish_device_pushed_value slot len d (device_pushes d bytes t) = (Inr (), u)
    \<and> host_ok extra u \<and> contents u = (contents s)(slot \<mapsto> bytes)"
proof -
  obtain d t where d: "reserve_device_push_destination slot len s = (Inr d, t)"
    "host_ok (in_flight d len + extra) t" "destination_ok d slot len t"
    "contents t = (contents s)(slot := None)" "slot \<notin> fst ` set (host_values t)" "outside t = outside s"
    using reserve_ok [OF assms(1-3)] by blast
  have "slot < max_keys t" using d(6) assms(2) by (simp add: outside_def still_def)
  from publish_ok [OF d(2,3,5) this assms(4)] d show ?thesis by (metis fun_upd_upd)
qed

theorem device_push_exact_witness:
  "\<exists>d t u. reserve_device_push_destination 2 3 demo_host = (Inr d, t)
    \<and> publish_device_pushed_value 2 3 d (device_pushes d [1, 2, 3] t) = (Inr (), u)
    \<and> contents u 2 = Some [1, 2, 3] \<and> contents u 1 = contents demo_host 1"
  using device_push_exact [OF demo_host_ok, of 2 "[1, 2, 3]" 3]
  by (fastforce simp: demo_host_def word_less_nat_alt)

text \<open>
  The units are accounted for at close. When no extent is in flight or leased, the free units and
  the units of the stored values add up, without wrap-around, to the size of the pool, so the
  leak warning of the close path is not raised.
\<close>

theorem close_accounting:
  assumes "host_ok {#} s"
  shows "accounted_units s = pool_units_total s"
proof -
  note S = host_ok_sum [OF assms]
  have f: "unat (\<Sum>e \<leftarrow> pool_free s. snd e) = (\<Sum>e \<leftarrow> pool_free s. unat (snd e))"
    using unat_sum_list [of "map snd (pool_free s)"] S unat_less_4G [of "pool_units_total s"]
    by (simp add: comp_def) 
  have v: "unat (\<Sum>e \<leftarrow> host_values s. hv_pool_units (snd e))
      = (\<Sum>e \<leftarrow> host_values s. unat (hv_pool_units (snd e)))"
    using unat_sum_list [of "map (hv_pool_units \<circ> snd) (host_values s)"] S unat_less_4G [of "pool_units_total s"]
    by (simp add: comp_def)
  have "unat (accounted_units s) = unat (pool_units_total s)"
    unfolding accounted_units_def fold_plus using S f v by (simp add: unat_plus_le [of _ _ "pool_units_total s"])
  then show ?thesis by (simp add: u32_eq_iff)
qed

theorem close_accounting_witness: "accounted_units demo_host = 20"
  using close_accounting [OF demo_host_ok] by (simp add: demo_host_def)


lemma contentsE:
  assumes "host_ok extra s" and "contents s slot = Some src"
  obtains hv where "map_of (host_values s) slot = Some hv" "hv_ok hv"
    "host_value_bytes s hv (unat (hv_len hv)) = src" "length src = unat (hv_len hv)"
proof -
  obtain hv where hv: "map_of (host_values s) slot = Some hv"
    "host_value_bytes s hv (unat (hv_len hv)) = src" using assms(2) by (auto simp: contents_def)
  have ok: "hv_ok hv" using assms(1) hv(1) by (force simp: host_ok_def dest: map_of_SomeD)
  have "length src = unat (hv_len hv)"
    using ok hv(2) by (auto simp: host_value_bytes_def hv_ok_def word_gt_0 split: if_splits)
  then show ?thesis using that hv ok by blast
qed

text \<open>
  C34: the stream never runs ahead of the bytes. For a stored value that is not in the pool and fits
  the staging window, \<^verbatim>\<open>stage_host_value_for_stream\<close> returns; whenever it publishes a progress
  count \<open>k\<close>, the window already holds the first \<open>k\<close> chunks of the value, copied earlier in
  program order; its last publication is the whole number of chunks, and the store is unchanged.
\<close>

theorem stream_gated:
  assumes "host_ok extra s" and "contents s slot = Some src" and "length src = unat len"
    and "map_of (host_values s) slot = Some hv" and "hv_pool_units hv = 0"
    and "len \<le> stage_bytes s" and "len \<noteq> 0"
  shows "\<exists>t es. stage_host_value_for_stream slot len addr 0 s = (Inr (), t)
    \<and> events t = events s @ es \<and> gated src addr (stage_mem s) es
    \<and> (\<exists>es'. es = es' @ [L1_Write addr (progress (chunk_count_for len))])
    \<and> mem_read (stage_mem t) 0 (unat len) = src \<and> contents t = contents s \<and> host_ok extra t"
proof -
  have hv: "host_value_bytes s hv (unat len) = src" "hv_len hv = len"
  proof -
    obtain hv' where "map_of (host_values s) slot = Some hv'"
      "host_value_bytes s hv' (unat (hv_len hv')) = src" "length src = unat (hv_len hv')"
      using contentsE [OF assms(1,2)] by blast
    then show "host_value_bytes s hv (unat len) = src" "hv_len hv = len"
      using assms(3,4) by (simp_all add: u32_eq_iff)
  qed
  let ?num = "chunk_count_for len"
  have pos: "0 < ?num" using assms(7) by (simp add: word_gt_0)
  have "mem_read (stage_mem s) 0 (min (unat 0 * 4288) (unat len)) = take (min (unat (0 :: u32) * 4288) (unat len)) src"
    "unat ?num \<le> unat (0 :: u32) + unat ?num * 64"
    by (simp_all add: mem_read_def)
  from stream_blocks_ok [OF hv(1) assms(3) this, where addr = addr] pos obtain m es es' where
    r: "stream_blocks (unat ?num) hv len ?num addr 0 s = (Inr (), s\<lparr>stage_mem := m, events := events s @ es\<rparr>)"
    "gated src addr (stage_mem s) es" "mem_read m 0 (unat len) = src"
    "es = es' @ [L1_Write addr (progress ?num)]" by auto
  define t where "t = s\<lparr>stage_mem := m, events := events s @ es\<rparr>"
  have "stage_host_value_for_stream slot len addr 0 s = (Inr (), t)"
    unfolding t_def using assms(4,5,6) hv(2) r(1)
    by (simp add: stage_host_value_for_stream_def find_host_value_def io_defs Let_def)
  moreover have "events t = events s @ es" "stage_mem t = m" "contents t = contents s" "host_ok extra t"
    using assms(1) by (simp_all add: t_def)
  ultimately show ?thesis using r by blast
qed

lemma demo_host_slot2: "contents demo_host 2 = Some [7, 8]"
  by (simp add: contents_def demo_host_def host_value_bytes_def)

theorem stream_gated_witness:
  "\<exists>t. stage_host_value_for_stream 2 2 4096 0 demo_host = (Inr (), t)
    \<and> mem_read (stage_mem t) 0 2 = [7, 8]"
  using stream_gated [OF demo_host_ok demo_host_slot2, of 2]
  by (fastforce simp: demo_host_def word_le_nat_alt)

text \<open>
  Admission puts the stored bytes on the device. Without a host mapping, staging a stored value
  writes its bytes, padded with zeros to whole units, into the device heap at the given offset:
  a read of the device memory afterwards returns them, no unit outside the extent changes, and
  the store is unchanged.
\<close>

theorem stage_host_to_device_exact:
  assumes "host_ok extra s" and "contents s slot = Some src" and "length src = unat len"
    and "\<not> stage_noc_ok s" and "device_found geo" and "value_buffer_found geo"
    and "heap_fits geo (off div kMaxChunkValueBytes) (chunk_count_for len)"
  shows "\<exists>t. stage_value_host_to_device geo slot off len ro s = (Inr (), t)
    \<and> contents t = contents s \<and> host_ok extra t
    \<and> (\<forall>rd dst. steady (heap_dram t) rd \<and> length dst = unat (chunk_count_for len) * 4288 \<longrightarrow>
        (\<exists>p. read_value_units_into geo rd dst off len =
           Inr (True, src @ replicate (unat (chunk_count_for len) * 4288 - unat len) 0, p)))
    \<and> (\<forall>x k. k < unat (aligned_page geo)
         \<and> (x < unat off div 4288 \<or> unat off div 4288 + unat (chunk_count_for len) \<le> x) \<longrightarrow>
         unit_byte geo (heap_dram t) x k = unit_byte geo (heap_dram s) x k)"
proof -
  obtain hv where hv: "map_of (host_values s) slot = Some hv"
    "host_value_bytes s hv (unat (hv_len hv)) = src" "length src = unat (hv_len hv)"
    using contentsE [OF assms(1,2)] by blast
  define t where "t = heap_dram_update (write_value_units geo off src len) s"
  have "stage_value_host_to_device geo slot off len ro s = (Inr (), t)"
    using hv assms(3-6)
    by (simp add: stage_value_host_to_device_def find_host_value_def io_defs t_def)
  moreover have "contents t = contents s" "host_ok extra t" using assms(1) by (simp_all add: t_def)
  moreover have "\<forall>rd dst. steady (heap_dram t) rd \<and> length dst = unat (chunk_count_for len) * 4288 \<longrightarrow>
      (\<exists>p. read_value_units_into geo rd dst off len =
         Inr (True, src @ replicate (unat (chunk_count_for len) * 4288 - unat len) 0, p))"
    using write_read [OF assms(7,5,6,3)] by (auto simp: t_def)
  moreover have "\<forall>x k. k < unat (aligned_page geo)
         \<and> (x < unat off div 4288 \<or> unat off div 4288 + unat (chunk_count_for len) \<le> x) \<longrightarrow>
         unit_byte geo (heap_dram t) x k = unit_byte geo (heap_dram s) x k"
    using write_value_unit [OF assms(7,3)] by (auto simp: t_def)
  ultimately show ?thesis by blast
qed

theorem stage_host_to_device_exact_witness:
  "\<exists>t. stage_value_host_to_device demo_geometry 1 8576 10000 0 (demo_host\<lparr>stage_noc_ok := False\<rparr>) = (Inr (), t)
     \<and> unit_byte demo_geometry (heap_dram t) 1 5 = 0"
proof -
  let ?s = "demo_host\<lparr>stage_noc_ok := False\<rparr>"
  have ok: "host_ok {#} ?s" using demo_host_ok by (simp add: host_ok_def pool.partitions_def pool_ok_def pool_free_set_def)
  have c: "contents ?s 1 = Some (map of_nat [0 ..< 10000])"
    by (simp add: contents_def demo_host_def host_value_bytes_def mem_read_def)
  have d: "\<not> stage_noc_ok ?s" "device_found demo_geometry" "value_buffer_found demo_geometry"
    "length (map of_nat [0 ..< 10000] :: byte list) = unat (10000 :: u32)"
    by (simp_all add: demo_geometry_def)
  obtain t where t: "stage_value_host_to_device demo_geometry 1 8576 10000 0 ?s = (Inr (), t)"
    "\<forall>x k. k < unat (aligned_page demo_geometry)
         \<and> (x < unat (8576 :: u32) div 4288 \<or> unat (8576 :: u32) div 4288 + unat (chunk_count_for 10000) \<le> x) \<longrightarrow>
         unit_byte demo_geometry (heap_dram t) x k = unit_byte demo_geometry (heap_dram ?s) x k"
    using stage_host_to_device_exact [OF ok c d(4,1,2,3) demo_fits, of 0] by blast
  have "unit_byte demo_geometry (heap_dram t) 1 5 = unit_byte demo_geometry (heap_dram ?s) 1 5"
    using t(2) by (simp add: demo_geometry_def)
  then show ?thesis using t(1) by (simp add: unit_byte_def demo_host_def)
qed

end
