(* ===== verification/Tiering_Worker.thy ===== *)
theory Tiering_Worker
  imports Host_Store
begin

text \<open>
  The host tiering worker, \<^verbatim>\<open>ServerRuntimeCore::tiering_worker_loop\<close> of
  \<^verbatim>\<open>server_runtime/server_tiering.cpp\<close>: it polls the single-slot move channel of the server
  core, executes the posted operation on the host store, answers through L1, waits for the
  device where the operation needs it, and acknowledges the slot.

  The device is the environment: an \<open>observation\<close> holds all that one round of the loop reads from it,
  the poll buffer, the words seen by the waiting loops together with the stop flag loaded before
  each of them, and what the device wrote into host memory meanwhile. A waiting loop that has
  used up its observations is still waiting. Clocks, back-off and profile counters are left out.
\<close>

section \<open>The move channel\<close>

definition kMoveOpWriteThrough :: u32 where "kMoveOpWriteThrough = 1"
definition kMoveOpDevicePromote :: u32 where "kMoveOpDevicePromote = 2"
definition kMoveOpRemoveBacking :: u32 where "kMoveOpRemoveBacking = 3"
definition kMoveOpHostServe :: u32 where "kMoveOpHostServe = 4"

lemmas move_ops = kMoveOpWriteThrough_def kMoveOpDevicePromote_def kMoveOpRemoveBacking_def
  kMoveOpHostServe_def

definition kMoveReqSemSize :: nat where "kMoveReqSemSize = 16"
definition kMoveReqHeaderBytes :: nat where "kMoveReqHeaderBytes = 20"
definition kCommitReqSlotBytes :: nat where "kCommitReqSlotBytes = 160"
definition kCommitReqHeaderBytes :: nat where "kCommitReqHeaderBytes = 16"
definition kCommitReqStageReadOffByteOffset :: nat where "kCommitReqStageReadOffByteOffset = 144"

record move_request =
  mr_op :: u32
  mr_slot :: u32
  mr_value_byte_off :: u32
  mr_total_len :: u32
  mr_key_len :: u32
  mr_bytes :: "byte list"

definition read_move_request :: "byte list \<Rightarrow> move_request" where
  "read_move_request poll_buf =
     (let req = drop kMoveReqSemSize poll_buf in
      \<lparr>mr_op = read_le32 req 0, mr_slot = read_le32 req 4, mr_value_byte_off = read_le32 req 8,
       mr_total_len = read_le32 req 12, mr_key_len = read_le32 req 16, mr_bytes = req\<rparr>)"

section \<open>Waiting\<close>

record wait_observation =
  wo_stop :: bool
  wo_word :: u32
  wo_probe :: "u32 option"

text \<open>
  \<open>await\<close> is a polling loop on a sequence number: \<open>None\<close> is still waiting, \<open>Some True\<close> left because of
  the stop flag, \<open>Some False\<close> saw the number, in the word polled or by the fallback probe.
\<close>

fun await :: "u32 \<Rightarrow> wait_observation list \<Rightarrow> bool option" where
  "await target [] = None"
| "await target (ob # obs) =
     (if wo_stop ob then Some True
      else if wo_word ob = target \<or> wo_probe ob = Some target then Some False
      else await target obs)"

record observation =
  ob_poll :: "byte list"
  ob_wait :: "wait_observation list"
  ob_stop_after :: bool
  ob_memory :: "push_destination \<Rightarrow> (nat \<Rightarrow> byte) \<times> (nat \<Rightarrow> byte) \<Rightarrow> (nat \<Rightarrow> byte) \<times> (nat \<Rightarrow> byte)"
  ob_reader :: dram_reader

datatype outcome = Continue | Waiting | Exit

section \<open>The worker\<close>

record worker_state = host_state +
  seen :: u32
  commit_issued :: u32
  evict_issued :: u32
  moves_completed :: u64

record worker_addresses =
  commit_req_sem_addr :: u32
  commit_req_addr :: u32
  move_processed_addr :: u32
  stage_progress_addr :: u32
  evict_ack_sem_addr :: u32
  evict_ack_addr :: u32

definition device_memory ::
  "((nat \<Rightarrow> byte) \<times> (nat \<Rightarrow> byte) \<Rightarrow> (nat \<Rightarrow> byte) \<times> (nat \<Rightarrow> byte)) \<Rightarrow> ('z host_state_scheme, unit) io" where
  "device_memory f = modify (\<lambda>s. case f (pool_mem s, stage_mem s) of
     (p, st) \<Rightarrow> s\<lparr>pool_mem := p, stage_mem := st\<rparr>)"

definition semaphore_bytes :: "u32 \<Rightarrow> byte list" where
  "semaphore_bytes n = le32 n @ replicate 12 0"

definition ack_bytes :: "push_destination \<Rightarrow> byte list" where
  "ack_bytes d = le32 (pd_read_off d) @ le32 (pd_generation d) @ replicate 8 0"

text \<open>The end of every executed move: the slot is free again for the device.\<close>

definition finish_move :: "worker_addresses \<Rightarrow> ('z worker_state_scheme, outcome) io" where
  "finish_move wa =
     seqE (modify (seen_update (\<lambda>n. n + 1)))
    (bindE (gets seen) (\<lambda>n.
     seqE (write_l1 (move_processed_addr wa) (semaphore_bytes n))
    (seqE (modify (moves_completed_update (\<lambda>n. n + 1)))
          (ret Continue))))"

definition write_through_mapped ::
  "worker_addresses \<Rightarrow> observation \<Rightarrow> move_request \<Rightarrow> ('z worker_state_scheme, outcome) io" where
  "write_through_mapped wa ob rq =
     bindE (reserve_device_push_destination (mr_slot rq) (mr_total_len rq)) (\<lambda>destination.
     seqE (modify (evict_issued_update (\<lambda>n. n + 1)))
    (bindE (gets evict_issued) (\<lambda>issued.
     seqE (write_l1 (evict_ack_addr wa) (ack_bytes destination))
    (seqE (write_l1 (evict_ack_sem_addr wa) (semaphore_bytes issued))
    (seqE (device_memory (ob_memory ob destination))
    (case await issued (ob_wait ob) of
       None \<Rightarrow> ret Waiting
     | Some left \<Rightarrow>
         if left \<or> ob_stop_after ob then
           seqE (case pd_pool_unit destination of
                   Some u \<Rightarrow> seqE (invalidate_pool_meta (mr_slot rq))
                                  (pool_release u (chunk_count_for (mr_total_len rq)))
                 | None \<Rightarrow> ret ())
                (ret Exit)
         else seqE (publish_device_pushed_value (mr_slot rq) (mr_total_len rq) destination)
                   (finish_move wa)))))))"

definition commit_request_bytes :: "move_request \<Rightarrow> u32 \<Rightarrow> byte list" where
  "commit_request_bytes rq stage_read_off =
     (let copy_key = min (mr_key_len rq) kMaxPutKeyBytes
      in memcpy kCommitReqStageReadOffByteOffset (le32 stage_read_off)
        (memcpy kCommitReqHeaderBytes (take (unat copy_key) (drop kMoveReqHeaderBytes (mr_bytes rq)))
        (memcpy 12 (le32 (mr_key_len rq))
        (memcpy 8 (le32 (mr_total_len rq))
        (memcpy 4 (le32 (mr_value_byte_off rq))
        (memcpy 0 (le32 (mr_slot rq)) (replicate kCommitReqSlotBytes 0)))))))"

definition post_commit_req :: "worker_addresses \<Rightarrow> byte list \<Rightarrow> u32 \<Rightarrow> ('z host_state_scheme, unit) io" where
  "post_commit_req wa creq issued =
     seqE (write_l1 (commit_req_addr wa) creq)
          (write_l1 (commit_req_sem_addr wa) (semaphore_bytes issued))"

definition serve_from_host ::
  "geometry \<Rightarrow> worker_addresses \<Rightarrow> observation \<Rightarrow> move_request \<Rightarrow> ('z worker_state_scheme, outcome) io" where
  "serve_from_host geo wa ob rq =
     bindE (gets stage_noc_ok) (\<lambda>noc_ok.
     let fused = (mr_op rq = kMoveOpHostServe \<and> noc_ok) in
     bindE (promote_read_off (mr_slot rq)) (\<lambda>stage_read_off.
     seqE (modify (commit_issued_update (\<lambda>n. n + 1)))
    (bindE (gets commit_issued) (\<lambda>issued.
     let creq = commit_request_bytes rq stage_read_off in
     seqE (if fused then
             seqE (write_l1 (stage_progress_addr wa) (replicate kStageProgressSize 0))
            (seqE (post_commit_req wa creq issued)
                  (stage_host_value_for_stream (mr_slot rq) (mr_total_len rq) (stage_progress_addr wa)
                     stage_read_off))
           else
             seqE (stage_value_host_to_device geo (mr_slot rq) (mr_value_byte_off rq) (mr_total_len rq)
                     stage_read_off)
                  (post_commit_req wa creq issued))
    (case await issued (ob_wait ob) of
       None \<Rightarrow> ret Waiting
     | Some left \<Rightarrow> if left \<or> ob_stop_after ob then ret Exit else finish_move wa)))))"

definition tiering_step ::
  "geometry \<Rightarrow> worker_addresses \<Rightarrow> observation \<Rightarrow> ('z worker_state_scheme, outcome) io" where
  "tiering_step geo wa ob =
     bindE (gets (\<lambda>s. (seen s, stage_noc_ok s))) (\<lambda>(already, noc_ok).
     let posted = read_le32 (ob_poll ob) 0;
         rq = read_move_request (ob_poll ob)
     in if posted = already then ret Continue
        else if mr_op rq = kMoveOpWriteThrough then
          if noc_ok then write_through_mapped wa ob rq
          else seqE (stage_value_device_to_host geo (ob_reader ob) (mr_slot rq) (mr_value_byte_off rq)
                       (mr_total_len rq))
                    (finish_move wa)
        else if mr_op rq = kMoveOpRemoveBacking then
          seqE (drop_host_value (mr_slot rq)) (finish_move wa)
        else if mr_op rq = kMoveOpDevicePromote \<or> mr_op rq = kMoveOpHostServe then
          serve_from_host geo wa ob rq
        else finish_move wa)"

text \<open>The loop over what the rounds observe, until it waits, exits or throws.\<close>

fun tiering_worker_loop ::
  "geometry \<Rightarrow> worker_addresses \<Rightarrow> observation list \<Rightarrow> ('z worker_state_scheme, outcome) io" where
  "tiering_worker_loop geo wa [] = ret Continue"
| "tiering_worker_loop geo wa (ob # obs) =
     bindE (tiering_step geo wa ob) (\<lambda>r. if r = Continue then tiering_worker_loop geo wa obs else ret r)"


section \<open>Runs of the pieces\<close>

lemma finish_move_run:
  "finish_move wa s = (Inr Continue, s\<lparr>seen := seen s + 1,
     events := events s @ [L1_Write (move_processed_addr wa) (semaphore_bytes (seen s + 1))],
     moves_completed := moves_completed s + 1\<rparr>)"
  by (cases s) (simp add: finish_move_def write_l1_def io_defs)

lemma host_value_bytes_worker [simp]:
  "host_value_bytes (seen_update f1 s) = host_value_bytes s"
  "host_value_bytes (commit_issued_update f2 s) = host_value_bytes s"
  "host_value_bytes (evict_issued_update f3 s) = host_value_bytes s"
  "host_value_bytes (moves_completed_update f4 s) = host_value_bytes s"
  by (rule ext, rule ext, simp add: host_value_bytes_def)+

lemma worker_updates [simp]:
  "contents (seen_update f1 s) = contents s" "contents (commit_issued_update f2 s) = contents s"
  "contents (evict_issued_update f3 s) = contents s" "contents (moves_completed_update f4 s) = contents s"
  "host_ok x (seen_update f5 s) = host_ok x s" "host_ok x (commit_issued_update f6 s) = host_ok x s"
  "host_ok x (evict_issued_update f7 s) = host_ok x s" "host_ok x (moves_completed_update f8 s) = host_ok x s"
  by (simp_all add: contents_def fun_eq_iff host_ok_def pool.partitions_def pool_ok_def pool_free_set_def)

lemma stored_worker_updates [simp]:
  "stored (seen_update f1 s) = stored s" "stored (commit_issued_update f2 s) = stored s"
  "stored (evict_issued_update f3 s) = stored s" "stored (moves_completed_update f4 s) = stored s"
  by (simp_all add: stored_def)

lemma still_worker:
  "still t = still s \<Longrightarrow> seen t = seen s \<and> commit_issued t = commit_issued s
     \<and> evict_issued t = evict_issued s \<and> moves_completed t = moves_completed s"
  by (cases s; cases t) (simp add: still_def)

text \<open>The configuration that no step of the worker changes.\<close>

definition config where
  "config s = (pool_mapped s, meta_mapped s, max_keys s, stage_noc_ok s)"

lemma config_still: "still t = still s \<Longrightarrow> config t = config s"
  by (simp add: still_def config_def)

lemma keeps_config: "keeps still m \<Longrightarrow> keeps config m"
  by (erule keeps_weaken) (rule config_still)

lemma config_updates [simp]:
  "config (seen_update f1 s) = config s" "config (commit_issued_update f2 s) = config s"
  "config (evict_issued_update f3 s) = config s" "config (moves_completed_update f4 s) = config s"
  "config (events_update f5 s) = config s" "config (pool_mem_update f6 s) = config s"
  "config (stage_mem_update f7 s) = config s"
  by (simp_all add: config_def)

lemma config_finish_move [frame_rules]: "keeps config (finish_move wa)"
  unfolding keeps_def by (simp add: finish_move_run)

lemma config_tiering_step: "keeps config (tiering_step geo wa ob)"
  unfolding tiering_step_def write_through_mapped_def serve_from_host_def device_memory_def post_commit_req_def
  by (intro frame_rules keeps_config; (simp split: prod.split)?)

section \<open>Serving moves\<close>

text \<open>Whatever the outcome of a serving move, no value and no pool unit has moved.\<close>

lemma stored_finish_move [frame_rules]: "keeps stored (finish_move wa)"
  unfolding keeps_def by (simp add: finish_move_run)

lemma stored_serve: "keeps stored (serve_from_host geo wa ob rq)"
  unfolding serve_from_host_def post_commit_req_def by (intro frame_rules; simp)


section \<open>Write-through\<close>

text \<open>The device writes the value's bytes into the destination it was given.\<close>

definition push_memory :: "push_destination \<Rightarrow> byte list \<Rightarrow>
    (nat \<Rightarrow> byte) \<times> (nat \<Rightarrow> byte) \<Rightarrow> (nat \<Rightarrow> byte) \<times> (nat \<Rightarrow> byte)" where
  "push_memory d bytes = (\<lambda>(pm, sm). case pd_pool_unit d of
      None \<Rightarrow> (pm, mem_write 0 bytes sm)
    | Some u \<Rightarrow> (mem_write (unat u * 4288) bytes pm, sm))"

lemma device_memory_push: "device_memory (push_memory d bytes) s = (Inr (), device_pushes d bytes s)"
  by (cases s) (simp add: device_memory_def push_memory_def device_pushes_def modify_def split: option.split)

lemma device_pushes_frame [simp]:
  "still (device_pushes d bytes s) = still s" "events (device_pushes d bytes s) = events s"
  "host_values (device_pushes d bytes s) = host_values s" "max_keys (device_pushes d bytes s) = max_keys s"
  "meta_mapped (device_pushes d bytes s) = meta_mapped s"
  "host_ok x (device_pushes d bytes s) = host_ok x s"
  by (simp_all add: device_pushes_def split: option.split)

lemma contents_push:
  assumes ok: "host_ok (in_flight d len + extra) s" and dest: "destination_ok d slot len s"
    and bytes: "length bytes = unat len"
  shows "contents (device_pushes d bytes s) = contents s"
proof (cases "pd_pool_unit d")
  case None
  then show ?thesis by (simp add: device_pushes_def)
next
  case (Some u)
  then show ?thesis
    using contents_pool_write [of u "chunk_count_for len" extra s bytes] ok dest bytes
      chunk_count_for_covers [of len]
    by (simp add: device_pushes_def in_flight_def destination_ok_def)
qed

lemma cancel_push:
  fixes s :: "'z host_state_scheme"
  assumes ok: "host_ok (in_flight d len + extra) s" and keys: "slot < max_keys s"
  shows "\<exists>t. (case pd_pool_unit d of
        Some u \<Rightarrow> seqE (invalidate_pool_meta slot) (pool_release u (chunk_count_for len))
      | None \<Rightarrow> ret ()) s = (Inr (), t)
    \<and> host_ok extra t \<and> contents t = contents s \<and> still t = still s"
proof (cases "pd_pool_unit d")
  case None
  then show ?thesis using ok by (simp add: ret_def in_flight_def)
next
  case (Some u)
  define m where "m = (if meta_mapped s then (pool_meta s)(slot := (\<lambda>_. 0)) else pool_meta s)"
  have inv: "invalidate_pool_meta slot s = (Inr (), s\<lparr>pool_meta := m\<rparr>)"
    using keys by (simp add: invalidate_pool_meta_run m_def)
  have "pool.partitions (add_mset (u, chunk_count_for len) (extents (host_values s) + extra)) (s\<lparr>pool_meta := m\<rparr>)"
    using ok Some by (simp add: host_ok_def in_flight_def)
  from release_owned [OF this] obtain f where f:
    "pool_release u (chunk_count_for len) (s\<lparr>pool_meta := m\<rparr>) = (Inr (), s\<lparr>pool_meta := m, pool_free := f\<rparr>)"
    "pool.partitions (extents (host_values s) + extra) (s\<lparr>pool_meta := m, pool_free := f\<rparr>)" by blast
  have "host_ok extra (s\<lparr>pool_meta := m, pool_free := f\<rparr>)" using ok f(2) by (simp add: host_ok_def)
  then show ?thesis using Some inv f(1) by (simp add: seqE_def bindE_def)
qed

lemma write_through_spec:
  fixes s :: "'z worker_state_scheme"
  assumes ok: "host_ok {#} s" and keys: "mr_slot rq < max_keys s" and mapped: "pool_mapped s \<longrightarrow> meta_mapped s"
    and bytes: "length bytes = unat (mr_total_len rq)" and ob: "\<And>d. ob_memory ob d = push_memory d bytes"
  shows "\<exists>r t. write_through_mapped wa ob rq s = (Inr r, t)
    \<and> (case await (evict_issued s + 1) (ob_wait ob) of
         None \<Rightarrow> r = Waiting \<and> (\<exists>x. host_ok x t)
       | Some left \<Rightarrow>
           if left \<or> ob_stop_after ob
           then r = Exit \<and> host_ok {#} t \<and> contents t = (contents s)(mr_slot rq := None)
           else r = Continue \<and> host_ok {#} t \<and> contents t = (contents s)(mr_slot rq \<mapsto> bytes)
             \<and> seen t = seen s + 1 \<and> moves_completed t = moves_completed s + 1
             \<and> (\<exists>d. events t = events s @ [L1_Write (evict_ack_addr wa) (ack_bytes d),
                  L1_Write (evict_ack_sem_addr wa) (semaphore_bytes (evict_issued s + 1)),
                  L1_Write (move_processed_addr wa) (semaphore_bytes (seen s + 1))]))"
proof -
  define len where "len = mr_total_len rq"
  define slot where "slot = mr_slot rq"
  obtain d s1 where d: "reserve_device_push_destination slot len s = (Inr d, s1)"
    "host_ok (in_flight d len + {#}) s1" "destination_ok d slot len s1"
    "contents s1 = (contents s)(slot := None)" "slot \<notin> fst ` set (host_values s1)" "outside s1 = outside s"
    using reserve_ok [OF ok keys mapped, of len] by (auto simp: slot_def)
  have st: "still s1 = still s" "events s1 = events s" using d(6) by (simp_all add: outside_def)
  note w1 = still_worker [OF st(1)]
  define s2 where "s2 = s1\<lparr>evict_issued := evict_issued s + 1, events := events s @
    [L1_Write (evict_ack_addr wa) (ack_bytes d),
     L1_Write (evict_ack_sem_addr wa) (semaphore_bytes (evict_issued s + 1))]\<rparr>"
  have w2: "seen s2 = seen s" "moves_completed s2 = moves_completed s" "max_keys s2 = max_keys s"
    using w1 st(1) by (simp_all add: s2_def still_def)
  have ok2: "host_ok (in_flight d len + {#}) s2" "contents s2 = (contents s)(slot := None)"
    "slot \<notin> fst ` set (host_values s2)"
    using d by (simp_all add: s2_def)
  have dest2: "destination_ok d slot len s2"
    using d(3) by (simp add: destination_ok_def s2_def split: option.splits)
  have bl: "length bytes = unat len" using bytes by (simp add: len_def)
  define s3 where "s3 = device_pushes d bytes s2"
  have ok3: "host_ok (in_flight d len + {#}) s3" "contents s3 = (contents s)(slot := None)"
    using ok2 contents_push [OF ok2(1) dest2 bl] by (simp_all add: s3_def)
  have "still s3 = still s2" by (simp add: s3_def)
  note w3 = still_worker [OF this]
  have m3: "max_keys s3 = max_keys s" using w2 by (simp add: s3_def)
  let ?aw = "await (evict_issued s + 1) (ob_wait ob)"
  have run: "write_through_mapped wa ob rq s = (case ?aw of
       None \<Rightarrow> (Inr Waiting, s3)
     | Some left \<Rightarrow>
         if left \<or> ob_stop_after ob then
           seqE (case pd_pool_unit d of
                   Some u \<Rightarrow> seqE (invalidate_pool_meta slot) (pool_release u (chunk_count_for len))
                 | None \<Rightarrow> ret ()) (ret Exit) s3
         else seqE (publish_device_pushed_value slot len d) (finish_move wa) s3)"
  proof -
    have "events_update ((\<lambda>es. es @ [L1_Write (evict_ack_sem_addr wa) (semaphore_bytes (evict_issued s + 1))])
        \<circ> (\<lambda>es. es @ [L1_Write (evict_ack_addr wa) (ack_bytes d)])) (evict_issued_update (\<lambda>n. n + 1) s1) = s2"
      using w1 st(2) by (cases s1) (simp add: s2_def)
    then show ?thesis
      using d(1) w1
      by (simp add: write_through_mapped_def slot_def len_def ob bindE_def seqE_def gets_def modify_def
          write_l1_def device_memory_push s3_def [symmetric] ret_def split: option.split)
  qed
  show ?thesis
  proof (cases ?aw)
    case None
    then show ?thesis using run ok3 by auto
  next
    case (Some left)
    show ?thesis
    proof (cases "left \<or> ob_stop_after ob")
      case True
      obtain t where "(case pd_pool_unit d of
          Some u \<Rightarrow> seqE (invalidate_pool_meta slot) (pool_release u (chunk_count_for len))
        | None \<Rightarrow> ret ()) s3 = (Inr (), t)" "host_ok {#} t" "contents t = contents s3"
        using cancel_push [OF ok3(1), of slot] keys m3 by (auto simp: slot_def)
      then show ?thesis using run Some True ok3(2) by (simp add: seqE_def bindE_def ret_def slot_def)
    next
      case False
      obtain t where t: "publish_device_pushed_value slot len d s3 = (Inr (), t)" "host_ok {#} t"
        "contents t = (contents s2)(slot \<mapsto> bytes)" "t = s3\<lparr>host_values := host_values t\<rparr>"
        using publish_ok [OF ok2(1) dest2 ok2(3) _ bl] keys w2(3) by (auto simp: s3_def slot_def)
      have e: "events t = events s2" "seen t = seen s2" "moves_completed t = moves_completed s2"
        using w3 by (subst t(4), simp add: s3_def)+
      have "write_through_mapped wa ob rq s = finish_move wa t"
        using run Some False t(1) by (simp add: seqE_def bindE_def)
      then show ?thesis
        using Some False t(2,3) ok2(2) e w2 by (simp add: finish_move_run slot_def) (auto simp: s2_def)
    qed
  qed
qed


section \<open>One move, and a sequence of moves\<close>

text \<open>The abstract effect of an executed move on the stored values.\<close>

definition move_effect :: "move_request \<Rightarrow> byte list \<Rightarrow> (u32 \<Rightarrow> byte list option) \<Rightarrow> u32 \<Rightarrow> byte list option" where
  "move_effect rq bytes c =
     (if mr_op rq = kMoveOpWriteThrough then c(mr_slot rq \<mapsto> bytes)
      else if mr_op rq = kMoveOpRemoveBacking then c(mr_slot rq := None)
      else c)"

text \<open>
  What a write-through relies on: the device hands over the value's bytes, by writing them to the
  destination it was given or in answer to the reads.
\<close>

definition delivers :: "geometry \<Rightarrow> bool \<Rightarrow> observation \<Rightarrow> byte list \<Rightarrow> bool" where
  "delivers geo noc_ok ob bytes = (let rq = read_move_request (ob_poll ob) in
     mr_op rq = kMoveOpWriteThrough \<longrightarrow>
       length bytes = unat (mr_total_len rq)
       \<and> (if noc_ok then \<forall>d. ob_memory ob d = push_memory d bytes
          else \<forall>dst. length dst = unat (chunk_count_for (mr_total_len rq)) * 4288 \<longrightarrow>
            (\<exists>b img p. read_value_units_into geo (ob_reader ob) dst (mr_value_byte_off rq) (mr_total_len rq)
               = Inr (b, img, p)
             \<and> length img = unat (chunk_count_for (mr_total_len rq)) * 4288
             \<and> take (unat (mr_total_len rq)) img = bytes)))"

definition posted :: "observation \<Rightarrow> u32" where
  "posted ob = read_le32 (ob_poll ob) 0"

definition worker_ok :: "'z worker_state_scheme \<Rightarrow> bool" where
  "worker_ok s = (host_ok {#} s \<and> (pool_mapped s \<longrightarrow> meta_mapped s))"

definition step_post :: "(u32 \<Rightarrow> byte list option) \<Rightarrow> 'z worker_state_scheme \<Rightarrow> fault + outcome \<Rightarrow>
    'z worker_state_scheme \<Rightarrow> bool" where
  "step_post c s r t = (case r of
      Inr Continue \<Rightarrow> host_ok {#} t \<and> contents t = c \<and> seen t = seen s + 1
        \<and> moves_completed t = moves_completed s + 1
    | Inr Exit \<Rightarrow> host_ok {#} t
    | Inr Waiting \<Rightarrow> \<exists>x. host_ok x t
    | Inl e \<Rightarrow> host_ok {#} t \<and> contents t = contents s)"

lemma finish_after:
  assumes "host_ok {#} t" and "contents t = c" and "still t = still s" and "finish_move wa t = (r, u)"
  shows "step_post c s r u"
proof -
  have "r = Inr Continue" and u: "u = t\<lparr>seen := seen t + 1,
      events := events t @ [L1_Write (move_processed_addr wa) (semaphore_bytes (seen t + 1))],
      moves_completed := moves_completed t + 1\<rparr>"
    using assms(4) by (simp_all add: finish_move_run)
  moreover have "host_ok {#} u" "contents u = c" unfolding u using assms(1,2) by simp_all
  moreover have "seen u = seen s + 1" "moves_completed u = moves_completed s + 1"
    unfolding u using still_worker [OF assms(3)] by simp_all
  ultimately show ?thesis by (simp add: step_post_def)
qed

text \<open>The counters of the loop, which only \<open>finish_move\<close> advances.\<close>

definition counters where
  "counters s = (seen s, moves_completed s)"

lemma keeps_counters: "keeps still m \<Longrightarrow> keeps counters m"
  by (erule keeps_weaken) (drule still_worker, simp add: counters_def)

lemma finish_counts:
  "counters u = counters s \<Longrightarrow> wp (finish_move wa)
     (\<lambda>r t. r = Continue \<longrightarrow> seen t = seen s + 1 \<and> moves_completed t = moves_completed s + 1) (\<lambda>_ _. True) u"
  by (simp add: wp_def finish_move_run counters_def)

lemma serve_counts:
  "wp (serve_from_host geo wa ob rq)
     (\<lambda>r t. r = Continue \<longrightarrow> seen t = seen s + 1 \<and> moves_completed t = moves_completed s + 1) (\<lambda>_ _. True) s"
proof -
  have k: "keeps counters (if b then
             seqE (write_l1 (stage_progress_addr wa) (replicate kStageProgressSize 0))
            (seqE (post_commit_req wa creq issued)
                  (stage_host_value_for_stream (mr_slot rq) (mr_total_len rq) (stage_progress_addr wa) ro))
           else
             seqE (stage_value_host_to_device geo (mr_slot rq) (mr_value_byte_off rq) (mr_total_len rq) ro)
                  (post_commit_req wa creq issued) :: ('a worker_state_scheme, unit) io)" for b creq issued ro
    unfolding post_commit_req_def by (intro keeps_counters frame_rules)
  show ?thesis
    unfolding serve_from_host_def Let_def promote_read_off_def wp_bindE wp_seqE wp_gets wp_modify
    by (rule wp_keeps [OF k])
      (auto simp: wp_ret counters_def intro!: finish_counts split: option.split)
qed

lemma serve_step:
  assumes ok: "host_ok {#} s" and r: "serve_from_host geo wa ob rq s = (r, t)"
  shows "step_post (contents s) s r t"
proof -
  have k: "stored t = stored s" using keepsD [OF stored_serve r] .
  then have c: "contents t = contents s" "host_ok {#} t" using ok by (auto simp: stored_def dest: fun_cong)
  show ?thesis
    using c serve_counts [of geo wa ob rq s] r
    by (auto simp: step_post_def wp_def split: outcome.split sum.split)
qed

lemma tiering_step_spec:
  fixes s :: "'z worker_state_scheme"
  assumes ok: "worker_ok s" and new: "posted ob \<noteq> seen s"
    and keys: "mr_slot (read_move_request (ob_poll ob)) < max_keys s"
    and dev: "delivers geo (stage_noc_ok s) ob bytes"
    and r: "tiering_step geo wa ob s = (r, t)"
  shows "step_post (move_effect (read_move_request (ob_poll ob)) bytes (contents s)) s r t"
proof -
  define rq where "rq = read_move_request (ob_poll ob)"
  have h: "host_ok {#} s" "pool_mapped s \<longrightarrow> meta_mapped s" using ok by (simp_all add: worker_ok_def)
  have sl: "mr_slot rq < max_keys s" using keys by (simp add: rq_def)
  have ne: "read_le32 (ob_poll ob) 0 \<noteq> seen s" using new by (simp add: posted_def)
  consider (push) "mr_op rq = kMoveOpWriteThrough" "stage_noc_ok s"
    | (copy) "mr_op rq = kMoveOpWriteThrough" "\<not> stage_noc_ok s"
    | (drop) "mr_op rq = kMoveOpRemoveBacking"
    | (serve) "mr_op rq = kMoveOpDevicePromote \<or> mr_op rq = kMoveOpHostServe"
    | (other) "mr_op rq \<notin> {kMoveOpWriteThrough, kMoveOpRemoveBacking, kMoveOpDevicePromote, kMoveOpHostServe}"
    by blast
  then have "step_post (move_effect rq bytes (contents s)) s r t"
  proof cases
    case push
    then have "length bytes = unat (mr_total_len rq)" "\<And>d. ob_memory ob d = push_memory d bytes"
      using dev by (simp_all add: delivers_def rq_def Let_def)
    note W = write_through_spec [OF h(1) sl h(2) this, of wa]
    have "write_through_mapped wa ob rq s = (r, t)"
      using push r ne by (simp add: tiering_step_def bindE_def gets_def Let_def rq_def [symmetric])
    then show ?thesis
      using W push(1) by (auto simp: step_post_def move_effect_def split: option.splits if_splits)
  next
    case copy
    then have "\<exists>b img p. read_value_units_into geo (ob_reader ob) dst (mr_value_byte_off rq) (mr_total_len rq)
               = Inr (b, img, p) \<and> length img = unat (chunk_count_for (mr_total_len rq)) * 4288
             \<and> take (unat (mr_total_len rq)) img = bytes"
      if "length dst = unat (chunk_count_for (mr_total_len rq)) * 4288" for dst
      using dev that by (simp add: delivers_def rq_def Let_def)
    from stage_device_to_host_ok [OF h(1) _ this, of "mr_slot rq"] sl obtain u where
      u: "stage_value_device_to_host geo (ob_reader ob) (mr_slot rq) (mr_value_byte_off rq) (mr_total_len rq) s
        = (Inr (), u)" "host_ok {#} u" "contents u = (contents s)(mr_slot rq \<mapsto> bytes)" by auto
    have "still u = still s" by (rule keepsD [OF still_ops(11) u(1)])
    moreover have "finish_move wa u = (r, t)"
      using r copy ne u(1)
      by (simp add: tiering_step_def bindE_def seqE_def gets_def Let_def rq_def [symmetric])
    ultimately show ?thesis
      using finish_after [OF u(2) refl] u(3) copy by (simp add: move_effect_def)
  next
    case drop
    obtain u where u: "drop_host_value (mr_slot rq) s = (Inr (), u)" "host_ok {#} u"
      "contents u = (contents s)(mr_slot rq := None)" "outside u = outside s"
      using drop_summary [OF h(1)] by blast
    have "still u = still s" using u(4) by (simp add: outside_def)
    moreover have "finish_move wa u = (r, t)"
      using r drop ne u(1)
      by (simp add: tiering_step_def bindE_def seqE_def gets_def Let_def rq_def [symmetric] move_ops)
    ultimately show ?thesis
      using finish_after [OF u(2) refl] u(3) drop by (simp add: move_effect_def move_ops)
  next
    case serve
    then have "serve_from_host geo wa ob rq s = (r, t)" "move_effect rq bytes (contents s) = contents s"
      using r ne by (auto simp: tiering_step_def bindE_def gets_def Let_def rq_def [symmetric] move_ops move_effect_def)
    then show ?thesis using serve_step [OF h(1)] by simp
  next
    case other
    then have "finish_move wa s = (r, t)" "move_effect rq bytes (contents s) = contents s"
      using r ne by (auto simp: tiering_step_def bindE_def gets_def Let_def rq_def [symmetric] move_effect_def)
    then show ?thesis using finish_after [OF h(1) refl refl] by simp
  qed
  then show ?thesis by (simp add: rq_def)
qed


text \<open>The moves of a sequence of rounds, as the device posted them: a round whose semaphore the worker
  has already seen is idle.\<close>

fun replay_moves :: "u32 \<Rightarrow> (observation \<times> byte list) list \<Rightarrow> (u32 \<Rightarrow> byte list option) \<Rightarrow> u32 \<Rightarrow> byte list option" where
  "replay_moves n [] c = c"
| "replay_moves n ((ob, bytes) # obs) c =
     (if posted ob = n then replay_moves n obs c
      else replay_moves (n + 1) obs (move_effect (read_move_request (ob_poll ob)) bytes c))"

definition well_posed :: "geometry \<Rightarrow> 'z worker_state_scheme \<Rightarrow> observation \<times> byte list \<Rightarrow> bool" where
  "well_posed geo s e = (mr_slot (read_move_request (ob_poll (fst e))) < max_keys s
     \<and> delivers geo (stage_noc_ok s) (fst e) (snd e))"

lemma worker_loop_spec:
  fixes s :: "'z worker_state_scheme"
  assumes "worker_ok s" and "\<forall>e \<in> set obs. well_posed geo s e"
    and "tiering_worker_loop geo wa (map fst obs) s = (r, t)"
  shows "(\<exists>x. host_ok x t) \<and> (r \<noteq> Inr Waiting \<longrightarrow> host_ok {#} t)
    \<and> (r = Inr Continue \<longrightarrow> contents t = replay_moves (seen s) obs (contents s))"
  using assms
proof (induction obs arbitrary: s)
  case Nil
  then show ?case by (auto simp: ret_def worker_ok_def)
next
  case (Cons e obs)
  obtain ob bytes where e: "e = (ob, bytes)" by (cases e)
  obtain q u where q: "tiering_step geo wa ob s = (q, u)" by (cases "tiering_step geo wa ob s")
  have cfg: "config u = config s" using keepsD [OF config_tiering_step q] .
  then have posed: "\<forall>e \<in> set obs. well_posed geo u e"
    using Cons.prems(2) by (simp add: well_posed_def config_def)
  show ?case
  proof (cases "posted ob = seen s")
    case True
    then have "q = Inr Continue" "u = s"
      using q by (simp_all add: tiering_step_def bindE_def gets_def Let_def posted_def ret_def)
    then show ?thesis using Cons True q e by (simp add: bindE_def)
  next
    case False
    have "step_post (move_effect (read_move_request (ob_poll ob)) bytes (contents s)) s q u"
      using Cons.prems(1,2) e False q by (intro tiering_step_spec) (auto simp: well_posed_def)
    then show ?thesis
    proof (cases q)
      case (Inl f)
      then show ?thesis
        using \<open>step_post _ s q u\<close> Cons.prems(3) q e by (auto simp: step_post_def bindE_def)
    next
      case (Inr o1)
      show ?thesis
      proof (cases o1)
        case Continue
        then have S: "host_ok {#} u" "seen u = seen s + 1"
          "contents u = move_effect (read_move_request (ob_poll ob)) bytes (contents s)"
          using \<open>step_post _ s q u\<close> Inr by (auto simp: step_post_def)
        have "worker_ok u" using Cons.prems(1) S(1) cfg by (simp add: worker_ok_def config_def)
        then show ?thesis
          using Cons.IH [OF _ posed] Cons.prems(3) q e Inr Continue S False by (simp add: bindE_def)
      qed (use \<open>step_post _ s q u\<close> Inr Cons.prems(3) q e in \<open>auto simp: step_post_def bindE_def ret_def\<close>)
    qed
  qed
qed

section \<open>The commit request\<close>

text \<open>The little-endian words of the request at their offsets.\<close>

lemma read_le32_memcpy:
  assumes "length dst = n" and "off + 4 \<le> n" and "i + 4 \<le> n"
    and "i = off \<or> off + 4 \<le> i \<or> i + 4 \<le> off"
  shows "read_le32 (memcpy off (le32 x) dst) i = (if i = off then x else read_le32 dst i)"
proof (cases "i = off")
  case True
  have "read_le32 (memcpy off (le32 x) dst) i = read_le32 (le32 x @ []) 0"
    using True assms by (simp add: read_le32_def nth_memcpy numeral_2_eq_2)
  then show ?thesis using True by simp
next
  case False
  then show ?thesis using assms by (auto simp: read_le32_def nth_memcpy)
qed

lemma read_le32_memcpy_other:
  assumes "off + length bs \<le> length dst" and "i + 4 \<le> length dst" and "off + length bs \<le> i \<or> i + 4 \<le> off"
  shows "read_le32 (memcpy off bs dst) i = read_le32 dst i"
  using assms by (auto simp: read_le32_def nth_memcpy)


section \<open>Properties\<close>

definition demo_worker :: worker_state where
  "demo_worker = host_state.extend demo_host (worker_state.fields 4 0 0 0)"

lemma demo_worker_fields [simp]:
  "seen demo_worker = 4" "max_keys demo_worker = 4" "stage_noc_ok demo_worker = True"
  "pool_mapped demo_worker = True" "meta_mapped demo_worker = True" "evict_issued demo_worker = 0"
  "events demo_worker = []"
  by (simp_all add: demo_worker_def demo_host_def host_state.defs worker_state.defs)

lemma demo_worker_ok: "worker_ok demo_worker"
  using demo_host_ok
  by (simp add: worker_ok_def demo_worker_def demo_host_def host_state.defs worker_state.defs host_ok_def
      pool.partitions_def pool_ok_def pool_free_set_def)

definition demo_channel :: worker_addresses where
  "demo_channel = \<lparr>commit_req_sem_addr = 32, commit_req_addr = 48, move_processed_addr = 64,
     stage_progress_addr = 80, evict_ack_sem_addr = 96, evict_ack_addr = 112\<rparr>"

definition demo_poll :: "u32 \<Rightarrow> u32 \<Rightarrow> u32 \<Rightarrow> u32 \<Rightarrow> byte list" where
  "demo_poll sem op slot len = semaphore_bytes sem @ le32 op @ le32 slot @ le32 8576 @ le32 len @ le32 0
     @ replicate 140 0"

lemma read_le32_skip: "read_le32 (xs @ ys) (length xs + i) = read_le32 ys i"
  by (simp add: read_le32_def nth_append)

lemma demo_request:
  "posted \<lparr>ob_poll = demo_poll sem op slot len, ob_wait = w, ob_stop_after = b, ob_memory = m, ob_reader = rd\<rparr> = sem"
  "mr_op (read_move_request (demo_poll sem op slot len)) = op"
  "mr_slot (read_move_request (demo_poll sem op slot len)) = slot"
  "mr_total_len (read_move_request (demo_poll sem op slot len)) = len"
proof -
  have sk: "read_le32 (le32 a @ ys) 4 = read_le32 ys 0" "read_le32 (le32 a @ le32 c @ ys) 8 = read_le32 ys 0"
    "read_le32 (le32 a @ le32 c @ le32 e @ ys) 12 = read_le32 ys 0" for a c e ys
    using read_le32_skip [of "le32 a" ys 0] read_le32_skip [of "le32 a @ le32 c" ys 0]
      read_le32_skip [of "le32 a @ le32 c @ le32 e" ys 0] by simp_all
  show "posted \<lparr>ob_poll = demo_poll sem op slot len, ob_wait = w, ob_stop_after = b, ob_memory = m, ob_reader = rd\<rparr> = sem"
    by (simp add: posted_def demo_poll_def semaphore_bytes_def)
  show "mr_op (read_move_request (demo_poll sem op slot len)) = op"
    "mr_slot (read_move_request (demo_poll sem op slot len)) = slot"
    "mr_total_len (read_move_request (demo_poll sem op slot len)) = len"
    by (simp_all add: read_move_request_def demo_poll_def semaphore_bytes_def kMoveReqSemSize_def Let_def sk)
qed

text \<open>
  C2: the worker refines the map of stored values. Take any sequence of rounds in which posted slots
  are in range and the device delivers the bytes of each write-through, on a well-formed worker.
  If the loop gets through all of them, the store holds exactly what the posted moves say: a
  write-through sets its slot, a removal of backing clears it, a promotion, a host serve and an
  unknown operation change nothing, and an idle round is skipped. If it exits at shutdown or a
  move throws, every pool unit is still free or owned by one value.
\<close>

theorem tiering_loop_refines:
  assumes "worker_ok s" and "\<forall>e \<in> set obs. well_posed geo s e"
    and "tiering_worker_loop geo wa (map fst obs) s = (r, t)"
  shows "(r \<noteq> Inr Waiting \<longrightarrow> host_ok {#} t)
    \<and> (r = Inr Continue \<longrightarrow> contents t = replay_moves (seen s) obs (contents s))"
  using worker_loop_spec [OF assms] by blast

definition demo_wait :: "u32 \<Rightarrow> wait_observation list" where
  "demo_wait n = [\<lparr>wo_stop = False, wo_word = 0, wo_probe = None\<rparr>,
                  \<lparr>wo_stop = False, wo_word = n, wo_probe = None\<rparr>]"

definition demo_push_round :: observation where
  "demo_push_round = \<lparr>ob_poll = demo_poll 5 1 3 3, ob_wait = demo_wait 1, ob_stop_after = False,
     ob_memory = (\<lambda>d. push_memory d [1, 2, 3]), ob_reader = (\<lambda>_ _ _ _. [])\<rparr>"

definition demo_drop_round :: observation where
  "demo_drop_round = \<lparr>ob_poll = demo_poll 6 3 1 0, ob_wait = [], ob_stop_after = False,
     ob_memory = (\<lambda>d p. p), ob_reader = (\<lambda>_ _ _ _. [])\<rparr>"

lemma demo_posed: "well_posed geo demo_worker (demo_push_round, [1, 2, 3])"
  "well_posed geo demo_worker (demo_drop_round, [])"
  by (simp_all add: well_posed_def demo_push_round_def demo_drop_round_def demo_request delivers_def
      word_less_nat_alt move_ops)

lemma demo_rounds_return:
  "\<exists>t. tiering_worker_loop demo_geometry demo_channel [demo_push_round, demo_drop_round] demo_worker
      = (Inr Continue, t)"
proof -
  define rq where "rq = read_move_request (demo_poll 5 1 3 3)"
  have f: "mr_slot rq = 3" "mr_total_len rq = 3" "mr_op rq = kMoveOpWriteThrough"
    by (simp_all add: rq_def demo_request move_ops)
  have ok: "host_ok {#} demo_worker" using demo_worker_ok by (simp add: worker_ok_def)
  have "\<exists>r t. write_through_mapped demo_channel demo_push_round rq demo_worker = (Inr r, t)
    \<and> r = Continue \<and> host_ok {#} t \<and> seen t = 5"
    using write_through_spec [OF ok, of rq "[1, 2, 3]" demo_push_round demo_channel] f
    by (auto simp: word_less_nat_alt demo_push_round_def demo_wait_def)
  then obtain t where t: "write_through_mapped demo_channel demo_push_round rq demo_worker = (Inr Continue, t)"
    "host_ok {#} t" "seen t = 5" by blast
  have sem: "read_le32 (ob_poll demo_push_round) 0 = 5" "read_le32 (ob_poll demo_drop_round) 0 = 6"
    using demo_request(1) [of 5 1 3 3] demo_request(1) [of 6 3 1 0]
    by (simp_all add: posted_def demo_push_round_def demo_drop_round_def)
  have poll: "ob_poll demo_push_round = demo_poll 5 1 3 3" "ob_poll demo_drop_round = demo_poll 6 3 1 0"
    by (simp_all add: demo_push_round_def demo_drop_round_def)
  have one: "tiering_step demo_geometry demo_channel demo_push_round demo_worker = (Inr Continue, t)"
    using t(1) sem f by (simp add: tiering_step_def bindE_def gets_def Let_def poll rq_def [symmetric])
  obtain u where u: "drop_host_value 1 t = (Inr (), u)" using drop_summary [OF t(2), of 1] by blast
  have two: "\<exists>v. tiering_step demo_geometry demo_channel demo_drop_round t = (Inr Continue, v)"
    using u t(3) sem
    by (simp add: tiering_step_def bindE_def seqE_def gets_def Let_def poll demo_request move_ops finish_move_run)
  show ?thesis using one two by (auto simp: bindE_def ret_def)
qed

theorem tiering_loop_refines_witness:
  "\<exists>t. tiering_worker_loop demo_geometry demo_channel [demo_push_round, demo_drop_round] demo_worker
      = (Inr Continue, t) \<and> contents t = (contents demo_worker)(3 \<mapsto> [1, 2, 3], 1 := None)"
proof -
  obtain t where t: "tiering_worker_loop demo_geometry demo_channel [demo_push_round, demo_drop_round] demo_worker
      = (Inr Continue, t)" using demo_rounds_return by blast
  then show ?thesis
    using tiering_loop_refines [OF demo_worker_ok, of "[(demo_push_round, [1, 2, 3]), (demo_drop_round, [])]"
        demo_geometry demo_channel "Inr Continue" t] demo_posed [of demo_geometry]
    by (simp add: demo_push_round_def demo_drop_round_def demo_request move_effect_def move_ops)
qed

text \<open>
  Write-through by device push. With a host mapping, a posted write-through first makes the
  destination visible (the acknowledgement before its semaphore), then waits. If the device's
  completion count is seen before the stop flag, the move completes: the slot holds the pushed
  bytes and the channel is released last. If the stop flag is seen, the worker exits with the
  reserved extent given back, so that no unit is lost at shutdown. While neither is seen, it waits.
\<close>

theorem write_through_exact:
  fixes s :: "'z worker_state_scheme"
  assumes "host_ok {#} s" and "mr_slot rq < max_keys s" and "pool_mapped s \<longrightarrow> meta_mapped s"
    and "length bytes = unat (mr_total_len rq)" and "\<forall>d. ob_memory ob d = push_memory d bytes"
  shows "\<exists>r t. write_through_mapped wa ob rq s = (Inr r, t)
    \<and> (case await (evict_issued s + 1) (ob_wait ob) of
         None \<Rightarrow> r = Waiting \<and> (\<exists>x. host_ok x t)
       | Some left \<Rightarrow>
           if left \<or> ob_stop_after ob
           then r = Exit \<and> host_ok {#} t \<and> contents t = (contents s)(mr_slot rq := None)
           else r = Continue \<and> host_ok {#} t \<and> contents t = (contents s)(mr_slot rq \<mapsto> bytes)
             \<and> seen t = seen s + 1 \<and> moves_completed t = moves_completed s + 1
             \<and> (\<exists>d. events t = events s @ [L1_Write (evict_ack_addr wa) (ack_bytes d),
                  L1_Write (evict_ack_sem_addr wa) (semaphore_bytes (evict_issued s + 1)),
                  L1_Write (move_processed_addr wa) (semaphore_bytes (seen s + 1))]))"
  using write_through_spec [OF assms(1-4), of ob wa] assms(5) by blast

theorem write_through_exact_witness:
  "\<exists>t. write_through_mapped demo_channel demo_push_round (read_move_request (demo_poll 5 1 3 3)) demo_worker
      = (Inr Continue, t) \<and> contents t 3 = Some [1, 2, 3]"
proof -
  have "host_ok {#} demo_worker" using demo_worker_ok by (simp add: worker_ok_def)
  from write_through_exact [OF this, of "read_move_request (demo_poll 5 1 3 3)" "[1, 2, 3]" demo_push_round demo_channel]
  show ?thesis
    by (auto simp: demo_request word_less_nat_alt demo_push_round_def demo_wait_def)
qed

text \<open>
  the commit request is well formed. The slot written for the server core carries, at their
  offsets, the directory slot, the value offset, the length, the full key length and the offset
  to read the value from, and, in between, the key cut to 128 bytes.
\<close>

theorem commit_request_layout:
  assumes "148 \<le> length (mr_bytes rq)"
  shows "let creq = commit_request_bytes rq ro in length creq = 160 \<and> read_le32 creq 0 = mr_slot rq \<and> read_le32 creq 4 = mr_value_byte_off rq
    \<and> read_le32 creq 8 = mr_total_len rq \<and> read_le32 creq 12 = mr_key_len rq \<and> read_le32 creq 144 = ro
    \<and> take (min (unat (mr_key_len rq)) 128) (drop 16 creq)
        = take (min (unat (mr_key_len rq)) 128) (drop 20 (mr_bytes rq))"
proof -
  define creq where "creq = commit_request_bytes rq ro"
  define n where "n = min (unat (mr_key_len rq)) 128"
  have n: "unat (min (mr_key_len rq) kMaxPutKeyBytes) = n" "n \<le> 128"
    by (simp_all add: n_def kMaxPutKeyBytes_def min_def word_le_nat_alt)
  define key where "key = take n (drop 20 (mr_bytes rq))"
  have key: "length key = n" using assms(1) n(2) by (simp add: key_def)
  define h where "h = memcpy 12 (le32 (mr_key_len rq)) (memcpy 8 (le32 (mr_total_len rq))
      (memcpy 4 (le32 (mr_value_byte_off rq)) (memcpy 0 (le32 (mr_slot rq)) (replicate 160 0))))"
  have lh: "length h = 160" by (simp add: h_def)
  have H: "read_le32 h 0 = mr_slot rq" "read_le32 h 4 = mr_value_byte_off rq" "read_le32 h 8 = mr_total_len rq"
    "read_le32 h 12 = mr_key_len rq"
    by (simp_all add: h_def read_le32_memcpy [where n = 160])
  have c: "creq = memcpy 144 (le32 ro) (memcpy 16 key h)"
    by (simp add: creq_def commit_request_bytes_def Let_def n(1) key_def h_def kCommitReqStageReadOffByteOffset_def
        kCommitReqHeaderBytes_def kMoveReqHeaderBytes_def kCommitReqSlotBytes_def)
  have lk: "length (memcpy 16 key h) = 160" using lh key n(2) by simp
  have "take n (drop 16 creq) = key"
  proof (rule nth_equalityI)
    fix i assume "i < length (take n (drop 16 creq))"
    then have i: "i < n" by simp
    then show "take n (drop 16 creq) ! i = key ! i"
      using n(2) lk lh key by (simp add: c nth_memcpy)
  qed (use lk key n(2) c in simp)
  then show ?thesis
    using lk lh key n(2) H
    unfolding Let_def creq_def [symmetric]
    by (simp add: c read_le32_memcpy [where n = 160] read_le32_memcpy_other n_def [symmetric] key_def [symmetric])
qed

theorem commit_request_layout_witness:
  "read_le32 (commit_request_bytes (read_move_request (demo_poll 5 2 3 77)) 65536) 8 = 77"
proof -
  have "148 \<le> length (mr_bytes (read_move_request (demo_poll 5 2 3 77)))"
    by (simp add: read_move_request_def demo_poll_def semaphore_bytes_def kMoveReqSemSize_def Let_def)
  from commit_request_layout [OF this, of 65536] show ?thesis by (simp add: demo_request Let_def)
qed

end
