(* ===== verification/External_IO.thy ===== *)
theory External_IO
  imports Tiering_Worker
begin

text \<open>
  The host request interface of the server runtime, by which the manager (and not the runtime's own
  worker) owns the host values: \<^verbatim>\<open>server_runtime/server_device_runtime_io.cpp\<close>. A request of the
  device is polled, its value received or supplied, and completed; received values may stay in
  the runtime's pool, behind a lease.

  A lease object is an entry of \<open>leases\<close> under a number that stands for its address; its owner flag
  is \<^verbatim>\<open>owner_ == this\<close>. What the device answers is an observation, as for the tiering worker, with
  the stop flag read as \<^verbatim>\<open>external_host_io_cancelled_\<close>; an operation that is still in its waiting
  loop returns \<open>Blocked\<close>. Clocks are left out.
\<close>

section \<open>Requests\<close>

datatype request_kind = WriteThrough | RemoveBacking | PromoteToDevice | ServeGet

definition host_request_kind :: "u32 \<Rightarrow> fault + request_kind" where
  "host_request_kind op =
     (if op = kMoveOpWriteThrough then Inr WriteThrough
      else if op = kMoveOpRemoveBacking then Inr RemoveBacking
      else if op = kMoveOpDevicePromote then Inr PromoteToDevice
      else if op = kMoveOpHostServe then Inr ServeGet
      else Inl (Thrown ''ServerRuntimeCore host channel returned unsupported operation''))"

datatype transfer_phase = Pending | TransferInProgress | TransferComplete

record external_request =
  xr_active :: bool
  xr_phase :: transfer_phase
  xr_sequence :: u32
  xr_op :: u32
  xr_slot :: u32
  xr_value_byte_off :: u32
  xr_total_len :: u32
  xr_key_len :: u32
  xr_key :: "byte list"

definition no_request :: external_request where
  "no_request = \<lparr>xr_active = False, xr_phase = Pending, xr_sequence = 0, xr_op = 0, xr_slot = 0,
     xr_value_byte_off = 0, xr_total_len = 0, xr_key_len = 0, xr_key = []\<rparr>"

record host_request =
  rq_sequence :: u32
  rq_kind :: request_kind
  rq_slot :: u32
  rq_value_len :: u32
  rq_device_value_offset :: u32

record host_lease =
  hl_owner :: bool
  hl_slot :: u32
  hl_pool_unit :: u32
  hl_pool_units :: u32
  hl_read_offset :: u32
  hl_generation :: u32
  hl_value_len :: u32

datatype core_lifecycle = Core_Constructing | Core_Ready | Core_Closing | Core_Quarantined | Core_Closed

record external_state = host_state +
  external_policy :: bool
  core_lifecycle :: core_lifecycle
  server_workload_running :: bool
  max_key_len :: u32
  max_value_bytes :: u32
  value_heap_bytes :: u32
  external_host_request :: external_request
  external_seen :: u32
  external_commit_issued :: u32
  external_evict_issued :: u32
  external_host_io_cancelled :: bool
  external_host_leases :: "nat list"
  external_pool_units_in_use :: u32
  leases :: "(nat \<times> host_lease) list"
  next_lease :: nat

definition validate_external_request :: "host_request \<Rightarrow> ('z external_state_scheme, unit) io" where
  "validate_external_request request =
     bindE (gets (\<lambda>s. (external_policy s, external_host_request s))) (\<lambda>(external, active).
     seqE (check external (Fatal ''host request SPI requires external host policy''))
    (seqE (check (xr_active active) (Fatal ''ServerRuntimeCore host request is no longer active''))
    (seqE (check (rq_sequence request = xr_sequence active)
            (Fatal ''ServerRuntimeCore host request sequence differs from the active one''))
    (seqE (check (rq_slot request = xr_slot active \<and> rq_value_len request = xr_total_len active
               \<and> rq_device_value_offset request = xr_value_byte_off active)
            (Fatal ''ServerRuntimeCore host request fields do not match the active device request''))
    (bindE (lift_sum (host_request_kind (xr_op active))) (\<lambda>kind.
     check (rq_kind request = kind)
       (Fatal ''ServerRuntimeCore host request kind does not match the active device request'')))))))"

section \<open>Polling\<close>

text \<open>The value fields of a request that carries a value.\<close>

definition check_value_request ::
  "request_kind \<Rightarrow> external_request \<Rightarrow> ('z external_state_scheme, unit) io" where
  "check_value_request kind decoded =
     bindE (gets (\<lambda>s. (max_value_bytes s, value_heap_bytes s))) (\<lambda>(max_value, heap_bytes).
     seqE (check (0 < xr_total_len decoded \<and> xr_total_len decoded \<le> max_value)
            (Fatal ''ServerRuntimeCore host request value length is out of range''))
    (seqE (check (if kind = PromoteToDevice then 0 < xr_key_len decoded else xr_key_len decoded = 0)
            (Fatal ''ServerRuntimeCore host request carries an invalid key length''))
    (let value_end = (ucast (xr_value_byte_off decoded) :: u64)
                     + ucast (chunk_aligned_value_bytes (xr_total_len decoded))
     in check ((kind = ServeGet \<and> xr_value_byte_off decoded = 0)
             \<or> (xr_value_byte_off decoded mod kMaxChunkValueBytes = 0 \<and> value_end \<le> ucast heap_bytes))
          (Fatal ''ServerRuntimeCore host request device value range is outside the heap''))))"

text \<open>The decoding of a posted slot, with all its checks.\<close>

definition decode_external_request ::
  "byte list \<Rightarrow> ('z external_state_scheme, request_kind \<times> external_request) io" where
  "decode_external_request poll_buffer =
     (let rq = read_move_request poll_buffer;
          decoded = \<lparr>xr_active = True, xr_phase = Pending, xr_sequence = read_le32 poll_buffer 0,
            xr_op = mr_op rq, xr_slot = mr_slot rq, xr_value_byte_off = mr_value_byte_off rq,
            xr_total_len = mr_total_len rq, xr_key_len = mr_key_len rq, xr_key = []\<rparr> in
      bindE (lift_sum (host_request_kind (xr_op decoded))) (\<lambda>kind.
      bindE (gets (\<lambda>s. (max_keys s, max_key_len s))) (\<lambda>(keys, key_max).
      seqE (check (xr_slot decoded < keys)
             (Fatal ''ServerRuntimeCore host request slot is out of range''))
     (seqE (check (xr_key_len decoded \<le> key_max)
             (Fatal ''ServerRuntimeCore host request key length exceeds configured maximum''))
     (seqE (if kind = RemoveBacking then
              check (xr_value_byte_off decoded = 0 \<and> xr_total_len decoded = 0 \<and> xr_key_len decoded = 0)
                (Fatal ''remove-backing request must not carry a value offset, length, or key'')
            else check_value_request kind decoded)
           (ret (kind, decoded\<lparr>xr_key :=
              take (unat (xr_key_len decoded)) (drop kMoveReqHeaderBytes (mr_bytes rq))\<rparr>)))))))"

definition poll_external_host_request ::
  "geometry \<Rightarrow> byte list \<Rightarrow> ('z external_state_scheme, host_request option) io" where
  "poll_external_host_request geo poll_buffer =
     bindE (gets (\<lambda>s. s)) (\<lambda>s.
     seqE (check (external_policy s) (Fatal ''host request SPI requires external host policy''))
    (seqE (check (core_lifecycle s = Core_Ready \<or> core_lifecycle s = Core_Closing)
            (Fatal ''host request poll requires a running or closing ServerRuntimeCore''))
    (seqE (check (\<not> xr_active (external_host_request s))
            (Fatal ''complete the active ServerRuntimeCore host request before polling again''))
    (if external_host_io_cancelled s then ret None
     else if \<not> server_workload_running s then ret None
     else
       seqE (check (device_found geo) (Fatal ''ServerRuntimeCore host request poll has no device at (0,0)''))
      (let posted = read_le32 poll_buffer 0 in
       if posted = external_seen s then ret None
       else
         seqE (check (posted = external_seen s + 1)
                (Fatal ''ServerRuntimeCore host request sequence advanced before completion''))
        (bindE (decode_external_request poll_buffer) (\<lambda>(kind, decoded).
         seqE (modify (external_host_request_update (\<lambda>_. decoded)))
              (ret (Some \<lparr>rq_sequence = posted, rq_kind = kind, rq_slot = xr_slot decoded,
                 rq_value_len = xr_total_len decoded,
                 rq_device_value_offset = xr_value_byte_off decoded\<rparr>)))))))))"

section \<open>Receiving a value\<close>

datatype 'a reply = Blocked | Replied 'a

record received_value =
  rv_lease :: "nat option"
  rv_bytes :: "byte list"
  rv_used_device_push :: bool
  rv_read_metrics :: value_read_profile

definition set_phase :: "transfer_phase \<Rightarrow> ('z external_state_scheme, unit) io" where
  "set_phase ph = modify (external_host_request_update (xr_phase_update (\<lambda>_. ph)))"

text \<open>
  The two closures of \<^verbatim>\<open>receive_external_value\<close>: giving a reserved extent back, and turning it into a
  lease.
\<close>

definition release_reserved_pool :: "u32 \<Rightarrow> u32 option \<Rightarrow> u32 \<Rightarrow> ('z external_state_scheme, unit) io" where
  "release_reserved_pool slot pool_unit units =
     (case pool_unit of
        None \<Rightarrow> ret ()
      | Some u \<Rightarrow> seqE (invalidate_pool_meta slot) (pool_release u units))"

definition publish_lease ::
  "host_request \<Rightarrow> u32 \<Rightarrow> u32 \<Rightarrow> u32 \<Rightarrow> u32 \<Rightarrow> ('z external_state_scheme, nat) io" where
  "publish_lease request u units read_offset generation =
     bindE (gets next_lease) (\<lambda>id.
     seqE (modify (leases_update (\<lambda>ls. (id, \<lparr>hl_owner = True, hl_slot = rq_slot request,
             hl_pool_unit = u, hl_pool_units = units, hl_read_offset = read_offset,
             hl_generation = generation, hl_value_len = rq_value_len request\<rparr>) # ls)))
    (seqE (modify (next_lease_update (\<lambda>n. n + 1)))
    (seqE (modify (external_host_leases_update (\<lambda>ids. id # ids)))
    (seqE (modify (external_pool_units_in_use_update (\<lambda>n. n + units)))
          (ret id)))))"

text \<open>The mapped path: the device pushes the value into the reserved extent or the staging window.\<close>

definition reserve_receive :: "host_request \<Rightarrow> bool \<Rightarrow> ('z external_state_scheme, push_destination) io" where
  "reserve_receive request prefer_mapped_lease =
     (let units = chunk_count_for (rq_value_len request) in
      bindE (if prefer_mapped_lease then pool_alloc units else ret None) (\<lambda>pool_unit. case pool_unit of
        None \<Rightarrow> ret \<lparr>pd_pool_unit = None, pd_read_off = 0, pd_generation = 0\<rparr>
      | Some u \<Rightarrow>
          bindE (gets (\<lambda>s. pool_read_off s + u * kMaxChunkValueBytes)) (\<lambda>read_offset.
          bindE (publish_pool_meta (rq_slot request) read_offset (rq_value_len request)) (\<lambda>generation.
          ret \<lparr>pd_pool_unit = Some u, pd_read_off = read_offset, pd_generation = generation\<rparr>))))"

definition receive_pushed :: "geometry \<Rightarrow> worker_addresses \<Rightarrow> observation \<Rightarrow> host_request \<Rightarrow> bool \<Rightarrow>
    ('z external_state_scheme, received_value reply) io" where
  "receive_pushed geo wa ob request prefer_mapped_lease =
     (let units = chunk_count_for (rq_value_len request) in
      bindE (reserve_receive request prefer_mapped_lease) (\<lambda>destination.
      seqE (check (device_found geo) (Fatal ''write-through receive has no device at (0,0)''))
     (seqE (modify (external_evict_issued_update (\<lambda>n. n + 1)))
     (bindE (gets external_evict_issued) (\<lambda>issued.
      seqE (write_l1 (evict_ack_addr wa) (ack_bytes destination))
     (seqE (write_l1 (evict_ack_sem_addr wa) (semaphore_bytes issued))
     (seqE (device_memory (ob_memory ob destination))
     (case await issued (ob_wait ob) of
        None \<Rightarrow> ret Blocked
      | Some left \<Rightarrow>
          if left \<or> ob_stop_after ob then
            seqE (release_reserved_pool (rq_slot request) (pd_pool_unit destination) units)
                 (throw (Thrown ''ServerRuntimeCore host write-through receive was cancelled''))
          else
            bindE (case pd_pool_unit destination of
                Some u \<Rightarrow> bindE (publish_lease request u units (pd_read_off destination)
                                   (pd_generation destination)) (\<lambda>id.
                            ret \<lparr>rv_lease = Some id, rv_bytes = [], rv_used_device_push = True,
                                 rv_read_metrics = no_reads\<rparr>)
              | None \<Rightarrow> bindE (gets (\<lambda>s. mem_read (stage_mem s) 0 (unat (rq_value_len request)))) (\<lambda>bytes.
                            ret \<lparr>rv_lease = None, rv_bytes = bytes, rv_used_device_push = True,
                                 rv_read_metrics = no_reads\<rparr>)) (\<lambda>result.
            seqE (set_phase TransferComplete) (ret (Replied result)))))))))))"

text \<open>The fallback: the host reads the value, into a pool extent or a vector.\<close>

definition receive_read :: "geometry \<Rightarrow> observation \<Rightarrow> host_request \<Rightarrow> bool \<Rightarrow>
    ('z external_state_scheme, received_value reply) io" where
  "receive_read geo ob request prefer_mapped_lease =
     (let units = chunk_count_for (rq_value_len request);
          whole = unat units * unat kMaxChunkValueBytes in
      bindE (if prefer_mapped_lease then pool_alloc units else ret None) (\<lambda>pool_unit.
      bindE (case pool_unit of
          Some u \<Rightarrow>
            bindE (gets (\<lambda>s. mem_read (pool_mem s) (unat u * unat kMaxChunkValueBytes) whole)) (\<lambda>dst.
            bindE (lift_sum (read_value_units_into geo (ob_reader ob) dst (rq_device_value_offset request)
                               (rq_value_len request))) (\<lambda>(_, image, metrics).
            seqE (modify (pool_mem_update (mem_write (unat u * unat kMaxChunkValueBytes) image)))
           (bindE (gets meta_mapped) (\<lambda>mapped.
            bindE (if mapped then
                     bindE (gets (\<lambda>s. pool_read_off s + u * kMaxChunkValueBytes)) (\<lambda>read_offset.
                     bindE (publish_pool_meta (rq_slot request) read_offset (rq_value_len request)) (\<lambda>generation.
                     ret (read_offset, generation)))
                   else ret (0, 0)) (\<lambda>(read_offset, generation).
            bindE (publish_lease request u units read_offset generation) (\<lambda>id.
            ret \<lparr>rv_lease = Some id, rv_bytes = [], rv_used_device_push = False, rv_read_metrics = metrics\<rparr>))))))
        | None \<Rightarrow>
            bindE (lift_sum (read_value_units_into geo (ob_reader ob) (replicate whole 0)
                               (rq_device_value_offset request) (rq_value_len request))) (\<lambda>(_, image, metrics).
            ret \<lparr>rv_lease = None, rv_bytes = take (unat (rq_value_len request)) image,
                 rv_used_device_push = False, rv_read_metrics = metrics\<rparr>)) (\<lambda>result.
      seqE (set_phase TransferComplete) (ret (Replied result)))))"

definition receive_external_value :: "geometry \<Rightarrow> worker_addresses \<Rightarrow> observation \<Rightarrow> host_request \<Rightarrow> bool \<Rightarrow>
    ('z external_state_scheme, received_value reply) io" where
  "receive_external_value geo wa ob request prefer_mapped_lease =
     seqE (validate_external_request request)
    (seqE (check (rq_kind request = WriteThrough)
            (Fatal ''receive_external_value requires a write-through request''))
    (bindE (gets (\<lambda>s. (xr_phase (external_host_request s), stage_noc_ok s))) (\<lambda>(phase, noc_ok).
     seqE (check (phase = Pending) (Fatal ''write-through value transfer has already started''))
    (seqE (set_phase TransferInProgress)
          (if noc_ok then receive_pushed geo wa ob request prefer_mapped_lease
           else receive_read geo ob request prefer_mapped_lease)))))"

section \<open>Supplying a value\<close>

text \<open>The request that the device commits: the header words, the key as polled and the read offset.\<close>

definition external_commit_request :: "host_request \<Rightarrow> external_request \<Rightarrow> u32 \<Rightarrow> byte list" where
  "external_commit_request request active stage_read_offset =
     memcpy kCommitReqStageReadOffByteOffset (le32 stage_read_offset)
    (memcpy kCommitReqHeaderBytes (xr_key active)
    (memcpy 12 (le32 (xr_key_len active))
    (memcpy 8 (le32 (rq_value_len request))
    (memcpy 4 (le32 (rq_device_value_offset request))
    (memcpy 0 (le32 (rq_slot request)) (replicate kCommitReqSlotBytes 0))))))"

text \<open>The block loop of a served value that comes from the manager's heap.\<close>

fun supply_blocks :: "nat \<Rightarrow> byte list \<Rightarrow> u32 \<Rightarrow> u32 \<Rightarrow> u32 \<Rightarrow> u32 \<Rightarrow> ('z host_state_scheme, unit) io" where
  "supply_blocks 0 heap_bytes value_len num_chunks progress_addr base = ret ()"
| "supply_blocks (Suc fuel) heap_bytes value_len num_chunks progress_addr base =
     (if base < num_chunks then
        (let block_chunks = min kStageBlockChunks (num_chunks - base);
             offset = base * kMaxChunkValueBytes;
             bytes = min (block_chunks * kMaxChunkValueBytes) (value_len - offset)
         in seqE (copy_to_stage (unat offset) (take (unat bytes) (drop (unat offset) heap_bytes)))
           (seqE (publish_stage_progress progress_addr (base + block_chunks))
                 (supply_blocks fuel heap_bytes value_len num_chunks progress_addr
                    (base + kStageBlockChunks))))
      else ret ())"

definition supply_stream :: "host_request \<Rightarrow> host_lease option \<Rightarrow> byte list \<Rightarrow> u32 \<Rightarrow>
    ('z host_state_scheme, unit) io" where
  "supply_stream request lease heap_bytes progress_addr =
     (let num_chunks = chunk_count_for (rq_value_len request) in
      if lease \<noteq> None then publish_stage_progress progress_addr num_chunks
      else bindE (gets stage_bytes) (\<lambda>room.
           seqE (check (rq_value_len request \<le> room)
                  (Fatal ''host-serve value exceeds the staging window''))
                (supply_blocks (unat num_chunks) heap_bytes (rq_value_len request) num_chunks
                   progress_addr 0)))"

definition supply_staged :: "geometry \<Rightarrow> host_request \<Rightarrow> host_lease option \<Rightarrow> byte list \<Rightarrow>
    ('z host_state_scheme, unit) io" where
  "supply_staged geo request lease heap_bytes =
     bindE (gets stage_noc_ok) (\<lambda>noc_ok.
     if noc_ok then
       (if lease = None then
          bindE (gets stage_bytes) (\<lambda>room.
          seqE (check (rq_value_len request \<le> room)
                 (Fatal ''promote value exceeds the staging window''))
               (copy_to_stage 0 (take (unat (rq_value_len request)) heap_bytes)))
        else ret ())
     else
       seqE (check (lease = None) (Fatal ''mapped host lease requires a usable NoC host mapping''))
      (seqE (check (value_buffer_found geo) (Fatal ''value MeshBuffer has no device buffer at (0,0)''))
            (modify (heap_dram_update (write_value_units geo (rq_device_value_offset request) heap_bytes
               (rq_value_len request))))))"

definition check_supply_source :: "host_request \<Rightarrow> host_lease option \<Rightarrow> byte list \<Rightarrow>
    ('z external_state_scheme, unit) io" where
  "check_supply_source request lease heap_bytes =
     seqE (check ((lease \<noteq> None) \<noteq> (heap_bytes \<noteq> []))
            (Fatal ''supply_external_value requires exactly one mapped lease or heap byte source''))
    (case lease of
       Some l \<Rightarrow>
         seqE (check (hl_owner l)
                (Fatal ''mapped host lease belongs to a different ServerRuntimeCore runtime''))
              (check (hl_value_len l = rq_value_len request)
                (Fatal ''mapped host lease length differs from the request length''))
     | None \<Rightarrow> check (length heap_bytes = unat (rq_value_len request))
                (Fatal ''heap host backing length differs from the request length''))"

text \<open>The wait for the device's completion count.\<close>

definition finish_supply :: "observation \<Rightarrow> u32 \<Rightarrow> ('z external_state_scheme, unit reply) io" where
  "finish_supply ob issued =
     (case await issued (ob_wait ob) of
        None \<Rightarrow> ret Blocked
      | Some left \<Rightarrow>
          if left \<or> ob_stop_after ob
          then throw (Thrown ''ServerRuntimeCore host value supply was cancelled'')
          else seqE (set_phase TransferComplete) (ret (Replied ())))"

definition supply_external_value :: "geometry \<Rightarrow> worker_addresses \<Rightarrow> observation \<Rightarrow> host_request \<Rightarrow>
    host_lease option \<Rightarrow> byte list \<Rightarrow> ('z external_state_scheme, unit reply) io" where
  "supply_external_value geo wa ob request lease heap_bytes =
     seqE (validate_external_request request)
    (seqE (check (rq_kind request = PromoteToDevice \<or> rq_kind request = ServeGet)
            (Fatal ''supply_external_value requires a promote or host-serve request''))
    (bindE (gets (\<lambda>s. (external_host_request s, stage_noc_ok s))) (\<lambda>(active, noc_ok).
     seqE (check (xr_phase active = Pending) (Fatal ''host value supply has already started''))
    (seqE (check_supply_source request lease heap_bytes)
    (seqE (set_phase TransferInProgress)
    (seqE (check (device_found geo) (Fatal ''host value supply has no device at (0,0)''))
    (let fused = (rq_kind request = ServeGet \<and> noc_ok);
         stage_read_offset = (case lease of None \<Rightarrow> 0 | Some l \<Rightarrow> hl_read_offset l);
         creq = external_commit_request request active stage_read_offset in
     seqE (modify (external_commit_issued_update (\<lambda>n. n + 1)))
    (bindE (gets external_commit_issued) (\<lambda>issued.
     seqE (if fused then
             seqE (write_l1 (stage_progress_addr wa) (replicate kStageProgressSize 0))
            (seqE (post_commit_req wa creq issued)
                  (supply_stream request lease heap_bytes (stage_progress_addr wa)))
           else
             seqE (supply_staged geo request lease heap_bytes)
                  (post_commit_req wa creq issued))
          (finish_supply ob issued))))))))))"

section \<open>Completing, cancelling, and the leases\<close>

definition complete_external_host_request :: "geometry \<Rightarrow> worker_addresses \<Rightarrow> host_request \<Rightarrow>
    ('z external_state_scheme, unit) io" where
  "complete_external_host_request geo wa request =
     seqE (validate_external_request request)
    (bindE (gets (\<lambda>s. xr_phase (external_host_request s))) (\<lambda>phase.
     let remove_without_transfer = (rq_kind request = RemoveBacking \<and> phase = Pending) in
     seqE (check (remove_without_transfer \<or> phase = TransferComplete)
            (Fatal ''ServerRuntimeCore host request cannot complete before its value transfer finishes''))
    (seqE (check (device_found geo) (Fatal ''host request completion has no device at (0,0)''))
    (seqE (write_l1 (move_processed_addr wa) (semaphore_bytes (rq_sequence request)))
    (seqE (modify (external_seen_update (\<lambda>_. rq_sequence request)))
          (modify (external_host_request_update (\<lambda>_. no_request))))))))"

definition cancel_external_host_io :: "('z external_state_scheme, unit) io" where
  "cancel_external_host_io = modify (external_host_io_cancelled_update (\<lambda>_. True))"

definition disown :: "nat \<Rightarrow> (nat \<times> host_lease) list \<Rightarrow> (nat \<times> host_lease) list" where
  "disown i ls = map (\<lambda>(j, l). (j, if j = i then l\<lparr>hl_owner := False\<rparr> else l)) ls"

definition release_external_host_lease :: "nat \<Rightarrow> ('z external_state_scheme, unit) io" where
  "release_external_host_lease i =
     bindE (gets (\<lambda>s. map_of (leases s) i)) (\<lambda>it. case it of
       None \<Rightarrow> ret ()
     | Some lease \<Rightarrow>
         if \<not> hl_owner lease then ret ()
         else
           bindE (gets (\<lambda>s. i \<in> set (external_host_leases s))) (\<lambda>tracked.
           seqE (modify (leases_update (disown i)))
          (seqE (whenE tracked
                  (seqE (modify (external_host_leases_update (removeAll i)))
                        (modify (external_pool_units_in_use_update (\<lambda>n.
                           if hl_pool_units lease \<le> n then n - hl_pool_units lease else 0)))))
                (catchE (seqE (invalidate_pool_meta_if_generation (hl_slot lease) (hl_generation lease))
                              (pool_release (hl_pool_unit lease) (hl_pool_units lease)))
                        (\<lambda>_. ret ())))))"

text \<open>The destructor of a lease: the object is gone afterwards.\<close>

definition destroy_lease :: "nat \<Rightarrow> ('z external_state_scheme, unit) io" where
  "destroy_lease i =
     bindE (gets (\<lambda>s. map_of (leases s) i)) (\<lambda>it. case it of
       None \<Rightarrow> ret ()
     | Some lease \<Rightarrow>
         seqE (whenE (hl_owner lease) (release_external_host_lease i))
              (modify (leases_update (AList.delete i))))"

definition detach_external_host_leases :: "('z external_state_scheme, unit) io" where
  "detach_external_host_leases =
     seqE (modify (\<lambda>s. s\<lparr>leases := fold disown (external_host_leases s) (leases s)\<rparr>))
    (seqE (modify (external_host_leases_update (\<lambda>_. [])))
          (modify (external_pool_units_in_use_update (\<lambda>_. 0))))"

end
