(* ===== verification/External_Leases.thy ===== *)
theory External_Leases
  imports External_IO
begin

text \<open>
  The leases of the runtime's pool: what \<^verbatim>\<open>receive_external_value\<close>, \<^verbatim>\<open>release_external_host_lease\<close>
  and \<^verbatim>\<open>detach_external_host_leases\<close> of \<open>External_IO\<close> promise to the manager. The abstract
  view is \<open>leased\<close>, the bytes behind each live lease; the invariant is \<open>leases_ok\<close>, by which
  the tracked leases and the free list partition the pool.
\<close>

section \<open>The abstract view and the invariant\<close>

definition lease_bytes :: "'z host_state_scheme \<Rightarrow> host_lease \<Rightarrow> byte list" where
  "lease_bytes s l = mem_read (pool_mem s) (unat (hl_pool_unit l) * 4288) (unat (hl_value_len l))"

definition leased :: "'z external_state_scheme \<Rightarrow> nat \<Rightarrow> byte list option" where
  "leased s i = (if i \<in> set (external_host_leases s)
     then map_option (lease_bytes s) (map_of (leases s) i) else None)"

definition lease_extent :: "(nat \<times> host_lease) list \<Rightarrow> nat \<Rightarrow> (u32 \<times> u32) multiset" where
  "lease_extent ls i = (case map_of ls i of None \<Rightarrow> {#} | Some l \<Rightarrow> {#(hl_pool_unit l, hl_pool_units l)#})"

definition lease_extents :: "nat list \<Rightarrow> (nat \<times> host_lease) list \<Rightarrow> (u32 \<times> u32) multiset" where
  "lease_extents ids ls = (\<Sum>i \<leftarrow> ids. lease_extent ls i)"

definition lease_ok :: "bool \<Rightarrow> u32 \<Rightarrow> host_lease \<Rightarrow> bool" where
  "lease_ok mapped keys l = (hl_owner l \<and> hl_pool_units l = chunk_count_for (hl_value_len l)
     \<and> hl_pool_units l \<noteq> 0 \<and> (mapped \<longrightarrow> hl_slot l < keys))"

definition leases_ok :: "(u32 \<times> u32) multiset \<Rightarrow> 'z external_state_scheme \<Rightarrow> bool" where
  "leases_ok extra s =
     (host_ok (lease_extents (external_host_leases s) (leases s) + extra) s
      \<and> distinct (external_host_leases s)
      \<and> (\<forall>i \<in> set (external_host_leases s). \<exists>l. map_of (leases s) i = Some l
           \<and> lease_ok (meta_mapped s) (max_keys s) l)
      \<and> (\<forall>i l. map_of (leases s) i = Some l \<longrightarrow> i < next_lease s
           \<and> (hl_owner l \<longrightarrow> i \<in> set (external_host_leases s)))
      \<and> unat (external_pool_units_in_use s)
          = (\<Sum>e \<in># lease_extents (external_host_leases s) (leases s). unat (snd e)))"

lemma lease_extents_simps [simp]:
  "lease_extents [] ls = {#}" "lease_extents (i # ids) ls = lease_extent ls i + lease_extents ids ls"
  by (simp_all add: lease_extents_def)

lemma lease_extents_cong:
  "(\<And>i. i \<in> set ids \<Longrightarrow> lease_extent ls i = lease_extent ls' i) \<Longrightarrow> lease_extents ids ls = lease_extents ids ls'"
  by (induction ids) simp_all

lemma lease_extents_remove:
  "distinct ids \<Longrightarrow> i \<in> set ids \<Longrightarrow> lease_extents ids ls = lease_extent ls i + lease_extents (removeAll i ids) ls"
proof (induction ids)
  case (Cons j ids)
  then show ?case by (cases "i = j") (auto simp: add.left_commute)
qed simp

lemma lease_extent_mem: "i \<in> set ids \<Longrightarrow> map_of ls i = Some l \<Longrightarrow>
    (hl_pool_unit l, hl_pool_units l) \<in># lease_extents ids ls"
  by (induction ids) (auto simp: lease_extent_def)

lemma map_of_disown:
  "map_of (disown i ls) j = (if j = i then map_option (\<lambda>l. l\<lparr>hl_owner := False\<rparr>) (map_of ls j) else map_of ls j)"
  by (induction ls) (auto simp: disown_def)

lemma lease_extent_disown [simp]: "lease_extent (disown i ls) j = lease_extent ls j"
  by (simp add: lease_extent_def map_of_disown split: option.split)

lemma external_updates [simp]:
  "host_ok x (leases_update f1 s) = host_ok x s"
  "host_ok x (next_lease_update f2 s) = host_ok x s"
  "host_ok x (external_host_leases_update f3 s) = host_ok x s"
  "host_ok x (external_pool_units_in_use_update f4 s) = host_ok x s"
  "host_ok x (external_host_request_update f5 s) = host_ok x s"
  "host_ok x (external_seen_update f6 s) = host_ok x s"
  "host_ok x (external_commit_issued_update f7 s) = host_ok x s"
  "host_ok x (external_evict_issued_update f8 s) = host_ok x s"
  "host_ok x (external_host_io_cancelled_update f9 s) = host_ok x s"
  by (simp_all add: host_ok_def pool.partitions_def pool_ok_def pool_free_set_def)

text \<open>What the requests and the counters do not touch.\<close>

lemma leases_ok_updates [simp]:
  "leases_ok x (external_host_request_update f1 s) = leases_ok x s"
  "leases_ok x (external_seen_update f2 s) = leases_ok x s"
  "leases_ok x (external_commit_issued_update f3 s) = leases_ok x s"
  "leases_ok x (external_evict_issued_update f4 s) = leases_ok x s"
  "leases_ok x (external_host_io_cancelled_update f5 s) = leases_ok x s"
  "leases_ok x (events_update f6 s) = leases_ok x s"
  "leases_ok x (stage_mem_update f7 s) = leases_ok x s"
  "leases_ok x (pool_mem_update f8 s) = leases_ok x s"
  "leases_ok x (pool_meta_update f9 s) = leases_ok x s"
  "leases_ok x (pool_meta_generations_update f10 s) = leases_ok x s"
  by (simp_all add: leases_ok_def)

lemma lease_bytes_updates [simp]:
  "lease_bytes (external_host_request_update f1 s1) = lease_bytes s1"
  "lease_bytes (external_evict_issued_update f2 s1) = lease_bytes s1"
  "lease_bytes (leases_update f3 s1) = lease_bytes s1"
  "lease_bytes (next_lease_update f4 s1) = lease_bytes s1"
  "lease_bytes (external_host_leases_update f5 s1) = lease_bytes s1"
  "lease_bytes (external_pool_units_in_use_update f6 s1) = lease_bytes s1"
  "lease_bytes (events_update f7 s) = lease_bytes s"
  "lease_bytes (stage_mem_update f8 s) = lease_bytes s"
  "lease_bytes (pool_meta_update f9 s) = lease_bytes s"
  "lease_bytes (pool_meta_generations_update f10 s) = lease_bytes s"
  "lease_bytes (pool_free_update f11 s) = lease_bytes s"
  by (simp_all add: lease_bytes_def fun_eq_iff)

lemma leased_updates [simp]:
  "leased (external_host_request_update f1 s) = leased s"
  "leased (external_evict_issued_update f2 s) = leased s"
  "leased (events_update f3 s) = leased s"
  "leased (stage_mem_update f4 s) = leased s"
  "leased (pool_meta_update f5 s) = leased s"
  "leased (pool_meta_generations_update f6 s) = leased s"
  "leased (pool_free_update f7 s) = leased s"
  by (simp_all add: leased_def fun_eq_iff)

section \<open>Taking, filling and giving back an extent\<close>

lemma leases_host:
  "leases_ok extra s \<Longrightarrow> host_ok (lease_extents (external_host_leases s) (leases s) + extra) s"
  by (simp add: leases_ok_def)

lemma alloc_lease:
  assumes "leases_ok extra s"
  shows "pool_alloc n s = (Inr None, s) \<or> (\<exists>u f. pool_alloc n s = (Inr (Some u), s\<lparr>pool_free := f\<rparr>)
    \<and> n \<noteq> 0 \<and> leases_ok (add_mset (u, n) extra) (s\<lparr>pool_free := f\<rparr>))"
  using alloc_host [OF leases_host [OF assms], of n] assms by (auto simp: leases_ok_def)

lemma release_extent:
  assumes "leases_ok (add_mset (u, n) extra) s"
  shows "\<exists>f. pool_release u n s = (Inr (), s\<lparr>pool_free := f\<rparr>) \<and> leases_ok extra (s\<lparr>pool_free := f\<rparr>)"
proof -
  have "pool.partitions (add_mset (u, n)
      (extents (host_values s) + (lease_extents (external_host_leases s) (leases s) + extra))) s"
    using leases_host [OF assms] by (simp add: host_ok_def)
  from release_owned [OF this] show ?thesis
    using assms by (auto simp: leases_ok_def host_ok_def)
qed

lemma extent_apart:
  assumes ok: "leases_ok (add_mset (u, n) extra) s" and n: "n \<noteq> 0"
    and i: "i \<in> set (external_host_leases s)" "map_of (leases s) i = Some l"
  shows "unat u * 4288 + unat n * 4288 \<le> unat (hl_pool_unit l) * 4288
    \<or> unat (hl_pool_unit l) * 4288 + unat (hl_value_len l) \<le> unat u * 4288"
proof -
  have "pool.partitions (add_mset (u, n)
      (extents (host_values s) + (lease_extents (external_host_leases s) (leases s) + extra))) s"
    using leases_host [OF ok] by (simp add: host_ok_def)
  then have "run u n \<inter> run (hl_pool_unit l) (hl_pool_units l) = {}"
    using pool.partitions_disjoint(2) lease_extent_mem [OF i] by fastforce
  moreover have l: "hl_pool_units l \<noteq> 0" "hl_pool_units l = chunk_count_for (hl_value_len l)"
    using ok i by (auto simp: leases_ok_def lease_ok_def)
  ultimately have "unat u + unat n \<le> unat (hl_pool_unit l)
      \<or> unat (hl_pool_unit l) + unat (hl_pool_units l) \<le> unat u"
    using extent_disjoint_iff [OF n] by blast
  moreover have "unat (hl_value_len l) \<le> unat (hl_pool_units l) * 4288"
    using chunk_count_for_covers [of "hl_value_len l"] l(2) by simp
  ultimately show ?thesis by auto
qed

text \<open>Bytes written into an extent that no lease owns do not touch any lease.\<close>

lemma leased_pool_write:
  assumes ok: "leases_ok (add_mset (u, n) extra) s" and n: "n \<noteq> 0" and len: "length bs \<le> unat n * 4288"
  shows "leased (pool_mem_update (mem_write (unat u * 4288) bs) s) = leased s"
proof
  fix i
  show "leased (pool_mem_update (mem_write (unat u * 4288) bs) s) i = leased s i"
  proof (cases "map_of (leases s) i")
    case (Some l)
    have "lease_bytes (pool_mem_update (mem_write (unat u * 4288) bs) s) l = lease_bytes s l"
      if "i \<in> set (external_host_leases s)"
      using extent_apart [OF ok n that Some] len by (auto simp: lease_bytes_def intro!: mem_read_write_disjoint)
    then show ?thesis using Some by (simp add: leased_def)
  qed (simp add: leased_def)
qed

definition new_lease :: "host_request \<Rightarrow> u32 \<Rightarrow> u32 \<Rightarrow> u32 \<Rightarrow> u32 \<Rightarrow> host_lease" where
  "new_lease request u units ro g = \<lparr>hl_owner = True, hl_slot = rq_slot request, hl_pool_unit = u,
     hl_pool_units = units, hl_read_offset = ro, hl_generation = g, hl_value_len = rq_value_len request\<rparr>"

lemma publish_lease_run:
  "publish_lease request u units ro g s = (Inr (next_lease s),
     s\<lparr>leases := (next_lease s, new_lease request u units ro g) # leases s, next_lease := next_lease s + 1,
       external_host_leases := next_lease s # external_host_leases s,
       external_pool_units_in_use := external_pool_units_in_use s + units\<rparr>)"
  by (cases s) (simp add: publish_lease_def new_lease_def io_defs)

lemma units_bound:
  assumes "leases_ok (add_mset (u, n) extra) s"
  shows "unat (external_pool_units_in_use s) + unat n < 4294967296"
proof -
  have "pool.partitions (add_mset (u, n)
      (extents (host_values s) + (lease_extents (external_host_leases s) (leases s) + extra))) s"
    using leases_host [OF assms] by (simp add: host_ok_def)
  from pool.partitions_accounting [OF this] have
    "unat (external_pool_units_in_use s) + unat n \<le> unat (pool_units_total s)"
    using assms by (simp add: leases_ok_def)
  then show ?thesis by (rule le_less_trans) (rule unat_less_4G)
qed

lemma publish_lease_ok:
  fixes s :: "'z external_state_scheme"
  assumes ok: "leases_ok (add_mset (u, units) extra) s" and n: "units \<noteq> 0" "units = chunk_count_for (rq_value_len request)"
    and keys: "meta_mapped s \<longrightarrow> rq_slot request < max_keys s"
    and t: "publish_lease request u units ro g s = (Inr i, t)"
  shows "leases_ok extra t" "i = next_lease s"
    "leased t = (leased s)(i \<mapsto> mem_read (pool_mem s) (unat u * 4288) (unat (rq_value_len request)))"
    "leased s i = None"
proof -
  note T = t [unfolded publish_lease_run]
  let ?l = "new_lease request u units ro g"
  have i: "i = next_lease s" using T by simp
  have fresh: "i \<notin> set (external_host_leases s)" "map_of (leases s) i = None"
  proof -
    show "map_of (leases s) i = None" using ok i by (cases "map_of (leases s) i") (auto simp: leases_ok_def)
    then show "i \<notin> set (external_host_leases s)" using ok by (auto simp: leases_ok_def)
  qed
  have same: "lease_extents (external_host_leases s) ((i, ?l) # leases s)
      = lease_extents (external_host_leases s) (leases s)"
    using fresh by (intro lease_extents_cong) (auto simp: lease_extent_def)
  have ext: "lease_extents (external_host_leases t) (leases t)
      = add_mset (u, units) (lease_extents (external_host_leases s) (leases s))"
    using T i same by (auto simp: lease_extent_def new_lease_def)
  have h: "host_ok x t = host_ok x s" for x using T by auto
  have units: "unat (external_pool_units_in_use t) = unat (external_pool_units_in_use s) + unat units"
    using units_bound [OF ok] T by (auto simp: unat_plus_fits)
  have lok: "lease_ok (meta_mapped s) (max_keys s) ?l" using n keys by (simp add: lease_ok_def new_lease_def)
  have d: "distinct (external_host_leases t)" using T ok fresh i by (auto simp: leases_ok_def)
  have each: "\<forall>j \<in> set (external_host_leases t). \<exists>l. map_of (leases t) j = Some l
           \<and> lease_ok (meta_mapped t) (max_keys t) l"
    using T ok fresh i lok by (auto simp: leases_ok_def)
  have all: "\<forall>j l. map_of (leases t) j = Some l \<longrightarrow> j < next_lease t
           \<and> (hl_owner l \<longrightarrow> j \<in> set (external_host_leases t))"
  proof (intro allI impI)
    fix j l assume a: "map_of (leases t) j = Some l"
    show "j < next_lease t \<and> (hl_owner l \<longrightarrow> j \<in> set (external_host_leases t))"
    proof (cases "j = i")
      case False
      then have "map_of (leases s) j = Some l" using a T i by auto
      then have "j < next_lease s" "hl_owner l \<longrightarrow> j \<in> set (external_host_leases s)"
        using ok unfolding leases_ok_def by blast+
      then show ?thesis using T by auto
    qed (use T i in auto)
  qed
  show "leases_ok extra t"
    using ok d each all unfolding leases_ok_def ext h units by simp
  show "i = next_lease s" by (rule i)
  show "leased s i = None" using fresh by (simp add: leased_def)
  show "leased t = (leased s)(i \<mapsto> mem_read (pool_mem s) (unat u * 4288) (unat (rq_value_len request)))"
    using T fresh i by (auto simp: leased_def fun_eq_iff lease_bytes_def new_lease_def)
qed


section \<open>Giving a lease back\<close>

text \<open>The metadata step of a release never throws for a slot in range.\<close>

lemma invalidate_if_run:
  assumes "meta_mapped s \<longrightarrow> slot < max_keys s"
  shows "\<exists>m. invalidate_pool_meta_if_generation slot g s = (Inr (), s\<lparr>pool_meta := m\<rparr>)"
proof -
  have "invalidate_pool_meta_if_generation slot g s =
      (if \<not> meta_mapped s \<or> g = 0 \<or> pool_meta s slot Generation_Begin \<noteq> g \<or> pool_meta s slot Generation_End \<noteq> g
       then (Inr (), s) else (Inr (), s\<lparr>pool_meta := (pool_meta s)(slot := (\<lambda>_. 0))\<rparr>))"
    using assms by (simp add: invalidate_pool_meta_if_generation_def invalidate_pool_meta_run io_defs)
  moreover have "s = s\<lparr>pool_meta := pool_meta s\<rparr>" by simp
  ultimately show ?thesis by metis
qed

definition lease_released :: "nat \<Rightarrow> host_lease \<Rightarrow> 'z external_state_scheme \<Rightarrow> 'z external_state_scheme" where
  "lease_released i l s = s\<lparr>leases := disown i (leases s),
     external_host_leases := removeAll i (external_host_leases s),
     external_pool_units_in_use := external_pool_units_in_use s - hl_pool_units l\<rparr>"

lemma lease_released_ok:
  fixes s :: "'z external_state_scheme"
  assumes ok: "leases_ok extra s" and i: "map_of (leases s) i = Some l" "hl_owner l"
  shows "leases_ok (add_mset (hl_pool_unit l, hl_pool_units l) extra) (lease_released i l s)"
    "leased (lease_released i l s) = (leased s)(i := None)"
    "hl_pool_units l \<le> external_pool_units_in_use s" "i \<in> set (external_host_leases s)"
    "meta_mapped s \<longrightarrow> hl_slot l < max_keys s"
proof -
  let ?e = "(hl_pool_unit l, hl_pool_units l)" and ?t = "lease_released i l s"
  show tracked: "i \<in> set (external_host_leases s)" using ok i unfolding leases_ok_def by blast
  have d: "distinct (external_host_leases s)" using ok by (simp add: leases_ok_def)
  show "meta_mapped s \<longrightarrow> hl_slot l < max_keys s"
    using ok i tracked by (fastforce simp: leases_ok_def lease_ok_def)
  have split: "lease_extents (external_host_leases s) (leases s)
      = add_mset ?e (lease_extents (removeAll i (external_host_leases s)) (leases s))"
    using lease_extents_remove [OF d tracked, of "leases s"] i(1) by (simp add: lease_extent_def)
  have ext: "lease_extents (external_host_leases ?t) (leases ?t)
      = lease_extents (removeAll i (external_host_leases s)) (leases s)"
    unfolding lease_released_def by (simp, rule lease_extents_cong) simp
  have units: "unat (external_pool_units_in_use s) = unat (hl_pool_units l)
      + (\<Sum>e \<in># lease_extents (removeAll i (external_host_leases s)) (leases s). unat (snd e))"
    using ok split by (simp add: leases_ok_def)
  show le: "hl_pool_units l \<le> external_pool_units_in_use s" using units by (simp add: word_le_nat_alt)
  have h: "host_ok x ?t = host_ok x s" for x by (simp add: lease_released_def)
  have each: "\<forall>j \<in> set (external_host_leases ?t). \<exists>l. map_of (leases ?t) j = Some l
           \<and> lease_ok (meta_mapped ?t) (max_keys ?t) l"
    using ok by (auto simp: leases_ok_def lease_released_def map_of_disown)
  have all: "\<forall>j k. map_of (leases ?t) j = Some k \<longrightarrow> j < next_lease ?t
           \<and> (hl_owner k \<longrightarrow> j \<in> set (external_host_leases ?t))"
  proof (intro allI impI)
    fix j k assume a: "map_of (leases ?t) j = Some k"
    show "j < next_lease ?t \<and> (hl_owner k \<longrightarrow> j \<in> set (external_host_leases ?t))"
    proof (cases "j = i")
      case True
      then show ?thesis using a i ok by (auto simp: lease_released_def map_of_disown leases_ok_def)
    next
      case False
      then have "map_of (leases s) j = Some k" using a by (simp add: lease_released_def map_of_disown)
      then have "j < next_lease s" "hl_owner k \<longrightarrow> j \<in> set (external_host_leases s)"
        using ok unfolding leases_ok_def by blast+
      then show ?thesis using False by (simp add: lease_released_def)
    qed
  qed
  have "host_ok (lease_extents (external_host_leases ?t) (leases ?t) + add_mset ?e extra) ?t"
    using leases_host [OF ok] unfolding h ext split by simp
  moreover have "unat (external_pool_units_in_use ?t)
      = (\<Sum>e \<in># lease_extents (external_host_leases ?t) (leases ?t). unat (snd e))"
    using units le unfolding ext by (simp add: lease_released_def unat_minus_fits)
  moreover have "distinct (external_host_leases ?t)" using d by (simp add: lease_released_def distinct_removeAll)
  ultimately show "leases_ok (add_mset ?e extra) ?t"
    using each all unfolding leases_ok_def by blast
  show "leased ?t = (leased s)(i := None)"
    by (auto simp: leased_def lease_released_def map_of_disown fun_eq_iff lease_bytes_def)
qed

lemma release_external_host_lease_ok:
  fixes s :: "'z external_state_scheme"
  assumes ok: "leases_ok extra s" and i: "map_of (leases s) i = Some l" "hl_owner l"
  shows "\<exists>m f. release_external_host_lease i s
      = (Inr (), lease_released i l s\<lparr>pool_meta := m, pool_free := f\<rparr>)
    \<and> leases_ok extra (lease_released i l s\<lparr>pool_meta := m, pool_free := f\<rparr>)
    \<and> pool_release (hl_pool_unit l) (hl_pool_units l) (lease_released i l s\<lparr>pool_meta := m\<rparr>)
      = (Inr (), lease_released i l s\<lparr>pool_meta := m, pool_free := f\<rparr>)"
proof -
  note R = lease_released_ok [OF ok i]
  have "meta_mapped (lease_released i l s) \<longrightarrow> hl_slot l < max_keys (lease_released i l s)"
    using R(5) by (simp add: lease_released_def)
  from invalidate_if_run [OF this, of "hl_generation l"] obtain m where
    m: "invalidate_pool_meta_if_generation (hl_slot l) (hl_generation l) (lease_released i l s)
      = (Inr (), lease_released i l s\<lparr>pool_meta := m\<rparr>)" by blast
  have "leases_ok (add_mset (hl_pool_unit l, hl_pool_units l) extra) (lease_released i l s\<lparr>pool_meta := m\<rparr>)"
    using R(1) by simp
  from release_extent [OF this] obtain f where
    f: "pool_release (hl_pool_unit l) (hl_pool_units l) (lease_released i l s\<lparr>pool_meta := m\<rparr>)
      = (Inr (), lease_released i l s\<lparr>pool_meta := m, pool_free := f\<rparr>)"
    "leases_ok extra (lease_released i l s\<lparr>pool_meta := m, pool_free := f\<rparr>)" by auto
  have up: "external_pool_units_in_use_update
      (\<lambda>n. if hl_pool_units l \<le> n then n - hl_pool_units l else 0)
      (external_host_leases_update (removeAll i) (leases_update (disown i) s)) = lease_released i l s"
    using R(3) by (cases s) (simp add: lease_released_def)
  have "release_external_host_lease i s
      = (Inr (), lease_released i l s\<lparr>pool_meta := m, pool_free := f\<rparr>)"
    using i R(4) m f(1) up
    by (simp add: release_external_host_lease_def bindE_def seqE_def gets_def modify_def whenE_def catchE_def)
  then show ?thesis using f by blast
qed

section \<open>Receiving a value\<close>

text \<open>What the device delivers for a write-through, by its push or in answer to the reads.\<close>

definition delivers_value :: "geometry \<Rightarrow> bool \<Rightarrow> observation \<Rightarrow> host_request \<Rightarrow> byte list \<Rightarrow> bool" where
  "delivers_value geo noc_ok ob request bytes =
     (length bytes = unat (rq_value_len request) \<and> device_found geo
      \<and> (if noc_ok then \<forall>d. ob_memory ob d = push_memory d bytes
         else \<forall>dst. length dst = unat (chunk_count_for (rq_value_len request)) * 4288 \<longrightarrow>
           (\<exists>b img p. read_value_units_into geo (ob_reader ob) dst (rq_device_value_offset request)
                (rq_value_len request) = Inr (b, img, p)
              \<and> length img = unat (chunk_count_for (rq_value_len request)) * 4288
              \<and> take (unat (rq_value_len request)) img = bytes)))"

text \<open>The bytes of a received value: behind its lease or in the vector that was returned.\<close>

definition received_bytes :: "'z external_state_scheme \<Rightarrow> received_value \<Rightarrow> byte list option" where
  "received_bytes s rv = (case rv_lease rv of None \<Rightarrow> Some (rv_bytes rv) | Some i \<Rightarrow> leased s i)"

definition received :: "'z external_state_scheme \<Rightarrow> byte list \<Rightarrow> received_value \<Rightarrow> 'z external_state_scheme \<Rightarrow> bool" where
  "received s bytes rv t = (leases_ok {#} t \<and> received_bytes t rv = Some bytes
     \<and> (case rv_lease rv of None \<Rightarrow> leased t = leased s
        | Some i \<Rightarrow> leased s i = None \<and> leased t = (leased s)(i \<mapsto> bytes)))"

lemma release_reserved_pool_ok:
  fixes s :: "'z external_state_scheme"
  assumes "leases_ok (case p of None \<Rightarrow> extra | Some u \<Rightarrow> add_mset (u, n) extra) s" and "slot < max_keys s"
  shows "\<exists>t. release_reserved_pool slot p n s = (Inr (), t) \<and> leases_ok extra t \<and> leased t = leased s"
proof (cases p)
  case None
  then show ?thesis using assms by (simp add: release_reserved_pool_def ret_def)
next
  case (Some u)
  define m where "m = (if meta_mapped s then (pool_meta s)(slot := (\<lambda>_. 0)) else pool_meta s)"
  have inv: "invalidate_pool_meta slot s = (Inr (), s\<lparr>pool_meta := m\<rparr>)"
    using assms(2) by (simp add: invalidate_pool_meta_run m_def)
  have "leases_ok (add_mset (u, n) extra) (s\<lparr>pool_meta := m\<rparr>)" using assms(1) Some by simp
  from release_extent [OF this] obtain f where
    "pool_release u n (s\<lparr>pool_meta := m\<rparr>) = (Inr (), s\<lparr>pool_meta := m, pool_free := f\<rparr>)"
    "leases_ok extra (s\<lparr>pool_meta := m, pool_free := f\<rparr>)" by auto
  then show ?thesis using Some inv by (simp add: release_reserved_pool_def seqE_def bindE_def)
qed

text \<open>The reservation: an extent in flight, nothing leased changes.\<close>

lemma reserve_receive_ok:
  fixes s :: "'z external_state_scheme"
  assumes ok: "leases_ok {#} s" and keys: "rq_slot request < max_keys s" and mapped: "pool_mapped s \<longrightarrow> meta_mapped s"
  shows "\<exists>d t. reserve_receive request prefer s = (Inr d, t)
    \<and> leases_ok (in_flight d (rq_value_len request)) t \<and> leased t = leased s
    \<and> (pd_pool_unit d \<noteq> None \<longrightarrow> chunk_count_for (rq_value_len request) \<noteq> 0)
    \<and> max_keys t = max_keys s \<and> external_host_request t = external_host_request s
    \<and> external_evict_issued t = external_evict_issued s"
proof -
  let ?n = "chunk_count_for (rq_value_len request)"
  let ?no = "\<lparr>pd_pool_unit = None, pd_read_off = 0, pd_generation = 0\<rparr>"
  have none: "?thesis" if "(if prefer then pool_alloc ?n else ret None) s = (Inr None, s)"
  proof -
    have "reserve_receive request prefer s = (Inr ?no, s)"
      using that by (simp add: reserve_receive_def Let_def bindE_def ret_def)
    then show ?thesis using ok by (intro exI [of _ ?no] exI [of _ s]) (simp add: in_flight_def)
  qed
  show ?thesis
  proof (cases "prefer")
    case False
    then show ?thesis by (intro none) (simp add: ret_def)
  next
    case True
    from alloc_lease [OF ok, of ?n] show ?thesis
    proof (elim disjE exE conjE)
      assume "pool_alloc ?n s = (Inr None, s)"
      then show ?thesis using True by (intro none) simp
    next
      fix u f assume a: "pool_alloc ?n s = (Inr (Some u), s\<lparr>pool_free := f\<rparr>)" and n: "?n \<noteq> 0"
        and ok2: "leases_ok (add_mset (u, ?n) {#}) (s\<lparr>pool_free := f\<rparr>)"
      have mm: "meta_mapped s" using a mapped by (auto simp: pool_alloc_run split: if_splits)
      define ro where "ro = pool_read_off s + u * kMaxChunkValueBytes"
      define g where "g = next_generation (pool_meta_generations s (rq_slot request))"
      define t where "t = s\<lparr>pool_free := f,
          pool_meta := (pool_meta s)(rq_slot request := published ro (rq_value_len request) g),
          pool_meta_generations := (pool_meta_generations s)(rq_slot request := g)\<rparr>"
      let ?d = "\<lparr>pd_pool_unit = Some u, pd_read_off = ro, pd_generation = g\<rparr>"
      have "reserve_receive request prefer s = (Inr ?d, t)"
        using a mm keys True
        by (simp add: reserve_receive_def bindE_def gets_def ret_def Let_def publish_pool_meta_run g_def t_def ro_def)
      moreover have "leases_ok (in_flight ?d (rq_value_len request)) t"
        using ok2 by (simp add: in_flight_def t_def)
      moreover have "leased t = leased s" by (simp add: t_def)
      ultimately show ?thesis using n by (intro exI [of _ ?d] exI [of _ t]) (simp add: t_def)
    qed
  qed
qed

lemma leases_ok_evict: "leases_ok x (device_pushes d bytes s) = leases_ok x s"
  by (simp add: device_pushes_def split: option.split)

lemma leased_push:
  assumes "leases_ok (in_flight d len) s" and "pd_pool_unit d \<noteq> None \<longrightarrow> chunk_count_for len \<noteq> 0"
    and "length bytes = unat len"
  shows "leased (device_pushes d bytes s) = leased s"
proof (cases "pd_pool_unit d")
  case None
  then show ?thesis by (simp add: device_pushes_def)
next
  case (Some u)
  then show ?thesis
    using leased_pool_write [of u "chunk_count_for len" "{#}" s bytes] assms chunk_count_for_covers [of len]
    by (simp add: device_pushes_def in_flight_def)
qed

lemma received_phase:
  "received s bytes rv (external_host_request_update f t) = received s bytes rv t"
  by (simp add: received_def received_bytes_def split: option.split)

text \<open>The end of the pushed path, from the state in which the device has written the bytes.\<close>

lemma publish_pushed_ok:
  fixes s :: "'z external_state_scheme"
  assumes ok: "leases_ok (in_flight d (rq_value_len request)) s"
    and n: "pd_pool_unit d \<noteq> None \<longrightarrow> chunk_count_for (rq_value_len request) \<noteq> 0"
    and keys: "rq_slot request < max_keys s" and bytes: "length bytes = unat (rq_value_len request)"
  shows "\<exists>rv t. (case pd_pool_unit d of
        Some u \<Rightarrow> bindE (publish_lease request u (chunk_count_for (rq_value_len request)) (pd_read_off d)
                           (pd_generation d)) (\<lambda>id.
                    ret \<lparr>rv_lease = Some id, rv_bytes = [], rv_used_device_push = True,
                         rv_read_metrics = no_reads\<rparr>)
      | None \<Rightarrow> bindE (gets (\<lambda>s. mem_read (stage_mem s) 0 (unat (rq_value_len request)))) (\<lambda>bytes.
                    ret \<lparr>rv_lease = None, rv_bytes = bytes, rv_used_device_push = True,
                         rv_read_metrics = no_reads\<rparr>)) (device_pushes d bytes s) = (Inr rv, t)
    \<and> received s bytes rv t"
proof (cases "pd_pool_unit d")
  case None
  let ?t = "device_pushes d bytes s"
  have "mem_read (stage_mem ?t) 0 (unat (rq_value_len request)) = bytes"
    using None bytes by (simp add: device_pushes_def mem_read_write_same)
  moreover have "leases_ok {#} ?t" "leased ?t = leased s"
    using ok None leased_push [OF ok n bytes] by (simp_all add: in_flight_def leases_ok_evict)
  ultimately show ?thesis
    using None by (simp add: bindE_def gets_def ret_def received_def received_bytes_def)
next
  case (Some u)
  let ?n = "chunk_count_for (rq_value_len request)"
  let ?s = "device_pushes d bytes s"
  obtain i t where p: "publish_lease request u ?n (pd_read_off d) (pd_generation d) ?s = (Inr i, t)"
    by (simp add: publish_lease_run)
  have ok': "leases_ok (add_mset (u, ?n) {#}) ?s" using ok Some by (simp add: leases_ok_evict in_flight_def)
  have "mem_read (pool_mem ?s) (unat u * 4288) (unat (rq_value_len request)) = bytes"
    using Some bytes by (simp add: device_pushes_def mem_read_write_same)
  moreover have "meta_mapped ?s \<longrightarrow> rq_slot request < max_keys ?s" using keys by simp
  moreover have "leased ?s = leased s" by (rule leased_push [OF ok n bytes])
  ultimately have "leases_ok {#} t" "leased t = (leased s)(i \<mapsto> bytes)" "leased s i = None"
    using publish_lease_ok [OF ok' _ refl _ p] n Some by simp_all
  then show ?thesis using Some p by (simp add: bindE_def ret_def received_def received_bytes_def)
qed

lemma receive_pushed_ok:
  fixes s :: "'z external_state_scheme"
  assumes ok: "leases_ok {#} s" and keys: "rq_slot request < max_keys s" and mapped: "pool_mapped s \<longrightarrow> meta_mapped s"
    and dev: "delivers_value geo True ob request bytes"
  shows "case await (external_evict_issued s + 1) (ob_wait ob) of
      None \<Rightarrow> \<exists>t x. receive_pushed geo wa ob request prefer s = (Inr Blocked, t) \<and> leases_ok x t
    | Some left \<Rightarrow>
        if left \<or> ob_stop_after ob
        then \<exists>e t. receive_pushed geo wa ob request prefer s = (Inl e, t) \<and> leases_ok {#} t \<and> leased t = leased s
        else \<exists>rv t. receive_pushed geo wa ob request prefer s = (Inr (Replied rv), t) \<and> received s bytes rv t
          \<and> xr_phase (external_host_request t) = TransferComplete"
proof -
  let ?n = "chunk_count_for (rq_value_len request)"
  obtain d s1 where d: "reserve_receive request prefer s = (Inr d, s1)"
    "leases_ok (in_flight d (rq_value_len request)) s1" "leased s1 = leased s"
    "pd_pool_unit d \<noteq> None \<longrightarrow> ?n \<noteq> 0" "max_keys s1 = max_keys s"
    "external_evict_issued s1 = external_evict_issued s"
    using reserve_receive_ok [OF ok keys mapped] by blast
  define s2 where "s2 = s1\<lparr>external_evict_issued := external_evict_issued s + 1, events := events s1 @
    [L1_Write (evict_ack_addr wa) (ack_bytes d),
     L1_Write (evict_ack_sem_addr wa) (semaphore_bytes (external_evict_issued s + 1))]\<rparr>"
  have up: "events_update ((\<lambda>es. es @ [L1_Write (evict_ack_sem_addr wa) (semaphore_bytes (external_evict_issued s + 1))])
      \<circ> (\<lambda>es. es @ [L1_Write (evict_ack_addr wa) (ack_bytes d)])) (external_evict_issued_update (\<lambda>n. n + 1) s1) = s2"
    using d(6) by (cases s1) (simp add: s2_def)
  have ok2: "leases_ok (in_flight d (rq_value_len request)) s2" "leased s2 = leased s" "rq_slot request < max_keys s2"
    using d keys by (simp_all add: s2_def)
  have bl: "length bytes = unat (rq_value_len request)" "device_found geo" "\<And>d. ob_memory ob d = push_memory d bytes"
    using dev by (simp_all add: delivers_value_def)
  define s3 where "s3 = device_pushes d bytes s2"
  have ok3: "leases_ok (in_flight d (rq_value_len request)) s3" "leased s3 = leased s" "rq_slot request < max_keys s3"
    using ok2 leased_push [OF ok2(1) d(4) bl(1)] by (simp_all add: s3_def leases_ok_evict)
  let ?finish = "case pd_pool_unit d of
        Some u \<Rightarrow> bindE (publish_lease request u ?n (pd_read_off d) (pd_generation d)) (\<lambda>id.
                    ret \<lparr>rv_lease = Some id, rv_bytes = [], rv_used_device_push = True,
                         rv_read_metrics = no_reads\<rparr>)
      | None \<Rightarrow> bindE (gets (\<lambda>s. mem_read (stage_mem s) 0 (unat (rq_value_len request)))) (\<lambda>bytes.
                    ret \<lparr>rv_lease = None, rv_bytes = bytes, rv_used_device_push = True,
                         rv_read_metrics = no_reads\<rparr>)"
  have run: "receive_pushed geo wa ob request prefer s = (case await (external_evict_issued s + 1) (ob_wait ob) of
        None \<Rightarrow> (Inr Blocked, s3)
      | Some left \<Rightarrow> if left \<or> ob_stop_after ob
          then seqE (release_reserved_pool (rq_slot request) (pd_pool_unit d) ?n)
                 (throw (Thrown ''ServerRuntimeCore host write-through receive was cancelled'')) s3
          else bindE ?finish (\<lambda>result. seqE (set_phase TransferComplete) (ret (Replied result))) s3)"
    using d(1,6) up bl(2,3)
    by (simp add: receive_pushed_def Let_def bindE_def seqE_def gets_def modify_def check_def write_l1_def
        device_memory_push s3_def [symmetric] ret_def split: option.split)
  have cancel: "\<exists>t. release_reserved_pool (rq_slot request) (pd_pool_unit d) ?n s3 = (Inr (), t) \<and> leases_ok {#} t
      \<and> leased t = leased s"
  proof -
    have "leases_ok (case pd_pool_unit d of None \<Rightarrow> {#} | Some u \<Rightarrow> add_mset (u, ?n) {#}) s3"
      using ok3(1) by (simp add: in_flight_def)
    from release_reserved_pool_ok [OF this ok3(3)] show ?thesis using ok3(2) by simp
  qed
  obtain rv t where fin: "?finish s3 = (Inr rv, t)" "received s2 bytes rv t"
    using publish_pushed_ok [OF ok2(1) d(4) ok2(3) bl(1)] unfolding s3_def by blast
  have rec: "received s bytes rv t" using fin(2) ok2(2) by (simp add: received_def split: option.splits)
  show ?thesis
  proof (cases "await (external_evict_issued s + 1) (ob_wait ob)")
    case None
    then show ?thesis using run ok3(1) by auto
  next
    case (Some left)
    show ?thesis
    proof (cases "left \<or> ob_stop_after ob")
      case True
      then show ?thesis using run Some cancel by (auto simp: seqE_def bindE_def throw_def)
    next
      case False
      then show ?thesis using run Some fin(1) rec
        by (simp add: bindE_def seqE_def set_phase_def modify_def ret_def received_phase)
    qed
  qed
qed


lemma receive_read_ok:
  fixes s :: "'z external_state_scheme"
  assumes ok: "leases_ok {#} s" and keys: "rq_slot request < max_keys s"
    and dev: "delivers_value geo False ob request bytes"
  shows "\<exists>rv t. receive_read geo ob request prefer s = (Inr (Replied rv), t) \<and> received s bytes rv t
    \<and> xr_phase (external_host_request t) = TransferComplete"
proof -
  define n where "n = chunk_count_for (rq_value_len request)"
  have bl: "length bytes = unat (rq_value_len request)"
    and rd: "\<And>dst. length dst = unat n * 4288 \<Longrightarrow>
      \<exists>b img p. read_value_units_into geo (ob_reader ob) dst (rq_device_value_offset request)
        (rq_value_len request) = Inr (b, img, p) \<and> length img = unat n * 4288
        \<and> take (unat (rq_value_len request)) img = bytes"
    using dev by (simp_all add: delivers_value_def n_def)
  have cover: "unat (rq_value_len request) \<le> unat n * 4288"
    using chunk_count_for_covers [of "rq_value_len request"] by (simp add: n_def)
  have none: "?thesis" if a: "(if prefer then pool_alloc n else ret None) s = (Inr None, s)"
  proof -
    obtain b img p where r: "read_value_units_into geo (ob_reader ob) (replicate (unat n * 4288) 0)
        (rq_device_value_offset request) (rq_value_len request) = Inr (b, img, p)"
      "take (unat (rq_value_len request)) img = bytes"
      using rd [of "replicate (unat n * 4288) 0"] by auto
    show ?thesis
      using a r ok
      by (simp add: receive_read_def n_def [symmetric] Let_def bindE_def seqE_def lift_sum_def ret_def set_phase_def
          modify_def received_phase) (simp add: received_def received_bytes_def)
  qed
  show ?thesis
  proof (cases "prefer")
    case False
    then show ?thesis by (intro none) (simp add: ret_def)
  next
    case True
    from alloc_lease [OF ok, of n] show ?thesis
    proof (elim disjE exE conjE)
      assume "pool_alloc n s = (Inr None, s)"
      then show ?thesis using True by (intro none) simp
    next
      fix u f assume a: "pool_alloc n s = (Inr (Some u), s\<lparr>pool_free := f\<rparr>)" and n: "n \<noteq> 0"
        and ok2: "leases_ok (add_mset (u, n) {#}) (s\<lparr>pool_free := f\<rparr>)"
      obtain b img p where r: "read_value_units_into geo (ob_reader ob)
          (mem_read (pool_mem s) (unat u * 4288) (unat n * 4288)) (rq_device_value_offset request)
          (rq_value_len request) = Inr (b, img, p)"
        "length img = unat n * 4288" "take (unat (rq_value_len request)) img = bytes"
        using rd [of "mem_read (pool_mem s) (unat u * 4288) (unat n * 4288)"] by auto
      define s3 where "s3 = pool_mem_update (mem_write (unat u * 4288) img) (s\<lparr>pool_free := f\<rparr>)"
      have s3: "leases_ok (add_mset (u, n) {#}) s3" "leased s3 = leased s"
        "mem_read (pool_mem s3) (unat u * 4288) (unat (rq_value_len request)) = bytes"
        "rq_slot request < max_keys s3" "meta_mapped s3 = meta_mapped s"
        "pool_read_off s3 = pool_read_off s" "pool_meta s3 = pool_meta s"
        using ok2 leased_pool_write [OF ok2 n, of img] r(2,3) cover keys
        by (simp_all add: s3_def mem_read_write_same)
      obtain rg s4 where meta: "(if meta_mapped s then
             bindE (gets (\<lambda>s. pool_read_off s + u * kMaxChunkValueBytes)) (\<lambda>read_offset.
             bindE (publish_pool_meta (rq_slot request) read_offset (rq_value_len request)) (\<lambda>generation.
             ret (read_offset, generation)))
           else ret (0, 0)) s3 = (Inr rg, s4)"
        and s4: "leases_ok (add_mset (u, n) {#}) s4" "leased s4 = leased s"
        "pool_mem s4 = pool_mem s3" "max_keys s4 = max_keys s3"
      proof (cases "meta_mapped s")
        case True
        let ?ro = "pool_read_off s + u * kMaxChunkValueBytes"
        let ?g = "next_generation (pool_meta_generations s3 (rq_slot request))"
        show ?thesis
          using that [of "(?ro, ?g)" "s3\<lparr>pool_meta :=
              (pool_meta s3)(rq_slot request := published ?ro (rq_value_len request) ?g),
              pool_meta_generations := (pool_meta_generations s3)(rq_slot request := ?g)\<rparr>"] True s3
          by (simp add: bindE_def gets_def publish_pool_meta_run ret_def Let_def)
      next
        case False
        then show ?thesis using that [of "(0, 0)" s3] s3 by (simp add: ret_def)
      qed
      obtain ro g where rg: "rg = (ro, g)" by (cases rg)
      obtain i t where p: "publish_lease request u n ro g s4 = (Inr i, t)" by (simp add: publish_lease_run)
      have "leases_ok {#} t" "leased t = (leased s)(i \<mapsto> bytes)" "leased s i = None"
        using publish_lease_ok [OF s4(1) n n_def _ p] s4 s3(3,4) by simp_all
      then have rec: "received s bytes \<lparr>rv_lease = Some i, rv_bytes = [], rv_used_device_push = False,
          rv_read_metrics = p\<rparr> t" for p
        by (simp add: received_def received_bytes_def)
      have "meta_mapped (pool_mem_update (mem_write (unat u * 4288) img) (s\<lparr>pool_free := f\<rparr>)) = meta_mapped s"
        by simp
      then show ?thesis
        using True a r(1) meta rg p rec
        by (simp add: receive_read_def n_def [symmetric] Let_def bindE_def seqE_def gets_def lift_sum_def ret_def
            modify_def s3_def [symmetric] set_phase_def received_phase)
    qed
  qed
qed

section \<open>Properties\<close>

text \<open>The request a caller holds is the active one.\<close>

definition holds_request :: "host_request \<Rightarrow> request_kind \<Rightarrow> 'z external_state_scheme \<Rightarrow> bool" where
  "holds_request request kind s =
     (external_policy s \<and> xr_active (external_host_request s)
      \<and> rq_sequence request = xr_sequence (external_host_request s)
      \<and> rq_slot request = xr_slot (external_host_request s)
      \<and> rq_value_len request = xr_total_len (external_host_request s)
      \<and> rq_device_value_offset request = xr_value_byte_off (external_host_request s)
      \<and> host_request_kind (xr_op (external_host_request s)) = Inr kind \<and> rq_kind request = kind)"

lemma validate_holds:
  "holds_request request kind s \<Longrightarrow> validate_external_request request s = (Inr (), s)"
  by (simp add: validate_external_request_def holds_request_def io_defs lift_sum_def)

lemma validate_returns:
  assumes "validate_external_request request s = (Inr (), t)"
  shows "holds_request request (rq_kind request) s" "t = s"
proof -
  have "holds_request request (rq_kind request) s \<and> t = s"
    using assms
    by (auto simp: validate_external_request_def holds_request_def io_defs lift_sum_def
        split: if_splits sum.splits)
  then show "holds_request request (rq_kind request) s" "t = s" by simp_all
qed

lemma leased_phase_start: "leased (external_host_request_update f s) = leased s"
  by simp

definition demo_lease :: host_lease where
  "demo_lease = \<lparr>hl_owner = True, hl_slot = 1, hl_pool_unit = 0, hl_pool_units = 2, hl_read_offset = 65536,
     hl_generation = 7, hl_value_len = 8000\<rparr>"

definition demo_external :: external_state where
  "demo_external = host_state.extend (demo_host\<lparr>host_values := [], pool_free := [(2, 18)]\<rparr>)
     (external_state.fields True Core_Ready True 128 100000 1000000
        \<lparr>xr_active = True, xr_phase = Pending, xr_sequence = 5, xr_op = kMoveOpWriteThrough, xr_slot = 3,
         xr_value_byte_off = 8576, xr_total_len = 3, xr_key_len = 0, xr_key = []\<rparr>
        4 0 0 False [0] 2 [(0, demo_lease)] 1)"

lemma demo_external_fields [simp]:
  "external_policy demo_external = True" "core_lifecycle demo_external = Core_Ready"
  "server_workload_running demo_external = True" "max_key_len demo_external = 128"
  "max_value_bytes demo_external = 100000" "value_heap_bytes demo_external = 1000000"
  "external_host_request demo_external = \<lparr>xr_active = True, xr_phase = Pending, xr_sequence = 5,
     xr_op = kMoveOpWriteThrough, xr_slot = 3, xr_value_byte_off = 8576, xr_total_len = 3,
     xr_key_len = 0, xr_key = []\<rparr>"
  "external_seen demo_external = 4" "external_commit_issued demo_external = 0"
  "external_evict_issued demo_external = 0" "external_host_io_cancelled demo_external = False"
  "external_host_leases demo_external = [0]" "external_pool_units_in_use demo_external = 2"
  "leases demo_external = [(0, demo_lease)]" "next_lease demo_external = 1"
  "max_keys demo_external = 4" "pool_mapped demo_external = True" "meta_mapped demo_external = True"
  "stage_noc_ok demo_external = True" "host_values demo_external = []" "pool_free demo_external = [(2, 18)]"
  "pool_units_total demo_external = 20" "stage_bytes demo_external = 42880"
  by (simp_all add: demo_external_def demo_host_def host_state.defs external_state.defs)

lemma demo_external_ok: "leases_ok {#} demo_external"
proof -
  have "pool.partitions {#(0, 2)#} demo_external"
    by (auto simp: pool.partitions_def pool.covers_simps pool_ok_def free_ok_def apart_def
        pool_free_set_def run_def)
  moreover have "chunk_count_for 8000 = 2" by code_simp
  ultimately show ?thesis
    by (simp add: leases_ok_def host_ok_def lease_extent_def lease_ok_def demo_lease_def word_less_nat_alt)
qed

definition demo_receive :: host_request where
  "demo_receive = \<lparr>rq_sequence = 5, rq_kind = WriteThrough, rq_slot = 3, rq_value_len = 3,
     rq_device_value_offset = 8576\<rparr>"

lemma demo_holds: "holds_request demo_receive WriteThrough demo_external"
  by (simp add: holds_request_def demo_receive_def host_request_kind_def)

lemma receive_external_run:
  fixes s :: "'z external_state_scheme"
  assumes "leases_ok {#} s" and "holds_request request WriteThrough s"
    and "xr_phase (external_host_request s) = Pending" and "rq_slot request < max_keys s"
    and "pool_mapped s \<longrightarrow> meta_mapped s" and "delivers_value geo (stage_noc_ok s) ob request bytes"
  shows "\<exists>r t. receive_external_value geo wa ob request prefer s = (r, t)
    \<and> (case if stage_noc_ok s then await (external_evict_issued s + 1) (ob_wait ob) else Some False of
         None \<Rightarrow> r = Inr Blocked \<and> (\<exists>x. leases_ok x t)
       | Some left \<Rightarrow>
           if stage_noc_ok s \<and> (left \<or> ob_stop_after ob)
           then (\<exists>e. r = Inl e) \<and> leases_ok {#} t \<and> leased t = leased s
           else \<exists>rv. r = Inr (Replied rv) \<and> received s bytes rv t
             \<and> xr_phase (external_host_request t) = TransferComplete)"
proof -
  define s1 where "s1 = external_host_request_update (xr_phase_update (\<lambda>_. TransferInProgress)) s"
  have s1: "leases_ok {#} s1" "rq_slot request < max_keys s1" "pool_mapped s1 \<longrightarrow> meta_mapped s1"
    "external_evict_issued s1 = external_evict_issued s" "leased s1 = leased s" "stage_noc_ok s1 = stage_noc_ok s"
    using assms by (simp_all add: s1_def)
  have kind: "rq_kind request = WriteThrough" using assms(2) by (simp add: holds_request_def)
  have run: "receive_external_value geo wa ob request prefer s =
      (if stage_noc_ok s then receive_pushed geo wa ob request prefer s1 else receive_read geo ob request prefer s1)"
    using assms(3) kind validate_holds [OF assms(2)]
    by (simp add: receive_external_value_def seqE_def bindE_def check_def ret_def gets_def set_phase_def
        modify_def s1_def)
  have rec: "received s1 = received s" by (intro ext) (simp only: received_def s1(5))
  show ?thesis
  proof (cases "stage_noc_ok s")
    case True
    then have dev: "delivers_value geo True ob request bytes" using assms(6) by simp
    from receive_pushed_ok [OF s1(1-3) dev, of wa "prefer"] show ?thesis
      using True run s1(4,5) rec by (auto split: option.splits if_splits)
  next
    case False
    then have dev: "delivers_value geo False ob request bytes" using assms(6) by simp
    from receive_read_ok [OF s1(1,2) dev, of "prefer"] show ?thesis
      using False run rec by auto
  qed
qed

text \<open>
  C17: receiving a value takes it exactly once and never loses pool space. For the active
  write-through request, not yet started, on a runtime whose leases and free list partition the pool:
  if the device answers, the value is returned, in a vector or behind a fresh lease whose bytes
  are the device's, with every other lease's bytes untouched and the units accounted for; if
  the runtime is cancelled while it waits for the push, the call throws with the reserved extent
  given back; otherwise it is still waiting.
\<close>

theorem receive_external_value_exact:
  fixes s :: "'z external_state_scheme"
  assumes "leases_ok {#} s" and "holds_request request WriteThrough s"
    and "xr_phase (external_host_request s) = Pending" and "rq_slot request < max_keys s"
    and "pool_mapped s \<longrightarrow> meta_mapped s" and "delivers_value geo (stage_noc_ok s) ob request bytes"
  shows "\<exists>r t. receive_external_value geo wa ob request prefer s = (r, t)
    \<and> (case if stage_noc_ok s then await (external_evict_issued s + 1) (ob_wait ob) else Some False of
         None \<Rightarrow> r = Inr Blocked \<and> (\<exists>x. leases_ok x t)
       | Some left \<Rightarrow>
           if stage_noc_ok s \<and> (left \<or> ob_stop_after ob)
           then (\<exists>e. r = Inl e) \<and> leases_ok {#} t \<and> leased t = leased s
           else \<exists>rv. r = Inr (Replied rv) \<and> received s bytes rv t
             \<and> xr_phase (external_host_request t) = TransferComplete)"
  by (rule receive_external_run [OF assms])

theorem receive_external_value_exact_witness:
  "\<exists>rv t. receive_external_value demo_geometry demo_channel demo_push_round demo_receive True demo_external
      = (Inr (Replied rv), t) \<and> received demo_external [1, 2, 3] rv t"
proof -
  have d: "delivers_value demo_geometry (stage_noc_ok demo_external) demo_push_round demo_receive [1, 2, 3]"
    by (simp add: delivers_value_def demo_receive_def demo_push_round_def demo_geometry_def)
  have p: "xr_phase (external_host_request demo_external) = Pending" "rq_slot demo_receive < max_keys demo_external"
    "pool_mapped demo_external \<longrightarrow> meta_mapped demo_external"
    by (simp_all add: demo_receive_def word_less_nat_alt)
  from receive_external_value_exact [OF demo_external_ok demo_holds p d, of demo_channel True]
  show ?thesis by (auto simp: demo_push_round_def demo_wait_def)
qed

text \<open>
  Giving a lease back is exact and happens once. Releasing a live lease never throws: its units
  are free again and no longer counted, no other lease's bytes change and the pool partition is
  kept. Releasing it a second time, or destroying it afterwards, changes nothing in the pool.
\<close>

theorem release_lease_exact:
  fixes s :: "'z external_state_scheme"
  assumes "leases_ok extra s" and "map_of (leases s) i = Some l" and "hl_owner l"
  shows "\<exists>t. release_external_host_lease i s = (Inr (), t) \<and> leases_ok extra t
    \<and> leased t = (leased s)(i := None)
    \<and> pool_free_set t = pool_free_set s \<union> run (hl_pool_unit l) (hl_pool_units l)
    \<and> unat (external_pool_units_in_use t) + unat (hl_pool_units l) = unat (external_pool_units_in_use s)
    \<and> release_external_host_lease i t = (Inr (), t)
    \<and> destroy_lease i t = (Inr (), t\<lparr>leases := AList.delete i (leases t)\<rparr>)"
proof -
  note R = lease_released_ok [OF assms]
  obtain m f where r: "release_external_host_lease i s
      = (Inr (), lease_released i l s\<lparr>pool_meta := m, pool_free := f\<rparr>)"
    "leases_ok extra (lease_released i l s\<lparr>pool_meta := m, pool_free := f\<rparr>)"
    "pool_release (hl_pool_unit l) (hl_pool_units l) (lease_released i l s\<lparr>pool_meta := m\<rparr>)
      = (Inr (), lease_released i l s\<lparr>pool_meta := m, pool_free := f\<rparr>)"
    using release_external_host_lease_ok [OF assms] by blast
  define t where "t = lease_released i l s\<lparr>pool_meta := m, pool_free := f\<rparr>"
  have part: "pool.partitions (add_mset (hl_pool_unit l, hl_pool_units l)
      (extents (host_values s) + (lease_extents (removeAll i (external_host_leases s)) (leases s) + extra)))
      (lease_released i l s\<lparr>pool_meta := m\<rparr>)"
  proof -
    have e: "lease_extents (external_host_leases (lease_released i l s)) (leases (lease_released i l s))
      = lease_extents (removeAll i (external_host_leases s)) (leases s)"
      unfolding lease_released_def by (simp, rule lease_extents_cong) simp
    have v: "host_values (lease_released i l s) = host_values s" by (simp add: lease_released_def)
    show ?thesis using leases_host [OF R(1)] unfolding host_ok_def e v by simp
  qed
  have "pool_ok (lease_released i l s\<lparr>pool_meta := m\<rparr>)"
    "unat (hl_pool_unit l) + unat (hl_pool_units l) \<le> unat (pool_units_total (lease_released i l s\<lparr>pool_meta := m\<rparr>))"
    "run (hl_pool_unit l) (hl_pool_units l) \<inter> pool_free_set (lease_released i l s\<lparr>pool_meta := m\<rparr>) = {}"
    using pool.partitions_inv [OF part] part pool.partitions_disjoint(1) [OF part]
    by (simp_all add: pool.partitions_def)
  from pool.release_gives [OF this] r(3)
  have free: "pool_free_set t = pool_free_set (lease_released i l s\<lparr>pool_meta := m\<rparr>)
      \<union> run (hl_pool_unit l) (hl_pool_units l)" by (auto simp: t_def)
  have same: "pool_free_set (lease_released i l s\<lparr>pool_meta := m\<rparr>) = pool_free_set s"
    by (simp add: pool_free_set_def lease_released_def)
  have lt: "leased t = (leased s)(i := None)"
    using R(2) by (simp add: t_def)
  have look: "map_of (leases t) i = Some (l\<lparr>hl_owner := False\<rparr>)"
    using assms(2) by (simp add: t_def lease_released_def map_of_disown)
  then have again: "release_external_host_lease i t = (Inr (), t)"
    "destroy_lease i t = (Inr (), t\<lparr>leases := AList.delete i (leases t)\<rparr>)"
    by (simp_all add: release_external_host_lease_def destroy_lease_def io_defs)
  have units: "unat (external_pool_units_in_use t) + unat (hl_pool_units l) = unat (external_pool_units_in_use s)"
    using R(3) by (simp add: t_def lease_released_def unat_minus_fits word_le_nat_alt)
  show ?thesis
    using r(1,2) free same lt again units unfolding t_def [symmetric] by blast
qed

theorem release_lease_exact_witness:
  "\<exists>t. release_external_host_lease 0 demo_external = (Inr (), t) \<and> leased t 0 = None
    \<and> pool_free_set t = pool_free_set demo_external \<union> {0, 1}"
proof -
  have "run 0 2 = {0, 1}" by (auto simp: run_def)
  then show ?thesis
    using release_lease_exact [OF demo_external_ok, of 0 demo_lease] by (auto simp: demo_lease_def)
qed

lemma map_of_disowns:
  "map_of (fold disown ids ls) j =
     (if j \<in> set ids then map_option (\<lambda>l. l\<lparr>hl_owner := False\<rparr>) (map_of ls j) else map_of ls j)"
  by (induction ids arbitrary: ls) (auto simp: map_of_disown option.map_comp comp_def)

text \<open>
  detaching makes every lease inert. After the runtime has detached its leases, each lease object
  that its holder still has can be destroyed without touching the pool, whose extents are not
  returned (the runtime is going away), and no unit counts as in use.
\<close>

theorem detach_inert:
  fixes s :: "'z external_state_scheme"
  assumes "leases_ok extra s"
  shows "\<exists>t. detach_external_host_leases s = (Inr (), t) \<and> external_pool_units_in_use t = 0
    \<and> pool_free t = pool_free s \<and> pool_mem t = pool_mem s
    \<and> (\<forall>i. leased t i = None \<and> release_external_host_lease i t = (Inr (), t)
         \<and> (\<exists>ls. destroy_lease i t = (Inr (), t\<lparr>leases := ls\<rparr>)))"
proof -
  define t where "t = s\<lparr>leases := fold disown (external_host_leases s) (leases s),
      external_host_leases := [], external_pool_units_in_use := 0\<rparr>"
  have "detach_external_host_leases s = (Inr (), t)"
    by (cases s) (simp add: detach_external_host_leases_def t_def io_defs)
  moreover have no: "\<not> hl_owner l" if "map_of (leases t) i = Some l" for i l
    using that assms by (fastforce simp: t_def map_of_disowns leases_ok_def split: if_splits)
  have "release_external_host_lease i t = (Inr (), t)" for i
    using no [of i] by (simp add: release_external_host_lease_def io_defs split: option.split)
  moreover have "\<exists>ls. destroy_lease i t = (Inr (), t\<lparr>leases := ls\<rparr>)" for i
  proof (cases "map_of (leases t) i")
    case None
    then show ?thesis by (intro exI [of _ "leases t"]) (simp add: destroy_lease_def io_defs)
  next
    case (Some l)
    then have "destroy_lease i t = (Inr (), t\<lparr>leases := AList.delete i (leases t)\<rparr>)"
      using no [OF Some] by (simp add: destroy_lease_def io_defs)
    then show ?thesis by blast
  qed
  moreover have "leased t i = None" for i by (simp add: leased_def t_def)
  moreover have "external_pool_units_in_use t = 0" "pool_free t = pool_free s" "pool_mem t = pool_mem s"
    by (simp_all add: t_def)
  ultimately show ?thesis by blast
qed

theorem detach_inert_witness:
  "\<exists>t. detach_external_host_leases demo_external = (Inr (), t) \<and> leased t 0 = None
    \<and> release_external_host_lease 0 t = (Inr (), t)"
  using detach_inert [OF demo_external_ok] by blast

end
