(* ===== verification/External_Protocol.thy ===== *)
theory External_Protocol
  imports External_Leases
begin

text \<open>
  The protocol of host requests: over any sequence of calls of the request interface of
  \<open>External_IO\<close>, the active request is the successor of the last acknowledged one, its fields are
  in range, and the sequence numbers that the device is acknowledged are consecutive. Also the
  properties of \<^verbatim>\<open>complete_external_host_request\<close> and \<^verbatim>\<open>supply_external_value\<close>.
\<close>

section \<open>Steps and reachable states\<close>

definition kMoveReqSlotBytes :: nat where "kMoveReqSlotBytes = 160"

text \<open>
  One call of the interface, by whatever thread: the caller sees its result, the state keeps
  its effect. A step for every call, also for those a caller would not make, and for the parts
  of a call before it blocks.
\<close>

inductive external_step ::
  "geometry \<Rightarrow> worker_addresses \<Rightarrow> 'z external_state_scheme \<Rightarrow> 'z external_state_scheme \<Rightarrow> bool"
  for geo wa where
  step_poll: "length buf = kMoveReqSemSize + kMoveReqSlotBytes \<Longrightarrow>
     poll_external_host_request geo buf s = (r, t) \<Longrightarrow> external_step geo wa s t"
| step_receive: "receive_external_value geo wa ob request prefer s = (r', t) \<Longrightarrow> external_step geo wa s t"
| step_supply: "supply_external_value geo wa ob request lease bytes s = (r'', t) \<Longrightarrow> external_step geo wa s t"
| step_complete: "complete_external_host_request geo wa request s = (r3, t) \<Longrightarrow> external_step geo wa s t"
| step_cancel: "cancel_external_host_io s = (r3, t) \<Longrightarrow> external_step geo wa s t"
| step_release: "release_external_host_lease i s = (r3, t) \<Longrightarrow> external_step geo wa s t"
| step_destroy: "destroy_lease i s = (r3, t) \<Longrightarrow> external_step geo wa s t"

inductive external_reach ::
  "geometry \<Rightarrow> worker_addresses \<Rightarrow> 'z external_state_scheme \<Rightarrow> 'z external_state_scheme \<Rightarrow> bool"
  for geo wa s0 where
  reach_start: "external_reach geo wa s0 s0"
| reach_step: "external_reach geo wa s0 s \<Longrightarrow> external_step geo wa s t \<Longrightarrow> external_reach geo wa s0 t"

inductive_cases external_stepE: "external_step geo wa s t"

section \<open>The view of the requests\<close>

definition writes_at :: "u32 \<Rightarrow> event list \<Rightarrow> byte list list" where
  "writes_at addr es = concat (map (\<lambda>e. case e of
      L1_Write a bs \<Rightarrow> if a = addr then [bs] else [] | Stage_Write _ _ \<Rightarrow> []) es)"

lemma writes_at_simps [simp]:
  "writes_at addr [] = []" "writes_at addr (es @ es') = writes_at addr es @ writes_at addr es'"
  "writes_at addr (L1_Write a bs # es) = (if a = addr then bs # writes_at addr es else writes_at addr es)"
  "writes_at addr (Stage_Write off bs # es) = writes_at addr es"
  by (simp_all add: writes_at_def)

text \<open>The acknowledgement word is apart from the other words of the move channel.\<close>

definition separate :: "worker_addresses \<Rightarrow> bool" where
  "separate wa = (move_processed_addr wa \<notin> {commit_req_sem_addr wa, commit_req_addr wa,
     stage_progress_addr wa, evict_ack_sem_addr wa, evict_ack_addr wa})"

definition limits where
  "limits s = (max_keys s, max_key_len s, max_value_bytes s, value_heap_bytes s)"

text \<open>Everything but the phase of the active request.\<close>

definition request_view where
  "request_view wa s = (xr_phase_update (\<lambda>_. Pending) (external_host_request s), external_seen s,
     writes_at (move_processed_addr wa) (events s), limits s)"

lemma request_view_updates [simp]:
  "request_view wa (pool_free_update f1 s) = request_view wa s"
  "request_view wa (pool_meta_update f2 s) = request_view wa s"
  "request_view wa (pool_meta_generations_update f3 s) = request_view wa s"
  "request_view wa (pool_mem_update f4 s) = request_view wa s"
  "request_view wa (stage_mem_update f5 s) = request_view wa s"
  "request_view wa (heap_dram_update f6 s) = request_view wa s"
  "request_view wa (leases_update f7 s) = request_view wa s"
  "request_view wa (next_lease_update f8 s) = request_view wa s"
  "request_view wa (external_host_leases_update f9 s) = request_view wa s"
  "request_view wa (external_pool_units_in_use_update f10 s) = request_view wa s"
  "request_view wa (external_commit_issued_update f11 s) = request_view wa s"
  "request_view wa (external_evict_issued_update f12 s) = request_view wa s"
  "request_view wa (external_host_io_cancelled_update f13 s) = request_view wa s"
  "request_view wa (external_host_request_update (xr_phase_update f14) s) = request_view wa s"
  by (simp_all add: request_view_def limits_def)

lemma request_view_stage [simp]:
  "request_view wa (events_update (\<lambda>es. es @ [Stage_Write off bs]) s) = request_view wa s"
  by (simp add: request_view_def limits_def)

lemma view_write_l1: "addr \<noteq> move_processed_addr wa \<Longrightarrow> keeps (request_view wa) (write_l1 addr bs)"
  unfolding write_l1_def by (rule keeps_modify) (simp add: request_view_def limits_def)

lemma view_ops [frame_rules]:
  "keeps (request_view wa) (pool_alloc n)"
  "keeps (request_view wa) (pool_release u n)"
  "keeps (request_view wa) (write_meta slot g)"
  "keeps (request_view wa) (invalidate_pool_meta slot)"
  "keeps (request_view wa) (invalidate_pool_meta_if_generation slot gen)"
  "keeps (request_view wa) (publish_pool_meta slot ro len)"
  "keeps (request_view wa) (copy_to_stage off bytes)"
  "keeps (request_view wa) (lift_sum x)"
  "keeps (request_view wa) (set_phase ph)"
  "keeps (request_view wa) (release_reserved_pool slot p n)"
  "keeps (request_view wa) (publish_lease request u units ro lease_gen)"
  "keeps (request_view wa) (device_memory h)"
  "keeps (request_view wa) (reserve_receive request pf)"
  unfolding pool_alloc_def pool_release_def write_meta_def invalidate_pool_meta_def
    invalidate_pool_meta_if_generation_def publish_pool_meta_def copy_to_stage_def lift_sum_def set_phase_def
    release_reserved_pool_def publish_lease_def device_memory_def reserve_receive_def
  by (intro frame_rules; simp split: prod.split)+

lemma view_publish_progress:
  "addr \<noteq> move_processed_addr wa \<Longrightarrow> keeps (request_view wa) (publish_stage_progress addr k)"
  unfolding publish_stage_progress_def by (rule view_write_l1)

lemma view_supply_blocks: "addr \<noteq> move_processed_addr wa \<Longrightarrow>
    keeps (request_view wa) (supply_blocks fuel bytes len num addr base)"
proof (induction fuel arbitrary: base)
  case (Suc fuel)
  then show ?case unfolding supply_blocks.simps
    by (intro frame_rules view_publish_progress; simp)
qed (simp add: keeps_ret)

lemma view_validate [frame_rules]: "keeps (request_view wa) (validate_external_request request)"
  unfolding validate_external_request_def by (intro frame_rules)

lemma view_release [frame_rules]: "keeps (request_view wa) (release_external_host_lease i)"
proof -
  have c: "keeps f (catchE m (\<lambda>_. ret ()))" if "keeps f m" for f and m :: "('a external_state_scheme, unit) io"
    using that unfolding keeps_def catchE_def ret_def
    by (auto split: prod.splits sum.splits) (metis snd_conv)+
  show ?thesis unfolding release_external_host_lease_def by (intro frame_rules c; simp)
qed

lemma view_destroy: "keeps (request_view wa) (destroy_lease i)"
  unfolding destroy_lease_def by (intro frame_rules; simp)

lemma view_cancel: "keeps (request_view wa) cancel_external_host_io"
  unfolding cancel_external_host_io_def by (intro frame_rules; simp)

lemma view_receive: "separate wa \<Longrightarrow>
    keeps (request_view wa) (receive_external_value geo wa ob request pf)"
  unfolding receive_external_value_def receive_pushed_def receive_read_def
  by (intro frame_rules view_write_l1; (auto simp: separate_def split: prod.split)?)

lemma view_supply: "separate wa \<Longrightarrow>
    keeps (request_view wa) (supply_external_value geo wa ob request lease bytes)"
  unfolding supply_external_value_def finish_supply_def supply_stream_def supply_staged_def check_supply_source_def post_commit_req_def
  by (intro frame_rules view_write_l1 view_supply_blocks view_publish_progress;
      (auto simp: separate_def split: prod.split)?)

section \<open>The invariant\<close>

definition fields_ok :: "'z external_state_scheme \<Rightarrow> external_request \<Rightarrow> bool" where
  "fields_ok s rq = (xr_slot rq < max_keys s \<and> length (xr_key rq) = unat (xr_key_len rq)
     \<and> (case host_request_kind (xr_op rq) of
          Inl _ \<Rightarrow> False
        | Inr RemoveBacking \<Rightarrow> xr_total_len rq = 0 \<and> xr_key_len rq = 0
        | Inr kind \<Rightarrow> 0 < xr_total_len rq \<and> xr_total_len rq \<le> max_value_bytes s
            \<and> (xr_key_len rq \<noteq> 0 \<longleftrightarrow> kind = PromoteToDevice)
            \<and> (kind \<noteq> ServeGet \<or> xr_value_byte_off rq \<noteq> 0 \<longrightarrow>
                 xr_value_byte_off rq mod kMaxChunkValueBytes = 0
                 \<and> unat (xr_value_byte_off rq) + unat (chunk_aligned_value_bytes (xr_total_len rq))
                     \<le> unat (value_heap_bytes s))))"

definition request_inv :: "'z external_state_scheme \<Rightarrow> bool" where
  "request_inv s = (xr_active (external_host_request s) \<longrightarrow>
     xr_sequence (external_host_request s) = external_seen s + 1 \<and> fields_ok s (external_host_request s))"

lemma unat_u64 [simp]: "unat (ucast (a :: u32) :: u64) = unat a"
proof -
  have "unat a < 2 ^ 64" by (rule less_trans [OF unat_less_4G]) simp
  then show ?thesis by (simp add: unsigned_ucast_eq take_bit_nat_eq_self)
qed

lemma u64_sum_le:
  "(ucast (a :: u32) :: u64) + ucast (b :: u32) \<le> ucast (h :: u32) \<longleftrightarrow> unat a + unat b \<le> unat h"
proof -
  have "unat (ucast a + ucast b :: u64) = unat a + unat b"
  proof -
    have "unat a + unat b < 4294967296 + 4294967296" by (intro add_strict_mono unat_less_4G)
    then have "unat a + unat b < 18446744073709551616" by linarith
    then show ?thesis by (subst unat_word_ariths) simp
  qed
  then show ?thesis by (simp add: word_le_nat_alt)
qed

lemma request_view_inv:
  assumes "request_view wa t = request_view wa s" and "request_inv s"
  shows "request_inv t"
proof -
  let ?p = "xr_phase_update (\<lambda>_. Pending)"
  have e: "?p (external_host_request t) = ?p (external_host_request s)" "external_seen t = external_seen s"
    "limits t = limits s"
    using assms(1) by (simp_all add: request_view_def)
  obtain ph where ph: "external_host_request t = xr_phase_update (\<lambda>_. ph) (external_host_request s)"
    using e(1) by (cases "external_host_request t"; cases "external_host_request s") auto
  have "fields_ok t (xr_phase_update (\<lambda>_. ph) rq) = fields_ok s rq" for rq
    using e(3) by (simp add: fields_ok_def limits_def cong: sum.case_cong request_kind.case_cong)
  then show ?thesis using assms(2) e(2) by (simp add: request_inv_def ph)
qed

definition decoded_ok where
  "decoded_ok s buf kind rq = (xr_active rq \<and> xr_phase rq = Pending \<and> xr_sequence rq = read_le32 buf 0
     \<and> fields_ok s rq \<and> host_request_kind (xr_op rq) = Inr kind)"

lemma check_value_wp:
  "wp (check_value_request kind d) (\<lambda>_ t. t = s \<and> 0 < xr_total_len d \<and> xr_total_len d \<le> max_value_bytes s
      \<and> (xr_key_len d \<noteq> 0 \<longleftrightarrow> kind = PromoteToDevice)
      \<and> (kind \<noteq> ServeGet \<or> xr_value_byte_off d \<noteq> 0 \<longrightarrow> xr_value_byte_off d mod kMaxChunkValueBytes = 0
           \<and> unat (xr_value_byte_off d) + unat (chunk_aligned_value_bytes (xr_total_len d)) \<le> unat (value_heap_bytes s)))
      (\<lambda>_ t. t = s) s"
  by (auto simp: check_value_request_def wp_rules Let_def u64_sum_le word_gt_0)

lemma decode_wp:
  assumes len: "length buf = kMoveReqSemSize + kMoveReqSlotBytes" and keys: "max_key_len s \<le> 128"
  shows "wp (decode_external_request buf) (\<lambda>(kind, rq) t. t = s \<and> decoded_ok s buf kind rq) (\<lambda>_ t. t = s) s"
proof -
  define rq where "rq = read_move_request buf"
  have l: "length (mr_bytes rq) = 160"
    using len by (simp add: rq_def read_move_request_def kMoveReqSlotBytes_def Let_def)
  have key: "length (take (unat n) (drop kMoveReqHeaderBytes (mr_bytes rq))) = unat n"
    if "n \<le> max_key_len s" for n
  proof -
    have "unat n \<le> 128" using that keys by (simp add: word_le_nat_alt)
    then show ?thesis using l by (simp add: kMoveReqHeaderBytes_def)
  qed
  define d where "d = \<lparr>xr_active = True, xr_phase = Pending, xr_sequence = read_le32 buf 0,
      xr_op = mr_op rq, xr_slot = mr_slot rq, xr_value_byte_off = mr_value_byte_off rq,
      xr_total_len = mr_total_len rq, xr_key_len = mr_key_len rq, xr_key = []\<rparr>"
  show ?thesis
  proof (cases "host_request_kind (mr_op rq)")
    case (Inl e)
    then show ?thesis by (simp add: decode_external_request_def Let_def rq_def [symmetric] wp_rules)
  next
    case (Inr kind)
    show ?thesis
    proof (cases "mr_slot rq < max_keys s \<and> mr_key_len rq \<le> max_key_len s")
      case False
      then show ?thesis
        using Inr by (auto simp: decode_external_request_def Let_def rq_def [symmetric] wp_rules)
    next
      case True
      note k = key [of "mr_key_len rq"]
      show ?thesis
      proof (cases "kind = RemoveBacking")
        case rem: True
        then show ?thesis
          using Inr True k
          by (auto simp: decode_external_request_def Let_def rq_def [symmetric] wp_rules decoded_ok_def fields_ok_def)
      next
        case False
        have "wp (check_value_request kind d) (\<lambda>_ t. t = s \<and> decoded_ok s buf kind
            (d\<lparr>xr_key := take (unat (xr_key_len d)) (drop kMoveReqHeaderBytes (mr_bytes rq))\<rparr>)) (\<lambda>_ t. t = s) s"
          by (rule wp_mono [OF check_value_wp])
            (use Inr True k False in \<open>cases kind; simp add: decoded_ok_def fields_ok_def d_def\<close>)+
        then have "wp (check_value_request kind d) (\<lambda>_. wp (ret (kind,
            d\<lparr>xr_key := take (unat (xr_key_len d)) (drop kMoveReqHeaderBytes (mr_bytes rq))\<rparr>))
            (\<lambda>(kind, rq) t. t = s \<and> decoded_ok s buf kind rq) (\<lambda>_ t. t = s)) (\<lambda>_ t. t = s) s"
          by (elim wp_mono) (simp_all add: wp_ret)
        then show ?thesis
          using Inr True False
          by (simp add: decode_external_request_def Let_def rq_def [symmetric] wp_rules d_def)
      qed
    qed
  qed
qed

definition request_of :: "request_kind \<Rightarrow> external_request \<Rightarrow> host_request" where
  "request_of kind rq = \<lparr>rq_sequence = xr_sequence rq, rq_kind = kind, rq_slot = xr_slot rq,
     rq_value_len = xr_total_len rq, rq_device_value_offset = xr_value_byte_off rq\<rparr>"

lemma poll_decoded:
  assumes len: "length buf = kMoveReqSemSize + kMoveReqSlotBytes" and keys: "max_key_len s \<le> 128"
  shows "wp (poll_external_host_request geo buf)
    (\<lambda>r t. (r = None \<and> t = s) \<or> (\<exists>rq kind. t = s\<lparr>external_host_request := rq\<rparr> \<and> decoded_ok s buf kind rq
      \<and> read_le32 buf 0 = external_seen s + 1 \<and> \<not> xr_active (external_host_request s)
      \<and> r = Some (request_of kind rq))) (\<lambda>_ t. t = s) s"
    (is "wp _ ?Q ?E s")
proof -
  have decode: "wp (bindE (decode_external_request buf) (\<lambda>(kind, decoded).
         seqE (modify (external_host_request_update (\<lambda>_. decoded)))
              (ret (Some \<lparr>rq_sequence = read_le32 buf 0, rq_kind = kind, rq_slot = xr_slot decoded,
                 rq_value_len = xr_total_len decoded,
                 rq_device_value_offset = xr_value_byte_off decoded\<rparr>)))) ?Q ?E s"
    if "\<not> xr_active (external_host_request s)" "read_le32 buf 0 = external_seen s + 1"
    unfolding wp_bindE
  proof (rule wp_mono [OF decode_wp [OF len keys]], goal_cases)
    case (1 a t)
    then show ?case
      using that by (cases a) (auto simp: wp_rules decoded_ok_def request_of_def)
  qed simp
  have rest: "wp (if external_host_io_cancelled s then ret None
     else if \<not> server_workload_running s then ret None
     else
       seqE (check (device_found geo) e1)
      (let posted = read_le32 buf 0 in
       if posted = external_seen s then ret None
       else
         seqE (check (posted = external_seen s + 1) e2)
        (bindE (decode_external_request buf) (\<lambda>(kind, decoded).
         seqE (modify (external_host_request_update (\<lambda>_. decoded)))
              (ret (Some \<lparr>rq_sequence = posted, rq_kind = kind, rq_slot = xr_slot decoded,
                 rq_value_len = xr_total_len decoded,
                 rq_device_value_offset = xr_value_byte_off decoded\<rparr>)))))) ?Q ?E s"
    if "\<not> xr_active (external_host_request s)" for e1 e2
    unfolding Let_def wp_if wp_seqE wp_check wp_ret using decode [OF that] by presburger
  show ?thesis
    unfolding poll_external_host_request_def wp_bindE wp_gets wp_seqE wp_check
    using rest by presburger
qed

section \<open>Completion\<close>

definition completed ::
  "worker_addresses \<Rightarrow> host_request \<Rightarrow> 'z external_state_scheme \<Rightarrow> 'z external_state_scheme" where
  "completed wa request s = s\<lparr>events := events s @ [L1_Write (move_processed_addr wa) (semaphore_bytes (rq_sequence request))],
     external_seen := rq_sequence request, external_host_request := no_request\<rparr>"

definition may_complete :: "geometry \<Rightarrow> host_request \<Rightarrow> 'z external_state_scheme \<Rightarrow> bool" where
  "may_complete geo request s = (holds_request request (rq_kind request) s \<and> device_found geo
     \<and> (xr_phase (external_host_request s) = TransferComplete
        \<or> rq_kind request = RemoveBacking \<and> xr_phase (external_host_request s) = Pending))"

lemma validate_cases:
  "validate_external_request request s = (Inr (), s) \<and> holds_request request (rq_kind request) s
   \<or> (\<exists>e. validate_external_request request s = (Inl e, s)) \<and> \<not> holds_request request (rq_kind request) s"
  by (cases "host_request_kind (xr_op (external_host_request s))")
    (auto simp: validate_external_request_def holds_request_def io_defs lift_sum_def)

lemma complete_cases:
  "if may_complete geo request s
   then complete_external_host_request geo wa request s = (Inr (), completed wa request s)
   else \<exists>e. complete_external_host_request geo wa request s = (Inl e, s)"
proof -
  have up: "external_host_request_update (\<lambda>_. no_request) (external_seen_update (\<lambda>_. rq_sequence request)
      (events_update (\<lambda>es. es @ [L1_Write (move_processed_addr wa) (semaphore_bytes (rq_sequence request))]) s))
      = completed wa request s"
    by (cases s) (simp add: completed_def)
  from validate_cases [of request s] show ?thesis
  proof (elim disjE conjE exE)
    fix e assume "validate_external_request request s = (Inl e, s)" "\<not> holds_request request (rq_kind request) s"
    then show ?thesis by (simp add: may_complete_def complete_external_host_request_def seqE_def bindE_def)
  next
    assume "validate_external_request request s = (Inr (), s)" "holds_request request (rq_kind request) s"
    then show ?thesis using up
      by (simp add: may_complete_def complete_external_host_request_def seqE_def bindE_def gets_def check_def
          ret_def throw_def Let_def write_l1_def modify_def)
  qed
qed

section \<open>One step\<close>

inductive request_move ::
  "worker_addresses \<Rightarrow> 'z external_state_scheme \<Rightarrow> 'z external_state_scheme \<Rightarrow> bool" where
  move_none: "request_view wa t = request_view wa s \<Longrightarrow> request_move wa s t"
| move_poll: "\<not> xr_active (external_host_request s) \<Longrightarrow> fields_ok s rq \<Longrightarrow>
    xr_sequence rq = external_seen s + 1 \<Longrightarrow> request_move wa s (s\<lparr>external_host_request := rq\<rparr>)"
| move_complete: "xr_active (external_host_request s) \<Longrightarrow>
    rq_sequence request = xr_sequence (external_host_request s) \<Longrightarrow> request_move wa s (completed wa request s)"

lemma step_move:
  assumes "external_step geo wa s t" and sep: "separate wa" and keys: "max_key_len s \<le> 128"
  shows "request_move wa s t"
  using assms(1)
proof cases
  case (step_poll buf r)
  from poll_decoded [OF step_poll(1) keys, of geo] step_poll(2) show ?thesis
    by (cases r) (auto simp: wp_def decoded_ok_def intro: request_move.intros)
next
  case (step_complete request r)
  show ?thesis
  proof (cases "may_complete geo request s")
    case True
    then have "t = completed wa request s" using complete_cases [of geo request s wa] step_complete by simp
    then show ?thesis using True by (auto simp: may_complete_def holds_request_def intro: move_complete)
  next
    case False
    then have "t = s" using complete_cases [of geo request s wa] step_complete by auto
    then show ?thesis by (simp add: move_none)
  qed
qed (auto intro!: move_none dest: keepsD [OF view_receive [OF sep]] keepsD [OF view_supply [OF sep]]
      keepsD [OF view_cancel] keepsD [OF view_release] keepsD [OF view_destroy])

text \<open>The acknowledgements of \<open>n\<close> requests after the sequence number \<open>start\<close>.\<close>

definition acknowledged :: "u32 \<Rightarrow> nat \<Rightarrow> byte list list" where
  "acknowledged start n = map (\<lambda>k. semaphore_bytes (start + of_nat (Suc k))) [0 ..< n]"

lemma acknowledged_Suc: "acknowledged start (Suc n) = acknowledged start n @ [semaphore_bytes (start + of_nat n + 1)]"
  by (simp add: acknowledged_def add.commute add.left_commute)

definition request_trace where
  "request_trace wa s0 t = (request_inv t \<and> limits t = limits s0
     \<and> (\<exists>n. external_seen t = external_seen s0 + of_nat n
          \<and> writes_at (move_processed_addr wa) (events t)
            = writes_at (move_processed_addr wa) (events s0) @ acknowledged (external_seen s0) n))"

lemma move_trace:
  assumes "request_move wa s t" and "request_trace wa s0 s"
  shows "request_trace wa s0 t"
  using assms
proof (cases rule: request_move.cases)
  case move_none
  then have "request_inv t" using request_view_inv assms(2) by (fastforce simp: request_trace_def)
  then show ?thesis using move_none assms(2) by (simp add: request_trace_def request_view_def)
next
  case (move_poll rq)
  then show ?thesis
    using assms(2)
    by (simp add: request_trace_def request_inv_def limits_def fields_ok_def cong: sum.case_cong request_kind.case_cong)
next
  case (move_complete request)
  obtain n where n: "external_seen s = external_seen s0 + of_nat n"
    "writes_at (move_processed_addr wa) (events s)
      = writes_at (move_processed_addr wa) (events s0) @ acknowledged (external_seen s0) n"
    using assms(2) by (auto simp: request_trace_def)
  have "rq_sequence request = external_seen s + 1"
    using move_complete assms(2) by (simp add: request_trace_def request_inv_def)
  then have "external_seen t = external_seen s0 + of_nat (Suc n)"
    "writes_at (move_processed_addr wa) (events t)
      = writes_at (move_processed_addr wa) (events s0) @ acknowledged (external_seen s0) (Suc n)"
    using n move_complete(1) by (simp_all add: completed_def acknowledged_Suc add.commute add.left_commute)
  moreover have "request_inv t" "limits t = limits s0"
    using move_complete(1) assms(2) by (simp_all add: request_inv_def completed_def no_request_def limits_def request_trace_def)
  ultimately show ?thesis unfolding request_trace_def by blast
qed

section \<open>Streaming from the heap\<close>

text \<open>The block loop over the manager's bytes is the one over a value that has them in a vector.\<close>

lemma supply_blocks_eq:
  assumes "length bytes = unat len"
  shows "supply_blocks fuel bytes len num addr base s
    = stream_blocks fuel \<lparr>hv_heap = bytes, hv_len = len, hv_pool_unit = 0, hv_pool_units = 0, hv_generation = 0\<rparr>
        len num addr base s"
proof (induction fuel arbitrary: base s)
  case (Suc fuel)
  have "host_value_bytes u \<lparr>hv_heap = bytes, hv_len = len, hv_pool_unit = 0, hv_pool_units = 0, hv_generation = 0\<rparr>
      (unat len) = bytes" for u :: "'a host_state_scheme"
    using assms by (simp add: host_value_bytes_def)
  then show ?case
    by (simp add: Let_def seqE_def bindE_def gets_def Suc.IH split: prod.split sum.split)
qed simp

lemma supply_stream_ok:
  fixes s :: "'z host_state_scheme"
  assumes "length bytes = unat (rq_value_len request)" and "rq_value_len request \<noteq> 0"
    and "rq_value_len request \<le> stage_bytes s"
  shows "\<exists>m es. supply_stream request None bytes addr s = (Inr (), s\<lparr>stage_mem := m, events := events s @ es\<rparr>)
    \<and> gated bytes addr (stage_mem s) es \<and> mem_read m 0 (unat (rq_value_len request)) = bytes
    \<and> (\<exists>es'. es = es' @ [L1_Write addr (progress (chunk_count_for (rq_value_len request)))])"
proof -
  let ?len = "rq_value_len request"
  let ?hv = "\<lparr>hv_heap = bytes, hv_len = ?len, hv_pool_unit = 0, hv_pool_units = 0, hv_generation = 0\<rparr>"
  have hv: "host_value_bytes s ?hv (unat ?len) = bytes" using assms(1) by (simp add: host_value_bytes_def)
  have pos: "0 < chunk_count_for ?len" using assms(2) by (simp add: word_gt_0)
  have "mem_read (stage_mem s) 0 (min (unat 0 * 4288) (unat ?len)) = take (min (unat (0 :: u32) * 4288) (unat ?len)) bytes"
    "unat (chunk_count_for ?len) \<le> unat (0 :: u32) + unat (chunk_count_for ?len) * 64"
    by (simp_all add: mem_read_def)
  from stream_blocks_ok [OF hv assms(1) this, where addr = addr] pos show ?thesis
    using assms(3)
    by (simp add: supply_stream_def Let_def bindE_def seqE_def gets_def check_def ret_def supply_blocks_eq [OF assms(1)])
qed

section \<open>Properties\<close>

text \<open>
  C3: requests are taken one at a time, in order. From a state whose active request (if any) is the
  successor of the last acknowledged one, over any sequence of calls of the interface, by any
  threads and with any answers of the device: the active request is always that successor and
  its slot, length, key and heap range are in bounds; and the acknowledgements written to the
  device are exactly the consecutive sequence numbers, none repeated and none skipped.
\<close>

theorem requests_in_order:
  assumes "external_reach geo wa s0 t" and "separate wa" and "max_key_len s0 \<le> 128" and "request_inv s0"
  shows "request_inv t \<and> (\<exists>n. external_seen t = external_seen s0 + of_nat n
    \<and> writes_at (move_processed_addr wa) (events t)
      = writes_at (move_processed_addr wa) (events s0) @ acknowledged (external_seen s0) n)"
proof -
  have "request_trace wa s0 t"
    using assms(1)
  proof (induction rule: external_reach.induct)
    case reach_start
    then show ?case
      using assms(4) by (auto simp: request_trace_def acknowledged_def intro: exI [of _ 0])
  next
    case (reach_step s t)
    then have "max_key_len s \<le> 128" using assms(3) by (simp add: request_trace_def limits_def)
    then show ?case using move_trace [OF step_move [OF reach_step(2) assms(2)] reach_step(3)] by simp
  qed
  then show ?thesis by (simp add: request_trace_def)
qed

definition demo_removal :: external_state where
  "demo_removal = demo_external\<lparr>external_host_request := \<lparr>xr_active = True, xr_phase = Pending, xr_sequence = 5,
     xr_op = kMoveOpRemoveBacking, xr_slot = 3, xr_value_byte_off = 0, xr_total_len = 0, xr_key_len = 0, xr_key = []\<rparr>\<rparr>"

definition demo_remove :: host_request where
  "demo_remove = \<lparr>rq_sequence = 5, rq_kind = RemoveBacking, rq_slot = 3, rq_value_len = 0,
     rq_device_value_offset = 0\<rparr>"

lemma demo_may_remove: "may_complete demo_geometry demo_remove demo_removal"
  by (simp add: may_complete_def holds_request_def demo_remove_def demo_removal_def demo_geometry_def
      host_request_kind_def move_ops)

theorem requests_in_order_witness:
  "\<exists>t. complete_external_host_request demo_geometry demo_channel demo_remove demo_removal = (Inr (), t)
    \<and> request_inv t \<and> \<not> xr_active (external_host_request t)"
proof -
  define t where "t = completed demo_channel demo_remove demo_removal"
  have c: "complete_external_host_request demo_geometry demo_channel demo_remove demo_removal = (Inr (), t)"
    using complete_cases [of demo_geometry demo_remove demo_removal demo_channel] demo_may_remove
    by (simp add: t_def)
  have "external_reach demo_geometry demo_channel demo_removal t"
    by (rule reach_step [OF reach_start]) (rule step_complete [OF c])
  moreover have "separate demo_channel" by (simp add: separate_def demo_channel_def)
  moreover have "request_inv demo_removal" "max_key_len demo_removal \<le> 128"
    by (simp_all add: request_inv_def demo_removal_def fields_ok_def host_request_kind_def move_ops
        word_less_nat_alt)
  ultimately have "request_inv t" using requests_in_order by blast
  moreover have "\<not> xr_active (external_host_request t)" by (simp add: t_def completed_def no_request_def)
  ultimately show ?thesis using c by blast
qed

text \<open>
  A request completes only after its transfer. \<^verbatim>\<open>complete_external_host_request\<close> returns
  exactly for the active request, with matching fields, whose value has been transferred (or that
  removes a backing value and needs no transfer); it then writes the one acknowledgement of its
  sequence number and clears the request. In every other case it throws and changes nothing.
\<close>

theorem complete_exact:
  "if may_complete geo request s
   then complete_external_host_request geo wa request s = (Inr (), completed wa request s)
   else \<exists>e. complete_external_host_request geo wa request s = (Inl e, s)"
  by (rule complete_cases)

text \<open>
  a transfer starts at most once. While the active request's transfer is in progress or done,
  receiving and supplying throw and leave the state as it is, whoever calls them.
\<close>

theorem transfer_starts_once:
  assumes "xr_phase (external_host_request s) \<noteq> Pending"
  shows "(\<exists>e. receive_external_value geo wa ob request prefer s = (Inl e, s))
    \<and> (\<exists>e. supply_external_value geo wa ob request lease bytes s = (Inl e, s))"
  using validate_cases [of request s] assms
  by (auto simp: receive_external_value_def supply_external_value_def seqE_def bindE_def gets_def check_def
      ret_def throw_def)

theorem transfer_starts_once_witness:
  "\<exists>e. receive_external_value demo_geometry demo_channel demo_push_round demo_receive True
     (external_host_request_update (xr_phase_update (\<lambda>_. TransferInProgress)) demo_external)
   = (Inl e, external_host_request_update (xr_phase_update (\<lambda>_. TransferInProgress)) demo_external)"
  using transfer_starts_once [of "external_host_request_update (xr_phase_update (\<lambda>_. TransferInProgress)) demo_external"]
  by simp

text \<open>
  A served value never runs ahead of its bytes. For the active serve request, with the manager's
  bytes of the right length and within the staging window, \<^verbatim>\<open>supply_external_value\<close> first clears the
  progress word, posts the commit request before its semaphore, and then streams: whenever it
  publishes a progress count the window holds that many chunks of the value. If the device's
  completion is seen, it returns with the transfer complete; if it is cancelled, it throws.
\<close>

theorem supply_serve_gated:
  fixes s :: "'z external_state_scheme"
  assumes "holds_request request ServeGet s" and "xr_phase (external_host_request s) = Pending"
    and "stage_noc_ok s" and "device_found geo" and "length bytes = unat (rq_value_len request)"
    and "rq_value_len request \<noteq> 0" and "rq_value_len request \<le> stage_bytes s"
    and "await (external_commit_issued s + 1) (ob_wait ob) = Some left"
  shows "\<exists>r t es. supply_external_value geo wa ob request None bytes s = (r, t)
    \<and> events t = events s @ [L1_Write (stage_progress_addr wa) (progress 0),
        L1_Write (commit_req_addr wa) (external_commit_request request (external_host_request s) 0),
        L1_Write (commit_req_sem_addr wa) (semaphore_bytes (external_commit_issued s + 1))] @ es
    \<and> gated bytes (stage_progress_addr wa) (stage_mem s) es
    \<and> mem_read (stage_mem t) 0 (unat (rq_value_len request)) = bytes
    \<and> (if left \<or> ob_stop_after ob then \<exists>e. r = Inl e
       else r = Inr (Replied ()) \<and> xr_phase (external_host_request t) = TransferComplete)"
proof -
  define creq where "creq = external_commit_request request (external_host_request s) 0"
  define s2 where "s2 = s\<lparr>external_host_request := xr_phase_update (\<lambda>_. TransferInProgress) (external_host_request s),
      external_commit_issued := external_commit_issued s + 1,
      events := events s @ [L1_Write (stage_progress_addr wa) (progress 0),
        L1_Write (commit_req_addr wa) creq,
        L1_Write (commit_req_sem_addr wa) (semaphore_bytes (external_commit_issued s + 1))]\<rparr>"
  have z: "replicate kStageProgressSize 0 = progress 0"
    by (simp add: progress_def kStageProgressSize_def le32_def numeral_eq_Suc)
  obtain m es where str: "supply_stream request None bytes (stage_progress_addr wa) s2
      = (Inr (), s2\<lparr>stage_mem := m, events := events s2 @ es\<rparr>)"
    "gated bytes (stage_progress_addr wa) (stage_mem s2) es" "mem_read m 0 (unat (rq_value_len request)) = bytes"
    using supply_stream_ok [OF assms(5,6), of s2 "stage_progress_addr wa"] assms(7) by (auto simp: s2_def)
  define s3 where "s3 = s2\<lparr>stage_mem := m, events := events s2 @ es\<rparr>"
  have kind: "rq_kind request = ServeGet" using assms(1) by (simp add: holds_request_def)
  have ne: "bytes \<noteq> []" using assms(5,6) by auto
  have up: "events_update ((\<lambda>es. es @ [L1_Write (commit_req_sem_addr wa) (semaphore_bytes (external_commit_issued s + 1))])
      \<circ> ((\<lambda>es. es @ [L1_Write (commit_req_addr wa) creq]) \<circ> (\<lambda>es. es @ [L1_Write (stage_progress_addr wa) (progress 0)])))
      (external_commit_issued_update (\<lambda>n. n + 1)
        (external_host_request_update (xr_phase_update (\<lambda>_. TransferInProgress)) s)) = s2"
    by (cases s) (simp add: s2_def)
  have "supply_external_value geo wa ob request None bytes s =
      (if left \<or> ob_stop_after ob then throw (Thrown ''ServerRuntimeCore host value supply was cancelled'')
       else seqE (set_phase TransferComplete) (ret (Replied ()))) s3"
    using assms(2-5,8) kind ne validate_holds [OF assms(1)] up str(1)
    by (simp add: supply_external_value_def finish_supply_def check_supply_source_def seqE_def bindE_def gets_def check_def ret_def
        set_phase_def modify_def write_l1_def post_commit_req_def z Let_def creq_def [symmetric] comp_assoc
        s3_def [symmetric])
  moreover have "events s3 = events s @ [L1_Write (stage_progress_addr wa) (progress 0),
        L1_Write (commit_req_addr wa) creq,
        L1_Write (commit_req_sem_addr wa) (semaphore_bytes (external_commit_issued s + 1))] @ es"
    "stage_mem s3 = m" by (simp_all add: s3_def s2_def)
  moreover have "gated bytes (stage_progress_addr wa) (stage_mem s) es" using str(2) by (simp add: s2_def)
  ultimately show ?thesis
    using str(3) unfolding creq_def
    by (cases "left \<or> ob_stop_after ob") (auto simp: throw_def seqE_def bindE_def set_phase_def modify_def ret_def)
qed

definition demo_serving :: external_state where
  "demo_serving = demo_external\<lparr>external_host_request := \<lparr>xr_active = True, xr_phase = Pending, xr_sequence = 5,
     xr_op = kMoveOpHostServe, xr_slot = 3, xr_value_byte_off = 0, xr_total_len = 3, xr_key_len = 0, xr_key = []\<rparr>\<rparr>"

theorem supply_serve_gated_witness:
  "\<exists>t. supply_external_value demo_geometry demo_channel demo_push_round
      \<lparr>rq_sequence = 5, rq_kind = ServeGet, rq_slot = 3, rq_value_len = 3, rq_device_value_offset = 0\<rparr>
      None [1, 2, 3] demo_serving = (Inr (Replied ()), t) \<and> mem_read (stage_mem t) 0 3 = [1, 2, 3]"
proof -
  let ?rq = "\<lparr>rq_sequence = 5, rq_kind = ServeGet, rq_slot = 3, rq_value_len = 3, rq_device_value_offset = 0\<rparr>"
  have "holds_request ?rq ServeGet demo_serving" "xr_phase (external_host_request demo_serving) = Pending"
    "stage_noc_ok demo_serving" "device_found demo_geometry" "length [1, 2, 3 :: byte] = unat (rq_value_len ?rq)"
    "rq_value_len ?rq \<noteq> 0" "rq_value_len ?rq \<le> stage_bytes demo_serving"
    "await (external_commit_issued demo_serving + 1) (ob_wait demo_push_round) = Some False"
    by (simp_all add: holds_request_def demo_serving_def host_request_kind_def move_ops demo_geometry_def
        demo_push_round_def demo_wait_def word_le_nat_alt)
  from supply_serve_gated [OF this, of demo_channel] show ?thesis
    by (auto simp: demo_push_round_def)
qed

end
