(* ===== verification/Runtime_Core.thy ===== *)
theory Runtime_Core
  imports External_Protocol
begin

text \<open>
  The lifecycle of one server runtime, \<^verbatim>\<open>ServerRuntimeCore\<close> of \<^verbatim>\<open>server_runtime/server.cpp\<close> with
  \<^verbatim>\<open>launch_server_kernel\<close>, \<^verbatim>\<open>launch_internal_worker_and_server\<close> and \<^verbatim>\<open>terminate_server_kernel\<close> of
  \<^verbatim>\<open>server_program.cpp\<close>, for a server that does not share a static inter-mesh workload: construction with
  its registry entry, launch, termination, release of its resources, quarantine, close and
  destruction.

  What the device and the host threads answer is an argument (\<open>device_answers\<close>). \<open>kernel_running\<close> is a
  ghost: whether the device may be executing the workload. A blocking \<^verbatim>\<open>Finish\<close> that returns means
  that the workload has ended. The buffers and the staging arena are one resource, which is held
  by the runtime, parked in the process-lifetime quarantine list, or released. The pool and
  staging members are those of the store, with null pointers as \<open>False\<close>.
\<close>

section \<open>The state\<close>

type_synonym slot_key = "nat \<times> u32"

record core_state = external_state +
  core_key :: slot_key
  active_slots :: "slot_key list"
  failed_teardown :: "slot_key list"
  emergency_holder :: bool
  resources_held :: bool
  workload_held :: bool
  launch_may_have_started :: bool
  kernel_running :: bool
  core_worker :: bool
  worker_stop :: bool
  core_worker_failed :: bool
  core_worker_failure :: "fault option"

record device_answers =
  da_prepare :: "fault option"
  da_enqueue :: "bool \<times> fault option"
  da_signal :: "fault option"
  da_finish :: "fault option"
  da_after_finish :: "fault option"
  da_drain :: "fault option"
  da_worker :: "fault option"

definition raise_if :: "fault option \<Rightarrow> ('s, unit) io" where
  "raise_if r = (case r of None \<Rightarrow> ret () | Some e \<Rightarrow> throw e)"

definition set_lifecycle :: "core_lifecycle \<Rightarrow> ('z external_state_scheme, unit) io" where
  "set_lifecycle l = modify (core_lifecycle_update (\<lambda>_. l))"

definition unregister_slot :: "('z core_state_scheme, unit) io" where
  "unregister_slot = modify (\<lambda>s. s\<lparr>active_slots := removeAll (core_key s) (active_slots s)\<rparr>)"

definition record_core_worker_failure :: "fault \<Rightarrow> ('z core_state_scheme, unit) io" where
  "record_core_worker_failure failure =
     seqE (modify (core_worker_failure_update (\<lambda>f. case f of None \<Rightarrow> Some failure | Some e \<Rightarrow> Some e)))
          (modify (core_worker_failed_update (\<lambda>_. True)))"

definition throw_if_core_worker_failed :: "('z core_state_scheme, unit) io" where
  "throw_if_core_worker_failed =
     bindE (gets (\<lambda>s. (core_worker_failed s, core_worker_failure s))) (\<lambda>(failed, failure).
     if \<not> failed then ret ()
     else case failure of
            Some e \<Rightarrow> throw e
          | None \<Rightarrow> throw (Thrown ''kvcache_manager tiering worker failed''))"

section \<open>Launch and termination of the kernel\<close>

definition launch_server_kernel :: "device_answers \<Rightarrow> ('z core_state_scheme, unit) io" where
  "launch_server_kernel env =
     bindE (gets workload_held) (\<lambda>workload.
     seqE (check workload (Fatal ''ServerRuntimeCore workload must be prepared before launch''))
    (seqE (modify (launch_may_have_started_update (\<lambda>_. True)))
    (seqE (modify (kernel_running_update (\<lambda>_. snd (da_enqueue env) = None \<or> fst (da_enqueue env))))
    (seqE (raise_if (snd (da_enqueue env)))
          (modify (server_workload_running_update (\<lambda>_. True)))))))"

definition terminate_server_kernel :: "device_answers \<Rightarrow> ('z core_state_scheme, unit) io" where
  "terminate_server_kernel env =
     bindE (gets workload_held) (\<lambda>workload.
     if \<not> workload then ret ()
     else
       seqE (raise_if (da_signal env))
      (seqE (raise_if (da_finish env))
      (seqE (modify (kernel_running_update (\<lambda>_. False)))
      (seqE (modify (server_workload_running_update (\<lambda>_. False)))
      (seqE (raise_if (da_after_finish env))
            (modify (workload_held_update (\<lambda>_. False))))))))"

text \<open>The worker thread exists behind a gate before the kernel is launched.\<close>

definition launch_internal_worker_and_server :: "device_answers \<Rightarrow> ('z core_state_scheme, unit) io" where
  "launch_internal_worker_and_server env =
     seqE (modify (worker_stop_update (\<lambda>_. False)))
    (seqE (catchE (launch_server_kernel env)
             (\<lambda>e. seqE (modify (worker_stop_update (\<lambda>_. True))) (throw e)))
          (modify (core_worker_update (\<lambda>_. True))))"

section \<open>Quarantine and release\<close>

definition join_core_worker :: "('z core_state_scheme, unit) io" where
  "join_core_worker =
     seqE (modify (worker_stop_update (\<lambda>_. True))) (modify (core_worker_update (\<lambda>_. False)))"

definition quarantine_failed_teardown :: "('z core_state_scheme, unit) io" where
  "quarantine_failed_teardown =
     seqE join_core_worker
    (bindE (gets emergency_holder) (\<lambda>holder.
     if \<not> holder then ret ()
     else
       seqE (modify (emergency_holder_update (\<lambda>_. False)))
      (seqE (modify (workload_held_update (\<lambda>_. False)))
      (seqE (modify (resources_held_update (\<lambda>_. False)))
            (modify (\<lambda>s. s\<lparr>failed_teardown := core_key s # failed_teardown s\<rparr>))))))"

definition quarantine_external_runtime :: "('z core_state_scheme, unit) io" where
  "quarantine_external_runtime =
     bindE (gets external_policy) (\<lambda>external.
     if \<not> external then ret ()
     else
       seqE (modify (external_host_io_cancelled_update (\<lambda>_. True)))
      (seqE (modify (server_workload_running_update (\<lambda>_. False)))
      (seqE detach_external_host_leases
      (seqE (set_lifecycle Core_Quarantined)
            quarantine_failed_teardown))))"

text \<open>The store, the pool and the staging window are forgotten, then every device allocation.\<close>

definition clear_host_state :: "('z host_state_scheme, unit) io" where
  "clear_host_state =
     modify (\<lambda>s. s\<lparr>host_values := [], pool_free := [], pool_mapped := False, pool_units_total := 0,
        meta_mapped := False, pool_meta_generations := (\<lambda>_. 0), stage_noc_ok := False\<rparr>)"

definition release_buffers :: "('z core_state_scheme, unit) io" where
  "release_buffers =
     seqE (modify (workload_held_update (\<lambda>_. False)))
    (seqE (modify (resources_held_update (\<lambda>_. False)))
          (modify (emergency_holder_update (\<lambda>_. False))))"

definition release_external_runtime_resources :: "('z core_state_scheme, unit) io" where
  "release_external_runtime_resources =
     bindE (gets (\<lambda>s. (external_policy s, core_lifecycle s))) (\<lambda>(external, state).
     seqE (check external (Fatal ''external resource release requires external host policy''))
    (seqE (check (state = Core_Constructing \<or> state = Core_Closing \<or> state = Core_Closed)
            (Fatal ''external runtime resources cannot be released while its device workload may be running''))
    (if state = Core_Closed then ret ()
     else
       bindE (gets (\<lambda>s. (external_host_leases s, external_pool_units_in_use s))) (\<lambda>(held, units).
       seqE (check (held = []) (Fatal ''external runtime still owns mapped host leases''))
      (seqE (check (units = 0) (Fatal ''external runtime still owns mapped host-pool units''))
      (seqE clear_host_state
      (seqE release_buffers
      (seqE unregister_slot
            (set_lifecycle Core_Closed)))))))))"

section \<open>Construction\<close>

definition construct_core :: "device_answers \<Rightarrow> fault option \<Rightarrow> ('z core_state_scheme, unit) io" where
  "construct_core env precondition =
     seqE (raise_if precondition)
    (seqE (modify (emergency_holder_update (\<lambda>_. True)))
    (bindE (gets (\<lambda>s. core_key s \<in> set (active_slots s))) (\<lambda>taken.
     seqE (check (\<not> taken) (Fatal ''A ServerRuntimeCore is already active on server_submesh''))
    (seqE (modify (\<lambda>s. s\<lparr>active_slots := core_key s # active_slots s\<rparr>))
    (seqE (catchE
            (seqE (modify (resources_held_update (\<lambda>_. True)))
            (seqE (raise_if (da_prepare env))
            (seqE (modify (workload_held_update (\<lambda>_. True)))
            (bindE (gets external_policy) (\<lambda>external.
             if external then ret () else launch_internal_worker_and_server env)))))
            (\<lambda>failure. bindE (gets launch_may_have_started) (\<lambda>started.
               seqE (if started then seqE (set_lifecycle Core_Quarantined) quarantine_failed_teardown
                     else seqE unregister_slot release_buffers)
                    (throw failure))))
    (bindE (gets external_policy) (\<lambda>external.
     if external then ret () else set_lifecycle Core_Ready)))))))"

section \<open>The external runtime\<close>

definition launch_external_runtime :: "device_answers \<Rightarrow> u32 \<Rightarrow> ('z core_state_scheme, unit) io" where
  "launch_external_runtime env initial_counter =
     bindE (gets (\<lambda>s. (external_policy s, core_lifecycle s))) (\<lambda>(external, state).
     seqE (check external (Fatal ''launch_external_runtime requires external host policy''))
    (seqE (check (state = Core_Constructing)
            (Fatal ''external runtime can launch only from its prepared state''))
    (seqE (modify (\<lambda>s. s\<lparr>external_seen := initial_counter, external_commit_issued := initial_counter,
             external_evict_issued := initial_counter, external_host_io_cancelled := False\<rparr>))
    (seqE (catchE (launch_server_kernel env)
             (\<lambda>e. bindE (gets launch_may_have_started) (\<lambda>started.
                seqE (whenE started (seqE (set_lifecycle Core_Quarantined) quarantine_failed_teardown))
                     (throw e))))
          (set_lifecycle Core_Ready)))))"

definition terminate_external_runtime :: "device_answers \<Rightarrow> ('z core_state_scheme, unit) io" where
  "terminate_external_runtime env =
     bindE (gets (\<lambda>s. (external_policy s, core_lifecycle s))) (\<lambda>(external, state).
     seqE (check external (Fatal ''terminate_external_runtime requires external host policy''))
    (if state = Core_Closed \<or> state = Core_Quarantined then ret ()
     else
       seqE (check (state = Core_Ready \<or> state = Core_Closing)
              (Fatal ''external runtime cannot terminate from its current lifecycle state''))
      (seqE (set_lifecycle Core_Closing)
            (terminate_server_kernel env))))"

section \<open>Closing\<close>

text \<open>The drain, during which the worker may fail.\<close>

definition drain_puts :: "device_answers \<Rightarrow> ('z core_state_scheme, unit) io" where
  "drain_puts env =
     seqE (case da_worker env of None \<Rightarrow> ret () | Some e \<Rightarrow> record_core_worker_failure e)
          (raise_if (da_drain env))"

definition drain_before_teardown :: "device_answers \<Rightarrow> ('z core_state_scheme, unit) io" where
  "drain_before_teardown env =
     bindE (gets core_worker_failed) (\<lambda>failed.
     whenE (\<not> failed)
       (catchE (drain_puts env)
          (\<lambda>e. bindE (gets core_worker_failed) (\<lambda>failed.
             if failed then ret ()
             else seqE (modify (core_lifecycle_update (\<lambda>l. if l = Core_Closing then Core_Ready else l)))
                       (throw e)))))"

definition close_core :: "device_answers \<Rightarrow> ('z core_state_scheme, unit) io" where
  "close_core env =
     bindE (gets core_lifecycle) (\<lambda>state.
     if state = Core_Quarantined \<or> state = Core_Closed then ret ()
     else
       seqE (check (state = Core_Ready \<or> state = Core_Closing)
              (Fatal ''ServerRuntimeCore cannot close from its current lifecycle state''))
      (seqE (whenE (state = Core_Ready)
               (seqE (set_lifecycle Core_Closing) (drain_before_teardown env)))
      (seqE (terminate_server_kernel env)
      (seqE join_core_worker
      (seqE clear_host_state
      (seqE release_buffers
      (seqE unregister_slot
      (seqE (set_lifecycle Core_Closed)
            throw_if_core_worker_failed))))))))"

text \<open>The destructor, with what the device answers to the first and to the second attempt.\<close>

definition destroy_core :: "device_answers \<Rightarrow> device_answers \<Rightarrow> ('z core_state_scheme, unit) io" where
  "destroy_core env env' =
     bindE (gets (\<lambda>s. (external_policy s, core_lifecycle s))) (\<lambda>(external, state).
     if external then
       if state = Core_Constructing then release_external_runtime_resources
       else if state = Core_Ready \<or> state = Core_Closing then quarantine_external_runtime
       else ret ()
     else
       catchE (close_core env)
         (\<lambda>_. bindE (gets core_lifecycle) (\<lambda>l.
            if l = Core_Closed then ret ()
            else catchE (close_core env')
                   (\<lambda>_. bindE (gets core_lifecycle) (\<lambda>l.
                      if l = Core_Closed then ret () else quarantine_failed_teardown)))))"

section \<open>The invariant\<close>

text \<open>
  What the members mean in each lifecycle state. \<open>memory_safe\<close> is the point of it: while the device may
  run the workload, the memory it uses is held or quarantined, and the slot stays registered.
\<close>

definition slot_held :: "'z core_state_scheme \<Rightarrow> bool" where
  "slot_held s = (emergency_holder s \<and> resources_held s \<and> (kernel_running s \<longrightarrow> workload_held s)
     \<and> core_key s \<in> set (active_slots s) \<and> core_key s \<notin> set (failed_teardown s))"

definition slot_free :: "'z core_state_scheme \<Rightarrow> bool" where
  "slot_free s = (\<not> kernel_running s \<and> \<not> resources_held s \<and> \<not> emergency_holder s \<and> \<not> workload_held s
     \<and> core_key s \<notin> set (active_slots s))"

definition slot_quarantined :: "'z core_state_scheme \<Rightarrow> bool" where
  "slot_quarantined s = (\<not> resources_held s \<and> \<not> emergency_holder s \<and> \<not> workload_held s
     \<and> core_key s \<in> set (failed_teardown s))"

definition core_ok :: "'z core_state_scheme \<Rightarrow> bool" where
  "core_ok s = (set (failed_teardown s) \<subseteq> set (active_slots s)
     \<and> (case core_lifecycle s of
          Core_Constructing \<Rightarrow> slot_held s \<and> workload_held s \<and> \<not> launch_may_have_started s \<and> \<not> kernel_running s
        | Core_Ready \<Rightarrow> slot_held s
        | Core_Closing \<Rightarrow> slot_held s
        | Core_Quarantined \<Rightarrow> slot_quarantined s
        | Core_Closed \<Rightarrow> slot_free s))"

definition memory_safe :: "'z core_state_scheme \<Rightarrow> bool" where
  "memory_safe s = (kernel_running s \<longrightarrow> core_key s \<in> set (active_slots s)
     \<and> (resources_held s \<or> core_key s \<in> set (failed_teardown s)))"

lemmas slot_defs = slot_held_def slot_free_def slot_quarantined_def core_ok_def

lemma core_ok_memory_safe: "core_ok s \<Longrightarrow> memory_safe s"
  by (auto simp: slot_defs memory_safe_def split: core_lifecycle.splits)

text \<open>The members of the lifecycle, which the host store and the leases do not touch.\<close>

definition core_view where
  "core_view s = (core_lifecycle s, core_key s, active_slots s, failed_teardown s, emergency_holder s,
     resources_held s, workload_held s, launch_may_have_started s, kernel_running s)"

lemma core_view_ok: "core_view t = core_view s \<Longrightarrow> core_ok t = core_ok s"
  by (simp add: core_view_def slot_defs cong: core_lifecycle.case_cong)

lemma wp_raise_if [wp_rules]: "wp (raise_if r) Q E s = (case r of None \<Rightarrow> Q () s | Some e \<Rightarrow> E e s)"
  by (simp add: raise_if_def wp_rules split: option.split)

lemma wp_join [wp_rules]: "wp join_core_worker Q E s = Q () (s\<lparr>worker_stop := True, core_worker := False\<rparr>)"
  by (cases s) (simp add: join_core_worker_def wp_rules)

definition quarantined where
  "quarantined s = s\<lparr>worker_stop := True, core_worker := False, emergency_holder := False,
     workload_held := False, resources_held := False, failed_teardown := core_key s # failed_teardown s\<rparr>"

lemma wp_quarantine [wp_rules]: "wp quarantine_failed_teardown Q E s =
    Q () (if emergency_holder s then quarantined s else s\<lparr>worker_stop := True, core_worker := False\<rparr>)"
  by (cases s) (simp add: quarantine_failed_teardown_def wp_rules quarantined_def)

lemma wp_set_lifecycle [wp_rules]: "wp (set_lifecycle l) Q E s = Q () (s\<lparr>core_lifecycle := l\<rparr>)"
  by (cases s) (simp add: set_lifecycle_def wp_rules)

lemma wp_unregister [wp_rules]:
  "wp unregister_slot Q E s = Q () (s\<lparr>active_slots := removeAll (core_key s) (active_slots s)\<rparr>)"
  by (simp add: unregister_slot_def wp_rules)

lemma wp_release_buffers [wp_rules]: "wp release_buffers Q E s =
    Q () (s\<lparr>workload_held := False, resources_held := False, emergency_holder := False\<rparr>)"
  by (cases s) (simp add: release_buffers_def wp_rules)

lemma wp_detach [wp_rules]: "wp detach_external_host_leases Q E s =
    Q () (s\<lparr>leases := fold disown (external_host_leases s) (leases s), external_host_leases := [],
            external_pool_units_in_use := 0\<rparr>)"
  by (cases s) (simp add: detach_external_host_leases_def wp_rules)

lemma wp_launch [wp_rules]: "wp (launch_server_kernel env) Q E s =
    (if workload_held s then
       (let u = s\<lparr>launch_may_have_started := True,
                  kernel_running := snd (da_enqueue env) = None \<or> fst (da_enqueue env)\<rparr> in
        case snd (da_enqueue env) of None \<Rightarrow> Q () (u\<lparr>server_workload_running := True\<rparr>) | Some e \<Rightarrow> E e u)
     else E (Fatal ''ServerRuntimeCore workload must be prepared before launch'') s)"
  by (cases "workload_held s") (simp_all add: launch_server_kernel_def wp_rules Let_def split: option.split)

text \<open>Termination: from a held slot, the kernel has ended when it returns; otherwise the slot is still held.\<close>

lemma terminate_kernel_wp:
  fixes s :: "'z core_state_scheme"
  assumes "slot_held s"
  shows "wp (terminate_server_kernel env)
    (\<lambda>_ t. slot_held t \<and> \<not> kernel_running t \<and> \<not> workload_held t \<and> core_lifecycle t = core_lifecycle s
       \<and> core_key t = core_key s \<and> active_slots t = active_slots s \<and> failed_teardown t = failed_teardown s
       \<and> external_policy t = external_policy s)
    (\<lambda>_ t. slot_held t \<and> core_lifecycle t = core_lifecycle s \<and> core_key t = core_key s
       \<and> active_slots t = active_slots s \<and> failed_teardown t = failed_teardown s
       \<and> external_policy t = external_policy s) s"
proof (cases "workload_held s")
  case True
  then show ?thesis using assms
    by (simp add: terminate_server_kernel_def wp_rules slot_held_def split: option.split)
next
  case False
  then show ?thesis using assms by (auto simp: terminate_server_kernel_def wp_rules slot_held_def)
qed

section \<open>Every operation keeps the invariant\<close>

lemma quarantined_ok:
  "slot_held s \<Longrightarrow> set (failed_teardown s) \<subseteq> set (active_slots s) \<Longrightarrow>
     core_ok (quarantined s\<lparr>core_lifecycle := Core_Quarantined\<rparr>)"
  by (auto simp: quarantined_def slot_defs)

lemma construct_core_ok:
  fixes s :: "'z core_state_scheme"
  assumes "set (failed_teardown s) \<subseteq> set (active_slots s)" and "core_lifecycle s = Core_Constructing"
    and "\<not> launch_may_have_started s" and "\<not> kernel_running s" and "\<not> resources_held s" and "\<not> workload_held s"
  shows "wp (construct_core env precondition)
    (\<lambda>_ t. core_ok t) (\<lambda>_ t. set (failed_teardown t) \<subseteq> set (active_slots t) \<and> memory_safe t) s"
  using assms
  by (auto simp: construct_core_def wp_rules launch_internal_worker_and_server_def Let_def slot_defs memory_safe_def
      quarantined_def split: option.split if_splits)

lemma launch_external_ok:
  assumes "core_ok s"
  shows "wp (launch_external_runtime env n)
    (\<lambda>_ t. core_ok t \<and> core_lifecycle t = Core_Ready) (\<lambda>_ t. core_ok t) s"
  using assms
  by (auto simp: launch_external_runtime_def wp_rules Let_def slot_defs quarantined_def split: option.split if_splits)

lemma terminate_external_ok:
  assumes "core_ok s"
  shows "wp (terminate_external_runtime env)
    (\<lambda>_ t. core_ok t \<and> (core_lifecycle s = Core_Quarantined \<or> \<not> kernel_running t)) (\<lambda>_ t. core_ok t) s"
proof -
  consider "core_lifecycle s = Core_Closed" | "core_lifecycle s = Core_Quarantined"
    | "core_lifecycle s = Core_Constructing" | "core_lifecycle s = Core_Ready \<or> core_lifecycle s = Core_Closing"
    by (cases "core_lifecycle s") auto
  then show ?thesis
  proof cases
    case 4
    define u where "u = s\<lparr>core_lifecycle := Core_Closing\<rparr>"
    have h: "slot_held u" "set (failed_teardown s) \<subseteq> set (active_slots s)"
      using assms 4 by (auto simp: u_def slot_defs)
    have "wp (terminate_server_kernel env)
        (\<lambda>_ t. core_ok t \<and> (core_lifecycle s = Core_Quarantined \<or> \<not> kernel_running t)) (\<lambda>_ t. core_ok t) u"
      using terminate_kernel_wp [OF h(1)] by (rule wp_mono) (use h(2) in \<open>auto simp: core_ok_def u_def\<close>)
    then show ?thesis
      using 4 assms by (auto simp: terminate_external_runtime_def wp_rules u_def)
  qed (use assms in \<open>auto simp: terminate_external_runtime_def wp_rules core_ok_def slot_free_def\<close>)
qed

lemma release_external_ok:
  assumes "core_ok s" and "\<not> kernel_running s"
  shows "wp release_external_runtime_resources
    (\<lambda>_ t. core_ok t \<and> core_lifecycle t = Core_Closed) (\<lambda>_ t. t = s) s"
  using assms
  by (auto simp: release_external_runtime_resources_def wp_rules clear_host_state_def slot_defs
      split: core_lifecycle.splits)

lemma quarantine_external_ok:
  assumes "core_ok s" and "external_policy s" and "core_lifecycle s \<noteq> Core_Closed"
  shows "wp quarantine_external_runtime
    (\<lambda>_ t. core_ok t \<and> core_lifecycle t = Core_Quarantined) (\<lambda>_ _. False) s"
  using assms
  by (auto simp: quarantine_external_runtime_def wp_rules slot_defs quarantined_def
      split: core_lifecycle.splits)

lemma close_core_ok:
  fixes s :: "'z core_state_scheme"
  assumes "core_ok s"
  shows "wp (close_core env)
    (\<lambda>_ t. core_ok t \<and> (core_lifecycle s \<noteq> Core_Quarantined \<longrightarrow> core_lifecycle t = Core_Closed))
    (\<lambda>_ t. core_ok t) s"
proof -
  consider (idle) "core_lifecycle s = Core_Closed \<or> core_lifecycle s = Core_Quarantined"
    | (new) "core_lifecycle s = Core_Constructing" | (live) "core_lifecycle s = Core_Ready \<or> core_lifecycle s = Core_Closing"
    by (cases "core_lifecycle s") auto
  then show ?thesis
  proof cases
    case live
    have tail: "wp (seqE (terminate_server_kernel env)
      (seqE join_core_worker
      (seqE clear_host_state
      (seqE release_buffers
      (seqE unregister_slot
      (seqE (set_lifecycle Core_Closed)
            throw_if_core_worker_failed))))))
      (\<lambda>_ t. core_ok t \<and> core_lifecycle t = Core_Closed) (\<lambda>_ t. core_ok t) u"
      if u: "slot_held u" "core_lifecycle u = Core_Closing \<or> core_lifecycle u = Core_Ready"
        "set (failed_teardown u) \<subseteq> set (active_slots u)" for u :: "'z core_state_scheme"
      unfolding wp_seqE
    proof (rule wp_mono [OF terminate_kernel_wp [OF u(1)]], goal_cases)
      case (1 a t)
      have k: "core_key t \<notin> set (failed_teardown t)" "set (failed_teardown t) \<subseteq> set (active_slots t)"
        using 1 u by (auto simp: slot_defs)
      then show ?case
        using 1 by (auto simp: wp_rules clear_host_state_def throw_if_core_worker_failed_def slot_defs
            split: option.split)
    next
      case (2 e t)
      then show ?case using u by (auto simp: core_ok_def)
    qed
    let ?closing = "s\<lparr>core_lifecycle := Core_Closing\<rparr>"
    have h: "slot_held s" "set (failed_teardown s) \<subseteq> set (active_slots s)"
      using live assms by (auto simp: core_ok_def)
    show ?thesis
    proof (cases "core_lifecycle s = Core_Ready")
      case False
      then show ?thesis using tail [of s] live h by (auto simp: close_core_def wp_rules elim: wp_mono)
    next
      case True
      have drain: "wp (drain_before_teardown env)
          (\<lambda>_ t. slot_held t \<and> core_lifecycle t = Core_Closing \<and> set (failed_teardown t) \<subseteq> set (active_slots t))
          (\<lambda>_ t. core_ok t) ?closing"
        using h by (auto simp: drain_before_teardown_def drain_puts_def record_core_worker_failure_def wp_rules
            slot_defs split: option.split)
      have "wp (drain_before_teardown env) (\<lambda>_. wp (seqE (terminate_server_kernel env)
        (seqE join_core_worker (seqE clear_host_state (seqE release_buffers (seqE unregister_slot
        (seqE (set_lifecycle Core_Closed) throw_if_core_worker_failed))))))
        (\<lambda>_ t. core_ok t \<and> core_lifecycle t = Core_Closed) (\<lambda>_ t. core_ok t)) (\<lambda>_ t. core_ok t) ?closing"
        using drain by (rule wp_mono) (auto intro!: tail)
      then show ?thesis using True by (simp add: close_core_def wp_rules)
    qed
  qed (use assms in \<open>auto simp: close_core_def wp_rules core_ok_def\<close>)
qed

lemma destroy_core_safe:
  fixes s :: "'z core_state_scheme"
  assumes "core_ok s"
  shows "wp (destroy_core env env')
    (\<lambda>_ t. memory_safe t \<and> set (failed_teardown t) \<subseteq> set (active_slots t)) (\<lambda>_ t. memory_safe t) s"
proof (cases "external_policy s")
  case True
  have safe: "memory_safe t \<and> set (failed_teardown t) \<subseteq> set (active_slots t)" if "core_ok t" for t :: "'z core_state_scheme"
    using that core_ok_memory_safe by (auto simp: core_ok_def)
  show ?thesis
  proof (cases "core_lifecycle s = Core_Constructing")
    case new: True
    then have "\<not> kernel_running s" using assms by (simp add: core_ok_def)
    from release_external_ok [OF assms this] show ?thesis
      using True new safe assms by (auto simp: destroy_core_def wp_bindE wp_gets elim!: wp_mono)
  next
    case False
    then show ?thesis
      using True assms quarantine_external_ok [OF assms True] safe
      by (cases "core_lifecycle s") (auto simp: destroy_core_def wp_bindE wp_gets wp_ret elim!: wp_mono)
  qed
next
  case False
  have q: "memory_safe (if emergency_holder t then quarantined t else t\<lparr>worker_stop := True, core_worker := False\<rparr>)
      \<and> set (failed_teardown (if emergency_holder t then quarantined t else t\<lparr>worker_stop := True, core_worker := False\<rparr>))
        \<subseteq> set (active_slots (if emergency_holder t then quarantined t else t\<lparr>worker_stop := True, core_worker := False\<rparr>))"
    if "core_ok t" for t :: "'z core_state_scheme"
    using that by (auto simp: memory_safe_def quarantined_def slot_defs split: core_lifecycle.splits)
  have safe: "memory_safe t \<and> set (failed_teardown t) \<subseteq> set (active_slots t)" if "core_ok t" for t :: "'z core_state_scheme"
    using that core_ok_memory_safe by (auto simp: core_ok_def)
  have second: "wp (catchE (close_core env') (\<lambda>_. bindE (gets core_lifecycle) (\<lambda>l.
        if l = Core_Closed then ret () else quarantine_failed_teardown)))
      (\<lambda>_ t. memory_safe t \<and> set (failed_teardown t) \<subseteq> set (active_slots t)) (\<lambda>_ t. memory_safe t) u"
    if "core_ok u" for u :: "'z core_state_scheme"
    unfolding wp_catchE
    by (rule wp_mono [OF close_core_ok [OF that, of env']]) (use safe q in \<open>auto simp: wp_rules\<close>)
  have "wp (catchE (close_core env) (\<lambda>_. bindE (gets core_lifecycle) (\<lambda>l.
        if l = Core_Closed then ret () else catchE (close_core env') (\<lambda>_. bindE (gets core_lifecycle) (\<lambda>l.
        if l = Core_Closed then ret () else quarantine_failed_teardown)))))
      (\<lambda>_ t. memory_safe t \<and> set (failed_teardown t) \<subseteq> set (active_slots t)) (\<lambda>_ t. memory_safe t) s"
    unfolding wp_catchE [of "close_core env"] wp_bindE wp_gets
  proof (rule wp_mono [OF close_core_ok [OF assms, of env]], goal_cases)
    case (2 e t)
    then show ?case
      using safe [of t] second [of t] by (cases "core_lifecycle t = Core_Closed") (simp_all add: wp_ret)
  qed (use safe in blast)
  then show ?thesis using False by (simp add: destroy_core_def wp_bindE wp_gets)
qed

end
