(* ===== verification/Device_Runtime.thy ===== *)
theory Device_Runtime
  imports Runtime_Core
begin

text \<open>
  \<^verbatim>\<open>ServerDeviceRuntime\<close> of \<^verbatim>\<open>server_runtime/server_device_runtime.cpp\<close> (and its last functions in
  \<^verbatim>\<open>server_device_runtime_io.cpp\<close>): the object by which the manager drives one runtime. Its phase is
  checked by every call; launch, termination and destruction move it together with the lifecycle
  of the runtime core. The main result is that no order of calls, with any answers of the device,
  reaches a state in which the device may run a workload whose memory has been released.
\<close>

section \<open>The operations\<close>

datatype runtime_phase = Prepared | Running | Runtime_Closing | Terminated | Runtime_Quarantined

record device_runtime_state = core_state +
  runtime_phase :: runtime_phase

definition set_runtime_phase :: "runtime_phase \<Rightarrow> ('z device_runtime_state_scheme, unit) io" where
  "set_runtime_phase p = modify (runtime_phase_update (\<lambda>_. p))"

definition create_runtime ::
  "bool \<Rightarrow> device_answers \<Rightarrow> fault option \<Rightarrow> ('z device_runtime_state_scheme, unit) io" where
  "create_runtime submesh_given env precondition =
     seqE (check submesh_given (Fatal ''ServerDeviceRuntime server_submesh must be non-null''))
    (seqE (modify (external_policy_update (\<lambda>_. True)))
    (seqE (construct_core env precondition)
          (set_runtime_phase Prepared)))"

definition launch_runtime :: "device_answers \<Rightarrow> u32 \<Rightarrow> ('z device_runtime_state_scheme, unit) io" where
  "launch_runtime env initial_counter =
     bindE (gets runtime_phase) (\<lambda>phase.
     seqE (check (phase = Prepared) (Fatal ''ServerDeviceRuntime can launch only from Prepared''))
    (seqE (catchE (launch_external_runtime env initial_counter)
             (\<lambda>e. bindE (gets core_lifecycle) (\<lambda>l.
                seqE (whenE (l = Core_Quarantined) (set_runtime_phase Runtime_Quarantined)) (throw e))))
          (set_runtime_phase Running)))"

definition terminate_runtime :: "device_answers \<Rightarrow> ('z device_runtime_state_scheme, unit) io" where
  "terminate_runtime env =
     bindE (gets runtime_phase) (\<lambda>current.
     if current = Terminated \<or> current = Runtime_Quarantined then ret ()
     else
       seqE (check (current = Running \<or> current = Runtime_Closing)
              (Fatal ''ServerDeviceRuntime can terminate only from Running or Closing''))
      (seqE (set_runtime_phase Runtime_Closing)
      (seqE (terminate_external_runtime env)
      (seqE cancel_external_host_io
            (set_runtime_phase Terminated)))))"

text \<open>The body of the destructor; the core is destroyed after it.\<close>

definition retire_runtime :: "('z device_runtime_state_scheme, unit) io" where
  "retire_runtime =
     catchE
       (bindE (gets runtime_phase) (\<lambda>current.
        if current = Prepared \<or> current = Terminated then release_external_runtime_resources
        else if current = Running \<or> current = Runtime_Closing then
          seqE quarantine_external_runtime (set_runtime_phase Runtime_Quarantined)
        else ret ()))
       (\<lambda>_. seqE quarantine_external_runtime (set_runtime_phase Runtime_Quarantined))"

definition destroy_runtime ::
  "device_answers \<Rightarrow> device_answers \<Rightarrow> ('z device_runtime_state_scheme, unit) io" where
  "destroy_runtime env env' = seqE retire_runtime (destroy_core env env')"

text \<open>The checked calls of the host request interface.\<close>

definition check_phase :: "string \<Rightarrow> ('z device_runtime_state_scheme, unit) io" where
  "check_phase what =
     bindE (gets runtime_phase) (\<lambda>current.
     check (current = Running \<or> current = Runtime_Closing) (Fatal what))"

definition poll_host_request ::
  "geometry \<Rightarrow> byte list \<Rightarrow> ('z device_runtime_state_scheme, host_request option) io" where
  "poll_host_request geo poll_buffer =
     bindE (gets runtime_phase) (\<lambda>current.
     if current = Terminated then ret None
     else seqE (check_phase ''ServerRuntimeCore host request poll requires Running or Closing state'')
               (poll_external_host_request geo poll_buffer))"

definition receive_value :: "geometry \<Rightarrow> worker_addresses \<Rightarrow> observation \<Rightarrow> host_request \<Rightarrow> bool \<Rightarrow>
    ('z device_runtime_state_scheme, received_value reply) io" where
  "receive_value geo wa ob request prefer_mapped_lease =
     seqE (check_phase ''ServerRuntimeCore value receive requires Running or Closing state'')
          (receive_external_value geo wa ob request prefer_mapped_lease)"

definition supply_value :: "geometry \<Rightarrow> worker_addresses \<Rightarrow> observation \<Rightarrow> host_request \<Rightarrow>
    host_lease option \<Rightarrow> byte list \<Rightarrow> ('z device_runtime_state_scheme, unit reply) io" where
  "supply_value geo wa ob request lease heap_bytes =
     seqE (check_phase ''ServerRuntimeCore value supply requires Running or Closing state'')
          (supply_external_value geo wa ob request lease heap_bytes)"

definition complete_host_request ::
  "geometry \<Rightarrow> worker_addresses \<Rightarrow> host_request \<Rightarrow> ('z device_runtime_state_scheme, unit) io" where
  "complete_host_request geo wa request =
     seqE (check_phase ''ServerRuntimeCore host request completion requires Running or Closing state'')
          (complete_external_host_request geo wa request)"

definition runtime_is_ready :: "'z device_runtime_state_scheme \<Rightarrow> bool" where
  "runtime_is_ready s = (runtime_phase s = Running \<and> core_lifecycle s = Core_Ready
     \<and> server_workload_running s \<and> \<not> core_worker_failed s)"

text \<open>The guard of the drain; how the drain itself ends is the device's answer.\<close>

definition drain_inflight_puts_checked :: "device_answers \<Rightarrow> ('z device_runtime_state_scheme, unit) io" where
  "drain_inflight_puts_checked env =
     seqE (check_phase ''ServerDeviceRuntime PUT drain requires Running or Closing state'')
          (raise_if (da_drain env))"

section \<open>What the host request interface leaves alone\<close>

definition phase_view where
  "phase_view s = (core_view s, external_policy s, runtime_phase s, server_workload_running s, host_values s,
     max_keys s, max_key_len s, max_value_bytes s, value_heap_bytes s, pool_mapped s, meta_mapped s, stage_noc_ok s,
     stage_bytes s, external_host_io_cancelled s, device_runtime_state.more s)"

lemma phase_view_updates [simp]:
  "phase_view (pool_free_update f1 s) = phase_view s"
  "phase_view (pool_meta_update f2 s) = phase_view s"
  "phase_view (pool_meta_generations_update f3 s) = phase_view s"
  "phase_view (pool_mem_update f4 s) = phase_view s"
  "phase_view (stage_mem_update f5 s) = phase_view s"
  "phase_view (heap_dram_update f6 s) = phase_view s"
  "phase_view (events_update f7 s) = phase_view s"
  "phase_view (leases_update f8 s) = phase_view s"
  "phase_view (next_lease_update f9 s) = phase_view s"
  "phase_view (external_host_leases_update f10 s) = phase_view s"
  "phase_view (external_pool_units_in_use_update f11 s) = phase_view s"
  "phase_view (external_commit_issued_update f12 s) = phase_view s"
  "phase_view (external_evict_issued_update f13 s) = phase_view s"
  "phase_view (external_host_request_update f15 s) = phase_view s"
  "phase_view (external_seen_update f16 s) = phase_view s"
  by (simp_all add: phase_view_def core_view_def)

lemma phase_ops [frame_rules]:
  "keeps phase_view (pool_alloc n)"
  "keeps phase_view (pool_release u n)"
  "keeps phase_view (write_meta slot g)"
  "keeps phase_view (invalidate_pool_meta slot)"
  "keeps phase_view (invalidate_pool_meta_if_generation slot gen)"
  "keeps phase_view (publish_pool_meta slot ro len)"
  "keeps phase_view (copy_to_stage off bytes)"
  "keeps phase_view (lift_sum x)"
  "keeps phase_view (set_phase ph)"
  "keeps phase_view (release_reserved_pool slot p n)"
  "keeps phase_view (publish_lease request u units ro lease_gen)"
  "keeps phase_view (device_memory h)"
  "keeps phase_view (reserve_receive request pf)"
  "keeps phase_view (write_l1 addr bs)"
  "keeps phase_view (publish_stage_progress addr k)"
  "keeps phase_view (validate_external_request request)"
  "keeps phase_view (check_value_request kind d)"
  unfolding pool_alloc_def pool_release_def write_meta_def invalidate_pool_meta_def
    invalidate_pool_meta_if_generation_def publish_pool_meta_def copy_to_stage_def lift_sum_def set_phase_def
    release_reserved_pool_def publish_lease_def device_memory_def reserve_receive_def write_l1_def
    publish_stage_progress_def validate_external_request_def check_value_request_def
  by (intro frame_rules; simp split: prod.split)+

lemma phase_supply_blocks [frame_rules]:
  "keeps phase_view (supply_blocks fuel bytes len num addr base)"
proof (induction fuel arbitrary: base)
  case (Suc fuel)
  then show ?case unfolding supply_blocks.simps by (intro frame_rules; simp)
qed (simp add: keeps_ret)

lemma phase_catch [frame_rules]: "keeps f m \<Longrightarrow> (\<And>e. keeps f (h e)) \<Longrightarrow> keeps f (catchE m h)"
  unfolding keeps_def catchE_def by (auto split: prod.splits sum.splits) (metis snd_conv)+

lemma phase_io:
  "keeps phase_view (poll_host_request geo buf)"
  "keeps phase_view (receive_value geo wa ob request pf)"
  "keeps phase_view (supply_value geo wa ob request lease bytes)"
  "keeps phase_view (complete_host_request geo wa request)"
  "keeps phase_view (release_external_host_lease i)"
  "keeps phase_view (destroy_lease i)"
  "keeps phase_view (drain_inflight_puts_checked env)"
proof -
  show r: "keeps phase_view (release_external_host_lease i)" for i
    unfolding release_external_host_lease_def by (intro frame_rules; simp)
  show "keeps phase_view (poll_host_request geo buf)"
    unfolding poll_host_request_def check_phase_def poll_external_host_request_def decode_external_request_def
    by (intro frame_rules; simp split: prod.split)
  show "keeps phase_view (receive_value geo wa ob request pf)"
    unfolding receive_value_def check_phase_def receive_external_value_def receive_pushed_def receive_read_def
    by (intro frame_rules; simp split: prod.split)
  show "keeps phase_view (supply_value geo wa ob request lease bytes)"
    unfolding supply_value_def check_phase_def supply_external_value_def finish_supply_def supply_stream_def
      supply_staged_def check_supply_source_def post_commit_req_def
    by (intro frame_rules; simp split: prod.split)
  show "keeps phase_view (complete_host_request geo wa request)"
    unfolding complete_host_request_def check_phase_def complete_external_host_request_def
    by (intro frame_rules; simp)
  show "keeps phase_view (destroy_lease i)"
    unfolding destroy_lease_def by (intro frame_rules r; simp)
  show "keeps phase_view (drain_inflight_puts_checked env)"
    unfolding drain_inflight_puts_checked_def check_phase_def raise_if_def by (intro frame_rules)
qed

section \<open>The invariant of the phases\<close>

definition phase_lifecycle :: "runtime_phase \<Rightarrow> core_lifecycle" where
  "phase_lifecycle p = (case p of Prepared \<Rightarrow> Core_Constructing | Running \<Rightarrow> Core_Ready
     | Runtime_Closing \<Rightarrow> Core_Closing | Terminated \<Rightarrow> Core_Closing | Runtime_Quarantined \<Rightarrow> Core_Quarantined)"

definition runtime_ok :: "'z device_runtime_state_scheme \<Rightarrow> bool" where
  "runtime_ok s = (core_ok s \<and> external_policy s \<and> core_lifecycle s = phase_lifecycle (runtime_phase s)
     \<and> (runtime_phase s = Terminated \<longrightarrow> \<not> kernel_running s))"

lemma phase_view_ok: "phase_view t = phase_view s \<Longrightarrow> runtime_ok t = runtime_ok s"
  using core_view_ok [of t s] by (simp add: runtime_ok_def phase_view_def core_view_def)

lemma keeps_runtime_ok: "keeps phase_view m \<Longrightarrow> runtime_ok s \<Longrightarrow> m s = (r, t) \<Longrightarrow> runtime_ok t"
  using keepsD phase_view_ok by metis

lemma wp_set_runtime_phase [wp_rules]: "wp (set_runtime_phase p) Q E s = Q () (s\<lparr>runtime_phase := p\<rparr>)"
  by (simp add: set_runtime_phase_def wp_rules)

lemma create_runtime_ok:
  fixes s :: "'z device_runtime_state_scheme"
  assumes "set (failed_teardown s) \<subseteq> set (active_slots s)" and "core_lifecycle s = Core_Constructing"
    and "\<not> launch_may_have_started s" and "\<not> kernel_running s" and "\<not> resources_held s" and "\<not> workload_held s"
  shows "wp (create_runtime given env precondition) (\<lambda>_ t. runtime_ok t) (\<lambda>_ t. memory_safe t) s"
  using assms
  by (auto simp: create_runtime_def construct_core_def wp_rules slot_defs memory_safe_def runtime_ok_def
      phase_lifecycle_def split: option.split if_splits)

lemma launch_runtime_ok:
  fixes s :: "'z device_runtime_state_scheme"
  assumes "runtime_ok s"
  shows "wp (launch_runtime env n) (\<lambda>_ t. runtime_ok t \<and> runtime_phase t = Running) (\<lambda>_ t. runtime_ok t) s"
proof (cases "runtime_phase s = Prepared")
  case True
  then show ?thesis
    using assms
    by (auto simp: launch_runtime_def launch_external_runtime_def wp_rules Let_def slot_defs quarantined_def
        runtime_ok_def phase_lifecycle_def split: option.split if_splits)
qed (use assms in \<open>simp add: launch_runtime_def wp_rules\<close>)

lemma terminate_runtime_ok:
  fixes s :: "'z device_runtime_state_scheme"
  assumes "runtime_ok s"
  shows "wp (terminate_runtime env)
    (\<lambda>_ t. runtime_ok t \<and> (runtime_phase t = Terminated \<or> runtime_phase t = Runtime_Quarantined)) (\<lambda>_ t. runtime_ok t) s"
proof -
  consider (live) "runtime_phase s = Running \<or> runtime_phase s = Runtime_Closing"
    | (idle) "runtime_phase s = Terminated \<or> runtime_phase s = Runtime_Quarantined" | (new) "runtime_phase s = Prepared"
    by (cases "runtime_phase s") auto
  then show ?thesis
  proof cases
    case live
    define u where "u = s\<lparr>runtime_phase := Runtime_Closing, core_lifecycle := Core_Closing\<rparr>"
    have h: "slot_held u" "external_policy s" "set (failed_teardown s) \<subseteq> set (active_slots s)"
      "core_lifecycle s = Core_Ready \<or> core_lifecycle s = Core_Closing"
      using assms live by (auto simp: runtime_ok_def core_ok_def phase_lifecycle_def u_def slot_held_def)
    have ph: "keeps runtime_phase (terminate_server_kernel env :: ('z device_runtime_state_scheme, unit) io)"
      unfolding terminate_server_kernel_def raise_if_def by (intro frame_rules; simp)
    have "wp (terminate_server_kernel env)
        (\<lambda>_ t. runtime_ok (t\<lparr>external_host_io_cancelled := True, runtime_phase := Terminated\<rparr>)) (\<lambda>_ t. runtime_ok t) u"
    proof (rule wp_mono [OF wp_conj [OF terminate_kernel_wp [OF h(1)] wp_keeps
          [OF ph, where Q = "\<lambda>_ t. runtime_phase t = runtime_phase u" and E = "\<lambda>_ t. runtime_phase t = runtime_phase u"]]],
        goal_cases)
      case (3 _ t)
      then show ?case using h(2,3) by (auto simp: runtime_ok_def core_ok_def slot_held_def u_def phase_lifecycle_def)
    next
      case (4 _ t)
      then show ?case using h(2,3) by (auto simp: runtime_ok_def core_ok_def u_def phase_lifecycle_def)
    qed
    moreover have "s\<lparr>core_lifecycle := Core_Closing, runtime_phase := Runtime_Closing\<rparr> = u" by (cases s) (simp add: u_def)
    ultimately show ?thesis
      using live h(2,4)
      by (auto simp: terminate_runtime_def terminate_external_runtime_def cancel_external_host_io_def wp_rules u_def
          elim!: wp_mono)
  qed (use assms in \<open>auto simp: terminate_runtime_def wp_rules runtime_ok_def\<close>)
qed

text \<open>Whatever phase the runtime is in, its destruction settles the slot.\<close>

lemma retire_runtime_ok:
  fixes s :: "'z device_runtime_state_scheme"
  assumes "runtime_ok s"
  shows "wp retire_runtime (\<lambda>_ t. core_ok t \<and> external_policy t
    \<and> (core_lifecycle t = Core_Closed \<or> core_lifecycle t = Core_Quarantined)) (\<lambda>_ _. False) s"
    (is "wp _ ?Q _ s")
proof -
  have keep: "keeps external_policy (release_external_runtime_resources :: ('z device_runtime_state_scheme, unit) io)"
    "keeps external_policy (quarantine_external_runtime :: ('z device_runtime_state_scheme, unit) io)"
    unfolding release_external_runtime_resources_def quarantine_external_runtime_def clear_host_state_def
      release_buffers_def unregister_slot_def set_lifecycle_def detach_external_host_leases_def
      quarantine_failed_teardown_def join_core_worker_def
    by (intro frame_rules; simp)+
  have q: "wp (seqE quarantine_external_runtime (set_runtime_phase Runtime_Quarantined)) ?Q (\<lambda>_ _. False) u"
    if "runtime_ok u" for u :: "'z device_runtime_state_scheme"
  proof -
    have u: "core_ok u" "external_policy u" "core_lifecycle u \<noteq> Core_Closed"
      using that by (auto simp: runtime_ok_def phase_lifecycle_def split: runtime_phase.splits)
    have "wp quarantine_external_runtime (\<lambda>_ t. external_policy t = external_policy u) (\<lambda>_ _. True) u"
      by (rule wp_keeps [OF keep(2)]) auto
    from wp_conj [OF quarantine_external_ok [OF u] this] show ?thesis
      unfolding wp_seqE wp_set_runtime_phase using u(2)
      by (elim wp_mono) (auto simp: core_ok_def slot_quarantined_def)
  qed
  have r: "wp release_external_runtime_resources ?Q (\<lambda>_ t. t = s) s"
    if "runtime_phase s = Prepared \<or> runtime_phase s = Terminated"
  proof -
    have u: "core_ok s" "external_policy s" "\<not> kernel_running s"
      using that assms by (auto simp: runtime_ok_def phase_lifecycle_def core_ok_def)
    have "wp release_external_runtime_resources (\<lambda>_ t. external_policy t = external_policy s) (\<lambda>_ _. True) s"
      by (rule wp_keeps [OF keep(1)]) auto
    from wp_conj [OF release_external_ok [OF u(1,3)] this] show ?thesis
      using u(2) by (elim wp_mono) simp_all
  qed
  consider (free) "runtime_phase s = Prepared \<or> runtime_phase s = Terminated"
    | (live) "runtime_phase s = Running \<or> runtime_phase s = Runtime_Closing" | (gone) "runtime_phase s = Runtime_Quarantined"
    by (cases "runtime_phase s") auto
  then show ?thesis
  proof cases
    case free
    then show ?thesis using r q [OF assms]
      by (auto simp: retire_runtime_def wp_catchE wp_bindE wp_gets elim!: wp_mono)
  next
    case live
    then show ?thesis using q [OF assms]
      by (auto simp: retire_runtime_def wp_catchE wp_bindE wp_gets elim!: wp_mono)
  next
    case gone
    then show ?thesis using assms
      by (simp add: retire_runtime_def wp_rules runtime_ok_def phase_lifecycle_def)
  qed
qed

lemma destroy_runtime_run:
  assumes "runtime_ok s"
  shows "\<exists>t. destroy_runtime env env' s = (Inr (), t) \<and> memory_safe t
    \<and> (if slot_free t then core_lifecycle t = Core_Closed
       else core_lifecycle t = Core_Quarantined \<and> slot_quarantined t \<and> core_key t \<in> set (active_slots t))"
proof -
  obtain t where t: "retire_runtime s = (Inr (), t)" "core_ok t" "external_policy t"
    "core_lifecycle t = Core_Closed \<or> core_lifecycle t = Core_Quarantined"
    using retire_runtime_ok [OF assms] by (auto simp: wp_def split: prod.splits sum.splits)
  then have "destroy_runtime env env' s = (Inr (), t)"
    by (auto simp: destroy_runtime_def seqE_def bindE_def destroy_core_def gets_def ret_def)
  then show ?thesis
    using t(2,4) core_ok_memory_safe [OF t(2)] by (auto simp: core_ok_def slot_free_def slot_quarantined_def)
qed

text \<open>The members of an owner of the runtime are its own.\<close>

lemma owner_core:
  "keeps device_runtime_state.more (raise_if r)"
  "keeps device_runtime_state.more (launch_server_kernel env)"
  "keeps device_runtime_state.more (terminate_server_kernel env)"
  "keeps device_runtime_state.more quarantine_failed_teardown"
  "keeps device_runtime_state.more unregister_slot"
  "keeps device_runtime_state.more release_buffers"
  "keeps device_runtime_state.more clear_host_state"
  "keeps device_runtime_state.more (set_lifecycle l)"
  "keeps device_runtime_state.more join_core_worker"
  "keeps device_runtime_state.more detach_external_host_leases"
  "keeps device_runtime_state.more (set_runtime_phase p)"
  "keeps device_runtime_state.more cancel_external_host_io"
  "keeps device_runtime_state.more throw_if_core_worker_failed"
  "keeps device_runtime_state.more (record_core_worker_failure f)"
  unfolding raise_if_def launch_server_kernel_def terminate_server_kernel_def quarantine_failed_teardown_def
    unregister_slot_def release_buffers_def clear_host_state_def set_lifecycle_def join_core_worker_def
    detach_external_host_leases_def set_runtime_phase_def cancel_external_host_io_def throw_if_core_worker_failed_def
    record_core_worker_failure_def
  by (intro frame_rules; simp)+

lemma owner_lifecycle:
  "keeps device_runtime_state.more release_external_runtime_resources"
  "keeps device_runtime_state.more quarantine_external_runtime"
  "keeps device_runtime_state.more (launch_internal_worker_and_server env)"
  "keeps device_runtime_state.more (drain_before_teardown env)"
  unfolding release_external_runtime_resources_def quarantine_external_runtime_def launch_internal_worker_and_server_def
    drain_before_teardown_def drain_puts_def
  by (intro frame_rules owner_core; simp)+

lemma owner_runtime:
  "keeps device_runtime_state.more (create_runtime given env precondition)"
  "keeps device_runtime_state.more (launch_runtime env n)"
  "keeps device_runtime_state.more (terminate_runtime env)"
  "keeps device_runtime_state.more (destroy_runtime env env')"
  unfolding create_runtime_def construct_core_def launch_runtime_def launch_external_runtime_def terminate_runtime_def
    terminate_external_runtime_def destroy_runtime_def retire_runtime_def destroy_core_def close_core_def
  by (intro frame_rules owner_core owner_lifecycle; simp)+

section \<open>Steps and reachable states\<close>

inductive runtime_step ::
  "geometry \<Rightarrow> worker_addresses \<Rightarrow> 'z device_runtime_state_scheme \<Rightarrow> 'z device_runtime_state_scheme \<Rightarrow> bool"
  for geo wa where
  call_launch: "launch_runtime env n s = (r, t) \<Longrightarrow> runtime_step geo wa s t"
| call_terminate: "terminate_runtime env s = (r, t) \<Longrightarrow> runtime_step geo wa s t"
| call_poll: "poll_host_request geo buf s = (rp, t) \<Longrightarrow> runtime_step geo wa s t"
| call_receive: "receive_value geo wa ob request pf s = (rv, t) \<Longrightarrow> runtime_step geo wa s t"
| call_supply: "supply_value geo wa ob request lease bytes s = (rs, t) \<Longrightarrow> runtime_step geo wa s t"
| call_complete: "complete_host_request geo wa request s = (r, t) \<Longrightarrow> runtime_step geo wa s t"
| call_destroy_lease: "destroy_lease i s = (r, t) \<Longrightarrow> runtime_step geo wa s t"
| call_cancel: "cancel_external_host_io s = (r, t) \<Longrightarrow> runtime_step geo wa s t"
| call_drain: "drain_inflight_puts_checked env s = (r, t) \<Longrightarrow> runtime_step geo wa s t"

inductive runtime_reach ::
  "geometry \<Rightarrow> worker_addresses \<Rightarrow> 'z device_runtime_state_scheme \<Rightarrow> 'z device_runtime_state_scheme \<Rightarrow> bool"
  for geo wa s0 where
  runtime_start: "runtime_reach geo wa s0 s0"
| runtime_more: "runtime_reach geo wa s0 s \<Longrightarrow> runtime_step geo wa s t \<Longrightarrow> runtime_reach geo wa s0 t"

lemma wp_both: "wp m (\<lambda>_. P) (\<lambda>_. P) s \<Longrightarrow> m s = (r, t) \<Longrightarrow> P t"
  by (simp add: wp_def split: sum.splits)

lemma runtime_step_ok:
  assumes "runtime_step geo wa s t" and "runtime_ok s"
  shows "runtime_ok t"
  using assms(1)
proof cases
  case (call_launch env n r)
  have "wp (launch_runtime env n) (\<lambda>_. runtime_ok) (\<lambda>_. runtime_ok) s"
    by (rule wp_mono [OF launch_runtime_ok [OF assms(2)]]) auto
  then show ?thesis using call_launch by (rule wp_both)
next
  case (call_terminate env r)
  have "wp (terminate_runtime env) (\<lambda>_. runtime_ok) (\<lambda>_. runtime_ok) s"
    by (rule wp_mono [OF terminate_runtime_ok [OF assms(2)]]) auto
  then show ?thesis using call_terminate by (rule wp_both)
next
  case (call_cancel r)
  then show ?thesis
    using assms(2)
    by (auto simp: cancel_external_host_io_def modify_def runtime_ok_def slot_defs cong: core_lifecycle.case_cong)
qed (use assms(2) in \<open>auto elim: keeps_runtime_ok [OF phase_io(1)] keeps_runtime_ok [OF phase_io(2)]
    keeps_runtime_ok [OF phase_io(3)] keeps_runtime_ok [OF phase_io(4)] keeps_runtime_ok [OF phase_io(6)]
    keeps_runtime_ok [OF phase_io(7)]\<close>)

lemma runtime_reach_ok: "runtime_reach geo wa s t \<Longrightarrow> runtime_ok s \<Longrightarrow> runtime_ok t"
  by (induction rule: runtime_reach.induct) (auto intro: runtime_step_ok)

section \<open>Properties\<close>

definition unbuilt :: "'z core_state_scheme \<Rightarrow> bool" where
  "unbuilt s = (set (failed_teardown s) \<subseteq> set (active_slots s) \<and> core_lifecycle s = Core_Constructing
     \<and> \<not> launch_may_have_started s \<and> \<not> kernel_running s \<and> \<not> resources_held s \<and> \<not> workload_held s)"

definition demo_unbuilt :: device_runtime_state where
  "demo_unbuilt = core_state.extend (external_state.extend (demo_external
       \<lparr>core_lifecycle := Core_Constructing, external_host_leases := [], external_pool_units_in_use := 0\<rparr>)
     (core_state.fields (0, 1) [(0, 0)] [] False False False False False False False False None))
       (device_runtime_state.fields Prepared)"

definition demo_answers :: device_answers where
  "demo_answers = \<lparr>da_prepare = None, da_enqueue = (False, None), da_signal = None, da_finish = None,
     da_after_finish = None, da_drain = None, da_worker = None\<rparr>"

lemma demo_unbuilt_ok: "unbuilt demo_unbuilt"
  by (simp add: unbuilt_def demo_unbuilt_def core_state.defs external_state.defs device_runtime_state.defs)

lemma create_demo:
  "\<exists>t. create_runtime True demo_answers None demo_unbuilt = (Inr (), t) \<and> runtime_phase t = Prepared"
proof -
  have "wp (create_runtime True demo_answers None) (\<lambda>_ t. runtime_phase t = Prepared) (\<lambda>_ _. False) demo_unbuilt"
    by (simp add: create_runtime_def construct_core_def wp_rules demo_unbuilt_def demo_answers_def core_state.defs
        external_state.defs device_runtime_state.defs)
  then show ?thesis by (auto simp: wp_def split: prod.splits sum.splits)
qed

text \<open>
  C4: the device never runs a workload whose memory is gone. From an object under construction, whatever
  the device answers: a construction that throws leaves no such state, and after one that
  returns, every sequence of calls (launch, terminate, request handling, lease destruction, drain)
  keeps the phase in step with the lifecycle of the core, and whenever the workload may be
  running its buffers are held or quarantined and its slot is still registered.
\<close>

theorem runtime_memory_safe:
  fixes s :: "'z device_runtime_state_scheme"
  assumes "unbuilt s"
  shows "case create_runtime given env precondition s of
      (Inl e, t) \<Rightarrow> memory_safe t
    | (Inr u, s0) \<Rightarrow> \<forall>t. runtime_reach geo wa s0 t \<longrightarrow> runtime_ok t \<and> memory_safe t"
proof -
  have "wp (create_runtime given env precondition) (\<lambda>_ t. runtime_ok t) (\<lambda>_ t. memory_safe t) s"
    using assms by (intro create_runtime_ok) (simp_all add: unbuilt_def)
  moreover have "runtime_ok t \<and> memory_safe t" if "runtime_ok s0" "runtime_reach geo wa s0 t"
    for s0 t :: "'z device_runtime_state_scheme"
    using runtime_reach_ok [OF that(2,1)] by (simp add: runtime_ok_def core_ok_memory_safe)
  ultimately show ?thesis by (auto simp: wp_def split: prod.splits sum.splits)
qed

theorem runtime_memory_safe_witness:
  "\<exists>t u. create_runtime True demo_answers None demo_unbuilt = (Inr (), t)
    \<and> launch_runtime demo_answers 9 t = (Inr (), u) \<and> runtime_ok u \<and> memory_safe u"
proof -
  obtain t where t: "create_runtime True demo_answers None demo_unbuilt = (Inr (), t)" "runtime_phase t = Prepared"
    using create_demo by blast
  have all: "\<forall>u. runtime_reach demo_geometry demo_channel t u \<longrightarrow> runtime_ok u \<and> memory_safe u"
    using runtime_memory_safe [OF demo_unbuilt_ok, where given = True and env = demo_answers and precondition = None
      and geo = demo_geometry and wa = demo_channel] t by simp
  then have ok: "runtime_ok t" using runtime_start by blast
  then have "external_policy t" "core_lifecycle t = Core_Constructing" "workload_held t"
    using t(2) by (auto simp: runtime_ok_def phase_lifecycle_def core_ok_def)
  then have "wp (launch_runtime demo_answers 9) (\<lambda>_ _. True) (\<lambda>_ _. False) t"
    using t(2) by (simp add: launch_runtime_def launch_external_runtime_def wp_rules Let_def demo_answers_def)
  then obtain u where u: "launch_runtime demo_answers 9 t = (Inr (), u)"
    by (auto simp: wp_def split: prod.splits sum.splits)
  have "runtime_reach demo_geometry demo_channel t u"
    by (rule runtime_more [OF runtime_start]) (rule call_launch [OF u])
  then show ?thesis using all t(1) u by blast
qed

text \<open>
  C35: destruction always settles. The destructor of a runtime in any consistent phase never throws:
  afterwards either the workload has ended, everything is released and the slot is free for a new
  runtime, or its memory is parked for the rest of the process and the slot stays taken.
\<close>

theorem destroy_runtime_settles:
  assumes "runtime_ok s"
  shows "\<exists>t. destroy_runtime env env' s = (Inr (), t) \<and> memory_safe t
    \<and> (if slot_free t then core_lifecycle t = Core_Closed
       else core_lifecycle t = Core_Quarantined \<and> slot_quarantined t \<and> core_key t \<in> set (active_slots t))"
  by (rule destroy_runtime_run [OF assms])

theorem destroy_runtime_settles_witness:
  "\<exists>t u. create_runtime True demo_answers None demo_unbuilt = (Inr (), t)
    \<and> destroy_runtime demo_answers demo_answers t = (Inr (), u) \<and> memory_safe u"
proof -
  obtain t where t: "create_runtime True demo_answers None demo_unbuilt = (Inr (), t)" using create_demo by blast
  have "wp (create_runtime True demo_answers None) (\<lambda>_ t. runtime_ok t) (\<lambda>_ t. memory_safe t) demo_unbuilt"
    using demo_unbuilt_ok by (intro create_runtime_ok) (simp_all add: unbuilt_def)
  then have "runtime_ok t" using t by (simp add: wp_def)
  from destroy_runtime_settles [OF this, of demo_answers demo_answers] show ?thesis using t by blast
qed

end
