(* ===== verification/Server_Manager.thy ===== *)
theory Server_Manager
  imports Device_Runtime
begin

text \<open>
  The manager side of a server, \<^verbatim>\<open>Server::Impl\<close> of \<^verbatim>\<open>native/ttnn/server_tiering.cpp\<close> and
  \<^verbatim>\<open>native/ttnn/server_lifecycle.cpp\<close>: it owns the host values, by slot, as leases of the runtime's pool
  or as byte vectors, drives the runtime from its worker thread, and closes or quarantines it.

  The runtime is a member of the state (\<open>runtime_present\<close> is \<^verbatim>\<open>runtime_ != nullptr\<close>); resetting it runs
  its destructor. A worker thread is the list of the rounds it makes, with what it observes in
  each. Clocks are left out of the profile.
\<close>

section \<open>The state\<close>

datatype server_lifecycle =
  Server_Constructing | Server_Ready | Server_Closing | Server_Quarantined | Server_Closed

record manager_value =
  mv_len :: u32
  mv_lease :: "nat option"
  mv_bytes :: "byte list"

record move_profile =
  mp_to_host_count :: u64
  mp_to_host_read_calls :: u64
  mp_to_host_read_bytes :: u64
  mp_to_host_read_passes :: u64
  mp_to_host_read_retries :: u64
  mp_to_host_device_pushes :: u64
  mp_to_device_count :: u64

definition no_moves :: move_profile where
  "no_moves = \<lparr>mp_to_host_count = 0, mp_to_host_read_calls = 0, mp_to_host_read_bytes = 0, mp_to_host_read_passes = 0,
     mp_to_host_read_retries = 0, mp_to_host_device_pushes = 0, mp_to_device_count = 0\<rparr>"

record server_state = device_runtime_state +
  server_lifecycle :: server_lifecycle
  runtime_present :: bool
  manager_values :: "(u32 \<times> manager_value) list"
  manager_worker :: bool
  manager_stop :: bool
  manager_failed :: bool
  manager_failure :: "fault option"
  registry_registered :: bool
  server_registry_key :: slot_key
  active_servers :: "slot_key list"
  profile_enabled :: bool
  poll_us :: u32
  moves_completed :: u64
  move_profile :: move_profile

section \<open>The host values\<close>

definition destroy_handle :: "nat option \<Rightarrow> ('z external_state_scheme, unit) io" where
  "destroy_handle h = (case h of None \<Rightarrow> ret () | Some i \<Rightarrow> destroy_lease i)"

text \<open>\<^verbatim>\<open>host_values_.erase(slot)\<close> and \<^verbatim>\<open>insert_or_assign\<close>, with the destruction of the handle they drop.\<close>

definition erase_value :: "u32 \<Rightarrow> ('z server_state_scheme, unit) io" where
  "erase_value slot =
     bindE (gets (\<lambda>s. map_of (manager_values s) slot)) (\<lambda>it. case it of
       None \<Rightarrow> ret ()
     | Some v \<Rightarrow> seqE (destroy_handle (mv_lease v)) (modify (manager_values_update (AList.delete slot))))"

definition assign_value :: "u32 \<Rightarrow> manager_value \<Rightarrow> ('z server_state_scheme, unit) io" where
  "assign_value slot value =
     bindE (gets (\<lambda>s. map_of (manager_values s) slot)) (\<lambda>it.
     seqE (case it of None \<Rightarrow> ret () | Some v \<Rightarrow> destroy_handle (mv_lease v))
          (modify (manager_values_update (AList.update slot value))))"

definition clear_values :: "('z server_state_scheme, unit) io" where
  "clear_values =
     bindE (gets manager_values) (\<lambda>vs.
     seqE (forE vs (\<lambda>e. destroy_handle (mv_lease (snd e)))) (modify (manager_values_update (\<lambda>_. []))))"

definition checked_runtime :: "('z server_state_scheme, unit) io" where
  "checked_runtime =
     bindE (gets runtime_present) (\<lambda>present.
     check present (Runtime_Error ''Server device runtime is unavailable''))"

section \<open>Handling one request\<close>

definition record_move :: "host_request \<Rightarrow> received_value \<Rightarrow> move_profile \<Rightarrow> move_profile" where
  "record_move request rv p =
     (if rq_kind request = WriteThrough then
        p\<lparr>mp_to_host_count := mp_to_host_count p + 1,
          mp_to_host_read_calls := mp_to_host_read_calls p + of_nat (vp_calls (rv_read_metrics rv)),
          mp_to_host_read_bytes := mp_to_host_read_bytes p + of_nat (vp_bytes (rv_read_metrics rv)),
          mp_to_host_read_passes := mp_to_host_read_passes p + of_nat (vp_passes (rv_read_metrics rv)),
          mp_to_host_read_retries := mp_to_host_read_retries p + of_nat (vp_retries (rv_read_metrics rv)),
          mp_to_host_device_pushes := mp_to_host_device_pushes p + (if rv_used_device_push rv then 1 else 0)\<rparr>
      else if rq_kind request = PromoteToDevice \<or> rq_kind request = ServeGet then
        p\<lparr>mp_to_device_count := mp_to_device_count p + 1\<rparr>
      else p)"

definition no_value :: received_value where
  "no_value = \<lparr>rv_lease = None, rv_bytes = [], rv_used_device_push = False, rv_read_metrics = no_reads\<rparr>"

text \<open>The end of a move: its completion on the device, the move counter and the profile.\<close>

definition finish_request :: "geometry \<Rightarrow> worker_addresses \<Rightarrow> host_request \<Rightarrow> received_value \<Rightarrow>
    ('z server_state_scheme, unit reply) io" where
  "finish_request geo wa request rv =
     seqE checked_runtime
    (seqE (complete_host_request geo wa request)
    (seqE (modify (moves_completed_update (\<lambda>n. n + 1)))
    (bindE (gets profile_enabled) (\<lambda>enabled.
     seqE (whenE enabled (modify (move_profile_update (record_move request rv))))
          (ret (Replied ()))))))"

definition store_received :: "host_request \<Rightarrow> received_value \<Rightarrow> ('z server_state_scheme, unit) io" where
  "store_received request rv =
     (if (rv_lease rv \<noteq> None) = (rv_bytes rv \<noteq> [])
      then seqE (destroy_handle (rv_lease rv))
             (throw (Runtime_Error ''write-through returned an invalid host backing representation''))
      else assign_value (rq_slot request)
             \<lparr>mv_len = rq_value_len request, mv_lease = rv_lease rv, mv_bytes = rv_bytes rv\<rparr>)"

definition handle_host_request :: "geometry \<Rightarrow> worker_addresses \<Rightarrow> observation \<Rightarrow> host_request \<Rightarrow>
    ('z server_state_scheme, unit reply) io" where
  "handle_host_request geo wa ob request =
     (case rq_kind request of
        WriteThrough \<Rightarrow>
          seqE (erase_value (rq_slot request))
         (seqE checked_runtime
         (bindE (receive_value geo wa ob request True) (\<lambda>reply. case reply of
            Blocked \<Rightarrow> ret Blocked
          | Replied rv \<Rightarrow> seqE (store_received request rv) (finish_request geo wa request rv))))
      | RemoveBacking \<Rightarrow>
          seqE (erase_value (rq_slot request)) (finish_request geo wa request no_value)
      | _ \<Rightarrow>
          bindE (gets (\<lambda>s. map_of (manager_values s) (rq_slot request))) (\<lambda>it. case it of
            None \<Rightarrow> throw (Runtime_Error ''device requested a host backing that manager does not own'')
          | Some v \<Rightarrow>
              seqE (check (mv_len v = rq_value_len request)
                     (Runtime_Error ''device request length does not match manager host backing''))
             (bindE (gets (\<lambda>s. Option.bind (mv_lease v) (map_of (leases s)))) (\<lambda>lease.
              seqE checked_runtime
             (bindE (supply_value geo wa ob request lease (if mv_lease v = None then mv_bytes v else []))
                (\<lambda>reply. case reply of
                   Blocked \<Rightarrow> ret Blocked
                 | Replied _ \<Rightarrow> finish_request geo wa request no_value))))))"

section \<open>The worker\<close>

text \<open>A round of the loop: the poll buffer, the observations of the move, and the stop flag as read at its start and, if it throws, in the handler.\<close>

record worker_round =
  wr_stop :: bool
  wr_poll :: "byte list"
  wr_observation :: observation
  wr_stop_late :: bool

datatype loop_end = Loop_Polling | Loop_Stopped | Loop_Failed | Loop_Blocked

definition manager_turn :: "geometry \<Rightarrow> worker_addresses \<Rightarrow> worker_round \<Rightarrow> ('z server_state_scheme, unit reply) io" where
  "manager_turn geo wa r =
     seqE checked_runtime
    (bindE (poll_host_request geo (wr_poll r)) (\<lambda>request. case request of
       None \<Rightarrow> ret (Replied ())
     | Some rq \<Rightarrow> handle_host_request geo wa (wr_observation r) rq))"

definition record_manager_failure :: "fault \<Rightarrow> ('z server_state_scheme, unit) io" where
  "record_manager_failure failure =
     seqE (modify (manager_failure_update (\<lambda>f. case f of None \<Rightarrow> Some failure | Some e \<Rightarrow> Some e)))
          (modify (manager_failed_update (\<lambda>_. True)))"

fun manager_loop :: "geometry \<Rightarrow> worker_addresses \<Rightarrow> worker_round list \<Rightarrow> ('z server_state_scheme, loop_end) io" where
  "manager_loop geo wa [] = ret Loop_Polling"
| "manager_loop geo wa (r # rs) =
     bindE (gets manager_stop) (\<lambda>stop.
     if stop \<or> wr_stop r then ret Loop_Stopped
     else
       bindE (catchE (bindE (manager_turn geo wa r) (\<lambda>reply. ret (Inr reply))) (\<lambda>e. ret (Inl e))) (\<lambda>outcome.
       case outcome of
         Inl e \<Rightarrow> seqE (whenE (\<not> (stop \<or> wr_stop_late r)) (record_manager_failure e)) (ret Loop_Failed)
       | Inr Blocked \<Rightarrow> ret Loop_Blocked
       | Inr (Replied _) \<Rightarrow> manager_loop geo wa rs))"

section \<open>The lifecycle\<close>

text \<open>\<^verbatim>\<open>resolve_poll_us\<close>, from what \<^verbatim>\<open>read_u64_env\<close> returned or threw.\<close>

definition resolve_poll_us :: "fault + u64 option \<Rightarrow> fault + u32" where
  "resolve_poll_us parsed =
     (case parsed of
        Inl e \<Rightarrow> Inl e
      | Inr None \<Rightarrow> Inr 10
      | Inr (Some n) \<Rightarrow>
          if n = 0 then Inl (Runtime_Error ''KVM_SERVER_HOST_POLL_US must be positive'')
          else Inr (ucast (min n 1000000)))"

definition unregister_server :: "('z server_state_scheme, unit) io" where
  "unregister_server =
     bindE (gets registry_registered) (\<lambda>registered.
     if \<not> registered then ret ()
     else seqE (modify (\<lambda>s. s\<lparr>active_servers := removeAll (server_registry_key s) (active_servers s)\<rparr>))
               (modify (registry_registered_update (\<lambda>_. False))))"

definition stop_and_join_worker :: "('z server_state_scheme, unit) io" where
  "stop_and_join_worker =
     seqE (modify (manager_stop_update (\<lambda>_. True))) (modify (manager_worker_update (\<lambda>_. False)))"

text \<open>\<^verbatim>\<open>runtime_.reset()\<close>\<close>

definition reset_runtime :: "device_answers \<Rightarrow> device_answers \<Rightarrow> ('z server_state_scheme, unit) io" where
  "reset_runtime env env' =
     bindE (gets runtime_present) (\<lambda>present.
     whenE present (seqE (modify (runtime_present_update (\<lambda>_. False))) (destroy_runtime env env')))"

record server_config =
  sc_submesh :: bool
  sc_profile :: "fault + bool option"
  sc_poll_us :: "fault + u64 option"
  sc_precondition :: "fault option"
  sc_counter :: u32

text \<open>The body of the constructor's try block: the environment, the runtime, its launch, the worker.\<close>

definition start_server :: "server_config \<Rightarrow> device_answers \<Rightarrow> ('z server_state_scheme, unit) io" where
  "start_server cfg env =
     bindE (lift_sum (sc_profile cfg)) (\<lambda>profile.
     seqE (modify (profile_enabled_update (\<lambda>_. case profile of None \<Rightarrow> False | Some b \<Rightarrow> b)))
    (bindE (lift_sum (resolve_poll_us (sc_poll_us cfg))) (\<lambda>us.
     seqE (modify (poll_us_update (\<lambda>_. us)))
    (seqE (create_runtime (sc_submesh cfg) env (sc_precondition cfg))
    (seqE (modify (runtime_present_update (\<lambda>_. True)))
    (seqE (launch_runtime env (sc_counter cfg))
    (seqE (modify (manager_worker_update (\<lambda>_. True)))
          (modify (server_lifecycle_update (\<lambda>_. Server_Ready))))))))))"

text \<open>The constructor; when it throws, the members that exist are destroyed.\<close>

definition construct_server :: "server_config \<Rightarrow> device_answers \<Rightarrow> ('z server_state_scheme, unit) io" where
  "construct_server cfg env =
     seqE (check (sc_submesh cfg) (Invalid_Argument ''server_submesh must be non-null''))
    (bindE (gets (\<lambda>s. server_registry_key s \<in> set (active_servers s))) (\<lambda>taken.
     seqE (check (\<not> taken) (Runtime_Error ''a Server is already active on this submesh worker group''))
    (seqE (modify (\<lambda>s. s\<lparr>active_servers := server_registry_key s # active_servers s\<rparr>))
    (seqE (modify (registry_registered_update (\<lambda>_. True)))
          (catchE (start_server cfg env)
            (\<lambda>e. seqE unregister_server (seqE (reset_runtime env env) (throw e))))))))"

definition force_quarantine :: "device_answers \<Rightarrow> device_answers \<Rightarrow> ('z server_state_scheme, unit) io" where
  "force_quarantine env env' =
     bindE (gets server_lifecycle) (\<lambda>l.
     if l = Server_Closed \<or> l = Server_Quarantined then ret ()
     else
       seqE (modify (manager_stop_update (\<lambda>_. True)))
      (bindE (gets runtime_present) (\<lambda>present.
       seqE (whenE present cancel_external_host_io)
      (seqE stop_and_join_worker
      (seqE clear_values
      (seqE (reset_runtime env env')
      (seqE (modify (server_lifecycle_update (\<lambda>_. Server_Quarantined)))
            unregister_server)))))))"

text \<open>The drain of a close, while the worker goes through the given rounds.\<close>

definition drain_server :: "geometry \<Rightarrow> worker_addresses \<Rightarrow> worker_round list \<Rightarrow> device_answers \<Rightarrow>
    ('z server_state_scheme, unit) io" where
  "drain_server geo wa rounds env =
     seqE (manager_loop geo wa rounds) (seqE checked_runtime (drain_inflight_puts_checked env))"

definition drain_before_close :: "geometry \<Rightarrow> worker_addresses \<Rightarrow> worker_round list \<Rightarrow> device_answers \<Rightarrow>
    ('z server_state_scheme, unit) io" where
  "drain_before_close geo wa rounds env =
     bindE (gets server_lifecycle) (\<lambda>l.
     whenE (l = Server_Ready)
       (seqE (modify (server_lifecycle_update (\<lambda>_. Server_Closing)))
       (bindE (gets manager_failed) (\<lambda>failed.
        whenE (\<not> failed)
          (catchE (drain_server geo wa rounds env)
             (\<lambda>e. bindE (gets manager_failed) (\<lambda>failed.
                seqE (whenE (\<not> failed) (modify (server_lifecycle_update (\<lambda>_. Server_Ready)))) (throw e))))))))"

definition close_server :: "geometry \<Rightarrow> worker_addresses \<Rightarrow> worker_round list \<Rightarrow> device_answers \<Rightarrow> device_answers \<Rightarrow>
    ('z server_state_scheme, unit) io" where
  "close_server geo wa rounds env env' =
     bindE (gets server_lifecycle) (\<lambda>l.
     if l = Server_Closed \<or> l = Server_Quarantined then ret ()
     else
       seqE (check (l = Server_Ready \<or> l = Server_Closing)
              (Runtime_Error ''Server cannot close from its current state''))
      (seqE (drain_before_close geo wa rounds env)
      (bindE (gets (\<lambda>s. (manager_failed s, manager_failure s))) (\<lambda>(failed, failure).
       if failed then
         seqE (force_quarantine env env')
              (throw (case failure of Some e \<Rightarrow> e | None \<Rightarrow> Runtime_Error ''Server tiering worker failed''))
       else
         seqE checked_runtime
        (seqE (terminate_runtime env)
        (seqE (modify (manager_stop_update (\<lambda>_. True)))
        (seqE cancel_external_host_io
        (seqE stop_and_join_worker
        (seqE clear_values
        (seqE (reset_runtime env env')
        (seqE (modify (server_lifecycle_update (\<lambda>_. Server_Closed)))
              unregister_server)))))))))))"

text \<open>The destructor: two attempts to close, then quarantine.\<close>

definition destroy_server :: "geometry \<Rightarrow> worker_addresses \<Rightarrow> worker_round list \<Rightarrow> worker_round list \<Rightarrow>
    device_answers \<Rightarrow> device_answers \<Rightarrow> ('z server_state_scheme, unit) io" where
  "destroy_server geo wa rounds rounds' env env' =
     catchE (close_server geo wa rounds env env)
       (\<lambda>_. catchE (close_server geo wa rounds' env' env') (\<lambda>_. force_quarantine env' env'))"

section \<open>The accessors\<close>

definition server_is_ready :: "'z server_state_scheme \<Rightarrow> bool" where
  "server_is_ready s = (server_lifecycle s = Server_Ready \<and> \<not> manager_failed s \<and> runtime_present s
     \<and> runtime_is_ready s)"

definition throw_if_manager_failed :: "('z server_state_scheme, unit) io" where
  "throw_if_manager_failed =
     bindE (gets (\<lambda>s. (manager_failed s, manager_failure s))) (\<lambda>(failed, failure).
     if \<not> failed then ret ()
     else throw (case failure of Some e \<Rightarrow> e | None \<Rightarrow> Runtime_Error ''Server tiering worker failed''))"

text \<open>The checks before \<^verbatim>\<open>allocator_profile\<close> and \<^verbatim>\<open>test_put_drain_progress\<close> ask the runtime.\<close>

definition check_ready_server :: "('z server_state_scheme, unit) io" where
  "check_ready_server =
     bindE (gets server_lifecycle) (\<lambda>l.
     seqE (check (l = Server_Ready) (Runtime_Error ''Server is not ready''))
    (seqE throw_if_manager_failed
    (seqE checked_runtime
    (bindE (gets runtime_phase) (\<lambda>phase.
     check (phase = Running) (Fatal ''ServerDeviceRuntime allocator profile requires Running''))))))"

end
