(* ===== verification/Manager_Values.thy ===== *)
theory Manager_Values
  imports Server_Manager
begin

text \<open>
  The values of the manager: \<open>backing\<close> is the map from slots to bytes that \<^verbatim>\<open>host_values_\<close> stands for, over
  the leases of the runtime's pool; \<open>manager_ok\<close> says that every live lease belongs to exactly one
  slot and that no lease is left over. \<^verbatim>\<open>handle_host_request\<close> refines the map operations.
\<close>

section \<open>Values over leases\<close>

type_synonym lease_map = "nat \<Rightarrow> byte list option"

definition value_leases :: "(u32 \<times> manager_value) list \<Rightarrow> nat list" where
  "value_leases vs = List.map_filter (\<lambda>e. mv_lease (snd e)) vs"

definition value_bytes :: "lease_map \<Rightarrow> manager_value \<Rightarrow> byte list option" where
  "value_bytes L v = (case mv_lease v of None \<Rightarrow> Some (mv_bytes v) | Some i \<Rightarrow> L i)"

definition value_ok :: "lease_map \<Rightarrow> manager_value \<Rightarrow> bool" where
  "value_ok L v = (((mv_lease v = None) = (mv_bytes v \<noteq> []))
     \<and> (case value_bytes L v of None \<Rightarrow> False | Some bs \<Rightarrow> length bs = unat (mv_len v)))"

definition values_ok :: "lease_map \<Rightarrow> (u32 \<times> manager_value) list \<Rightarrow> bool" where
  "values_ok L vs = (distinct (map fst vs) \<and> distinct (value_leases vs) \<and> dom L = set (value_leases vs)
     \<and> (\<forall>e \<in> set vs. value_ok L (snd e)))"

definition stored :: "lease_map \<Rightarrow> (u32 \<times> manager_value) list \<Rightarrow> u32 \<Rightarrow> byte list option" where
  "stored L vs slot = Option.bind (map_of vs slot) (value_bytes L)"

definition drop_handle :: "nat option \<Rightarrow> lease_map \<Rightarrow> lease_map" where
  "drop_handle h L = (case h of None \<Rightarrow> L | Some i \<Rightarrow> L(i := None))"

definition backing :: "'z server_state_scheme \<Rightarrow> u32 \<Rightarrow> byte list option" where
  "backing s = stored (leased s) (manager_values s)"

definition manager_ok :: "'z server_state_scheme \<Rightarrow> bool" where
  "manager_ok s = (leases_ok {#} s \<and> values_ok (leased s) (manager_values s))"

lemma value_leases_simps [simp]:
  "value_leases [] = []"
  "value_leases (e # vs) = (case mv_lease (snd e) of None \<Rightarrow> value_leases vs | Some i \<Rightarrow> i # value_leases vs)"
  "value_leases (vs @ ws) = value_leases vs @ value_leases ws"
  by (simp_all add: value_leases_def List.map_filter_def split: option.split)

lemma value_leases_mem: "i \<in> set (value_leases vs) \<longleftrightarrow> (\<exists>e \<in> set vs. mv_lease (snd e) = Some i)"
  by (induction vs) (auto split: option.split)

lemma values_split:
  assumes "map_of vs slot = Some v" and "distinct (map fst vs)"
  shows "\<exists>xs ys. vs = xs @ (slot, v) # ys \<and> AList.delete slot vs = xs @ ys \<and> slot \<notin> fst ` set (xs @ ys)"
proof -
  obtain xs ys where vs: "vs = xs @ (slot, v) # ys"
    using assms(1) by (meson map_of_SomeD split_list)
  then have "slot \<notin> fst ` set (xs @ ys)" using assms(2) by auto
  moreover then have "AList.delete slot xs = xs" "AList.delete slot ys = ys"
    by (force simp: AList.delete_eq filter_id_conv)+
  ultimately show ?thesis using vs by (simp add: AList.delete_eq) blast
qed

lemma value_bytes_cong: "(\<And>i. mv_lease v = Some i \<Longrightarrow> L i = L' i) \<Longrightarrow> value_bytes L v = value_bytes L' v"
  by (simp add: value_bytes_def split: option.split)

text \<open>Erasing a slot together with its lease.\<close>

lemma values_erase:
  assumes ok: "values_ok L vs" and v: "map_of vs slot = Some v"
  shows "values_ok (drop_handle (mv_lease v) L) (AList.delete slot vs)"
    "stored (drop_handle (mv_lease v) L) (AList.delete slot vs) = (stored L vs)(slot := None)"
proof -
  have d: "distinct (map fst vs)" using ok by (simp add: values_ok_def)
  obtain xs ys where x: "vs = xs @ (slot, v) # ys" "AList.delete slot vs = xs @ ys" "slot \<notin> fst ` set (xs @ ys)"
    using values_split [OF v d] by blast
  have apart: "mv_lease v \<noteq> mv_lease (snd e) \<or> mv_lease v = None" if "e \<in> set (xs @ ys)" for e
    using ok that unfolding values_ok_def x(1)
    by (cases "mv_lease v") (fastforce simp: value_leases_mem)+
  have vb: "value_bytes (drop_handle (mv_lease v) L) (snd e) = value_bytes L (snd e)" if "e \<in> set (xs @ ys)" for e
    using apart [OF that] by (intro value_bytes_cong) (auto simp: drop_handle_def split: option.split)
  have dom: "dom (drop_handle (mv_lease v) L) = set (value_leases (xs @ ys))"
  proof (cases "mv_lease v")
    case (Some i)
    then have "i \<notin> set (value_leases (xs @ ys))" using ok by (auto simp: values_ok_def x(1))
    then show ?thesis using ok Some by (auto simp: values_ok_def x(1) drop_handle_def dom_def)
  qed (use ok in \<open>auto simp: values_ok_def x(1) drop_handle_def dom_def\<close>)
  show "values_ok (drop_handle (mv_lease v) L) (AList.delete slot vs)"
    unfolding values_ok_def x(2) dom
    using ok vb by (auto simp: values_ok_def x(1) value_ok_def split: option.splits)
  show "stored (drop_handle (mv_lease v) L) (AList.delete slot vs) = (stored L vs)(slot := None)"
  proof
    fix k
    show "stored (drop_handle (mv_lease v) L) (AList.delete slot vs) k = ((stored L vs)(slot := None)) k"
    proof (cases "k = slot")
      case False
      then have same: "map_of (AList.delete slot vs) k = map_of vs k" by (simp add: delete_conv)
      show ?thesis
      proof (cases "map_of vs k")
        case (Some w)
        then have "(k, w) \<in> set (xs @ ys)" using False by (auto simp: x(1) dest!: map_of_SomeD)
        from vb [OF this] show ?thesis using same Some False by (simp add: stored_def)
      qed (use same False in \<open>simp add: stored_def\<close>)
    qed (simp add: stored_def delete_conv)
  qed
qed

lemma AList_update_new: "slot \<notin> fst ` set vs \<Longrightarrow> AList.update slot v vs = vs @ [(slot, v)]"
  by (induction vs) auto

lemma values_assign:
  assumes ok: "values_ok L vs" and new: "map_of vs slot = None" and v: "value_ok L' v" "value_bytes L' v = Some bs"
    and L': "case mv_lease v of None \<Rightarrow> L' = L | Some i \<Rightarrow> L i = None \<and> L' = L(i \<mapsto> bs)"
  shows "values_ok L' (AList.update slot v vs)" "stored L' (AList.update slot v vs) = (stored L vs)(slot \<mapsto> bs)"
proof -
  have n: "slot \<notin> fst ` set vs" using new by (simp add: map_of_eq_None_iff)
  have old: "value_bytes L' (snd e) = value_bytes L (snd e)" if "e \<in> set vs" for e
  proof (rule value_bytes_cong)
    fix i assume i: "mv_lease (snd e) = Some i"
    then have "i \<in> dom L" using ok that by (auto simp: values_ok_def value_leases_mem)
    then show "L' i = L i" using L' by (auto split: option.splits)
  qed
  have dom: "dom L' = set (value_leases vs) \<union> set_option (mv_lease v)"
    using ok L' by (auto simp: values_ok_def split: option.splits)
  have fresh: "i \<notin> set (value_leases vs)" if "mv_lease v = Some i" for i
  proof -
    have "i \<notin> dom L" using that L' by auto
    then show ?thesis using ok by (simp add: values_ok_def)
  qed
  show "values_ok L' (AList.update slot v vs)"
    unfolding AList_update_new [OF n] values_ok_def dom
    using ok v(1) n old fresh by (auto simp: values_ok_def value_ok_def split: option.splits)
  show "stored L' (AList.update slot v vs) = (stored L vs)(slot \<mapsto> bs)"
  proof
    fix k
    show "stored L' (AList.update slot v vs) k = ((stored L vs)(slot \<mapsto> bs)) k"
      using v(2) old by (cases "map_of vs k") (auto simp: stored_def update_conv' dest: map_of_SomeD)
  qed
qed

section \<open>Destroying leases\<close>

lemma destroy_lease_run:
  fixes s :: "'z external_state_scheme"
  assumes ok: "leases_ok extra s" and i: "leased s i \<noteq> None"
  shows "\<exists>ls ids n m f. destroy_lease i s = (Inr (), s\<lparr>leases := ls, external_host_leases := ids,
      external_pool_units_in_use := n, pool_meta := m, pool_free := f\<rparr>)
    \<and> leases_ok extra (s\<lparr>leases := ls, external_host_leases := ids, external_pool_units_in_use := n,
        pool_meta := m, pool_free := f\<rparr>)
    \<and> leased (s\<lparr>leases := ls, external_host_leases := ids, external_pool_units_in_use := n,
        pool_meta := m, pool_free := f\<rparr>) = (leased s)(i := None)"
proof -
  obtain l where l: "map_of (leases s) i = Some l" "i \<in> set (external_host_leases s)"
    using i by (auto simp: leased_def split: if_splits)
  then have own: "hl_owner l" using ok by (fastforce simp: leases_ok_def lease_ok_def)
  obtain m f where r: "release_external_host_lease i s
      = (Inr (), lease_released i l s\<lparr>pool_meta := m, pool_free := f\<rparr>)"
    "leases_ok extra (lease_released i l s\<lparr>pool_meta := m, pool_free := f\<rparr>)"
    using release_external_host_lease_ok [OF ok l(1) own] by blast
  define u where "u = lease_released i l s\<lparr>pool_meta := m, pool_free := f\<rparr>"
  define t where "t = u\<lparr>leases := AList.delete i (leases u)\<rparr>"
  have run: "destroy_lease i s = (Inr (), t)"
    using r(1) l(1) own by (simp add: destroy_lease_def io_defs whenE_def u_def t_def)
  have out: "i \<notin> set (external_host_leases u)" by (simp add: u_def lease_released_def)
  have lk: "map_of (leases t) j = (if j = i then None else map_of (leases u) j)" for j
    by (simp add: t_def delete_conv)
  have ext: "lease_extents (external_host_leases t) (leases t) = lease_extents (external_host_leases u) (leases u)"
    using out by (auto simp: t_def intro!: lease_extents_cong) (auto simp: lease_extent_def delete_conv)
  have h: "host_ok x t = host_ok x u" for x by (simp add: t_def)
  have "leases_ok extra t"
    using r(2) out unfolding u_def [symmetric] leases_ok_def ext h lk by (auto simp: t_def)
  moreover have "leased t = (leased s)(i := None)"
  proof -
    have "leased u = (leased s)(i := None)"
      using lease_released_ok(2) [OF ok l(1) own] by (simp add: u_def)
    moreover have "leased t = leased u"
      using out lk by (auto simp: leased_def fun_eq_iff t_def lease_bytes_def)
    ultimately show ?thesis by simp
  qed
  moreover have "t = s\<lparr>leases := leases t, external_host_leases := external_host_leases t,
      external_pool_units_in_use := external_pool_units_in_use t, pool_meta := m, pool_free := f\<rparr>"
    by (cases s) (simp add: t_def u_def lease_released_def)
  ultimately show ?thesis using run by metis
qed

lemma destroy_handle_run:
  fixes s :: "'z external_state_scheme"
  assumes ok: "leases_ok extra s" and h: "case h of None \<Rightarrow> True | Some i \<Rightarrow> leased s i \<noteq> None"
  shows "\<exists>ls ids n m f. destroy_handle h s = (Inr (), s\<lparr>leases := ls, external_host_leases := ids,
      external_pool_units_in_use := n, pool_meta := m, pool_free := f\<rparr>)
    \<and> leases_ok extra (s\<lparr>leases := ls, external_host_leases := ids, external_pool_units_in_use := n,
        pool_meta := m, pool_free := f\<rparr>)
    \<and> leased (s\<lparr>leases := ls, external_host_leases := ids, external_pool_units_in_use := n,
        pool_meta := m, pool_free := f\<rparr>) = drop_handle h (leased s)"
proof (cases h)
  case None
  have "s\<lparr>leases := leases s, external_host_leases := external_host_leases s,
      external_pool_units_in_use := external_pool_units_in_use s, pool_meta := pool_meta s, pool_free := pool_free s\<rparr> = s"
    by simp
  then show ?thesis using None ok by (metis destroy_handle_def drop_handle_def option.simps(4) ret_def)
next
  case (Some i)
  then show ?thesis
    using destroy_lease_run [OF ok, of i] h by (simp add: destroy_handle_def drop_handle_def)
qed

lemma manager_lease_bytes [simp]:
  "lease_bytes (manager_values_update f1 s) = lease_bytes s"
  "lease_bytes (moves_completed_update f2 s) = lease_bytes s"
  "lease_bytes (move_profile_update f3 s) = lease_bytes s"
  by (simp_all add: lease_bytes_def fun_eq_iff)

lemma manager_updates [simp]:
  "leases_ok x (manager_values_update f1 s) = leases_ok x s"
  "leased (manager_values_update f1 s) = leased s"
  "leases_ok x (moves_completed_update f2 s) = leases_ok x s"
  "leased (moves_completed_update f2 s) = leased s"
  "leases_ok x (move_profile_update f3 s) = leases_ok x s"
  "leased (move_profile_update f3 s) = leased s"
  by (simp_all add: leases_ok_def leased_def lease_bytes_def fun_eq_iff host_ok_def pool.partitions_def pool_ok_def
      pool_free_set_def)

lemma erase_value_run:
  fixes s :: "'z server_state_scheme"
  assumes ok: "manager_ok s"
  shows "\<exists>ls ids n m f vs. erase_value slot s = (Inr (), s\<lparr>leases := ls, external_host_leases := ids,
      external_pool_units_in_use := n, pool_meta := m, pool_free := f, manager_values := vs\<rparr>)
    \<and> manager_ok (s\<lparr>leases := ls, external_host_leases := ids, external_pool_units_in_use := n,
        pool_meta := m, pool_free := f, manager_values := vs\<rparr>)
    \<and> backing (s\<lparr>leases := ls, external_host_leases := ids, external_pool_units_in_use := n,
        pool_meta := m, pool_free := f, manager_values := vs\<rparr>) = (backing s)(slot := None)
    \<and> map_of vs slot = None"
proof (cases "map_of (manager_values s) slot")
  case None
  have "s\<lparr>leases := leases s, external_host_leases := external_host_leases s,
      external_pool_units_in_use := external_pool_units_in_use s, pool_meta := pool_meta s, pool_free := pool_free s,
      manager_values := manager_values s\<rparr> = s" by simp
  moreover have "erase_value slot s = (Inr (), s)" using None by (simp add: erase_value_def io_defs)
  moreover have "(backing s)(slot := None) = backing s" using None by (simp add: backing_def stored_def fun_eq_iff)
  ultimately show ?thesis using ok None by metis
next
  case (Some v)
  have vok: "values_ok (leased s) (manager_values s)" "leases_ok {#} s" using ok by (simp_all add: manager_ok_def)
  have "case mv_lease v of None \<Rightarrow> True | Some i \<Rightarrow> leased s i \<noteq> None"
    using vok(1) map_of_SomeD [OF Some] by (fastforce simp: values_ok_def value_ok_def value_bytes_def split: option.splits)
  from destroy_handle_run [OF vok(2) this] obtain ls ids n m f where d:
    "destroy_handle (mv_lease v) s = (Inr (), s\<lparr>leases := ls, external_host_leases := ids,
      external_pool_units_in_use := n, pool_meta := m, pool_free := f\<rparr>)"
    "leases_ok {#} (s\<lparr>leases := ls, external_host_leases := ids, external_pool_units_in_use := n,
        pool_meta := m, pool_free := f\<rparr>)"
    "leased (s\<lparr>leases := ls, external_host_leases := ids, external_pool_units_in_use := n,
        pool_meta := m, pool_free := f\<rparr>) = drop_handle (mv_lease v) (leased s)" by blast
  let ?t = "s\<lparr>leases := ls, external_host_leases := ids, external_pool_units_in_use := n,
        pool_meta := m, pool_free := f\<rparr>"
  let ?u = "s\<lparr>leases := ls, external_host_leases := ids, external_pool_units_in_use := n,
        pool_meta := m, pool_free := f, manager_values := AList.delete slot (manager_values s)\<rparr>"
  have "leased ?u = drop_handle (mv_lease v) (leased s)" "leases_ok {#} ?u"
    unfolding manager_updates by (rule d)+
  then have "manager_ok ?u" "backing ?u = (backing s)(slot := None)"
    using values_erase [OF vok(1) Some] by (simp_all add: manager_ok_def backing_def)
  moreover have "erase_value slot s = (Inr (), ?u)"
    using Some d(1) by (simp add: erase_value_def io_defs)
  moreover have "map_of (AList.delete slot (manager_values s)) slot = None" by (simp add: delete_conv)
  ultimately show ?thesis by blast
qed

section \<open>Completing a move\<close>

lemma more_lease_bytes [simp]:
  "lease_bytes (external_seen_update f1 s) = lease_bytes s"
  "lease_bytes (external_commit_issued_update f2 s) = lease_bytes s"
  "lease_bytes (heap_dram_update f3 s) = lease_bytes s"
  by (simp_all add: lease_bytes_def fun_eq_iff)

lemma more_updates [simp]:
  "leased (external_seen_update f1 s) = leased s"
  "leased (external_commit_issued_update f2 s) = leased s"
  "leased (heap_dram_update f3 s) = leased s"
  "leases_ok x (heap_dram_update f3 s) = leases_ok x s"
  by (simp_all add: leased_def leases_ok_def fun_eq_iff host_ok_def pool.partitions_def pool_ok_def
      pool_free_set_def)

text \<open>The settings that a move leaves alone.\<close>

definition settings where
  "settings s = (max_keys s, max_key_len s, pool_mapped s, meta_mapped s, stage_noc_ok s, server_workload_running s,
     external_host_io_cancelled s, manager_stop s)"

definition finished :: "worker_addresses \<Rightarrow> host_request \<Rightarrow> received_value \<Rightarrow>
    'z server_state_scheme \<Rightarrow> 'z server_state_scheme" where
  "finished wa request rv s = (completed wa request s)\<lparr>moves_completed := moves_completed s + 1,
     move_profile := (if profile_enabled s then record_move request rv (move_profile s) else move_profile s)\<rparr>"

text \<open>The runtime can be driven, and it accepts request calls.\<close>

definition drivable :: "'z server_state_scheme \<Rightarrow> bool" where
  "drivable s = (runtime_present s \<and> (runtime_phase s = Running \<or> runtime_phase s = Runtime_Closing))"

lemma finish_request_run:
  assumes "drivable s" and "may_complete geo request s"
  shows "finish_request geo wa request rv s = (Inr (Replied ()), finished wa request rv s)"
proof -
  have c: "complete_external_host_request geo wa request s = (Inr (), completed wa request s)"
    using complete_cases [of geo request s wa] assms(2) by simp
  have "profile_enabled (completed wa request s) = profile_enabled s"
    "moves_completed (completed wa request s) = moves_completed s"
    "move_profile (completed wa request s) = move_profile s"
    by (simp_all add: completed_def)
  moreover have "t\<lparr>move_profile := move_profile t\<rparr> = t" for t :: "'a server_state_scheme" by simp
  ultimately show ?thesis
    using assms(1) c
    by (auto simp: finish_request_def checked_runtime_def drivable_def complete_host_request_def check_phase_def io_defs
        whenE_def finished_def)
qed

lemma finished_simps [simp]:
  "leased (finished wa request rv s) = leased s"
  "manager_values (finished wa request rv s) = manager_values s"
  "leases_ok x (finished wa request rv s) = leases_ok x s"
  "drivable (finished wa request rv s) = drivable s"
  "external_host_request (finished wa request rv s) = no_request"
  "external_seen (finished wa request rv s) = rq_sequence request"
  "writes_at (move_processed_addr wa) (events (finished wa request rv s))
     = writes_at (move_processed_addr wa) (events s) @ [semaphore_bytes (rq_sequence request)]"
  "moves_completed (finished wa request rv s) = moves_completed s + 1"
  "settings (finished wa request rv s) = settings s"
  by (simp_all add: finished_def completed_def drivable_def settings_def)

lemma finished_ok [simp]:
  "manager_ok (finished wa request rv s) = manager_ok s" "backing (finished wa request rv s) = backing s"
  by (simp_all add: manager_ok_def backing_def)

lemma server_members:
  fixes s t :: "'z server_state_scheme"
  assumes "phase_view t = phase_view s"
  shows "manager_values t = manager_values s" "runtime_present t = runtime_present s"
    "runtime_phase t = runtime_phase s" "moves_completed t = moves_completed s" "drivable t = drivable s"
    "settings t = settings s"
proof -
  have m: "device_runtime_state.more t = device_runtime_state.more s" "runtime_phase t = runtime_phase s"
    using assms by (simp_all add: phase_view_def)
  then show "manager_values t = manager_values s" "runtime_present t = runtime_present s"
    "moves_completed t = moves_completed s"
    by (cases s; cases t; simp)+
  then show "drivable t = drivable s" "runtime_phase t = runtime_phase s" using m by (simp_all add: drivable_def)
  have "manager_stop t = manager_stop s" using m(1) by (cases s; cases t; simp)
  then show "settings t = settings s" using assms by (simp add: phase_view_def settings_def)
qed

text \<open>What is left of a request once its value has been moved.\<close>

lemma moved_request:
  assumes "request_view wa t = request_view wa s" and "holds_request request kind s" and "external_policy t = external_policy s"
  shows "holds_request request kind t"
proof -
  have "xr_phase_update (\<lambda>_. Pending) (external_host_request t) = xr_phase_update (\<lambda>_. Pending) (external_host_request s)"
    using assms(1) by (simp add: request_view_def)
  then have "xr_active (external_host_request t) = xr_active (external_host_request s)"
    "xr_sequence (external_host_request t) = xr_sequence (external_host_request s)"
    "xr_slot (external_host_request t) = xr_slot (external_host_request s)"
    "xr_total_len (external_host_request t) = xr_total_len (external_host_request s)"
    "xr_value_byte_off (external_host_request t) = xr_value_byte_off (external_host_request s)"
    "xr_op (external_host_request t) = xr_op (external_host_request s)"
    by (cases "external_host_request t"; cases "external_host_request s"; simp)+
  then show ?thesis using assms(2,3) by (simp add: holds_request_def)
qed

section \<open>Write-through\<close>

lemma store_received_run:
  fixes t :: "'z server_state_scheme"
  assumes r: "received s bytes rv t" and vs: "values_ok (leased s) (manager_values t)"
    and new: "map_of (manager_values t) (rq_slot request) = None"
    and len: "length bytes = unat (rq_value_len request)" "bytes \<noteq> []"
    and shape: "rv_lease rv \<noteq> None \<longrightarrow> rv_bytes rv = []"
  shows "\<exists>u. store_received request rv t = (Inr (), manager_values_update (\<lambda>_. u) t)
    \<and> manager_ok (manager_values_update (\<lambda>_. u) t)
    \<and> backing (manager_values_update (\<lambda>_. u) t) = (stored (leased s) (manager_values t))(rq_slot request \<mapsto> bytes)"
proof -
  let ?v = "\<lparr>mv_len = rq_value_len request, mv_lease = rv_lease rv, mv_bytes = rv_bytes rv\<rparr>"
  let ?u = "AList.update (rq_slot request) ?v (manager_values t)"
  have b: "received_bytes t rv = Some bytes" "leases_ok {#} t" using r by (simp_all add: received_def)
  then have vb: "value_bytes (leased t) ?v = Some bytes" by (simp add: value_bytes_def received_bytes_def cong: option.case_cong)
  have one: "(rv_lease rv = None) = (rv_bytes rv \<noteq> [])"
    using b(1) len(2) shape by (auto simp: received_bytes_def split: option.splits)
  then have vok: "value_ok (leased t) ?v" using vb len by (simp add: value_ok_def)
  have L: "case mv_lease ?v of None \<Rightarrow> leased t = leased s | Some i \<Rightarrow> leased s i = None \<and> leased t = (leased s)(i \<mapsto> bytes)"
    using r by (simp add: received_def)
  note A = values_assign [OF vs new vok vb L]
  have "store_received request rv t = (Inr (), manager_values_update (\<lambda>_. ?u) t)"
    using one new by (auto simp: store_received_def assign_value_def io_defs)
  moreover have "manager_ok (manager_values_update (\<lambda>_. ?u) t)"
    using A(1) b(2) by (simp add: manager_ok_def)
  moreover have "backing (manager_values_update (\<lambda>_. ?u) t)
      = (stored (leased s) (manager_values t))(rq_slot request \<mapsto> bytes)"
    using A(2) by (simp add: backing_def)
  ultimately show ?thesis by blast
qed

text \<open>A received value is either a lease or bytes.\<close>

definition yields :: "('a \<Rightarrow> bool) \<Rightarrow> ('s, 'a) io \<Rightarrow> bool" where
  "yields P m = (\<forall>s a t. m s = (Inr a, t) \<longrightarrow> P a)"

lemma yields_ret: "P a \<Longrightarrow> yields P (ret a)"
  by (simp add: yields_def ret_def)

lemma yields_throw: "yields P (throw e)"
  by (simp add: yields_def throw_def)

lemma yields_bindE: "(\<And>a. yields P (f a)) \<Longrightarrow> yields P (bindE m f)"
  by (auto simp: yields_def bindE_def split: prod.splits sum.splits)

lemma yields_bindE2: "yields R m \<Longrightarrow> (\<And>a. R a \<Longrightarrow> yields P (f a)) \<Longrightarrow> yields P (bindE m f)"
  by (fastforce simp: yields_def bindE_def split: prod.splits sum.splits)

lemma yields_seqE: "yields P n \<Longrightarrow> yields P (seqE m n)"
  unfolding seqE_def by (rule yields_bindE)

lemma yields_if: "yields P m \<Longrightarrow> yields P n \<Longrightarrow> yields P (if b then m else n)"
  by simp

lemma yields_option:
  "yields P m \<Longrightarrow> (\<And>x. yields P (n x)) \<Longrightarrow> yields P (case a of None \<Rightarrow> m | Some x \<Rightarrow> n x)"
  by (simp split: option.split)

lemma yields_prod: "(\<And>x y. a = (x, y) \<Longrightarrow> yields P (n x y)) \<Longrightarrow> yields P (case a of (x, y) \<Rightarrow> n x y)"
  by (simp split: prod.split)

lemma yields_Let: "(\<And>x. yields P (n x)) \<Longrightarrow> yields P (let x = a in n x)"
  by (simp add: Let_def)

lemmas yields_rules = yields_seqE yields_if yields_option yields_prod yields_Let yields_throw

definition one_form :: "received_value \<Rightarrow> bool" where
  "one_form rv = (rv_lease rv \<noteq> None \<longrightarrow> rv_bytes rv = [])"

lemma receive_one_form:
  "yields (\<lambda>r. case r of Blocked \<Rightarrow> True | Replied rv \<Rightarrow> one_form rv) (receive_external_value geo wa ob request pf)"
proof -
  let ?P = "\<lambda>r. case r of Blocked \<Rightarrow> True | Replied rv \<Rightarrow> one_form rv"
  have "yields ?P (receive_pushed geo wa ob request pf)"
    unfolding receive_pushed_def
    by (rule yields_bindE2 [where R = one_form] | rule yields_rules yields_ret | rule yields_bindE
        | simp add: one_form_def)+
  moreover have "yields ?P (receive_read geo ob request pf)"
    unfolding receive_read_def Let_def
    by (rule yields_bindE, rule yields_bindE2 [where R = one_form])
      (intro yields_rules yields_bindE yields_ret; simp add: one_form_def)+
  ultimately show ?thesis
    unfolding receive_external_value_def by (intro yields_rules yields_bindE)
qed

text \<open>A move that is done: its value kept, its request acknowledged once and cleared, and counted.\<close>

definition move_done :: "worker_addresses \<Rightarrow> host_request \<Rightarrow> 'z server_state_scheme \<Rightarrow> 'z server_state_scheme \<Rightarrow> bool" where
  "move_done wa request s t = (manager_ok t \<and> drivable t \<and> settings t = settings s
     \<and> external_host_request t = no_request
     \<and> external_seen t = rq_sequence request \<and> moves_completed t = moves_completed s + 1
     \<and> writes_at (move_processed_addr wa) (events t)
       = writes_at (move_processed_addr wa) (events s) @ [semaphore_bytes (rq_sequence request)])"

lemma finish_move_done:
  assumes "drivable t" and "may_complete geo request t" and "manager_ok t" and "moves_completed t = moves_completed s"
    and "settings t = settings s" and "writes_at (move_processed_addr wa) (events t) = writes_at (move_processed_addr wa) (events s)"
  shows "finish_request geo wa request rv t = (Inr (Replied ()), finished wa request rv t)"
    "move_done wa request s (finished wa request rv t)" "backing (finished wa request rv t) = backing t"
  using assms finish_request_run by (simp_all add: move_done_def)

lemma erased_request:
  "holds_request request kind (s\<lparr>leases := ls, external_host_leases := ids, external_pool_units_in_use := n,
     pool_meta := m, pool_free := f, manager_values := vs\<rparr>) = holds_request request kind s"
  "drivable (s\<lparr>leases := ls, external_host_leases := ids, external_pool_units_in_use := n,
     pool_meta := m, pool_free := f, manager_values := vs\<rparr>) = drivable s"
  by (simp_all add: holds_request_def drivable_def)

lemma receive_value_run:
  "drivable s \<Longrightarrow> receive_value geo wa ob request pf s = receive_external_value geo wa ob request pf s"
  by (auto simp: receive_value_def check_phase_def drivable_def io_defs)

lemma receive_frames:
  assumes "receive_external_value geo wa ob request pf s = (r, t)" and "drivable s" and "separate wa"
  shows "phase_view t = phase_view s" "request_view wa t = request_view wa s"
proof -
  show "phase_view t = phase_view s"
    using keepsD [OF phase_io(2), of geo wa ob request pf s] receive_value_run [OF assms(2)] assms(1) by metis
  show "request_view wa t = request_view wa s" using view_receive [OF assms(3)] assms(1) by (rule keepsD)
qed

lemma handle_write_through_run:
  fixes s :: "'z server_state_scheme"
  assumes ok: "manager_ok s" and drv: "drivable s" and rq: "holds_request request WriteThrough s"
    and pend: "xr_phase (external_host_request s) = Pending" and keys: "rq_slot request < max_keys s"
    and mapped: "pool_mapped s \<longrightarrow> meta_mapped s" and dev: "delivers_value geo (stage_noc_ok s) ob request bytes"
    and len: "rq_value_len request \<noteq> 0" and sep: "separate wa"
  shows "\<exists>r t. handle_host_request geo wa ob request s = (r, t)
    \<and> (case if stage_noc_ok s then await (external_evict_issued s + 1) (ob_wait ob) else Some False of
         None \<Rightarrow> r = Inr Blocked
       | Some left \<Rightarrow>
           if stage_noc_ok s \<and> (left \<or> ob_stop_after ob)
           then (\<exists>e. r = Inl e) \<and> manager_ok t \<and> backing t = (backing s)(rq_slot request := None)
           else r = Inr (Replied ()) \<and> move_done wa request s t
             \<and> backing t = (backing s)(rq_slot request \<mapsto> bytes))"
proof -
  have kind: "rq_kind request = WriteThrough" using rq by (simp add: holds_request_def)
  obtain ls ids n m f vs where "erase_value (rq_slot request) s = (Inr (), s\<lparr>leases := ls, external_host_leases := ids,
      external_pool_units_in_use := n, pool_meta := m, pool_free := f, manager_values := vs\<rparr>)"
    "manager_ok (s\<lparr>leases := ls, external_host_leases := ids, external_pool_units_in_use := n,
        pool_meta := m, pool_free := f, manager_values := vs\<rparr>)"
    "backing (s\<lparr>leases := ls, external_host_leases := ids, external_pool_units_in_use := n,
        pool_meta := m, pool_free := f, manager_values := vs\<rparr>) = (backing s)(rq_slot request := None)"
    "map_of vs (rq_slot request) = None"
    using erase_value_run [OF ok, of "rq_slot request"] by blast
  moreover define s1 where "s1 = s\<lparr>leases := ls, external_host_leases := ids, external_pool_units_in_use := n,
        pool_meta := m, pool_free := f, manager_values := vs\<rparr>"
  ultimately have e: "erase_value (rq_slot request) s = (Inr (), s1)" "manager_ok s1"
    "backing s1 = (backing s)(rq_slot request := None)" "map_of (manager_values s1) (rq_slot request) = None"
    by simp_all
  have s1: "drivable s1" "holds_request request WriteThrough s1" "xr_phase (external_host_request s1) = Pending"
    "rq_slot request < max_keys s1" "pool_mapped s1 \<longrightarrow> meta_mapped s1" "stage_noc_ok s1 = stage_noc_ok s"
    "external_evict_issued s1 = external_evict_issued s" "moves_completed s1 = moves_completed s" "events s1 = events s"
    "settings s1 = settings s"
    using drv rq pend keys mapped unfolding s1_def erased_request by (simp_all add: settings_def)
  have lok: "leases_ok {#} s1" "values_ok (leased s1) (manager_values s1)" using e(2) by (simp_all add: manager_ok_def)
  have dev1: "delivers_value geo (stage_noc_ok s1) ob request bytes" using dev s1(6) by simp
  obtain r t where rt: "receive_external_value geo wa ob request True s1 = (r, t)"
    "case if stage_noc_ok s then await (external_evict_issued s + 1) (ob_wait ob) else Some False of
         None \<Rightarrow> r = Inr Blocked \<and> (\<exists>x. leases_ok x t)
       | Some left \<Rightarrow>
           if stage_noc_ok s \<and> (left \<or> ob_stop_after ob)
           then (\<exists>e. r = Inl e) \<and> leases_ok {#} t \<and> leased t = leased s1
           else \<exists>rv. r = Inr (Replied rv) \<and> received s1 bytes rv t
             \<and> xr_phase (external_host_request t) = TransferComplete"
    using receive_external_run [OF lok(1) s1(2,3,4,5) dev1, of wa True] unfolding s1(6,7) by blast
  note fr = receive_frames [OF rt(1) s1(1) sep]
  note mem = server_members [OF fr(1)]
  have run: "handle_host_request geo wa ob request s = (case r of
        Inl e \<Rightarrow> (Inl e, t)
      | Inr Blocked \<Rightarrow> (Inr Blocked, t)
      | Inr (Replied rv) \<Rightarrow> (seqE (store_received request rv) (finish_request geo wa request rv)) t)"
    using kind e(1) rt(1) s1(1) receive_value_run [OF s1(1)]
    by (auto simp: handle_host_request_def checked_runtime_def seqE_def bindE_def gets_def check_def ret_def drivable_def
        split: sum.split reply.split)
  show ?thesis
  proof (cases "if stage_noc_ok s then await (external_evict_issued s + 1) (ob_wait ob) else Some False")
    case None
    then show ?thesis using rt(2) run by auto
  next
    case (Some left)
    show ?thesis
    proof (cases "stage_noc_ok s \<and> (left \<or> ob_stop_after ob)")
      case True
      then obtain e' where t: "r = Inl e'" "leases_ok {#} t" "leased t = leased s1" using rt(2) Some by auto
      have "manager_ok t" "backing t = backing s1"
        using t lok(2) mem(1) by (simp_all add: manager_ok_def backing_def)
      then show ?thesis using True Some run t(1) e(3) by auto
    next
      case False
      then obtain rv where t: "r = Inr (Replied rv)" "received s1 bytes rv t"
        "xr_phase (external_host_request t) = TransferComplete" using rt(2) Some by auto
      have bl: "length bytes = unat (rq_value_len request)" "device_found geo"
        using dev by (simp_all add: delivers_value_def)
      then have ne: "bytes \<noteq> []" using len by auto
      have form: "rv_lease rv \<noteq> None \<longrightarrow> rv_bytes rv = []"
        using receive_one_form [of geo wa ob request True] rt(1) t(1) by (fastforce simp: yields_def one_form_def)
      have vs: "values_ok (leased s1) (manager_values t)" "map_of (manager_values t) (rq_slot request) = None"
        using lok(2) e(4) mem(1) by simp_all
      obtain u where u: "store_received request rv t = (Inr (), manager_values_update (\<lambda>_. u) t)"
        "manager_ok (manager_values_update (\<lambda>_. u) t)"
        "backing (manager_values_update (\<lambda>_. u) t) = (stored (leased s1) (manager_values t))(rq_slot request \<mapsto> bytes)"
        using store_received_run [OF t(2) vs bl(1) ne form] by blast
      have "external_policy t = external_policy s1" using fr(1) by (simp add: phase_view_def)
      then have "holds_request request WriteThrough t" by (rule moved_request [OF fr(2) s1(2)])
      then have may: "may_complete geo request (manager_values_update (\<lambda>_. u) t)"
        using t(3) bl(2) kind by (simp add: may_complete_def holds_request_def)
      have "drivable (manager_values_update (\<lambda>_. u) t)" using mem(5) s1(1) by (simp add: drivable_def)
      moreover have "moves_completed (manager_values_update (\<lambda>_. u) t) = moves_completed s" using mem(4) s1(8) by simp
      moreover have "settings (manager_values_update (\<lambda>_. u) t) = settings s" using mem(6) s1(10) by (simp add: settings_def)
      moreover have "writes_at (move_processed_addr wa) (events (manager_values_update (\<lambda>_. u) t))
          = writes_at (move_processed_addr wa) (events s)"
        using fr(2) s1(9) by (simp add: request_view_def)
      ultimately have fin: "finish_request geo wa request rv (manager_values_update (\<lambda>_. u) t)
          = (Inr (Replied ()), finished wa request rv (manager_values_update (\<lambda>_. u) t))"
        "move_done wa request s (finished wa request rv (manager_values_update (\<lambda>_. u) t))"
        "backing (finished wa request rv (manager_values_update (\<lambda>_. u) t)) = backing (manager_values_update (\<lambda>_. u) t)"
        using finish_move_done [OF _ may u(2)] by blast+
      have "backing (manager_values_update (\<lambda>_. u) t) = (backing s)(rq_slot request \<mapsto> bytes)"
        using u(3) e(3) mem(1) by (simp add: backing_def)
      then show ?thesis using False Some run t(1) u(1) fin by (auto simp: seqE_def bindE_def)
    qed
  qed
qed

section \<open>Removal\<close>

lemma handle_remove_run:
  fixes s :: "'z server_state_scheme"
  assumes ok: "manager_ok s" and drv: "drivable s" and rq: "holds_request request RemoveBacking s"
    and pend: "xr_phase (external_host_request s) = Pending" and dev: "device_found geo"
  shows "\<exists>t. handle_host_request geo wa ob request s = (Inr (Replied ()), t) \<and> move_done wa request s t
    \<and> backing t = (backing s)(rq_slot request := None)"
proof -
  have kind: "rq_kind request = RemoveBacking" using rq by (simp add: holds_request_def)
  obtain ls ids n m f vs where "erase_value (rq_slot request) s = (Inr (), s\<lparr>leases := ls, external_host_leases := ids,
      external_pool_units_in_use := n, pool_meta := m, pool_free := f, manager_values := vs\<rparr>)"
    "manager_ok (s\<lparr>leases := ls, external_host_leases := ids, external_pool_units_in_use := n,
        pool_meta := m, pool_free := f, manager_values := vs\<rparr>)"
    "backing (s\<lparr>leases := ls, external_host_leases := ids, external_pool_units_in_use := n,
        pool_meta := m, pool_free := f, manager_values := vs\<rparr>) = (backing s)(rq_slot request := None)"
    using erase_value_run [OF ok, of "rq_slot request"] by blast
  moreover define t where "t = s\<lparr>leases := ls, external_host_leases := ids, external_pool_units_in_use := n,
        pool_meta := m, pool_free := f, manager_values := vs\<rparr>"
  ultimately have e: "erase_value (rq_slot request) s = (Inr (), t)" "manager_ok t"
    "backing t = (backing s)(rq_slot request := None)" by simp_all
  have "drivable t" "holds_request request RemoveBacking t" "xr_phase (external_host_request t) = Pending"
    "moves_completed t = moves_completed s" "events t = events s"
    "settings t = settings s"
    using drv rq pend unfolding t_def erased_request by (simp_all add: settings_def)
  moreover from this have "may_complete geo request t" using kind dev by (simp add: may_complete_def)
  ultimately show ?thesis
    using finish_move_done [of t geo request s wa no_value] e kind
    by (simp add: handle_host_request_def seqE_def bindE_def)
qed

section \<open>Serving and promoting\<close>

definition lease_view where
  "lease_view s = (leases_ok {#} s, leased s)"

lemma lease_view_updates [simp]:
  "lease_view (external_host_request_update f1 s) = lease_view s"
  "lease_view (external_commit_issued_update f2 s) = lease_view s"
  "lease_view (events_update f3 s) = lease_view s"
  "lease_view (stage_mem_update f4 s) = lease_view s"
  "lease_view (heap_dram_update f5 s) = lease_view s"
  by (simp_all add: lease_view_def)

lemma lease_view_ops [frame_rules]:
  "keeps lease_view (copy_to_stage off bytes)"
  "keeps lease_view (set_phase ph)"
  "keeps lease_view (write_l1 addr bs)"
  "keeps lease_view (publish_stage_progress addr k)"
  "keeps lease_view (validate_external_request request)"
  unfolding copy_to_stage_def set_phase_def write_l1_def publish_stage_progress_def validate_external_request_def
    lift_sum_def
  by (intro frame_rules; simp)+

lemma lease_view_supply_blocks [frame_rules]:
  "keeps lease_view (supply_blocks fuel bytes len num addr base)"
proof (induction fuel arbitrary: base)
  case (Suc fuel)
  then show ?case unfolding supply_blocks.simps by (intro frame_rules; simp)
qed (simp add: keeps_ret)

lemma lease_view_supply: "keeps lease_view (supply_external_value geo wa ob request lease bytes)"
  unfolding supply_external_value_def finish_supply_def supply_stream_def supply_staged_def check_supply_source_def
    post_commit_req_def
  by (intro frame_rules; simp)

text \<open>A source that matches the request, and room for it.\<close>

definition supplies :: "geometry \<Rightarrow> host_request \<Rightarrow> host_lease option \<Rightarrow> byte list \<Rightarrow> 'z external_state_scheme \<Rightarrow> bool" where
  "supplies geo request lease bytes s =
     (device_found geo \<and> (case lease of
         None \<Rightarrow> bytes \<noteq> [] \<and> length bytes = unat (rq_value_len request)
           \<and> (if stage_noc_ok s then rq_value_len request \<le> stage_bytes s else value_buffer_found geo)
       | Some l \<Rightarrow> bytes = [] \<and> hl_owner l \<and> hl_value_len l = rq_value_len request \<and> stage_noc_ok s))"

definition supply_rest :: "observation \<Rightarrow> 'z external_state_scheme \<Rightarrow> fault + unit reply \<Rightarrow> 'z external_state_scheme \<Rightarrow> bool" where
  "supply_rest ob s r t = (case await (external_commit_issued s + 1) (ob_wait ob) of
       None \<Rightarrow> r = Inr Blocked
     | Some left \<Rightarrow> if left \<or> ob_stop_after ob then \<exists>e. r = Inl e
         else r = Inr (Replied ()) \<and> xr_phase (external_host_request t) = TransferComplete)"

lemma finish_supply_rest:
  assumes "issued = external_commit_issued s + 1"
  shows "\<exists>r u. finish_supply ob issued t = (r, u) \<and> supply_rest ob s r u"
  using assms
  by (cases "await (external_commit_issued s + 1) (ob_wait ob)")
    (auto simp: finish_supply_def supply_rest_def ret_def throw_def seqE_def bindE_def set_phase_def modify_def)

lemma supply_stream_returns:
  assumes "supplies geo request lease bytes s" and "stage_noc_ok s" and "rq_value_len request \<noteq> 0"
    and "stage_bytes t = stage_bytes s"
  shows "\<exists>u. supply_stream request lease bytes addr t = (Inr (), u)"
proof (cases lease)
  case None
  then show ?thesis
    using supply_stream_ok [of bytes request t addr] assms by (auto simp: supplies_def)
qed (simp add: supply_stream_def publish_stage_progress_def write_l1_def modify_def Let_def)

lemma supply_staged_returns:
  assumes "supplies geo request lease bytes s" and "stage_bytes t = stage_bytes s" and "stage_noc_ok t = stage_noc_ok s"
  shows "\<exists>u. supply_staged geo request lease bytes t = (Inr (), u)"
  using assms
  by (auto simp: supply_staged_def supplies_def io_defs copy_to_stage_def split: option.splits)

lemma supply_external_run:
  fixes s :: "'z external_state_scheme"
  assumes rq: "holds_request request kind s" and k: "kind = PromoteToDevice \<or> kind = ServeGet"
    and pend: "xr_phase (external_host_request s) = Pending" and src: "supplies geo request lease bytes s"
    and len: "rq_value_len request \<noteq> 0"
  shows "\<exists>r t. supply_external_value geo wa ob request lease bytes s = (r, t) \<and> supply_rest ob s r t"
proof -
  have kind: "rq_kind request = kind" using rq by (simp add: holds_request_def)
  define s1 where "s1 = s\<lparr>external_host_request := xr_phase_update (\<lambda>_. TransferInProgress) (external_host_request s),
      external_commit_issued := external_commit_issued s + 1\<rparr>"
  have up: "external_commit_issued_update (\<lambda>n. n + 1) (external_host_request_update (xr_phase_update (\<lambda>_. TransferInProgress)) s)
      = s1" by (cases s) (simp add: s1_def)
  have s1: "stage_bytes s1 = stage_bytes s" "stage_noc_ok s1 = stage_noc_ok s"
    "external_commit_issued s1 = external_commit_issued s + 1" by (simp_all add: s1_def)
  have source: "check_supply_source request lease bytes s = (Inr (), s)"
    using src by (auto simp: supplies_def check_supply_source_def io_defs split: option.splits)
  have dev: "device_found geo" using src by (simp add: supplies_def)
  note head = supply_external_value_def seqE_def bindE_def gets_def check_def ret_def set_phase_def modify_def
    write_l1_def post_commit_req_def Let_def
  show ?thesis
  proof (cases "rq_kind request = ServeGet \<and> stage_noc_ok s")
    case True
    define creq where "creq = external_commit_request request (external_host_request s)
        (case lease of None \<Rightarrow> 0 | Some l \<Rightarrow> hl_read_offset l)"
    define s2 where "s2 = events_update ((\<lambda>es. es @ [L1_Write (commit_req_sem_addr wa) (semaphore_bytes (external_commit_issued s + 1))])
      \<circ> ((\<lambda>es. es @ [L1_Write (commit_req_addr wa) creq])
      \<circ> (\<lambda>es. es @ [L1_Write (stage_progress_addr wa) (replicate kStageProgressSize 0)]))) s1"
    have room: "stage_bytes s2 = stage_bytes s" "stage_noc_ok s" using s1 True by (simp_all add: s2_def)
    obtain u where u: "supply_stream request lease bytes (stage_progress_addr wa) s2 = (Inr (), u)"
      using supply_stream_returns [OF src room(2) len room(1)] by blast
    obtain r t where "finish_supply ob (external_commit_issued s + 1) u = (r, t)" "supply_rest ob s r t"
      using finish_supply_rest [OF refl] by blast
    moreover have "supply_external_value geo wa ob request lease bytes s = finish_supply ob (external_commit_issued s + 1) u"
      using validate_holds [OF rq] True pend source dev u up s1 kind k
      by (simp add: head creq_def [symmetric] s2_def comp_assoc)
    ultimately show ?thesis by auto
  next
    case False
    obtain u where u: "supply_staged geo request lease bytes s1 = (Inr (), u)"
      using supply_staged_returns [OF src s1(1,2)] by blast
    define s2 where "s2 = events_update ((\<lambda>es. es @ [L1_Write (commit_req_sem_addr wa) (semaphore_bytes (external_commit_issued s + 1))])
      \<circ> (\<lambda>es. es @ [L1_Write (commit_req_addr wa) (external_commit_request request (external_host_request s)
        (case lease of None \<Rightarrow> 0 | Some l \<Rightarrow> hl_read_offset l))])) u"
    obtain r t where "finish_supply ob (external_commit_issued s + 1) s2 = (r, t)" "supply_rest ob s r t"
      using finish_supply_rest [OF refl] by blast
    moreover have "supply_external_value geo wa ob request lease bytes s = finish_supply ob (external_commit_issued s + 1) s2"
      using validate_holds [OF rq] False pend source dev u up s1 kind k
      by (auto simp add: head s2_def comp_assoc)
    ultimately show ?thesis by auto
  qed
qed

lemma supply_value_run:
  "drivable s \<Longrightarrow> supply_value geo wa ob request lease bytes s = supply_external_value geo wa ob request lease bytes s"
  by (auto simp: supply_value_def check_phase_def drivable_def io_defs)

lemma supply_frames:
  assumes "supply_external_value geo wa ob request lease bytes s = (r, t)" and "drivable s" and "separate wa"
  shows "phase_view t = phase_view s" "request_view wa t = request_view wa s" "lease_view t = lease_view s"
proof -
  show "phase_view t = phase_view s"
    using keepsD [OF phase_io(3), of geo wa ob request lease bytes s] supply_value_run [OF assms(2)] assms(1) by metis
  show "request_view wa t = request_view wa s" using view_supply [OF assms(3)] assms(1) by (rule keepsD)
  show "lease_view t = lease_view s" using lease_view_supply assms(1) by (rule keepsD)
qed

definition value_lease :: "'z external_state_scheme \<Rightarrow> manager_value \<Rightarrow> host_lease option" where
  "value_lease s v = Option.bind (mv_lease v) (map_of (leases s))"

lemma handle_supply_run:
  fixes s :: "'z server_state_scheme"
  assumes ok: "manager_ok s" and drv: "drivable s" and rq: "holds_request request kind s"
    and k: "kind = PromoteToDevice \<or> kind = ServeGet" and pend: "xr_phase (external_host_request s) = Pending"
    and b: "backing s (rq_slot request) = Some bytes" "length bytes = unat (rq_value_len request)"
    and dev: "device_found geo" and room: "stage_noc_ok s" "rq_value_len request \<le> stage_bytes s"
    and len: "rq_value_len request \<noteq> 0" and sep: "separate wa"
  shows "\<exists>r t. handle_host_request geo wa ob request s = (r, t) \<and> manager_ok t \<and> backing t = backing s
    \<and> (case await (external_commit_issued s + 1) (ob_wait ob) of
         None \<Rightarrow> r = Inr Blocked
       | Some left \<Rightarrow> if left \<or> ob_stop_after ob then \<exists>e. r = Inl e
           else r = Inr (Replied ()) \<and> move_done wa request s t)"
proof -
  have kind: "rq_kind request = kind" using rq by (simp add: holds_request_def)
  obtain v where v: "map_of (manager_values s) (rq_slot request) = Some v" "value_bytes (leased s) v = Some bytes"
    using b(1) by (auto simp: backing_def stored_def bind_eq_Some_conv)
  have vok: "value_ok (leased s) v" "leases_ok {#} s"
    using ok map_of_SomeD [OF v(1)] by (fastforce simp: manager_ok_def values_ok_def)+
  have vl: "mv_len v = rq_value_len request" using vok(1) v(2) b(2) by (simp add: value_ok_def u32_eq_iff)
  define vb where "vb = (if mv_lease v = None then mv_bytes v else [])"
  have src: "supplies geo request (value_lease s v) vb s"
  proof (cases "mv_lease v")
    case None
    then show ?thesis using v(2) vok(1) dev room b(2) by (simp add: supplies_def value_lease_def vb_def value_bytes_def value_ok_def)
  next
    case (Some i)
    then obtain l where l: "map_of (leases s) i = Some l" "i \<in> set (external_host_leases s)"
      "lease_bytes s l = bytes"
      using v(2) by (auto simp: value_bytes_def leased_def split: if_splits)
    then have "hl_owner l" using vok(2) by (fastforce simp: leases_ok_def lease_ok_def)
    moreover have "unat (hl_value_len l) = unat (rq_value_len request)" using l(3) b(2) by (auto simp: lease_bytes_def)
    ultimately show ?thesis using Some l(1) dev room by (simp add: supplies_def value_lease_def vb_def u32_eq_iff)
  qed
  obtain r t where rt: "supply_external_value geo wa ob request (value_lease s v) vb s = (r, t)" "supply_rest ob s r t"
    using supply_external_run [OF rq k pend src len] by blast
  note fr = supply_frames [OF rt(1) drv sep]
  note mem = server_members [OF fr(1)]
  have run: "handle_host_request geo wa ob request s = (case r of
        Inl e \<Rightarrow> (Inl e, t)
      | Inr Blocked \<Rightarrow> (Inr Blocked, t)
      | Inr (Replied _) \<Rightarrow> finish_request geo wa request no_value t)"
    using k kind v(1) vl rt(1) drv supply_value_run [OF drv]
    by (auto simp: handle_host_request_def checked_runtime_def seqE_def bindE_def gets_def check_def ret_def drivable_def
        value_lease_def vb_def split: sum.split reply.split)
  have t: "manager_ok t" "backing t = backing s" "drivable t" "moves_completed t = moves_completed s"
    "settings t = settings s" "writes_at (move_processed_addr wa) (events t) = writes_at (move_processed_addr wa) (events s)"
    using fr mem ok drv by (simp_all add: lease_view_def manager_ok_def backing_def request_view_def)
  have "external_policy t = external_policy s" using fr(1) by (simp add: phase_view_def)
  then have h: "holds_request request kind t" by (rule moved_request [OF fr(2) rq])
  have fin: "finish_request geo wa request no_value t = (Inr (Replied ()), finished wa request no_value t)
      \<and> move_done wa request s (finished wa request no_value t)"
    if "xr_phase (external_host_request t) = TransferComplete"
    using that h kind dev finish_move_done [of t geo request s wa no_value] t by (simp add: may_complete_def)
  show ?thesis
  proof (cases "await (external_commit_issued s + 1) (ob_wait ob)")
    case None
    then show ?thesis using run rt(2) t by (simp add: supply_rest_def)
  next
    case (Some left)
    show ?thesis
    proof (cases "left \<or> ob_stop_after ob")
      case True
      then show ?thesis using Some run rt(2) t by (auto simp: supply_rest_def)
    next
      case False
      then show ?thesis using Some run rt(2) t fin by (auto simp: supply_rest_def)
    qed
  qed
qed

end
