(* ===== verification/Manager_Loop.thy ===== *)
theory Manager_Loop
  imports Manager_Values
begin

text \<open>
  The worker loop of the manager over the rounds it makes, and the properties of the manager's
  values: each kind of move refines the operation of the map of stored values, and so does the
  loop.
\<close>

section \<open>The loop\<close>

text \<open>The request that a poll buffer posts, and the effect of its move on the map.\<close>

definition posted_request :: "byte list \<Rightarrow> request_kind \<Rightarrow> host_request" where
  "posted_request buf kind = (let rq = read_move_request buf in
     \<lparr>rq_sequence = read_le32 buf 0, rq_kind = kind, rq_slot = mr_slot rq, rq_value_len = mr_total_len rq,
      rq_device_value_offset = mr_value_byte_off rq\<rparr>)"

definition posted_kind :: "byte list \<Rightarrow> request_kind \<Rightarrow> bool" where
  "posted_kind buf kind = (host_request_kind (mr_op (read_move_request buf)) = Inr kind)"

definition round_effect :: "u32 \<Rightarrow> worker_round \<times> byte list \<Rightarrow> (u32 \<Rightarrow> byte list option) \<Rightarrow> u32 \<Rightarrow> byte list option" where
  "round_effect seq e m =
     (if read_le32 (wr_poll (fst e)) 0 = seq then m
      else let slot = mr_slot (read_move_request (wr_poll (fst e))) in
        case host_request_kind (mr_op (read_move_request (wr_poll (fst e)))) of
          Inr WriteThrough \<Rightarrow> m(slot \<mapsto> snd e)
        | Inr RemoveBacking \<Rightarrow> m(slot := None)
        | _ \<Rightarrow> m)"

text \<open>The map after all rounds: a posted sequence number that is new becomes the last one seen.\<close>

fun loop_effect :: "u32 \<Rightarrow> (worker_round \<times> byte list) list \<Rightarrow> (u32 \<Rightarrow> byte list option) \<Rightarrow> u32 \<Rightarrow> byte list option" where
  "loop_effect seq [] m = m"
| "loop_effect seq (e # es) m = loop_effect (read_le32 (wr_poll (fst e)) 0) es (round_effect seq e m)"

lemma yields_lift: "yields (\<lambda>a. x = Inr a) (lift_sum x)"
  by (cases x) (simp_all add: lift_sum_def yields_def throw_def ret_def)

lemma decode_fields:
  "yields (\<lambda>(kind, rq). posted_kind buf kind \<and> xr_slot rq = mr_slot (read_move_request buf)
     \<and> xr_total_len rq = mr_total_len (read_move_request buf)
     \<and> xr_value_byte_off rq = mr_value_byte_off (read_move_request buf)) (decode_external_request buf)"
  unfolding decode_external_request_def Let_def
  by (rule yields_bindE2 [OF yields_lift]) (intro yields_rules yields_bindE yields_ret; simp add: posted_kind_def)

lemma poll_fields:
  "yields (\<lambda>r. case r of None \<Rightarrow> True | Some request \<Rightarrow>
       \<exists>kind. posted_kind buf kind \<and> request = posted_request buf kind) (poll_external_host_request geo buf)"
  unfolding poll_external_host_request_def Let_def
  by (rule yields_rules yields_bindE2 [OF decode_fields] yields_ret | rule yields_bindE
      | auto simp: posted_request_def Let_def)+

lemma finish_request_cases:
  assumes "drivable s"
  shows "if may_complete geo request s then finish_request geo wa request rv s = (Inr (Replied ()), finished wa request rv s)
    else \<exists>e. finish_request geo wa request rv s = (Inl e, s)"
proof (cases "may_complete geo request s")
  case False
  then obtain e where "complete_external_host_request geo wa request s = (Inl e, s)"
    using complete_cases [of geo request s wa] by auto
  then show ?thesis
    using False assms
    by (auto simp: finish_request_def checked_runtime_def drivable_def complete_host_request_def check_phase_def io_defs)
qed (simp add: finish_request_run assms)

text \<open>A supply that returns was of a stored value, and leaves the map as it is.\<close>

lemma handle_supply_frame:
  fixes s :: "'z server_state_scheme"
  assumes run: "handle_host_request geo wa ob request s = (Inr (Replied ()), t)"
    and k: "rq_kind request = PromoteToDevice \<or> rq_kind request = ServeGet"
    and ok: "manager_ok s" and drv: "drivable s" and sep: "separate wa"
  shows "move_done wa request s t \<and> backing t = backing s"
proof -
  obtain v u where "finish_request geo wa request no_value u = (Inr (Replied ()), t)"
    "supply_external_value geo wa ob request (value_lease s v) (if mv_lease v = None then mv_bytes v else []) s
      = (Inr (Replied ()), u)"
    using run k drv supply_value_run [OF drv]
    by (auto simp: handle_host_request_def checked_runtime_def seqE_def bindE_def gets_def check_def ret_def throw_def
        drivable_def value_lease_def split: sum.splits reply.splits option.splits prod.splits if_splits)
  note u = this
  note fr = supply_frames [OF u(2) drv sep]
  note mem = server_members [OF fr(1)]
  have "drivable u" using mem(5) drv by simp
  from finish_request_cases [OF this, of geo request wa no_value] u(1)
  have m: "may_complete geo request u" "t = finished wa request no_value u" by (auto split: if_splits)
  moreover have "manager_ok u" "backing u = backing s" "moves_completed u = moves_completed s"
    "settings u = settings s" "writes_at (move_processed_addr wa) (events u) = writes_at (move_processed_addr wa) (events s)"
    using fr mem ok by (simp_all add: lease_view_def manager_ok_def backing_def request_view_def)
  ultimately show ?thesis using finish_move_done [OF \<open>drivable u\<close> m(1)] by simp
qed

definition loop_ready :: "'z server_state_scheme \<Rightarrow> bool" where
  "loop_ready s = (manager_ok s \<and> drivable s \<and> \<not> xr_active (external_host_request s) \<and> max_key_len s \<le> 128
     \<and> (pool_mapped s \<longrightarrow> meta_mapped s) \<and> server_workload_running s \<and> \<not> external_host_io_cancelled s)"

text \<open>What the device does in a round: it fills the poll buffer, and delivers the bytes of a write-through.\<close>

definition round_ok :: "geometry \<Rightarrow> bool \<Rightarrow> worker_round \<times> byte list \<Rightarrow> bool" where
  "round_ok geo noc_ok e = (length (wr_poll (fst e)) = kMoveReqSemSize + kMoveReqSlotBytes
     \<and> (posted_kind (wr_poll (fst e)) WriteThrough \<longrightarrow>
          delivers_value geo noc_ok (wr_observation (fst e)) (posted_request (wr_poll (fst e)) WriteThrough) (snd e)))"

lemma poll_value_run:
  "drivable s \<Longrightarrow> poll_host_request geo buf s = poll_external_host_request geo buf s"
  by (auto simp: poll_host_request_def check_phase_def drivable_def io_defs)

lemma poll_idle:
  assumes "loop_ready s" and "poll_external_host_request geo buf s = (Inr None, t)"
  shows "t = s \<and> read_le32 buf 0 = external_seen s"
  using assms
  by (auto simp: poll_external_host_request_def loop_ready_def Let_def seqE_def bindE_def gets_def check_def ret_def
      throw_def modify_def split: if_splits sum.splits prod.splits)

lemma decoded_holds:
  assumes "decoded_ok s buf kind rq" and "external_policy s"
  shows "holds_request (request_of kind rq) kind (s\<lparr>external_host_request := rq\<rparr>)"
    "xr_phase (external_host_request (s\<lparr>external_host_request := rq\<rparr>)) = Pending"
    "xr_slot rq < max_keys s" "kind = RemoveBacking \<or> xr_total_len rq \<noteq> 0"
  using assms by (auto simp: decoded_ok_def holds_request_def request_of_def fields_ok_def split: request_kind.splits)

lemma loop_ready_done:
  assumes "move_done wa request s t" and "loop_ready s'" and "settings s = settings s'"
  shows "loop_ready t"
  using assms by (auto simp: move_done_def loop_ready_def settings_def no_request_def)

text \<open>One round: if it gets through, the map is that of the posted move.\<close>

lemma polled_round:
  fixes s :: "'z server_state_scheme"
  assumes ready: "loop_ready s" and rd: "round_ok geo (stage_noc_ok s) (r, bytes)" and sep: "separate wa"
    and req: "decoded_ok s (wr_poll r) kind rq" "posted_kind (wr_poll r) kind"
      "request_of kind rq = posted_request (wr_poll r) kind" "read_le32 (wr_poll r) 0 = external_seen s + 1"
      "external_policy s"
    and dev: "device_found geo"
    and run: "handle_host_request geo wa (wr_observation r) (request_of kind rq) (s\<lparr>external_host_request := rq\<rparr>)
        = (Inr (Replied ()), t)"
  shows "loop_ready t \<and> settings t = settings s \<and> external_seen t = read_le32 (wr_poll r) 0
    \<and> backing t = round_effect (external_seen s) (r, bytes) (backing s)"
proof -
  let ?s = "s\<lparr>external_host_request := rq\<rparr>" and ?rq = "request_of kind rq"
  note h = decoded_holds [OF req(1,5)]
  have ok: "manager_ok ?s" "drivable ?s" "settings ?s = settings s" "backing ?s = backing s"
    using ready by (simp_all add: loop_ready_def manager_ok_def drivable_def settings_def backing_def)
  have slot: "rq_slot ?rq = mr_slot (read_move_request (wr_poll r))" "rq_sequence ?rq = read_le32 (wr_poll r) 0"
    unfolding req(3) by (simp_all add: posted_request_def Let_def)
  have hk: "host_request_kind (mr_op (read_move_request (wr_poll r))) = Inr kind" using req(2) by (simp add: posted_kind_def)
  have eff: "round_effect (external_seen s) (r, bytes) m = (case kind of WriteThrough \<Rightarrow> m(rq_slot ?rq \<mapsto> bytes)
      | RemoveBacking \<Rightarrow> m(rq_slot ?rq := None) | _ \<Rightarrow> m)" for m
    using req(4) hk slot(1) by (simp add: round_effect_def Let_def request_of_def split: request_kind.split)
  have "move_done wa ?rq ?s t \<and> backing t = round_effect (external_seen s) (r, bytes) (backing s)"
  proof (cases kind)
    case WriteThrough
    have wt: "holds_request ?rq WriteThrough ?s" using h(1) WriteThrough by simp
    have del: "delivers_value geo (stage_noc_ok ?s) (wr_observation r) ?rq bytes"
      using rd req(2,3) WriteThrough by (simp add: round_ok_def)
    have pre: "rq_slot ?rq < max_keys ?s" "pool_mapped ?s \<longrightarrow> meta_mapped ?s" "rq_value_len ?rq \<noteq> 0"
      using h(3,4) WriteThrough ready by (simp_all add: request_of_def loop_ready_def)
    show ?thesis
      using handle_write_through_run [OF ok(1,2) wt h(2) pre(1,2) del pre(3) sep] run WriteThrough eff ok(4)
      by (auto split: option.splits if_splits)
  next
    case RemoveBacking
    have rm: "holds_request ?rq RemoveBacking ?s" using h(1) RemoveBacking by simp
    show ?thesis
      using handle_remove_run [OF ok(1,2) rm h(2) dev, of wa "wr_observation r"] run RemoveBacking eff ok(4) by auto
  next
    case PromoteToDevice
    then show ?thesis using handle_supply_frame [OF run _ ok(1,2) sep] eff ok(4) by (simp add: request_of_def)
  next
    case ServeGet
    then show ?thesis using handle_supply_frame [OF run _ ok(1,2) sep] eff ok(4) by (simp add: request_of_def)
  qed
  then have m: "move_done wa ?rq ?s t" "backing t = round_effect (external_seen s) (r, bytes) (backing s)" by simp_all
  have "loop_ready t" using loop_ready_done [OF m(1) ready ok(3)] .
  then show ?thesis using m ok(3) slot(2) by (simp add: move_done_def)
qed

lemma manager_turn_run:
  fixes s :: "'z server_state_scheme"
  assumes ready: "loop_ready s" and rd: "round_ok geo (stage_noc_ok s) (r, bytes)" and sep: "separate wa"
    and run: "manager_turn geo wa r s = (Inr (Replied ()), t)"
  shows "loop_ready t \<and> settings t = settings s \<and> external_seen t = read_le32 (wr_poll r) 0
    \<and> backing t = round_effect (external_seen s) (r, bytes) (backing s)"
proof -
  have drv: "drivable s" and len: "length (wr_poll r) = kMoveReqSemSize + kMoveReqSlotBytes"
    and keys: "max_key_len s \<le> 128" using ready rd by (simp_all add: loop_ready_def round_ok_def)
  have turn: "manager_turn geo wa r s = bindE (poll_external_host_request geo (wr_poll r)) (\<lambda>request. case request of
      None \<Rightarrow> ret (Replied ()) | Some rq \<Rightarrow> handle_host_request geo wa (wr_observation r) rq) s"
    using drv poll_value_run [OF drv]
    by (simp add: manager_turn_def checked_runtime_def drivable_def seqE_def bindE_def gets_def check_def ret_def)
  obtain request u where p: "poll_external_host_request geo (wr_poll r) s = (Inr request, u)"
    using run turn by (auto simp: bindE_def split: prod.splits sum.splits)
  show ?thesis
  proof (cases request)
    case None
    then have "u = s \<and> read_le32 (wr_poll r) 0 = external_seen s" using poll_idle [OF ready] p by simp
    then show ?thesis using run turn p None ready by (auto simp: bindE_def ret_def round_effect_def)
  next
    case (Some rq')
    then obtain rq kind where d: "u = s\<lparr>external_host_request := rq\<rparr>" "decoded_ok s (wr_poll r) kind rq"
      "read_le32 (wr_poll r) 0 = external_seen s + 1" "rq' = request_of kind rq"
      using wp_returnD [OF poll_decoded [OF len keys] p] by auto
    obtain kind' where f: "posted_kind (wr_poll r) kind'" "rq' = posted_request (wr_poll r) kind'"
      using poll_fields [of "wr_poll r" geo] p Some by (fastforce simp: yields_def)
    have "kind' = kind" using d(4) f(2) by (simp add: request_of_def posted_request_def Let_def)
    moreover have "external_policy s" "device_found geo"
      using p Some by (auto simp: poll_external_host_request_def Let_def seqE_def bindE_def gets_def check_def ret_def
          throw_def split: if_splits)
    moreover have "handle_host_request geo wa (wr_observation r) (request_of kind rq) (s\<lparr>external_host_request := rq\<rparr>)
        = (Inr (Replied ()), t)"
      using run turn p Some d(1,4) by (simp add: bindE_def)
    ultimately show ?thesis using polled_round [OF ready rd sep d(2)] d(3,4) f by metis
  qed
qed

text \<open>The worker never dies silently.\<close>

definition loop_outcome :: "worker_round list \<Rightarrow> 'z server_state_scheme \<Rightarrow> loop_end \<Rightarrow> 'z server_state_scheme \<Rightarrow> bool" where
  "loop_outcome rounds s out t = (case out of
       Loop_Failed \<Rightarrow> (\<exists>r \<in> set rounds. wr_stop_late r) \<or> (manager_failed t \<and> manager_failure t \<noteq> None)
     | Loop_Stopped \<Rightarrow> manager_stop s \<or> (\<exists>r \<in> set rounds. wr_stop r)
     | _ \<Rightarrow> True)"

lemma manager_loop_run:
  fixes s :: "'z server_state_scheme"
  assumes "loop_ready s" and "\<And>e. e \<in> set rounds \<Longrightarrow> round_ok geo (stage_noc_ok s) e" and sep: "separate wa"
  shows "\<exists>out t. manager_loop geo wa (map fst rounds) s = (Inr out, t) \<and> loop_outcome (map fst rounds) s out t
    \<and> (out = Loop_Polling \<longrightarrow> loop_ready t \<and> backing t = loop_effect (external_seen s) rounds (backing s))"
  using assms(1,2)
proof (induction rounds arbitrary: s)
  case Nil
  then show ?case by (simp add: ret_def loop_outcome_def)
next
  case (Cons e rounds)
  obtain r bytes where e: "e = (r, bytes)" by (cases e)
  show ?case
  proof (cases "manager_stop s \<or> wr_stop r")
    case True
    then show ?thesis by (auto simp: e bindE_def gets_def ret_def loop_outcome_def)
  next
    case False
    obtain res t where turn: "manager_turn geo wa r s = (res, t)" by (cases "manager_turn geo wa r s")
    have step: "manager_loop geo wa (map fst (e # rounds)) s = (case res of
        Inl f \<Rightarrow> seqE (whenE (\<not> wr_stop_late r) (record_manager_failure f)) (ret Loop_Failed) t
      | Inr Blocked \<Rightarrow> (Inr Loop_Blocked, t) | Inr (Replied _) \<Rightarrow> manager_loop geo wa (map fst rounds) t)"
      using False turn by (simp add: e bindE_def gets_def catchE_def ret_def split: sum.split reply.split)
    show ?thesis
    proof (cases res)
      case (Inl f)
      then show ?thesis
        using step by (cases "manager_failure t"; cases "wr_stop_late r")
          (simp_all add: e record_manager_failure_def io_defs whenE_def loop_outcome_def)
    next
      case (Inr reply)
      show ?thesis
      proof (cases reply)
        case Blocked
        then show ?thesis using step Inr by (simp add: loop_outcome_def)
      next
        case (Replied x)
        then have t: "loop_ready t" "settings t = settings s" "external_seen t = read_le32 (wr_poll r) 0"
          "backing t = round_effect (external_seen s) (r, bytes) (backing s)"
          using manager_turn_run [OF Cons.prems(1) _ sep, of geo r bytes t] Cons.prems(2) [of e] turn Inr
          by (simp_all add: e)
        have "stage_noc_ok t = stage_noc_ok s" "manager_stop t = manager_stop s" using t(2) by (simp_all add: settings_def)
        then show ?thesis
          using Cons.IH [OF t(1)] Cons.prems(2) step Inr Replied t(3,4)
          by (fastforce simp: e loop_outcome_def split: loop_end.splits)
      qed
    qed
  qed
qed
section \<open>Properties\<close>

definition demo_server :: server_state where
  "demo_server = device_runtime_state.extend
     (core_state.extend (external_state.extend demo_external
        (core_state.fields (0, 1) [(0, 1)] [] True True True True True False False False None))
       (device_runtime_state.fields Running))
     (server_state.fields Server_Ready True [(1, \<lparr>mv_len = 8000, mv_lease = Some 0, mv_bytes = []\<rparr>)]
       True False False None True (0, 1) [(0, 1)] True 10 0 no_moves)"

lemma demo_server_same:
  "host_values demo_server = host_values demo_external" "pool_free demo_server = pool_free demo_external"
  "pool_units_total demo_server = pool_units_total demo_external"
  "external_host_leases demo_server = external_host_leases demo_external" "leases demo_server = leases demo_external"
  "next_lease demo_server = next_lease demo_external" "pool_mem demo_server = pool_mem demo_external"
  "external_pool_units_in_use demo_server = external_pool_units_in_use demo_external"
  "max_keys demo_server = max_keys demo_external" "meta_mapped demo_server = meta_mapped demo_external"
  "pool_mapped demo_server = pool_mapped demo_external" "stage_noc_ok demo_server = stage_noc_ok demo_external"
  "stage_bytes demo_server = stage_bytes demo_external" "external_policy demo_server = external_policy demo_external"
  "external_host_request demo_server = external_host_request demo_external"
  "external_seen demo_server = external_seen demo_external"
  "external_evict_issued demo_server = external_evict_issued demo_external"
  "external_commit_issued demo_server = external_commit_issued demo_external"
  "max_key_len demo_server = max_key_len demo_external"
  "server_workload_running demo_server = server_workload_running demo_external"
  "external_host_io_cancelled demo_server = external_host_io_cancelled demo_external"
  by (simp_all add: demo_server_def external_state.defs core_state.defs device_runtime_state.defs server_state.defs)

lemma demo_server_fields [simp]:
  "external_host_request demo_server = external_host_request demo_external"
  "max_keys demo_server = 4" "pool_mapped demo_server = True" "meta_mapped demo_server = True"
  "stage_noc_ok demo_server = True" "stage_bytes demo_server = 42880" "external_policy demo_server = True"
  "external_seen demo_server = 4" "external_evict_issued demo_server = 0" "external_commit_issued demo_server = 0"
  "max_key_len demo_server = 128" "server_workload_running demo_server = True"
  "external_host_io_cancelled demo_server = False" "leases demo_server = [(0, demo_lease)]"
  by (simp_all add: demo_server_same)

lemma demo_server_members [simp]:
  "manager_stop demo_server = False" "drivable demo_server = True"
  "manager_values demo_server = [(1, \<lparr>mv_len = 8000, mv_lease = Some 0, mv_bytes = []\<rparr>)]"
  by (simp_all add: demo_server_def server_state.defs device_runtime_state.defs core_state.defs external_state.defs
      drivable_def)

lemma demo_server_leased [simp]: "leased demo_server = leased demo_external"
  by (simp add: leased_def lease_bytes_def fun_eq_iff demo_server_same)

lemma demo_manager_ok: "manager_ok demo_server"
proof -
  have "leases_ok {#} demo_server"
    using demo_external_ok
    unfolding leases_ok_def host_ok_def pool.partitions_def pool_ok_def pool_free_set_def demo_server_same .
  moreover have "dom (leased demo_server) = {0}"
    by (auto simp: leased_def dom_def split: if_splits)
  moreover have "length (lease_bytes demo_external demo_lease) = 8000" by (simp add: lease_bytes_def demo_lease_def)
  ultimately show ?thesis
    by (simp add: manager_ok_def values_ok_def value_ok_def value_bytes_def leased_def)
qed

text \<open>
  C18: a write-through replaces exactly one stored value. For the active write-through request on a manager
  whose leases and slots match: when the device delivers, the move returns, the map of stored values
  has the delivered bytes at the request's slot and is otherwise unchanged, no lease is lost or
  shared, and the request is acknowledged once, cleared and counted. If the wait is cancelled, the
  call throws, and only that slot's old value is gone.
\<close>

theorem handle_write_through_exact:
  fixes s :: "'z server_state_scheme"
  assumes "manager_ok s" and "drivable s" and "holds_request request WriteThrough s"
    and "xr_phase (external_host_request s) = Pending" and "rq_slot request < max_keys s"
    and "pool_mapped s \<longrightarrow> meta_mapped s" and "delivers_value geo (stage_noc_ok s) ob request bytes"
    and "rq_value_len request \<noteq> 0" and "separate wa"
  shows "\<exists>r t. handle_host_request geo wa ob request s = (r, t)
    \<and> (case if stage_noc_ok s then await (external_evict_issued s + 1) (ob_wait ob) else Some False of
         None \<Rightarrow> r = Inr Blocked
       | Some left \<Rightarrow>
           if stage_noc_ok s \<and> (left \<or> ob_stop_after ob)
           then (\<exists>e. r = Inl e) \<and> manager_ok t \<and> backing t = (backing s)(rq_slot request := None)
           else r = Inr (Replied ()) \<and> move_done wa request s t
             \<and> backing t = (backing s)(rq_slot request \<mapsto> bytes))"
  by (rule handle_write_through_run [OF assms])

lemma demo_separate: "separate demo_channel"
  by (simp add: separate_def demo_channel_def)

theorem handle_write_through_exact_witness:
  "\<exists>t. handle_host_request demo_geometry demo_channel demo_push_round demo_receive demo_server = (Inr (Replied ()), t)
    \<and> backing t 3 = Some [1, 2, 3] \<and> backing t 1 = backing demo_server 1"
proof -
  have d: "delivers_value demo_geometry (stage_noc_ok demo_server) demo_push_round demo_receive [1, 2, 3]"
    by (simp add: delivers_value_def demo_receive_def demo_push_round_def demo_geometry_def)
  have h: "holds_request demo_receive WriteThrough demo_server"
    using demo_holds by (simp add: holds_request_def)
  have p: "drivable demo_server" "xr_phase (external_host_request demo_server) = Pending"
    "rq_slot demo_receive < max_keys demo_server" "pool_mapped demo_server \<longrightarrow> meta_mapped demo_server"
    "rq_value_len demo_receive \<noteq> 0"
    by (simp_all add: demo_receive_def word_less_nat_alt)
  have "rq_slot demo_receive = 3" by (simp add: demo_receive_def)
  then show ?thesis
    using handle_write_through_exact [OF demo_manager_ok p(1) h p(2-4) d p(5) demo_separate]
    by (auto simp: demo_push_round_def demo_wait_def)
qed

text \<open>
  Removing a backing forgets exactly one stored value, and gives its pool units back. For the active
  removal request the move returns; the slot has no value any more, no other slot is touched,
  every remaining lease still belongs to a slot, and the request is acknowledged once.
\<close>

theorem handle_remove_exact:
  fixes s :: "'z server_state_scheme"
  assumes "manager_ok s" and "drivable s" and "holds_request request RemoveBacking s"
    and "xr_phase (external_host_request s) = Pending" and "device_found geo"
  shows "\<exists>t. handle_host_request geo wa ob request s = (Inr (Replied ()), t) \<and> move_done wa request s t
    \<and> backing t = (backing s)(rq_slot request := None) \<and> dom (leased t) = set (value_leases (manager_values t))"
  using handle_remove_run [OF assms, of wa ob] by (auto simp: move_done_def manager_ok_def values_ok_def)

theorem handle_remove_exact_witness:
  "\<exists>t. handle_host_request demo_geometry demo_channel demo_push_round (demo_remove\<lparr>rq_slot := 1\<rparr>)
      (demo_server\<lparr>external_host_request := (external_host_request demo_removal)\<lparr>xr_slot := 1\<rparr>\<rparr>)
      = (Inr (Replied ()), t) \<and> backing t 1 = None"
proof -
  let ?s = "demo_server\<lparr>external_host_request := (external_host_request demo_removal)\<lparr>xr_slot := 1\<rparr>\<rparr>"
  let ?rq = "demo_remove\<lparr>rq_slot := 1\<rparr>"
  have "manager_ok ?s" using demo_manager_ok by (simp add: manager_ok_def)
  moreover have "drivable ?s" using demo_server_members(2) by (simp add: drivable_def)
  moreover have "holds_request ?rq RemoveBacking ?s" "xr_phase (external_host_request ?s) = Pending"
    "device_found demo_geometry"
    by (simp_all add: holds_request_def demo_remove_def demo_removal_def host_request_kind_def move_ops demo_geometry_def)
  ultimately show ?thesis
    using handle_remove_exact [of ?s ?rq demo_geometry demo_channel demo_push_round] by (auto simp: demo_remove_def)
qed

text \<open>
  a promotion or a host serve supplies the stored value and keeps it. For the active request, on a
  usable NoC mapping with the value stored, of the requested length and within the staging window:
  the map of stored values and the leases are unchanged however it ends; when the device's
  completion is seen the request is acknowledged once; when it is cancelled the call throws.
\<close>

theorem handle_supply_exact:
  fixes s :: "'z server_state_scheme"
  assumes "manager_ok s" and "drivable s" and "holds_request request kind s"
    and "kind = PromoteToDevice \<or> kind = ServeGet" and "xr_phase (external_host_request s) = Pending"
    and "backing s (rq_slot request) = Some bytes" and "length bytes = unat (rq_value_len request)"
    and "device_found geo" and "stage_noc_ok s" and "rq_value_len request \<le> stage_bytes s"
    and "rq_value_len request \<noteq> 0" and "separate wa"
  shows "\<exists>r t. handle_host_request geo wa ob request s = (r, t) \<and> manager_ok t \<and> backing t = backing s
    \<and> (case await (external_commit_issued s + 1) (ob_wait ob) of
         None \<Rightarrow> r = Inr Blocked
       | Some left \<Rightarrow> if left \<or> ob_stop_after ob then \<exists>e. r = Inl e
           else r = Inr (Replied ()) \<and> move_done wa request s t)"
  by (rule handle_supply_run [OF assms])

definition demo_serve :: host_request where
  "demo_serve = \<lparr>rq_sequence = 5, rq_kind = ServeGet, rq_slot = 1, rq_value_len = 8000, rq_device_value_offset = 0\<rparr>"

definition demo_server_serving :: server_state where
  "demo_server_serving = demo_server\<lparr>external_host_request := \<lparr>xr_active = True, xr_phase = Pending, xr_sequence = 5,
     xr_op = kMoveOpHostServe, xr_slot = 1, xr_value_byte_off = 0, xr_total_len = 8000, xr_key_len = 0, xr_key = []\<rparr>\<rparr>"

theorem handle_supply_exact_witness:
  "\<exists>t. handle_host_request demo_geometry demo_channel demo_push_round demo_serve demo_server_serving
      = (Inr (Replied ()), t) \<and> backing t = backing demo_server_serving"
proof -
  let ?s = demo_server_serving
  have ok: "manager_ok ?s" "backing ?s = backing demo_server"
    using demo_manager_ok by (simp_all add: demo_server_serving_def manager_ok_def backing_def)
  have d: "drivable ?s" using demo_server_members(2) by (simp add: demo_server_serving_def drivable_def)
  have b: "backing ?s (rq_slot demo_serve) = Some (lease_bytes demo_external demo_lease)"
    unfolding ok(2) by (simp add: backing_def stored_def value_bytes_def demo_serve_def leased_def)
  have p: "holds_request demo_serve ServeGet ?s" "xr_phase (external_host_request ?s) = Pending"
    "length (lease_bytes demo_external demo_lease) = unat (rq_value_len demo_serve)" "device_found demo_geometry"
    "stage_noc_ok ?s" "rq_value_len demo_serve \<le> stage_bytes ?s" "rq_value_len demo_serve \<noteq> 0"
    by (simp_all add: holds_request_def demo_serve_def demo_server_serving_def host_request_kind_def move_ops
        demo_geometry_def lease_bytes_def demo_lease_def word_le_nat_alt)
  show ?thesis
    using handle_supply_exact [OF ok(1) d p(1) disjI2 [OF refl] p(2) b p(3-7) demo_separate, of demo_push_round]
    by (auto simp: demo_push_round_def demo_wait_def demo_server_serving_def)
qed

text \<open>
  C1: the manager's worker refines the map of stored values. Over any sequence of rounds in which the device
  fills the poll buffer and delivers the bytes of write-throughs: if the loop gets through all of
  them, the stored values are exactly those that the posted moves say, and every lease belongs to
  one slot. The loop itself never throws; it stops only on the stop flag, and when a move
  fails the failure is recorded unless the server is stopping.
\<close>

theorem manager_loop_refines:
  fixes s :: "'z server_state_scheme"
  assumes "loop_ready s" and "\<forall>e \<in> set rounds. round_ok geo (stage_noc_ok s) e" and "separate wa"
  shows "\<exists>out t. manager_loop geo wa (map fst rounds) s = (Inr out, t) \<and> loop_outcome (map fst rounds) s out t
    \<and> (out = Loop_Polling \<longrightarrow> loop_ready t \<and> backing t = loop_effect (external_seen s) rounds (backing s))"
  using assms by (intro manager_loop_run) auto

definition demo_idle_server :: server_state where
  "demo_idle_server = demo_server\<lparr>external_host_request := no_request\<rparr>"

definition demo_round :: "u32 \<Rightarrow> u32 \<Rightarrow> u32 \<Rightarrow> u32 \<Rightarrow> worker_round" where
  "demo_round sem op slot len = \<lparr>wr_stop = False, wr_poll = demo_poll sem op slot len,
     wr_observation = demo_push_round, wr_stop_late = False\<rparr>"

lemma demo_poll_fields:
  "read_le32 (demo_poll 5 op 3 3) 0 = 5" "read_move_request (demo_poll 5 op 3 3) =
     \<lparr>mr_op = op, mr_slot = 3, mr_value_byte_off = 8576, mr_total_len = 3, mr_key_len = 0,
      mr_bytes = le32 op @ le32 3 @ le32 8576 @ le32 3 @ le32 0 @ replicate 140 0\<rparr>"
proof -
  have sk: "read_le32 (le32 a @ ys) 4 = read_le32 ys 0" "read_le32 (le32 a @ le32 c @ ys) 8 = read_le32 ys 0"
    "read_le32 (le32 a @ le32 c @ le32 e @ ys) 12 = read_le32 ys 0"
    "read_le32 (le32 a @ le32 c @ le32 e @ le32 f @ ys) 16 = read_le32 ys 0" for a c e f ys
    using read_le32_skip [of "le32 a" ys 0] read_le32_skip [of "le32 a @ le32 c" ys 0]
      read_le32_skip [of "le32 a @ le32 c @ le32 e" ys 0] read_le32_skip [of "le32 a @ le32 c @ le32 e @ le32 f" ys 0]
    by simp_all
  show "read_le32 (demo_poll 5 op 3 3) 0 = 5" by (simp add: demo_poll_def semaphore_bytes_def)
  show "read_move_request (demo_poll 5 op 3 3) =
     \<lparr>mr_op = op, mr_slot = 3, mr_value_byte_off = 8576, mr_total_len = 3, mr_key_len = 0,
      mr_bytes = le32 op @ le32 3 @ le32 8576 @ le32 3 @ le32 0 @ replicate 140 0\<rparr>"
    by (simp add: read_move_request_def demo_poll_def semaphore_bytes_def kMoveReqSemSize_def Let_def sk)
qed

lemma demo_poll_run:
  "poll_external_host_request demo_geometry (demo_poll 5 kMoveOpWriteThrough 3 3) demo_idle_server
     = (Inr (Some demo_receive), demo_server)"
proof -
  have v: "chunk_aligned_value_bytes 3 = 4288" "(8576 :: u32) mod kMaxChunkValueBytes = 0" by code_simp+
  have st: "demo_idle_server\<lparr>external_host_request := external_host_request demo_external\<rparr> = demo_server"
    unfolding demo_idle_server_def demo_server_same(15) [symmetric] by simp
  have h: "(8576 :: u64) + 4288 \<le> 1000000" by simp
  have idle: "external_policy demo_idle_server" "core_lifecycle demo_idle_server = Core_Ready"
    "\<not> xr_active (external_host_request demo_idle_server)" "\<not> external_host_io_cancelled demo_idle_server"
    "server_workload_running demo_idle_server" "external_seen demo_idle_server = 4" "max_keys demo_idle_server = 4"
    "max_key_len demo_idle_server = 128" "max_value_bytes demo_idle_server = 100000"
    "value_heap_bytes demo_idle_server = 1000000"
    by (simp_all add: demo_idle_server_def no_request_def)
      (simp_all add: demo_server_def external_state.defs core_state.defs device_runtime_state.defs server_state.defs)
  show ?thesis
    using st
    by (simp add: poll_external_host_request_def decode_external_request_def check_value_request_def demo_poll_fields
        io_defs lift_sum_def Let_def idle v h demo_geometry_def host_request_kind_def demo_receive_def
        word_less_nat_alt word_le_nat_alt)
qed

lemma demo_push: "delivers_value demo_geometry True demo_push_round demo_receive [1, 2, 3]"
  by (simp add: delivers_value_def demo_receive_def demo_push_round_def demo_geometry_def)

lemma demo_loop_run:
  "\<exists>t. manager_loop demo_geometry demo_channel [demo_round 5 kMoveOpWriteThrough 3 3] demo_idle_server
      = (Inr Loop_Polling, t)"
proof -
  have drv: "drivable demo_idle_server" "runtime_present demo_idle_server" "manager_stop demo_idle_server = False"
    using demo_server_members by (simp_all add: demo_idle_server_def drivable_def)
  have h: "holds_request demo_receive WriteThrough demo_server" using demo_holds by (simp add: holds_request_def)
  have d: "delivers_value demo_geometry (stage_noc_ok demo_server) demo_push_round demo_receive [1, 2, 3]"
    using demo_push by simp
  have p: "drivable demo_server" "xr_phase (external_host_request demo_server) = Pending"
    "rq_slot demo_receive < max_keys demo_server" "pool_mapped demo_server \<longrightarrow> meta_mapped demo_server"
    "rq_value_len demo_receive \<noteq> 0"
    by (simp_all add: demo_receive_def word_less_nat_alt)
  obtain t where t: "handle_host_request demo_geometry demo_channel demo_push_round demo_receive demo_server
      = (Inr (Replied ()), t)"
    using handle_write_through_run [OF demo_manager_ok p(1) h p(2-4) d p(5) demo_separate]
    by (auto simp: demo_push_round_def demo_wait_def)
  have "manager_turn demo_geometry demo_channel (demo_round 5 kMoveOpWriteThrough 3 3) demo_idle_server
      = (Inr (Replied ()), t)"
    using t drv poll_value_run [OF drv(1), of demo_geometry "demo_poll 5 kMoveOpWriteThrough 3 3"] demo_poll_run
    by (simp add: manager_turn_def checked_runtime_def demo_round_def io_defs)
  then show ?thesis using drv(3) by (simp add: bindE_def gets_def catchE_def ret_def demo_round_def)
qed

theorem manager_loop_refines_witness:
  "\<exists>t. manager_loop demo_geometry demo_channel [demo_round 5 kMoveOpWriteThrough 3 3] demo_idle_server
      = (Inr Loop_Polling, t) \<and> backing t 3 = Some [1, 2, 3]"
proof -
  let ?rounds = "[(demo_round 5 kMoveOpWriteThrough 3 3, [1, 2, 3 :: byte])]"
  have k: "posted_request (demo_poll 5 kMoveOpWriteThrough 3 3) WriteThrough = demo_receive"
    by (simp add: posted_request_def demo_poll_fields demo_receive_def Let_def)
  have ready: "loop_ready demo_idle_server"
    using demo_manager_ok demo_server_members
    by (simp add: loop_ready_def demo_idle_server_def manager_ok_def drivable_def no_request_def word_le_nat_alt)
  have len: "length (demo_poll 5 kMoveOpWriteThrough 3 3) = kMoveReqSemSize + kMoveReqSlotBytes"
    by (simp add: demo_poll_def semaphore_bytes_def kMoveReqSemSize_def kMoveReqSlotBytes_def)
  have rd: "\<forall>e \<in> set ?rounds. round_ok demo_geometry (stage_noc_ok demo_idle_server) e"
    using demo_push len k by (simp add: round_ok_def demo_round_def demo_idle_server_def)
  obtain out t where
    t: "manager_loop demo_geometry demo_channel (map fst ?rounds) demo_idle_server = (Inr out, t)"
    "out = Loop_Polling \<longrightarrow> backing t = loop_effect (external_seen demo_idle_server) ?rounds (backing demo_idle_server)"
    using manager_loop_refines [OF ready rd demo_separate] by blast
  have "out = Loop_Polling" using t(1) demo_loop_run by auto
  moreover have "loop_effect (external_seen demo_idle_server) ?rounds m 3 = Some [1, 2, 3]" for m
    by (simp add: round_effect_def demo_round_def demo_poll_fields demo_idle_server_def host_request_kind_def)
  ultimately show ?thesis using t by simp
qed

end
