(* ===== verification/Server_Lifecycle.thy ===== *)
theory Server_Lifecycle
  imports Manager_Loop
begin

text \<open>
  The lifecycle of a server: what its construction, its close, its quarantine and its destruction
  leave behind, for any answers of the device and while the worker goes on. The invariant \<open>server_ok\<close>
  ties the server's lifecycle state to the phase of the runtime and to the registries.
\<close>

section \<open>What the worker leaves alone\<close>

definition life_view where
  "life_view s = (core_view s, external_policy s, runtime_phase s, server_lifecycle s, runtime_present s, manager_worker s,
     registry_registered s, server_registry_key s, active_servers s)"

lemma life_view_of_phase:
  fixes m :: "('z server_state_scheme, 'a) io"
  assumes "keeps phase_view m"
  shows "keeps life_view m"
proof (rule keeps_weaken [OF assms])
  fix s t :: "'z server_state_scheme"
  assume a: "phase_view s = phase_view t"
  then have "device_runtime_state.more s = device_runtime_state.more t" by (simp add: phase_view_def)
  then have "server_lifecycle s = server_lifecycle t" "runtime_present s = runtime_present t"
    "manager_worker s = manager_worker t" "registry_registered s = registry_registered t"
    "server_registry_key s = server_registry_key t" "active_servers s = active_servers t"
    by (cases s; cases t; simp)+
  then show "life_view s = life_view t" using a by (simp add: life_view_def phase_view_def)
qed

lemma life_view_updates [simp]:
  "life_view (manager_values_update f1 s) = life_view s"
  "life_view (moves_completed_update f2 s) = life_view s"
  "life_view (move_profile_update f3 s) = life_view s"
  "life_view (manager_failed_update f4 s) = life_view s"
  "life_view (manager_failure_update f5 s) = life_view s"
  "life_view (manager_stop_update f6 s) = life_view s"
  "life_view (external_host_io_cancelled_update f7 s) = life_view s"
  by (simp_all add: life_view_def core_view_def)

lemma keeps_forE [frame_rules]: "(\<And>x. keeps f (m x)) \<Longrightarrow> keeps f (forE xs m)"
  by (induction xs) (auto intro: frame_rules)

lemmas life_io [frame_rules] = phase_io [THEN life_view_of_phase]

lemma keeps_cases [frame_rules]:
  "keeps f m1 \<Longrightarrow> keeps f m2 \<Longrightarrow> keeps f m3 \<Longrightarrow> keeps f m4 \<Longrightarrow>
     keeps f (case k of WriteThrough \<Rightarrow> m1 | RemoveBacking \<Rightarrow> m2 | PromoteToDevice \<Rightarrow> m3 | ServeGet \<Rightarrow> m4)"
  "keeps f n1 \<Longrightarrow> (\<And>x. keeps f (n2 x)) \<Longrightarrow> keeps f (case r of Blocked \<Rightarrow> n1 | Replied x \<Rightarrow> n2 x)"
  by (simp_all split: request_kind.split reply.split)

lemma life_handle [frame_rules]: "keeps life_view (destroy_handle h :: ('z server_state_scheme, unit) io)"
  unfolding destroy_handle_def by (intro frame_rules)

lemma life_values [frame_rules]:
  "keeps life_view (erase_value slot)" "keeps life_view (assign_value slot v)" "keeps life_view clear_values"
  "keeps life_view checked_runtime"
  unfolding erase_value_def assign_value_def clear_values_def checked_runtime_def by (intro frame_rules; simp)+

lemma life_turn [frame_rules]: "keeps life_view (manager_turn geo wa r)"
  unfolding manager_turn_def handle_host_request_def store_received_def finish_request_def
  by (intro frame_rules; simp)

lemma life_loop [frame_rules]: "keeps life_view (manager_loop geo wa rounds)"
proof (induction rounds)
  case (Cons r rounds)
  have "keeps life_view (record_manager_failure f)" for f
    unfolding record_manager_failure_def by (intro frame_rules; simp)
  then show ?case
    using Cons unfolding manager_loop.simps
    by (intro frame_rules)
qed (simp add: keeps_ret)

section \<open>The invariant\<close>

definition live :: "'z server_state_scheme \<Rightarrow> bool" where
  "live s = (runtime_present s \<and> runtime_ok s \<and> registry_registered s
     \<and> server_registry_key s \<in> set (active_servers s))"

text \<open>The server is over: nothing of it is left but, possibly, memory parked for the rest of the process.\<close>

definition settled :: "'z server_state_scheme \<Rightarrow> bool" where
  "settled s = (\<not> runtime_present s \<and> manager_values s = [] \<and> \<not> manager_worker s \<and> \<not> registry_registered s
     \<and> server_registry_key s \<notin> set (active_servers s) \<and> memory_safe s
     \<and> (slot_free s \<or> slot_quarantined s \<and> core_key s \<in> set (active_slots s)))"

definition server_ok :: "'z server_state_scheme \<Rightarrow> bool" where
  "server_ok s = (case server_lifecycle s of
       Server_Constructing \<Rightarrow> False
     | Server_Ready \<Rightarrow> live s \<and> runtime_phase s = Running \<and> manager_worker s
     | Server_Closing \<Rightarrow> live s
     | Server_Quarantined \<Rightarrow> settled s
     | Server_Closed \<Rightarrow> settled s)"

lemma runtime_ok_cong:
  assumes "core_view t = core_view s" and "external_policy t = external_policy s" and "runtime_phase t = runtime_phase s"
  shows "runtime_ok t = runtime_ok s"
  using core_view_ok [OF assms(1)] assms by (simp add: runtime_ok_def core_view_def)

lemma runtime_ok_updates [simp]:
  "runtime_ok (runtime_present_update f1 s) = runtime_ok s"
  "runtime_ok (manager_stop_update f2 s) = runtime_ok s"
  "runtime_ok (manager_worker_update f3 s) = runtime_ok s"
  "runtime_ok (server_lifecycle_update f4 s) = runtime_ok s"
  "runtime_ok (external_host_io_cancelled_update f5 s) = runtime_ok s"
  "runtime_ok (registry_registered_update f6 s) = runtime_ok s"
  "runtime_ok (active_servers_update f7 s) = runtime_ok s"
  by (rule runtime_ok_cong; simp add: core_view_def)+

lemma live_view:
  assumes "life_view t = life_view s"
  shows "live t = live s" "server_lifecycle t = server_lifecycle s" "runtime_phase t = runtime_phase s"
    "manager_worker t = manager_worker s" "runtime_ok t = runtime_ok s"
proof -
  show "runtime_ok t = runtime_ok s"
    using assms by (intro runtime_ok_cong) (simp_all add: life_view_def)
  then show "live t = live s" "server_lifecycle t = server_lifecycle s" "runtime_phase t = runtime_phase s"
    "manager_worker t = manager_worker s"
    using assms by (simp_all add: live_def life_view_def)
qed

text \<open>Destroying handles never throws, and resetting the runtime settles its slot.\<close>

lemma destroy_handle_returns:
  fixes s :: "'z external_state_scheme"
  shows "\<exists>t. destroy_handle h s = (Inr (), t)"
proof -
  have "\<exists>t. release_external_host_lease i s = (Inr (), t)" for i and s :: "'z external_state_scheme"
    by (auto simp: release_external_host_lease_def seqE_def bindE_def gets_def ret_def modify_def whenE_def catchE_def
        split: option.split sum.split prod.split)
  then have "\<exists>t. destroy_lease i s = (Inr (), t)" for i
    by (auto simp: destroy_lease_def seqE_def bindE_def gets_def ret_def modify_def whenE_def
        split: option.split sum.split prod.split) (metis Inl_Inr_False fst_conv)
  then show ?thesis by (auto simp: destroy_handle_def ret_def split: option.split)
qed

lemma forE_returns:
  assumes "\<And>x s. \<exists>t. f x s = (Inr (), t)"
  shows "\<exists>t. forE xs f s = (Inr (), t)"
proof (induction xs arbitrary: s)
  case (Cons x xs)
  obtain t where "f x s = (Inr (), t)" using assms by blast
  then show ?case using Cons [of t] by (simp add: seqE_def bindE_def)
qed (simp add: ret_def)

lemma clear_values_wp:
  fixes s :: "'z server_state_scheme"
  shows "wp clear_values (\<lambda>_ t. life_view t = life_view s \<and> manager_values t = []) (\<lambda>_ _. False) s"
proof -
  obtain t where t: "forE (manager_values s) (\<lambda>e. destroy_handle (mv_lease (snd e))) s = (Inr (), t)"
    using forE_returns [of "\<lambda>e. destroy_handle (mv_lease (snd e))"] destroy_handle_returns by blast
  then have run: "clear_values s = (Inr (), t\<lparr>manager_values := []\<rparr>)"
    by (simp add: clear_values_def seqE_def bindE_def gets_def modify_def)
  then have "life_view (t\<lparr>manager_values := []\<rparr>) = life_view s" using keepsD [OF life_values(3)] by metis
  then show ?thesis by (simp add: wp_def run)
qed

lemma reset_runtime_wp:
  fixes s :: "'z server_state_scheme"
  assumes "runtime_ok s"
  shows "wp (reset_runtime env env') (\<lambda>_ t. (runtime_present s \<longrightarrow> memory_safe t
      \<and> (slot_free t \<or> slot_quarantined t \<and> core_key t \<in> set (active_slots t)))
      \<and> device_runtime_state.more t = device_runtime_state.more (s\<lparr>runtime_present := False\<rparr>)) (\<lambda>_ _. False) s"
proof (cases "runtime_present s")
  case True
  have "runtime_ok (s\<lparr>runtime_present := False\<rparr>)"
    using assms by simp
  from destroy_runtime_run [OF this] obtain t where
    t: "destroy_runtime env env' (s\<lparr>runtime_present := False\<rparr>) = (Inr (), t)" "memory_safe t"
    "slot_free t \<or> slot_quarantined t \<and> core_key t \<in> set (active_slots t)" by (metis (mono_tags))
  have "device_runtime_state.more t = device_runtime_state.more (s\<lparr>runtime_present := False\<rparr>)"
    using keepsD [OF owner_runtime(4) t(1)] .
  moreover have "reset_runtime env env' s = (Inr (), t)"
    using True t(1) by (simp add: reset_runtime_def bindE_def gets_def whenE_def seqE_def modify_def)
  ultimately show ?thesis using t(2,3) by (simp add: wp_def)
next
  case False
  then have "device_runtime_state.more (s\<lparr>runtime_present := False\<rparr>) = device_runtime_state.more s"
    by (cases s) simp
  moreover have "reset_runtime env env' s = (Inr (), s)"
    using False by (simp add: reset_runtime_def bindE_def gets_def whenE_def ret_def)
  ultimately show ?thesis using False by (simp add: wp_def)
qed

text \<open>The end of a close and of a quarantine.\<close>

definition teardown :: "server_lifecycle \<Rightarrow> device_answers \<Rightarrow> device_answers \<Rightarrow> ('z server_state_scheme, unit) io" where
  "teardown l env env' = seqE stop_and_join_worker (seqE clear_values (seqE (reset_runtime env env')
     (seqE (modify (server_lifecycle_update (\<lambda>_. l))) unregister_server)))"

lemma more_members:
  fixes s t :: "'z server_state_scheme"
  assumes "device_runtime_state.more t = device_runtime_state.more s"
  shows "server_lifecycle t = server_lifecycle s" "runtime_present t = runtime_present s"
    "manager_values t = manager_values s" "manager_worker t = manager_worker s"
    "registry_registered t = registry_registered s" "server_registry_key t = server_registry_key s"
    "active_servers t = active_servers s" "manager_failed t = manager_failed s" "manager_failure t = manager_failure s"
  using assms by (cases s; cases t; simp)+

lemma slot_updates [simp]:
  "slot_free (active_servers_update f1 s) = slot_free s"
  "slot_free (registry_registered_update f2 s) = slot_free s"
  "slot_free (server_lifecycle_update f3 s) = slot_free s"
  "slot_quarantined (active_servers_update f1 s) = slot_quarantined s"
  "slot_quarantined (registry_registered_update f2 s) = slot_quarantined s"
  "slot_quarantined (server_lifecycle_update f3 s) = slot_quarantined s"
  "memory_safe (active_servers_update f1 s) = memory_safe s"
  "memory_safe (registry_registered_update f2 s) = memory_safe s"
  "memory_safe (server_lifecycle_update f3 s) = memory_safe s"
  by (simp_all add: slot_free_def slot_quarantined_def memory_safe_def)

lemma teardown_wp:
  fixes s :: "'z server_state_scheme"
  assumes "live s"
  shows "wp (teardown l env env') (\<lambda>_ t. settled t \<and> server_lifecycle t = l) (\<lambda>_ _. False) s"
proof -
  define u where "u = s\<lparr>manager_stop := True, manager_worker := False\<rparr>"
  have u: "live u" "\<not> manager_worker u"
    using assms by (simp_all add: u_def live_def)
  have rest: "wp (reset_runtime env env') (\<lambda>_. wp (seqE (modify (server_lifecycle_update (\<lambda>_. l))) unregister_server)
      (\<lambda>_ t. settled t \<and> server_lifecycle t = l) (\<lambda>_ _. False)) (\<lambda>_ _. False) v"
    if v: "life_view v = life_view u" "manager_values v = []" for v :: "'z server_state_scheme"
  proof (rule wp_mono [OF reset_runtime_wp], goal_cases)
    case 1
    show ?case using live_view(5) [OF v(1)] u(1) by (simp add: live_def)
  next
    case (2 _ t)
    have lv: "runtime_present v" "registry_registered v" "\<not> manager_worker v"
      using live_view [OF v(1)] u v(1) by (auto simp: live_def life_view_def)
    have m: "device_runtime_state.more t = device_runtime_state.more (v\<lparr>runtime_present := False\<rparr>)" using 2 by simp
    show ?case
      using 2 lv v(2) more_members [OF m]
      by (auto simp: wp_rules unregister_server_def settled_def)
  qed simp
  have "wp clear_values (\<lambda>_. wp (seqE (reset_runtime env env') (seqE (modify (server_lifecycle_update (\<lambda>_. l)))
      unregister_server)) (\<lambda>_ t. settled t \<and> server_lifecycle t = l) (\<lambda>_ _. False)) (\<lambda>_ _. False) u"
    unfolding wp_seqE [of "reset_runtime env env'"]
    by (rule wp_mono [OF clear_values_wp]) (use rest in auto)
  moreover have "manager_worker_update (\<lambda>_. False) (manager_stop_update (\<lambda>_. True) s) = u" by (simp add: u_def)
  ultimately show ?thesis by (simp add: teardown_def stop_and_join_worker_def wp_seqE wp_modify)
qed

section \<open>Every operation keeps the invariant\<close>

lemma force_quarantine_wp:
  fixes s :: "'z server_state_scheme"
  assumes "server_ok s"
  shows "wp (force_quarantine env env') (\<lambda>_ t. settled t \<and> server_lifecycle t \<in> {Server_Closed, Server_Quarantined}
    \<and> (live s \<longrightarrow> server_lifecycle t = Server_Quarantined)) (\<lambda>_ _. False) s"
proof (cases "server_lifecycle s = Server_Closed \<or> server_lifecycle s = Server_Quarantined")
  case True
  then show ?thesis using assms by (auto simp: force_quarantine_def wp_rules server_ok_def live_def settled_def)
next
  case False
  then have l: "live s" using assms by (auto simp: server_ok_def split: server_lifecycle.splits)
  define u where "u = s\<lparr>manager_stop := True, external_host_io_cancelled := True\<rparr>"
  have "live u" using l by (simp add: u_def live_def)
  from teardown_wp [OF this, of Server_Quarantined env env']
  have "wp (teardown Server_Quarantined env env') (\<lambda>_ t. settled t \<and> server_lifecycle t = Server_Quarantined) (\<lambda>_ _. False) u" .
  moreover have "external_host_io_cancelled_update (\<lambda>_. True) (manager_stop_update (\<lambda>_. True) s) = u"
    by (cases s) (simp add: u_def)
  moreover have "runtime_present s" using l by (simp add: live_def)
  ultimately show ?thesis
    using False
    by (auto simp: force_quarantine_def cancel_external_host_io_def teardown_def wp_bindE wp_gets wp_seqE wp_modify
        wp_whenE elim: wp_mono)
qed

lemma server_ok_settled: "settled t \<Longrightarrow> server_lifecycle t \<in> {Server_Closed, Server_Quarantined} \<Longrightarrow> server_ok t"
  by (auto simp: server_ok_def)

lemma drain_server_keeps: "keeps life_view (drain_server geo wa rounds env)"
  unfolding drain_server_def by (intro frame_rules)

lemma drain_before_close_wp:
  fixes s :: "'z server_state_scheme"
  assumes "server_ok s" and "live s"
  shows "wp (drain_before_close geo wa rounds env) (\<lambda>_ t. live t \<and> server_lifecycle t = Server_Closing) (\<lambda>_ t. server_ok t) s"
proof (cases "server_lifecycle s = Server_Ready")
  case True
  define u where "u = s\<lparr>server_lifecycle := Server_Closing\<rparr>"
  have u: "live u" "server_lifecycle u = Server_Closing" "runtime_phase u = Running" "manager_worker u"
    using assms True by (simp_all add: u_def live_def server_ok_def)
  have ready: "server_ok (t\<lparr>server_lifecycle := Server_Ready\<rparr>)" "server_ok t"
    if "life_view t = life_view u" for t :: "'z server_state_scheme"
    using live_view [OF that] u by (simp_all add: server_ok_def live_def)
  have "wp (catchE (drain_server geo wa rounds env)
             (\<lambda>e. bindE (gets manager_failed) (\<lambda>failed.
                seqE (whenE (\<not> failed) (modify (server_lifecycle_update (\<lambda>_. Server_Ready)))) (throw e))))
      (\<lambda>_ t. live t \<and> server_lifecycle t = Server_Closing) (\<lambda>_ t. server_ok t) u"
    unfolding wp_catchE
  proof (rule wp_keeps [OF drain_server_keeps], goal_cases)
    case (1 _ t)
    then show ?case using live_view [OF 1] u by simp
  next
    case (2 _ t)
    then show ?case using ready [OF 2] by (simp add: wp_rules)
  qed
  then show ?thesis
    using True u by (auto simp: drain_before_close_def wp_bindE wp_gets wp_whenE wp_seqE wp_modify u_def)
next
  case False
  then have "server_lifecycle s = Server_Closing"
    using assms by (auto simp: server_ok_def live_def settled_def split: server_lifecycle.splits)
  then show ?thesis using False assms by (simp add: drain_before_close_def wp_rules)
qed

lemma terminate_server_wp:
  fixes s :: "'z server_state_scheme"
  assumes "live s"
  shows "wp (terminate_runtime env) (\<lambda>_ t. live t \<and> server_lifecycle t = server_lifecycle s)
    (\<lambda>_ t. live t \<and> server_lifecycle t = server_lifecycle s) s"
proof -
  have "wp (terminate_runtime env) (\<lambda>_ t. runtime_ok t) (\<lambda>_ t. runtime_ok t) s"
    using assms by (intro wp_mono [OF terminate_runtime_ok]) (auto simp: live_def)
  moreover have "wp (terminate_runtime env) (\<lambda>_ t. device_runtime_state.more t = device_runtime_state.more s)
      (\<lambda>_ t. device_runtime_state.more t = device_runtime_state.more s) s"
    by (rule wp_keeps [OF owner_runtime(3)])
  ultimately have both: "wp (terminate_runtime env)
      (\<lambda>_ t. runtime_ok t \<and> device_runtime_state.more t = device_runtime_state.more s)
      (\<lambda>_ t. runtime_ok t \<and> device_runtime_state.more t = device_runtime_state.more s) s"
    by (rule wp_conj)
  have key: "live t \<and> server_lifecycle t = server_lifecycle s"
    if "runtime_ok t \<and> device_runtime_state.more t = device_runtime_state.more s" for t :: "'z server_state_scheme"
    using that assms more_members [of t s] by (simp add: live_def)
  show ?thesis by (rule wp_mono [OF both]) (erule key)+
qed

lemma close_server_wp:
  fixes s :: "'z server_state_scheme"
  assumes "server_ok s"
  shows "wp (close_server geo wa rounds env env')
    (\<lambda>_ t. settled t \<and> server_lifecycle t \<in> {Server_Closed, Server_Quarantined}) (\<lambda>_ t. server_ok t) s"
proof (cases "server_lifecycle s = Server_Closed \<or> server_lifecycle s = Server_Quarantined")
  case True
  then show ?thesis using assms by (auto simp: close_server_def wp_rules server_ok_def)
next
  case False
  then have l: "live s" "server_lifecycle s = Server_Ready \<or> server_lifecycle s = Server_Closing"
    using assms by (auto simp: server_ok_def split: server_lifecycle.splits)
  have quarantine: "wp (force_quarantine env env') (\<lambda>_ t. server_ok t) (\<lambda>_ _. False) u"
    if "live u" "server_lifecycle u = Server_Closing" for u :: "'z server_state_scheme"
  proof -
    have "server_ok u" using that by (simp add: server_ok_def)
    from force_quarantine_wp [OF this] show ?thesis by (rule wp_mono) (use server_ok_settled in auto)
  qed
  have finish: "wp (terminate_runtime env) (\<lambda>_. wp (seqE (modify (manager_stop_update (\<lambda>_. True)))
        (seqE cancel_external_host_io (teardown Server_Closed env env')))
        (\<lambda>_ t. settled t \<and> server_lifecycle t \<in> {Server_Closed, Server_Quarantined}) (\<lambda>_ t. server_ok t))
        (\<lambda>_ t. server_ok t) u"
    if u: "live u" "server_lifecycle u = Server_Closing" for u :: "'z server_state_scheme"
  proof (rule wp_mono [OF terminate_server_wp [OF u(1)]], goal_cases)
    case (1 _ t)
    have "live (t\<lparr>manager_stop := True, external_host_io_cancelled := True\<rparr>)" using 1 by (simp add: live_def)
    from teardown_wp [OF this, of Server_Closed env env'] show ?case
      by (auto simp: wp_seqE wp_modify cancel_external_host_io_def elim: wp_mono)
  next
    case (2 _ t)
    then show ?case using u(2) by (simp add: server_ok_def)
  qed
  have "wp (drain_before_close geo wa rounds env) (\<lambda>_ u. live u \<and> server_lifecycle u = Server_Closing) (\<lambda>_ t. server_ok t) s"
    by (rule drain_before_close_wp [OF assms l(1)])
  then have "wp (drain_before_close geo wa rounds env) (\<lambda>_. wp (bindE (gets (\<lambda>s. (manager_failed s, manager_failure s)))
      (\<lambda>(failed, failure).
       if failed then
         seqE (force_quarantine env env')
              (throw (case failure of Some e \<Rightarrow> e | None \<Rightarrow> Runtime_Error ''Server tiering worker failed''))
       else
         seqE checked_runtime
        (seqE (terminate_runtime env)
        (seqE (modify (manager_stop_update (\<lambda>_. True)))
        (seqE cancel_external_host_io
        (seqE stop_and_join_worker
        (seqE clear_values
        (seqE (reset_runtime env env')
        (seqE (modify (server_lifecycle_update (\<lambda>_. Server_Closed)))
              unregister_server)))))))))
      (\<lambda>_ t. settled t \<and> server_lifecycle t \<in> {Server_Closed, Server_Quarantined}) (\<lambda>_ t. server_ok t))
      (\<lambda>_ t. server_ok t) s"
  proof (rule wp_mono, goal_cases)
    case (1 _ u)
    then have u: "live u" "server_lifecycle u = Server_Closing" by simp_all
    then have "runtime_present u" by (simp add: live_def)
    then show ?case
      using quarantine [OF u] finish [OF u]
      by (auto simp: wp_bindE wp_gets wp_seqE wp_throw checked_runtime_def wp_check teardown_def elim: wp_mono)
  qed
  then show ?thesis
    using l(2) by (auto simp: close_server_def wp_bindE [of "gets server_lifecycle"] wp_gets wp_seqE wp_check)
qed

lemma destroy_server_wp:
  fixes s :: "'z server_state_scheme"
  assumes "server_ok s"
  shows "wp (destroy_server geo wa rounds rounds' env env')
    (\<lambda>_ t. settled t \<and> server_lifecycle t \<in> {Server_Closed, Server_Quarantined}) (\<lambda>_ _. False) s"
    (is "wp _ ?Q _ s")
proof -
  have last: "wp (force_quarantine env' env') ?Q (\<lambda>_ _. False) u" if "server_ok u" for u :: "'z server_state_scheme"
    by (rule wp_mono [OF force_quarantine_wp [OF that]]) auto
  have again: "wp (close_server geo wa rounds' env' env') ?Q (\<lambda>e. wp (force_quarantine env' env') ?Q (\<lambda>_ _. False)) u"
    if "server_ok u" for u :: "'z server_state_scheme"
    by (rule wp_mono [OF close_server_wp [OF that]]) (assumption | erule last)+
  show ?thesis
    unfolding destroy_server_def wp_catchE
    by (rule wp_mono [OF close_server_wp [OF assms]]) (assumption | erule again)+
qed

definition unstarted :: "'z server_state_scheme \<Rightarrow> bool" where
  "unstarted s = (unbuilt s \<and> server_lifecycle s = Server_Constructing \<and> \<not> runtime_present s
     \<and> \<not> registry_registered s \<and> manager_values s = [] \<and> \<not> manager_worker s \<and> \<not> manager_failed s
     \<and> distinct (active_servers s))"

lemma unbuilt_updates [simp]:
  "unbuilt (active_servers_update f1 s) = unbuilt s" "unbuilt (registry_registered_update f2 s) = unbuilt s"
  "unbuilt (profile_enabled_update f3 s) = unbuilt s" "unbuilt (poll_us_update f4 s) = unbuilt s"
  by (simp_all add: unbuilt_def)

lemma unbuilt_safe: "unbuilt s \<Longrightarrow> memory_safe s"
  by (simp add: unbuilt_def memory_safe_def)

text \<open>What a failed construction leaves: nothing of the server, and no running workload without memory.\<close>

definition unmade :: "'z server_state_scheme \<Rightarrow> 'z server_state_scheme \<Rightarrow> bool" where
  "unmade s t = (memory_safe t \<and> \<not> runtime_present t \<and> \<not> registry_registered t \<and> active_servers t = active_servers s
     \<and> server_lifecycle t = Server_Constructing)"

lemma abandon_wp:
  fixes t :: "'z server_state_scheme"
  assumes "registry_registered t" and "active_servers t = server_registry_key t # xs" and "xs = active_servers s"
    and "server_registry_key t \<notin> set xs" and "server_lifecycle t = Server_Constructing"
    and "if runtime_present t then runtime_ok t else memory_safe t"
  shows "wp (seqE unregister_server (seqE (reset_runtime env env') (throw e))) (\<lambda>_ _. False) (\<lambda>_ t. unmade s t) t"
proof -
  define u where "u = t\<lparr>active_servers := xs, registry_registered := False\<rparr>"
  have "unregister_server t = (Inr (), u)"
    using assms by (simp add: unregister_server_def bindE_def gets_def seqE_def modify_def u_def)
  moreover have "wp (reset_runtime env env') (\<lambda>_. unmade s) (\<lambda>_ _. False) u"
  proof (cases "runtime_present t")
    case True
    then have "runtime_ok u" using assms(6) by (simp add: u_def)
    from reset_runtime_wp [OF this] show ?thesis
    proof (rule wp_mono, goal_cases)
      case (1 _ v)
      then have m: "device_runtime_state.more v = device_runtime_state.more (u\<lparr>runtime_present := False\<rparr>)" by simp
      show ?case using 1 True assms(3,5) more_members [OF m] by (simp add: unmade_def u_def)
    qed simp
  next
    case False
    then show ?thesis using assms(3,5,6)
      by (simp add: reset_runtime_def wp_rules u_def unmade_def)
  qed
  moreover have "wp unregister_server Q E t = Q () u" for Q E
    using calculation(1) by (simp add: wp_def)
  ultimately show ?thesis
    unfolding wp_seqE wp_throw by (auto elim: wp_mono)
qed

lemma construct_server_wp:
  fixes s :: "'z server_state_scheme"
  assumes fresh: "unstarted s"
  shows "wp (construct_server cfg env) (\<lambda>_ t. server_ok t \<and> server_lifecycle t = Server_Ready) (\<lambda>_ t. unmade s t) s"
proof (cases "sc_submesh cfg \<and> server_registry_key s \<notin> set (active_servers s)")
  case False
  then show ?thesis
    using fresh unbuilt_safe [of s] by (auto simp: construct_server_def wp_rules unstarted_def unmade_def)
next
  case True
  define started where "started t = (registry_registered t \<and> server_registry_key t = server_registry_key s
    \<and> active_servers t = server_registry_key s # active_servers s \<and> server_lifecycle t = Server_Constructing)"
    for t :: "'z server_state_scheme"
  define u where "u = s\<lparr>active_servers := server_registry_key s # active_servers s, registry_registered := True\<rparr>"
  have u: "unbuilt u" "started u" "\<not> runtime_present u"
    using fresh by (simp_all add: u_def unstarted_def started_def)
  have started_more: "started t" if "device_runtime_state.more t = device_runtime_state.more v" "started v" for t v
    using that(2) more_members [OF that(1)] by (simp add: started_def)
  have fail: "wp (seqE unregister_server (seqE (reset_runtime env env) (throw e))) (\<lambda>_ _. False) (\<lambda>_ t. unmade s t) t"
    if "started t" "if runtime_present t then runtime_ok t else memory_safe t" for t e
    using that True by (intro abandon_wp [of t "active_servers s"]) (simp_all add: started_def)
  have launch: "wp (launch_runtime env n)
      (\<lambda>_ t. server_ok (t\<lparr>manager_worker := True, server_lifecycle := Server_Ready\<rparr>))
      (\<lambda>e t. wp (seqE unregister_server (seqE (reset_runtime env env) (throw e))) (\<lambda>_ _. False) (\<lambda>_ t. unmade s t) t) v"
    if v: "runtime_ok v" "started v" "runtime_present v" for n v
  proof (rule wp_mono [OF wp_conj [OF launch_runtime_ok [OF v(1)] wp_keeps [OF owner_runtime(2),
        where Q = "\<lambda>_ t. device_runtime_state.more t = device_runtime_state.more v"
          and E = "\<lambda>_ t. device_runtime_state.more t = device_runtime_state.more v"]]], goal_cases)
    case (3 _ t)
    then have m: "device_runtime_state.more t = device_runtime_state.more v" by simp
    show ?case using 3 v(2,3) more_members [OF m] by (simp add: server_ok_def live_def started_def)
  next
    case (4 e t)
    then have m: "device_runtime_state.more t = device_runtime_state.more v" by simp
    show ?case using 4 v(3) more_members(2) [OF m] by (intro fail started_more [OF m v(2)]) simp
  qed simp_all
  have create: "wp (create_runtime given env precondition)
      (\<lambda>_ t. runtime_ok (t\<lparr>runtime_present := True\<rparr>) \<and> started (t\<lparr>runtime_present := True\<rparr>))
      (\<lambda>e t. wp (seqE unregister_server (seqE (reset_runtime env env) (throw e))) (\<lambda>_ _. False) (\<lambda>_ t. unmade s t) t) v"
    if v: "unbuilt v" "started v" "\<not> runtime_present v" for given precondition v
  proof (rule wp_mono [OF wp_conj [OF create_runtime_ok wp_keeps [OF owner_runtime(1),
        where Q = "\<lambda>_ t. device_runtime_state.more t = device_runtime_state.more v"
          and E = "\<lambda>_ t. device_runtime_state.more t = device_runtime_state.more v"]]], goal_cases)
    case (9 _ t)
    then have m: "device_runtime_state.more t = device_runtime_state.more v" by simp
    show ?case using 9 started_more [OF m v(2)] by (simp add: started_def)
  next
    case (10 e t)
    then have m: "device_runtime_state.more t = device_runtime_state.more v" by simp
    show ?case using 10 v(3) more_members(2) [OF m] by (intro fail started_more [OF m v(2)]) simp
  qed (use v(1) in \<open>simp_all add: unbuilt_def\<close>)
  have body: "wp (seqE (create_runtime given env precondition)
            (seqE (modify (runtime_present_update (\<lambda>_. True)))
            (seqE (launch_runtime env n)
            (seqE (modify (manager_worker_update (\<lambda>_. True)))
                  (modify (server_lifecycle_update (\<lambda>_. Server_Ready)))))))
      (\<lambda>_ t. server_ok t \<and> server_lifecycle t = Server_Ready)
      (\<lambda>e t. wp (seqE unregister_server (seqE (reset_runtime env env) (throw e))) (\<lambda>_ _. False) (\<lambda>_ t. unmade s t) t) v"
    if v: "unbuilt v" "started v" "\<not> runtime_present v" for given precondition n v
    unfolding wp_seqE wp_modify
  proof (rule wp_mono [OF create [OF v]], goal_cases)
    case (1 _ t)
    then have "runtime_ok (t\<lparr>runtime_present := True\<rparr>)" "started (t\<lparr>runtime_present := True\<rparr>)" by simp_all
    from launch [OF this] show ?case by (rule wp_mono) (simp_all add: wp_seqE [abs_def])
  qed (simp add: wp_seqE [abs_def])
  have quit: "wp (seqE unregister_server (seqE (reset_runtime env env) (throw e))) (\<lambda>_ _. False) (\<lambda>_ t. unmade s t) v"
    if "unbuilt v" "started v" "\<not> runtime_present v" for v e
    using that unbuilt_safe by (intro fail) auto
  have all: "wp (start_server cfg env)
      (\<lambda>_ t. server_ok t \<and> server_lifecycle t = Server_Ready)
      (\<lambda>e t. wp (seqE unregister_server (seqE (reset_runtime env env) (throw e))) (\<lambda>_ _. False) (\<lambda>_ t. unmade s t) t) u"
  proof (cases "sc_profile cfg")
    case (Inl e)
    then show ?thesis using quit [OF u] by (simp add: start_server_def wp_bindE wp_lift_sum)
  next
    case (Inr p)
    define v where "v = u\<lparr>profile_enabled := (case p of None \<Rightarrow> False | Some b \<Rightarrow> b)\<rparr>"
    have v: "unbuilt v" "started v" "\<not> runtime_present v" using u by (simp_all add: v_def started_def)
    show ?thesis
    proof (cases "resolve_poll_us (sc_poll_us cfg)")
      case (Inl e)
      then show ?thesis using Inr quit [OF v] by (simp add: start_server_def wp_bindE wp_lift_sum wp_seqE wp_modify v_def)
    next
      case us: (Inr us)
      have "unbuilt (v\<lparr>poll_us := us\<rparr>)" "started (v\<lparr>poll_us := us\<rparr>)" "\<not> runtime_present (v\<lparr>poll_us := us\<rparr>)"
        using v by (simp_all add: started_def)
      from body [OF this] show ?thesis
        using Inr us by (simp add: start_server_def wp_bindE wp_lift_sum wp_seqE [abs_def] wp_modify v_def)
    qed
  qed
  have e: "registry_registered_update (\<lambda>_. True) (active_servers_update (\<lambda>_. server_registry_key s # active_servers s) s) = u"
    by (cases s) (simp add: u_def)
  have "wp (start_server cfg env) (\<lambda>_ t. server_ok t \<and> server_lifecycle t = Server_Ready)
      (\<lambda>f. wp (seqE unregister_server (seqE (reset_runtime env env) (throw f)))
        (\<lambda>_ t. server_ok t \<and> server_lifecycle t = Server_Ready) (\<lambda>_ t. unmade s t)) u"
    by (rule wp_mono [OF all]) (assumption | erule wp_mono, simp_all)+
  then show ?thesis
    using True e by (simp add: construct_server_def wp_bindE wp_gets wp_check wp_modify wp_catchE wp_seqE [abs_def])
qed
end
