(* ===== verification/Server_Close.thy ===== *)
theory Server_Close
  imports Server_Lifecycle
begin

text \<open>
  Closing a server: what a healthy close and a close after a failure of the worker leave, and the
  properties of the server's lifecycle.
\<close>

section \<open>A healthy close\<close>

definition lease_fields where
  "lease_fields s = (host_values s, pool_free s, pool_units_total s, external_host_leases s, leases s, next_lease s,
     pool_mem s, external_pool_units_in_use s, max_keys s, meta_mapped s)"

lemma lease_fields_view:
  assumes "lease_fields t = lease_fields s"
  shows "leases_ok x t = leases_ok x s" "leased t = leased s"
proof -
  have "lease_bytes t = lease_bytes s" using assms by (intro ext) (simp add: lease_fields_def lease_bytes_def)
  then show "leased t = leased s" using assms by (intro ext) (simp add: lease_fields_def leased_def)
  show "leases_ok x t = leases_ok x s"
    using assms
    by (simp add: lease_fields_def leases_ok_def host_ok_def pool.partitions_def pool_ok_def pool_free_set_def)
qed

lemma terminate_keeps_leases: "keeps lease_fields (terminate_runtime env)"
proof -
  have k: "keeps lease_fields (terminate_server_kernel env :: ('z device_runtime_state_scheme, unit) io)"
    "keeps lease_fields (cancel_external_host_io :: ('z device_runtime_state_scheme, unit) io)"
    "keeps lease_fields (set_runtime_phase p :: ('z device_runtime_state_scheme, unit) io)"
    "keeps lease_fields (set_lifecycle l :: ('z device_runtime_state_scheme, unit) io)" for p l
    unfolding terminate_server_kernel_def raise_if_def cancel_external_host_io_def set_runtime_phase_def set_lifecycle_def
    by (intro frame_rules; simp add: lease_fields_def)+
  show ?thesis
    unfolding terminate_runtime_def terminate_external_runtime_def by (intro frame_rules k)
qed

lemma clear_handles_run:
  fixes s :: "'z server_state_scheme"
  assumes "leases_ok {#} s" and "distinct (value_leases vs)" and "set (value_leases vs) \<subseteq> dom (leased s)"
  shows "\<exists>t. forE vs (\<lambda>e. destroy_handle (mv_lease (snd e))) s = (Inr (), t) \<and> leases_ok {#} t
    \<and> dom (leased t) = dom (leased s) - set (value_leases vs)"
  using assms
proof (induction vs arbitrary: s)
  case Nil
  then show ?case by (simp add: ret_def)
next
  case (Cons e vs)
  let ?h = "mv_lease (snd e)"
  have h: "case ?h of None \<Rightarrow> True | Some i \<Rightarrow> leased s i \<noteq> None"
    using Cons.prems(3) by (auto split: option.splits)
  obtain u where u: "destroy_handle ?h s = (Inr (), u)" "leases_ok {#} u" "leased u = drop_handle ?h (leased s)"
    using destroy_handle_run [OF Cons.prems(1) h] by blast
  have d: "dom (leased u) = dom (leased s) - set_option ?h"
    unfolding u(3) by (auto simp: drop_handle_def dom_def split: option.splits if_splits)
  have "distinct (value_leases vs)" "set (value_leases vs) \<subseteq> dom (leased u)"
    using Cons.prems(2,3) d by (auto split: option.splits)
  from Cons.IH [OF u(2) this] obtain t where
    "forE vs (\<lambda>e. destroy_handle (mv_lease (snd e))) u = (Inr (), t)" "leases_ok {#} t"
    "dom (leased t) = dom (leased u) - set (value_leases vs)" by blast
  then show ?case using u(1) d by (auto simp: seqE_def bindE_def split: option.split)
qed

lemma no_leases_left:
  assumes "leases_ok {#} s" and "dom (leased s) = {}"
  shows "external_host_leases s = []" "external_pool_units_in_use s = 0"
proof -
  show e: "external_host_leases s = []"
  proof (rule ccontr)
    assume "external_host_leases s \<noteq> []"
    then obtain i where i: "i \<in> set (external_host_leases s)" by (cases "external_host_leases s") auto
    then obtain l where "map_of (leases s) i = Some l" using assms(1) by (auto simp: leases_ok_def)
    then have "i \<in> dom (leased s)" using i by (auto simp: leased_def)
    then show False using assms(2) by simp
  qed
  show "external_pool_units_in_use s = 0" using assms(1) by (simp add: leases_ok_def e)
qed

lemma clear_values_exact:
  fixes s :: "'z server_state_scheme"
  assumes "manager_ok s"
  shows "\<exists>t. clear_values s = (Inr (), t) \<and> life_view t = life_view s \<and> manager_values t = []
    \<and> leases_ok {#} t \<and> external_host_leases t = [] \<and> external_pool_units_in_use t = 0"
proof -
  have m: "leases_ok {#} s" "distinct (value_leases (manager_values s))"
    "dom (leased s) = set (value_leases (manager_values s))"
    using assms by (simp_all add: manager_ok_def values_ok_def)
  obtain t where t: "forE (manager_values s) (\<lambda>e. destroy_handle (mv_lease (snd e))) s = (Inr (), t)" "leases_ok {#} t"
    "dom (leased t) = {}"
    using clear_handles_run [OF m(1,2)] m(3) by auto
  have run: "clear_values s = (Inr (), t\<lparr>manager_values := []\<rparr>)"
    using t(1) by (simp add: clear_values_def seqE_def bindE_def gets_def modify_def)
  have "life_view (t\<lparr>manager_values := []\<rparr>) = life_view s" using keepsD [OF life_values(3) run] .
  then show ?thesis using run t(2) no_leases_left [OF t(2,3)] by simp
qed

text \<open>Resetting a terminated runtime without leases frees its slot.\<close>

lemma retire_terminated:
  fixes s :: "'z device_runtime_state_scheme"
  assumes "runtime_ok s" and "runtime_phase s = Terminated" and "external_host_leases s = []"
    and "external_pool_units_in_use s = 0"
  shows "\<exists>t. destroy_runtime env env' s = (Inr (), t) \<and> slot_free t \<and> core_lifecycle t = Core_Closed"
proof -
  have k: "core_ok s" "\<not> kernel_running s" "core_lifecycle s = Core_Closing" "external_policy s"
    using assms by (simp_all add: runtime_ok_def phase_lifecycle_def)
  have "wp release_external_runtime_resources (\<lambda>_ t. core_ok t \<and> core_lifecycle t = Core_Closed \<and> external_policy t)
      (\<lambda>_ _. False) s"
    using k assms(3,4)
    by (auto simp: release_external_runtime_resources_def wp_rules clear_host_state_def slot_defs)
  then obtain t where t: "release_external_runtime_resources s = (Inr (), t)" "core_ok t" "core_lifecycle t = Core_Closed"
    "external_policy t"
    by (auto simp: wp_def split: prod.splits sum.splits)
  then have "destroy_runtime env env' s = (Inr (), t)"
    using assms(2)
    by (simp add: destroy_runtime_def retire_runtime_def seqE_def bindE_def gets_def catchE_def destroy_core_def ret_def)
  then show ?thesis using t by (auto simp: core_ok_def)
qed

lemma destroy_running:
  fixes s :: "'z device_runtime_state_scheme"
  assumes "runtime_ok s" and "runtime_phase s = Running \<or> runtime_phase s = Runtime_Closing"
  shows "\<exists>t. destroy_runtime env env' s = (Inr (), t) \<and> slot_quarantined t \<and> core_key t = core_key s
    \<and> core_key t \<in> set (active_slots t) \<and> core_lifecycle t = Core_Quarantined"
proof -
  have k: "core_ok s" "external_policy s" "core_lifecycle s \<noteq> Core_Closed"
    using assms by (auto simp: runtime_ok_def phase_lifecycle_def)
  have "wp quarantine_external_runtime (\<lambda>_ t. core_key t = core_key s \<and> external_policy t) (\<lambda>_ _. True) s"
    using k(2) by (auto simp: quarantine_external_runtime_def wp_rules quarantined_def)
  from wp_conj [OF quarantine_external_ok [OF k] this] obtain t where
    t: "quarantine_external_runtime s = (Inr (), t)" "core_ok t" "core_lifecycle t = Core_Quarantined"
    "core_key t = core_key s" "external_policy t"
    by (auto simp: wp_def split: prod.splits sum.splits)
  let ?t = "t\<lparr>runtime_phase := Runtime_Quarantined\<rparr>"
  have "destroy_runtime env env' s = (Inr (), ?t)"
    using assms(2) t(1,3,5)
    by (auto simp: destroy_runtime_def retire_runtime_def seqE_def bindE_def gets_def catchE_def destroy_core_def ret_def
        set_runtime_phase_def modify_def)
  moreover have "slot_quarantined ?t" "core_key ?t \<in> set (active_slots ?t)"
    using t(2,3) by (auto simp: core_ok_def slot_quarantined_def)
  ultimately show ?thesis using t(3,4) by auto
qed

definition healthy :: "device_answers \<Rightarrow> bool" where
  "healthy env = (da_signal env = None \<and> da_finish env = None \<and> da_after_finish env = None \<and> da_drain env = None)"

lemma terminate_healthy:
  fixes s :: "'z server_state_scheme"
  assumes "live s" and "runtime_phase s = Running" and "healthy env"
  shows "\<exists>t. terminate_runtime env s = (Inr (), t) \<and> runtime_ok t \<and> runtime_phase t = Terminated
    \<and> lease_fields t = lease_fields s \<and> device_runtime_state.more t = device_runtime_state.more s"
proof -
  have r: "runtime_ok s" using assms(1) by (simp add: live_def)
  have "wp (terminate_runtime env) (\<lambda>_ _. True) (\<lambda>_ _. False) s"
    using r assms(2,3)
    by (auto simp: terminate_runtime_def terminate_external_runtime_def terminate_server_kernel_def wp_rules healthy_def
        cancel_external_host_io_def runtime_ok_def phase_lifecycle_def)
  then obtain t where t: "terminate_runtime env s = (Inr (), t)"
    by (auto simp: wp_def split: prod.splits sum.splits)
  have ok: "runtime_ok t \<and> (runtime_phase t = Terminated \<or> runtime_phase t = Runtime_Quarantined)"
    using wp_returnD [OF terminate_runtime_ok [OF r] t] .
  have "wp (terminate_runtime env) (\<lambda>_ t. runtime_phase t = Terminated) (\<lambda>_ _. True) s"
    using r assms(2,3)
    by (auto simp: terminate_runtime_def terminate_external_runtime_def terminate_server_kernel_def wp_rules healthy_def
        cancel_external_host_io_def runtime_ok_def phase_lifecycle_def)
  then have "runtime_phase t = Terminated" using t by (rule wp_returnD)
  then show ?thesis using ok t keepsD [OF terminate_keeps_leases t] keepsD [OF owner_runtime(3) t] by blast
qed

lemma close_healthy_run:
  fixes s :: "'z server_state_scheme"
  assumes ok: "server_ok s" and l: "server_lifecycle s = Server_Ready" and nf: "\<not> manager_failed s"
    and loop: "manager_loop geo wa rounds (s\<lparr>server_lifecycle := Server_Closing\<rparr>) = (Inr out, u)"
    and u: "manager_ok u" "\<not> manager_failed u" and env: "healthy env"
  shows "\<exists>t. close_server geo wa rounds env env' s = (Inr (), t) \<and> server_lifecycle t = Server_Closed \<and> settled t
    \<and> slot_free t"
proof -
  have lu: "live u" "runtime_phase u = Running" "server_lifecycle u = Server_Closing"
    using keepsD [OF life_loop loop] live_view [of u "s\<lparr>server_lifecycle := Server_Closing\<rparr>"] ok l
    by (simp_all add: server_ok_def live_def)
  have drain: "drain_before_close geo wa rounds env s = (Inr (), u)"
    using l nf loop lu env
    by (simp add: drain_before_close_def drain_server_def drain_inflight_puts_checked_def check_phase_def checked_runtime_def
        seqE_def bindE_def gets_def whenE_def modify_def catchE_def check_def ret_def raise_if_def live_def healthy_def)
  obtain v where v: "terminate_runtime env u = (Inr (), v)" "runtime_ok v" "runtime_phase v = Terminated"
    "lease_fields v = lease_fields u" "device_runtime_state.more v = device_runtime_state.more u"
    using terminate_healthy [OF lu(1,2) env] by blast
  define w where "w = v\<lparr>manager_stop := True, external_host_io_cancelled := True, manager_worker := False\<rparr>"
  have mw: "manager_ok w"
    using u(1) lease_fields_view [of w u] v(4) more_members(3) [OF v(5)]
    by (simp add: manager_ok_def w_def lease_fields_def)
  have rw: "runtime_ok w" "runtime_phase w = Terminated" using v by (simp_all add: w_def)
  have lw: "runtime_present w" "registry_registered w" "\<not> manager_worker w"
    using lu(1) more_members [OF v(5)] by (simp_all add: w_def live_def)
  obtain x where x: "clear_values w = (Inr (), x)" "life_view x = life_view w" "manager_values x = []"
    "external_host_leases x = []" "external_pool_units_in_use x = 0"
    using clear_values_exact [OF mw] by blast
  have lx: "runtime_present x" "registry_registered x" "\<not> manager_worker x"
    using lw x(2) by (simp_all add: life_view_def)
  have rx: "runtime_ok (x\<lparr>runtime_present := False\<rparr>)" "runtime_phase (x\<lparr>runtime_present := False\<rparr>) = Terminated"
    "external_host_leases (x\<lparr>runtime_present := False\<rparr>) = []"
    "external_pool_units_in_use (x\<lparr>runtime_present := False\<rparr>) = 0"
    using live_view(3,5) [OF x(2)] rw x(4,5) by simp_all
  obtain y where y: "destroy_runtime env env' (x\<lparr>runtime_present := False\<rparr>) = (Inr (), y)" "slot_free y"
    using retire_terminated [OF rx] by blast
  have my: "device_runtime_state.more y = device_runtime_state.more (x\<lparr>runtime_present := False\<rparr>)"
    using keepsD [OF owner_runtime(4) y(1)] .
  have ms: "memory_safe y" using y(2) by (simp add: slot_free_def memory_safe_def)
  define t where "t = y\<lparr>server_lifecycle := Server_Closed,
      active_servers := removeAll (server_registry_key y) (active_servers y), registry_registered := False\<rparr>"
  have wup: "manager_worker_update (\<lambda>_. False) (manager_stop_update (\<lambda>_. True)
      (external_host_io_cancelled_update (\<lambda>_. True) (manager_stop_update (\<lambda>_. True) v))) = w"
    by (cases v) (simp add: w_def)
  have tup: "registry_registered_update (\<lambda>_. False) (active_servers_update (\<lambda>_. removeAll (server_registry_key y) (active_servers y))
      (server_lifecycle_update (\<lambda>_. Server_Closed) y)) = t"
    by (cases y) (simp add: t_def)
  have "close_server geo wa rounds env env' s = (Inr (), t)"
    using l drain u(2) v(1) lu(1) x(1) lx y(1) more_members [OF my] wup tup
    by (simp add: close_server_def seqE_def bindE_def gets_def check_def ret_def checked_runtime_def live_def modify_def
        cancel_external_host_io_def stop_and_join_worker_def reset_runtime_def whenE_def unregister_server_def)
  moreover have "settled t" "slot_free t" "server_lifecycle t = Server_Closed"
    using y(2) ms lx x(3) more_members [OF my] by (simp_all add: t_def settled_def)
  ultimately show ?thesis by blast
qed

section \<open>A close after the worker has failed\<close>

lemma close_failed_run:
  fixes s :: "'z server_state_scheme"
  assumes ok: "server_ok s" and l: "live s" and f: "manager_failed s" "manager_failure s = Some e"
    and ph: "runtime_phase s = Running \<or> runtime_phase s = Runtime_Closing"
  shows "\<exists>t. close_server geo wa rounds env env' s = (Inl e, t) \<and> server_lifecycle t = Server_Quarantined \<and> settled t
    \<and> slot_quarantined t \<and> core_key t \<in> set (active_slots t) \<and> core_key t = core_key s
    \<and> close_server geo wa rounds' env env' t = (Inr (), t)"
proof -
  have ls: "server_lifecycle s = Server_Ready \<or> server_lifecycle s = Server_Closing"
    using ok l by (auto simp: server_ok_def live_def settled_def split: server_lifecycle.splits)
  define s1 where "s1 = s\<lparr>server_lifecycle := Server_Closing\<rparr>"
  have id: "server_lifecycle s = Server_Closing \<Longrightarrow> s = s1" by (simp add: s1_def)
  have drain: "drain_before_close geo wa rounds env s = (Inr (), s1)"
    using ls f(1) id
    by (auto simp: drain_before_close_def seqE_def bindE_def gets_def whenE_def modify_def ret_def s1_def)
  define w where "w = s1\<lparr>manager_stop := True, external_host_io_cancelled := True, manager_worker := False\<rparr>"
  obtain x where x: "clear_values w = (Inr (), x)" "life_view x = life_view w" "manager_values x = []"
    using clear_values_wp [of w] by (auto simp: wp_def split: prod.splits sum.splits)
  have lx: "runtime_present x" "registry_registered x" "\<not> manager_worker x" "core_key x = core_key s"
    using x(2) l by (simp_all add: life_view_def w_def s1_def live_def core_view_def)
  have rx: "runtime_ok (x\<lparr>runtime_present := False\<rparr>)" "runtime_phase (x\<lparr>runtime_present := False\<rparr>) = Running
      \<or> runtime_phase (x\<lparr>runtime_present := False\<rparr>) = Runtime_Closing"
    using live_view(3,5) [OF x(2)] l ph by (simp_all add: w_def s1_def live_def)
  obtain y where y: "destroy_runtime env env' (x\<lparr>runtime_present := False\<rparr>) = (Inr (), y)" "slot_quarantined y"
    "core_key y = core_key s" "core_key y \<in> set (active_slots y)"
    using destroy_running [OF rx, of env env'] lx(4) by auto
  have my: "device_runtime_state.more y = device_runtime_state.more (x\<lparr>runtime_present := False\<rparr>)"
    using keepsD [OF owner_runtime(4) y(1)] .
  define t where "t = y\<lparr>server_lifecycle := Server_Quarantined,
      active_servers := removeAll (server_registry_key y) (active_servers y), registry_registered := False\<rparr>"
  have wup: "manager_worker_update (\<lambda>_. False) (manager_stop_update (\<lambda>_. True)
      (external_host_io_cancelled_update (\<lambda>_. True) (manager_stop_update (\<lambda>_. True) s1))) = w"
    by (cases s1) (simp add: w_def)
  have tup: "registry_registered_update (\<lambda>_. False) (active_servers_update (\<lambda>_. removeAll (server_registry_key y) (active_servers y))
      (server_lifecycle_update (\<lambda>_. Server_Quarantined) y)) = t"
    by (cases y) (simp add: t_def)
  have s1: "server_lifecycle s1 = Server_Closing" "manager_failed s1" "manager_failure s1 = Some e" "runtime_present s1"
    using f l by (simp_all add: s1_def live_def)
  have "force_quarantine env env' s1 = (Inr (), t)"
    using s1 x(1) lx y(1) more_members [OF my] wup tup
    by (simp add: force_quarantine_def seqE_def bindE_def gets_def ret_def modify_def
        cancel_external_host_io_def stop_and_join_worker_def reset_runtime_def whenE_def unregister_server_def)
  then have run: "close_server geo wa rounds env env' s = (Inl e, t)"
    using ls drain s1
    by (auto simp: close_server_def seqE_def bindE_def gets_def check_def ret_def throw_def)
  have ms: "memory_safe y" using y(2,4) by (simp add: slot_quarantined_def memory_safe_def)
  have st: "settled t" "slot_quarantined t" "server_lifecycle t = Server_Quarantined"
    using y(2,4) ms lx x(3) more_members [OF my] by (auto simp: t_def settled_def)
  then have "close_server geo wa rounds' env env' t = (Inr (), t)"
    by (simp add: close_server_def bindE_def gets_def ret_def)
  then show ?thesis using run st y(3,4) by (auto simp: t_def)
qed

section \<open>Reachable states\<close>

text \<open>
  The calls on a server after its construction, until its destruction: rounds of its worker while
  it has one, and closes.
\<close>

inductive server_step ::
  "geometry \<Rightarrow> worker_addresses \<Rightarrow> 'z server_state_scheme \<Rightarrow> 'z server_state_scheme \<Rightarrow> bool" for geo wa where
  step_worker: "manager_worker s \<Longrightarrow> manager_loop geo wa rounds s = (r, t) \<Longrightarrow> server_step geo wa s t"
| step_close: "close_server geo wa rounds env env' s = (r', t) \<Longrightarrow> server_step geo wa s t"

inductive server_reach ::
  "geometry \<Rightarrow> worker_addresses \<Rightarrow> 'z server_state_scheme \<Rightarrow> 'z server_state_scheme \<Rightarrow> bool" for geo wa s0 where
  server_start: "server_reach geo wa s0 s0"
| server_more: "server_reach geo wa s0 s \<Longrightarrow> server_step geo wa s t \<Longrightarrow> server_reach geo wa s0 t"

lemma server_ok_safe: "server_ok s \<Longrightarrow> memory_safe s"
  using core_ok_memory_safe [of s]
  by (auto simp: server_ok_def live_def runtime_ok_def settled_def split: server_lifecycle.splits)

lemma server_step_ok:
  assumes "server_step geo wa s t" and "server_ok s"
  shows "server_ok t"
  using assms(1)
proof cases
  case (step_worker rounds r)
  then have v: "life_view t = life_view s" using keepsD [OF life_loop] by blast
  have "live s" using assms(2) step_worker(1) by (auto simp: server_ok_def settled_def split: server_lifecycle.splits)
  then show ?thesis
    using live_view [OF v] assms(2) by (auto simp: server_ok_def live_def settled_def split: server_lifecycle.splits)
next
  case (step_close rounds env env' r)
  have "wp (close_server geo wa rounds env env') (\<lambda>_. server_ok) (\<lambda>_. server_ok) s"
    by (rule wp_mono [OF close_server_wp [OF assms(2)]]) (use server_ok_settled in auto)
  then show ?thesis using step_close by (rule wp_both)
qed

lemma server_reach_ok: "server_reach geo wa s t \<Longrightarrow> server_ok s \<Longrightarrow> server_ok t"
  by (induction rule: server_reach.induct) (auto intro: server_step_ok)

section \<open>Properties\<close>

definition demo_unstarted :: server_state where
  "demo_unstarted = device_runtime_state.extend demo_unbuilt
     (server_state.fields Server_Constructing False [] False False False None False (0, 1) [(0, 0)] False 10 0 no_moves)"

definition demo_config :: server_config where
  "demo_config = \<lparr>sc_submesh = True, sc_profile = Inr None, sc_poll_us = Inr None, sc_precondition = None, sc_counter = 9\<rparr>"

lemma demo_unstarted_ok: "unstarted demo_unstarted"
  using demo_unbuilt_ok
  by (simp add: unstarted_def unbuilt_def demo_unstarted_def demo_unbuilt_def server_state.defs device_runtime_state.defs
      core_state.defs external_state.defs)

lemma demo_constructed:
  "\<exists>t. construct_server demo_config demo_answers demo_unstarted = (Inr (), t) \<and> server_ok t
    \<and> server_lifecycle t = Server_Ready"
proof -
  have "wp (construct_server demo_config demo_answers) (\<lambda>_ _. True) (\<lambda>_ _. False) demo_unstarted"
    by (simp add: construct_server_def start_server_def create_runtime_def construct_core_def launch_runtime_def
        launch_external_runtime_def wp_rules Let_def demo_unstarted_def demo_unbuilt_def demo_answers_def demo_config_def
        server_state.defs device_runtime_state.defs core_state.defs external_state.defs resolve_poll_us_def)
  then obtain t where t: "construct_server demo_config demo_answers demo_unstarted = (Inr (), t)"
    by (auto simp: wp_def split: prod.splits sum.splits)
  then show ?thesis using wp_returnD [OF construct_server_wp [OF demo_unstarted_ok] t] by blast
qed



text \<open>
  C19: destroying a server always ends. The destructor never throws, whatever state a constructed server is
  in and however often the device fails: afterwards the server is closed or quarantined, it owns no
  values, no worker and no runtime, its registry entry is gone, and its device slot is either free
  or parked, with its memory, for the rest of the process.
\<close>

theorem destroy_server_settles:
  fixes s :: "'z server_state_scheme"
  assumes "server_ok s"
  shows "\<exists>t. destroy_server geo wa rounds rounds' env env' s = (Inr (), t) \<and> settled t
    \<and> (server_lifecycle t = Server_Closed \<or> server_lifecycle t = Server_Quarantined)"
  using destroy_server_wp [OF assms, of geo wa rounds rounds' env env']
  by (auto simp: wp_def split: prod.splits sum.splits)

theorem destroy_server_settles_witness:
  "\<exists>s t. construct_server demo_config demo_answers demo_unstarted = (Inr (), s)
    \<and> destroy_server demo_geometry demo_channel [] [] demo_answers demo_answers s = (Inr (), t) \<and> settled t"
proof -
  obtain s where s: "construct_server demo_config demo_answers demo_unstarted = (Inr (), s)" "server_ok s"
    using demo_constructed by blast
  show ?thesis
    using destroy_server_settles [OF s(2), of demo_geometry demo_channel "[]" "[]" demo_answers demo_answers] s(1) by blast
qed

text \<open>
  C22: a healthy close gives everything back. If the worker has not failed, its rounds during the drain leave
  the stored values consistent, and the device drains, finishes and releases without error, then
  close returns, the server is closed with no values and no registry entry, and its slot is free
  for a new server.
\<close>

theorem close_server_healthy:
  fixes s :: "'z server_state_scheme"
  assumes "server_ok s" and "server_lifecycle s = Server_Ready" and "\<not> manager_failed s"
    and "manager_loop geo wa rounds (s\<lparr>server_lifecycle := Server_Closing\<rparr>) = (Inr out, u)"
    and "manager_ok u" and "\<not> manager_failed u" and "healthy env"
  shows "\<exists>t. close_server geo wa rounds env env' s = (Inr (), t) \<and> server_lifecycle t = Server_Closed \<and> settled t
    \<and> slot_free t"
  by (rule close_healthy_run [OF assms])

lemma demo_server_core:
  "core_lifecycle demo_server = Core_Ready" "active_slots demo_server = [(0, 1)]" "failed_teardown demo_server = []"
  "core_key demo_server = (0, 1)" "emergency_holder demo_server" "resources_held demo_server" "workload_held demo_server"
  "launch_may_have_started demo_server" "kernel_running demo_server" "runtime_phase demo_server = Running"
  "server_lifecycle demo_server = Server_Ready" "runtime_present demo_server" "manager_worker demo_server"
  "registry_registered demo_server" "server_registry_key demo_server = (0, 1)" "active_servers demo_server = [(0, 1)]"
  "manager_failed demo_server = False"
  by (simp_all add: demo_server_def server_state.defs device_runtime_state.defs core_state.defs external_state.defs)

lemma demo_server_ok: "server_ok demo_server"
  by (simp add: server_ok_def live_def runtime_ok_def core_ok_def slot_held_def phase_lifecycle_def demo_server_core)

theorem close_server_healthy_witness:
  "\<exists>t. close_server demo_geometry demo_channel [] demo_answers demo_answers demo_server = (Inr (), t)
    \<and> server_lifecycle t = Server_Closed \<and> slot_free t"
proof -
  have m: "manager_ok (demo_server\<lparr>server_lifecycle := Server_Closing\<rparr>)"
    using demo_manager_ok lease_fields_view [of "demo_server\<lparr>server_lifecycle := Server_Closing\<rparr>" demo_server]
    by (simp add: manager_ok_def lease_fields_def)
  have p: "\<not> manager_failed demo_server" "\<not> manager_failed (demo_server\<lparr>server_lifecycle := Server_Closing\<rparr>)"
    "healthy demo_answers"
    by (simp_all add: demo_server_core healthy_def demo_answers_def)
  have l: "manager_loop demo_geometry demo_channel [] (demo_server\<lparr>server_lifecycle := Server_Closing\<rparr>)
      = (Inr Loop_Polling, demo_server\<lparr>server_lifecycle := Server_Closing\<rparr>)" by (simp add: ret_def)
  show ?thesis
    using close_server_healthy [OF demo_server_ok demo_server_core(11) p(1) l m p(2,3), of demo_answers] by blast
qed

text \<open>
  C23: a failed worker quarantines the server. When the worker of a running server has recorded a failure, a
  close throws exactly that failure; the server is quarantined without values, worker or registry
  entry, while its device slot, whose workload could not be ended, keeps its memory and stays
  taken. Closing again returns and changes nothing.
\<close>

theorem close_server_failed:
  fixes s :: "'z server_state_scheme"
  assumes "server_ok s" and "live s" and "manager_failed s" and "manager_failure s = Some e"
    and "runtime_phase s = Running \<or> runtime_phase s = Runtime_Closing"
  shows "\<exists>t. close_server geo wa rounds env env' s = (Inl e, t) \<and> server_lifecycle t = Server_Quarantined \<and> settled t
    \<and> slot_quarantined t \<and> core_key t \<in> set (active_slots t) \<and> core_key t = core_key s
    \<and> close_server geo wa rounds' env env' t = (Inr (), t)"
  by (rule close_failed_run [OF assms])

theorem close_server_failed_witness:
  "\<exists>t. close_server demo_geometry demo_channel [] demo_answers demo_answers
      (demo_server\<lparr>manager_failed := True, manager_failure := Some (Thrown ''lost'')\<rparr>) = (Inl (Thrown ''lost''), t)
    \<and> slot_quarantined t \<and> core_key t = (0, 1)"
proof -
  let ?s = "demo_server\<lparr>manager_failed := True, manager_failure := Some (Thrown ''lost'')\<rparr>"
  have "server_ok ?s" "live ?s" "manager_failed ?s" "manager_failure ?s = Some (Thrown ''lost'')"
    "runtime_phase ?s = Running \<or> runtime_phase ?s = Runtime_Closing"
    by (simp_all add: server_ok_def live_def runtime_ok_def core_ok_def slot_held_def phase_lifecycle_def demo_server_core)
  from close_server_failed [OF this, of demo_geometry demo_channel "[]" demo_answers demo_answers "[]"]
  show ?thesis by (auto simp: demo_server_core)
qed

text \<open>
  the poll interval is always usable: the default, or the configured value capped at one second, never
  zero; an interval of zero or a parse failure is an error.
\<close>

theorem resolve_poll_us_bounds:
  "case resolve_poll_us parsed of
     Inr us \<Rightarrow> 0 < us \<and> us \<le> 1000000
       \<and> (case parsed of Inl e \<Rightarrow> False | Inr None \<Rightarrow> us = 10 | Inr (Some n) \<Rightarrow> unat us = min (unat n) 1000000)
   | Inl e \<Rightarrow> parsed = Inl e \<or> parsed = Inr (Some 0)"
proof (cases parsed)
  case (Inr p)
  show ?thesis
  proof (cases p)
    case (Some n)
    have m: "unat (min n 1000000) = min (unat n) 1000000" by (simp add: min_def word_le_nat_alt)
    have u: "unat (ucast (min n 1000000) :: u32) = min (unat n) 1000000"
      by (simp add: unsigned_ucast_eq m) (rule take_bit_nat_eq_self, simp add: min_def)
    show ?thesis
    proof (cases "n = 0")
      case False
      then have "0 < unat n" by (simp add: unat_gt_0)
      then show ?thesis using Inr Some False u
        by (simp add: resolve_poll_us_def word_less_nat_alt word_le_nat_alt)
    qed (simp add: Inr Some resolve_poll_us_def)
  qed (simp add: Inr resolve_poll_us_def)
qed (simp add: resolve_poll_us_def)

end
