(* ===== verification/Server_Config.thy ===== *)
theory Server_Config
  imports Protocol
begin

text \<open>
  The configuration of a server runtime: the environment parsers of \<^verbatim>\<open>server_runtime/server.cpp\<close>, the
  checks of its constructor before anything is registered, and the limits it derives from the wire
  configuration. What \<^verbatim>\<open>read_u64_env\<close> returns or throws is an argument; what the device library
  answers is a record of booleans and numbers.
\<close>

section \<open>Environment parsers\<close>

type_synonym env_u64 = "fault + u64 option"

definition env_or :: "env_u64 \<Rightarrow> u64 \<Rightarrow> fault + u64" where
  "env_or env dflt = map_sum id (\<lambda>p. case p of None \<Rightarrow> dflt | Some n \<Rightarrow> n) env"

definition configured_server_worker_groups :: "env_u64 \<Rightarrow> fault + u32" where
  "configured_server_worker_groups env =
     (case env_or env 1 of
        Inl e \<Rightarrow> Inl e
      | Inr parsed \<Rightarrow>
          if 1 \<le> parsed \<and> parsed \<le> 8 then Inr (ucast parsed)
          else Inl (Fatal ''T3KNIC_SERVER_SHARDS must be in [1, 8]''))"

definition kMaxKeysDefault :: u32 where "kMaxKeysDefault = 1024"
definition kMaxKeysHardCap :: u32 where "kMaxKeysHardCap = 65536"
definition kValueHeapBytesDefault :: u32 where "kValueHeapBytesDefault = 1434541824"

definition parse_max_keys :: "env_u64 \<Rightarrow> fault + u32" where
  "parse_max_keys env =
     (case env of
        Inl e \<Rightarrow> Inl e
      | Inr None \<Rightarrow> Inr kMaxKeysDefault
      | Inr (Some parsed) \<Rightarrow>
          if \<not> 0 < parsed then Inl (Fatal ''KVM_SERVER_DRAM_MAX_KEYS must be positive'')
          else if ucast kMaxKeysHardCap < parsed then Inr kMaxKeysHardCap
          else Inr (ucast parsed))"

text \<open>The result is \<open>None\<close> where the power-of-two loop of the protocol does not end.\<close>

definition parse_value_heap_bytes :: "env_u64 \<Rightarrow> u32 \<Rightarrow> (fault + u32) option" where
  "parse_value_heap_bytes env max_value_bytes =
     (case env_or env (ucast kValueHeapBytesDefault) of
        Inl e \<Rightarrow> Some (Inl e)
      | Inr bytes \<Rightarrow>
          if \<not> 0 < bytes then Some (Inl (Fatal ''KVM_SERVER_DRAM_VALUE_HEAP_BYTES must be positive''))
          else
            (let narrowed = (ucast (if ucast kMaxChunkAlignedValueBytes < bytes
                                    then ucast kMaxChunkAlignedValueBytes else bytes) :: u32)
             in map_option Inr (normalize_value_heap_bytes narrowed max_value_bytes)))"

definition parse_poll_us :: "env_u64 \<Rightarrow> fault + u32" where
  "parse_poll_us env =
     (case env of
        Inl e \<Rightarrow> Inl e
      | Inr None \<Rightarrow> Inr 10
      | Inr (Some parsed) \<Rightarrow>
          if \<not> 0 < parsed then Inl (Fatal ''KVM_SERVER_HOST_POLL_US must be positive'')
          else if 1000000 < parsed then Inr 1000000
          else Inr (ucast parsed))"

section \<open>The checks of the constructor\<close>

record core_environment =
  ce_submesh :: bool
  ce_default_context :: bool
  ce_fast_dispatch :: bool
  ce_unit_shape :: bool
  ce_static :: bool
  ce_worker_group :: u32
  ce_shards :: env_u64
  ce_grid_x :: u32
  ce_grid_y :: u32
  ce_parent_mesh :: bool
  ce_worker_noc :: "fault option"
  ce_fabric_config :: "fault option"
  ce_2d_fabric :: bool
  ce_remote_mesh_id :: u32
  ce_server_node :: nat
  ce_endpoint_node :: nat

text \<open>The first check that fails, in the order of the source.\<close>

fun first_fault :: "(bool \<times> fault) list \<Rightarrow> fault option" where
  "first_fault [] = None"
| "first_fault ((ok, e) # cs) = (if ok then first_fault cs else Some e)"

definition check_core_config :: "core_environment \<Rightarrow> fault option" where
  "check_core_config ce =
     (case first_fault
        [(ce_submesh ce, Fatal ''server_submesh must be non-null''),
         (ce_default_context ce, Fatal ''kvcache_manager ServerRuntimeCore currently supports only the default MetalContext''),
         (ce_fast_dispatch ce, Fatal ''kvcache_manager ServerRuntimeCore requires fast dispatch''),
         (ce_unit_shape ce, Fatal ''server_submesh must have shape (1,1)''),
         (ce_static ce \<or> ce_worker_group ce = 0,
            Fatal ''non-static kvcache_manager Server supports only worker group 0'')] of
      Some e \<Rightarrow> Some e
    | None \<Rightarrow>
       case configured_server_worker_groups (ce_shards ce) of
         Inl e \<Rightarrow> Some e
       | Inr groups \<Rightarrow>
           case first_fault
             [(ce_worker_group ce < groups, Fatal ''KVM worker group is outside the configured shards''),
              (ce_worker_group ce < ce_grid_x ce \<and> 3 \<le> ce_grid_y ce,
                 Fatal ''KVM worker group requires logical cores outside worker grid''),
              (ce_parent_mesh ce, Fatal ''server_submesh must be a real submesh'')] of
             Some e \<Rightarrow> Some e
           | None \<Rightarrow>
               case ce_worker_noc ce of
                 Some e \<Rightarrow> Some e
               | None \<Rightarrow>
                   case ce_fabric_config ce of
                     Some e \<Rightarrow> Some e
                   | None \<Rightarrow>
                       if \<not> ce_static ce then None
                       else first_fault
                         [(ce_2d_fabric ce, Fatal ''a static inter-mesh T3K ServerRuntimeCore requires FABRIC_2D''),
                          (ce_remote_mesh_id ce \<le> 0xFFFF,
                             Fatal ''static_intermesh_remote_mesh_id exceeds the 16-bit route encoding''),
                          (ce_server_node ce = ce_endpoint_node ce,
                             Fatal ''static inter-mesh ServerRuntimeCore must run on the configured T3K endpoint'')])"

section \<open>The derived limits\<close>

definition kDirEntryHeaderBytes :: u32 where "kDirEntryHeaderBytes = 32"

definition dir_entry_bytes :: "u32 \<Rightarrow> u32" where
  "dir_entry_bytes max_key_len = and ((kDirEntryHeaderBytes + max_key_len) + 31) (not 31)"

definition max_get_chunks_for :: "u32 \<Rightarrow> u32" where
  "max_get_chunks_for cap = chunk_count_for cap"

definition kMaxBuddyValueBytes :: u32 where "kMaxBuddyValueBytes = 524288 * kMaxChunkValueBytes"

record wire_config =
  wc_server_ring_slots :: u32
  wc_client_value_ring_depth :: u32
  wc_max_value_bytes :: u32
  wc_max_key_bytes :: u32

record server_limits =
  sl_max_value_bytes :: u32
  sl_max_get_chunks :: u32
  sl_max_keys :: u32
  sl_value_heap_bytes :: u32
  sl_num_units :: u32
  sl_ring_slots :: u32
  sl_value_ring_depth :: u32
  sl_max_key_len :: u32
  sl_dir_entry_bytes :: u32
  sl_num_buckets :: u32
  sl_poll_us :: u32

definition derive_limits :: "wire_config \<Rightarrow> env_u64 \<Rightarrow> env_u64 \<Rightarrow> env_u64 \<Rightarrow> (fault + server_limits) option" where
  "derive_limits wire keys_env heap_env poll_env =
     (case parse_max_keys keys_env of
        Inl e \<Rightarrow> Some (Inl e)
      | Inr max_keys \<Rightarrow>
          case parse_value_heap_bytes heap_env (wc_max_value_bytes wire) of
            None \<Rightarrow> None
          | Some (Inl e) \<Rightarrow> Some (Inl e)
          | Some (Inr heap_bytes) \<Rightarrow>
              case hash_num_buckets max_keys of
                None \<Rightarrow> None
              | Some buckets \<Rightarrow>
                  case parse_poll_us poll_env of
                    Inl e \<Rightarrow> Some (Inl e)
                  | Inr poll \<Rightarrow> Some (Inr
                      \<lparr>sl_max_value_bytes = wc_max_value_bytes wire,
                       sl_max_get_chunks = max_get_chunks_for (wc_max_value_bytes wire),
                       sl_max_keys = max_keys, sl_value_heap_bytes = heap_bytes,
                       sl_num_units = heap_bytes div kMaxChunkValueBytes,
                       sl_ring_slots = wc_server_ring_slots wire,
                       sl_value_ring_depth = wc_client_value_ring_depth wire,
                       sl_max_key_len = wc_max_key_bytes wire,
                       sl_dir_entry_bytes = dir_entry_bytes (wc_max_key_bytes wire),
                       sl_num_buckets = buckets, sl_poll_us = poll\<rparr>))"


section \<open>The derived limits are usable\<close>

lemma unat_kMaxKeysHardCap [simp]: "unat kMaxKeysHardCap = 65536"
  by (simp add: kMaxKeysHardCap_def)

lemma unat_u64_to_u32: "unat x < 4294967296 \<Longrightarrow> unat (ucast (x :: u64) :: u32) = unat x"
  by (simp add: unsigned_ucast_eq take_bit_nat_eq_self)

lemma unat_ucast_32_64 [simp]: "unat (ucast (x :: u32) :: u64) = unat x"
  by (simp add: unsigned_ucast_eq take_bit_nat_eq_self order_less_trans [OF unat_less_4G])

lemma unat_less_64: "unat (x :: u64) < 18446744073709551616"
  using unsigned_less [of x] by simp

lemma unat_add_64: "unat a + unat b < 18446744073709551616 \<Longrightarrow> unat (a + b :: u64) = unat a + unat b"
  by (simp add: unat_word_ariths)

lemma unat_mult_64: "unat a * unat b < 18446744073709551616 \<Longrightarrow> unat (a * b :: u64) = unat a * unat b"
  by (simp add: unat_word_ariths)

lemma parse_max_keys_range:
  assumes "parse_max_keys env = Inr k"
  shows "0 < unat k \<and> unat k \<le> 65536"
proof -
  consider "env = Inr None" "k = kMaxKeysDefault"
    | p where "env = Inr (Some p)" "0 < p" "ucast kMaxKeysHardCap < p" "k = kMaxKeysHardCap"
    | p where "env = Inr (Some p)" "0 < p" "\<not> ucast kMaxKeysHardCap < p" "k = ucast p"
    using assms by (auto simp: parse_max_keys_def split: sum.splits option.splits if_splits)
  then show ?thesis
  proof cases
    case 1 then show ?thesis by (simp add: kMaxKeysDefault_def)
  next
    case 2 then show ?thesis by simp
  next
    case (3 p)
    then have "unat p \<le> 65536" "0 < unat p"
      by (simp_all add: word_less_nat_alt kMaxKeysHardCap_def)
    then show ?thesis using 3 by (simp add: unat_u64_to_u32)
  qed
qed

lemma parse_poll_us_range:
  assumes "parse_poll_us env = Inr k"
  shows "0 < unat k \<and> unat k \<le> 1000000"
proof -
  consider "k = 10" | "k = 1000000" | p :: u64 where "0 < p" "\<not> 1000000 < p" "k = ucast p"
    using assms by (auto simp: parse_poll_us_def split: sum.splits option.splits if_splits)
  then show ?thesis
  proof cases
    case (3 p)
    then have "unat p \<le> 1000000" "0 < unat p" by (simp_all add: word_less_nat_alt)
    then show ?thesis using 3 by (simp add: unat_u64_to_u32)
  qed simp_all
qed

lemma hash_num_buckets_fits:
  assumes "0 < unat k" and "unat k \<le> 65536"
  shows "\<exists>j \<le> 17. hash_num_buckets k = Some (2 ^ j) \<and> 2 * unat k \<le> 2 ^ j \<and> 2 ^ j < 4 * unat k"
proof -
  have k2: "unat (k * 2) = 2 * unat k" using assms by (simp add: unat_word_ariths)
  have k0: "k \<noteq> 0" using assms by auto
  obtain j where j: "pow2_loop (k * 2) 1 = Some (2 ^ j)" "unat (k * 2) \<le> 2 ^ j"
      "j = 0 \<or> 2 ^ (j - 1) < unat (k * 2)"
    using pow2_loop_total [of 1 0 "k * 2"] k2 assms by auto
  have j0: "j \<noteq> 0" using j(2) k2 assms by (intro notI) simp
  then have lt: "2 ^ (j - 1) < 2 * unat k" using j(3) k2 by simp
  then have "(2::nat) ^ (j - 1) < 2 ^ 17" using assms by simp
  then have "j - 1 < 17" by (rule power_less_imp_less_exp [rotated]) simp
  moreover have "(2::nat) ^ j = 2 * 2 ^ (j - 1)" using j0 by (cases j) simp_all
  ultimately show ?thesis using j k0 k2 lt by (intro exI [of _ j]) (simp add: hash_num_buckets_def)
qed

lemma buddy_block_units_fit:
  assumes "0 < unat b" and "unat b \<le> 524288 * 4288"
  shows "\<exists>j \<le> 19. buddy_block_units_for b = Some (2 ^ j) \<and> unat (chunk_count_for b) \<le> 2 ^ j"
proof -
  have n: "unat (chunk_count_for b) \<le> 2 ^ 19" using assms by (simp add: unat_chunk_count_for)
  obtain j where j: "pow2_loop (chunk_count_for b) 1 = Some (2 ^ j)" "unat (chunk_count_for b) \<le> 2 ^ j"
      "j = 0 \<or> 2 ^ (j - 1) < unat (chunk_count_for b)"
    using pow2_loop_total [of 1 0 "chunk_count_for b"] n by auto
  have "j = 0 \<or> (2::nat) ^ (j - 1) < 2 ^ 19" using j(3) n by linarith
  then have "j \<le> 19" by (metis One_nat_def Suc_leI Suc_pred le0 neq0_conv one_less_numeral_iff
      power_less_imp_less_exp semiring_norm(76))
  then show ?thesis using j
    by (intro exI [of _ j]) (simp add: buddy_block_units_for_def ceil_power_of_two_def)
qed

lemma normalize_value_heap_bytes_fits:
  assumes "0 < unat m" and "unat m \<le> 524288 * 4288"
  shows "\<exists>h. normalize_value_heap_bytes q m = Some h \<and> h = (h div kMaxChunkValueBytes) * kMaxChunkValueBytes
           \<and> chunk_count_for m \<le> h div kMaxChunkValueBytes"
proof -
  obtain j where j: "j \<le> 19" "buddy_block_units_for m = Some (2 ^ j)"
      "unat (chunk_count_for m) \<le> 2 ^ j"
    using buddy_block_units_fit [OF assms] by blast
  define lo :: u32 where "lo = 2 ^ j * kMaxChunkValueBytes"
  define r :: u32 where "r = (q div kMaxChunkValueBytes) * kMaxChunkValueBytes"
  have pj: "(2::nat) ^ j \<le> 524288" using power_increasing [OF j(1), of "2::nat"] by simp
  have uj: "unat (2 ^ j :: u32) = 2 ^ j" using j(1) by (intro unat_pow2_u32) simp
  have ulo: "unat lo = 2 ^ j * 4288" using pj uj by (simp add: lo_def unat_word_ariths)
  have ur: "unat r = unat q div 4288 * 4288"
  proof -
    have a: "unat q div 4288 * 4288 < 4294967296"
      using unat_less_4G [of q] div_times_less_eq_dividend [of "unat q" 4288] by linarith
    then have b: "unat q div 4288 < 4294967296" by linarith
    show ?thesis by (simp add: r_def unat_word_ariths unat_div mod_less [OF a] mod_less [OF b])
  qed
  define h where "h = (if r < lo then lo else r)"
  have hn: "normalize_value_heap_bytes q m = Some h"
    by (simp add: normalize_value_heap_bytes_def j(2) h_def r_def lo_def Let_def)
  have h4: "unat h div 4288 * 4288 = unat h" by (simp add: h_def ulo ur)
  then have "h = (h div kMaxChunkValueBytes) * kMaxChunkValueBytes"
  proof -
    have a: "unat h div 4288 * 4288 < 4294967296" using h4 unat_less_4G [of h] by linarith
    then have b: "unat h div 4288 < 4294967296" by linarith
    show ?thesis
      by (simp add: word_unat_eq_iff unat_word_ariths unat_div mod_less [OF a] mod_less [OF b] h4)
  qed
  moreover have "2 ^ j \<le> unat h div 4288"
    using ulo by (auto simp: h_def word_less_nat_alt)
  then have "chunk_count_for m \<le> h div kMaxChunkValueBytes"
    using j(3) by (simp add: word_le_nat_alt unat_div)
  ultimately show ?thesis using hn by blast
qed

lemma parse_value_heap_bytes_cases:
  assumes "0 < unat m" and "unat m \<le> 524288 * 4288"
  obtains e where "parse_value_heap_bytes env m = Some (Inl e)"
  | q h where "parse_value_heap_bytes env m = Some (Inr h)" "normalize_value_heap_bytes q m = Some h"
proof (cases "\<exists>bytes. env_or env (ucast kValueHeapBytesDefault) = Inr bytes \<and> 0 < bytes")
  case False
  then have "\<exists>e. parse_value_heap_bytes env m = Some (Inl e)"
    by (auto simp: parse_value_heap_bytes_def split: sum.split)
  then show ?thesis using that(1) by blast
next
  case True
  then obtain bytes where b: "env_or env (ucast kValueHeapBytesDefault) = Inr bytes" "0 < bytes" by blast
  define q :: u32 where "q = ucast (if ucast kMaxChunkAlignedValueBytes < bytes
                                    then ucast kMaxChunkAlignedValueBytes else bytes)"
  obtain h where h: "normalize_value_heap_bytes q m = Some h"
    using normalize_value_heap_bytes_fits [OF assms, of q] by blast
  have "parse_value_heap_bytes env m = Some (Inr h)"
    unfolding parse_value_heap_bytes_def b(1) Let_def using b(2) h [unfolded q_def] by (simp split: if_splits)
  then show ?thesis using h by (rule that(2))
qed

lemma and_not_31: "and (x :: u32) (not 31) = push_bit 5 (drop_bit 5 x)"
proof -
  have m: "(31 :: u32) = mask 5" by (simp add: mask_eq_exp_minus_1)
  show ?thesis unfolding m by (rule bit_word_eqI) (auto simp: bit_simps)
qed

lemma dir_entry_bytes_aligned:
  assumes "unat n \<le> unat kMaxPutKeyBytes"
  shows "unat (dir_entry_bytes n) mod 32 = 0 \<and> 32 + unat n \<le> unat (dir_entry_bytes n)"
proof -
  have n: "unat n \<le> 128" using assms by (simp add: kMaxPutKeyBytes_def)
  have "unat (n + 63) = unat n + 63" using n by (simp add: unat_word_ariths)
  then have d: "unat (drop_bit 5 (n + 63)) = (unat n + 63) div 32"
    by (simp add: drop_bit_eq_div unat_div)
  have e: "dir_entry_bytes n = push_bit 5 (drop_bit 5 (n + 63))"
    unfolding dir_entry_bytes_def kDirEntryHeaderBytes_def and_not_31 by (simp add: add.commute)
  have "unat (dir_entry_bytes n) = (unat n + 63) div 32 * 32"
    unfolding e push_bit_eq_mult using n d by (subst unat_mult_lem [THEN iffD1]) simp_all
  then show ?thesis by simp
qed

text \<open>
  What the resources of a server rely on: the directory is at most half full, the heap is a whole
  number of chunks and holds the largest value, and entries are whole cache lines.
\<close>

definition limits_ok :: "wire_config \<Rightarrow> server_limits \<Rightarrow> bool" where
  "limits_ok wire l \<longleftrightarrow>
     0 < sl_max_keys l \<and> sl_max_keys l \<le> kMaxKeysHardCap
     \<and> (\<exists>j \<le> 17. sl_num_buckets l = 2 ^ j)
     \<and> 2 * unat (sl_max_keys l) \<le> unat (sl_num_buckets l) \<and> unat (sl_num_buckets l) < 4 * unat (sl_max_keys l)
     \<and> sl_value_heap_bytes l = sl_num_units l * kMaxChunkValueBytes
     \<and> chunk_count_for (wc_max_value_bytes wire) \<le> sl_num_units l
     \<and> sl_max_get_chunks l = chunk_count_for (wc_max_value_bytes wire)
     \<and> unat (sl_dir_entry_bytes l) mod 32 = 0
     \<and> 32 + unat (wc_max_key_bytes wire) \<le> unat (sl_dir_entry_bytes l)
     \<and> 0 < sl_poll_us l \<and> sl_poll_us l \<le> 1000000"

text \<open>The fields that the derivation fills in are consistent when its parts are in range.\<close>

definition derived_limits :: "wire_config \<Rightarrow> u32 \<Rightarrow> u32 \<Rightarrow> nat \<Rightarrow> u32 \<Rightarrow> server_limits" where
  "derived_limits wire k h j p =
     \<lparr>sl_max_value_bytes = wc_max_value_bytes wire,
      sl_max_get_chunks = max_get_chunks_for (wc_max_value_bytes wire),
      sl_max_keys = k, sl_value_heap_bytes = h, sl_num_units = h div kMaxChunkValueBytes,
      sl_ring_slots = wc_server_ring_slots wire,
      sl_value_ring_depth = wc_client_value_ring_depth wire,
      sl_max_key_len = wc_max_key_bytes wire,
      sl_dir_entry_bytes = dir_entry_bytes (wc_max_key_bytes wire),
      sl_num_buckets = 2 ^ j, sl_poll_us = p\<rparr>"

lemma derived_limits_ok:
  assumes "0 < unat k" "unat k \<le> 65536" and j: "j \<le> 17" "2 * unat k \<le> 2 ^ j" "2 ^ j < 4 * unat k"
    and h: "h = (h div kMaxChunkValueBytes) * kMaxChunkValueBytes"
      "chunk_count_for (wc_max_value_bytes wire) \<le> h div kMaxChunkValueBytes"
    and key: "wc_max_key_bytes wire \<le> kMaxPutKeyBytes" and p: "0 < unat p \<and> unat p \<le> 1000000"
  shows "limits_ok wire (derived_limits wire k h j p)"
proof -
  have uj: "unat (2 ^ j :: u32) = 2 ^ j" using j(1) by (intro unat_pow2_u32) simp
  have "unat (wc_max_key_bytes wire) \<le> unat kMaxPutKeyBytes" using key by (simp add: word_le_nat_alt)
  then show ?thesis
    unfolding limits_ok_def max_get_chunks_for_def derived_limits_def
    using assms dir_entry_bytes_aligned
    by (auto simp: uj word_less_nat_alt word_le_nat_alt h(1) [symmetric])
qed

text \<open>
  C36: For a wire configuration whose largest value is at most the largest buddy block, the derivation
  always returns: it reports the fault of one of the three environment parsers, or it yields limits on
  which every buffer of the server can be laid out.
\<close>

theorem derive_limits_usable:
  assumes "0 < wc_max_value_bytes wire" and "wc_max_value_bytes wire \<le> kMaxBuddyValueBytes"
    and "wc_max_key_bytes wire \<le> kMaxPutKeyBytes"
  shows "\<exists>r. derive_limits wire keys_env heap_env poll_env = Some r
    \<and> (case r of
         Inl e \<Rightarrow> parse_max_keys keys_env = Inl e
            \<or> parse_value_heap_bytes heap_env (wc_max_value_bytes wire) = Some (Inl e)
            \<or> parse_poll_us poll_env = Inl e
       | Inr l \<Rightarrow> limits_ok wire l)"
proof (cases "parse_max_keys keys_env")
  case (Inl e)
  then show ?thesis by (simp add: derive_limits_def)
next
  case (Inr k)
  have k: "0 < unat k" "unat k \<le> 65536" using parse_max_keys_range [OF Inr] by auto
  obtain j where j: "j \<le> 17" "hash_num_buckets k = Some (2 ^ j)" "2 * unat k \<le> 2 ^ j" "2 ^ j < 4 * unat k"
    using hash_num_buckets_fits [OF k] by blast
  have m: "0 < unat (wc_max_value_bytes wire)" "unat (wc_max_value_bytes wire) \<le> 524288 * 4288"
    using assms(1,2) by (simp_all add: word_less_nat_alt word_le_nat_alt kMaxBuddyValueBytes_def kMaxChunkValueBytes_eq)
  consider e where "parse_value_heap_bytes heap_env (wc_max_value_bytes wire) = Some (Inl e)"
    | q h where "parse_value_heap_bytes heap_env (wc_max_value_bytes wire) = Some (Inr h)"
        "normalize_value_heap_bytes q (wc_max_value_bytes wire) = Some h"
    by (rule parse_value_heap_bytes_cases [OF m])
  then show ?thesis
  proof cases
    case 1
    then show ?thesis by (simp add: derive_limits_def Inr)
  next
    case (2 q h)
    have h: "h = (h div kMaxChunkValueBytes) * kMaxChunkValueBytes"
        "chunk_count_for (wc_max_value_bytes wire) \<le> h div kMaxChunkValueBytes"
      using normalize_value_heap_bytes_fits [OF m, of q] 2(2) by force+
    show ?thesis
    proof (cases "parse_poll_us poll_env")
      case Inl
      then show ?thesis using 2 j by (simp add: derive_limits_def Inr)
    next
      case poll: (Inr p)
      have p: "0 < unat p \<and> unat p \<le> 1000000" by (rule parse_poll_us_range [OF poll])
      have "limits_ok wire (derived_limits wire k h j p)" by (rule derived_limits_ok [OF k j(1,3,4) h assms(3) p])
      moreover have "derive_limits wire keys_env heap_env poll_env = Some (Inr (derived_limits wire k h j p))"
        by (simp add: derive_limits_def derived_limits_def Inr poll 2(1) j(2))
      ultimately show ?thesis by simp
    qed
  qed
qed

theorem derive_limits_usable_witness:
  "\<exists>r. derive_limits \<lparr>wc_server_ring_slots = 16, wc_client_value_ring_depth = 8,
          wc_max_value_bytes = 1048576, wc_max_key_bytes = 128\<rparr>
        (Inr (Some 70000)) (Inr None) (Inr (Some 0)) = Some r"
  using derive_limits_usable [of "\<lparr>wc_server_ring_slots = 16, wc_client_value_ring_depth = 8,
          wc_max_value_bytes = 1048576, wc_max_key_bytes = 128\<rparr>"
        "Inr (Some 70000)" "Inr None" "Inr (Some 0)"]
  by (auto simp: kMaxBuddyValueBytes_def kMaxChunkValueBytes_eq kMaxPutKeyBytes_def)
end
