(* ===== verification/Host_Arena.thy ===== *)
theory Host_Arena
  imports Server_Config Host_Store
begin

text \<open>
  The staging arena of an endpoint, \<^verbatim>\<open>server_resources.cpp\<close>: one host mapping per submesh, shared by
  its worker groups and cut into one slice for each; \<open>create_host_arena\<close> makes it,
  \<open>reserve_stage_buffer\<close> attaches a server to its slice and lays the slice out as staging window,
  completion words, ingress descriptors, pool metadata and host-value pool. What \<^verbatim>\<open>mmap\<close>, the
  pinning library and the device answer are arguments.

  The locale \<open>shared_layout\<close> states the contract of the reservations that the servers of one
  submesh share.
\<close>

section \<open>Sizes\<close>

definition kSystemPage :: u64 where "kSystemPage = 4096"
definition kHugePage :: u64 where "kHugePage = 1073741824"
definition kPromoteHostCompletionBytes :: u32 where "kPromoteHostCompletionBytes = 64"
definition kGetHostCompletionBytes :: u32 where "kGetHostCompletionBytes = kPromoteHostCompletionBytes"
definition kGetIngressHostBytes :: u32 where "kGetIngressHostBytes = 448"
definition kHostPoolMetaBytes :: u32 where "kHostPoolMetaBytes = 32"

text \<open>\<^verbatim>\<open>size_t\<close> has 64 bits, so that the range check of the source never fails.\<close>

definition parse_host_pool_bytes :: "env_u64 \<Rightarrow> fault + u64 option" where
  "parse_host_pool_bytes env =
     (case env of
        Inl e \<Rightarrow> Inl e
      | Inr None \<Rightarrow> Inr None
      | Inr (Some parsed) \<Rightarrow>
          if parsed \<le> 0xFFFFFFFFFFFFFFFF then Inr (Some parsed)
          else Inl (Fatal ''KVM_SERVER_HOST_POOL_BYTES exceeds size_t range''))"

definition page_align_down :: "u64 \<Rightarrow> u64" where
  "page_align_down bytes = (bytes div kSystemPage) * kSystemPage"

definition page_align_up :: "u64 \<Rightarrow> fault + u64" where
  "page_align_up bytes =
     (if bytes \<le> 0xFFFFFFFFFFFFFFFF - (kSystemPage - 1)
      then Inr (((bytes + kSystemPage - 1) div kSystemPage) * kSystemPage)
      else Inl (Fatal ''host arena size cannot be page-aligned without overflow''))"

definition checked_arena_bytes :: "u64 \<Rightarrow> u32 \<Rightarrow> fault + u64" where
  "checked_arena_bytes slice_bytes worker_groups =
     (if slice_bytes \<le> 0xFFFFFFFFFFFFFFFF div ucast worker_groups
      then Inr (slice_bytes * ucast worker_groups)
      else Inl (Fatal ''host arena slice times worker groups overflows size_t''))"

section \<open>The arena\<close>

record host_arena =
  ar_hugemap :: bool
  ar_backing_bytes :: u64
  ar_mapping_bytes :: u64
  ar_slice_bytes :: u64
  ar_stage_and_control_bytes :: u64
  ar_worker_groups :: u32
  ar_map_to_noc :: bool

text \<open>Whether the huge page is there, what creating the shared memory and pinning it throw.\<close>

record arena_answers =
  aa_hugepage :: bool
  aa_shared_memory :: "fault option"
  aa_pin :: "bool \<Rightarrow> fault option"

definition pin_arena :: "arena_answers \<Rightarrow> host_arena \<Rightarrow> fault + host_arena" where
  "pin_arena answers arena =
     (case aa_pin answers True of
        None \<Rightarrow> Inr (arena\<lparr>ar_map_to_noc := True\<rparr>)
      | Some _ \<Rightarrow>
          (case aa_pin answers False of
             None \<Rightarrow> Inr (arena\<lparr>ar_map_to_noc := False\<rparr>)
           | Some e \<Rightarrow> Inl e))"

definition create_host_arena :: "arena_answers \<Rightarrow> u64 \<Rightarrow> u64 \<Rightarrow> u32 \<Rightarrow> fault + host_arena" where
  "create_host_arena answers slice_bytes stage_and_control_bytes worker_groups =
     (if stage_and_control_bytes \<le> slice_bytes \<and> aa_hugepage answers then
        pin_arena answers
          \<lparr>ar_hugemap = True, ar_backing_bytes = kHugePage, ar_mapping_bytes = kHugePage,
           ar_slice_bytes = slice_bytes, ar_stage_and_control_bytes = stage_and_control_bytes,
           ar_worker_groups = worker_groups, ar_map_to_noc = False\<rparr>
      else
        case page_align_up stage_and_control_bytes of
          Inl e \<Rightarrow> Inl e
        | Inr bytes \<Rightarrow>
            case checked_arena_bytes bytes worker_groups of
              Inl e \<Rightarrow> Inl e
            | Inr mapping \<Rightarrow>
                case aa_shared_memory answers of
                  Some e \<Rightarrow> Inl e
                | None \<Rightarrow> pin_arena answers
                    \<lparr>ar_hugemap = False, ar_backing_bytes = mapping, ar_mapping_bytes = mapping,
                     ar_slice_bytes = bytes, ar_stage_and_control_bytes = stage_and_control_bytes,
                     ar_worker_groups = worker_groups, ar_map_to_noc = False\<rparr>)"

section \<open>Reservations shared by the servers of a submesh\<close>

text \<open>
  A registry maps a key to what its weak pointer locks to: the reservation while some server holds
  it, \<open>None\<close> when none was made or the last holder is gone. \<open>attach\<close> takes the reservation of a key
  if its layout is the requested one and otherwise refuses; if there is none it creates one.
\<close>

definition attach_shared ::
  "('r \<Rightarrow> 'l) \<Rightarrow> fault \<Rightarrow> ('l \<Rightarrow> fault + 'r) \<Rightarrow> 'k \<Rightarrow> 'l \<Rightarrow> ('k \<Rightarrow> 'r option) \<Rightarrow> (fault + 'r) \<times> ('k \<Rightarrow> 'r option)" where
  "attach_shared layout mismatch create k l reg =
     (case reg k of
        Some r \<Rightarrow> (if layout r = l then (Inr r, reg) else (Inl mismatch, reg))
      | None \<Rightarrow>
          (case create l of
             Inl e \<Rightarrow> (Inl e, reg)
           | Inr r \<Rightarrow> (Inr r, reg(k := Some r))))"

datatype ('k, 'l, 'c) sharing = Attach 'k 'l 'c | Expire 'k

fun share :: "('c \<Rightarrow> 'k \<Rightarrow> 'l \<Rightarrow> ('k \<Rightarrow> 'r option) \<Rightarrow> (fault + 'r) \<times> ('k \<Rightarrow> 'r option)) \<Rightarrow>
    ('k, 'l, 'c) sharing \<Rightarrow> ('k \<Rightarrow> 'r option) \<Rightarrow> ('k \<Rightarrow> 'r option)" where
  "share attach (Attach k l c) reg = snd (attach c k l reg)"
| "share attach (Expire k) reg = reg(k := None)"

locale shared_layout =
  fixes attach :: "'c \<Rightarrow> 'k \<Rightarrow> 'l \<Rightarrow> ('k \<Rightarrow> 'r option) \<Rightarrow> (fault + 'r) \<times> ('k \<Rightarrow> 'r option)"
    and layout :: "'r \<Rightarrow> 'l"
  assumes attach_held: "attach c k l reg = (Inr r, reg') \<Longrightarrow> reg' k = Some r"
    and attach_layout: "attach c k l reg = (Inr r, reg') \<Longrightarrow> layout r = l"
    and attach_keeps: "attach c k l reg = (x, reg') \<Longrightarrow> reg j = Some r \<Longrightarrow> reg' j = Some r"
begin

lemma share_keeps:
  assumes "reg k = Some r" and "Expire k \<notin> set es"
  shows "fold (share attach) es reg k = Some r"
  using assms
proof (induction es arbitrary: reg)
  case (Cons e es)
  have "share attach e reg k = Some r"
  proof (cases e)
    case (Attach j l c)
    then show ?thesis
      using attach_keeps [of c j l reg "fst (attach c j l reg)" "snd (attach c j l reg)" k r] Cons.prems by simp
  qed (use Cons.prems in auto)
  then show ?case using Cons by simp
qed simp

text \<open>Two servers that attach to a key while it is held have one reservation and one layout.\<close>

lemma attach_agree:
  assumes "attach c k l reg = (Inr r, reg1)" and "Expire k \<notin> set es"
    and "attach c' k l' (fold (share attach) es reg1) = (Inr r', reg2)"
  shows "r' = r \<and> l' = l"
proof -
  have "fold (share attach) es reg1 k = Some r" using attach_held [OF assms(1)] assms(2) by (rule share_keeps)
  then have "reg2 k = Some r" by (rule attach_keeps [OF assms(3)])
  then have "r' = r" using attach_held [OF assms(3)] by simp
  then show ?thesis using attach_layout [OF assms(1)] attach_layout [OF assms(3)] by simp
qed

lemma attach_refused:
  assumes "attach c k l reg = (Inr r, reg1)" and "Expire k \<notin> set es" and "l' \<noteq> l"
  shows "\<exists>e. fst (attach c' k l' (fold (share attach) es reg1)) = Inl e"
proof (cases "attach c' k l' (fold (share attach) es reg1)")
  case (Pair x reg2)
  then show ?thesis using attach_agree [OF assms(1,2)] assms(3) by (cases x) auto
qed

end

lemma attach_shared_laws:
  assumes "\<And>c l r. create c l = Inr r \<Longrightarrow> layout r = l"
  shows "shared_layout (\<lambda>c. attach_shared layout m (create c)) layout"
proof
  show "reg' k = Some r" if "attach_shared layout m (create c) k l reg = (Inr r, reg')" for c k l reg r reg'
    using that by (auto simp: attach_shared_def split: option.splits if_splits sum.splits)
  show "layout r = l" if "attach_shared layout m (create c) k l reg = (Inr r, reg')" for c k l reg r reg'
    using that assms by (auto simp: attach_shared_def split: option.splits if_splits sum.splits)
  show "reg' j = Some r" if "attach_shared layout m (create c) k l reg = (x, reg')" "reg j = Some r" for c k l reg x reg' j r
    using that by (auto simp: attach_shared_def split: option.splits if_splits sum.splits)
qed

definition arena_layout :: "host_arena \<Rightarrow> u32 \<times> u64" where
  "arena_layout ar = (ar_worker_groups ar, ar_stage_and_control_bytes ar)"

definition create_arena_for :: "arena_answers \<Rightarrow> u32 \<times> u64 \<Rightarrow> fault + host_arena" where
  "create_arena_for answers l =
     create_host_arena answers (page_align_down (kHugePage div ucast (fst l))) (snd l) (fst l)"

definition attach_arena ::
  "arena_answers \<Rightarrow> nat \<Rightarrow> u32 \<times> u64 \<Rightarrow> (nat \<Rightarrow> host_arena option) \<Rightarrow> (fault + host_arena) \<times> (nat \<Rightarrow> host_arena option)" where
  "attach_arena answers =
     attach_shared arena_layout
       (Fatal ''all KVM Server shards on one endpoint must use the same host arena layout'')
       (create_arena_for answers)"

lemma create_arena_layout: "create_arena_for answers l = Inr ar \<Longrightarrow> arena_layout ar = l"
  by (auto simp: create_arena_for_def create_host_arena_def pin_arena_def arena_layout_def
      split: if_splits option.splits sum.splits)

interpretation arenas: shared_layout attach_arena arena_layout
  unfolding attach_arena_def [abs_def] by (rule attach_shared_laws) (rule create_arena_layout)

section \<open>The slice of a server\<close>

record stage_state = host_state +
  stage_completion_offset :: u32
  get_completion_offset :: u32
  get_ingress_offset :: u32
  pool_meta_read_off :: u32
  stage_arena :: "host_arena option"
  stage_slice_offset :: u64
  pool_slice_offset :: u64
  stage_completion_word :: u32
  get_completion_word :: u32
  get_ingress_generation :: u32
  stage_pcie_xy_enc :: u32
  stage_addr_lo :: u32
  stage_addr_hi :: u32
  mapped_completion_enabled :: bool
  ingress_enabled :: bool
  admission_enabled :: bool
  shared_host_arenas :: "nat \<Rightarrow> host_arena option"

record stage_request =
  sr_host_pool :: env_u64
  sr_shards :: env_u64
  sr_static :: bool
  sr_submesh :: nat
  sr_worker_group :: u32
  sr_max_value_bytes :: u32
  sr_device :: bool
  sr_arena :: arena_answers
  sr_noc :: "(u64 \<times> u32) option"
  sr_usable :: bool
  sr_grid_x :: u32
  sr_grid_y :: u32
  sr_counter :: u32

text \<open>The offsets of the control region; the 32-bit sums wrap like the source's.\<close>

definition plan_stage :: "u32 \<Rightarrow> ('z stage_state_scheme, u64) io" where
  "plan_stage max_value_bytes =
     seqE (modify (stage_bytes_update (\<lambda>_. chunk_aligned_value_bytes max_value_bytes)))
    (seqE (modify (\<lambda>s. s\<lparr>stage_completion_offset := stage_bytes s\<rparr>))
    (seqE (modify (\<lambda>s. s\<lparr>get_completion_offset := stage_completion_offset s + kPromoteHostCompletionBytes\<rparr>))
    (seqE (modify (\<lambda>s. s\<lparr>get_ingress_offset := get_completion_offset s + kGetHostCompletionBytes\<rparr>))
    (bindE (gets (\<lambda>s. ucast (get_ingress_offset s) + ucast kGetIngressHostBytes)) (\<lambda>pool_meta_offset.
     bindE (gets (\<lambda>s. pool_meta_offset + ucast (max_keys s) * ucast kHostPoolMetaBytes)) (\<lambda>stage_and_control_bytes.
     seqE (check (stage_and_control_bytes \<le> 0xFFFFFFFF)
             (Fatal ''staging/control region exceeds the 32-bit device offset range''))
    (seqE (modify (pool_meta_read_off_update (\<lambda>_. ucast pool_meta_offset)))
    (seqE (modify (pool_meta_generations_update (\<lambda>_ _. 0)))
          (ret stage_and_control_bytes)))))))))"

definition lock_arena :: "stage_request \<Rightarrow> u32 \<Rightarrow> u64 \<Rightarrow> ('z stage_state_scheme, host_arena) io" where
  "lock_arena rq worker_groups stage_and_control_bytes =
     bindE (gets shared_host_arenas) (\<lambda>reg.
     seqE (modify (stage_arena_update (\<lambda>_. reg (sr_submesh rq))))
    (case attach_arena (sr_arena rq) (sr_submesh rq) (worker_groups, stage_and_control_bytes) reg of
       (x, reg') \<Rightarrow>
         seqE (modify (shared_host_arenas_update (\<lambda>_. reg')))
        (bindE (lift_sum x) (\<lambda>ar.
         seqE (modify (stage_arena_update (\<lambda>_. Some ar))) (ret ar)))))"

text \<open>The pointers into the slice and the words the host clears in it.\<close>

definition clear_control :: "u32 \<Rightarrow> u64 \<Rightarrow> ('z stage_state_scheme, unit) io" where
  "clear_control initial_counter slice_offset =
     seqE (modify (stage_slice_offset_update (\<lambda>_. slice_offset)))
    (seqE (modify (stage_completion_word_update (\<lambda>_. initial_counter)))
    (seqE (modify (get_completion_word_update (\<lambda>_. 0)))
    (seqE (modify (get_ingress_generation_update (\<lambda>_. initial_counter)))
    (seqE (modify (meta_mapped_update (\<lambda>_. True)))
          (modify (pool_meta_update (\<lambda>_ _ _. 0)))))))"

definition select_workers :: "stage_request \<Rightarrow> ('z stage_state_scheme, unit) io" where
  "select_workers rq =
     seqE (modify (stage_noc_ok_update (\<lambda>_. sr_noc rq \<noteq> None \<and> sr_usable rq)))
    (seqE (modify (\<lambda>s. s\<lparr>mapped_completion_enabled := mapped_completion_enabled s \<and> stage_noc_ok s\<rparr>))
    (seqE (modify (\<lambda>s. s\<lparr>ingress_enabled := ingress_enabled s \<and> mapped_completion_enabled s
                           \<and> sr_worker_group rq < sr_grid_x rq \<and> 1 < sr_grid_y rq\<rparr>))
          (modify (\<lambda>s. s\<lparr>admission_enabled := admission_enabled s \<and> stage_noc_ok s
                           \<and> sr_worker_group rq < sr_grid_x rq \<and> 2 < sr_grid_y rq\<rparr>))))"

definition map_pool :: "stage_request \<Rightarrow> u64 option \<Rightarrow> host_arena \<Rightarrow> u64 \<Rightarrow> u64 \<Rightarrow> ('z stage_state_scheme, unit) io" where
  "map_pool rq host_pool_cap arena slice_offset stage_and_control_bytes =
     (case sr_noc rq of
        None \<Rightarrow> ret ()
      | Some (addr, enc) \<Rightarrow>
          seqE (check (addr \<le> 0xFFFFFFFFFFFFFFFF - slice_offset)
                  (Fatal ''NoC arena base plus slice offset overflows uint64_t''))
         (let stage_noc_addr = addr + slice_offset in
          seqE (modify (stage_pcie_xy_enc_update (\<lambda>_. enc)))
         (seqE (modify (stage_addr_lo_update (\<lambda>_. ucast (and stage_noc_addr 0xFFFFFFFF))))
         (seqE (modify (stage_addr_hi_update (\<lambda>_. ucast (drop_bit 32 stage_noc_addr))))
         (seqE (check (and stage_noc_addr 0xFFFFFFFF + ar_slice_bytes arena \<le> 0x100000000)
                  (Fatal ''NoC-mapped region crosses a 4 GiB boundary''))
         (let pool_offset = stage_and_control_bytes;
              available = ar_slice_bytes arena - pool_offset;
              pool_bytes = (case host_pool_cap of None \<Rightarrow> available | Some cap \<Rightarrow> min available cap);
              pool_units = (ucast (pool_bytes div ucast kMaxChunkValueBytes) :: u32) in
          whenE (0 < pool_units)
            (seqE (modify (pool_mapped_update (\<lambda>_. True)))
            (seqE (modify (pool_slice_offset_update (\<lambda>_. pool_offset)))
            (seqE (modify (pool_read_off_update (\<lambda>_. ucast pool_offset)))
            (seqE (modify (pool_units_total_update (\<lambda>_. pool_units)))
                  (modify (pool_free_update (\<lambda>_. omap_emplace 0 pool_units [])))))))))))))"

text \<open>The rest of the reservation, once the arena is locked.\<close>

definition reserve_slice :: "stage_request \<Rightarrow> u64 option \<Rightarrow> host_arena \<Rightarrow> u64 \<Rightarrow> ('z stage_state_scheme, unit) io" where
  "reserve_slice rq cap arena sc =
     (let slice_offset = ar_slice_bytes arena * ucast (sr_worker_group rq) in
     seqE (check (slice_offset + ar_slice_bytes arena \<le> ar_mapping_bytes arena)
             (Fatal ''worker group host-arena slice exceeds the arena''))
    (seqE (clear_control (sr_counter rq) slice_offset)
    (seqE (select_workers rq)
    (bindE (gets stage_noc_ok) (\<lambda>noc_ok.
     whenE noc_ok (map_pool rq cap arena slice_offset sc))))))"

definition reserve_stage_buffer :: "stage_request \<Rightarrow> ('z stage_state_scheme, unit) io" where
  "reserve_stage_buffer rq =
     bindE (lift_sum (parse_host_pool_bytes (sr_host_pool rq))) (\<lambda>host_pool_cap.
     bindE (plan_stage (sr_max_value_bytes rq)) (\<lambda>stage_and_control_bytes.
     seqE (check (sr_device rq) (Fatal ''reserve_stage_buffer: server_submesh has no chip at (0,0)''))
    (bindE (lift_sum (if sr_static rq then configured_server_worker_groups (sr_shards rq) else Inr 1)) (\<lambda>worker_groups.
     bindE (lock_arena rq worker_groups stage_and_control_bytes) (\<lambda>arena.
     reserve_slice rq host_pool_cap arena stage_and_control_bytes)))))"


section \<open>What the layout guarantees\<close>

definition arena_ok :: "host_arena \<Rightarrow> bool" where
  "arena_ok ar \<longleftrightarrow> unat (ar_slice_bytes ar) * unat (ar_worker_groups ar) \<le> unat (ar_mapping_bytes ar)
     \<and> ar_stage_and_control_bytes ar \<le> ar_slice_bytes ar \<and> unat (ar_slice_bytes ar) \<le> 2 ^ 32"

definition arenas_ok :: "(nat \<Rightarrow> host_arena option) \<Rightarrow> bool" where
  "arenas_ok reg \<longleftrightarrow> (\<forall>k ar. reg k = Some ar \<longrightarrow> arena_ok ar)"

lemma pin_arena_ok: "pin_arena answers ar = Inr ar' \<Longrightarrow> arena_ok ar' = arena_ok ar"
  by (auto simp: pin_arena_def arena_ok_def split: option.splits)

lemma unat_round_64: "unat ((b div 4096) * 4096 :: u64) = unat b div 4096 * 4096"
proof -
  have "unat b div 4096 * 4096 < 18446744073709551616"
    using unat_less_64 [of b] div_times_less_eq_dividend [of "unat b" 4096] by linarith
  then show ?thesis by (subst unat_mult_64) (simp_all add: unat_div)
qed

lemma unat_page_align_down: "unat (page_align_down b) = unat b div 4096 * 4096"
  by (simp add: page_align_down_def kSystemPage_def unat_round_64)

lemma round_up_4096: "n \<le> (n + 4095) div 4096 * (4096 :: nat)"
  using div_mult_mod_eq [of "n + 4095" 4096] mod_less_divisor [of 4096 "n + 4095"] by linarith

lemma page_align_up_covers:
  assumes "page_align_up b = Inr c"
  shows "b \<le> c \<and> (unat b < 2 ^ 32 \<longrightarrow> unat c \<le> 2 ^ 32)"
proof -
  have b: "b \<le> 18446744073709547520" and c: "c = (b + 4096 - 1) div 4096 * 4096"
    using assms by (simp_all only: page_align_up_def kSystemPage_def split: if_splits) simp_all
  have e: "b + 4096 - 1 = b + 4095" by simp
  have n: "unat (b + 4095) = unat b + 4095" using b by (subst unat_add_64) (simp_all add: word_le_nat_alt)
  have "unat c = (unat b + 4095) div 4096 * 4096"
    unfolding c e unat_round_64 n by (rule refl)
  moreover have "unat b \<le> (unat b + 4095) div 4096 * 4096" by (rule round_up_4096)
  moreover have "(unat b + 4095) div 4096 * 4096 \<le> 2 ^ 32" if "unat b < 2 ^ 32"
  proof -
    have "(unat b + 4095) div 4096 \<le> 1048576" using that by (simp add: less_mult_imp_div_less Suc_leI)
    then show ?thesis by simp
  qed
  ultimately show ?thesis by (simp add: word_le_nat_alt)
qed

lemma checked_arena_exact:
  assumes "checked_arena_bytes b g = Inr c" and "g \<noteq> 0"
  shows "unat b * unat g = unat c"
proof -
  have b: "unat b \<le> 18446744073709551615 div unat g" and c: "c = b * ucast g"
    using assms by (auto simp: checked_arena_bytes_def word_le_nat_alt unat_div split: if_splits)
  have "unat b * unat g \<le> 18446744073709551615 div unat g * unat g" using b by (intro mult_le_mono1)
  also have "\<dots> \<le> 18446744073709551615" by (rule div_times_less_eq_dividend)
  finally show ?thesis by (simp add: c unat_word_ariths mod_less)
qed

lemma create_arena_ok:
  assumes "create_arena_for answers (g, sc) = Inr ar" and "g \<noteq> 0" and "unat sc < 2 ^ 32"
  shows "arena_ok ar"
proof -
  let ?d = "page_align_down (kHugePage div ucast g)"
  have "unat ?d * unat g \<le> 1073741824 div unat g * unat g"
    using div_times_less_eq_dividend [of "1073741824 div unat g" 4096]
    by (intro mult_le_mono1) (simp add: unat_page_align_down kHugePage_def unat_div)
  also have "\<dots> \<le> 1073741824" by (rule div_times_less_eq_dividend)
  finally have d: "unat ?d * unat g \<le> unat kHugePage" by (simp add: kHugePage_def)
  have g: "0 < unat g" using assms(2) by (simp add: unat_gt_0)
  have m: "a \<le> a * unat g" for a using g by (cases "unat g") simp_all
  have d': "unat ?d \<le> 2 ^ 32"
    by (rule order_trans [OF m], rule order_trans [OF d]) (simp add: kHugePage_def)
  show ?thesis
    using assms(1,3) d d' page_align_up_covers [of sc] checked_arena_exact [OF _ assms(2)]
    by (auto simp: create_arena_for_def create_host_arena_def arena_ok_def split: if_splits sum.splits option.splits
        dest!: pin_arena_ok)
qed

lemma attach_arena_ok:
  assumes "attach_arena answers k (g, sc) reg = (x, reg')" and "arenas_ok reg" and "g \<noteq> 0" and "unat sc < 2 ^ 32"
  shows "arenas_ok reg' \<and> (\<forall>ar. x = Inr ar \<longrightarrow> arena_ok ar \<and> ar_worker_groups ar = g
    \<and> ar_stage_and_control_bytes ar = sc \<and> reg' k = Some ar)"
proof -
  have "arena_layout ar = (g, sc) \<and> reg' k = Some ar" if "x = Inr ar" for ar
    using arenas.attach_layout arenas.attach_held assms(1) that by blast
  moreover have "arenas_ok reg' \<and> (\<forall>ar. x = Inr ar \<longrightarrow> arena_ok ar)"
    using assms create_arena_ok [of answers g sc]
    by (auto simp: attach_arena_def attach_shared_def arenas_ok_def split: option.splits if_splits sum.splits)
  ultimately show ?thesis by (simp add: arena_layout_def)
qed

text \<open>The staging window, the two completion words, the descriptors and the metadata, end to end.\<close>

definition control_layout :: "u32 \<Rightarrow> u64 \<Rightarrow> 'z stage_state_scheme \<Rightarrow> bool" where
  "control_layout n sc t \<longleftrightarrow> unat n \<le> unat (stage_bytes t)
     \<and> unat (stage_completion_offset t) = unat (stage_bytes t)
     \<and> unat (get_completion_offset t) = unat (stage_completion_offset t) + 64
     \<and> unat (get_ingress_offset t) = unat (get_completion_offset t) + 64
     \<and> unat (pool_meta_read_off t) = unat (get_ingress_offset t) + 448
     \<and> unat sc = unat (pool_meta_read_off t) + unat (max_keys t) * 32
     \<and> unat sc < 2 ^ 32"

text \<open>What the steps of the reservation pass on unchanged.\<close>

definition pool_view where
  "pool_view s = (host_values s, pool_mapped s, pool_free s, pool_units_total s, shared_host_arenas s)"

definition control_view where
  "control_view s = (host_values s, shared_host_arenas s, stage_arena s, stage_slice_offset s, stage_noc_ok s, max_keys s,
     stage_bytes s, stage_completion_offset s, get_completion_offset s, get_ingress_offset s, pool_meta_read_off s)"

lemma plan_stage_wp:
  fixes s :: "'z stage_state_scheme"
  assumes "n \<le> kMaxChunkAlignedValueBytes"
  shows "wp (plan_stage n) (\<lambda>sc t. control_layout n sc t \<and> pool_view t = pool_view s)
    (\<lambda>_ t. pool_view t = pool_view s) s"
proof -
  define a where "a = chunk_aligned_value_bytes n"
  have na: "unat n \<le> unat a" and a: "unat a \<le> 4294963712"
    using unat_chunk_aligned_value_bytes [OF assms] chunk_count_for_covers [of n] chunk_count_for_tight [of n] assms
    by (auto simp: a_def word_le_nat_alt kMaxChunkAlignedValueBytes_eq)
  have b: "unat (a + 64) = unat a + 64" "unat (128 + a) = unat a + 128"
    using a by (simp_all add: unat_word_ariths)
  define m :: u64 where "m = ucast (128 + a) + 448"
  have m: "unat m = unat a + 576" using a b(2) unfolding m_def by (subst unat_add_64) simp_all
  have m32: "unat (ucast m :: u32) = unat a + 576"
    using m a by (simp add: unat_u64_to_u32)
  have k: "unat (m + ucast (max_keys s) * 32) = unat m + unat (max_keys s) * 32"
  proof -
    have r: "unat (max_keys s) * 32 < 137438953472" using unat_less_4G [of "max_keys s"] by simp
    have u: "unat (ucast (max_keys s) * 32 :: u64) = unat (max_keys s) * 32"
      by (subst unat_mult_64) (simp_all add: less_trans [OF unat_less_4G])
    have "unat m + unat (max_keys s) * 32 < 18446744073709551616" using r m a by linarith
    then show ?thesis using u by (subst unat_add_64) simp_all
  qed
  show ?thesis
    using na b m m32 k
    by (simp add: plan_stage_def wp_rules control_layout_def pool_view_def a_def [symmetric]
        kPromoteHostCompletionBytes_def kGetHostCompletionBytes_def kGetIngressHostBytes_def kHostPoolMetaBytes_def
        m_def [symmetric] word_le_nat_alt)
qed

lemma fresh_pool_partitions:
  assumes "pool_free s = (if pool_units_total s = 0 then [] else [(0, pool_units_total s)])"
  shows "pool.partitions {#} s"
  using assms by (auto simp: pool.partitions_def pool_ok_def free_ok_def pool_free_set_def run_def split: if_splits)

definition slice_layout :: "stage_request \<Rightarrow> 'z stage_state_scheme \<Rightarrow> bool" where
  "slice_layout rq t \<longleftrightarrow> (\<exists>ar. stage_arena t = Some ar \<and> shared_host_arenas t (sr_submesh rq) = Some ar
     \<and> control_layout (sr_max_value_bytes rq) (ar_stage_and_control_bytes ar) t
     \<and> ar_stage_and_control_bytes ar \<le> ar_slice_bytes ar
     \<and> unat (stage_slice_offset t) = unat (ar_slice_bytes ar) * unat (sr_worker_group rq)
     \<and> unat (stage_slice_offset t) + unat (ar_slice_bytes ar) \<le> unat (ar_mapping_bytes ar)
     \<and> (stage_noc_ok t \<longrightarrow> (\<exists>addr enc. sr_noc rq = Some (addr, enc)
          \<and> unat addr + unat (stage_slice_offset t) = unat (stage_addr_hi t) * 2 ^ 32 + unat (stage_addr_lo t)
          \<and> unat (stage_addr_lo t) + unat (ar_slice_bytes ar) \<le> 2 ^ 32))
     \<and> (pool_mapped t \<longrightarrow> stage_noc_ok t \<and> pool_slice_offset t = ar_stage_and_control_bytes ar
          \<and> unat (pool_read_off t) = unat (pool_slice_offset t) \<and> pool_units_total t \<noteq> 0
          \<and> unat (pool_read_off t) + unat (pool_units_total t) * 4288 \<le> unat (ar_slice_bytes ar)))"

text \<open>What \<open>check_core_config\<close> has established about the worker group.\<close>

definition worker_group_ok :: "stage_request \<Rightarrow> bool" where
  "worker_group_ok rq \<longleftrightarrow>
     (case if sr_static rq then configured_server_worker_groups (sr_shards rq) else Inr 1 of
        Inl _ \<Rightarrow> True | Inr groups \<Rightarrow> sr_worker_group rq < groups)"

lemma worker_groups_positive:
  "(if static then configured_server_worker_groups env else Inr 1) = Inr g \<Longrightarrow> g \<noteq> 0"
proof (cases static)
  case True
  assume "(if static then configured_server_worker_groups env else Inr 1) = Inr g"
  then obtain p :: u64 where p: "1 \<le> p" "p \<le> 8" "g = ucast p"
    using True by (auto simp: configured_server_worker_groups_def split: sum.splits if_splits)
  then have "unat g = unat p" "1 \<le> unat p" by (simp_all add: unat_u64_to_u32 word_le_nat_alt)
  then show ?thesis by auto
qed auto

lemma unat_low_half: "unat (and (a :: u64) 0xFFFFFFFF) = unat a mod 2 ^ 32"
proof -
  have m: "(0xFFFFFFFF :: u64) = mask 32" by (simp add: mask_eq_exp_minus_1)
  show ?thesis unfolding m by (simp flip: take_bit_eq_mask add: take_bit_eq_mod unat_mod)
qed

lemma split_address:
  "unat (ucast (drop_bit 32 (a :: u64)) :: u32) * 2 ^ 32 + unat (ucast (and a 0xFFFFFFFF) :: u32) = unat a"
proof -
  have "unat a div 2 ^ 32 < 2 ^ 32" using unat_less_64 [of a] by (simp add: less_mult_imp_div_less)
  then have h: "unat (ucast (drop_bit 32 a) :: u32) = unat a div 2 ^ 32"
    by (subst unat_u64_to_u32) (simp_all add: drop_bit_eq_div unat_div)
  have l: "unat (ucast (and a 0xFFFFFFFF) :: u32) = unat a mod 2 ^ 32"
    by (subst unat_u64_to_u32) (simp_all add: unat_low_half)
  show ?thesis unfolding h l by (rule div_mult_mod_eq)
qed

lemma unat_low_word: "unat (ucast (and a 0xFFFFFFFF) :: u32) = unat (and (a :: u64) 0xFFFFFFFF)"
  by (rule unat_u64_to_u32) (simp add: unat_low_half)

text \<open>The end of the reservation: the address of the slice and the pool behind its control region.\<close>

lemma map_pool_wp:
  fixes s :: "'z stage_state_scheme"
  assumes "stage_arena s = Some ar" and "arena_ok ar" and "unat sc < 2 ^ 32" and "ar_stage_and_control_bytes ar = sc"
    and "pool_free s = []" and "\<not> pool_mapped s" and "stage_noc_ok s" and "stage_slice_offset s = off"
    and "sr_noc rq \<noteq> None"
  shows "wp (map_pool rq cap ar off sc)
    (\<lambda>_ t. control_view t = control_view s
       \<and> (\<exists>addr enc. sr_noc rq = Some (addr, enc)
          \<and> unat addr + unat off = unat (stage_addr_hi t) * 2 ^ 32 + unat (stage_addr_lo t)
          \<and> unat (stage_addr_lo t) + unat (ar_slice_bytes ar) \<le> 2 ^ 32)
       \<and> (if pool_mapped t then pool_slice_offset t = sc \<and> unat (pool_read_off t) = unat sc
            \<and> pool_units_total t \<noteq> 0 \<and> pool_free t = [(0, pool_units_total t)]
            \<and> unat sc + unat (pool_units_total t) * 4288 \<le> unat (ar_slice_bytes ar)
          else pool_free t = [] \<and> pool_units_total t = pool_units_total s))
    (\<lambda>_ t. \<not> pool_mapped t \<and> pool_free t = [] \<and> shared_host_arenas t = shared_host_arenas s) s"
proof -
  obtain addr enc where noc: "sr_noc rq = Some (addr, enc)" using assms(9) by auto
  have S: "unat (ar_slice_bytes ar) \<le> 2 ^ 32" "unat sc \<le> unat (ar_slice_bytes ar)"
    using assms(2,4) by (auto simp: arena_ok_def word_le_nat_alt)
  have sum: "unat (addr + off) = unat addr + unat off" if "addr \<le> 0xFFFFFFFFFFFFFFFF - off"
  proof -
    have "off \<le> 0xFFFFFFFFFFFFFFFF" using unat_less_64 [of off] by (simp add: word_le_nat_alt)
    then have "unat (0xFFFFFFFFFFFFFFFF - off) = 18446744073709551615 - unat off" by (subst unat_sub) simp_all
    then have "unat addr \<le> 18446744073709551615 - unat off" using that by (simp only: word_le_nat_alt)
    then show ?thesis using unat_less_64 [of off] by (intro unat_add_64) linarith
  qed
  have cross: "unat (and (addr + off) 0xFFFFFFFF) + unat (ar_slice_bytes ar) \<le> 2 ^ 32"
    if "and (addr + off) 0xFFFFFFFF + ar_slice_bytes ar \<le> 0x100000000"
  proof -
    have "unat (and (addr + off) 0xFFFFFFFF) < 2 ^ 32" unfolding unat_low_half by simp
    then have "unat (and (addr + off) 0xFFFFFFFF + ar_slice_bytes ar)
        = unat (and (addr + off) 0xFFFFFFFF) + unat (ar_slice_bytes ar)"
      using S by (intro unat_add_64) simp
    then show ?thesis using that by (simp add: word_le_nat_alt)
  qed
  define bytes where "bytes = (case cap of None \<Rightarrow> ar_slice_bytes ar - sc | Some c \<Rightarrow> min (ar_slice_bytes ar - sc) c)"
  have "bytes \<le> ar_slice_bytes ar - sc" by (simp add: bytes_def split: option.split)
  then have B: "unat bytes \<le> unat (ar_slice_bytes ar) - unat sc"
    using S(2) by (simp add: word_le_nat_alt unat_sub)
  define n :: u32 where "n = ucast (bytes div ucast kMaxChunkValueBytes)"
  have "unat (bytes div ucast kMaxChunkValueBytes) = unat bytes div 4288" by (simp add: unat_div)
  moreover have "unat bytes div 4288 < 4294967296" using B S(1) by (simp add: less_mult_imp_div_less)
  ultimately have n: "unat n = unat bytes div 4288" by (simp add: n_def unat_u64_to_u32)
  have fit: "unat sc + unat n * 4288 \<le> unat (ar_slice_bytes ar)"
    using B S(2) div_times_less_eq_dividend [of "unat bytes" 4288] unfolding n by linarith
  have off: "unat (ucast sc :: u32) = unat sc" using assms(3) by (intro unat_u64_to_u32) simp
  show ?thesis
    using assms(5,6) sum cross fit off split_address [of "addr + off"]
    by (auto simp: map_pool_def noc wp_rules Let_def control_view_def bytes_def [symmetric] n_def [symmetric] unat_low_word)
qed


lemma worker_slice:
  assumes "arena_ok ar" and "g < ar_worker_groups ar"
  shows "unat (ar_slice_bytes ar * ucast g) = unat (ar_slice_bytes ar) * unat g"
    and "unat (ar_slice_bytes ar) * unat g + unat (ar_slice_bytes ar) \<le> unat (ar_mapping_bytes ar)"
proof -
  have "unat (ar_slice_bytes ar) * (unat g + 1) \<le> unat (ar_slice_bytes ar) * unat (ar_worker_groups ar)"
    using assms(2) by (intro mult_le_mono2) (simp add: word_less_nat_alt)
  also have "\<dots> \<le> unat (ar_mapping_bytes ar)" using assms(1) by (simp add: arena_ok_def)
  finally show le: "unat (ar_slice_bytes ar) * unat g + unat (ar_slice_bytes ar) \<le> unat (ar_mapping_bytes ar)"
    by (simp add: algebra_simps)
  show "unat (ar_slice_bytes ar * ucast g) = unat (ar_slice_bytes ar) * unat g"
    using le unat_less_64 [of "ar_mapping_bytes ar"] by (subst unat_mult_64) simp_all
qed

definition stage_unreserved :: "'z stage_state_scheme \<Rightarrow> bool" where
  "stage_unreserved s \<longleftrightarrow> host_values s = [] \<and> \<not> pool_mapped s \<and> pool_free s = [] \<and> pool_units_total s = 0
     \<and> arenas_ok (shared_host_arenas s)"

lemma lock_arena_wp:
  fixes s :: "'z stage_state_scheme"
  assumes "arenas_ok (shared_host_arenas s)" and "g \<noteq> 0" and "unat sc < 2 ^ 32"
  shows "wp (lock_arena rq g sc)
    (\<lambda>ar t. arena_ok ar \<and> ar_worker_groups ar = g \<and> ar_stage_and_control_bytes ar = sc
       \<and> (\<exists>reg. t = s\<lparr>shared_host_arenas := reg, stage_arena := Some ar\<rparr> \<and> arenas_ok reg
            \<and> reg (sr_submesh rq) = Some ar))
    (\<lambda>_ t. arenas_ok (shared_host_arenas t) \<and> pool_mapped t = pool_mapped s \<and> pool_free t = pool_free s) s"
proof -
  obtain x reg where a: "attach_arena (sr_arena rq) (sr_submesh rq) (g, sc) (shared_host_arenas s) = (x, reg)"
    by (cases "attach_arena (sr_arena rq) (sr_submesh rq) (g, sc) (shared_host_arenas s)")
  show ?thesis
    using attach_arena_ok [OF a assms] by (cases x) (auto simp: lock_arena_def a wp_rules)
qed

lemma control_layout_updates [simp]:
  "control_layout n sc (shared_host_arenas_update f s) = control_layout n sc s"
  "control_layout n sc (stage_arena_update f1 s) = control_layout n sc s"
  "control_layout n sc (stage_slice_offset_update f2 s) = control_layout n sc s"
  "control_layout n sc (stage_completion_word_update f3 s) = control_layout n sc s"
  "control_layout n sc (get_completion_word_update f3 s) = control_layout n sc s"
  "control_layout n sc (get_ingress_generation_update f3 s) = control_layout n sc s"
  "control_layout n sc (meta_mapped_update f4 s) = control_layout n sc s"
  "control_layout n sc (pool_meta_update f5 s) = control_layout n sc s"
  "control_layout n sc (stage_noc_ok_update f4 s) = control_layout n sc s"
  "control_layout n sc (mapped_completion_enabled_update f4 s) = control_layout n sc s"
  "control_layout n sc (ingress_enabled_update f4 s) = control_layout n sc s"
  "control_layout n sc (admission_enabled_update f4 s) = control_layout n sc s"
  by (simp_all add: control_layout_def)

lemma control_layout_view: "control_view t = control_view s \<Longrightarrow> control_layout n sc t = control_layout n sc s"
  by (simp add: control_layout_def control_view_def)

lemma reserve_slice_wp:
  fixes s :: "'z stage_state_scheme"
  assumes "stage_arena s = Some ar" and "arena_ok ar" and "ar_stage_and_control_bytes ar = sc"
    and "control_layout (sr_max_value_bytes rq) sc s" and "shared_host_arenas s (sr_submesh rq) = Some ar"
    and "arenas_ok (shared_host_arenas s)" and "sr_worker_group rq < ar_worker_groups ar"
    and "host_values s = []" and "\<not> pool_mapped s" and "pool_free s = []" and "pool_units_total s = 0"
  shows "wp (reserve_slice rq cap ar sc)
    (\<lambda>_ t. arenas_ok (shared_host_arenas t) \<and> slice_layout rq t \<and> host_ok {#} t)
    (\<lambda>_ t. arenas_ok (shared_host_arenas t) \<and> \<not> pool_mapped t \<and> pool_free t = []) s"
proof -
  define off where "off = ar_slice_bytes ar * ucast (sr_worker_group rq)"
  have off: "unat off = unat (ar_slice_bytes ar) * unat (sr_worker_group rq)"
      "unat off + unat (ar_slice_bytes ar) \<le> unat (ar_mapping_bytes ar)"
    using worker_slice [OF assms(2,7)] by (simp_all add: off_def)
  have sc: "unat sc < 2 ^ 32" "sc \<le> ar_slice_bytes ar"
    using assms(2,3,4) by (auto simp: control_layout_def arena_ok_def)
  have fin: "slice_layout rq t \<and> host_ok {#} t"
    if c: "stage_arena t = Some ar" "shared_host_arenas t = shared_host_arenas s" "host_values t = []"
        "control_layout (sr_max_value_bytes rq) sc t" "stage_slice_offset t = off"
      and p: "if pool_mapped t then stage_noc_ok t \<and> pool_slice_offset t = sc \<and> unat (pool_read_off t) = unat sc
            \<and> pool_units_total t \<noteq> 0 \<and> pool_free t = [(0, pool_units_total t)]
            \<and> unat sc + unat (pool_units_total t) * 4288 \<le> unat (ar_slice_bytes ar)
          else pool_free t = [] \<and> pool_units_total t = 0"
      and n: "stage_noc_ok t \<longrightarrow> (\<exists>addr enc. sr_noc rq = Some (addr, enc)
          \<and> unat addr + unat off = unat (stage_addr_hi t) * 2 ^ 32 + unat (stage_addr_lo t)
          \<and> unat (stage_addr_lo t) + unat (ar_slice_bytes ar) \<le> 2 ^ 32)"
    for t :: "'z stage_state_scheme"
  proof
    show "slice_layout rq t"
      unfolding slice_layout_def using c p n off sc(2) assms(3,5) by (intro exI [of _ ar]) auto
    have "pool_free t = (if pool_units_total t = 0 then [] else [(0, pool_units_total t)])"
      using p by (auto split: if_splits)
    then show "host_ok {#} t" using c(3) by (simp add: host_ok_def fresh_pool_partitions)
  qed
  define u where "u = snd (seqE (clear_control (sr_counter rq) off) (select_workers rq) s)"
  have u: "stage_arena u = Some ar" "shared_host_arenas u = shared_host_arenas s" "host_values u = []"
      "control_layout (sr_max_value_bytes rq) sc u" "stage_slice_offset u = off" "\<not> pool_mapped u"
      "pool_free u = []" "pool_units_total u = 0" "stage_noc_ok u \<longrightarrow> sr_noc rq \<noteq> None"
    using assms by (simp_all add: u_def clear_control_def select_workers_def io_defs)
  have run: "wp (clear_control (sr_counter rq) off) (\<lambda>_. wp (select_workers rq) (\<lambda>_. Q) E) E s = Q u" for Q E
    by (simp add: u_def clear_control_def select_workers_def io_defs wp_def)
  show ?thesis
  proof (cases "stage_noc_ok u")
    case False
    then show ?thesis
      using fin [of u] u assms
      by (simp add: reserve_slice_def Let_def off_def [symmetric] wp_check wp_gets [abs_def] wp_whenE
          wp_seqE [abs_def] wp_bindE [abs_def] run)
  next
    case True
    have "wp (map_pool rq cap ar off sc)
        (\<lambda>_ t. arenas_ok (shared_host_arenas t) \<and> slice_layout rq t \<and> host_ok {#} t)
        (\<lambda>_ t. arenas_ok (shared_host_arenas t) \<and> \<not> pool_mapped t \<and> pool_free t = []) u"
    proof (rule wp_mono [OF map_pool_wp [OF u(1) assms(2) sc(1) assms(3) u(7,6) True u(5)]], goal_cases)
      case 1
      then show ?case using u(9) True by simp
    next
      case (2 x t)
      then have v: "control_view t = control_view u" by simp
      then have "stage_noc_ok t" using True by (simp add: control_view_def)
      then have "slice_layout rq t \<and> host_ok {#} t"
        using 2 u control_layout_view [OF v] by (intro fin) (auto simp: control_view_def split: if_splits)
      then show ?case using v u(2) assms(6) by (simp add: control_view_def)
    next
      case (3 e t)
      then show ?case using u(2) assms(6) by simp
    qed
    then show ?thesis
      using True u assms
      by (simp add: reserve_slice_def Let_def off_def [symmetric] wp_check wp_gets [abs_def] wp_whenE
          wp_seqE [abs_def] wp_bindE [abs_def] run)
  qed
qed

lemma reserve_stage_buffer_wp:
  fixes s :: "'z stage_state_scheme"
  assumes "stage_unreserved s" and "sr_max_value_bytes rq \<le> kMaxChunkAlignedValueBytes" and "worker_group_ok rq"
  shows "wp (reserve_stage_buffer rq)
    (\<lambda>_ t. arenas_ok (shared_host_arenas t) \<and> slice_layout rq t \<and> host_ok {#} t)
    (\<lambda>_ t. arenas_ok (shared_host_arenas t) \<and> \<not> pool_mapped t \<and> pool_free t = []) s"
proof -
  let ?groups = "if sr_static rq then configured_server_worker_groups (sr_shards rq) else Inr 1"
  have s: "host_values s = []" "\<not> pool_mapped s" "pool_free s = []" "pool_units_total s = 0"
      "arenas_ok (shared_host_arenas s)"
    using assms(1) by (simp_all add: stage_unreserved_def)
  have locked: "wp (bindE (lock_arena rq g sc) (\<lambda>ar. reserve_slice rq cap ar sc))
      (\<lambda>_ t. arenas_ok (shared_host_arenas t) \<and> slice_layout rq t \<and> host_ok {#} t)
      (\<lambda>_ t. arenas_ok (shared_host_arenas t) \<and> \<not> pool_mapped t \<and> pool_free t = []) u"
    if u: "control_layout (sr_max_value_bytes rq) sc u" "pool_view u = pool_view s" and g: "?groups = Inr g"
    for u :: "'z stage_state_scheme" and sc g cap
    unfolding wp_bindE
  proof (rule wp_mono [OF lock_arena_wp], goal_cases)
    case 1
    then show ?case using u s by (simp add: pool_view_def)
  next
    case 2
    then show ?case by (rule worker_groups_positive [OF g])
  next
    case 3
    then show ?case using u by (simp add: control_layout_def)
  next
    case (4 ar t)
    then show ?case
      using u s assms(3) g by (intro reserve_slice_wp) (auto simp: pool_view_def worker_group_ok_def split: if_splits)
  next
    case (5 e t)
    then show ?case using u s by (auto simp: pool_view_def)
  qed
  have planned: "wp (plan_stage (sr_max_value_bytes rq))
      (\<lambda>sc. wp (seqE (check (sr_device rq) (Fatal ''reserve_stage_buffer: server_submesh has no chip at (0,0)''))
             (bindE (lift_sum ?groups) (\<lambda>g. bindE (lock_arena rq g sc) (\<lambda>ar. reserve_slice rq cap ar sc))))
         (\<lambda>_ t. arenas_ok (shared_host_arenas t) \<and> slice_layout rq t \<and> host_ok {#} t)
         (\<lambda>_ t. arenas_ok (shared_host_arenas t) \<and> \<not> pool_mapped t \<and> pool_free t = []))
      (\<lambda>_ t. arenas_ok (shared_host_arenas t) \<and> \<not> pool_mapped t \<and> pool_free t = []) s" for cap
  proof (rule wp_mono [OF plan_stage_wp [OF assms(2)]], goal_cases)
    case (1 sc u)
    then show ?case
      using s locked [of sc u] by (cases ?groups) (auto simp: wp_seqE wp_check wp_bindE [of "lift_sum x" for x] wp_lift_sum pool_view_def)
  next
    case (2 e t)
    then show ?case using s by (simp add: pool_view_def)
  qed
  show ?thesis
    using s planned by (auto simp: reserve_stage_buffer_def wp_bindE wp_lift_sum split: sum.split)
qed

text \<open>
  C39: the slice of a server is laid out safely. For a server whose worker group passed the checks of
  the constructor, whatever the host answers: a reservation that throws leaves no pool and keeps the
  endpoint's arenas well-formed; one that returns holds the endpoint's arena, its slice lies inside the
  mapping, holds the largest value and then, end to end, the completion words, the descriptors and the
  metadata of every key; the device can add any offset of the slice to the low half of its address
  without a carry; and the pool is the free units behind the control region, all inside the slice.
\<close>

theorem reserve_stage_buffer_layout:
  fixes s :: "'z stage_state_scheme"
  assumes "stage_unreserved s" and "sr_max_value_bytes rq \<le> kMaxChunkAlignedValueBytes" and "worker_group_ok rq"
  shows "case reserve_stage_buffer rq s of
      (Inl e, t) \<Rightarrow> arenas_ok (shared_host_arenas t) \<and> \<not> pool_mapped t \<and> pool_free t = []
    | (Inr u, t) \<Rightarrow> arenas_ok (shared_host_arenas t) \<and> slice_layout rq t \<and> host_ok {#} t"
  using reserve_stage_buffer_wp [OF assms] by (simp add: wp_def split: prod.splits sum.splits)

definition demo_stage :: "u32 \<Rightarrow> stage_request" where
  "demo_stage g = \<lparr>sr_host_pool = Inr None, sr_shards = Inr (Some 2), sr_static = True, sr_submesh = 7,
     sr_worker_group = g, sr_max_value_bytes = 10000, sr_device = True,
     sr_arena = \<lparr>aa_hugepage = True, aa_shared_memory = None, aa_pin = (\<lambda>_. None)\<rparr>,
     sr_noc = Some (0x800000000, 5), sr_usable = True, sr_grid_x = 8, sr_grid_y = 8, sr_counter = 3\<rparr>"

definition demo_unstaged :: stage_state where
  "demo_unstaged = \<lparr>pool_mapped = False, pool_units_total = 0, pool_free = [], meta_mapped = False, max_keys = 16,
     pool_meta = (\<lambda>_ _. 0), pool_meta_generations = (\<lambda>_. 0), host_values = [], pool_mem = (\<lambda>_. 0), pool_read_off = 0,
     stage_mem = (\<lambda>_. 0), stage_bytes = 0, stage_noc_ok = False, heap_dram = (\<lambda>_ _. 0), events = [],
     stage_completion_offset = 0, get_completion_offset = 0, get_ingress_offset = 0, pool_meta_read_off = 0,
     stage_arena = None, stage_slice_offset = 0, pool_slice_offset = 0, stage_completion_word = 0,
     get_completion_word = 0, get_ingress_generation = 0, stage_pcie_xy_enc = 0, stage_addr_lo = 0, stage_addr_hi = 0,
     mapped_completion_enabled = True, ingress_enabled = True, admission_enabled = True,
     shared_host_arenas = (\<lambda>_. None)\<rparr>"

lemma demo_stage_ok:
  "stage_unreserved demo_unstaged" "sr_max_value_bytes (demo_stage g) \<le> kMaxChunkAlignedValueBytes"
  "g < 2 \<Longrightarrow> worker_group_ok (demo_stage g)"
  by (simp_all add: stage_unreserved_def demo_unstaged_def arenas_ok_def demo_stage_def kMaxChunkAlignedValueBytes_eq
      worker_group_ok_def configured_server_worker_groups_def env_or_def)

lemmas stage_defs = reserve_stage_buffer_def plan_stage_def lock_arena_def reserve_slice_def clear_control_def
  select_workers_def map_pool_def io_defs lift_sum_def parse_host_pool_bytes_def configured_server_worker_groups_def
  env_or_def attach_arena_def attach_shared_def create_arena_for_def create_host_arena_def pin_arena_def
  page_align_down_def kHugePage_def kSystemPage_def arena_layout_def chunk_aligned_value_bytes_def chunk_count_for_def
  kMaxChunkValueBytes_eq kPromoteHostCompletionBytes_def kGetHostCompletionBytes_def kGetIngressHostBytes_def
  kHostPoolMetaBytes_def Let_def

lemma demo_stage_runs:
  "fst (reserve_stage_buffer (demo_stage 1) demo_unstaged) = Inr ()"
  "pool_units_total (snd (reserve_stage_buffer (demo_stage 1) demo_unstaged)) = 125199"
  by (simp_all add: stage_defs demo_stage_def demo_unstaged_def)

theorem reserve_stage_buffer_layout_witness:
  "case reserve_stage_buffer (demo_stage 1) demo_unstaged of
      (Inl e, t) \<Rightarrow> False
    | (Inr u, t) \<Rightarrow> pool_units_total t = 125199 \<and> slice_layout (demo_stage 1) t \<and> host_ok {#} t"
  using reserve_stage_buffer_layout [OF demo_stage_ok(1,2) demo_stage_ok(3) [of 1]] demo_stage_runs
  by (auto split: prod.splits sum.splits)

section \<open>Two servers on one endpoint\<close>

lemma reserve_keeps_arenas:
  fixes s :: "'z stage_state_scheme"
  shows "wp (reserve_stage_buffer rq)
     (\<lambda>_ t. \<forall>k ar. shared_host_arenas s k = Some ar \<longrightarrow> shared_host_arenas t k = Some ar) (\<lambda>_ _. True) s"
proof -
  let ?R = "\<lambda>t. \<forall>k ar. shared_host_arenas s k = Some ar \<longrightarrow> shared_host_arenas t k = Some ar"
  have p: "keeps shared_host_arenas (plan_stage n :: ('z stage_state_scheme, u64) io)" for n
    unfolding plan_stage_def by (intro frame_rules) simp_all
  have r: "keeps shared_host_arenas (reserve_slice rq cap ar sc :: ('z stage_state_scheme, unit) io)" for cap ar sc
    unfolding reserve_slice_def clear_control_def select_workers_def map_pool_def
    by (intro frame_rules; simp)
  have l: "wp (bindE (lock_arena rq g sc) (\<lambda>ar. reserve_slice rq cap ar sc)) (\<lambda>_. ?R) (\<lambda>_ _. True) u"
    if u: "shared_host_arenas u = shared_host_arenas s" for u :: "'z stage_state_scheme" and g sc cap
  proof -
    have "wp (lock_arena rq g sc) (\<lambda>ar t. ?R t) (\<lambda>_ _. True) u"
      using u arenas.attach_keeps [of "sr_arena rq" "sr_submesh rq" "(g, sc)" "shared_host_arenas s"]
      by (auto simp: lock_arena_def wp_rules split: prod.split sum.split)
    then show ?thesis
      unfolding wp_bindE by (rule wp_mono) (auto intro!: wp_keeps [OF r])
  qed
  have "wp (plan_stage n) (\<lambda>sc. wp (seqE (check (sr_device rq) e) (bindE (lift_sum gs) (\<lambda>g.
      bindE (lock_arena rq g sc) (\<lambda>ar. reserve_slice rq cap ar sc)))) (\<lambda>_. ?R) (\<lambda>_ _. True)) (\<lambda>_ _. True) s" for n e gs cap
    using l by (intro wp_keeps [OF p])
      (simp_all add: wp_seqE wp_check wp_bindE [of "lift_sum x" for x] wp_lift_sum split: sum.split)
  then show ?thesis
    by (auto simp: reserve_stage_buffer_def wp_bindE wp_lift_sum split: sum.split)
qed

text \<open>
  Servers of one endpoint share one arena and never each other's slice. A server attaches, then any
  servers attach to or leave any arenas without this one expiring, then a second worker group of the
  same submesh attaches: it gets the same arena, with the same layout, and the two slices have no byte
  in common.
\<close>

theorem slices_disjoint:
  fixes s s' :: "'z stage_state_scheme"
  assumes "stage_unreserved s" and "sr_max_value_bytes rq \<le> kMaxChunkAlignedValueBytes" and "worker_group_ok rq"
    and "stage_unreserved s'" and "sr_max_value_bytes rq' \<le> kMaxChunkAlignedValueBytes" and "worker_group_ok rq'"
    and "reserve_stage_buffer rq s = (Inr (), t)" and "reserve_stage_buffer rq' s' = (Inr (), t')"
    and "shared_host_arenas s' = fold (share attach_arena) es (shared_host_arenas t)"
    and "Expire (sr_submesh rq) \<notin> set es" and "sr_submesh rq' = sr_submesh rq"
    and "sr_worker_group rq' \<noteq> sr_worker_group rq"
  shows "\<exists>ar. stage_arena t = Some ar \<and> stage_arena t' = Some ar
    \<and> {unat (stage_slice_offset t) ..< unat (stage_slice_offset t) + unat (ar_slice_bytes ar)}
      \<inter> {unat (stage_slice_offset t') ..< unat (stage_slice_offset t') + unat (ar_slice_bytes ar)} = {}"
proof -
  have "slice_layout rq t" using wp_returnD [OF reserve_stage_buffer_wp [OF assms(1-3)] assms(7)] by simp
  then obtain ar where ar: "stage_arena t = Some ar" "shared_host_arenas t (sr_submesh rq) = Some ar"
      "unat (stage_slice_offset t) = unat (ar_slice_bytes ar) * unat (sr_worker_group rq)"
    by (auto simp: slice_layout_def)
  have "slice_layout rq' t'" using wp_returnD [OF reserve_stage_buffer_wp [OF assms(4-6)] assms(8)] by simp
  then obtain ar' where ar': "stage_arena t' = Some ar'" "shared_host_arenas t' (sr_submesh rq) = Some ar'"
      "unat (stage_slice_offset t') = unat (ar_slice_bytes ar') * unat (sr_worker_group rq')"
    using assms(11) by (auto simp: slice_layout_def)
  have "shared_host_arenas s' (sr_submesh rq) = Some ar"
    unfolding assms(9) using ar(2) assms(10) by (rule arenas.share_keeps)
  then have "shared_host_arenas t' (sr_submesh rq) = Some ar"
    using wp_returnD [OF reserve_keeps_arenas assms(8)] by blast
  then have same: "ar' = ar" using ar'(2) by simp
  have apart: "{b * g ..< b * g + b} \<inter> {b * g' ..< b * g' + b} = {}" if "g < g'" for b g g' :: nat
  proof -
    have "b * g + b \<le> b * g'" using mult_le_mono2 [of "Suc g" g' b] that by simp
    then show ?thesis by auto
  qed
  have "unat (sr_worker_group rq') \<noteq> unat (sr_worker_group rq)"
    using assms(12) by (simp add: word_unat_eq_iff)
  then consider "unat (sr_worker_group rq) < unat (sr_worker_group rq')"
    | "unat (sr_worker_group rq') < unat (sr_worker_group rq)" by linarith
  then have "{unat (stage_slice_offset t) ..< unat (stage_slice_offset t) + unat (ar_slice_bytes ar)}
      \<inter> {unat (stage_slice_offset t') ..< unat (stage_slice_offset t') + unat (ar_slice_bytes ar)} = {}"
  proof cases
    case 1
    then show ?thesis unfolding ar(3) ar'(3) same by (rule apart)
  next
    case 2
    then show ?thesis unfolding ar(3) ar'(3) same by (subst Int_commute) (rule apart)
  qed
  then show ?thesis using ar(1) ar'(1) same by blast
qed

definition demo_joining :: stage_state where
  "demo_joining = demo_unstaged
     \<lparr>shared_host_arenas := shared_host_arenas (snd (reserve_stage_buffer (demo_stage 1) demo_unstaged))\<rparr>"

lemma demo_joining_ok: "stage_unreserved demo_joining"
proof -
  have "arenas_ok (shared_host_arenas (snd (reserve_stage_buffer (demo_stage 1) demo_unstaged)))"
    using reserve_stage_buffer_wp [OF demo_stage_ok(1,2) demo_stage_ok(3) [of 1]]
    by (auto simp: wp_def split: prod.splits sum.splits)
  then show ?thesis by (simp add: demo_joining_def stage_unreserved_def demo_unstaged_def)
qed

lemma demo_joining_runs: "fst (reserve_stage_buffer (demo_stage 0) demo_joining) = Inr ()"
  by (simp add: stage_defs demo_stage_def demo_joining_def demo_unstaged_def)

theorem slices_disjoint_witness:
  "\<exists>t t' ar. reserve_stage_buffer (demo_stage 1) demo_unstaged = (Inr (), t)
    \<and> reserve_stage_buffer (demo_stage 0) demo_joining = (Inr (), t')
    \<and> stage_arena t = Some ar \<and> stage_arena t' = Some ar
    \<and> {unat (stage_slice_offset t) ..< unat (stage_slice_offset t) + unat (ar_slice_bytes ar)}
      \<inter> {unat (stage_slice_offset t') ..< unat (stage_slice_offset t') + unat (ar_slice_bytes ar)} = {}"
proof -
  obtain t t' where t: "reserve_stage_buffer (demo_stage 1) demo_unstaged = (Inr (), t)"
      "reserve_stage_buffer (demo_stage 0) demo_joining = (Inr (), t')"
    using demo_stage_runs(1) demo_joining_runs by (metis (full_types) prod.collapse)
  have "shared_host_arenas demo_joining = fold (share attach_arena) [] (shared_host_arenas t)"
    by (simp add: demo_joining_def t(1))
  then show ?thesis
    using t slices_disjoint [OF demo_stage_ok(1,2) demo_stage_ok(3) [of 1] demo_joining_ok demo_stage_ok(2)
        demo_stage_ok(3) [of 0] t, of "[]"]
    by (auto simp: demo_stage_def)
qed

end
