(* ===== verification/Server_Layout.thy ===== *)
theory Server_Layout
  imports Server_Config Tiering_Worker
begin

text \<open>
  The L1 carve-out of the server core. \<open>server_pipeline_end\<close> of the protocol header is the size that
  \<^verbatim>\<open>reserve_l1\<close> reserves; \<open>plan_server_l1\<close> is the derivation of the runtime offsets in
  \<^verbatim>\<open>ServerRuntimeCore::prepare_server_kernel\<close> (\<^verbatim>\<open>server_program.cpp\<close>) with every check it makes.
  The two are written separately in the source; the property says that they agree.
\<close>

section \<open>Sizes of the protocol\<close>

definition kTerminationOffset :: u32 where "kTerminationOffset = 0"
definition kMaxClients :: u32 where "kMaxClients = 32"
definition kBootstrapPeerSlots :: u32 where "kBootstrapPeerSlots = 32"
definition kBootstrapRequestBaseOffset :: u32 where "kBootstrapRequestBaseOffset = 16"
definition kBootstrapRequestSemBaseOffset :: u32 where
  "kBootstrapRequestSemBaseOffset = kBootstrapRequestBaseOffset + kBootstrapPeerSlots * 128"
definition kBootstrapResponseTemplateOffset :: u32 where
  "kBootstrapResponseTemplateOffset = kBootstrapRequestSemBaseOffset + kBootstrapPeerSlots * 16"
definition kBootstrapRegionEnd :: u32 where "kBootstrapRegionEnd = kBootstrapResponseTemplateOffset + 128"
definition kRingSlotStride :: u32 where "kRingSlotStride = kFabricMaxPayloadBytes"
definition kRingBaseOffset :: u32 where "kRingBaseOffset = kBootstrapRegionEnd"
definition kRingSemSize :: u32 where "kRingSemSize = 16"
definition kRegistryTableSize :: u32 where "kRegistryTableSize = 64 * kMaxClients"
definition kPeerLookupTableSize :: u32 where "kPeerLookupTableSize = 32 * 8"
definition kHostAnyGetDoneMonitorSize :: u32 where "kHostAnyGetDoneMonitorSize = 16"
definition kGetCreditSemSize :: u32 where "kGetCreditSemSize = 16"
definition kPutDirectDoneSemSize :: u32 where "kPutDirectDoneSemSize = 16"
definition kPutDirectDoneRegionRaw :: u32 where
  "kPutDirectDoneRegionRaw = kPutDirectDoneSemSize * (kMaxClients + 1)"
definition kPutDirectDoneRegionBytes :: u32 where
  "kPutDirectDoneRegionBytes =
     (if kPutDirectDoneRegionRaw mod 32 = 16 then kPutDirectDoneRegionRaw else kPutDirectDoneRegionRaw + 16)"
definition kPutReadbackScratchSize :: u32 where "kPutReadbackScratchSize = 32"
definition kPutCommitIssuedSemSize :: u32 where "kPutCommitIssuedSemSize = 16"
definition kPutCommitDoneSemSize :: u32 where "kPutCommitDoneSemSize = 16"
definition kPutCommitCounterRegionSize :: u32 where
  "kPutCommitCounterRegionSize = kPutCommitIssuedSemSize + kPutCommitDoneSemSize"
definition kDirScanStagingSize :: u32 where "kDirScanStagingSize = 16 * dir_entry_bytes kMaxPutKeyBytes"
definition kDirReqMailboxSize :: u32 where "kDirReqMailboxSize = and ((32 + kMaxPutKeyBytes) + 31) (not 31)"
definition kDirRespMailboxSize :: u32 where "kDirRespMailboxSize = 32"
definition kDirReqSemSize :: u32 where "kDirReqSemSize = 16"
definition kDirDoneSemSize :: u32 where "kDirDoneSemSize = 16"
definition kDirEpochCounterSize :: u32 where "kDirEpochCounterSize = 16"
definition kDirCommitEntryStagingSize :: u32 where "kDirCommitEntryStagingSize = dir_entry_bytes kMaxPutKeyBytes"
definition kDirRegionL1Size :: u32 where
  "kDirRegionL1Size = 32 + kDirScanStagingSize + kDirReqMailboxSize + kDirRespMailboxSize + kDirReqSemSize
     + kDirDoneSemSize + kDirEpochCounterSize + kDirCommitEntryStagingSize"
definition kHeapAllocatorStateSize :: u32 where "kHeapAllocatorStateSize = (4 + 32) * 4"
definition kMoveReqSlotBytes :: u32 where
  "kMoveReqSlotBytes = and (of_nat kMoveReqHeaderBytes + kMaxPutKeyBytes + 31) (not 31)"
definition kCommitReqSemSize :: u32 where "kCommitReqSemSize = 16"
definition kMoveProcessedSemSize :: u32 where "kMoveProcessedSemSize = 16"
definition kStageProgressSize :: u32 where "kStageProgressSize = 16"
definition kPromoteDoneSemSize :: u32 where "kPromoteDoneSemSize = 16"
definition kEvictAckSemSize :: u32 where "kEvictAckSemSize = 16"
definition kEvictAckSize :: u32 where "kEvictAckSize = 16"
definition kEvictDoneSemSize :: u32 where "kEvictDoneSemSize = 16"
definition kMoveChannelsL1Size :: u32 where
  "kMoveChannelsL1Size = of_nat kMoveReqSemSize + kMoveReqSlotBytes + kCommitReqSemSize + of_nat kCommitReqSlotBytes
     + kMoveProcessedSemSize + kStageProgressSize + kPromoteDoneSemSize + kEvictAckSemSize + kEvictAckSize
     + kEvictDoneSemSize"
definition kHashBucketBytes :: u32 where "kHashBucketBytes = 32"
definition kHashProbeStagingSize :: u32 where "kHashProbeStagingSize = kHashBucketBytes"
definition kHeapMetadataEntryBytes :: u32 where "kHeapMetadataEntryBytes = kHashBucketBytes"
definition kHeapMetadataStagingSize :: u32 where "kHeapMetadataStagingSize = 2 * kHeapMetadataEntryBytes"
definition kColdStartDoneSize :: u32 where "kColdStartDoneSize = 16"
definition kAllocatorProfileSize :: u32 where "kAllocatorProfileSize = 16 * 4"

lemmas layout_sizes = kTerminationOffset_def kMaxClients_def kBootstrapPeerSlots_def kBootstrapRequestBaseOffset_def
  kBootstrapRequestSemBaseOffset_def kBootstrapResponseTemplateOffset_def kBootstrapRegionEnd_def
  kRingSlotStride_def kFabricMaxPayloadBytes_def kRingBaseOffset_def kRingSemSize_def kRegistryTableSize_def
  kPeerLookupTableSize_def kHostAnyGetDoneMonitorSize_def kGetCreditSemSize_def kPutDirectDoneSemSize_def
  kPutDirectDoneRegionRaw_def kPutDirectDoneRegionBytes_def kPutReadbackScratchSize_def kPutCommitIssuedSemSize_def
  kPutCommitDoneSemSize_def kPutCommitCounterRegionSize_def kDirScanStagingSize_def kDirReqMailboxSize_def
  kDirRespMailboxSize_def kDirReqSemSize_def kDirDoneSemSize_def kDirEpochCounterSize_def
  kDirCommitEntryStagingSize_def kDirRegionL1Size_def kHeapAllocatorStateSize_def kMoveReqSlotBytes_def
  kCommitReqSemSize_def kMoveProcessedSemSize_def kStageProgressSize_def kPromoteDoneSemSize_def kEvictAckSemSize_def
  kEvictAckSize_def kEvictDoneSemSize_def kMoveChannelsL1Size_def kHashBucketBytes_def kHashProbeStagingSize_def
  kHeapMetadataEntryBytes_def kHeapMetadataStagingSize_def kColdStartDoneSize_def kAllocatorProfileSize_def
  kMoveReqHeaderBytes_def kMoveReqSemSize_def kCommitReqSlotBytes_def kMaxPutKeyBytes_def dir_entry_bytes_def
  kDirEntryHeaderBytes_def

section \<open>The footprint\<close>

definition server_ring_sem_base_offset :: "u64 \<Rightarrow> u64" where
  "server_ring_sem_base_offset ring_slots = ucast kRingBaseOffset + ring_slots * ucast kRingSlotStride"

definition server_registry_offset :: "u64 \<Rightarrow> u64" where
  "server_registry_offset ring_slots = server_ring_sem_base_offset ring_slots + ring_slots * ucast kRingSemSize"

definition server_peer_lookup_table_offset :: "u64 \<Rightarrow> u64" where
  "server_peer_lookup_table_offset ring_slots = server_registry_offset ring_slots + ucast kRegistryTableSize"

definition server_host_any_get_done_monitor_offset :: "u64 \<Rightarrow> u64" where
  "server_host_any_get_done_monitor_offset ring_slots =
     server_peer_lookup_table_offset ring_slots + ucast kPeerLookupTableSize"

definition server_get_credit_sem_offset :: "u64 \<Rightarrow> u64" where
  "server_get_credit_sem_offset ring_slots =
     server_host_any_get_done_monitor_offset ring_slots + ucast kHostAnyGetDoneMonitorSize"

definition server_fixed_prefix_end :: "u64 \<Rightarrow> u64" where
  "server_fixed_prefix_end ring_slots =
     ucast kRingBaseOffset + ring_slots * ucast kRingSlotStride + ring_slots * ucast kRingSemSize
     + ucast kRegistryTableSize + ucast kPeerLookupTableSize + ucast kHostAnyGetDoneMonitorSize
     + ucast kGetCreditSemSize"

definition server_pipeline_end :: "u64 \<Rightarrow> u64" where
  "server_pipeline_end ring_slots =
     (let put_end = server_fixed_prefix_end ring_slots + ucast kPutDirectDoneRegionBytes
                    + ucast kPutReadbackScratchSize + ucast kPutCommitCounterRegionSize
      in put_end + ucast kDirRegionL1Size + ucast kHeapAllocatorStateSize + ucast kMoveChannelsL1Size
         + ucast kHashProbeStagingSize + ucast kHeapMetadataStagingSize + ucast kColdStartDoneSize
         + ucast kAllocatorProfileSize)"

section \<open>The derivation\<close>

record l1_layout =
  termination_addr :: u32
  ring_sem_base_offset :: u32
  peer_lookup_table_offset :: u32
  host_any_get_done_monitor_offset :: u32
  get_credit_sem_offset :: u32
  direct_put_done_offset :: u32
  put_readback_scratch_offset :: u32
  commit_issued_offset :: u32
  commit_done_offset :: u32
  dir_scan_staging_offset :: u32
  dir_commit_entry_staging_offset :: u32
  dir_req_mailbox_offset :: u32
  dir_req_sem_offset :: u32
  dir_done_sem_offset :: u32
  dir_resp_mailbox_offset :: u32
  dir_epoch_counter_offset :: u32
  heap_allocator_offset :: u32
  move_req_sem_offset :: u32
  move_req_offset :: u32
  commit_req_sem_offset :: u32
  commit_req_offset :: u32
  move_processed_offset :: u32
  stage_progress_offset :: u32
  promote_done_offset :: u32
  evict_ack_sem_offset :: u32
  evict_ack_offset :: u32
  evict_done_offset :: u32
  hash_probe_staging_offset :: u32
  heap_metadata_staging_offset :: u32
  cold_start_done_offset :: u32
  allocator_profile_offset :: u32

definition checked_offset :: "u32 \<Rightarrow> string \<Rightarrow> u64 \<Rightarrow> fault + u32" where
  "checked_offset reserve_bytes name off =
     (if off \<le> ucast reserve_bytes then Inr (ucast off)
      else Inl (Fatal (name @ '' offset exceeds the validated server L1 reserve'')))"

text \<open>The offsets that do not depend on a check: everything from the direct-done counters on.\<close>

definition layout_behind :: "u32 \<Rightarrow> u32 \<Rightarrow> u32 \<Rightarrow> u32 \<Rightarrow> u32 \<Rightarrow> u32 \<Rightarrow> l1_layout" where
  "layout_behind l1_base ring_sem peer monitor credit direct =
     (let readback = direct + kPutDirectDoneRegionBytes;
          issued = readback + kPutReadbackScratchSize;
          committed = issued + kPutCommitIssuedSemSize;
          put_pipeline_end = committed + kPutCommitDoneSemSize;
          dir_abs = and ((l1_base + put_pipeline_end) + 31) (not 31);
          scan = dir_abs - l1_base;
          entry = scan + kDirScanStagingSize;
          mailbox = entry + kDirCommitEntryStagingSize;
          req_sem = mailbox + kDirReqMailboxSize;
          done_sem = req_sem + kDirReqSemSize;
          resp = done_sem + kDirDoneSemSize;
          epoch = resp + kDirRespMailboxSize;
          heap = epoch + kDirEpochCounterSize;
          move_sem = heap + kHeapAllocatorStateSize;
          move = move_sem + of_nat kMoveReqSemSize;
          commit_sem = move + kMoveReqSlotBytes;
          commit = commit_sem + kCommitReqSemSize;
          processed = commit + of_nat kCommitReqSlotBytes;
          progress = processed + kMoveProcessedSemSize;
          promote = progress + kStageProgressSize;
          ack_sem = promote + kPromoteDoneSemSize;
          ack = ack_sem + kEvictAckSemSize;
          evict = ack + kEvictAckSize;
          probe = evict + kEvictDoneSemSize;
          metadata = probe + kHashProbeStagingSize;
          cold = metadata + kHeapMetadataStagingSize
      in \<lparr>termination_addr = l1_base + kTerminationOffset, ring_sem_base_offset = ring_sem,
          peer_lookup_table_offset = peer, host_any_get_done_monitor_offset = monitor,
          get_credit_sem_offset = credit, direct_put_done_offset = direct, put_readback_scratch_offset = readback,
          commit_issued_offset = issued, commit_done_offset = committed, dir_scan_staging_offset = scan,
          dir_commit_entry_staging_offset = entry, dir_req_mailbox_offset = mailbox, dir_req_sem_offset = req_sem,
          dir_done_sem_offset = done_sem, dir_resp_mailbox_offset = resp, dir_epoch_counter_offset = epoch,
          heap_allocator_offset = heap, move_req_sem_offset = move_sem, move_req_offset = move,
          commit_req_sem_offset = commit_sem, commit_req_offset = commit, move_processed_offset = processed,
          stage_progress_offset = progress, promote_done_offset = promote, evict_ack_sem_offset = ack_sem,
          evict_ack_offset = ack, evict_done_offset = evict, hash_probe_staging_offset = probe,
          heap_metadata_staging_offset = metadata, cold_start_done_offset = cold,
          allocator_profile_offset = cold + kColdStartDoneSize\<rparr>)"

definition plan_server_l1 :: "u32 \<Rightarrow> u32 \<Rightarrow> u32 \<Rightarrow> fault + l1_layout" where
  "plan_server_l1 l1_base reserve_bytes ring_slots =
     (let slots = ucast ring_slots in
      case checked_offset reserve_bytes ''ring_sem_base'' (server_ring_sem_base_offset slots) of
        Inl e \<Rightarrow> Inl e
      | Inr ring_sem \<Rightarrow>
      case checked_offset reserve_bytes ''peer_lookup_table'' (server_peer_lookup_table_offset slots) of
        Inl e \<Rightarrow> Inl e
      | Inr peer \<Rightarrow>
      case checked_offset reserve_bytes ''host_any_get_done_monitor'' (server_host_any_get_done_monitor_offset slots) of
        Inl e \<Rightarrow> Inl e
      | Inr monitor \<Rightarrow>
      case checked_offset reserve_bytes ''get_credit_sem'' (server_get_credit_sem_offset slots) of
        Inl e \<Rightarrow> Inl e
      | Inr credit \<Rightarrow>
      case checked_offset reserve_bytes ''direct_put_done'' (server_fixed_prefix_end slots) of
        Inl e \<Rightarrow> Inl e
      | Inr direct \<Rightarrow>
        (let l = layout_behind l1_base ring_sem peer monitor credit direct in
         case first_fault
           [((l1_base + put_readback_scratch_offset l) mod 32 = 0,
               Fatal ''put_readback_scratch absolute L1 addr not 32-aligned''),
            (allocator_profile_offset l + kAllocatorProfileSize \<le> reserve_bytes,
               Fatal ''PUT+directory+buddy+move L1 region end exceeds carve-out''),
            ((l1_base + dir_scan_staging_offset l) mod 32 = 0,
               Fatal ''directory scan staging absolute L1 addr not 32-aligned''),
            ((l1_base + dir_commit_entry_staging_offset l) mod 32 = 0,
               Fatal ''directory commit-entry staging absolute L1 addr not 32-aligned''),
            ((l1_base + hash_probe_staging_offset l) mod 32 = 0,
               Fatal ''hash probe staging absolute L1 addr not 32-aligned''),
            ((l1_base + heap_metadata_staging_offset l) mod 32 = 0,
               Fatal ''heap metadata staging absolute L1 addr not 32-aligned''),
            ((l1_base + dir_req_mailbox_offset l) mod 32 = 0,
               Fatal ''directory request mailbox absolute L1 addr not 32-aligned'')] of
           Some e \<Rightarrow> Inl e
         | None \<Rightarrow> Inr l))"

section \<open>What the host writes before the kernels run\<close>

text \<open>
  The completion lines of the clients and the shared progress line start at the configured counter,
  so do the two commit counters. The writes are in the order of the source; \<open>template\<close> is the encoded
  response template.
\<close>

definition direct_done_image :: "u32 \<Rightarrow> byte list" where
  "direct_done_image counter =
     fold (\<lambda>i image. memcpy (i * unat kPutDirectDoneSemSize) (le32 counter) image)
       [0 ..< unat kMaxClients + 1] (replicate (unat kPutDirectDoneRegionBytes) 0)"

definition commit_counters_image :: "u32 \<Rightarrow> byte list" where
  "commit_counters_image counter =
     memcpy (unat kPutCommitIssuedSemSize) (le32 counter)
       (memcpy 0 (le32 counter) (replicate (unat kPutCommitCounterRegionSize) 0))"

definition server_init_writes :: "u32 \<Rightarrow> l1_layout \<Rightarrow> u32 \<Rightarrow> byte list \<Rightarrow> (u32 \<times> byte list) list" where
  "server_init_writes l1_base l initial_counter template =
     [(termination_addr l, le32 0),
      (l1_base + kBootstrapRequestSemBaseOffset, replicate (unat kBootstrapPeerSlots * 16) 0),
      (l1_base + kBootstrapResponseTemplateOffset, template),
      (l1_base + direct_put_done_offset l, direct_done_image initial_counter),
      (l1_base + commit_issued_offset l, commit_counters_image initial_counter)]"

section \<open>The two computations agree\<close>

text \<open>The regions in the order of the carve-out, and that each begins where the one before it ends.\<close>

definition l1_regions :: "u32 \<Rightarrow> l1_layout \<Rightarrow> (u32 \<times> u32) list" where
  "l1_regions r l =
     [(kTerminationOffset, 16),
      (kBootstrapRequestBaseOffset, kBootstrapPeerSlots * 128), (kBootstrapRequestSemBaseOffset, kBootstrapPeerSlots * 16),
      (kBootstrapResponseTemplateOffset, 128),
      (kRingBaseOffset, r * kRingSlotStride), (ring_sem_base_offset l, r * kRingSemSize),
      (ucast (server_registry_offset (ucast r)), kRegistryTableSize), (peer_lookup_table_offset l, kPeerLookupTableSize),
      (host_any_get_done_monitor_offset l, kHostAnyGetDoneMonitorSize), (get_credit_sem_offset l, kGetCreditSemSize),
      (direct_put_done_offset l, kPutDirectDoneRegionBytes), (put_readback_scratch_offset l, kPutReadbackScratchSize),
      (commit_issued_offset l, kPutCommitIssuedSemSize), (commit_done_offset l, kPutCommitDoneSemSize),
      (dir_scan_staging_offset l, kDirScanStagingSize), (dir_commit_entry_staging_offset l, kDirCommitEntryStagingSize),
      (dir_req_mailbox_offset l, kDirReqMailboxSize), (dir_req_sem_offset l, kDirReqSemSize),
      (dir_done_sem_offset l, kDirDoneSemSize), (dir_resp_mailbox_offset l, kDirRespMailboxSize),
      (dir_epoch_counter_offset l, kDirEpochCounterSize), (heap_allocator_offset l, kHeapAllocatorStateSize),
      (move_req_sem_offset l, of_nat kMoveReqSemSize), (move_req_offset l, kMoveReqSlotBytes),
      (commit_req_sem_offset l, kCommitReqSemSize), (commit_req_offset l, of_nat kCommitReqSlotBytes),
      (move_processed_offset l, kMoveProcessedSemSize), (stage_progress_offset l, kStageProgressSize),
      (promote_done_offset l, kPromoteDoneSemSize), (evict_ack_sem_offset l, kEvictAckSemSize),
      (evict_ack_offset l, kEvictAckSize), (evict_done_offset l, kEvictDoneSemSize),
      (hash_probe_staging_offset l, kHashProbeStagingSize), (heap_metadata_staging_offset l, kHeapMetadataStagingSize),
      (cold_start_done_offset l, kColdStartDoneSize), (allocator_profile_offset l, kAllocatorProfileSize)]"

fun tiles :: "nat \<Rightarrow> (u32 \<times> u32) list \<Rightarrow> nat \<Rightarrow> bool" where
  "tiles a [] b \<longleftrightarrow> a = b"
| "tiles a ((u, n) # rs) b \<longleftrightarrow> unat u = a \<and> tiles (a + unat n) rs b"

lemma unat_offset: "unat (d :: u32) + unat c < 4294967296 \<Longrightarrow> unat (d + c) = unat d + unat c"
  by (rule unat_plus_fits) simp

lemma div_up_32: "(n :: nat) mod 32 = 0 \<Longrightarrow> (n + 31) div 32 = n div 32"
  using div_add1_eq [of n 31 32] by simp

lemma align_up_32:
  assumes "unat (x :: u32) mod 32 = 0" and "unat x + 31 < 4294967296"
  shows "and (x + 31) (not 31) = x"
proof -
  have "unat (x + 31) = unat x + 31" using assms(2) by (subst unat_offset) simp_all
  then have d: "unat (drop_bit 5 (x + 31)) = unat x div 32"
    using div_up_32 [OF assms(1)] by (simp add: drop_bit_eq_div unat_div)
  have m: "unat x div 32 * 32 = unat x" using assms(1) by (metis add.right_neutral div_mult_mod_eq)
  then have "unat (drop_bit 5 (x + 31) * 32) = unat x"
    using d unat_less_4G [of x] by (subst unat_mult_fits) simp_all
  moreover have "and (x + 31) (not 31) = drop_bit 5 (x + 31) * 32"
    unfolding and_not_31 push_bit_eq_mult by simp
  ultimately show ?thesis by (simp only: word_unat_eq_iff)
qed

lemma ucast_small: "unat (x :: u64) < 4294967296 \<Longrightarrow> unat (ucast x :: u32) = unat x"
  by (rule unat_u64_to_u32)

lemma ring_bytes:
  assumes "unat r \<le> 120"
  shows "unat (r * 4352) = 4352 * unat (r :: u32)" "unat (r * 16) = 16 * unat r"
  using assms by (simp_all add: unat_mult_fits)

lemma prefix_end:
  shows "unat (server_ring_sem_base_offset (ucast r)) = 4752 + 4352 * unat (r :: u32)" (is ?a)
    "unat (server_registry_offset (ucast r)) = 4752 + 4368 * unat r" (is ?b)
    "unat (server_peer_lookup_table_offset (ucast r)) = 6800 + 4368 * unat r" (is ?c)
    "unat (server_host_any_get_done_monitor_offset (ucast r)) = 7056 + 4368 * unat r" (is ?d)
    "unat (server_get_credit_sem_offset (ucast r)) = 7072 + 4368 * unat r" (is ?e)
    "unat (server_fixed_prefix_end (ucast r)) = 7088 + 4368 * unat r" (is ?f)
    "unat (server_pipeline_end (ucast r)) = 11440 + 4368 * unat r" (is ?g)
proof -
  define n where "n = unat r"
  have "n \<le> 4294967295" using unat_less_4G [of r] unfolding n_def by linarith
  moreover have "unat (ucast r :: u64) = n" by (simp add: n_def)
  ultimately show ?a ?b ?c ?d ?e ?f ?g
  unfolding n_def [symmetric]
  by (simp_all add: server_ring_sem_base_offset_def server_registry_offset_def server_peer_lookup_table_offset_def
      server_host_any_get_done_monitor_offset_def server_get_credit_sem_offset_def server_fixed_prefix_end_def
      server_pipeline_end_def layout_sizes unat_word_ariths)
qed

lemma layout_aligned:
  assumes "unat l1_base mod 32 = 0" and "unat (d :: u32) mod 32 = 16" and "unat l1_base + unat d + 1024 < 4294967296"
  shows "layout_behind l1_base ring_sem peer monitor credit d =
    \<lparr>termination_addr = l1_base, ring_sem_base_offset = ring_sem,
      peer_lookup_table_offset = peer, host_any_get_done_monitor_offset = monitor,
      get_credit_sem_offset = credit, direct_put_done_offset = d, put_readback_scratch_offset = d + 528,
      commit_issued_offset = d + 560, commit_done_offset = d + 576, dir_scan_staging_offset = d + 592,
      dir_commit_entry_staging_offset = d + 3152, dir_req_mailbox_offset = d + 3312, dir_req_sem_offset = d + 3472,
      dir_done_sem_offset = d + 3488, dir_resp_mailbox_offset = d + 3504, dir_epoch_counter_offset = d + 3536,
      heap_allocator_offset = d + 3552, move_req_sem_offset = d + 3696, move_req_offset = d + 3712,
      commit_req_sem_offset = d + 3872, commit_req_offset = d + 3888, move_processed_offset = d + 4048,
      stage_progress_offset = d + 4064, promote_done_offset = d + 4080, evict_ack_sem_offset = d + 4096,
      evict_ack_offset = d + 4112, evict_done_offset = d + 4128, hash_probe_staging_offset = d + 4144,
      heap_metadata_staging_offset = d + 4176, cold_start_done_offset = d + 4240,
      allocator_profile_offset = d + 4256\<rparr>"
proof -
  have u: "unat (d + 592) = unat d + 592" "unat (l1_base + (d + 592)) = unat l1_base + (unat d + 592)"
    using assms(3) by (simp_all add: unat_offset)
  have "unat (l1_base + (d + 592)) mod 32 = 0" unfolding u using assms(1,2) by presburger
  then have al: "and ((l1_base + (d + 592)) + 31) (not 31) = l1_base + (d + 592)"
    using u assms(3) by (intro align_up_32) simp_all
  have p: "d + kPutDirectDoneRegionBytes + kPutReadbackScratchSize + kPutCommitIssuedSemSize + kPutCommitDoneSemSize = d + 592"
    by (simp add: layout_sizes)
  show ?thesis
    unfolding layout_behind_def Let_def p al
    by (simp add: layout_sizes)
qed

lemma mod_32_shift: "(a :: nat) mod 32 = 0 \<Longrightarrow> (a + 32 * q + c) mod 32 = c mod 32"
proof -
  assume "a mod 32 = 0"
  then obtain m where "a = 32 * m" by auto
  then have "a + 32 * q + c = c + 32 * (m + q)" by simp
  then show ?thesis by (simp only: mod_mult_self2)
qed

definition kServerL1ReserveMaxBytes :: u32 where "kServerL1ReserveMaxBytes = 524288"

lemma checked_offset_fits:
  assumes "unat off \<le> unat reserve"
  shows "checked_offset reserve name off = Inr (ucast off) \<and> unat (ucast off :: u32) = unat off"
  using assms ucast_small [of off] unat_less_4G [of reserve]
  by (simp add: checked_offset_def word_le_nat_alt)

text \<open>
  The offsets that the kernel is given tile the reserved carve-out. For a 32-byte aligned base and
  a reservation of at least \<open>server_pipeline_end\<close> within the ceiling, no check of the derivation can fail
  but one: with an odd number of ring slots the read-back scratch loses its alignment and the
  derivation refuses. Otherwise the regions follow each other without gap or overlap from offset
  zero, and end 32 bytes (the alignment pad) before the reserved footprint.
\<close>

lemma server_l1_tiled:
  assumes "unat l1_base mod 32 = 0" and "unat l1_base + 524288 < 2 ^ 32"
    and "server_pipeline_end (ucast ring_slots) \<le> ucast reserve" and "reserve \<le> kServerL1ReserveMaxBytes"
  shows "case plan_server_l1 l1_base reserve ring_slots of
      Inl e \<Rightarrow> odd (unat ring_slots) \<and> e = Fatal ''put_readback_scratch absolute L1 addr not 32-aligned''
    | Inr l \<Rightarrow> even (unat ring_slots)
        \<and> tiles 0 (l1_regions ring_slots l) (unat (allocator_profile_offset l + kAllocatorProfileSize))
        \<and> unat (allocator_profile_offset l + kAllocatorProfileSize) + 32 = unat (server_pipeline_end (ucast ring_slots))"
proof -
  define n where "n = unat ring_slots"
  have top: "11440 + 4368 * n \<le> unat reserve" "unat reserve \<le> 524288"
    using assms(3,4) prefix_end(7) [of ring_slots] by (simp_all add: word_le_nat_alt kServerL1ReserveMaxBytes_def n_def)
  then have n: "n \<le> 120" by linarith
  define d :: u32 where "d = ucast (server_fixed_prefix_end (ucast ring_slots))"
  note fit = checked_offset_fits [of _ reserve]
  have d: "unat d = 7088 + 4368 * n" using fit [of "server_fixed_prefix_end (ucast ring_slots)"] top
    by (simp add: prefix_end n_def d_def)
  define l where "l = layout_behind l1_base (ucast (server_ring_sem_base_offset (ucast ring_slots)))
    (ucast (server_peer_lookup_table_offset (ucast ring_slots)))
    (ucast (server_host_any_get_done_monitor_offset (ucast ring_slots)))
    (ucast (server_get_credit_sem_offset (ucast ring_slots))) d"
  have c: "checked_offset reserve name (server_ring_sem_base_offset (ucast ring_slots))
        = Inr (ucast (server_ring_sem_base_offset (ucast ring_slots)))"
      "checked_offset reserve name (server_peer_lookup_table_offset (ucast ring_slots))
        = Inr (ucast (server_peer_lookup_table_offset (ucast ring_slots)))"
      "checked_offset reserve name (server_host_any_get_done_monitor_offset (ucast ring_slots))
        = Inr (ucast (server_host_any_get_done_monitor_offset (ucast ring_slots)))"
      "checked_offset reserve name (server_get_credit_sem_offset (ucast ring_slots))
        = Inr (ucast (server_get_credit_sem_offset (ucast ring_slots)))"
      "checked_offset reserve name (server_fixed_prefix_end (ucast ring_slots)) = Inr d" for name
    using top by (simp_all add: fit prefix_end n_def d_def)
  note plan = plan_server_l1_def [of l1_base reserve ring_slots, unfolded Let_def c sum.case l_def [symmetric]]
  have aligned: "x mod 32 = 0 \<longleftrightarrow> unat x mod 32 = 0" for x :: u32 by (simp add: word_unat_eq_iff unat_mod)
  have base: "unat l1_base + 524288 < 4294967296" using assms(2) by simp
  have at: "unat (l1_base + (d + x)) = unat l1_base + 7088 + 4368 * n + unat x" "unat (d + x) = 7088 + 4368 * n + unat x"
    if "unat x \<le> 4320" for x using that base top d by (simp_all add: unat_offset)
  have u: "unat (ucast (server_ring_sem_base_offset (ucast ring_slots)) :: u32) = 4752 + 4352 * n"
      "unat (ucast (server_registry_offset (ucast ring_slots)) :: u32) = 4752 + 4368 * n"
      "unat (ucast (server_peer_lookup_table_offset (ucast ring_slots)) :: u32) = 6800 + 4368 * n"
      "unat (ucast (server_host_any_get_done_monitor_offset (ucast ring_slots)) :: u32) = 7056 + 4368 * n"
      "unat (ucast (server_get_credit_sem_offset (ucast ring_slots)) :: u32) = 7072 + 4368 * n"
    using n by (simp_all add: ucast_small prefix_end n_def)
  show ?thesis
  proof (cases "even n")
    case False
    then obtain k where "n = 2 * k + 1" by (rule oddE)
    then have "unat (l1_base + (d + 528)) = unat l1_base + 32 * (374 + 273 * k) + 16" by (simp add: at)
    then have "unat (l1_base + (d + 528)) mod 32 = 16" using mod_32_shift [OF assms(1), of "374 + 273 * k" 16] by simp
    moreover have "put_readback_scratch_offset l = d + 528" by (simp add: l_def layout_behind_def Let_def layout_sizes)
    ultimately show ?thesis using False by (simp add: plan aligned n_def)
  next
    case True
    then obtain k where k: "n = 2 * k" by (rule evenE)
    have dm: "unat d mod 32 = 16" using mod_32_shift [of 0 "221 + 273 * k" 16] by (simp add: d k)
    have "unat l1_base + unat d + 1024 < 4294967296" using base d top by linarith
    note eq = layout_aligned [OF assms(1) dm this, of "ucast (server_ring_sem_base_offset (ucast ring_slots))"
        "ucast (server_peer_lookup_table_offset (ucast ring_slots))"
        "ucast (server_host_any_get_done_monitor_offset (ucast ring_slots))"
        "ucast (server_get_credit_sem_offset (ucast ring_slots))", folded l_def]
    have ok: "(l1_base + (d + x)) mod 32 = 0" if "unat x \<le> 4320" "unat x mod 32 = 16" for x
    proof -
      have "unat (l1_base + (d + x)) = unat l1_base + 32 * (221 + 273 * k) + (16 + unat x)" using that by (simp add: at k)
      then have "unat (l1_base + (d + x)) mod 32 = (16 + unat x) mod 32" by (simp only: mod_32_shift [OF assms(1)])
      then show ?thesis using that(2) by (simp add: aligned mod_add_right_eq [of 16, symmetric] del: mod_add_right_eq)
    qed
    have "plan_server_l1 l1_base reserve ring_slots = Inr l"
      using ok [of 528] ok [of 592] ok [of 3152] ok [of 4144] ok [of 4176] ok [of 3312] top at(2) [of 4320]
      by (simp add: plan eq layout_sizes word_le_nat_alt add.commute [of 4320])
    moreover have "unat (allocator_profile_offset l + kAllocatorProfileSize) = 7088 + 4368 * n + 4320"
      using at(2) [of 4320] by (simp add: eq layout_sizes add.commute [of 4320])
    moreover have "tiles 0 (l1_regions ring_slots l) (7088 + 4368 * n + 4320)"
      using ring_bytes [of ring_slots] n top
      by (simp add: l1_regions_def eq layout_sizes at(2) d u fit prefix_end n_def [symmetric])
    ultimately show ?thesis using True by (simp add: prefix_end n_def)
  qed
qed

lemma direct_done_prefix:
  fixes c :: u32
  assumes "n \<le> 33"
  shows "length (fold (\<lambda>i image. memcpy (i * 16) (le32 c) image) [0 ..< n] (replicate 528 0)) = 528
    \<and> (\<forall>i < n. \<forall>k < 4.
         fold (\<lambda>i image. memcpy (i * 16) (le32 c) image) [0 ..< n] (replicate 528 0) ! (i * 16 + k) = le32 c ! k)"
  using assms
proof (induction n)
  case (Suc n)
  then have l: "length (fold (\<lambda>i image. memcpy (i * 16) (le32 c) image) [0 ..< n] (replicate 528 0)) = 528" by simp
  then show ?case
    using Suc by (auto simp: nth_memcpy less_Suc_eq)
qed simp

text \<open>Every client's completion line, and the progress line behind them, starts at the counter.\<close>

lemma direct_done_words:
  assumes "i \<le> 32"
  shows "read_le32 (direct_done_image c) (i * 16) = c \<and> length (direct_done_image c) = unat kPutDirectDoneRegionBytes"
proof -
  have e: "direct_done_image c = fold (\<lambda>i image. memcpy (i * 16) (le32 c) image) [0 ..< 33] (replicate 528 0)"
    by (simp add: direct_done_image_def layout_sizes)
  have "direct_done_image c ! (i * 16 + k) = le32 c ! k" if "k < 4" for k
    using direct_done_prefix [of 33 c] assms that unfolding e by auto
  from this [of 0] this [of 1] this [of 2] this [of 3]
  have "read_le32 (direct_done_image c) (i * 16) = read_le32 (le32 c) 0" by (simp add: read_le32_def numeral_2_eq_2)
  then show ?thesis using direct_done_prefix [of 33 c] by (simp add: e layout_sizes)
qed

end
