(* ===== verification/Device_Reserve.thy ===== *)
theory Device_Reserve
  imports Host_Arena Server_Layout
begin

text \<open>
  The device memory of a server, \<^verbatim>\<open>server_resources.cpp\<close>: the L1 carve-out shared by the worker
  groups of a submesh (\<open>reserve_l1\<close>), the private L1 of the two GET workers
  (\<open>reserve_auxiliary_worker_l1\<close>, \<open>reserve_get_workers\<close>) and the DRAM buffers (\<open>reserve_dram\<close>). The
  allocator's figures and the address of each created buffer are arguments.
\<close>

section \<open>L1 reservations\<close>

definition kGetValueCbDepth :: u32 where "kGetValueCbDepth = 16"
definition kGetIngressL1Bytes :: u32 where "kGetIngressL1Bytes = 256"
definition kGetIngressTerminationOffset :: u32 where "kGetIngressTerminationOffset = 0"
definition kGetAdmissionL1Bytes :: u32 where "kGetAdmissionL1Bytes = 68672"
definition kGetAdmissionTerminationOffset :: u32 where "kGetAdmissionTerminationOffset = 0"

definition residency_lru_l1_bytes :: "u64 \<Rightarrow> u64" where
  "residency_lru_l1_bytes keys = and (keys * 8 + 31) (not 31)"

record l1_reservation =
  lr_base :: u32
  lr_bytes :: u32
  lr_groups :: u32

type_synonym l1_registry = "nat \<Rightarrow> l1_reservation option"

definition reservation_layout :: "l1_reservation \<Rightarrow> u32 \<times> u32" where
  "reservation_layout r = (lr_bytes r, lr_groups r)"

definition create_reservation :: "fault + u64 \<Rightarrow> u32 \<times> u32 \<Rightarrow> fault + l1_reservation" where
  "create_reservation answer l =
     map_sum id (\<lambda>address. \<lparr>lr_base = ucast address, lr_bytes = fst l, lr_groups = snd l\<rparr>) answer"

definition attach_server_l1 ::
  "fault + u64 \<Rightarrow> nat \<Rightarrow> u32 \<times> u32 \<Rightarrow> l1_registry \<Rightarrow> (fault + l1_reservation) \<times> l1_registry" where
  "attach_server_l1 answer =
     attach_shared reservation_layout
       (Fatal ''all KVM Server shards on one submesh must use the same L1 layout'') (create_reservation answer)"

text \<open>The registry of the auxiliary workers is keyed by the submesh and the row of the core.\<close>

definition attach_worker_l1 ::
  "fault + u64 \<Rightarrow> nat \<times> u32 \<Rightarrow> u32 \<times> u32 \<Rightarrow> (nat \<times> u32 \<Rightarrow> l1_reservation option) \<Rightarrow>
     (fault + l1_reservation) \<times> (nat \<times> u32 \<Rightarrow> l1_reservation option)" where
  "attach_worker_l1 answer =
     attach_shared reservation_layout
       (Fatal ''all KVM Server shards on one submesh must use the same worker L1 layout'') (create_reservation answer)"

lemma create_reservation_layout: "create_reservation answer l = Inr r \<Longrightarrow> reservation_layout r = l"
  by (cases answer) (auto simp: create_reservation_def reservation_layout_def)

interpretation server_l1: shared_layout attach_server_l1 reservation_layout
  unfolding attach_server_l1_def [abs_def] by (rule attach_shared_laws) (rule create_reservation_layout)

interpretation worker_l1: shared_layout attach_worker_l1 reservation_layout
  unfolding attach_worker_l1_def [abs_def] by (rule attach_shared_laws) (rule create_reservation_layout)

record fabric_free_worker =
  fw_enabled :: bool
  fw_l1 :: bool
  fw_l1_base :: u32
  fw_termination_addr :: u32

record l1_state =
  server_l1_held :: bool
  server_l1_base :: u32
  server_l1_reserve_bytes :: u32
  residency_lru_held :: bool
  residency_lru_base :: u32
  ingress_worker :: fabric_free_worker
  admission_worker :: fabric_free_worker
  shared_server_l1 :: l1_registry
  shared_worker_l1 :: "nat \<times> u32 \<Rightarrow> l1_reservation option"

record l1_request =
  lq_submesh :: nat
  lq_worker_group :: u32
  lq_static :: bool
  lq_shards :: env_u64
  lq_ring_slots :: u32
  lq_max_keys :: u32
  lq_bank_size :: u64
  lq_allocator_base :: u32
  lq_create :: "fault + u64"
  lq_create_lru :: "fault + u64"
  lq_create_worker :: "u32 \<Rightarrow> fault + u64"

definition l1_worker_groups :: "l1_request \<Rightarrow> fault + u32" where
  "l1_worker_groups rq = (if lq_static rq then configured_server_worker_groups (lq_shards rq) else Inr 1)"

definition reserve_bytes_for :: "u32 \<Rightarrow> u64" where
  "reserve_bytes_for ring_slots = ((server_pipeline_end (ucast ring_slots) + 4096 - 1) div 4096) * 4096"

definition lock_server_l1 :: "l1_request \<Rightarrow> u32 \<Rightarrow> u32 \<Rightarrow> ('z l1_state_scheme, unit) io" where
  "lock_server_l1 rq reserve_bytes worker_groups =
     bindE (gets shared_server_l1) (\<lambda>reg.
     seqE (modify (server_l1_held_update (\<lambda>_. reg (lq_submesh rq) \<noteq> None)))
    (case attach_server_l1 (lq_create rq) (lq_submesh rq) (reserve_bytes, worker_groups) reg of
       (x, reg') \<Rightarrow>
         seqE (modify (shared_server_l1_update (\<lambda>_. reg')))
        (bindE (lift_sum x) (\<lambda>r.
         seqE (modify (server_l1_held_update (\<lambda>_. True)))
              (modify (server_l1_base_update (\<lambda>_. lr_base r)))))))"

definition reserve_l1 :: "l1_request \<Rightarrow> ('z l1_state_scheme, unit) io" where
  "reserve_l1 rq =
     (let reserve_aligned = reserve_bytes_for (lq_ring_slots rq);
          l1_budget = lq_bank_size rq;
          residency_lru_bytes = residency_lru_l1_bytes (ucast (lq_max_keys rq));
          get_value_cb_bytes = ucast kGetValueCbDepth * ucast kMaxChunkValueBytes;
          total_server_l1_bytes = reserve_aligned + residency_lru_bytes + get_value_cb_bytes in
      seqE (check (reserve_aligned \<le> ucast kServerL1ReserveMaxBytes)
              (Fatal ''server L1 reserve exceeds the reserve ceiling''))
     (seqE (check (reserve_aligned \<le> l1_budget) (Fatal ''server L1 reserve exceeds available worker L1''))
     (seqE (check (total_server_l1_bytes \<le> l1_budget)
              (Fatal ''server L1 working set exceeds available worker L1''))
     (seqE (modify (server_l1_reserve_bytes_update (\<lambda>_. ucast reserve_aligned)))
     (bindE (lift_sum (l1_worker_groups rq)) (\<lambda>worker_groups.
      seqE (lock_server_l1 rq (ucast reserve_aligned) worker_groups)
     (bindE (gets server_l1_base) (\<lambda>base.
      seqE (check (base = lq_allocator_base rq)
              (Fatal ''shared Server L1 reserve base differs from the endpoint-free bootstrap base''))
     (bindE (lift_sum (lq_create_lru rq)) (\<lambda>address.
      seqE (modify (\<lambda>s. s\<lparr>residency_lru_held := True, residency_lru_base := ucast address\<rparr>))
     (bindE (gets residency_lru_base) (\<lambda>lru.
      check (lru mod 32 = 0) (Fatal ''residency LRU L1 addr must be 32-aligned'')))))))))))))"

text \<open>The private L1 of a worker that needs no fabric; \<open>core\<close> is its logical core.\<close>

definition reserve_auxiliary_worker_l1 ::
  "l1_request \<Rightarrow> fabric_free_worker \<Rightarrow> u32 \<times> u32 \<Rightarrow> u32 \<Rightarrow> ('z l1_state_scheme, fabric_free_worker) io" where
  "reserve_auxiliary_worker_l1 rq worker core bytes =
     seqE (check (fw_enabled worker) (Fatal ''worker.enabled''))
    (seqE (check (\<not> fw_l1 worker) (Fatal ''worker.l1 == nullptr''))
    (seqE (check (ucast bytes \<le> lq_bank_size rq) (Fatal ''worker needs more than the worker L1''))
    (bindE (lift_sum (l1_worker_groups rq)) (\<lambda>worker_groups.
     seqE (whenE (lq_static rq) (check (fst core = lq_worker_group rq) (Fatal ''worker core x does not match worker group'')))
    (bindE (if lq_static rq then
              bindE (gets shared_worker_l1) (\<lambda>reg.
              case attach_worker_l1 (lq_create_worker rq (snd core)) (lq_submesh rq, snd core) (bytes, worker_groups) reg of
                (x, reg') \<Rightarrow> seqE (modify (shared_worker_l1_update (\<lambda>_. reg')))
                                 (bindE (lift_sum x) (\<lambda>r. ret (lr_base r))))
            else bindE (lift_sum (lq_create_worker rq (snd core))) (\<lambda>address. ret (ucast address))) (\<lambda>base.
     seqE (check (base mod 32 = 0) (Fatal ''worker L1 base must be 32-byte aligned''))
          (ret (worker\<lparr>fw_l1 := True, fw_l1_base := base\<rparr>))))))))"

definition reserve_get_workers :: "l1_request \<Rightarrow> ('z l1_state_scheme, unit) io" where
  "reserve_get_workers rq =
     bindE (gets ingress_worker) (\<lambda>ingress.
     seqE (whenE (fw_enabled ingress)
             (bindE (reserve_auxiliary_worker_l1 rq ingress (lq_worker_group rq, 1) kGetIngressL1Bytes) (\<lambda>w.
              modify (ingress_worker_update (\<lambda>_. w\<lparr>fw_termination_addr := fw_l1_base w + kGetIngressTerminationOffset\<rparr>)))))
    (bindE (gets admission_worker) (\<lambda>admission.
     whenE (fw_enabled admission)
             (bindE (reserve_auxiliary_worker_l1 rq admission (lq_worker_group rq, 2) kGetAdmissionL1Bytes) (\<lambda>w.
              modify (admission_worker_update (\<lambda>_. w\<lparr>fw_termination_addr := fw_l1_base w + kGetAdmissionTerminationOffset\<rparr>)))))))"

section \<open>DRAM\<close>

definition kPutHostQueueEntryBytes :: u32 where "kPutHostQueueEntryBytes = 32"

definition checked_add_dram_bytes :: "u64 \<Rightarrow> u64 \<Rightarrow> fault + u64" where
  "checked_add_dram_bytes lhs rhs =
     (if rhs \<le> 0xFFFFFFFFFFFFFFFF - lhs then Inr (lhs + rhs)
      else Inl (Fatal ''device DRAM reservation addition overflows uint64_t''))"

definition checked_multiply_dram_bytes :: "u64 \<Rightarrow> u64 \<Rightarrow> fault + u64" where
  "checked_multiply_dram_bytes lhs rhs =
     (if lhs = 0 \<or> rhs \<le> 0xFFFFFFFFFFFFFFFF div lhs then Inr (lhs * rhs)
      else Inl (Fatal ''device DRAM reservation multiplication overflows uint64_t''))"

text \<open>
  \<^verbatim>\<open>static_cast<uint64_t>(static_cast<double>(dram_total) * 0.9)\<close>: the conversion and the product round to
  53 significant bits, to even on a tie; the double nearest to 0.9 is \<open>8106479329266893 / 2 ^ 53\<close>.
\<close>

fun excess_bits :: "nat \<Rightarrow> nat" where
  "excess_bits n = (if n < 2 ^ 53 then 0 else Suc (excess_bits (n div 2)))"

declare excess_bits.simps [simp del]

definition round_to_double :: "nat \<Rightarrow> nat" where
  "round_to_double n =
     (let unit = 2 ^ excess_bits n; q = n div unit; r = n mod unit
      in if unit < 2 * r \<or> (2 * r = unit \<and> odd q) then (q + 1) * unit else q * unit)"

definition dram_budget :: "u64 \<Rightarrow> u64" where
  "dram_budget dram_total = of_nat (round_to_double (round_to_double (unat dram_total) * 8106479329266893) div 2 ^ 53)"

record dram_answers =
  da_device :: bool
  da_bank_size :: u64
  da_num_banks :: u32
  da_alignment :: u32
  da_spread :: "u64 \<Rightarrow> u32 \<Rightarrow> u64"
  da_reservations :: "fault + u32"
  da_address :: "nat \<Rightarrow> fault + u64"
  da_directory_page :: "u64 option"

definition dram_buffers :: "server_limits \<Rightarrow> (u64 \<times> u32) list" where
  "dram_buffers l =
     [(ucast (sl_num_units l) * ucast kMaxChunkValueBytes, kMaxChunkValueBytes),
      (ucast (sl_max_keys l) * ucast kPutHostQueueEntryBytes, kPutHostQueueEntryBytes),
      (ucast (sl_max_keys l) * ucast (sl_dir_entry_bytes l), sl_dir_entry_bytes l),
      (ucast (sl_num_buckets l) * ucast kHashBucketBytes, kHashBucketBytes),
      (ucast (sl_num_units l) * ucast kHeapMetadataEntryBytes, kHeapMetadataEntryBytes)]"

text \<open>The loop over the buffers: logical bytes, and physical bytes per bank.\<close>

fun sum_buffers :: "(u64 \<Rightarrow> u32 \<Rightarrow> u64) \<Rightarrow> (u64 \<times> u32) list \<Rightarrow> u64 \<Rightarrow> u64 \<Rightarrow> fault + u64 \<times> u64" where
  "sum_buffers spread [] logical physical = Inr (logical, physical)"
| "sum_buffers spread ((bytes, page) # bs) logical physical =
     (case checked_add_dram_bytes logical bytes of
        Inl e \<Rightarrow> Inl e
      | Inr logical' \<Rightarrow>
          case checked_add_dram_bytes physical (spread bytes page) of
            Inl e \<Rightarrow> Inl e
          | Inr physical' \<Rightarrow> sum_buffers spread bs logical' physical')"

definition budget_dram :: "dram_answers \<Rightarrow> server_limits \<Rightarrow> fault + unit" where
  "budget_dram an l =
     (case sum_buffers (da_spread an) (dram_buffers l) 0 0 of
        Inl e \<Rightarrow> Inl e
      | Inr (logical, per_bank) \<Rightarrow>
      case checked_multiply_dram_bytes per_bank (ucast (da_num_banks an)) of
        Inl e \<Rightarrow> Inl e
      | Inr per_server \<Rightarrow>
      case checked_multiply_dram_bytes (da_bank_size an) (ucast (da_num_banks an)) of
        Inl e \<Rightarrow> Inl e
      | Inr dram_total \<Rightarrow>
      case da_reservations an of
        Inl e \<Rightarrow> Inl e
      | Inr reservation_count \<Rightarrow>
      case checked_multiply_dram_bytes per_server (ucast reservation_count) of
        Inl e \<Rightarrow> Inl e
      | Inr aggregate \<Rightarrow>
          if aggregate \<le> dram_budget dram_total then Inr ()
          else Inl (Fatal ''reserve_dram: endpoint physical reservation exceeds the 90% device DRAM budget''))"

record dram_bases =
  dram_value_base :: u32
  dram_put_host_queue_base :: u32
  dram_directory_base :: u32
  dram_hashmap_base :: u32
  dram_heap_metadata_base :: u32

definition create_dram_buffer :: "dram_answers \<Rightarrow> nat \<Rightarrow> string \<Rightarrow> fault + u32" where
  "create_dram_buffer an i name =
     (case da_address an i of
        Inl e \<Rightarrow> Inl e
      | Inr address \<Rightarrow> if (ucast address :: u32) mod 32 = 0 then Inr (ucast address)
                     else Inl (Fatal (name @ '' base must be 32-aligned'')))"

definition create_dram_buffers :: "dram_answers \<Rightarrow> server_limits \<Rightarrow> fault + dram_bases" where
  "create_dram_buffers an l =
     (case create_dram_buffer an 0 ''dram_value'' of Inl e \<Rightarrow> Inl e | Inr vals \<Rightarrow>
      case create_dram_buffer an 1 ''dram_put_host_queue'' of Inl e \<Rightarrow> Inl e | Inr queue \<Rightarrow>
      case create_dram_buffer an 2 ''dram_directory'' of Inl e \<Rightarrow> Inl e | Inr directory \<Rightarrow>
      case da_directory_page an of
        None \<Rightarrow> Inl (Fatal ''reserve_dram: directory MeshBuffer has no device buffer at (0,0)'')
      | Some page \<Rightarrow>
      if (ucast page :: u32) \<noteq> sl_dir_entry_bytes l then Inl (Fatal ''directory aligned page size != dir_entry_bytes'') else
      case create_dram_buffer an 3 ''dram_hashmap'' of Inl e \<Rightarrow> Inl e | Inr hashmap \<Rightarrow>
      case create_dram_buffer an 4 ''dram_heap_metadata'' of Inl e \<Rightarrow> Inl e | Inr metadata \<Rightarrow>
      Inr \<lparr>dram_value_base = vals, dram_put_host_queue_base = queue, dram_directory_base = directory,
           dram_hashmap_base = hashmap, dram_heap_metadata_base = metadata\<rparr>)"

definition reserve_dram :: "dram_answers \<Rightarrow> server_limits \<Rightarrow> fault + dram_bases" where
  "reserve_dram an l =
     (if \<not> da_device an then Inl (Fatal ''server_submesh has no chip at (0,0)'')
      else if \<not> (0 < da_num_banks an \<and> 0 < da_alignment an)
      then Inl (Fatal ''reserve_dram: invalid DRAM allocator geometry'')
      else case budget_dram an l of Inl e \<Rightarrow> Inl e | Inr _ \<Rightarrow> create_dram_buffers an l)"

section \<open>The DRAM budget\<close>

lemma excess_bits_bound: "2 ^ 53 \<le> n \<Longrightarrow> 2 ^ 52 * 2 ^ excess_bits n \<le> n"
proof (induction n rule: excess_bits.induct)
  case (1 n)
  then have e: "excess_bits n = Suc (excess_bits (n div 2))" by (subst excess_bits.simps) simp
  show ?case
  proof (cases "n div 2 < 2 ^ 53")
    case True
    then have "excess_bits (n div 2) = 0" by (subst excess_bits.simps) simp
    then show ?thesis using 1 e by simp
  next
    case False
    then have "2 ^ 52 * 2 ^ excess_bits (n div 2) \<le> n div 2" using 1 by simp
    moreover have "2 * (n div 2) \<le> n" by simp
    ultimately show ?thesis unfolding e by simp
  qed
qed

lemma round_to_double_bound: "2 ^ 52 * round_to_double n \<le> (2 ^ 52 + 1) * n"
proof (cases "n < 2 ^ 53")
  case True
  then have "excess_bits n = 0" by (subst excess_bits.simps) simp
  then have "round_to_double n = n" by (simp add: round_to_double_def)
  then show ?thesis by simp
next
  case False
  define unit where "unit = (2 :: nat) ^ excess_bits n"
  have u: "2 ^ 52 * unit \<le> n" using excess_bits_bound [of n] False by (simp add: unit_def)
  have q: "n div unit * unit \<le> n" by (rule div_times_less_eq_dividend)
  have "round_to_double n \<le> n div unit * unit + unit"
    by (simp add: round_to_double_def unit_def [symmetric] Let_def)
  then have "round_to_double n \<le> n + unit" using q by linarith
  then have "2 ^ 52 * round_to_double n \<le> 2 ^ 52 * (n + unit)" by (rule mult_le_mono2)
  then show ?thesis using u by (simp add: algebra_simps)
qed

text \<open>The rounding never grants noticeably more than 90 percent of the device.\<close>

lemma rounded_budget_le:
  "1000 * (round_to_double (round_to_double n * 8106479329266893) div 2 ^ 53) \<le> 901 * n"
proof -
  define a where "a = round_to_double n"
  define b where "b = round_to_double (a * 8106479329266893)"
  have a: "4503599627370496 * a \<le> 4503599627370497 * n" using round_to_double_bound [of n] by (simp add: a_def)
  have b: "4503599627370496 * b \<le> 4503599627370497 * (a * 8106479329266893)"
    using round_to_double_bound [of "a * 8106479329266893"] by (simp add: b_def)
  have c: "b div 9007199254740992 * 9007199254740992 \<le> b" by (rule div_times_less_eq_dividend)
  have "1000 * (b div 9007199254740992) \<le> 901 * n" using a b c by linarith
  then show ?thesis by (simp add: a_def b_def)
qed

lemma dram_budget_le: "1000 * unat (dram_budget t) \<le> 901 * unat t"
proof -
  let ?b = "round_to_double (round_to_double (unat t) * 8106479329266893) div 2 ^ 53"
  have "1000 * ?b \<le> 901 * unat t" by (rule rounded_budget_le)
  moreover have "unat (dram_budget t) \<le> ?b" by (simp add: dram_budget_def unat_of_nat)
  ultimately show ?thesis by linarith
qed

lemma checked_add_exact:
  assumes "checked_add_dram_bytes a b = Inr c"
  shows "unat c = unat a + unat b"
proof -
  have le: "b \<le> 0xFFFFFFFFFFFFFFFF - a" and c: "c = a + b"
    using assms by (auto simp: checked_add_dram_bytes_def split: if_splits)
  have "a \<le> 0xFFFFFFFFFFFFFFFF" using unat_less_64 [of a] by (simp add: word_le_nat_alt)
  then have "unat (0xFFFFFFFFFFFFFFFF - a) = 18446744073709551615 - unat a" by (subst unat_sub) simp_all
  then have "unat b \<le> 18446744073709551615 - unat a" using le by (simp only: word_le_nat_alt)
  then show ?thesis using unat_less_64 [of a] unfolding c by (intro unat_add_64) linarith
qed

lemma checked_multiply_exact:
  assumes m: "checked_multiply_dram_bytes a b = Inr c"
  shows "unat c = unat a * unat b"
proof -
  have c: "c = a * b" using m by (auto simp: checked_multiply_dram_bytes_def split: if_splits)
  show ?thesis
  proof (cases "a = 0")
    case False
    then have "unat b \<le> 18446744073709551615 div unat a"
      using m by (auto simp: checked_multiply_dram_bytes_def word_le_nat_alt unat_div split: if_splits)
    then have "unat a * unat b \<le> unat a * (18446744073709551615 div unat a)" by (rule mult_le_mono2)
    also have "\<dots> \<le> 18446744073709551615" by simp
    finally show ?thesis unfolding c by (intro unat_mult_64) simp
  qed (simp add: c)
qed

lemma sum_buffers_exact:
  "sum_buffers spread bs u p = Inr (u', p') \<Longrightarrow>
     unat u' = unat u + (\<Sum>(n, page) \<leftarrow> bs. unat n) \<and> unat p' = unat p + (\<Sum>(n, page) \<leftarrow> bs. unat (spread n page))"
proof (induction spread bs u p rule: sum_buffers.induct)
  case (2 spread bytes page bs u p)
  then obtain u1 p1 where "checked_add_dram_bytes u bytes = Inr u1" "checked_add_dram_bytes p (spread bytes page) = Inr p1"
      "sum_buffers spread bs u1 p1 = Inr (u', p')"
    by (auto split: sum.splits)
  then show ?case using 2 by (auto dest!: checked_add_exact)
qed simp

lemma create_dram_buffer_aligned: "create_dram_buffer an i name = Inr base \<Longrightarrow> base mod 32 = 0"
  unfolding create_dram_buffer_def by (simp only: split: sum.splits if_splits) (auto simp only: sum.inject sum.distinct)

lemma create_dram_buffers_cases:
  assumes "create_dram_buffers an l = Inr bases"
  obtains v q d h m page where "bases = \<lparr>dram_value_base = v, dram_put_host_queue_base = q, dram_directory_base = d,
      dram_hashmap_base = h, dram_heap_metadata_base = m\<rparr>" "v mod 32 = 0" "q mod 32 = 0" "d mod 32 = 0" "h mod 32 = 0"
      "m mod 32 = 0" "da_directory_page an = Some page" "ucast page = sl_dir_entry_bytes l"
proof -
  obtain v q d h m page where c: "create_dram_buffer an 0 ''dram_value'' = Inr v"
      "create_dram_buffer an 1 ''dram_put_host_queue'' = Inr q" "create_dram_buffer an 2 ''dram_directory'' = Inr d"
      "create_dram_buffer an 3 ''dram_hashmap'' = Inr h" "create_dram_buffer an 4 ''dram_heap_metadata'' = Inr m"
      "da_directory_page an = Some page" "ucast page = sl_dir_entry_bytes l"
      "bases = \<lparr>dram_value_base = v, dram_put_host_queue_base = q, dram_directory_base = d,
        dram_hashmap_base = h, dram_heap_metadata_base = m\<rparr>"
    using assms by (auto simp: create_dram_buffers_def split: sum.splits option.splits if_splits)
  show ?thesis by (rule that [OF c(8) c(1-5) [THEN create_dram_buffer_aligned] c(6,7)])
qed

text \<open>
  C40: a DRAM reservation that succeeds fits the device, counted without wrap-around. The physical bytes
  that all servers of the endpoint need, as a product of unbounded numbers, are within the 90 percent
  budget although the source computes it in floating point; and every base handed to the kernels is
  32-byte aligned and the directory entry is the page the device uses.
\<close>

theorem reserve_dram_fits:
  assumes "reserve_dram an l = Inr bases"
  shows "\<exists>count page. da_reservations an = Inr count \<and> da_directory_page an = Some page
    \<and> ucast page = sl_dir_entry_bytes l
    \<and> 1000 * (unat count * (unat (da_num_banks an) * (\<Sum>(n, p) \<leftarrow> dram_buffers l. unat (da_spread an n p))))
        \<le> 901 * (unat (da_bank_size an) * unat (da_num_banks an))
    \<and> dram_value_base bases mod 32 = 0 \<and> dram_put_host_queue_base bases mod 32 = 0
    \<and> dram_directory_base bases mod 32 = 0 \<and> dram_hashmap_base bases mod 32 = 0
    \<and> dram_heap_metadata_base bases mod 32 = 0"
proof -
  have "budget_dram an l = Inr ()" and c: "create_dram_buffers an l = Inr bases"
    using assms by (auto simp: reserve_dram_def split: if_splits sum.splits)
  then obtain u pb ps tot count agg where b: "sum_buffers (da_spread an) (dram_buffers l) 0 0 = Inr (u, pb)"
      "checked_multiply_dram_bytes pb (ucast (da_num_banks an)) = Inr ps"
      "checked_multiply_dram_bytes (da_bank_size an) (ucast (da_num_banks an)) = Inr tot"
      "da_reservations an = Inr count" "checked_multiply_dram_bytes ps (ucast count) = Inr agg"
      "agg \<le> dram_budget tot"
    by (auto simp: budget_dram_def split: if_splits sum.splits prod.splits)
  have "unat agg = unat ps * unat count" "unat ps = unat pb * unat (da_num_banks an)"
      "unat tot = unat (da_bank_size an) * unat (da_num_banks an)"
      "unat pb = (\<Sum>(n, p) \<leftarrow> dram_buffers l. unat (da_spread an n p))"
    using checked_multiply_exact [OF b(2)] checked_multiply_exact [OF b(3)] checked_multiply_exact [OF b(5)]
      sum_buffers_exact [OF b(1)] by simp_all
  moreover have "1000 * unat agg \<le> 901 * unat tot"
    using b(6) dram_budget_le [of tot] by (simp add: word_le_nat_alt)
  ultimately have "1000 * (unat count * (unat (da_num_banks an) * (\<Sum>(n, p) \<leftarrow> dram_buffers l. unat (da_spread an n p))))
      \<le> 901 * (unat (da_bank_size an) * unat (da_num_banks an))"
    by (simp add: ac_simps)
  moreover obtain v q d h m page where "bases = \<lparr>dram_value_base = v, dram_put_host_queue_base = q, dram_directory_base = d,
      dram_hashmap_base = h, dram_heap_metadata_base = m\<rparr>" "v mod 32 = 0" "q mod 32 = 0" "d mod 32 = 0" "h mod 32 = 0"
      "m mod 32 = 0" "da_directory_page an = Some page" "ucast page = sl_dir_entry_bytes l"
    using c by (rule create_dram_buffers_cases)
  ultimately show ?thesis using b(4) by (simp only: dram_bases.simps) blast
qed


definition demo_dram :: dram_answers where
  "demo_dram = \<lparr>da_device = True, da_bank_size = 1073741824, da_num_banks = 12, da_alignment = 32,
     da_spread = (\<lambda>n p. n div 12 + ucast p), da_reservations = Inr 2, da_address = (\<lambda>i. Inr (of_nat i * 4096)),
     da_directory_page = Some 160\<rparr>"

definition demo_limits :: server_limits where
  "demo_limits = \<lparr>sl_max_value_bytes = 10000, sl_max_get_chunks = 3, sl_max_keys = 16, sl_value_heap_bytes = 42880,
     sl_num_units = 10, sl_ring_slots = 64, sl_value_ring_depth = 8, sl_max_key_len = 128, sl_dir_entry_bytes = 160,
     sl_num_buckets = 32, sl_poll_us = 10\<rparr>"

lemma demo_dram_runs: "\<exists>bases. reserve_dram demo_dram demo_limits = Inr bases"
proof -
  have "dram_budget 12884901888 = 11596411699"
    by (simp add: dram_budget_def round_to_double_def excess_bits.simps)
  then show ?thesis
    by (simp add: reserve_dram_def budget_dram_def create_dram_buffers_def create_dram_buffer_def demo_dram_def
        demo_limits_def dram_buffers_def checked_add_dram_bytes_def checked_multiply_dram_bytes_def
        kMaxChunkValueBytes_eq kPutHostQueueEntryBytes_def kHashBucketBytes_def kHeapMetadataEntryBytes_def)
qed

theorem reserve_dram_fits_witness:
  "\<exists>bases. reserve_dram demo_dram demo_limits = Inr bases \<and> dram_value_base bases mod 32 = 0
     \<and> 1000 * (2 * (12 * (\<Sum>(n, p) \<leftarrow> dram_buffers demo_limits. unat (da_spread demo_dram n p)))) \<le> 901 * (1073741824 * 12)"
proof -
  obtain bases where b: "reserve_dram demo_dram demo_limits = Inr bases" using demo_dram_runs by blast
  have d: "da_reservations demo_dram = Inr 2" "da_num_banks demo_dram = 12" "da_bank_size demo_dram = 1073741824"
    by (simp_all add: demo_dram_def)
  obtain count where c: "da_reservations demo_dram = Inr count"
    "1000 * (unat count * (unat (da_num_banks demo_dram) * (\<Sum>(n, p) \<leftarrow> dram_buffers demo_limits. unat (da_spread demo_dram n p))))
        \<le> 901 * (unat (da_bank_size demo_dram) * unat (da_num_banks demo_dram))" "dram_value_base bases mod 32 = 0"
    using reserve_dram_fits [OF b] by (elim exE conjE)
  have u: "unat count = 2" using c(1) d(1) by auto
  have n: "unat (12 :: u32) = 12" "unat (1073741824 :: u64) = 1073741824" by simp_all
  show ?thesis using c(2) unfolding u d(2,3) n by (intro exI [of _ bases] conjI b c(3))
qed

section \<open>The L1 carve-out and the kernel's layout\<close>

definition l1_reserved :: "l1_request \<Rightarrow> 'z l1_state_scheme \<Rightarrow> bool" where
  "l1_reserved rq t \<longleftrightarrow>
     server_l1_held t \<and> residency_lru_held t \<and> server_l1_base t = lq_allocator_base rq
     \<and> server_pipeline_end (ucast (lq_ring_slots rq)) \<le> ucast (server_l1_reserve_bytes t)
     \<and> unat (server_l1_reserve_bytes t) mod 4096 = 0 \<and> server_l1_reserve_bytes t \<le> kServerL1ReserveMaxBytes
     \<and> unat (server_l1_reserve_bytes t) + unat (residency_lru_l1_bytes (ucast (lq_max_keys rq))) + 68608
         \<le> unat (lq_bank_size rq)
     \<and> (\<exists>r. shared_server_l1 t (lq_submesh rq) = Some r \<and> lr_base r = server_l1_base t
          \<and> lr_bytes r = server_l1_reserve_bytes t)"

lemma reserve_bytes_exact:
  "unat (reserve_bytes_for r) = (11440 + 4368 * unat r + 4095) div 4096 * 4096"
  "server_pipeline_end (ucast r) \<le> reserve_bytes_for r"
proof -
  have b: "4368 * unat r + 15535 < 18446744073709551616"
    using less_imp_le [OF unat_less_4G, of r] by linarith
  have "server_pipeline_end (ucast r) + 4096 - 1 = server_pipeline_end (ucast r) + 4095" by simp
  moreover have "unat (server_pipeline_end (ucast r) + 4095) = 11440 + 4368 * unat r + 4095"
    using b by (subst unat_add_64) (simp_all add: prefix_end)
  ultimately show e: "unat (reserve_bytes_for r) = (11440 + 4368 * unat r + 4095) div 4096 * 4096"
    unfolding reserve_bytes_for_def by (simp only: unat_round_64)
  show "server_pipeline_end (ucast r) \<le> reserve_bytes_for r"
    using round_up_4096 [of "11440 + 4368 * unat r"] by (simp only: word_le_nat_alt e prefix_end)
qed

lemma lock_server_l1_wp:
  fixes s :: "'z l1_state_scheme"
  shows "wp (lock_server_l1 rq bytes g)
    (\<lambda>_ t. server_l1_held t \<and> server_l1_reserve_bytes t = server_l1_reserve_bytes s
       \<and> (\<exists>r. shared_server_l1 t (lq_submesh rq) = Some r \<and> lr_base r = server_l1_base t \<and> lr_bytes r = bytes))
    (\<lambda>_ _. True) s"
proof -
  obtain x reg where a: "attach_server_l1 (lq_create rq) (lq_submesh rq) (bytes, g) (shared_server_l1 s) = (x, reg)"
    by (cases "attach_server_l1 (lq_create rq) (lq_submesh rq) (bytes, g) (shared_server_l1 s)")
  have "x = Inr r \<Longrightarrow> reg (lq_submesh rq) = Some r \<and> lr_bytes r = bytes" for r
    using server_l1.attach_held server_l1.attach_layout a by (fastforce simp: reservation_layout_def)
  then show ?thesis by (cases x) (auto simp: lock_server_l1_def a wp_rules)
qed

lemma residency_lru_small:
  assumes "k \<le> kMaxKeysHardCap"
  shows "unat (residency_lru_l1_bytes (ucast k)) \<le> 524319"
proof -
  have k: "unat k \<le> 65536" using assms by (simp add: word_le_nat_alt)
  have "residency_lru_l1_bytes (ucast k) \<le> ucast k * 8 + 31"
    unfolding residency_lru_l1_bytes_def by (rule word_and_le2)
  moreover have "unat (ucast k * 8 + 31 :: u64) = unat k * 8 + 31" using k by (simp add: unat_word_ariths)
  ultimately show ?thesis using k by (simp add: word_le_nat_alt)
qed

lemma reserve_l1_wp:
  fixes s :: "'z l1_state_scheme"
  assumes "lq_max_keys rq \<le> kMaxKeysHardCap"
  shows "wp (reserve_l1 rq) (\<lambda>_ t. l1_reserved rq t) (\<lambda>_ _. True) s"
proof -
  define A where "A = reserve_bytes_for (lq_ring_slots rq)"
  define lru where "lru = residency_lru_l1_bytes (ucast (lq_max_keys rq))"
  have fit: "unat (ucast A :: u32) = unat A" "unat (A + lru + 68608) = unat A + unat lru + 68608"
    if "A \<le> 524288"
  proof -
    have a: "unat A \<le> 524288" using that by (simp add: word_le_nat_alt)
    show "unat (ucast A :: u32) = unat A" using a by (intro unat_u64_to_u32) simp
    have "unat (A + lru) = unat A + unat lru"
      using a residency_lru_small [OF assms] by (intro unat_add_64) (simp add: lru_def)
    then show "unat (A + lru + 68608) = unat A + unat lru + 68608"
      using a residency_lru_small [OF assms] by (subst unat_add_64) (simp_all add: lru_def)
  qed
  have A: "server_pipeline_end (ucast (lq_ring_slots rq)) \<le> A" "unat A mod 4096 = 0"
    using reserve_bytes_exact [of "lq_ring_slots rq"] by (simp_all add: A_def)
  have rest: "wp (seqE (lock_server_l1 rq (ucast A) g)
      (bindE (gets server_l1_base) (\<lambda>base.
       seqE (check (base = lq_allocator_base rq) e1)
      (bindE (lift_sum (lq_create_lru rq)) (\<lambda>address.
       seqE (modify (\<lambda>s. s\<lparr>residency_lru_held := True, residency_lru_base := ucast address\<rparr>))
      (bindE (gets residency_lru_base) (\<lambda>lru.
       check (lru mod 32 = 0) e2))))))) (\<lambda>_ t. l1_reserved rq t) (\<lambda>_ _. True) u"
    if c: "A \<le> 524288" "A + lru + 68608 \<le> lq_bank_size rq" and u: "server_l1_reserve_bytes u = ucast A"
    for u :: "'z l1_state_scheme" and g e1 e2
    unfolding wp_seqE [of "lock_server_l1 x y z" for x y z]
  proof (rule wp_mono [OF lock_server_l1_wp], goal_cases)
    case (1 a t)
    have "unat A + unat lru + 68608 \<le> unat (lq_bank_size rq)" "unat A \<le> 524288"
      using c fit(2) by (simp_all add: word_le_nat_alt)
    then show ?case
      using 1 u A fit(1) [OF c(1)]
      by (auto simp: wp_rules l1_reserved_def lru_def [symmetric] word_le_nat_alt kServerL1ReserveMaxBytes_def
          split: sum.split)
  qed simp
  show ?thesis
    unfolding reserve_l1_def A_def [symmetric] lru_def [symmetric] Let_def
    using rest by (auto simp: wp_check wp_bindE wp_lift_sum wp_modify wp_seqE kGetValueCbDepth_def kMaxChunkValueBytes_eq
        kServerL1ReserveMaxBytes_def split: sum.split)
qed

text \<open>An enabled worker leaves its reservation with aligned private L1; a disabled one is untouched.\<close>

definition aligned_32 :: "u32 \<Rightarrow> bool" where "aligned_32 a \<longleftrightarrow> a mod 32 = 0"

definition worker_placed :: "fabric_free_worker \<Rightarrow> fabric_free_worker \<Rightarrow> bool" where
  "worker_placed w w' \<longleftrightarrow>
     (if fw_enabled w then fw_l1 w' \<and> aligned_32 (fw_l1_base w') \<and> fw_termination_addr w' = fw_l1_base w' else w' = w)"

lemma reserve_auxiliary_worker_wp:
  fixes s :: "'z l1_state_scheme"
  shows "wp (reserve_auxiliary_worker_l1 rq w core bytes)
    (\<lambda>w' t. fw_l1 w' \<and> aligned_32 (fw_l1_base w')
       \<and> ingress_worker t = ingress_worker s \<and> admission_worker t = admission_worker s) (\<lambda>_ _. True) s"
  by (auto simp: reserve_auxiliary_worker_l1_def aligned_32_def [symmetric] wp_rules split: sum.split prod.split)

lemma reserve_get_workers_wp:
  fixes s :: "'z l1_state_scheme"
  shows "wp (reserve_get_workers rq)
    (\<lambda>_ t. worker_placed (ingress_worker s) (ingress_worker t)
       \<and> worker_placed (admission_worker s) (admission_worker t)) (\<lambda>_ _. True) s"
proof -
  have second: "wp (bindE (gets admission_worker) (\<lambda>admission.
      whenE (fw_enabled admission)
        (bindE (reserve_auxiliary_worker_l1 rq admission (lq_worker_group rq, 2) kGetAdmissionL1Bytes) (\<lambda>w.
         modify (admission_worker_update (\<lambda>_. w\<lparr>fw_termination_addr := fw_l1_base w + kGetAdmissionTerminationOffset\<rparr>))))))
    (\<lambda>_ t. worker_placed i (ingress_worker t) \<and> worker_placed (admission_worker u) (admission_worker t)) (\<lambda>_ _. True) u"
    if "worker_placed i (ingress_worker u)" for i and u :: "'z l1_state_scheme"
    using that
    by (auto simp: wp_bindE wp_gets wp_whenE wp_modify worker_placed_def kGetAdmissionTerminationOffset_def
        intro!: wp_mono [OF reserve_auxiliary_worker_wp])
  show ?thesis
  proof (cases "fw_enabled (ingress_worker s)")
    case False
    then show ?thesis
      using second [of "ingress_worker s" s] by (simp add: reserve_get_workers_def wp_bindE wp_gets wp_seqE wp_whenE worker_placed_def)
  next
    case True
    have "wp (bindE (reserve_auxiliary_worker_l1 rq (ingress_worker s) (lq_worker_group rq, 1) kGetIngressL1Bytes) (\<lambda>w.
         modify (ingress_worker_update (\<lambda>_. w\<lparr>fw_termination_addr := fw_l1_base w + kGetIngressTerminationOffset\<rparr>))))
       (\<lambda>_ t. worker_placed (ingress_worker s) (ingress_worker t) \<and> admission_worker t = admission_worker s) (\<lambda>_ _. True) s"
      using True by (auto simp: wp_bindE wp_modify worker_placed_def kGetIngressTerminationOffset_def
        intro!: wp_mono [OF reserve_auxiliary_worker_wp])
    then have "wp (bindE (reserve_auxiliary_worker_l1 rq (ingress_worker s) (lq_worker_group rq, 1) kGetIngressL1Bytes) (\<lambda>w.
         modify (ingress_worker_update (\<lambda>_. w\<lparr>fw_termination_addr := fw_l1_base w + kGetIngressTerminationOffset\<rparr>))))
       (\<lambda>_ t. wp (bindE (gets admission_worker) (\<lambda>admission.
          whenE (fw_enabled admission)
            (bindE (reserve_auxiliary_worker_l1 rq admission (lq_worker_group rq, 2) kGetAdmissionL1Bytes) (\<lambda>w.
             modify (admission_worker_update (\<lambda>_. w\<lparr>fw_termination_addr := fw_l1_base w + kGetAdmissionTerminationOffset\<rparr>))))))
         (\<lambda>_ t'. worker_placed (ingress_worker s) (ingress_worker t') \<and> worker_placed (admission_worker s) (admission_worker t'))
         (\<lambda>_ _. True) t) (\<lambda>_ _. True) s"
    proof (rule wp_mono, goal_cases)
      case (1 a t)
      then show ?case using second [of "ingress_worker s" t] by (elim conjE) (simp only:)
    qed simp
    then show ?thesis
      unfolding reserve_get_workers_def
      by (subst wp_bindE, subst wp_gets, subst wp_seqE, subst wp_whenE) (simp only: True if_True)
  qed
qed

text \<open>
  C39: what \<open>reserve_l1\<close> reserves is what \<open>prepare_server_kernel\<close> lays out. After a reservation that
  returned, the base is the endpoint's bootstrap base, the working set fits the bank, the submesh's
  registry holds exactly this reservation, and the separately written derivation of the offsets
  succeeds and tiles the reservation without gap or overlap; its only possible refusal is an odd number of
  ring slots, which misaligns the read-back scratch.
\<close>

theorem l1_reservation_suffices:
  fixes s :: "'z l1_state_scheme"
  assumes "reserve_l1 rq s = (Inr (), t)" and "lq_max_keys rq \<le> kMaxKeysHardCap"
    and "unat (lq_allocator_base rq) mod 32 = 0" and "unat (lq_allocator_base rq) + 524288 < 2 ^ 32"
  shows "l1_reserved rq t
    \<and> (case plan_server_l1 (server_l1_base t) (server_l1_reserve_bytes t) (lq_ring_slots rq) of
         Inl e \<Rightarrow> odd (unat (lq_ring_slots rq))
           \<and> e = Fatal ''put_readback_scratch absolute L1 addr not 32-aligned''
       | Inr l \<Rightarrow> even (unat (lq_ring_slots rq))
           \<and> tiles 0 (l1_regions (lq_ring_slots rq) l) (unat (allocator_profile_offset l + kAllocatorProfileSize))
           \<and> unat (allocator_profile_offset l + kAllocatorProfileSize) + 32
               = unat (server_pipeline_end (ucast (lq_ring_slots rq))))"
proof -
  have r: "l1_reserved rq t" by (rule wp_returnD [OF reserve_l1_wp [OF assms(2)] assms(1)])
  then have b: "server_l1_base t = lq_allocator_base rq"
    "server_pipeline_end (ucast (lq_ring_slots rq)) \<le> ucast (server_l1_reserve_bytes t)"
    "server_l1_reserve_bytes t \<le> kServerL1ReserveMaxBytes"
    by (simp_all add: l1_reserved_def)
  show ?thesis using r server_l1_tiled [OF assms(3,4) b(2,3)] by (simp add: b(1))
qed

definition demo_l1_request :: l1_request where
  "demo_l1_request = \<lparr>lq_submesh = 7, lq_worker_group = 0, lq_static = False, lq_shards = Inr None, lq_ring_slots = 64,
     lq_max_keys = 1024, lq_bank_size = 1400000, lq_allocator_base = 110592, lq_create = Inr 110592,
     lq_create_lru = Inr 1391808, lq_create_worker = (\<lambda>_. Inr 1200000)\<rparr>"

definition demo_l1 :: l1_state where
  "demo_l1 = \<lparr>server_l1_held = False, server_l1_base = 0, server_l1_reserve_bytes = 0, residency_lru_held = False,
     residency_lru_base = 0, ingress_worker = \<lparr>fw_enabled = False, fw_l1 = False, fw_l1_base = 0, fw_termination_addr = 0\<rparr>,
     admission_worker = \<lparr>fw_enabled = False, fw_l1 = False, fw_l1_base = 0, fw_termination_addr = 0\<rparr>,
     shared_server_l1 = (\<lambda>_. None), shared_worker_l1 = (\<lambda>_. None)\<rparr>"

lemma demo_l1_runs: "fst (reserve_l1 demo_l1_request demo_l1) = Inr ()"
proof -
  have "unat (reserve_bytes_for 64) = 294912" by (simp add: reserve_bytes_exact(1))
  then have "reserve_bytes_for 64 = 294912" by (simp add: word_unat_eq_iff)
  then show ?thesis
    by (simp add: reserve_l1_def demo_l1_request_def demo_l1_def lock_server_l1_def attach_server_l1_def
        attach_shared_def create_reservation_def l1_worker_groups_def residency_lru_l1_bytes_def kGetValueCbDepth_def
        kMaxChunkValueBytes_eq kServerL1ReserveMaxBytes_def reservation_layout_def io_defs lift_sum_def Let_def)
qed

theorem l1_reservation_suffices_witness:
  "case reserve_l1 demo_l1_request demo_l1 of
     (Inl e, t) \<Rightarrow> False
   | (Inr u, t) \<Rightarrow> l1_reserved demo_l1_request t
      \<and> (\<exists>l. plan_server_l1 (server_l1_base t) (server_l1_reserve_bytes t) 64 = Inr l)"
proof -
  obtain t where t: "reserve_l1 demo_l1_request demo_l1 = (Inr (), t)" using demo_l1_runs by (metis (full_types) prod.collapse)
  have side: "lq_max_keys demo_l1_request \<le> kMaxKeysHardCap" "unat (lq_allocator_base demo_l1_request) mod 32 = 0"
    "unat (lq_allocator_base demo_l1_request) + 524288 < 2 ^ 32" "lq_ring_slots demo_l1_request = 64"
    by (simp_all add: demo_l1_request_def word_le_nat_alt)
  show ?thesis
    using l1_reservation_suffices [OF t side(1-3)] by (simp add: t side(4) split: sum.splits)
qed

end
