(* ===== verification/Client_Bootstrap.thy ===== *)
theory Client_Bootstrap
  imports Server_Config Server_Layout
begin

text \<open>
  What the two ends of the ESTABLISH handshake agree on (\<^verbatim>\<open>common/protocol/bootstrap.hpp\<close>, the tokens of
  \<^verbatim>\<open>layout.hpp\<close>, \<^verbatim>\<open>server_descriptor.cpp\<close> and \<^verbatim>\<open>config.cpp\<close> of the patch series): the packed words, the
  two messages and their bytes, the server's descriptor and the client's check of it, and the
  resolution of the wire configuration both derive their limits from.
\<close>

section \<open>Packed words\<close>

definition make_client_token :: "u32 \<Rightarrow> u32 \<Rightarrow> u32" where
  "make_client_token client_id generation =
     or (push_bit 5 (and generation 0x7FFFFFF)) (and client_id 0x1F)"

definition client_id_from_token :: "u32 \<Rightarrow> u32" where
  "client_id_from_token token = and token 0x1F"

definition client_generation_from_token :: "u32 \<Rightarrow> u32" where
  "client_generation_from_token token = drop_bit 5 token"

definition next_client_generation :: "u32 \<Rightarrow> u32" where
  "next_client_generation generation =
     (let n = and (generation + 1) 0x7FFFFFF in if n = 0 then 1 else n)"

definition kReturnRouteValidBit :: u32 where "kReturnRouteValidBit = push_bit 31 1"

definition pack_return_route :: "u32 \<Rightarrow> u32 \<Rightarrow> u32 \<Rightarrow> u32 \<Rightarrow> u32 \<Rightarrow> u32 \<Rightarrow> u32" where
  "pack_return_route dst_chip dst_mesh ns_hops ew_hops ns_direction ew_direction =
     or (or (or (or (or (or (and dst_chip 0x1F) (push_bit 5 (and dst_mesh 0xFFFF)))
         (push_bit 21 (and ns_hops 0xF))) (push_bit 25 (and ew_hops 0xF)))
         (push_bit 29 (and ns_direction 1))) (push_bit 30 (and ew_direction 1))) kReturnRouteValidBit"

definition return_route_valid :: "u32 \<Rightarrow> bool" where
  "return_route_valid route \<longleftrightarrow> and route kReturnRouteValidBit \<noteq> 0"
definition return_route_dst_chip :: "u32 \<Rightarrow> u32" where "return_route_dst_chip route = and route 0x1F"
definition return_route_dst_mesh :: "u32 \<Rightarrow> u32" where
  "return_route_dst_mesh route = and (drop_bit 5 route) 0xFFFF"
definition return_route_ns_hops :: "u32 \<Rightarrow> u32" where
  "return_route_ns_hops route = and (drop_bit 21 route) 0xF"
definition return_route_ew_hops :: "u32 \<Rightarrow> u32" where
  "return_route_ew_hops route = and (drop_bit 25 route) 0xF"
definition return_route_ns_direction :: "u32 \<Rightarrow> u32" where
  "return_route_ns_direction route = and (drop_bit 29 route) 1"
definition return_route_ew_direction :: "u32 \<Rightarrow> u32" where
  "return_route_ew_direction route = and (drop_bit 30 route) 1"

lemma field_masks:
  "(0x1F :: u32) = mask 5" "(0xFFFF :: u32) = mask 16" "(0xF :: u32) = mask 4" "(1 :: u32) = mask 1"
  "(0x7FFFFFF :: u32) = mask 27"
  by (simp_all add: mask_eq_exp_minus_1)

lemma bit_mask_u32: "bit (mask n :: u32) k \<longleftrightarrow> k < 32 \<and> k < n"
  by (simp add: bit_mask_iff)

lemma masked_small: "unat (x :: u32) < 2 ^ n \<Longrightarrow> and x (mask n) = x"
  by (simp add: word_unat_eq_iff take_bit_nat_eq_self unsigned_take_bit_eq flip: take_bit_eq_mask)

lemma bit_valid_bit: "bit kReturnRouteValidBit k \<longleftrightarrow> k = 31"
  unfolding kReturnRouteValidBit_def bit_push_bit_iff bit_1_iff by (auto simp: possible_bit_def)

lemmas field_bits = bit_and_iff bit_or_iff bit_push_bit_iff bit_drop_bit_eq bit_mask_u32 bit_valid_bit bit_1_iff

lemma client_token_fields:
  "client_id_from_token (make_client_token i g) = and i 0x1F"
  "client_generation_from_token (make_client_token i g) = and g 0x7FFFFFF"
  unfolding make_client_token_def client_id_from_token_def client_generation_from_token_def field_masks
  by (rule bit_word_eqI; auto simp: field_bits)+

lemma return_route_fields:
  "return_route_valid (pack_return_route c m ns ew nd ed)"
  "return_route_dst_chip (pack_return_route c m ns ew nd ed) = and c 0x1F"
  "return_route_dst_mesh (pack_return_route c m ns ew nd ed) = and m 0xFFFF"
  "return_route_ns_hops (pack_return_route c m ns ew nd ed) = and ns 0xF"
  "return_route_ew_hops (pack_return_route c m ns ew nd ed) = and ew 0xF"
  "return_route_ns_direction (pack_return_route c m ns ew nd ed) = and nd 1"
  "return_route_ew_direction (pack_return_route c m ns ew nd ed) = and ed 1"
proof -
  have "bit (and (pack_return_route c m ns ew nd ed) kReturnRouteValidBit) 31"
    by (simp add: pack_return_route_def field_bits)
  then show "return_route_valid (pack_return_route c m ns ew nd ed)"
    by (auto simp: return_route_valid_def)
  note defs = pack_return_route_def return_route_dst_chip_def return_route_dst_mesh_def
    return_route_ns_hops_def return_route_ew_hops_def return_route_ns_direction_def
    return_route_ew_direction_def field_masks
  show "return_route_dst_chip (pack_return_route c m ns ew nd ed) = and c 0x1F"
    unfolding defs by (rule bit_word_eqI, rename_tac n, case_tac "n < 5") (simp_all add: field_bits)
  show "return_route_dst_mesh (pack_return_route c m ns ew nd ed) = and m 0xFFFF"
    unfolding defs by (rule bit_word_eqI, rename_tac n, case_tac "n < 16") (simp_all add: field_bits)
  show "return_route_ns_hops (pack_return_route c m ns ew nd ed) = and ns 0xF"
    unfolding defs by (rule bit_word_eqI, rename_tac n, case_tac "n < 4") (simp_all add: field_bits)
  show "return_route_ew_hops (pack_return_route c m ns ew nd ed) = and ew 0xF"
    unfolding defs by (rule bit_word_eqI, rename_tac n, case_tac "n < 4") (simp_all add: field_bits)
  show "return_route_ns_direction (pack_return_route c m ns ew nd ed) = and nd 1"
    unfolding defs by (rule bit_word_eqI, rename_tac n, case_tac "n < 1") (simp_all add: field_bits)
  show "return_route_ew_direction (pack_return_route c m ns ew nd ed) = and ed 1"
    unfolding defs by (rule bit_word_eqI, rename_tac n, case_tac "n < 1") (simp_all add: field_bits)
qed

section \<open>The server's descriptor\<close>

definition kWireLayoutVersion :: u32 where "kWireLayoutVersion = 4"
definition kClientPutValueRingDepthMin :: u32 where "kClientPutValueRingDepthMin = 8"
definition kClientPutValueRingDepthDefault :: u32 where "kClientPutValueRingDepthDefault = 8"

text \<open>
  In front of the client's value ring lie 128 bytes of heads, the receive buffer with its
  semaphore, the staging buffer, and two reserved lines; behind it the two semaphores of the ring,
  the session configuration and the lease descriptor.
\<close>

definition kClientPutValueRingBaseOffset :: u32 where
  "kClientPutValueRingBaseOffset = 128 + kFabricMaxPayloadBytes + 16 + kFabricMaxPayloadBytes + 16 + 16"

definition client_l1_footprint_end :: "u64 \<Rightarrow> u64" where
  "client_l1_footprint_end depth =
     ucast kClientPutValueRingBaseOffset + depth * ucast kFabricMaxPayloadBytes + 16 + 16 + 16 + 16"

definition client_l1_reserve_bytes :: "u64 \<Rightarrow> u64" where
  "client_l1_reserve_bytes depth = ((client_l1_footprint_end depth + 4096 - 1) div 4096) * 4096"

record server_descriptor =
  sd_fabric_mesh_id :: u32
  sd_fabric_chip_id :: u32
  sd_l1_base :: u32
  sd_noc_x :: u32
  sd_noc_y :: u32
  sd_ring_slots :: u32
  sd_value_ring_depth :: u32
  sd_max_value_bytes :: u32
  sd_max_key_bytes :: u32
  sd_max_clients :: u32
  sd_reserved :: u32
  sd_num_dram_channels :: u32
  sd_dram_grid_x :: u32
  sd_dram_grid_y :: u32
  sd_wire_layout_version :: u32

definition validate_server_descriptor :: "server_descriptor \<Rightarrow> fault option" where
  "validate_server_descriptor d = first_fault
     [(sd_wire_layout_version d = kWireLayoutVersion, Fatal ''server wire ABI version != client''),
      (sd_max_clients d = kMaxClients, Fatal ''server kMaxClients != client''),
      (2 * kMaxClients \<le> sd_ring_slots d \<and> sd_ring_slots d mod kMaxClients = 0,
         Fatal ''ServerDescriptor ring_slots out of range''),
      (server_pipeline_end (ucast (sd_ring_slots d)) \<le> ucast kServerL1ReserveMaxBytes,
         Fatal ''ServerDescriptor ring_slots exceeds the server L1 reserve ceiling''),
      (sd_l1_base d \<noteq> 0, Fatal ''ServerDescriptor l1_base must be nonzero''),
      (sd_l1_base d mod 32 = 0, Fatal ''ServerDescriptor l1_base must be 32-byte aligned''),
      ((ucast (sd_l1_base d) :: u64) + server_pipeline_end (ucast (sd_ring_slots d)) \<le> 0xFFFFFFFF,
         Fatal ''ServerDescriptor L1 range exceeds the 32-bit device address space''),
      (sd_noc_x d \<le> 63 \<and> sd_noc_y d \<le> 63, Fatal ''ServerDescriptor NoC coordinate exceeds the 6-bit Wormhole encoding''),
      (kClientPutValueRingDepthMin \<le> sd_value_ring_depth d,
         Fatal ''ServerDescriptor value_ring_depth is below the PUT pipeline minimum''),
      (client_l1_reserve_bytes (ucast (sd_value_ring_depth d)) \<le> 0xFFFFFFFF,
         Fatal ''ServerDescriptor value_ring_depth exceeds the 32-bit client L1 offset limit''),
      (kMaxChunkValueBytes \<le> sd_max_value_bytes d \<and> sd_max_value_bytes d \<le> kMaxBuddyValueBytes,
         Fatal ''ServerDescriptor max_value_bytes is outside the supported range''),
      (0 < sd_max_key_bytes d \<and> sd_max_key_bytes d \<le> kMaxPutKeyBytes,
         Fatal ''ServerDescriptor max_key_bytes is outside the supported range''),
      (sd_reserved d = 0, Fatal ''ServerDescriptor reserved field must be zero''),
      (0 < sd_num_dram_channels d \<and> 0 < sd_dram_grid_x d \<and> 0 < sd_dram_grid_y d,
         Fatal ''ServerDescriptor DRAM geometry is empty'')]"

text \<open>
  The descriptor the server publishes. The fabric node, the NoC coordinate and the DRAM geometry of
  the chip are the device library's answers.
\<close>

record chip_identity =
  ci_fabric_mesh_id :: u32
  ci_fabric_chip_id :: u32
  ci_noc_x :: u32
  ci_noc_y :: u32
  ci_num_dram_channels :: u32
  ci_dram_grid_x :: u32
  ci_dram_grid_y :: u32

definition make_descriptor_unchecked :: "server_limits \<Rightarrow> u32 \<Rightarrow> chip_identity option \<Rightarrow> fault + server_descriptor" where
  "make_descriptor_unchecked sl server_l1_base chip =
     (case chip of
        None \<Rightarrow> Inl (Fatal ''server_submesh has no chip at (0,0)'')
      | Some ci \<Rightarrow> Inr
          \<lparr>sd_fabric_mesh_id = ci_fabric_mesh_id ci, sd_fabric_chip_id = ci_fabric_chip_id ci,
           sd_l1_base = server_l1_base, sd_noc_x = ci_noc_x ci, sd_noc_y = ci_noc_y ci,
           sd_ring_slots = sl_ring_slots sl, sd_value_ring_depth = sl_value_ring_depth sl,
           sd_max_value_bytes = sl_max_value_bytes sl, sd_max_key_bytes = sl_max_key_len sl,
           sd_max_clients = kMaxClients, sd_reserved = 0,
           sd_num_dram_channels = ci_num_dram_channels ci, sd_dram_grid_x = ci_dram_grid_x ci,
           sd_dram_grid_y = ci_dram_grid_y ci, sd_wire_layout_version = kWireLayoutVersion\<rparr>)"

definition make_descriptor :: "bool \<Rightarrow> server_limits \<Rightarrow> u32 \<Rightarrow> chip_identity option \<Rightarrow> fault + server_descriptor" where
  "make_descriptor ready sl server_l1_base chip =
     (if ready then make_descriptor_unchecked sl server_l1_base chip
      else Inl (Fatal ''make_descriptor requires a launched, healthy ServerRuntimeCore''))"

section \<open>The messages\<close>

definition kBootstrapMagic :: u32 where "kBootstrapMagic = 0x4B564D41"
definition kBootstrapProtocolVersion :: u32 where "kBootstrapProtocolVersion = 4"
definition kRequiredCapabilities :: u32 where
  "kRequiredCapabilities = or (or (or (or (or (push_bit 0 1) (push_bit 1 1)) (push_bit 2 1)) (push_bit 3 1))
     (push_bit 4 1)) (push_bit 5 1)"

record establish_request =
  eq_magic :: u32
  eq_bootstrap_version :: u32
  eq_wire_layout_version :: u32
  eq_required_capabilities :: u32
  eq_client_mesh_id :: u32
  eq_client_chip_id :: u32
  eq_client_noc_x :: u32
  eq_client_noc_y :: u32
  eq_response_addr :: u32
  eq_response_sem_addr :: u32
  eq_nonce_low :: u32
  eq_nonce_high :: u32
  eq_client_l1_base :: u32
  eq_recv_buffer_addr :: u32
  eq_client_value_ring_depth :: u32
  eq_return_route :: u32
  eq_num_dram_channels :: u32
  eq_dram_grid_x :: u32
  eq_dram_grid_y :: u32
  eq_reserved_tail :: u32

text \<open>The words of the request as \<^verbatim>\<open>reinterpret_cast<const uint32_t *>\<close> reads them.\<close>

definition request_words :: "establish_request \<Rightarrow> u32 list" where
  "request_words q =
     [eq_magic q, eq_bootstrap_version q, eq_wire_layout_version q, eq_required_capabilities q,
      eq_client_mesh_id q, eq_client_chip_id q, eq_client_noc_x q, eq_client_noc_y q,
      eq_response_addr q, eq_response_sem_addr q, eq_nonce_low q, eq_nonce_high q,
      eq_client_l1_base q, eq_recv_buffer_addr q, eq_client_value_ring_depth q, eq_return_route q,
      eq_num_dram_channels q, eq_dram_grid_x q, eq_dram_grid_y q, eq_reserved_tail q]"

record establish_response =
  er_magic :: u32
  er_bootstrap_version :: u32
  er_status :: u32
  er_capabilities :: u32
  er_nonce_low :: u32
  er_nonce_high :: u32
  er_client_token :: u32
  er_reserved :: u32
  er_descriptor :: server_descriptor
  er_reserved_tail :: u32

definition response_words :: "establish_response \<Rightarrow> u32 list" where
  "response_words r =
     (let d = er_descriptor r in
      [er_magic r, er_bootstrap_version r, er_status r, er_capabilities r, er_nonce_low r, er_nonce_high r,
       er_client_token r, er_reserved r,
       sd_fabric_mesh_id d, sd_fabric_chip_id d, sd_l1_base d, sd_noc_x d, sd_noc_y d, sd_ring_slots d,
       sd_value_ring_depth d, sd_max_value_bytes d, sd_max_key_bytes d, sd_max_clients d, sd_reserved d,
       sd_num_dram_channels d, sd_dram_grid_x d, sd_dram_grid_y d, sd_wire_layout_version d,
       er_reserved_tail r])"

definition encode_response :: "establish_response \<Rightarrow> byte list" where
  "encode_response r = concat (map le32 (response_words r))"

definition decode_response :: "byte list \<Rightarrow> establish_response" where
  "decode_response bs =
     (let w = (\<lambda>i. read_le32 bs (4 * i)) in
      \<lparr>er_magic = w 0, er_bootstrap_version = w 1, er_status = w 2, er_capabilities = w 3,
       er_nonce_low = w 4, er_nonce_high = w 5, er_client_token = w 6, er_reserved = w 7,
       er_descriptor =
         \<lparr>sd_fabric_mesh_id = w 8, sd_fabric_chip_id = w 9, sd_l1_base = w 10, sd_noc_x = w 11, sd_noc_y = w 12,
          sd_ring_slots = w 13, sd_value_ring_depth = w 14, sd_max_value_bytes = w 15, sd_max_key_bytes = w 16,
          sd_max_clients = w 17, sd_reserved = w 18, sd_num_dram_channels = w 19, sd_dram_grid_x = w 20,
          sd_dram_grid_y = w 21, sd_wire_layout_version = w 22\<rparr>,
       er_reserved_tail = w 23\<rparr>)"

text \<open>
  The template the server's host leaves in its L1. The device kernel copies it and fills in the
  nonce, the token and, on a refusal, the status.
\<close>

definition response_template :: "server_descriptor \<Rightarrow> establish_response" where
  "response_template d =
     \<lparr>er_magic = kBootstrapMagic, er_bootstrap_version = kBootstrapProtocolVersion, er_status = 0,
      er_capabilities = kRequiredCapabilities, er_nonce_low = 0, er_nonce_high = 0, er_client_token = 0,
      er_reserved = 0, er_descriptor = d, er_reserved_tail = 0\<rparr>"

lemma read_le32_words: "i < length ws \<Longrightarrow> read_le32 (concat (map le32 ws) @ rest) (4 * i) = ws ! i"
proof (induction ws arbitrary: i)
  case (Cons w ws)
  show ?case
  proof (cases i)
    case (Suc j)
    have "read_le32 (le32 w @ bs) (4 + k) = read_le32 bs k" for bs k
      by (simp add: read_le32_def nth_append add.commute)
    from this [of _ "4 * j"] show ?thesis using Cons Suc by simp
  qed simp
qed simp

lemma length_words [simp]: "length (concat (map le32 ws)) = 4 * length ws"
  by (induction ws) simp_all

text \<open>The bytes of a response, with whatever follows them in the shard, read back as the response.\<close>

lemma decode_encode_response: "decode_response (encode_response r @ rest) = r"
proof -
  have w: "read_le32 (encode_response r @ rest) (4 * i) = response_words r ! i" if "i < 24" for i
    using that unfolding encode_response_def by (intro read_le32_words) (simp add: response_words_def Let_def)
  show ?thesis
    unfolding decode_response_def Let_def
    by (subst w, simp)+ (simp add: response_words_def Let_def)
qed

lemma length_encode_response [simp]: "length (encode_response r) = 96"
  by (simp add: encode_response_def response_words_def Let_def)

section \<open>The wire configuration\<close>

definition resolve_client_value_ring_depth :: "env_u64 \<Rightarrow> fault + u32" where
  "resolve_client_value_ring_depth env =
     (case env_or env (ucast kClientPutValueRingDepthDefault) of
        Inl e \<Rightarrow> Inl e
      | Inr depth \<Rightarrow>
          (case first_fault
             [(ucast kClientPutValueRingDepthMin \<le> depth,
                 Fatal ''KVM_CLIENT_L1_RING_SLOTS is below the PUT pipeline minimum''),
              (depth \<le> 0xFFFFFFFF, Fatal ''KVM_CLIENT_L1_RING_SLOTS exceeds uint32 range''),
              (client_l1_reserve_bytes depth \<le> 0xFFFFFFFF,
                 Fatal ''KVM_CLIENT_L1_RING_SLOTS is above the 32-bit kernel offset limit'')] of
             Some e \<Rightarrow> Inl e
           | None \<Rightarrow> Inr (ucast depth)))"

text \<open>The slots of the packet ring, rounded up to whole client partitions.\<close>

definition resolve_ring_slots :: "env_u64 \<Rightarrow> fault + u64" where
  "resolve_ring_slots env =
     (case env_or env 64 of
        Inl e \<Rightarrow> Inl e
      | Inr slots \<Rightarrow>
          if \<not> 2 * ucast kMaxClients \<le> slots then Inl (Fatal ''KVM_SERVER_L1_RING_SLOTS is below the minimum'')
          else if \<not> slots \<le> 0xFFFFFFFF then Inl (Fatal ''KVM_SERVER_L1_RING_SLOTS exceeds uint32 range'')
          else
            (let rounded = (if slots mod ucast kMaxClients \<noteq> 0 then (slots div ucast kMaxClients + 1) * ucast kMaxClients
                            else slots)
             in if \<not> rounded \<le> 0xFFFFFFFF then Inl (Fatal ''KVM_SERVER_L1_RING_SLOTS cannot be rounded up'')
                else if \<not> ((server_pipeline_end rounded + 4096 - 1) div 4096) * 4096 \<le> ucast kServerL1ReserveMaxBytes
                then Inl (Fatal ''KVM_SERVER_L1_RING_SLOTS is above the server L1 reserve ceiling'')
                else Inr rounded))"

definition kMaxMultiChunkValueBytesDefault :: u32 where "kMaxMultiChunkValueBytesDefault = push_bit 20 64"

definition clamp_max_value :: "u64 \<Rightarrow> u64" where
  "clamp_max_value v =
     (let capped = (if ucast kMaxBuddyValueBytes < v then ucast kMaxBuddyValueBytes else v)
      in if capped < ucast kMaxChunkValueBytes then ucast kMaxChunkValueBytes else capped)"

definition resolve_wire_config :: "env_u64 \<Rightarrow> env_u64 \<Rightarrow> env_u64 \<Rightarrow> env_u64 \<Rightarrow> fault + wire_config" where
  "resolve_wire_config ring_env depth_env value_env key_env =
     (case resolve_ring_slots ring_env of
        Inl e \<Rightarrow> Inl e
      | Inr slots \<Rightarrow>
      case resolve_client_value_ring_depth depth_env of
        Inl e \<Rightarrow> Inl e
      | Inr depth \<Rightarrow>
      case env_or value_env (ucast kMaxMultiChunkValueBytesDefault) of
        Inl e \<Rightarrow> Inl e
      | Inr max_value \<Rightarrow>
      if \<not> 0 < max_value then Inl (Fatal ''KVM_COMMON_MAX_VALUE_BYTES must be positive'') else
      case env_or key_env (ucast kMaxPutKeyBytes) of
        Inl e \<Rightarrow> Inl e
      | Inr max_key \<Rightarrow>
      if \<not> 0 < max_key then Inl (Fatal ''KVM_SERVER_MAX_KEY_BYTES must be positive'')
      else if \<not> max_key \<le> ucast kMaxPutKeyBytes then Inl (Fatal ''KVM_SERVER_MAX_KEY_BYTES exceeds the wire key cap'')
      else Inr \<lparr>wc_server_ring_slots = ucast slots, wc_client_value_ring_depth = depth,
                wc_max_value_bytes = ucast (clamp_max_value max_value), wc_max_key_bytes = ucast max_key\<rparr>)"

lemma round_up_u64:
  assumes "unat x + (p - 1) < 18446744073709551616" and "0 < p" and "p < 18446744073709551616"
  shows "unat (((x :: u64) + of_nat p - 1) div of_nat p * of_nat p) = (unat x + (p - 1)) div p * p"
proof -
  have p: "unat (of_nat p :: u64) = p" using assms(3) by (simp add: unat_of_nat)
  have "x + of_nat p - 1 = x + of_nat (p - 1)" using assms(2) by (simp add: of_nat_diff)
  moreover have u: "unat (of_nat (p - 1) :: u64) = p - 1" using assms(3) by (simp add: unat_of_nat)
  have "unat (x + of_nat (p - 1)) = unat x + (p - 1)"
    using assms(1) by (subst unat_add_64) (simp_all only: u)
  ultimately have s: "unat (x + of_nat p - 1) = unat x + (p - 1)" by (simp only:)
  then have q: "unat ((x + of_nat p - 1) div of_nat p) = (unat x + (p - 1)) div p" by (simp add: unat_div p)
  have "(unat x + (p - 1)) div p * p \<le> unat x + (p - 1)" by simp
  then have "unat ((x + of_nat p - 1) div of_nat p) * unat (of_nat p :: u64) < 18446744073709551616"
    using assms(1) unfolding p q by linarith
  from unat_mult_64 [OF this] show ?thesis unfolding p q .
qed

lemma u64_narrowed: "unat (x :: u64) < 4294967296 \<Longrightarrow> ucast (ucast x :: u32) = x"
  by (rule word_unat_eq_iff [THEN iffD2]) (simp add: unat_u64_to_u32)

lemma resolve_ring_slots_range:
  assumes "resolve_ring_slots env = Inr n"
  shows "64 \<le> unat n \<and> unat n mod 32 = 0 \<and> unat n < 4294967296 \<and> unat (server_pipeline_end n) \<le> 524288"
proof -
  obtain m where m: "env_or env 64 = Inr m" using assms by (auto simp: resolve_ring_slots_def split: sum.splits)
  have c: "(ucast kMaxClients :: u64) = 32" by (simp add: kMaxClients_def)
  define r where "r = (if m mod 32 \<noteq> 0 then (m div 32 + 1) * 32 else m)"
  have g: "64 \<le> m" "m \<le> 0xFFFFFFFF" "r \<le> 0xFFFFFFFF" "n = r"
      "((r + 4096 - 1) div 4096) * 4096 \<le> r \<or> True"
      "((server_pipeline_end r + 4096 - 1) div 4096) * 4096 \<le> ucast kServerL1ReserveMaxBytes"
    using assms by (auto simp: resolve_ring_slots_def m c r_def Let_def split: if_splits)
  have m': "64 \<le> unat m" "unat m \<le> 4294967295" using g by (simp_all add: word_le_nat_alt)
  have q: "unat (m div 32 + 1) = unat m div 32 + 1"
    using m' by (subst unat_add_64) (simp_all add: unat_div)
  have "unat ((m div 32 + 1) * 32) = (unat m div 32 + 1) * 32"
    using m' q by (subst unat_mult_64) simp_all
  moreover have "m mod 32 \<noteq> 0 \<longleftrightarrow> unat m mod 32 \<noteq> 0" by (simp add: word_unat_eq_iff unat_mod)
  ultimately have r: "unat r = (if unat m mod 32 \<noteq> 0 then (unat m div 32 + 1) * 32 else unat m)"
    by (simp add: r_def)
  have low: "64 \<le> unat r" "unat r mod 32 = 0" using r m' by (auto split: if_splits)
  have high: "unat r < 4294967296" using g(3) by (simp add: word_le_nat_alt)
  have e: "unat (server_pipeline_end r) = 11440 + 4368 * unat r"
    using prefix_end(7) [of "ucast r"] high by (simp add: u64_narrowed unat_u64_to_u32)
  have "unat (((server_pipeline_end r + of_nat 4096 - 1) div of_nat 4096) * of_nat 4096)
      = (unat (server_pipeline_end r) + (4096 - 1)) div 4096 * 4096"
    by (rule round_up_u64) (use e high in simp_all)
  moreover have "unat (((server_pipeline_end r + 4096 - 1) div 4096) * 4096) \<le> 524288"
    using g(6) by (simp add: word_le_nat_alt kServerL1ReserveMaxBytes_def)
  ultimately have "(unat (server_pipeline_end r) + 4095) div 4096 * 4096 \<le> 524288" by simp
  then have "unat (server_pipeline_end r) \<le> 524288" by linarith
  with low high g(4) show ?thesis by simp
qed

lemma resolve_depth_range:
  assumes "resolve_client_value_ring_depth env = Inr d"
  shows "8 \<le> unat d \<and> client_l1_reserve_bytes (ucast d) \<le> 0xFFFFFFFF"
proof -
  obtain m where m: "env_or env (ucast kClientPutValueRingDepthDefault) = Inr m"
    using assms by (auto simp: resolve_client_value_ring_depth_def split: sum.splits)
  have g: "ucast kClientPutValueRingDepthMin \<le> m" "m \<le> 0xFFFFFFFF" "client_l1_reserve_bytes m \<le> 0xFFFFFFFF" "d = ucast m"
    using assms by (auto simp: resolve_client_value_ring_depth_def m split: if_splits)
  have h: "unat m < 4294967296" "8 \<le> unat m"
    using g(1,2) by (simp_all add: word_le_nat_alt kClientPutValueRingDepthMin_def)
  then show ?thesis using g(3,4) by (simp add: u64_narrowed unat_u64_to_u32)
qed

lemma clamp_max_value_range: "4288 \<le> unat (clamp_max_value v) \<and> unat (clamp_max_value v) \<le> 2248146944"
  by (auto simp: clamp_max_value_def Let_def kMaxBuddyValueBytes_def kMaxChunkValueBytes_eq word_le_nat_alt
      word_less_nat_alt)

lemma resolve_wire_config_range:
  assumes "resolve_wire_config ring_env depth_env value_env key_env = Inr w"
  shows "64 \<le> unat (wc_server_ring_slots w) \<and> unat (wc_server_ring_slots w) mod 32 = 0
    \<and> unat (server_pipeline_end (ucast (wc_server_ring_slots w))) \<le> 524288
    \<and> 8 \<le> unat (wc_client_value_ring_depth w)
    \<and> client_l1_reserve_bytes (ucast (wc_client_value_ring_depth w)) \<le> 0xFFFFFFFF
    \<and> 4288 \<le> unat (wc_max_value_bytes w) \<and> unat (wc_max_value_bytes w) \<le> 2248146944
    \<and> 0 < unat (wc_max_key_bytes w) \<and> unat (wc_max_key_bytes w) \<le> 128"
proof -
  obtain n d v k where e: "resolve_ring_slots ring_env = Inr n" "resolve_client_value_ring_depth depth_env = Inr d"
      "env_or value_env (ucast kMaxMultiChunkValueBytesDefault) = Inr v" "env_or key_env (ucast kMaxPutKeyBytes) = Inr k"
    using assms by (auto simp: resolve_wire_config_def split: sum.splits if_splits)
  have w: "w = \<lparr>wc_server_ring_slots = ucast n, wc_client_value_ring_depth = d,
                wc_max_value_bytes = ucast (clamp_max_value v), wc_max_key_bytes = ucast k\<rparr>"
      "0 < k" "k \<le> ucast kMaxPutKeyBytes"
    using assms by (simp_all add: resolve_wire_config_def e split: if_splits)
  have k: "0 < unat k" "unat k \<le> 128" using w(2,3) by (simp_all add: word_less_nat_alt word_le_nat_alt kMaxPutKeyBytes_def)
  have n: "unat n < 4294967296" and n': "64 \<le> unat n" "unat n mod 32 = 0" "unat (server_pipeline_end n) \<le> 524288"
    using resolve_ring_slots_range [OF e(1)] by auto
  have v: "4288 \<le> unat (clamp_max_value v)" "unat (clamp_max_value v) \<le> 2248146944" using clamp_max_value_range by auto
  show ?thesis
    using n' k v resolve_depth_range [OF e(2)]
    by (simp add: w(1) u64_narrowed [OF n] unat_u64_to_u32 [OF n] unat_u64_to_u32)
qed

section \<open>What the two ends agree on\<close>

lemma derive_limits_wire:
  assumes "derive_limits w a b c = Some (Inr sl)"
  shows "sl_ring_slots sl = wc_server_ring_slots w \<and> sl_value_ring_depth sl = wc_client_value_ring_depth w
    \<and> sl_max_value_bytes sl = wc_max_value_bytes w \<and> sl_max_key_len sl = wc_max_key_bytes w"
  using assms by (auto simp: derive_limits_def split: sum.splits option.splits)

definition chip_usable :: "chip_identity \<Rightarrow> bool" where
  "chip_usable ci \<longleftrightarrow> ci_noc_x ci \<le> 63 \<and> ci_noc_y ci \<le> 63 \<and> 0 < ci_num_dram_channels ci
     \<and> 0 < ci_dram_grid_x ci \<and> 0 < ci_dram_grid_y ci"

text \<open>
  C30: The descriptor a server publishes passes every check of the client, whatever the environment
  configured: for every wire configuration that resolves and every set of limits derived from it, at
  a non-zero aligned L1 base, the template the server writes is read by the client, from the raw
  bytes and whatever follows them, as that descriptor, and \<open>validate_server_descriptor\<close> accepts it.
\<close>

theorem published_descriptor_accepted:
  assumes "resolve_wire_config ring_env depth_env value_env key_env = Inr wire"
    and "derive_limits wire keys_env heap_env poll_env = Some (Inr sl)"
    and "l1_base \<noteq> 0" and "l1_base mod 32 = 0" and "unat l1_base + 524288 < 4294967296"
    and "chip_usable ci"
  shows "\<exists>d. make_descriptor_unchecked sl l1_base (Some ci) = Inr d
    \<and> er_descriptor (decode_response (encode_response (response_template d) @ rest)) = d
    \<and> validate_server_descriptor d = None"
proof -
  note w = resolve_wire_config_range [OF assms(1)] and sl = derive_limits_wire [OF assms(2)]
  have p: "unat (server_pipeline_end (ucast (wc_server_ring_slots wire))) \<le> 524288" using w by simp
  then have l: "unat ((ucast l1_base :: u64) + server_pipeline_end (ucast (wc_server_ring_slots wire))) \<le> 4294967295"
    using assms(5) by (subst unat_add_64) simp_all
  have m: "wc_server_ring_slots wire mod 32 = 0" using w by (simp add: word_unat_eq_iff unat_mod)
  let ?d = "\<lparr>sd_fabric_mesh_id = ci_fabric_mesh_id ci, sd_fabric_chip_id = ci_fabric_chip_id ci,
           sd_l1_base = l1_base, sd_noc_x = ci_noc_x ci, sd_noc_y = ci_noc_y ci,
           sd_ring_slots = sl_ring_slots sl, sd_value_ring_depth = sl_value_ring_depth sl,
           sd_max_value_bytes = sl_max_value_bytes sl, sd_max_key_bytes = sl_max_key_len sl,
           sd_max_clients = kMaxClients, sd_reserved = 0,
           sd_num_dram_channels = ci_num_dram_channels ci, sd_dram_grid_x = ci_dram_grid_x ci,
           sd_dram_grid_y = ci_dram_grid_y ci, sd_wire_layout_version = kWireLayoutVersion\<rparr>"
  have "validate_server_descriptor ?d = None"
    using w p l m assms(3,4,6)
    by (simp add: validate_server_descriptor_def sl kMaxClients_def kServerL1ReserveMaxBytes_def chip_usable_def
        kClientPutValueRingDepthMin_def kMaxBuddyValueBytes_def kMaxChunkValueBytes_eq kMaxPutKeyBytes_def
        word_le_nat_alt word_less_nat_alt)
  then show ?thesis
    by (auto simp: make_descriptor_unchecked_def decode_encode_response response_template_def)
qed

declare pow2_loop.simps [code]

theorem published_descriptor_accepted_witness:
  "\<exists>d. make_descriptor_unchecked
       \<lparr>sl_max_value_bytes = 4288, sl_max_get_chunks = 1, sl_max_keys = 1024, sl_value_heap_bytes = 1434541824,
        sl_num_units = 334548, sl_ring_slots = 96, sl_value_ring_depth = 8, sl_max_key_len = 128,
        sl_dir_entry_bytes = 160, sl_num_buckets = 2048, sl_poll_us = 10\<rparr> 1024
       (Some \<lparr>ci_fabric_mesh_id = 0, ci_fabric_chip_id = 3, ci_noc_x = 18, ci_noc_y = 18,
              ci_num_dram_channels = 12, ci_dram_grid_x = 12, ci_dram_grid_y = 1\<rparr>) = Inr d
     \<and> er_descriptor (decode_response (encode_response (response_template d) @ [1, 2, 3])) = d
     \<and> validate_server_descriptor d = None"
proof (rule published_descriptor_accepted)
  show "resolve_wire_config (Inr (Some 70)) (Inr None) (Inr (Some 5)) (Inr None)
      = Inr \<lparr>wc_server_ring_slots = 96, wc_client_value_ring_depth = 8, wc_max_value_bytes = 4288, wc_max_key_bytes = 128\<rparr>"
    by code_simp
  show "derive_limits \<lparr>wc_server_ring_slots = 96, wc_client_value_ring_depth = 8, wc_max_value_bytes = 4288,
        wc_max_key_bytes = 128\<rparr> (Inr None) (Inr None) (Inr None)
      = Some (Inr \<lparr>sl_max_value_bytes = 4288, sl_max_get_chunks = 1, sl_max_keys = 1024,
          sl_value_heap_bytes = 1434541824, sl_num_units = 334548, sl_ring_slots = 96, sl_value_ring_depth = 8,
          sl_max_key_len = 128, sl_dir_entry_bytes = 160, sl_num_buckets = 2048, sl_poll_us = 10\<rparr>)"
    by code_simp
qed (simp_all add: chip_usable_def)

text \<open>A generation is never zero and never leaves its field.\<close>

lemma next_client_generation_ok: "next_client_generation g \<noteq> 0 \<and> and (next_client_generation g) 0x7FFFFFF = next_client_generation g"
  unfolding next_client_generation_def Let_def by (auto simp: and.assoc)

lemma client_token_of_next:
  "client_generation_from_token (make_client_token i (next_client_generation g)) \<noteq> 0"
  using next_client_generation_ok [of g] by (simp add: client_token_fields)

end
