(* ===== verification/Client_Connection.thy ===== *)
theory Client_Connection
  imports Client_Bootstrap
begin

text \<open>
  How a client finds its server before it sends anything: \<^verbatim>\<open>resolve_client_connection\<close> and the choice of
  the fabric connection of \<^verbatim>\<open>client_connection.cpp\<close>, with \<^verbatim>\<open>bootstrap_contract.hpp\<close>. The fabric's
  topology (nodes, links, routes, coordinates) and the device's worker grid are arguments. Mesh
  coordinates become signed 32-bit integers as in the source; their difference is written over \<open>int\<close>,
  which is the C++ value wherever that difference is defined.
\<close>

definition sum_bind :: "fault + 'a \<Rightarrow> ('a \<Rightarrow> fault + 'b) \<Rightarrow> fault + 'b" where
  "sum_bind m f = (case m of Inl e \<Rightarrow> Inl e | Inr a \<Rightarrow> f a)"

definition ensure :: "(bool \<times> fault) list \<Rightarrow> fault + unit" where
  "ensure cs = (case first_fault cs of Some e \<Rightarrow> Inl e | None \<Rightarrow> Inr ())"

lemma sum_bind_simps [simp]: "sum_bind (Inl e) f = Inl e" "sum_bind (Inr a) f = f a"
  by (simp_all add: sum_bind_def)

lemma sum_bind_InrE:
  assumes "sum_bind m f = Inr b"
  obtains a where "m = Inr a" and "f a = Inr b"
  using assms by (cases m) simp_all

lemma ensure_Inr: "ensure cs = Inr u \<longleftrightarrow> (\<forall>c \<in> set cs. fst c)"
proof -
  have "first_fault cs = None \<longleftrightarrow> (\<forall>c \<in> set cs. fst c)" by (induction cs rule: first_fault.induct) simp_all
  then show ?thesis by (auto simp: ensure_def split: option.splits)
qed

section \<open>The worker core of the handshake\<close>

definition kBootstrapWorkerNocX :: u32 where "kBootstrapWorkerNocX = 18"
definition kBootstrapWorkerNocY :: u32 where "kBootstrapWorkerNocY = 18"

definition is_bootstrap_worker_noc :: "u32 \<Rightarrow> u32 \<Rightarrow> u32 \<Rightarrow> u32 \<Rightarrow> bool" where
  "is_bootstrap_worker_noc logical_x logical_y noc_x noc_y \<longleftrightarrow>
     noc_x = kBootstrapWorkerNocX + logical_x \<and> noc_y = kBootstrapWorkerNocY + logical_y"

type_synonym core_coord = "u64 \<times> u64"

record bootstrap_device =
  bd_wormhole :: bool
  bd_worker_core :: "core_coord \<Rightarrow> core_coord"

definition require_bootstrap_worker_noc :: "bootstrap_device option \<Rightarrow> core_coord \<Rightarrow> fault + core_coord" where
  "require_bootstrap_worker_noc device logical =
     (case device of
        None \<Rightarrow> Inl (Fatal ''has no selected device'')
      | Some d \<Rightarrow>
          (let translated = bd_worker_core d logical in
           sum_bind (ensure
             [(bd_wormhole d, Fatal ''endpoint-free bootstrap supports only WORMHOLE_B0''),
              (is_bootstrap_worker_noc (ucast (fst logical)) (ucast (snd logical))
                 (ucast (fst translated)) (ucast (snd translated)),
               Fatal ''requires logical worker to map to canonical translated NoC coordinate'')])
           (\<lambda>_. Inr translated)))"

section \<open>Resolving the connection\<close>

record fabric_node =
  fn_mesh_id :: u32
  fn_chip_id :: u32

record fabric =
  fa_2d :: bool
  fa_gateway :: fabric_node
  fa_link_count :: u32
  fa_reachable :: "fabric_node \<Rightarrow> fabric_node \<Rightarrow> bool"
  fa_link_indices :: "fabric_node \<Rightarrow> fabric_node \<Rightarrow> u32 list"
  fa_route_word :: "fabric_node \<Rightarrow> u32"
  fa_coordinate :: "fabric_node \<Rightarrow> u32 \<times> u32"

record client_options =
  co_static :: bool
  co_server_node :: "fabric_node option"
  co_worker_group :: u32
  co_lane :: u32

record client_site =
  cs_device :: "bootstrap_device option"
  cs_grid :: core_coord
  cs_l1_base :: u32
  cs_node :: fabric_node

record connection =
  cn_server_noc_x :: u32
  cn_server_noc_y :: u32
  cn_bootstrap_addr :: u32
  cn_client_noc_x :: u32
  cn_client_noc_y :: u32
  cn_mesh_id :: u32
  cn_chip_id :: u32
  cn_route_word :: u32
  cn_return_route :: u32
  cn_link_idx :: u32

definition kClientCore :: core_coord where "kClientCore = (0, 0)"

text \<open>The hops between two rows or columns, and the direction bit.\<close>

definition coordinate_delta :: "u32 \<Rightarrow> u32 \<Rightarrow> int" where
  "coordinate_delta client gateway = sint client - sint gateway"

definition delta_hops :: "int \<Rightarrow> u32" where
  "delta_hops delta = word_of_int (if delta < 0 then - delta else delta)"

definition delta_direction :: "int \<Rightarrow> u32" where
  "delta_direction delta = (if 0 < delta then 1 else 0)"

definition gateway_link :: "fabric \<Rightarrow> client_options \<Rightarrow> fabric_node \<Rightarrow> fault + u32" where
  "gateway_link fa co node =
     (if node = fa_gateway fa then Inr 0
      else
        (let links = fa_link_indices fa node (fa_gateway fa) in
         sum_bind (ensure
           [(fa_reachable fa node (fa_gateway fa), Fatal ''the Client cannot reach the configured static gateway chip''),
            (links \<noteq> [], Fatal ''the Client has no forwarding link plane toward static gateway chip'')])
         (\<lambda>_. Inr (links ! (unat (co_lane co) mod length links)))))"

definition gateway_return_route :: "fabric \<Rightarrow> fabric_node \<Rightarrow> fault + u32" where
  "gateway_return_route fa node =
     (let row_delta = coordinate_delta (fst (fa_coordinate fa node)) (fst (fa_coordinate fa (fa_gateway fa)));
          column_delta = coordinate_delta (snd (fa_coordinate fa node)) (snd (fa_coordinate fa (fa_gateway fa)))
      in sum_bind (ensure
           [(fn_chip_id node \<le> 0x1F \<and> fn_mesh_id node \<le> 0xFFFF
               \<and> delta_hops row_delta \<le> 0xF \<and> delta_hops column_delta \<le> 0xF,
             Fatal ''static Galaxy return route does not fit the ESTABLISH encoding'')])
         (\<lambda>_. Inr (pack_return_route (fn_chip_id node) (fn_mesh_id node) (delta_hops row_delta)
                (delta_hops column_delta) (delta_direction row_delta) (delta_direction column_delta))))"

definition kvcache_wire_link_index :: "fabric \<Rightarrow> fabric_node \<Rightarrow> fabric_node \<Rightarrow> fault + u32" where
  "kvcache_wire_link_index fa src dst =
     (case fa_link_indices fa src dst of
        [] \<Rightarrow> Inl (Fatal ''no fabric forwarding link'')
      | link # _ \<Rightarrow> Inr link)"

text \<open>The route part: route word to the server, return route, link.\<close>

definition resolve_route :: "fabric \<Rightarrow> client_options \<Rightarrow> fabric_node \<Rightarrow> fault + (u32 \<times> u32 \<times> u32)" where
  "resolve_route fa co node =
     (if co_static co then
        sum_bind (ensure
          [(co_server_node co = None, Fatal ''static Galaxy-to-T3K mode must not receive a Server node''),
           (fa_2d fa, Fatal ''static Galaxy-to-T3K mode requires FABRIC_2D''),
           (co_lane co < fa_link_count fa, Fatal ''static inter-mesh lane is outside configured link count''),
           (fn_mesh_id node = fn_mesh_id (fa_gateway fa),
              Fatal ''the Client and configured static gateway must be in the same local mesh'')]) (\<lambda>_.
        sum_bind (gateway_link fa co node) (\<lambda>link.
        sum_bind (gateway_return_route fa node) (\<lambda>route.
        Inr (fa_route_word fa (fa_gateway fa), route, link))))
      else
        case co_server_node co of
          None \<Rightarrow> Inl (Fatal ''standard Fabric mode requires a Server FabricNodeId'')
        | Some server_node \<Rightarrow>
            sum_bind (ensure
              [(fn_mesh_id node = fn_mesh_id server_node,
                  Fatal ''client/server mesh IDs differ''),
               (node \<noteq> server_node, Fatal ''client and server must resolve to different Fabric nodes''),
               (fa_reachable fa node server_node, Fatal ''client and server are not Fabric-reachable'')]) (\<lambda>_.
            sum_bind (kvcache_wire_link_index fa node server_node) (\<lambda>link.
            Inr (fa_route_word fa server_node, 0, link))))"

definition resolve_client_connection :: "fabric \<Rightarrow> client_options \<Rightarrow> client_site \<Rightarrow> fault + connection" where
  "resolve_client_connection fa co cs =
     sum_bind (ensure
       [(cs_device cs \<noteq> None, Fatal ''Client has no device at the selected coordinate''),
        (ucast (co_worker_group co) < fst (cs_grid cs) \<and> 3 \<le> snd (cs_grid cs),
           Fatal ''KVM Server worker group requires logical cores outside worker grid'')]) (\<lambda>_.
     sum_bind (require_bootstrap_worker_noc (cs_device cs) (ucast (co_worker_group co), 0)) (\<lambda>server_virtual.
     sum_bind (require_bootstrap_worker_noc (cs_device cs) kClientCore) (\<lambda>client_virtual.
     let noc_x = ucast (fst server_virtual); noc_y = ucast (snd server_virtual);
         addr = cs_l1_base cs + kBootstrapRequestBaseOffset
     in
     sum_bind (ensure
       [(noc_x \<le> 63 \<and> noc_y \<le> 63, Fatal ''derived Server bootstrap NoC coordinate exceeds the 6-bit Wormhole encoding''),
        (addr \<noteq> 0 \<and> addr mod 16 = 0, Fatal ''derived Server bootstrap L1 address must be nonzero and 16-byte aligned''),
        (fn_chip_id (cs_node cs) < kBootstrapPeerSlots, Fatal ''client chip_id is at or beyond the Server bootstrap table'')]) (\<lambda>_.
     sum_bind (resolve_route fa co (cs_node cs)) (\<lambda>(route_word, return_route, link).
     Inr \<lparr>cn_server_noc_x = noc_x, cn_server_noc_y = noc_y, cn_bootstrap_addr = addr,
          cn_client_noc_x = ucast (fst client_virtual), cn_client_noc_y = ucast (snd client_virtual),
          cn_mesh_id = fn_mesh_id (cs_node cs), cn_chip_id = fn_chip_id (cs_node cs),
          cn_route_word = route_word, cn_return_route = return_route, cn_link_idx = link\<rparr>)))))"

text \<open>Which fabric connection the handshake workload is given.\<close>

datatype fabric_connection =
    Static_Lane u32
  | Fabric_Link fabric_node fabric_node u32

definition server_connection :: "fabric \<Rightarrow> client_options \<Rightarrow> fabric_node \<Rightarrow> u32 \<Rightarrow> fault + fabric_connection" where
  "server_connection fa co node link =
     (if co_static co then
        Inr (if node = fa_gateway fa then Static_Lane (co_lane co) else Fabric_Link node (fa_gateway fa) link)
      else
        case co_server_node co of
          None \<Rightarrow> Inl (Fatal ''standard Fabric mode has no Server node'')
        | Some server_node \<Rightarrow> Inr (Fabric_Link node server_node link))"

section \<open>A resolved connection is sound\<close>

lemma delta_hops_exact: "uint (delta_hops (coordinate_delta a b)) = \<bar>sint a - sint b\<bar>"
proof -
  have "\<bar>sint a - sint b\<bar> < 2 ^ 32"
    using sint_range_size [of a] sint_range_size [of b] by (simp add: word_size) linarith
  then show ?thesis
    unfolding delta_hops_def coordinate_delta_def
    by (auto simp: uint_word_of_int abs_if)
qed

text \<open>
  The return route describes the way from the gateway back to the client: the fields that the
  server's kernel unpacks are the client's chip and mesh and the distance and direction between the
  two mesh coordinates.
\<close>

definition route_leads_back :: "fabric \<Rightarrow> fabric_node \<Rightarrow> u32 \<Rightarrow> bool" where
  "route_leads_back fa node route \<longleftrightarrow>
     (let (client_row, client_column) = fa_coordinate fa node;
          (gateway_row, gateway_column) = fa_coordinate fa (fa_gateway fa)
      in return_route_valid route \<and> return_route_dst_chip route = fn_chip_id node
       \<and> return_route_dst_mesh route = fn_mesh_id node
       \<and> uint (return_route_ns_hops route) = \<bar>sint client_row - sint gateway_row\<bar>
       \<and> uint (return_route_ew_hops route) = \<bar>sint client_column - sint gateway_column\<bar>
       \<and> (return_route_ns_direction route = 1 \<longleftrightarrow> sint gateway_row < sint client_row)
       \<and> (return_route_ew_direction route = 1 \<longleftrightarrow> sint gateway_column < sint client_column))"

lemma gateway_return_route_back:
  assumes "gateway_return_route fa node = Inr route"
  shows "route_leads_back fa node route"
proof -
  obtain cr cc gr gc where xy: "fa_coordinate fa node = (cr, cc)" "fa_coordinate fa (fa_gateway fa) = (gr, gc)"
    by (metis surj_pair)
  have le: "fn_chip_id node \<le> 0x1F" "fn_mesh_id node \<le> 0xFFFF"
      "delta_hops (coordinate_delta cr gr) \<le> 0xF" "delta_hops (coordinate_delta cc gc) \<le> 0xF"
    and r: "route = pack_return_route (fn_chip_id node) (fn_mesh_id node) (delta_hops (coordinate_delta cr gr))
        (delta_hops (coordinate_delta cc gc)) (delta_direction (coordinate_delta cr gr))
        (delta_direction (coordinate_delta cc gc))"
    using assms by (auto simp: gateway_return_route_def xy Let_def ensure_Inr elim!: sum_bind_InrE)
  have fits: "and (fn_chip_id node) 0x1F = fn_chip_id node" "and (fn_mesh_id node) 0xFFFF = fn_mesh_id node"
      "and (delta_hops (coordinate_delta cr gr)) 0xF = delta_hops (coordinate_delta cr gr)"
      "and (delta_hops (coordinate_delta cc gc)) 0xF = delta_hops (coordinate_delta cc gc)"
    using masked_small [of "fn_chip_id node" 5] masked_small [of "fn_mesh_id node" 16]
      masked_small [of "delta_hops (coordinate_delta cr gr)" 4] masked_small [of "delta_hops (coordinate_delta cc gc)" 4] le
    unfolding field_masks(1,2,3) [symmetric] word_le_nat_alt by simp_all
  have d: "and (delta_direction x) 1 = delta_direction x" for x by (simp add: delta_direction_def)
  show ?thesis
    unfolding route_leads_back_def r return_route_fields xy fits d Let_def prod.case delta_hops_exact
    by (simp add: delta_direction_def coordinate_delta_def return_route_fields)
qed

lemma widen_narrow [simp]: "ucast (ucast (x :: u32) :: u64) = x"
  by (simp add: word_unat_eq_iff unat_u64_to_u32)

text \<open>The connection the handshake uses goes over a link that exists, to the server or the gateway.\<close>

fun connection_usable :: "fabric \<Rightarrow> client_options \<Rightarrow> fabric_node \<Rightarrow> fabric_connection \<Rightarrow> bool" where
  "connection_usable fa co node (Static_Lane lane) \<longleftrightarrow>
     co_static co \<and> node = fa_gateway fa \<and> lane = co_lane co \<and> lane < fa_link_count fa"
| "connection_usable fa co node (Fabric_Link src dst link) \<longleftrightarrow>
     src = node \<and> dst \<noteq> node \<and> fn_mesh_id dst = fn_mesh_id node \<and> fa_reachable fa node dst
     \<and> link \<in> set (fa_link_indices fa node dst)
     \<and> (if co_static co then dst = fa_gateway fa else co_server_node co = Some dst)"

lemma gateway_link_usable:
  assumes "gateway_link fa co node = Inr link" and "co_static co" and "co_lane co < fa_link_count fa"
    and "fn_mesh_id node = fn_mesh_id (fa_gateway fa)"
  shows "\<exists>conn. server_connection fa co node link = Inr conn \<and> connection_usable fa co node conn"
proof (cases "node = fa_gateway fa")
  case True
  then show ?thesis using assms by (simp add: server_connection_def)
next
  case False
  then obtain k where "fa_link_indices fa node (fa_gateway fa) \<noteq> []" "fa_reachable fa node (fa_gateway fa)"
      "link = fa_link_indices fa node (fa_gateway fa) ! (k mod length (fa_link_indices fa node (fa_gateway fa)))"
    using assms(1) by (auto simp: gateway_link_def Let_def ensure_Inr elim!: sum_bind_InrE)
  then show ?thesis using False assms by (auto simp: server_connection_def intro!: nth_mem)
qed

lemma resolve_route_usable:
  assumes "resolve_route fa co node = Inr (word, route, link)"
  shows "(\<exists>conn. server_connection fa co node link = Inr conn \<and> connection_usable fa co node conn)
    \<and> (if co_static co then route_leads_back fa node route \<and> word = fa_route_word fa (fa_gateway fa)
       else \<not> return_route_valid route \<and> map_option (fa_route_word fa) (co_server_node co) = Some word)"
proof (cases "co_static co")
  case True
  have g: "co_lane co < fa_link_count fa" "fn_mesh_id node = fn_mesh_id (fa_gateway fa)"
      "gateway_link fa co node = Inr link" "gateway_return_route fa node = Inr route"
      "word = fa_route_word fa (fa_gateway fa)"
    using assms by (auto simp: resolve_route_def True ensure_Inr elim!: sum_bind_InrE)
  then show ?thesis
    using gateway_link_usable [OF g(3) True g(1,2)] gateway_return_route_back [OF g(4)] True by simp
next
  case False
  then obtain sv links where "co_server_node co = Some sv" "fn_mesh_id node = fn_mesh_id sv" "node \<noteq> sv"
      "fa_reachable fa node sv" "fa_link_indices fa node sv = link # links" "word = fa_route_word fa sv" "route = 0"
    using assms
    by (auto simp: resolve_route_def ensure_Inr kvcache_wire_link_index_def split: option.splits list.splits
        elim!: sum_bind_InrE)
  then show ?thesis using False by (simp add: server_connection_def return_route_valid_def)
qed

text \<open>
  C29: A connection that resolves is sound. The server's worker and the client's core sit at their
  canonical coordinates, the bootstrap address is the aligned slot table of the server's L1 and the
  client's chip has a slot in it; the handshake goes over an existing link to a node of the client's
  own mesh, the route word is that node's, and in static mode the return route the server unpacks
  leads back to the client, over exactly the distance between the two mesh coordinates.
\<close>

theorem resolve_client_connection_sound:
  assumes "resolve_client_connection fa co cs = Inr c"
  shows "cn_server_noc_x c = 18 + co_worker_group co \<and> cn_server_noc_x c \<le> 63 \<and> cn_server_noc_y c = 18
    \<and> cn_client_noc_x c = 18 \<and> cn_client_noc_y c = 18
    \<and> cn_bootstrap_addr c = cs_l1_base cs + kBootstrapRequestBaseOffset \<and> cn_bootstrap_addr c \<noteq> 0
    \<and> cn_bootstrap_addr c mod 16 = 0
    \<and> cn_mesh_id c = fn_mesh_id (cs_node cs) \<and> cn_chip_id c = fn_chip_id (cs_node cs)
    \<and> cn_chip_id c < kBootstrapPeerSlots
    \<and> (\<exists>conn. server_connection fa co (cs_node cs) (cn_link_idx c) = Inr conn
              \<and> connection_usable fa co (cs_node cs) conn)
    \<and> (if co_static co
       then route_leads_back fa (cs_node cs) (cn_return_route c) \<and> cn_route_word c = fa_route_word fa (fa_gateway fa)
       else \<not> return_route_valid (cn_return_route c)
            \<and> map_option (fa_route_word fa) (co_server_node co) = Some (cn_route_word c))"
proof -
  obtain sx sy cx cy word route link where
    sv: "require_bootstrap_worker_noc (cs_device cs) (ucast (co_worker_group co), 0) = Inr (sx, sy)"
    and cv: "require_bootstrap_worker_noc (cs_device cs) kClientCore = Inr (cx, cy)"
    and ok: "ucast sx \<le> (63 :: u32)" "cs_l1_base cs + kBootstrapRequestBaseOffset \<noteq> 0"
      "(cs_l1_base cs + kBootstrapRequestBaseOffset) mod 16 = 0" "fn_chip_id (cs_node cs) < kBootstrapPeerSlots"
    and rt: "resolve_route fa co (cs_node cs) = Inr (word, route, link)"
    and c: "c = \<lparr>cn_server_noc_x = ucast sx, cn_server_noc_y = ucast sy,
          cn_bootstrap_addr = cs_l1_base cs + kBootstrapRequestBaseOffset,
          cn_client_noc_x = ucast cx, cn_client_noc_y = ucast cy,
          cn_mesh_id = fn_mesh_id (cs_node cs), cn_chip_id = fn_chip_id (cs_node cs),
          cn_route_word = word, cn_return_route = route, cn_link_idx = link\<rparr>"
    using assms unfolding resolve_client_connection_def
    by (auto simp: ensure_Inr Let_def split: prod.splits elim!: sum_bind_InrE)
  have "ucast sx = 18 + co_worker_group co \<and> ucast sy = (18 :: u32)"
    using sv by (auto simp: require_bootstrap_worker_noc_def ensure_Inr Let_def is_bootstrap_worker_noc_def
        kBootstrapWorkerNocX_def kBootstrapWorkerNocY_def widen_narrow split: option.splits elim!: sum_bind_InrE)
  moreover have "ucast cx = (18 :: u32) \<and> ucast cy = (18 :: u32)"
    using cv by (auto simp: require_bootstrap_worker_noc_def ensure_Inr Let_def is_bootstrap_worker_noc_def
        kBootstrapWorkerNocX_def kBootstrapWorkerNocY_def kClientCore_def split: option.splits elim!: sum_bind_InrE)
  ultimately show ?thesis
    using ok resolve_route_usable [OF rt] by (simp add: c)
qed

theorem resolve_client_connection_sound_witness:
  "route_leads_back
     \<lparr>fa_2d = True, fa_gateway = \<lparr>fn_mesh_id = 0, fn_chip_id = 0\<rparr>, fa_link_count = 4, fa_reachable = (\<lambda>_ _. True),
      fa_link_indices = (\<lambda>_ _. [0, 1]), fa_route_word = fn_chip_id,
      fa_coordinate = (\<lambda>n. (fn_chip_id n div 8, fn_chip_id n mod 8))\<rparr>
     \<lparr>fn_mesh_id = 0, fn_chip_id = 11\<rparr> (or (or (or 11 (push_bit 21 1)) (push_bit 25 3)) (push_bit 29 7))"
proof -
  let ?fa = "\<lparr>fa_2d = True, fa_gateway = \<lparr>fn_mesh_id = 0, fn_chip_id = 0\<rparr>, fa_link_count = 4, fa_reachable = (\<lambda>_ _. True),
      fa_link_indices = (\<lambda>_ _. [0, 1]), fa_route_word = fn_chip_id,
      fa_coordinate = (\<lambda>n. (fn_chip_id n div 8, fn_chip_id n mod 8))\<rparr>"
  let ?co = "\<lparr>co_static = True, co_server_node = None, co_worker_group = 2, co_lane = 3\<rparr>"
  let ?cs = "\<lparr>cs_device = Some \<lparr>bd_wormhole = True, bd_worker_core = (\<lambda>(x, y). (x + 18, y + 18))\<rparr>,
      cs_grid = (8, 8), cs_l1_base = 1024, cs_node = \<lparr>fn_mesh_id = 0, fn_chip_id = 11\<rparr>\<rparr>"
  have "resolve_client_connection ?fa ?co ?cs = Inr
      \<lparr>cn_server_noc_x = 20, cn_server_noc_y = 18, cn_bootstrap_addr = 1040, cn_client_noc_x = 18, cn_client_noc_y = 18,
       cn_mesh_id = 0, cn_chip_id = 11, cn_route_word = 0,
       cn_return_route = or (or (or 11 (push_bit 21 1)) (push_bit 25 3)) (push_bit 29 7), cn_link_idx = 1\<rparr>"
    by code_simp
  from resolve_client_connection_sound [OF this] show ?thesis by simp
qed

end
