(* ===== verification/Client_Session.thy ===== *)
theory Client_Session
  imports Client_Connection
begin

text \<open>
  A client's session (\<^verbatim>\<open>client_lifecycle.cpp\<close>, the ESTABLISH half of \<^verbatim>\<open>client_connection.cpp\<close>,
  \<^verbatim>\<open>client_operations_adapter.cpp\<close>): the state of \<^verbatim>\<open>Client::Impl\<close>, the process-wide registry and
  quarantine list, the handshake with its attempts, the constructor, close, destruction and the
  operations. The backend's operations object (\<^verbatim>\<open>client_operations.cpp\<close> of the patch series) is its
  state; what its requests return and the state they leave it in are arguments, and so are the
  device's answers.
\<close>

section \<open>State\<close>

datatype client_phase = Constructing | Established | Quarantined | Closed

datatype operations_state = Ops_Constructing | Ops_Established | Ops_Quarantined | Ops_Closed

type_synonym client_key = "nat \<times> (nat \<times> nat)"

record handshake_workload =
  hw_args :: "u32 list"
  hw_connection :: fabric_connection

record quarantine_resources_record =
  qr_submesh_owner :: "nat option"
  qr_tx_buf :: "u32 option"
  qr_response_buf :: "u32 option"
  qr_sem_buf :: "u32 option"
  qr_workload :: "handshake_workload option"

record client =
  cl_key :: client_key
  cl_options :: client_options
  cl_node :: fabric_node
  cl_connection :: connection
  cl_phase :: client_phase
  cl_operations :: "operations_state option"
  cl_submesh_owner :: "nat option"
  cl_tx_buf :: "u32 option"
  cl_response_buf :: "u32 option"
  cl_sem_buf :: "u32 option"
  cl_workload :: "handshake_workload option"
  cl_holder :: bool
  cl_may_have_started :: bool
  cl_attempts_started :: u32
  cl_timeout_ms :: u32
  cl_attempt_cycles :: u64
  cl_nonce_low :: u32
  cl_nonce_high :: u32
  cl_profile :: bool
  cl_put_phase_profile :: bool
  cl_profile_detail :: nat
  cl_ring_depth :: u32
  cl_l1_base :: u32
  cl_recv_base :: u32
  cl_tx_base :: u32
  cl_response_base :: u32
  cl_sem_base :: u32
  cl_server_desc :: "server_descriptor option"
  cl_token :: u32

text \<open>
  The process: the registry of keys, the published quarantine holders (newest first), the nonce
  counter, and what became of each operations handle that was let go: \<open>True\<close> if its deleter kept
  the object alive because it was quarantined.
\<close>

record client_process =
  ps_active_clients :: "client_key set"
  ps_quarantine :: "quarantine_resources_record list"
  ps_nonce_counter :: u64
  ps_handles_kept :: "bool list"

record session =
  me :: client
  proc :: client_process

definition on_me :: "(client \<Rightarrow> client) \<Rightarrow> (session, unit) io" where
  "on_me f = modify (me_update f)"

definition on_proc :: "(client_process \<Rightarrow> client_process) \<Rightarrow> (session, unit) io" where
  "on_proc f = modify (proc_update f)"

section \<open>Letting go of the operations, quarantine\<close>

text \<open>\<^verbatim>\<open>operations_.reset()\<close>: the deleter leaves a quarantined object alone.\<close>

definition reset_operations :: "(session, unit) io" where
  "reset_operations = bindE (gets (\<lambda>s. cl_operations (me s))) (\<lambda>ops.
     case ops of
       None \<Rightarrow> ret ()
     | Some st \<Rightarrow>
         seqE (on_proc (ps_handles_kept_update ((#) (st = Ops_Quarantined))))
              (on_me (cl_operations_update (\<lambda>_. None))))"

fun client_operations_quarantine :: "operations_state \<Rightarrow> operations_state" where
  "client_operations_quarantine Ops_Closed = Ops_Closed"
| "client_operations_quarantine _ = Ops_Quarantined"

definition held_resources :: "client \<Rightarrow> quarantine_resources_record" where
  "held_resources c =
     \<lparr>qr_submesh_owner = cl_submesh_owner c, qr_tx_buf = cl_tx_buf c, qr_response_buf = cl_response_buf c,
      qr_sem_buf = cl_sem_buf c, qr_workload = cl_workload c\<rparr>"

definition moved_out :: "client \<Rightarrow> client" where
  "moved_out c = c\<lparr>cl_submesh_owner := None, cl_tx_buf := None, cl_response_buf := None, cl_sem_buf := None,
     cl_workload := None\<rparr>"

text \<open>The holder is dereferenced, filled, and linked in front of the published ones.\<close>

definition publish_quarantine :: "quarantine_resources_record \<Rightarrow> (session, unit) io" where
  "publish_quarantine resources =
     seqE (on_me (cl_holder_update (\<lambda>_. False)))
          (on_proc (ps_quarantine_update ((#) resources)))"

definition quarantine_resources :: "(session, unit) io" where
  "quarantine_resources =
     seqE (on_me (cl_operations_update (map_option client_operations_quarantine)))
    (seqE reset_operations
    (bindE (gets (\<lambda>s. held_resources (me s))) (\<lambda>resources.
     seqE (on_me moved_out)
          (publish_quarantine resources))))"

definition sync_operations_quarantine :: "(session, unit) io" where
  "sync_operations_quarantine = bindE (gets me) (\<lambda>c.
     if cl_operations c \<noteq> Some Ops_Quarantined \<or> cl_phase c = Quarantined then ret ()
     else seqE (on_me (cl_phase_update (\<lambda>_. Quarantined))) quarantine_resources)"

section \<open>The handshake\<close>

text \<open>
  One pass of the deadline loop: what the clock left of the deadline (it may have passed between the
  two readings), the clock rate, whether building the program or the enqueue throws, whether the
  completion event arrives before the watchdog, and the status line read back.
\<close>

record attempt =
  at_remaining_ms :: int
  at_clock_mhz :: int
  at_program :: "fault option"
  at_enqueue :: "fault option"
  at_in_time :: bool
  at_status :: "fault + byte list"

text \<open>What the client hands to the backend when it creates the operations object.\<close>

record operations_config =
  oc_client_key :: client_key
  oc_deployment_server_node :: "fabric_node option"
  oc_client_value_ring_depth :: u32
  oc_route_word_to_server :: u32
  oc_fabric_link_idx :: u32
  oc_static_intermesh_lane :: u32
  oc_static_intermesh_galaxy_to_t3k :: bool
  oc_profile_enabled :: bool
  oc_put_phase_profile_enabled :: bool
  oc_profile_detail :: nat

definition make_operations_config :: "client \<Rightarrow> operations_config" where
  "make_operations_config c =
     \<lparr>oc_client_key = cl_key c, oc_deployment_server_node = co_server_node (cl_options c),
      oc_client_value_ring_depth = cl_ring_depth c, oc_route_word_to_server = cn_route_word (cl_connection c),
      oc_fabric_link_idx = cn_link_idx (cl_connection c), oc_static_intermesh_lane = co_lane (cl_options c),
      oc_static_intermesh_galaxy_to_t3k = co_static (cl_options c), oc_profile_enabled = cl_profile c,
      oc_put_phase_profile_enabled = cl_put_phase_profile c, oc_profile_detail = cl_profile_detail c\<rparr>"

record handshake_environment =
  he_timeout :: env_u64
  he_clock_mhz :: int
  he_now :: u64
  he_profile :: "fault + bool option"
  he_put_phase_profile :: "fault + bool option"
  he_profile_detail :: "fault + nat"
  he_ring_depth :: env_u64
  he_create :: "operations_config \<Rightarrow> fault option"
  he_addresses :: "u32 \<times> u32"
  he_tx_buf :: "fault + u32"
  he_response_buf :: "fault + u32"
  he_sem_buf :: "fault + u32"
  he_device :: bool
  he_dram_geometry :: "u32 \<times> u32 \<times> u32"
  he_attempts :: "attempt list"
  he_response :: "fault + byte list"
  he_configure :: "server_descriptor \<Rightarrow> u32 \<Rightarrow> fault option"

definition lift_fault :: "fault option \<Rightarrow> ('s, unit) io" where
  "lift_fault e = (case e of Some f \<Rightarrow> throw f | None \<Rightarrow> ret ())"

definition reserve_bootstrap_l1 :: "handshake_environment \<Rightarrow> (session, unit) io" where
  "reserve_bootstrap_l1 he =
     bindE (lift_sum (he_tx_buf he)) (\<lambda>tx.
     seqE (on_me (cl_tx_buf_update (\<lambda>_. Some tx)))
    (bindE (lift_sum (he_response_buf he)) (\<lambda>response.
     seqE (on_me (cl_response_buf_update (\<lambda>_. Some response)))
    (bindE (lift_sum (he_sem_buf he)) (\<lambda>sem.
     seqE (on_me (cl_sem_buf_update (\<lambda>_. Some sem)))
    (seqE (on_me (\<lambda>c. c\<lparr>cl_tx_base := tx, cl_response_base := response, cl_sem_base := sem\<rparr>))
          (check (tx mod 16 = 0 \<and> response mod 16 = 0 \<and> sem mod 16 = 0)
             (Fatal ''ESTABLISH L1 buffers must be 16-byte aligned''))))))))"

definition make_request :: "handshake_environment \<Rightarrow> client \<Rightarrow> establish_request" where
  "make_request he c =
     (let (channels, grid_x, grid_y) = he_dram_geometry he; cn = cl_connection c in
      \<lparr>eq_magic = kBootstrapMagic, eq_bootstrap_version = kBootstrapProtocolVersion,
       eq_wire_layout_version = kWireLayoutVersion, eq_required_capabilities = kRequiredCapabilities,
       eq_client_mesh_id = cn_mesh_id cn, eq_client_chip_id = cn_chip_id cn,
       eq_client_noc_x = cn_client_noc_x cn, eq_client_noc_y = cn_client_noc_y cn,
       eq_response_addr = cl_response_base c, eq_response_sem_addr = cl_sem_base c,
       eq_nonce_low = cl_nonce_low c, eq_nonce_high = cl_nonce_high c,
       eq_client_l1_base = cl_l1_base c, eq_recv_buffer_addr = cl_recv_base c,
       eq_client_value_ring_depth = cl_ring_depth c, eq_return_route = cn_return_route cn,
       eq_num_dram_channels = channels, eq_dram_grid_x = grid_x, eq_dram_grid_y = grid_y,
       eq_reserved_tail = 0\<rparr>)"

definition handshake_args :: "client \<Rightarrow> establish_request \<Rightarrow> u64 \<Rightarrow> u32 list" where
  "handshake_args c request cycles =
     (let cn = cl_connection c in
      [cl_tx_base c, cl_sem_base c, cn_bootstrap_addr cn, cn_server_noc_x cn, cn_server_noc_y cn,
       cn_route_word cn, cn_chip_id cn, ucast cycles, ucast (drop_bit 32 cycles),
       if cl_attempts_started c = 0 then 1 else 0] @ request_words request)"

text \<open>The status line: word 1 says whether the server answered (1) or the attempt timed out (2).\<close>

definition launch_establish_client ::
  "fabric \<Rightarrow> establish_request \<Rightarrow> u64 \<Rightarrow> attempt \<Rightarrow> (session, bool) io" where
  "launch_establish_client fa request cycles at =
     bindE (gets me) (\<lambda>c.
     bindE (lift_sum (server_connection fa (cl_options c) (cl_node c) (cn_link_idx (cl_connection c)))) (\<lambda>conn.
     seqE (lift_fault (at_program at))
    (seqE (on_me (cl_workload_update (\<lambda>_. Some \<lparr>hw_args = handshake_args c request cycles, hw_connection = conn\<rparr>)))
    (seqE (on_me (cl_may_have_started_update (\<lambda>_. True)))
    (seqE (on_me (cl_attempts_started_update (\<lambda>n. n + 1)))
    (seqE (lift_fault (at_enqueue at))
    (seqE (check (at_in_time at) (Fatal ''kvcache_manager ESTABLISH workload exceeded its device deadline''))
    (bindE (lift_sum (at_status at)) (\<lambda>status_bytes.
     seqE (check (8 \<le> length status_bytes) (Fatal ''ESTABLISH status buffer is too small''))
    (let client_status = read_le32 status_bytes 4 in
     if client_status = 1 then ret True
     else seqE (check (client_status = 2) (Fatal ''ESTABLISH returned invalid client status''))
               (ret False)))))))))))"

definition remaining_cycles :: "attempt \<Rightarrow> u64" where
  "remaining_cycles at =
     (let cycles = word_of_int (at_remaining_ms at) * word_of_int (at_clock_mhz at) * 1000
      in if cycles < 1 then 1 else cycles)"

text \<open>
  When the deadline passes between the two readings of the clock, the negative rest is cast to an
  unsigned number, and the attempt is no longer bounded by what is left of the deadline.
\<close>

lemma late_attempt_unbounded:
  "at_remaining_ms at = - 1 \<Longrightarrow> at_clock_mhz at = 1000 \<Longrightarrow> remaining_cycles at = 0xFFFFFFFFFFF0BDC0"
  by (simp add: remaining_cycles_def)

text \<open>
  The deadline loop. Its list holds the passes for which the clock was still before the deadline;
  when the list is used up, the clock is past it.
\<close>

fun attempt_loop :: "fabric \<Rightarrow> establish_request \<Rightarrow> attempt list \<Rightarrow> (session, unit) io" where
  "attempt_loop fa request [] =
     throw (Thrown ''kvcache_manager ESTABLISH timed out; the outcome is unknown and the device must be reset'')"
| "attempt_loop fa request (at # ats) =
     bindE (gets (\<lambda>s. cl_attempt_cycles (me s))) (\<lambda>limit.
     bindE (launch_establish_client fa request
              (if remaining_cycles at < limit then remaining_cycles at else limit) at) (\<lambda>responded.
     if responded then ret () else attempt_loop fa request ats))"

definition send_establish_request :: "fabric \<Rightarrow> handshake_environment \<Rightarrow> (session, unit) io" where
  "send_establish_request fa he =
     seqE (check (he_device he) (Fatal ''Client ESTABLISH has no device at the selected coordinate''))
    (bindE (gets (\<lambda>s. make_request he (me s))) (\<lambda>request.
     attempt_loop fa request (he_attempts he)))"

fun establish_status_name :: "u32 \<Rightarrow> string" where
  "establish_status_name status =
     (if status = 0 then ''accepted''
      else if status = 1 then ''bootstrap-version-mismatch''
      else if status = 2 then ''wire-version-mismatch''
      else if status = 3 then ''capability-mismatch''
      else if status = 4 then ''invalid-request''
      else if status = 5 then ''invalid-peer''
      else if status = 6 then ''dram-geometry-mismatch''
      else if status = 7 then ''peer-busy-reset-required''
      else ''unknown'')"

text \<open>The checks before the answer's status is looked at: it answers this client's request.\<close>

definition response_is_mine :: "client \<Rightarrow> establish_response \<Rightarrow> (bool \<times> fault) list" where
  "response_is_mine c r =
     [(er_magic r = kBootstrapMagic, Fatal ''ESTABLISH response magic mismatch''),
      (er_bootstrap_version r = kBootstrapProtocolVersion, Fatal ''ESTABLISH response bootstrap version != client''),
      (er_nonce_low r = cl_nonce_low c \<and> er_nonce_high r = cl_nonce_high c,
         Fatal ''ESTABLISH response nonce does not match this Client request'')]"

definition session_is_mine :: "client \<Rightarrow> establish_response \<Rightarrow> (bool \<times> fault) list" where
  "session_is_mine c r =
     [(and (er_capabilities r) kRequiredCapabilities = kRequiredCapabilities,
         Fatal ''Server ESTABLISH capabilities do not cover required mask''),
      (client_generation_from_token (er_client_token r) \<noteq> 0, Fatal ''Server ESTABLISH returned generation-zero token''),
      (client_id_from_token (er_client_token r) = cn_chip_id (cl_connection c),
         Fatal ''Server ESTABLISH token ID does not match bootstrap peer chip'')]"

definition descriptor_is_mine :: "client \<Rightarrow> server_descriptor \<Rightarrow> (bool \<times> fault) list" where
  "descriptor_is_mine c d =
     (let cn = cl_connection c in
      [((case co_server_node (cl_options c) of
           None \<Rightarrow> True
         | Some n \<Rightarrow> n = \<lparr>fn_mesh_id = sd_fabric_mesh_id d, fn_chip_id = sd_fabric_chip_id d\<rparr>),
          Fatal ''ESTABLISH descriptor node differs from deployment node''),
       (sd_l1_base d + kBootstrapRequestBaseOffset = cn_bootstrap_addr cn,
          Fatal ''Server L1 base violates the bootstrap ABI address''),
       (sd_noc_x d = cn_server_noc_x cn \<and> sd_noc_y d = cn_server_noc_y cn,
          Fatal ''Server NoC coordinate violates the bootstrap ABI coordinate''),
       (sd_value_ring_depth d = cl_ring_depth c, Fatal ''Server value-ring depth differs from Client proposal'')])"

text \<open>\<^verbatim>\<open>configure_session\<close> is the backend's; \<^verbatim>\<open>mark_established\<close> demands a constructing object.\<close>

definition mark_established :: "(session, unit) io" where
  "mark_established =
     bindE (gets (\<lambda>s. cl_operations (me s))) (\<lambda>ops.
     seqE (check (ops = Some Ops_Constructing) (Fatal ''ClientOperations is not constructing''))
          (on_me (cl_operations_update (\<lambda>_. Some Ops_Established))))"

definition apply_establish_response :: "handshake_environment \<Rightarrow> (session, unit) io" where
  "apply_establish_response he =
     bindE (gets me) (\<lambda>c.
     bindE (lift_sum (he_response he)) (\<lambda>bytes.
     seqE (check (96 \<le> length bytes) (Fatal ''ESTABLISH response is too small''))
    (let r = decode_response bytes; d = er_descriptor r in
     seqE (lift_sum (ensure (response_is_mine c r)))
    (seqE (whenE (er_status r \<noteq> 0)
             (seqE (whenE (cl_attempts_started c = 1) (on_me (cl_may_have_started_update (\<lambda>_. False))))
                   (throw (Thrown (''Server rejected ESTABLISH: '' @ establish_status_name (er_status r))))))
    (seqE (lift_sum (ensure (session_is_mine c r)))
    (seqE (on_me (cl_server_desc_update (\<lambda>_. Some d)))
    (seqE (lift_fault (validate_server_descriptor d))
    (seqE (lift_sum (ensure (descriptor_is_mine c d)))
    (seqE (on_me (cl_token_update (\<lambda>_. er_client_token r)))
    (seqE (lift_fault (he_configure he d (er_client_token r)))
    (seqE mark_established
          (on_me (cl_may_have_started_update (\<lambda>_. False))))))))))))))"

section \<open>Construction\<close>

definition kEstablishAttemptTimeoutMs :: u32 where "kEstablishAttemptTimeoutMs = 250"
definition kEstablishTimeoutMsDefault :: u32 where "kEstablishTimeoutMsDefault = 5000"
definition kEstablishTimeoutMsMax :: u32 where "kEstablishTimeoutMsMax = 60000"

definition resolve_establish_timeout_ms :: "env_u64 \<Rightarrow> fault + u32" where
  "resolve_establish_timeout_ms env =
     sum_bind (env_or env (ucast kEstablishTimeoutMsDefault)) (\<lambda>ms.
     sum_bind (ensure
       [(0 < ms, Fatal ''KVM_CLIENT_ESTABLISH_TIMEOUT_MS must be positive''),
        (ms \<le> ucast kEstablishTimeoutMsMax, Fatal ''KVM_CLIENT_ESTABLISH_TIMEOUT_MS exceeds the maximum'')])
     (\<lambda>_. Inr (ucast ms)))"

definition make_establish_nonce :: "u64 \<Rightarrow> (session, u64) io" where
  "make_establish_nonce now =
     bindE (gets (\<lambda>s. ps_nonce_counter (proc s))) (\<lambda>counter.
     seqE (on_proc (ps_nonce_counter_update (\<lambda>n. n + 1)))
    (let nonce = xor now (counter * 0x9E3779B97F4A7C15)
     in ret (if nonce = 0 then 1 else nonce)))"

definition prepare_session :: "handshake_environment \<Rightarrow> (session, unit) io" where
  "prepare_session he =
     seqE (on_me (\<lambda>c. c\<lparr>cl_submesh_owner := Some (fst (cl_key c)), cl_holder := True\<rparr>))
    (bindE (lift_sum (resolve_establish_timeout_ms (he_timeout he))) (\<lambda>timeout_ms.
     seqE (on_me (cl_timeout_ms_update (\<lambda>_. timeout_ms)))
    (seqE (check (0 < he_clock_mhz he) (Fatal ''client_submesh AI clock must be positive''))
    (seqE (on_me (cl_attempt_cycles_update (\<lambda>_.
             ucast (if timeout_ms < kEstablishAttemptTimeoutMs then timeout_ms else kEstablishAttemptTimeoutMs)
             * word_of_int (he_clock_mhz he) * 1000)))
    (bindE (make_establish_nonce (he_now he)) (\<lambda>nonce.
     on_me (\<lambda>c. c\<lparr>cl_nonce_low := ucast nonce, cl_nonce_high := ucast (drop_bit 32 nonce)\<rparr>)))))))"

definition register_client :: "(session, unit) io" where
  "register_client =
     bindE (gets (\<lambda>s. cl_key (me s) \<in> ps_active_clients (proc s))) (\<lambda>taken.
     seqE (check (\<not> taken) (Fatal ''A Client is already active on mesh at coordinate''))
    (bindE (gets (\<lambda>s. cl_key (me s))) (\<lambda>key. on_proc (ps_active_clients_update (insert key)))))"

definition erase_client :: "(session, unit) io" where
  "erase_client = bindE (gets (\<lambda>s. cl_key (me s))) (\<lambda>key. on_proc (ps_active_clients_update (\<lambda>ks. ks - {key})))"

definition bool_env_or_false :: "fault + bool option \<Rightarrow> fault + bool" where
  "bool_env_or_false env = sum_bind env (\<lambda>b. Inr (b = Some True))"

definition establish_session :: "fabric \<Rightarrow> handshake_environment \<Rightarrow> (session, unit) io" where
  "establish_session fa he =
     bindE (lift_sum (bool_env_or_false (he_profile he))) (\<lambda>profile.
     seqE (on_me (cl_profile_update (\<lambda>_. profile)))
    (bindE (lift_sum (bool_env_or_false (he_put_phase_profile he))) (\<lambda>put_phase.
     seqE (on_me (cl_put_phase_profile_update (\<lambda>_. put_phase)))
    (bindE (lift_sum (he_profile_detail he)) (\<lambda>detail.
     seqE (on_me (cl_profile_detail_update (\<lambda>_. detail)))
    (bindE (lift_sum (resolve_client_value_ring_depth (he_ring_depth he))) (\<lambda>depth.
     seqE (on_me (cl_ring_depth_update (\<lambda>_. depth)))
    (bindE (gets (\<lambda>s. make_operations_config (me s))) (\<lambda>config.
     seqE (lift_fault (he_create he config))
    (seqE (on_me (cl_operations_update (\<lambda>_. Some Ops_Constructing)))
    (seqE (on_me (\<lambda>c. c\<lparr>cl_l1_base := fst (he_addresses he), cl_recv_base := snd (he_addresses he)\<rparr>))
    (seqE (reserve_bootstrap_l1 he)
    (seqE (send_establish_request fa he)
          (apply_establish_response he))))))))))))))"

definition initialize_session :: "fabric \<Rightarrow> handshake_environment \<Rightarrow> (session, unit) io" where
  "initialize_session fa he =
     seqE (prepare_session he)
    (seqE register_client
    (seqE (catchE (establish_session fa he) (\<lambda>failure.
             bindE (gets (\<lambda>s. cl_may_have_started (me s))) (\<lambda>outcome_unknown.
             seqE (if outcome_unknown
                   then seqE (on_me (cl_phase_update (\<lambda>_. Quarantined))) quarantine_resources
                   else erase_client)
                  (throw failure))))
          (on_me (\<lambda>c. c\<lparr>cl_workload := None, cl_phase := Established\<rparr>))))"

text \<open>
  The constructor's own checks: ABI, mesh, context, dispatch mode, coordinate, fabric configuration.
\<close>

record client_environment =
  ve_abi :: "fault option"
  ve_mesh :: bool
  ve_default_context :: bool
  ve_fast_dispatch :: bool
  ve_coord_in_shape :: "bool option"
  ve_unit_shape :: bool
  ve_fabric_config :: "fault option"

definition check_client_config :: "client_environment \<Rightarrow> fault + unit" where
  "check_client_config ve =
     sum_bind (case ve_abi ve of Some e \<Rightarrow> Inl e | None \<Rightarrow> Inr ()) (\<lambda>_.
     sum_bind (ensure
       [(ve_mesh ve, Fatal ''client_mesh must be non-null''),
        (ve_default_context ve, Fatal ''kvcache_manager Client currently supports only submeshes from the default MetalContext''),
        (ve_fast_dispatch ve, Fatal ''kvcache_manager Client requires fast dispatch''),
        (case ve_coord_in_shape ve of Some inside \<Rightarrow> inside | None \<Rightarrow> True,
           Fatal ''client_coord is outside client_mesh shape''),
        (case ve_coord_in_shape ve of Some _ \<Rightarrow> True | None \<Rightarrow> ve_unit_shape ve,
           Fatal ''client_mesh must have shape (1,1) when no client_coord is given'')]) (\<lambda>_.
     case ve_fabric_config ve of Some e \<Rightarrow> Inl e | None \<Rightarrow> Inr ()))"

definition blank_client :: "client_key \<Rightarrow> client_options \<Rightarrow> fabric_node \<Rightarrow> client" where
  "blank_client key co node =
     \<lparr>cl_key = key, cl_options = co, cl_node = node,
      cl_connection = \<lparr>cn_server_noc_x = 0, cn_server_noc_y = 0, cn_bootstrap_addr = 0, cn_client_noc_x = 0,
        cn_client_noc_y = 0, cn_mesh_id = 0, cn_chip_id = 0, cn_route_word = 0, cn_return_route = 0, cn_link_idx = 0\<rparr>,
      cl_phase = Constructing, cl_operations = None, cl_submesh_owner = None, cl_tx_buf = None,
      cl_response_buf = None, cl_sem_buf = None, cl_workload = None, cl_holder = False,
      cl_may_have_started = False, cl_attempts_started = 0, cl_timeout_ms = 0, cl_attempt_cycles = 0,
      cl_nonce_low = 0, cl_nonce_high = 0, cl_profile = False, cl_put_phase_profile = False, cl_profile_detail = 0,
      cl_ring_depth = 0, cl_l1_base = 0, cl_recv_base = 0, cl_tx_base = 0, cl_response_base = 0, cl_sem_base = 0,
      cl_server_desc = None, cl_token = 0\<rparr>"

definition construct_client ::
  "client_environment \<Rightarrow> fabric \<Rightarrow> client_site \<Rightarrow> handshake_environment \<Rightarrow> (session, unit) io" where
  "construct_client ve fa cs he =
     seqE (lift_sum (check_client_config ve))
    (bindE (gets (\<lambda>s. cl_options (me s))) (\<lambda>co.
     bindE (lift_sum (resolve_client_connection fa co cs)) (\<lambda>cn.
     seqE (on_me (cl_connection_update (\<lambda>_. cn)))
          (initialize_session fa he))))"

section \<open>Close and destruction\<close>

definition release_host_resources :: "(session, unit) io" where
  "release_host_resources =
     seqE reset_operations
    (seqE (on_me (\<lambda>c. c\<lparr>cl_workload := None, cl_tx_buf := None, cl_response_buf := None, cl_sem_buf := None\<rparr>))
    (seqE erase_client
          (on_me (\<lambda>c. c\<lparr>cl_submesh_owner := None, cl_phase := Closed\<rparr>))))"

text \<open>What a call into the backend returns or throws, and the state it leaves the object in.\<close>

record 'a backend_answer =
  ba_result :: "fault + 'a"
  ba_state :: operations_state

definition call_backend :: "'a backend_answer \<Rightarrow> (session, 'a) io" where
  "call_backend ba =
     seqE (on_me (cl_operations_update (map_option (\<lambda>_. ba_state ba))))
          (lift_sum (ba_result ba))"

definition close_client :: "unit backend_answer \<Rightarrow> (session, unit) io" where
  "close_client ba =
     bindE (gets (\<lambda>s. cl_phase (me s))) (\<lambda>phase.
     if phase = Quarantined \<or> phase = Closed then ret ()
     else
       seqE (check (phase = Established) (Fatal ''Client cannot close while it is still constructing''))
      (seqE (catchE (call_backend ba) (\<lambda>e. seqE sync_operations_quarantine (throw e)))
      (seqE sync_operations_quarantine
      (bindE (gets (\<lambda>s. cl_phase (me s))) (\<lambda>after.
       if after = Quarantined then ret () else release_host_resources)))))"

definition is_established :: "client \<Rightarrow> bool" where
  "is_established c \<longleftrightarrow> cl_phase c = Established"

definition destroy_client :: "unit backend_answer \<Rightarrow> (session, unit) io" where
  "destroy_client ba =
     catchE (close_client ba) (\<lambda>_.
       bindE (gets (\<lambda>s. cl_phase (me s))) (\<lambda>phase.
       whenE (phase \<noteq> Quarantined) release_host_resources))"

text \<open>The members that are still there are destroyed with the object, also when the constructor throws.\<close>

definition destroy_members :: "(session, unit) io" where
  "destroy_members =
     seqE reset_operations (on_me (\<lambda>c. (moved_out c)\<lparr>cl_holder := False\<rparr>))"

section \<open>The building blocks run to completion\<close>

lemma wp_on_me [wp_rules]: "wp (on_me f) Q E s = Q () (s\<lparr>me := f (me s)\<rparr>)"
  by (cases s) (simp add: on_me_def wp_modify)

lemma wp_on_proc [wp_rules]: "wp (on_proc f) Q E s = Q () (s\<lparr>proc := f (proc s)\<rparr>)"
  by (cases s) (simp add: on_proc_def wp_modify)

lemma wp_lift_fault [wp_rules]: "wp (lift_fault e) Q E s = (case e of Some f \<Rightarrow> E f s | None \<Rightarrow> Q () s)"
  by (cases e) (simp_all add: lift_fault_def wp_rules)

definition handles_after :: "operations_state option \<Rightarrow> bool list \<Rightarrow> bool list" where
  "handles_after ops kept = (case ops of None \<Rightarrow> kept | Some st \<Rightarrow> (st = Ops_Quarantined) # kept)"

lemma wp_reset_operations [wp_rules]:
  "wp reset_operations Q E s =
     Q () \<lparr>me = (me s)\<lparr>cl_operations := None\<rparr>,
           proc = ps_handles_kept_update (handles_after (cl_operations (me s))) (proc s)\<rparr>"
proof (cases "cl_operations (me s)")
  case None
  then have "me s = (me s)\<lparr>cl_operations := None\<rparr>" by (cases "me s") simp
  moreover have "handles_after None = (\<lambda>kept. kept)" by (rule ext) (simp add: handles_after_def)
  ultimately have "s = \<lparr>me = (me s)\<lparr>cl_operations := None\<rparr>, proc = ps_handles_kept_update (handles_after None) (proc s)\<rparr>"
    by (cases s) simp
  then show ?thesis unfolding reset_operations_def by (simp add: wp_rules None)
next
  case (Some st)
  then have "handles_after (Some st) = (#) (st = Ops_Quarantined)" by (intro ext) (simp add: handles_after_def)
  then show ?thesis unfolding reset_operations_def by (simp add: wp_rules Some) (cases s, simp)
qed

lemma wp_erase_client [wp_rules]:
  "wp erase_client Q E s = Q () (s\<lparr>proc := ps_active_clients_update (\<lambda>ks. ks - {cl_key (me s)}) (proc s)\<rparr>)"
  unfolding erase_client_def by (simp add: wp_rules)

lemma wp_register_client [wp_rules]:
  "wp register_client Q E s =
     (if cl_key (me s) \<in> ps_active_clients (proc s)
      then E (Fatal ''A Client is already active on mesh at coordinate'') s
      else Q () (s\<lparr>proc := ps_active_clients_update (insert (cl_key (me s))) (proc s)\<rparr>))"
  unfolding register_client_def by (simp add: wp_rules)

lemma wp_register_seq:
  assumes "cl_key (me s) \<in> ps_active_clients (proc s) \<Longrightarrow> E (Fatal ''A Client is already active on mesh at coordinate'') s"
    and "cl_key (me s) \<notin> ps_active_clients (proc s) \<Longrightarrow>
       wp n Q E (s\<lparr>proc := ps_active_clients_update (insert (cl_key (me s))) (proc s)\<rparr>)"
  shows "wp (seqE register_client n) Q E s"
  using assms by (simp add: wp_seqE wp_register_client)

text \<open>The state after a quarantine: the resources are in the list, the object holds nothing.\<close>

definition quarantine_effect :: "session \<Rightarrow> session" where
  "quarantine_effect s =
     (let ops = map_option client_operations_quarantine (cl_operations (me s)) in
      \<lparr>me = (moved_out (me s))\<lparr>cl_operations := None, cl_holder := False\<rparr>,
       proc = (proc s)\<lparr>ps_handles_kept := handles_after ops (ps_handles_kept (proc s)),
                       ps_quarantine := held_resources (me s) # ps_quarantine (proc s)\<rparr>\<rparr>)"

lemma wp_quarantine_resources [wp_rules]: "wp quarantine_resources Q E s = Q () (quarantine_effect s)"
  unfolding quarantine_resources_def publish_quarantine_def
  by (cases "proc s"; cases "me s") (simp add: wp_rules quarantine_effect_def moved_out_def held_resources_def Let_def)

definition sync_effect :: "session \<Rightarrow> session" where
  "sync_effect s =
     (if cl_operations (me s) \<noteq> Some Ops_Quarantined \<or> cl_phase (me s) = Quarantined then s
      else quarantine_effect (s\<lparr>me := (me s)\<lparr>cl_phase := Quarantined\<rparr>\<rparr>))"

lemma wp_sync_operations_quarantine [wp_rules]: "wp sync_operations_quarantine Q E s = Q () (sync_effect s)"
  unfolding sync_operations_quarantine_def by (simp add: wp_rules sync_effect_def)

definition release_effect :: "session \<Rightarrow> session" where
  "release_effect s =
     \<lparr>me = (moved_out (me s))\<lparr>cl_operations := None, cl_phase := Closed\<rparr>,
      proc = (proc s)\<lparr>ps_handles_kept := handles_after (cl_operations (me s)) (ps_handles_kept (proc s)),
                      ps_active_clients := ps_active_clients (proc s) - {cl_key (me s)}\<rparr>\<rparr>"

lemma wp_release_host_resources [wp_rules]: "wp release_host_resources Q E s = Q () (release_effect s)"
  unfolding release_host_resources_def
  by (cases "proc s"; cases "me s") (simp add: wp_rules release_effect_def moved_out_def)

section \<open>What the handshake leaves alone\<close>

definition anchored :: "session \<Rightarrow> _" where
  "anchored s = (let c = me s in
     ((cl_key c, cl_options c, cl_node c, cl_connection c), cl_phase c, cl_submesh_owner c, cl_holder c,
      cl_nonce_low c, cl_nonce_high c, proc s))"

text \<open>The attempts do not touch the operations handle and the buffers either.\<close>

definition attempt_view :: "session \<Rightarrow> _" where
  "attempt_view s = (let c = me s in
     (anchored s, cl_operations c, cl_tx_buf c, cl_response_buf c, cl_sem_buf c, cl_ring_depth c))"

lemma keeps_on_me:
  assumes "\<And>s. f (s\<lparr>me := g (me s)\<rparr>) = f s"
  shows "keeps f (on_me g)"
proof -
  have "f (me_update g s) = f s" for s using assms [of s] by (cases s) simp
  then show ?thesis by (simp add: on_me_def keeps_def modify_def)
qed

lemma keeps_wp: "keeps f m \<Longrightarrow> wp m (\<lambda>_ t. f t = f s) (\<lambda>_ t. f t = f s) s"
  by (rule wp_keeps)

lemma keeps_lift_sum [frame_rules]: "keeps f (lift_sum x)"
  unfolding lift_sum_def by (intro frame_rules)

lemma keeps_lift_fault [frame_rules]: "keeps f (lift_fault e)"
  unfolding lift_fault_def by (intro frame_rules)

lemma launch_keeps: "keeps attempt_view (launch_establish_client fa request cycles at)"
  unfolding launch_establish_client_def Let_def
  by (intro frame_rules keeps_on_me) (simp_all add: attempt_view_def anchored_def Let_def)

lemma attempts_keep: "keeps attempt_view (attempt_loop fa request ats)"
  by (induction fa request ats rule: attempt_loop.induct) (auto intro!: frame_rules launch_keeps)

lemma send_keeps: "keeps attempt_view (send_establish_request fa he)"
  unfolding send_establish_request_def by (intro frame_rules attempts_keep)

lemma establish_keeps: "keeps anchored (establish_session fa he)"
proof -
  have "keeps anchored (send_establish_request fa he)"
    by (rule keeps_weaken [OF send_keeps]) (simp add: attempt_view_def Let_def)
  moreover have "keeps anchored (reserve_bootstrap_l1 he)"
    unfolding reserve_bootstrap_l1_def by (intro frame_rules keeps_on_me) (simp_all add: anchored_def Let_def)
  moreover have "keeps anchored (apply_establish_response he)"
    unfolding apply_establish_response_def mark_established_def Let_def
    by (intro frame_rules keeps_on_me) (simp_all add: anchored_def Let_def)
  ultimately show ?thesis
    unfolding establish_session_def
    by (intro frame_rules keeps_on_me) (simp_all add: anchored_def Let_def)
qed

section \<open>The attempts\<close>

text \<open>
  The flag says that a workload may have reached the device: it is up exactly when an attempt was
  counted, and then the workload object is held.
\<close>

definition flag_ok :: "client \<Rightarrow> bool" where
  "flag_ok c \<longleftrightarrow> (cl_may_have_started c \<longleftrightarrow> cl_attempts_started c \<noteq> 0)
     \<and> (cl_may_have_started c \<longrightarrow> cl_workload c \<noteq> None)"

lemma launch_flag:
  assumes "flag_ok (me s)" and "unat (cl_attempts_started (me s)) + 1 < 4294967296"
  shows "wp (launch_establish_client fa request cycles at)
    (\<lambda>_ t. flag_ok (me t) \<and> unat (cl_attempts_started (me t)) = unat (cl_attempts_started (me s)) + 1)
    (\<lambda>_ t. flag_ok (me t)) s"
proof -
  have n: "unat (cl_attempts_started (me s) + 1) = unat (cl_attempts_started (me s)) + 1"
    using assms(2) by (subst unat_plus_fits) simp_all
  then have "cl_attempts_started (me s) + 1 \<noteq> 0" by (metis add_is_0 one_neq_zero unat_0)
  then show ?thesis
    unfolding launch_establish_client_def Let_def
    using assms(1) n by (simp add: wp_rules flag_ok_def split: sum.splits option.splits)
qed

lemma attempts_flag:
  assumes "flag_ok (me s)" and "unat (cl_attempts_started (me s)) + length ats < 4294967296"
  shows "wp (attempt_loop fa request ats) (\<lambda>_ t. flag_ok (me t) \<and> cl_may_have_started (me t))
    (\<lambda>_ t. flag_ok (me t)) s"
  using assms
proof (induction fa request ats arbitrary: s rule: attempt_loop.induct)
  case (1 fa request)
  then show ?case by (simp add: wp_rules)
next
  case (2 fa request at ats)
  have l: "wp (launch_establish_client fa request
         (if remaining_cycles at < cl_attempt_cycles (me s) then remaining_cycles at else cl_attempt_cycles (me s)) at)
      (\<lambda>_ t. flag_ok (me t) \<and> unat (cl_attempts_started (me t)) = unat (cl_attempts_started (me s)) + 1)
      (\<lambda>_ t. flag_ok (me t)) s"
    by (rule launch_flag) (use 2(2,3) in simp_all)
  have "wp (if responded then ret () else attempt_loop fa request ats)
      (\<lambda>_ t. flag_ok (me t) \<and> cl_may_have_started (me t)) (\<lambda>_ t. flag_ok (me t)) t"
    if "flag_ok (me t) \<and> unat (cl_attempts_started (me t)) = unat (cl_attempts_started (me s)) + 1" for responded t
  proof (cases responded)
    case True
    have "cl_attempts_started (me t) \<noteq> 0" using that by (metis add_is_0 one_neq_zero unat_0)
    then show ?thesis using that True by (simp add: wp_rules flag_ok_def)
  next
    case False
    then have "wp (attempt_loop fa request ats) (\<lambda>_ t. flag_ok (me t) \<and> cl_may_have_started (me t)) (\<lambda>_ t. flag_ok (me t)) t"
      by (intro 2(1)) (use 2(3) that in simp_all)
    with False show ?thesis by simp
  qed
  then show ?case by (simp add: wp_bindE wp_gets wp_mono [OF l])
qed

section \<open>The answer\<close>

text \<open>The server refused this very request; or it accepted it, with data that fit the client.\<close>

definition refused :: "handshake_environment \<Rightarrow> client \<Rightarrow> bool" where
  "refused he c \<longleftrightarrow>
     (case he_response he of
        Inl _ \<Rightarrow> False
      | Inr bytes \<Rightarrow> 96 \<le> length bytes \<and> ensure (response_is_mine c (decode_response bytes)) = Inr ()
          \<and> er_status (decode_response bytes) \<noteq> 0)"

definition accepted :: "handshake_environment \<Rightarrow> client \<Rightarrow> bool" where
  "accepted he c \<longleftrightarrow>
     (case he_response he of
        Inl _ \<Rightarrow> False
      | Inr bytes \<Rightarrow>
          (let r = decode_response bytes; d = er_descriptor r in
           96 \<le> length bytes \<and> ensure (response_is_mine c r) = Inr () \<and> er_status r = 0
           \<and> ensure (session_is_mine c r) = Inr () \<and> validate_server_descriptor d = None
           \<and> ensure (descriptor_is_mine c d) = Inr ()
           \<and> cl_server_desc c = Some d \<and> cl_token c = er_client_token r))"

lemmas answer_checks = response_is_mine_def session_is_mine_def descriptor_is_mine_def Let_def

lemma answer_checks_cong:
  assumes "cl_nonce_low c = cl_nonce_low c'" and "cl_nonce_high c = cl_nonce_high c'"
    and "cl_connection c = cl_connection c'" and "cl_options c = cl_options c'" and "cl_ring_depth c = cl_ring_depth c'"
  shows "response_is_mine c = response_is_mine c'" and "session_is_mine c = session_is_mine c'"
    and "descriptor_is_mine c = descriptor_is_mine c'"
  using assms by (auto simp: answer_checks fun_eq_iff)

lemma answer_checks_updates [simp]:
  "response_is_mine (c\<lparr>cl_server_desc := x\<rparr>) = response_is_mine c"
  "session_is_mine (c\<lparr>cl_server_desc := x\<rparr>) = session_is_mine c"
  "descriptor_is_mine (c\<lparr>cl_server_desc := x\<rparr>) = descriptor_is_mine c"
  "response_is_mine (c\<lparr>cl_token := k\<rparr>) = response_is_mine c"
  "session_is_mine (c\<lparr>cl_token := k\<rparr>) = session_is_mine c"
  "descriptor_is_mine (c\<lparr>cl_token := k\<rparr>) = descriptor_is_mine c"
  "response_is_mine (c\<lparr>cl_operations := ops\<rparr>) = response_is_mine c"
  "session_is_mine (c\<lparr>cl_operations := ops\<rparr>) = session_is_mine c"
  "descriptor_is_mine (c\<lparr>cl_operations := ops\<rparr>) = descriptor_is_mine c"
  "response_is_mine (c\<lparr>cl_may_have_started := b\<rparr>) = response_is_mine c"
  "session_is_mine (c\<lparr>cl_may_have_started := b\<rparr>) = session_is_mine c"
  "descriptor_is_mine (c\<lparr>cl_may_have_started := b\<rparr>) = descriptor_is_mine c"
  "response_is_mine (c\<lparr>cl_workload := w\<rparr>) = response_is_mine c"
  "session_is_mine (c\<lparr>cl_workload := w\<rparr>) = session_is_mine c"
  "descriptor_is_mine (c\<lparr>cl_workload := w\<rparr>) = descriptor_is_mine c"
  "response_is_mine (c\<lparr>cl_phase := ph\<rparr>) = response_is_mine c"
  "session_is_mine (c\<lparr>cl_phase := ph\<rparr>) = session_is_mine c"
  "descriptor_is_mine (c\<lparr>cl_phase := ph\<rparr>) = descriptor_is_mine c"
  by (rule answer_checks_cong; simp)+

text \<open>The parts of the object that hold on to something.\<close>

definition holdings :: "client \<Rightarrow> _" where
  "holdings c = (cl_operations c, cl_tx_buf c, cl_response_buf c, cl_sem_buf c, cl_workload c)"

lemma apply_outcome:
  "wp (apply_establish_response he)
     (\<lambda>_ t. \<not> cl_may_have_started (me t) \<and> cl_operations (me t) = Some Ops_Established \<and> accepted he (me t)
        \<and> cl_tx_buf (me t) = cl_tx_buf (me s) \<and> cl_response_buf (me t) = cl_response_buf (me s)
        \<and> cl_sem_buf (me t) = cl_sem_buf (me s))
     (\<lambda>_ t. holdings (me t) = holdings (me s) \<and> cl_attempts_started (me t) = cl_attempts_started (me s)
        \<and> (cl_may_have_started (me t) \<longleftrightarrow> cl_may_have_started (me s) \<and> \<not> (cl_attempts_started (me t) = 1 \<and> refused he (me t)))) s"
proof (cases "he_response he")
  case Inl
  then show ?thesis
    unfolding apply_establish_response_def by (simp add: wp_rules refused_def holdings_def)
next
  case (Inr bytes)
  define r where "r = decode_response bytes"
  define c where "c = me s"
  note defs = wp_rules Inr refused_def accepted_def holdings_def Let_def r_def [symmetric] c_def [symmetric]
  show ?thesis
    unfolding apply_establish_response_def mark_established_def
    apply (cases "96 \<le> length bytes"; simp add: defs)
    apply (cases "ensure (response_is_mine c r)"; simp add: defs)
    apply (cases "er_status r = 0"; simp add: defs)
    apply (cases "ensure (session_is_mine c r)"; simp add: defs)
    apply (cases "validate_server_descriptor (er_descriptor r)"; simp add: defs)
    apply (cases "ensure (descriptor_is_mine c (er_descriptor r))"; simp add: defs)
    apply (cases "he_configure he (er_descriptor r) (er_client_token r)"; simp add: defs)
    done
qed

definition buffers_held :: "client \<Rightarrow> bool" where
  "buffers_held c \<longleftrightarrow> cl_tx_buf c \<noteq> None \<and> cl_response_buf c \<noteq> None \<and> cl_sem_buf c \<noteq> None"

definition untouched :: "client \<Rightarrow> bool" where
  "untouched c \<longleftrightarrow> \<not> cl_may_have_started c \<and> cl_attempts_started c = 0"

lemma reserve_outcome:
  assumes "untouched (me s)"
  shows "wp (reserve_bootstrap_l1 he)
     (\<lambda>_ t. untouched (me t) \<and> buffers_held (me t) \<and> cl_operations (me t) = cl_operations (me s))
     (\<lambda>_ t. untouched (me t)) s"
  using assms unfolding reserve_bootstrap_l1_def
  by (simp add: wp_rules untouched_def buffers_held_def split: sum.split)

lemma send_outcome:
  assumes "untouched (me s)" and "buffers_held (me s)" and "cl_operations (me s) = Some Ops_Constructing"
    and "length (he_attempts he) < 4294967296"
  shows "wp (send_establish_request fa he)
     (\<lambda>_ t. flag_ok (me t) \<and> cl_may_have_started (me t) \<and> buffers_held (me t) \<and> cl_operations (me t) = Some Ops_Constructing)
     (\<lambda>_ t. flag_ok (me t) \<and> buffers_held (me t) \<and> cl_operations (me t) = Some Ops_Constructing) s"
proof -
  have f: "flag_ok (me s)" using assms(1) by (simp add: flag_ok_def untouched_def)
  have "wp (send_establish_request fa he) (\<lambda>_ t. flag_ok (me t) \<and> cl_may_have_started (me t)) (\<lambda>_ t. flag_ok (me t)) s"
    unfolding send_establish_request_def
    using f attempts_flag [OF f] assms(1,4) by (simp add: wp_rules untouched_def)
  from wp_conj [OF this keeps_wp [OF send_keeps]] show ?thesis
    by (rule wp_mono) (use assms(2,3) in \<open>auto simp: attempt_view_def Let_def buffers_held_def\<close>)
qed

lemma establish_prefix:
  assumes "untouched (me s)" and "\<And>e t. untouched (me t) \<Longrightarrow> E e t"
    and "\<And>t. untouched (me t) \<Longrightarrow> cl_operations (me t) = Some Ops_Constructing \<Longrightarrow>
       wp (seqE (reserve_bootstrap_l1 he) (seqE (send_establish_request fa he) (apply_establish_response he))) Q E t"
  shows "wp (establish_session fa he) Q E s"
proof -
  define rest where "rest = seqE (reserve_bootstrap_l1 he) (seqE (send_establish_request fa he) (apply_establish_response he))"
  have rest: "wp rest Q E t" if "untouched (me t)" "cl_operations (me t) = Some Ops_Constructing" for t
    using assms(3) that by (simp only: rest_def)
  show ?thesis
    unfolding establish_session_def rest_def [symmetric]
    using assms(1,2) by (simp add: wp_rules untouched_def rest split: sum.split option.split)
qed

lemma establish_outcome:
  assumes "untouched (me s)" and "length (he_attempts he) < 4294967296"
  shows "wp (establish_session fa he)
     (\<lambda>_ t. \<not> cl_may_have_started (me t) \<and> cl_operations (me t) = Some Ops_Established
        \<and> accepted he (me t) \<and> buffers_held (me t))
     (\<lambda>_ t. if cl_may_have_started (me t)
        then cl_operations (me t) = Some Ops_Constructing \<and> buffers_held (me t) \<and> cl_workload (me t) \<noteq> None
        else untouched (me t) \<or> cl_attempts_started (me t) = 1 \<and> refused he (me t)) s"
    (is "wp _ ?Q ?E s")
proof -
  have apply_it: "wp (apply_establish_response he) ?Q ?E t"
    if "flag_ok (me t)" "cl_may_have_started (me t)" "buffers_held (me t)" "cl_operations (me t) = Some Ops_Constructing" for t
    by (rule wp_mono [OF apply_outcome [of he t]])
      (use that in \<open>auto simp: flag_ok_def buffers_held_def holdings_def\<close>)
  have send_it: "wp (seqE (send_establish_request fa he) (apply_establish_response he)) ?Q ?E t"
    if "untouched (me t)" "buffers_held (me t)" "cl_operations (me t) = Some Ops_Constructing" for t
    unfolding wp_seqE
  proof (rule wp_mono [OF send_outcome [OF that assms(2)]], goal_cases)
    case (1 a u)
    then show ?case by (intro apply_it) simp_all
  qed (auto simp: flag_ok_def untouched_def)
  have reserve_it: "wp (seqE (reserve_bootstrap_l1 he) (seqE (send_establish_request fa he) (apply_establish_response he))) ?Q ?E t"
    if "untouched (me t)" "cl_operations (me t) = Some Ops_Constructing" for t
    unfolding wp_seqE [of "reserve_bootstrap_l1 he"]
  proof (rule wp_mono [OF reserve_outcome [OF that(1)]], goal_cases)
    case (1 a u)
    then show ?case using that(2) by (intro send_it) simp_all
  qed (auto simp: untouched_def)
  show ?thesis
  proof (rule establish_prefix [OF assms(1)], goal_cases)
    case (1 e t)
    then show ?case by (simp add: untouched_def)
  next
    case (2 t)
    then show ?case by (rule reserve_it)
  qed
qed

section \<open>How a construction ends\<close>

lemma prepare_outcome:
  assumes "cl_key (me s) = key" and "untouched (me s)" and "cl_phase (me s) = Constructing"
  shows "wp (prepare_session he)
    (\<lambda>_ t. cl_key (me t) = key \<and> untouched (me t) \<and> cl_phase (me t) = Constructing
       \<and> cl_submesh_owner (me t) = Some (fst key) \<and> cl_holder (me t)
       \<and> ps_active_clients (proc t) = ps_active_clients (proc s) \<and> ps_quarantine (proc t) = ps_quarantine (proc s)
       \<and> ps_handles_kept (proc t) = ps_handles_kept (proc s))
    (\<lambda>_ t. cl_key (me t) = key \<and> untouched (me t) \<and> cl_phase (me t) = Constructing
       \<and> ps_active_clients (proc t) = ps_active_clients (proc s) \<and> ps_quarantine (proc t) = ps_quarantine (proc s)
       \<and> ps_handles_kept (proc t) = ps_handles_kept (proc s)) s"
  using assms unfolding prepare_session_def make_establish_nonce_def
  by (simp add: wp_rules untouched_def Let_def split: sum.split)

text \<open>
  The three ways a construction ends. It succeeded: the key is registered, the server accepted this
  very request with data that fit the client. It failed with an outcome that may still reach the
  device: the object is quarantined, its key stays registered, and everything the workload may still
  touch is in the quarantine list, the backend's object kept alive with it. It failed and nothing can
  still arrive: the registry is as before, nothing was put into quarantine, and either no attempt
  was started or the first one was refused.
\<close>

definition construction_settled :: "handshake_environment \<Rightarrow> session \<Rightarrow> fault + unit \<Rightarrow> session \<Rightarrow> bool" where
  "construction_settled he s r t \<longleftrightarrow>
     (let key = cl_key (me s); p = proc s; q = proc t in
      cl_key (me t) = key \<and>
      (case r of
         Inr _ \<Rightarrow>
           cl_phase (me t) = Established \<and> accepted he (me t)
           \<and> cl_operations (me t) = Some Ops_Established \<and> cl_workload (me t) = None
           \<and> buffers_held (me t) \<and> cl_submesh_owner (me t) = Some (fst key) \<and> cl_holder (me t)
           \<and> key \<notin> ps_active_clients p \<and> ps_active_clients q = insert key (ps_active_clients p)
           \<and> ps_quarantine q = ps_quarantine p
       | Inl e \<Rightarrow>
           if cl_may_have_started (me t)
           then cl_phase (me t) = Quarantined \<and> key \<notin> ps_active_clients p
             \<and> ps_active_clients q = insert key (ps_active_clients p)
             \<and> ps_handles_kept q = True # ps_handles_kept p
             \<and> (\<exists>tx rx sem w. ps_quarantine q =
                  \<lparr>qr_submesh_owner = Some (fst key), qr_tx_buf = Some tx, qr_response_buf = Some rx,
                   qr_sem_buf = Some sem, qr_workload = Some w\<rparr> # ps_quarantine p)
           else cl_phase (me t) = Constructing \<and> ps_active_clients q = ps_active_clients p
             \<and> ps_quarantine q = ps_quarantine p
             \<and> (cl_attempts_started (me t) = 0 \<or> cl_attempts_started (me t) = 1 \<and> refused he (me t))))"

lemma establish_settles:
  assumes "untouched (me s)" and "cl_phase (me s) = Constructing" and "cl_submesh_owner (me s) = Some (fst (cl_key (me s)))"
    and "cl_holder (me s)" and "length (he_attempts he) < 4294967296" and "cl_key (me s) \<notin> keys"
    and "ps_active_clients (proc s) = insert (cl_key (me s)) keys"
    and "cl_key (me s0) = cl_key (me s)" and "ps_active_clients (proc s0) = keys"
    and "ps_quarantine (proc s0) = ps_quarantine (proc s)" and "ps_handles_kept (proc s0) = ps_handles_kept (proc s)"
  shows "wp (seqE (catchE (establish_session fa he) (\<lambda>failure.
             bindE (gets (\<lambda>s. cl_may_have_started (me s))) (\<lambda>outcome_unknown.
             seqE (if outcome_unknown
                   then seqE (on_me (cl_phase_update (\<lambda>_. Quarantined))) quarantine_resources
                   else erase_client)
                  (throw failure))))
          (on_me (\<lambda>c. c\<lparr>cl_workload := None, cl_phase := Established\<rparr>)))
     (\<lambda>a. construction_settled he s0 (Inr a)) (\<lambda>e. construction_settled he s0 (Inl e)) s"
proof -
  have a: "wp (establish_session fa he)
     (\<lambda>_ t. (\<not> cl_may_have_started (me t) \<and> cl_operations (me t) = Some Ops_Established
        \<and> accepted he (me t) \<and> buffers_held (me t)) \<and> anchored t = anchored s)
     (\<lambda>_ t. (if cl_may_have_started (me t)
        then cl_operations (me t) = Some Ops_Constructing \<and> buffers_held (me t) \<and> cl_workload (me t) \<noteq> None
        else untouched (me t) \<or> cl_attempts_started (me t) = 1 \<and> refused he (me t)) \<and> anchored t = anchored s) s"
    by (rule wp_conj [OF establish_outcome [OF assms(1,5)] keeps_wp [OF establish_keeps]])
  have key: "cl_key (me t) = cl_key (me s)" "cl_phase (me t) = Constructing"
      "cl_submesh_owner (me t) = Some (fst (cl_key (me s)))" "cl_holder (me t)" "proc t = proc s"
    if "anchored t = anchored s" for t
    using that assms(2-4) by (simp_all add: anchored_def Let_def)
  show ?thesis
    unfolding wp_seqE wp_catchE
  proof (rule wp_mono [OF a], goal_cases)
    case (1 a t)
    then show ?case
      using key [of t] assms(6-)
      by (simp add: wp_rules construction_settled_def Let_def accepted_def buffers_held_def
          split: sum.splits)
  next
    case (2 e t)
    then show ?case
      using key [of t] assms(6-)
      by (auto simp: wp_rules construction_settled_def Let_def buffers_held_def quarantine_effect_def moved_out_def
          handles_after_def held_resources_def untouched_def
          split: if_splits)
  qed
qed

lemma initialize_settles:
  assumes "untouched (me s)" and "cl_phase (me s) = Constructing" and "length (he_attempts he) < 4294967296"
  shows "wp (initialize_session fa he) (\<lambda>a. construction_settled he s (Inr a)) (\<lambda>e. construction_settled he s (Inl e)) s"
  unfolding initialize_session_def wp_seqE [of "prepare_session he"]
proof (rule wp_mono [OF prepare_outcome [OF refl assms(1,2), of he]], goal_cases)
  case prepared: (1 a t)
  show ?case
  proof (rule wp_register_seq, goal_cases)
    case 1
    then show ?case using prepared by (simp add: construction_settled_def Let_def untouched_def)
  next
    case 2
    then show ?case
      by (intro establish_settles [where keys = "ps_active_clients (proc s)"]) (use prepared assms(3) in simp_all)
  qed
next
  case (2 e t)
  then show ?case by (simp add: construction_settled_def Let_def untouched_def)
qed

lemma construct_settles:
  assumes "me s = blank_client key co node" and "length (he_attempts he) < 4294967296"
  shows "wp (construct_client ve fa cs he) (\<lambda>a. construction_settled he s (Inr a)) (\<lambda>e. construction_settled he s (Inl e)) s"
proof -
  have early: "construction_settled he s (Inl e) s" for e
    by (simp add: construction_settled_def Let_def assms(1) blank_client_def)
  have later: "wp (initialize_session fa he) (\<lambda>_. construction_settled he s (Inr ())) (\<lambda>e. construction_settled he s (Inl e))
      (s\<lparr>me := (me s)\<lparr>cl_connection := cn\<rparr>\<rparr>)" for cn
  proof -
    let ?s = "s\<lparr>me := (me s)\<lparr>cl_connection := cn\<rparr>\<rparr>"
    have "construction_settled he ?s = construction_settled he s"
      by (intro ext) (simp add: construction_settled_def Let_def)
    moreover have "wp (initialize_session fa he) (\<lambda>a. construction_settled he ?s (Inr a)) (\<lambda>e. construction_settled he ?s (Inl e)) ?s"
      by (rule initialize_settles) (simp_all add: assms blank_client_def untouched_def)
    ultimately show ?thesis by simp
  qed
  show ?thesis
    unfolding construct_client_def by (simp add: wp_rules early later split: sum.split)
qed

text \<open>
  C10: However the construction of a client ends, nothing the device may still touch is let go. If it
  succeeds, the key is newly registered and the session is what the server's answer to this very
  request says. If it fails after an attempt whose outcome is unknown, the key stays registered and
  the mesh, the three buffers, the workload and the backend's object are retained in the quarantine
  list. If it fails otherwise, registry and quarantine are as before, and either no attempt was made
  or the first one was refused by the server.
\<close>

theorem client_construction_settles:
  assumes "me s = blank_client key co node" and "length (he_attempts he) < 4294967296"
  shows "case construct_client ve fa cs he s of (r, t) \<Rightarrow> construction_settled he s r t"
  using construct_settles [OF assms, of ve fa cs] unfolding wp_def
  by (simp split: prod.splits sum.splits)

definition sample_fabric :: fabric where
  "sample_fabric =
     \<lparr>fa_2d = True, fa_gateway = \<lparr>fn_mesh_id = 0, fn_chip_id = 0\<rparr>, fa_link_count = 4, fa_reachable = (\<lambda>_ _. True),
      fa_link_indices = (\<lambda>_ _. [0, 1]), fa_route_word = fn_chip_id, fa_coordinate = (\<lambda>n. (0, fn_chip_id n))\<rparr>"

definition sample_site :: client_site where
  "sample_site =
     \<lparr>cs_device = Some \<lparr>bd_wormhole = True, bd_worker_core = (\<lambda>(x, y). (x + 18, y + 18))\<rparr>,
      cs_grid = (8, 8), cs_l1_base = 1024, cs_node = \<lparr>fn_mesh_id = 0, fn_chip_id = 5\<rparr>\<rparr>"

definition sample_client_environment :: client_environment where
  "sample_client_environment =
     \<lparr>ve_abi = None, ve_mesh = True, ve_default_context = True, ve_fast_dispatch = True, ve_coord_in_shape = Some True,
      ve_unit_shape = False, ve_fabric_config = None\<rparr>"

definition sample_handshake :: "attempt list \<Rightarrow> byte list \<Rightarrow> handshake_environment" where
  "sample_handshake attempts response =
     \<lparr>he_timeout = Inr None, he_clock_mhz = 1000, he_now = 77, he_profile = Inr None, he_put_phase_profile = Inr (Some False),
      he_profile_detail = Inr 0, he_ring_depth = Inr None, he_create = (\<lambda>_. None), he_addresses = (4096, 4224),
      he_tx_buf = Inr 20480, he_response_buf = Inr 20608, he_sem_buf = Inr 20736, he_device = True,
      he_dram_geometry = (12, 12, 1), he_attempts = attempts, he_response = Inr response, he_configure = (\<lambda>_ _. None)\<rparr>"

definition sample_attempt :: "u32 \<Rightarrow> attempt" where
  "sample_attempt status =
     \<lparr>at_remaining_ms = 4000, at_clock_mhz = 1000, at_program = None, at_enqueue = None, at_in_time = True,
      at_status = Inr (le32 0 @ le32 status)\<rparr>"

definition sample_session :: "client_key set \<Rightarrow> session" where
  "sample_session keys =
     \<lparr>me = blank_client (7, 0, 0)
        \<lparr>co_static = False, co_server_node = Some \<lparr>fn_mesh_id = 0, fn_chip_id = 3\<rparr>, co_worker_group = 0, co_lane = 0\<rparr>
        \<lparr>fn_mesh_id = 0, fn_chip_id = 5\<rparr>,
      proc = \<lparr>ps_active_clients = keys, ps_quarantine = [], ps_nonce_counter = 1, ps_handles_kept = []\<rparr>\<rparr>"

lemmas sample_defs = sample_fabric_def sample_site_def sample_client_environment_def sample_handshake_def
  sample_attempt_def sample_session_def

text \<open>Two attempts time out and the deadline passes: the tail is retained and the key stays taken.\<close>

theorem client_construction_settles_witness:
  "ps_active_clients (proc (snd (construct_client sample_client_environment sample_fabric sample_site
      (sample_handshake [sample_attempt 2, sample_attempt 2] []) (sample_session {})))) = {(7, 0, 0)}"
proof -
  let ?he = "sample_handshake [sample_attempt 2, sample_attempt 2] []"
  let ?run = "construct_client sample_client_environment sample_fabric sample_site ?he (sample_session {})"
  have "case ?run of (r, t) \<Rightarrow> construction_settled ?he (sample_session {}) r t"
    by (rule client_construction_settles) (simp_all add: sample_defs)
  moreover have "isl (fst ?run) \<and> cl_may_have_started (me (snd ?run))" by code_simp
  ultimately show ?thesis
    by (auto simp: construction_settled_def Let_def isl_def sample_session_def blank_client_def split: prod.splits)
qed

end
