(* ===== verification/Client_World.thy ===== *)
theory Client_World
  imports Client_Session
begin

text \<open>
  The operations of a client (\<^verbatim>\<open>client_operations_adapter.cpp\<close>) and all clients of a process together:
  construction, calls, parallel gets, close and destruction as the steps of one relation, with the
  registry and the quarantine list they share. Calls run under the client's lifecycle mutex, so they
  are atomic steps; a parallel get holds the mutexes of all its clients.
\<close>

section \<open>The operations of one client\<close>

definition checked_operations :: "(session, unit) io" where
  "checked_operations =
     bindE (gets me) (\<lambda>c.
     check (cl_phase c = Established \<and> cl_operations c \<noteq> None)
       (Fatal ''Client is not established (closed or quarantined)''))"

text \<open>Every operation: check, call the backend, and pick up a quarantine on either path.\<close>

definition with_operations :: "'a backend_answer \<Rightarrow> (session, 'a) io" where
  "with_operations ba =
     seqE checked_operations
       (catchE (bindE (call_backend ba) (\<lambda>x. seqE sync_operations_quarantine (ret x)))
               (\<lambda>e. seqE sync_operations_quarantine (throw e)))"

record put_profile =
  pp_count :: u64
  pp_prepare_ns :: u64
  pp_program_ns :: u64
  pp_enqueue_ns :: u64
  pp_landed_wait_ns :: u64
  pp_commit_wait_ns :: u64
  pp_total_ns :: u64

text \<open>A tensor is an opaque reference that is passed down.\<close>

type_synonym tensor = nat

text \<open>The backend's requests, as functions of what the client passes down.\<close>

record client_backend =
  be_ping :: "byte list \<Rightarrow> byte list backend_answer"
  be_put :: "string \<Rightarrow> tensor \<Rightarrow> u32 \<Rightarrow> bool \<Rightarrow> unit backend_answer"
  be_put_batch :: "string list \<Rightarrow> tensor list \<Rightarrow> u32 list \<Rightarrow> bool \<Rightarrow> unit backend_answer"
  be_put_profile :: put_profile
  be_flush :: "unit backend_answer"
  be_get :: "string \<Rightarrow> tensor \<Rightarrow> bool backend_answer"
  be_exists :: "string \<Rightarrow> bool backend_answer"
  be_remove :: "string \<Rightarrow> bool backend_answer"
  be_move_to_host :: "string \<Rightarrow> unit backend_answer"
  be_move_to_device :: "string \<Rightarrow> unit backend_answer"

definition client_ping :: "client_backend \<Rightarrow> byte list \<Rightarrow> (session, byte list) io" where
  "client_ping be payload = with_operations (be_ping be payload)"

definition client_put :: "client_backend \<Rightarrow> string \<Rightarrow> tensor \<Rightarrow> u32 \<Rightarrow> bool \<Rightarrow> (session, unit) io" where
  "client_put be key tensor len sync_commit = with_operations (be_put be key tensor len sync_commit)"

definition client_put_batch ::
  "client_backend \<Rightarrow> string list \<Rightarrow> tensor list \<Rightarrow> u32 list \<Rightarrow> bool \<Rightarrow> (session, unit) io" where
  "client_put_batch be keys tensors lens sync_commit = with_operations (be_put_batch be keys tensors lens sync_commit)"

definition client_put_profile :: "client_backend \<Rightarrow> (session, put_profile) io" where
  "client_put_profile be = seqE checked_operations (ret (be_put_profile be))"

definition client_flush :: "client_backend \<Rightarrow> (session, unit) io" where
  "client_flush be = with_operations (be_flush be)"

definition client_get :: "client_backend \<Rightarrow> string \<Rightarrow> tensor \<Rightarrow> (session, bool) io" where
  "client_get be key tensor = with_operations (be_get be key tensor)"

definition client_exists :: "client_backend \<Rightarrow> string \<Rightarrow> (session, bool) io" where
  "client_exists be key = with_operations (be_exists be key)"

definition client_remove :: "client_backend \<Rightarrow> string \<Rightarrow> (session, bool) io" where
  "client_remove be key = with_operations (be_remove be key)"

definition client_move_to_host :: "client_backend \<Rightarrow> string \<Rightarrow> (session, unit) io" where
  "client_move_to_host be key = with_operations (be_move_to_host be key)"

definition client_move_to_device :: "client_backend \<Rightarrow> string \<Rightarrow> (session, unit) io" where
  "client_move_to_device be key = with_operations (be_move_to_device be key)"

datatype client_request =
    Ping "byte list"
  | Put string tensor u32 bool
  | Put_Batch "string list" "tensor list" "u32 list" bool
  | Put_Profile
  | Flush
  | Get string tensor
  | Exists string
  | Remove string
  | Move_To_Host string
  | Move_To_Device string

datatype call_result =
    Nothing
  | Bytes "byte list"
  | Found bool
  | Profile put_profile

fun client_call :: "client_backend \<Rightarrow> client_request \<Rightarrow> (session, call_result) io" where
  "client_call be (Ping payload) = bindE (client_ping be payload) (\<lambda>echoed. ret (Bytes echoed))"
| "client_call be (Put key tensor len sync_commit) = seqE (client_put be key tensor len sync_commit) (ret Nothing)"
| "client_call be (Put_Batch keys tensors lens sync_commit) =
     seqE (client_put_batch be keys tensors lens sync_commit) (ret Nothing)"
| "client_call be Put_Profile = bindE (client_put_profile be) (\<lambda>p. ret (Profile p))"
| "client_call be Flush = seqE (client_flush be) (ret Nothing)"
| "client_call be (Get key tensor) = bindE (client_get be key tensor) (\<lambda>found. ret (Found found))"
| "client_call be (Exists key) = bindE (client_exists be key) (\<lambda>found. ret (Found found))"
| "client_call be (Remove key) = bindE (client_remove be key) (\<lambda>removed. ret (Found removed))"
| "client_call be (Move_To_Host key) = seqE (client_move_to_host be key) (ret Nothing)"
| "client_call be (Move_To_Device key) = seqE (client_move_to_device be key) (ret Nothing)"

section \<open>The clients of a process\<close>

record client_world =
  wd_clients :: "nat \<Rightarrow> client option"
  wd_process :: client_process

definition on_client :: "nat \<Rightarrow> (session, 'a) io \<Rightarrow> (client_world, 'a) io" where
  "on_client p m = (\<lambda>w.
     case wd_clients w p of
       None \<Rightarrow> (Inl (Fatal ''no such client''), w)
     | Some c \<Rightarrow>
         (case m \<lparr>me = c, proc = wd_process w\<rparr> of
            (r, s) \<Rightarrow> (r, \<lparr>wd_clients = (wd_clients w)(p \<mapsto> me s), wd_process = proc s\<rparr>)))"

record construction =
  ct_key :: client_key
  ct_options :: client_options
  ct_environment :: client_environment
  ct_fabric :: fabric
  ct_site :: client_site
  ct_handshake :: handshake_environment

text \<open>A constructor that throws destroys the members; the object never exists.\<close>

definition new_client :: "nat \<Rightarrow> construction \<Rightarrow> (client_world, unit) io" where
  "new_client p ct = (\<lambda>w.
     case construct_client (ct_environment ct) (ct_fabric ct) (ct_site ct) (ct_handshake ct)
            \<lparr>me = blank_client (ct_key ct) (ct_options ct) (cs_node (ct_site ct)), proc = wd_process w\<rparr> of
       (Inr _, s) \<Rightarrow> (Inr (), \<lparr>wd_clients = (wd_clients w)(p \<mapsto> me s), wd_process = proc s\<rparr>)
     | (Inl e, s) \<Rightarrow> (Inl e, w\<lparr>wd_process := proc (snd (destroy_members s))\<rparr>))"

definition delete_client :: "nat \<Rightarrow> unit backend_answer \<Rightarrow> (client_world, unit) io" where
  "delete_client p ba = (\<lambda>w.
     case on_client p (seqE (destroy_client ba) destroy_members) w of
       (r, w') \<Rightarrow> (r, w'\<lparr>wd_clients := (wd_clients w')(p := None)\<rparr>))"

text \<open>
  A parallel get: the pointers are checked and sorted, all mutexes taken in that order, every
  operations object checked, then one call into the backend, which leaves each object in a state.
\<close>

record parallel_answer =
  pa_result :: "fault + bool list"
  pa_states :: "nat \<Rightarrow> operations_state"

definition lock_order :: "nat option list \<Rightarrow> fault + nat list" where
  "lock_order clients =
     sum_bind (ensure [(None \<notin> set clients, Fatal ''get_parallel: client is null'')]) (\<lambda>_.
     let order = sort (map the clients) in
     sum_bind (ensure [(distinct order, Fatal ''get_parallel: clients must be distinct'')]) (\<lambda>_. Inr order))"

definition get_parallel :: "nat option list \<Rightarrow> string list \<Rightarrow> parallel_answer \<Rightarrow> (client_world, bool list) io" where
  "get_parallel clients keys pa =
     seqE (lift_sum (ensure
       [(clients \<noteq> [], Fatal ''get_parallel: clients must not be empty''),
        (length clients = length keys, Fatal ''get_parallel: clients and keys must have equal length'')]))
    (bindE (lift_sum (lock_order clients)) (\<lambda>_.
     let ps = map the clients;
         sync_all = forE ps (\<lambda>p. on_client p sync_operations_quarantine)
     in
     seqE (forE ps (\<lambda>p. on_client p checked_operations))
    (seqE (forE ps (\<lambda>p. on_client p (on_me (cl_operations_update (map_option (\<lambda>_. pa_states pa p))))))
          (catchE (bindE (lift_sum (pa_result pa)) (\<lambda>found. seqE sync_all (ret found)))
                  (\<lambda>e. seqE sync_all (throw e))))))"

inductive client_step :: "client_world \<Rightarrow> client_world \<Rightarrow> bool" where
  create: "wd_clients w p = None \<Longrightarrow> length (he_attempts (ct_handshake ct)) < 4294967296 \<Longrightarrow>
     client_step w (snd (new_client p ct w))"
| call: "client_step w (snd (on_client p (client_call be c) w))"
| parallel: "client_step w (snd (get_parallel clients keys pa w))"
| close: "client_step w (snd (on_client p (close_client ba) w))"
| delete: "client_step w (snd (delete_client p ba w))"

definition no_clients :: client_world where
  "no_clients = \<lparr>wd_clients = (\<lambda>_. None),
     wd_process = \<lparr>ps_active_clients = {}, ps_quarantine = [], ps_nonce_counter = 1, ps_handles_kept = []\<rparr>\<rparr>"

inductive client_reach :: "client_world \<Rightarrow> bool" where
  start: "client_reach no_clients"
| step: "client_reach w \<Longrightarrow> client_step w w' \<Longrightarrow> client_reach w'"

section \<open>What one call does to its client\<close>

text \<open>
  Between calls a client holds either everything (established) or nothing.
\<close>

definition client_ok :: "client \<Rightarrow> bool" where
  "client_ok c \<longleftrightarrow>
     (case cl_phase c of
        Constructing \<Rightarrow> False
      | Established \<Rightarrow> cl_operations c \<noteq> None \<and> buffers_held c \<and> cl_submesh_owner c = Some (fst (cl_key c))
          \<and> cl_holder c \<and> cl_workload c = None
      | _ \<Rightarrow> cl_operations c = None \<and> cl_submesh_owner c = None \<and> cl_tx_buf c = None \<and> cl_response_buf c = None
          \<and> cl_sem_buf c = None \<and> cl_workload c = None)"

text \<open>An established client whose backend is quarantined has not noticed yet.\<close>

definition unsynced :: "client \<Rightarrow> bool" where
  "unsynced c \<longleftrightarrow> cl_phase c = Established \<and> cl_operations c = Some Ops_Quarantined"

text \<open>
  The three effects a call has on the process: none, the client's quarantine, or its release.
\<close>

definition effect :: "session \<Rightarrow> session \<Rightarrow> bool" where
  "effect s t \<longleftrightarrow>
     (let p = proc s; q = proc t in
      cl_key (me t) = cl_key (me s) \<and>
      (cl_phase (me t) = cl_phase (me s) \<and> ps_active_clients q = ps_active_clients p \<and> ps_quarantine q = ps_quarantine p
       \<or> cl_phase (me s) = Established \<and> cl_phase (me t) = Quarantined \<and> ps_active_clients q = ps_active_clients p
         \<and> ps_quarantine q = held_resources (me s) # ps_quarantine p
       \<or> cl_phase (me s) = Established \<and> cl_phase (me t) = Closed
         \<and> ps_active_clients q = ps_active_clients p - {cl_key (me s)} \<and> ps_quarantine q = ps_quarantine p))"

definition moves_on :: "session \<Rightarrow> session \<Rightarrow> bool" where
  "moves_on s t \<longleftrightarrow> effect s t \<and> client_ok (me t) \<and> \<not> unsynced (me t)"

lemmas settled_defs = moves_on_def effect_def client_ok_def unsynced_def Let_def buffers_held_def held_resources_def
  quarantine_effect_def release_effect_def moved_out_def sync_effect_def

lemma sync_moves_on: "client_ok (me s) \<Longrightarrow> moves_on s (sync_effect s)"
  by (cases "cl_phase (me s)") (auto simp: settled_defs)

lemma moves_on_answer:
  assumes "client_ok (me s)" and "moves_on (s\<lparr>me := cl_operations_update (map_option (\<lambda>_. st)) (me s)\<rparr>) t"
  shows "moves_on s t"
  using assms(2) by (simp add: moves_on_def effect_def Let_def held_resources_def)

lemma client_ok_answer:
  "client_ok c \<Longrightarrow> client_ok (cl_operations_update (map_option f) c)"
  by (auto simp: client_ok_def buffers_held_def split: client_phase.splits)

lemma stays_moves_on: "client_ok (me s) \<Longrightarrow> \<not> unsynced (me s) \<Longrightarrow> moves_on s s"
  by (simp add: moves_on_def effect_def Let_def)

lemma answer_then_sync:
  assumes "client_ok (me s)"
  shows "moves_on s (sync_effect (s\<lparr>me := cl_operations_update (map_option (\<lambda>_. st)) (me s)\<rparr>))"
  by (rule moves_on_answer [OF assms]) (rule sync_moves_on, simp add: client_ok_answer assms)

lemma with_operations_moves_on:
  assumes "client_ok (me s)" and "\<not> unsynced (me s)"
  shows "wp (with_operations ba) (\<lambda>_. moves_on s) (\<lambda>_. moves_on s) s"
  unfolding with_operations_def checked_operations_def call_backend_def
  using answer_then_sync [OF assms(1)] stays_moves_on [OF assms]
  by (simp add: wp_rules split: sum.split)

lemma client_call_moves_on:
  assumes "client_ok (me s)" and "\<not> unsynced (me s)"
  shows "wp (client_call be c) (\<lambda>_. moves_on s) (\<lambda>_. moves_on s) s"
proof (cases c)
  case Put_Profile
  then show ?thesis
    using stays_moves_on [OF assms] by (simp add: client_put_profile_def checked_operations_def wp_rules)
qed (simp_all add: wp_bindE wp_seqE wp_ret [abs_def] with_operations_moves_on [OF assms] client_ping_def client_put_def
    client_put_batch_def client_flush_def client_get_def client_exists_def client_remove_def client_move_to_host_def
    client_move_to_device_def)

lemma release_moves_on: "client_ok (me s) \<Longrightarrow> cl_phase (me s) = Established \<Longrightarrow> moves_on s (release_effect s)"
  by (simp add: settled_defs)

lemma close_moves_on:
  assumes "client_ok (me s)" and "\<not> unsynced (me s)"
  shows "wp (close_client ba) (\<lambda>_ t. moves_on s t \<and> cl_phase (me t) \<noteq> Established)
     (\<lambda>_ t. moves_on s t \<and> cl_phase (me t) \<noteq> Closed) s"
proof (cases "cl_phase (me s) = Established")
  case True
  let ?t = "s\<lparr>me := cl_operations_update (map_option (\<lambda>_. ba_state ba)) (me s)\<rparr>"
  note sync = answer_then_sync [OF assms(1), of "ba_state ba"]
  have "cl_phase (me (sync_effect ?t)) = Quarantined \<or> sync_effect ?t = ?t"
    by (simp add: sync_effect_def quarantine_effect_def Let_def moved_out_def)
  moreover have "moves_on s (release_effect ?t)"
    by (rule moves_on_answer [OF assms(1), of "ba_state ba"], rule release_moves_on)
      (simp_all add: client_ok_answer assms True)
  moreover have "cl_phase (me (release_effect u)) = Closed" for u by (simp add: release_effect_def)
  ultimately show ?thesis
    unfolding close_client_def call_backend_def
    using True sync by (auto simp: wp_rules split: sum.split)
next
  case False
  then have "cl_phase (me s) = Quarantined \<or> cl_phase (me s) = Closed"
    using assms(1) by (cases "cl_phase (me s)") (simp_all add: client_ok_def)
  then show ?thesis
    unfolding close_client_def using stays_moves_on [OF assms] by (auto simp: wp_rules)
qed

lemma destroy_effect:
  assumes "client_ok (me s)" and "\<not> unsynced (me s)"
  shows "wp (seqE (destroy_client ba) destroy_members) (\<lambda>_ t. effect s t \<and> cl_phase (me t) \<noteq> Established) (\<lambda>_ _. False) s"
proof -
  have members: "effect s t \<Longrightarrow> cl_phase (me t) \<noteq> Established \<Longrightarrow>
      wp destroy_members (\<lambda>_ t. effect s t \<and> cl_phase (me t) \<noteq> Established) (\<lambda>_ _. False) t" for t
    unfolding destroy_members_def by (simp add: wp_rules effect_def Let_def moved_out_def)
  have "wp (destroy_client ba) (\<lambda>_ t. effect s t \<and> cl_phase (me t) \<noteq> Established) (\<lambda>_ _. False) s"
    unfolding destroy_client_def wp_catchE
  proof (rule wp_mono [OF close_moves_on [OF assms, of ba]], goal_cases)
    case (1 a t)
    then show ?case by (simp add: moves_on_def)
  next
    case (2 e t)
    then show ?case
      by (cases "cl_phase (me t)"; cases "cl_phase (me s)")
        (auto simp: wp_rules moves_on_def effect_def release_effect_def Let_def moved_out_def client_ok_def)
  qed
  then show ?thesis unfolding wp_seqE by (rule wp_mono) (simp_all add: members)
qed

section \<open>The invariant of the process\<close>

definition live_keys :: "(nat \<Rightarrow> client option) \<Rightarrow> client_key set" where
  "live_keys cl = {cl_key c | p c. cl p = Some c \<and> cl_phase c = Established}"

text \<open>Registered keys without an established client: their chips must be reset before they serve again.\<close>

definition poisoned :: "client_world \<Rightarrow> client_key set" where
  "poisoned w = ps_active_clients (wd_process w) - live_keys (wd_clients w)"

definition one_client_per_key :: "(nat \<Rightarrow> client option) \<Rightarrow> bool" where
  "one_client_per_key cl \<longleftrightarrow>
     (\<forall>p q c d. cl p = Some c \<and> cl q = Some d \<and> cl_phase c = Established \<and> cl_phase d = Established
        \<and> cl_key c = cl_key d \<longrightarrow> p = q)"

definition retained :: "quarantine_resources_record \<Rightarrow> bool" where
  "retained r \<longleftrightarrow> qr_submesh_owner r \<noteq> None \<and> qr_tx_buf r \<noteq> None \<and> qr_response_buf r \<noteq> None \<and> qr_sem_buf r \<noteq> None"

definition world_ok :: "client_world \<Rightarrow> bool" where
  "world_ok w \<longleftrightarrow>
     (\<forall>p c. wd_clients w p = Some c \<longrightarrow> client_ok c)
     \<and> one_client_per_key (wd_clients w)
     \<and> finite (ps_active_clients (wd_process w))
     \<and> live_keys (wd_clients w) \<subseteq> ps_active_clients (wd_process w)
     \<and> (\<forall>r \<in> set (ps_quarantine (wd_process w)). retained r)
     \<and> mset (map qr_submesh_owner (ps_quarantine (wd_process w)))
         = image_mset (\<lambda>k. Some (fst k)) (mset_set (poisoned w))"

text \<open>The quarantine only grows, and no key comes out of it.\<close>

definition grows :: "client_world \<Rightarrow> client_world \<Rightarrow> bool" where
  "grows w w' \<longleftrightarrow> poisoned w \<subseteq> poisoned w'
     \<and> (\<exists>new. ps_quarantine (wd_process w') = new @ ps_quarantine (wd_process w))"

lemma grows_refl [simp]: "grows w w"
  by (simp add: grows_def)

lemma grows_trans: "grows w w' \<Longrightarrow> grows w' w'' \<Longrightarrow> grows w w''"
  unfolding grows_def by (metis append.assoc subset_trans)

definition live_key :: "client option \<Rightarrow> client_key set" where
  "live_key X = (case X of Some c \<Rightarrow> if cl_phase c = Established then {cl_key c} else {} | None \<Rightarrow> {})"

lemma live_keys_Union: "live_keys cl = (\<Union>p. live_key (cl p))"
  by (rule set_eqI) (auto simp: live_keys_def live_key_def split: option.splits)

lemma live_keys_update: "live_keys (cl(p := X)) = live_key X \<union> (\<Union>q \<in> - {p}. live_key (cl q))"
  unfolding live_keys_Union by (rule set_eqI) auto

lemma live_keys_split: "live_keys cl = live_key (cl p) \<union> (\<Union>q \<in> - {p}. live_key (cl q))"
  using live_keys_update [of cl p "cl p"] by simp

lemma live_keys_same: "live_key X = live_key (cl p) \<Longrightarrow> live_keys (cl(p := X)) = live_keys cl"
  by (simp add: live_keys_update live_keys_split [of cl p])

lemma live_keys_leave:
  assumes "one_client_per_key cl" and "cl p = Some c" and "cl_phase c = Established" and "live_key X = {}"
  shows "live_keys (cl(p := X)) = live_keys cl - {cl_key c}"
proof -
  have "cl_key c \<notin> live_key (cl q)" if "q \<noteq> p" for q
    using assms(1-3) that by (auto simp: one_client_per_key_def live_key_def split: option.splits)
  then show ?thesis
    using assms(2-4) by (auto simp: live_keys_update live_keys_split [of cl p] live_key_def)
qed

lemma live_keys_join:
  "cl p = None \<Longrightarrow> cl_phase c = Established \<Longrightarrow> live_keys (cl(p \<mapsto> c)) = insert (cl_key c) (live_keys cl)"
  by (simp add: live_keys_update live_keys_split [of cl p] live_key_def)

lemma one_client_update:
  assumes "one_client_per_key cl" and "\<And>d. X = Some d \<Longrightarrow> cl_phase d = Established \<Longrightarrow>
     (\<exists>c. cl p = Some c \<and> cl_phase c = Established \<and> cl_key c = cl_key d)"
  shows "one_client_per_key (cl(p := X))"
  using assms unfolding one_client_per_key_def by (auto split: if_splits)

lemma mem_live: "cl p = Some c \<Longrightarrow> cl_phase c = Established \<Longrightarrow> cl_key c \<in> live_keys cl"
  by (auto simp: live_keys_def)

text \<open>
  What an effect of one client's call means for the process. The object is updated (\<open>X = Some\<close>) or gone.
\<close>

lemma effect_preserves:
  assumes "world_ok w" and "wd_clients w p = Some c" and "s = \<lparr>me = c, proc = wd_process w\<rparr>" and "effect s t"
    and X: "X = Some (me t) \<and> client_ok (me t) \<or> X = None \<and> cl_phase (me t) \<noteq> Established"
  shows "world_ok \<lparr>wd_clients = (wd_clients w)(p := X), wd_process = proc t\<rparr>
    \<and> grows w \<lparr>wd_clients = (wd_clients w)(p := X), wd_process = proc t\<rparr>"
proof -
  let ?cl = "wd_clients w" and ?pr = "wd_process w" and ?w = "\<lparr>wd_clients = (wd_clients w)(p := X), wd_process = proc t\<rparr>"
  have ok: "client_ok c" "one_client_per_key ?cl" "finite (ps_active_clients ?pr)" "live_keys ?cl \<subseteq> ps_active_clients ?pr"
      "\<forall>r \<in> set (ps_quarantine ?pr). retained r"
      "mset (map qr_submesh_owner (ps_quarantine ?pr)) = image_mset (\<lambda>k. Some (fst k)) (mset_set (poisoned w))"
    using assms(1,2) by (auto simp: world_ok_def)
  have all: "\<forall>q d. (?cl(p := X)) q = Some d \<longrightarrow> client_ok d"
    using assms(1) X by (auto simp: world_ok_def)
  have key: "cl_key (me t) = cl_key c" using assms(3,4) by (simp add: effect_def Let_def)
  from assms(3,4) consider
      (stay) "cl_phase (me t) = cl_phase c" "ps_active_clients (proc t) = ps_active_clients ?pr" "ps_quarantine (proc t) = ps_quarantine ?pr"
    | (quarantine) "cl_phase c = Established" "cl_phase (me t) = Quarantined" "ps_active_clients (proc t) = ps_active_clients ?pr"
        "ps_quarantine (proc t) = held_resources c # ps_quarantine ?pr"
    | (release) "cl_phase c = Established" "cl_phase (me t) = Closed"
        "ps_active_clients (proc t) = ps_active_clients ?pr - {cl_key c}" "ps_quarantine (proc t) = ps_quarantine ?pr"
    by (auto simp: effect_def Let_def)
  then show ?thesis
  proof cases
    case stay
    have l: "live_keys (?cl(p := X)) = live_keys ?cl"
      by (rule live_keys_same) (use X stay(1) key assms(2) in \<open>auto simp: live_key_def\<close>)
    have one: "one_client_per_key (?cl(p := X))"
      by (rule one_client_update [OF ok(2)]) (use X stay(1) key assms(2) in auto)
    have k: "poisoned ?w = poisoned w" using stay(2) l by (simp add: poisoned_def)
    show ?thesis using all one ok(3-6) l k stay(2,3) by (simp add: world_ok_def grows_def)
  next
    case quarantine
    have l: "live_keys (?cl(p := X)) = live_keys ?cl - {cl_key c}"
      by (rule live_keys_leave [OF ok(2) assms(2) quarantine(1)]) (use X quarantine(2) in \<open>auto simp: live_key_def\<close>)
    have m: "cl_key c \<in> live_keys ?cl" by (rule mem_live [where p = p]) (use assms(2) quarantine(1) in simp_all)
    then have k: "poisoned ?w = insert (cl_key c) (poisoned w)" "cl_key c \<notin> poisoned w"
      using ok(4) quarantine(3) l by (auto simp: poisoned_def)
    have one: "one_client_per_key (?cl(p := X))"
      by (rule one_client_update [OF ok(2)]) (use X quarantine(2) in auto)
    have h: "retained (held_resources c)" "qr_submesh_owner (held_resources c) = Some (fst (cl_key c))"
      using ok(1) quarantine(1) by (simp_all add: client_ok_def retained_def held_resources_def buffers_held_def)
    have f: "finite (poisoned w)" using ok(3) by (simp add: poisoned_def)
    have "mset (map qr_submesh_owner (ps_quarantine (proc t)))
        = image_mset (\<lambda>k. Some (fst k)) (mset_set (poisoned ?w))"
      unfolding k(1) quarantine(4) using f k(2) ok(6) h(2) by simp
    moreover have "live_keys (?cl(p := X)) \<subseteq> ps_active_clients (proc t)" using l ok(4) quarantine(3) by auto
    moreover have "\<forall>r \<in> set (ps_quarantine (proc t)). retained r" using ok(5) h(1) quarantine(4) by simp
    moreover have "grows w ?w" unfolding grows_def k(1) using quarantine(4) by (auto intro: exI [of _ "[held_resources c]"])
    ultimately show ?thesis using all one ok(3) quarantine(3) by (simp add: world_ok_def)
  next
    case release
    have l: "live_keys (?cl(p := X)) = live_keys ?cl - {cl_key c}"
      by (rule live_keys_leave [OF ok(2) assms(2) release(1)]) (use X release(2) in \<open>auto simp: live_key_def\<close>)
    have m: "cl_key c \<in> live_keys ?cl" by (rule mem_live [where p = p]) (use assms(2) release(1) in simp_all)
    then have "A - {cl_key c} - (live_keys ?cl - {cl_key c}) = A - live_keys ?cl" for A by blast
    then have k: "poisoned ?w = poisoned w" by (simp add: poisoned_def release(3) l)
    have one: "one_client_per_key (?cl(p := X))"
      by (rule one_client_update [OF ok(2)]) (use X release(2) in auto)
    have "live_keys (?cl(p := X)) \<subseteq> ps_active_clients (proc t)" using l ok(4) release(3) by auto
    then show ?thesis using all one ok(3,5,6) k release(3,4) by (simp add: world_ok_def grows_def)
  qed
qed

lemma on_client_preserves:
  assumes "world_ok w"
    and "\<And>s. client_ok (me s) \<Longrightarrow> wd_clients w p = Some (me s) \<Longrightarrow>
       wp m (\<lambda>_ t. effect s t \<and> client_ok (me t)) (\<lambda>_ t. effect s t \<and> client_ok (me t)) s"
  shows "world_ok (snd (on_client p m w)) \<and> grows w (snd (on_client p m w))"
proof (cases "wd_clients w p")
  case None
  then show ?thesis using assms(1) by (simp add: on_client_def)
next
  case (Some c)
  let ?s = "\<lparr>me = c, proc = wd_process w\<rparr>"
  obtain r t where run: "m ?s = (r, t)" by force
  have "client_ok c" using assms(1) Some by (simp add: world_ok_def)
  then have "effect ?s t \<and> client_ok (me t)"
    using assms(2) [of ?s] Some run by (cases r) (simp_all add: wp_def)
  then show ?thesis
    using effect_preserves [OF assms(1) Some refl, of t "Some (me t)"] by (simp add: on_client_def Some run)
qed

section \<open>Construction and destruction\<close>

lemma destroy_members_proc:
  "ps_active_clients (proc (snd (destroy_members s))) = ps_active_clients (proc s)
   \<and> ps_quarantine (proc (snd (destroy_members s))) = ps_quarantine (proc s)"
proof -
  have "wp destroy_members (\<lambda>_ t. ps_active_clients (proc t) = ps_active_clients (proc s) \<and> ps_quarantine (proc t) = ps_quarantine (proc s))
      (\<lambda>_ _. False) s"
    unfolding destroy_members_def by (simp add: wp_rules)
  then show ?thesis by (simp add: wp_def split: prod.splits sum.splits)
qed

lemma construction_run:
  assumes "length (he_attempts (ct_handshake ct)) < 4294967296"
    and "construct_client (ct_environment ct) (ct_fabric ct) (ct_site ct) (ct_handshake ct)
            \<lparr>me = blank_client (ct_key ct) (ct_options ct) (cs_node (ct_site ct)), proc = pr\<rparr> = (r, s)"
  shows "construction_settled (ct_handshake ct)
     \<lparr>me = blank_client (ct_key ct) (ct_options ct) (cs_node (ct_site ct)), proc = pr\<rparr> r s"
proof -
  have "wp (construct_client (ct_environment ct) (ct_fabric ct) (ct_site ct) (ct_handshake ct))
      (\<lambda>a. construction_settled (ct_handshake ct) \<lparr>me = blank_client (ct_key ct) (ct_options ct) (cs_node (ct_site ct)), proc = pr\<rparr> (Inr a))
      (\<lambda>e. construction_settled (ct_handshake ct) \<lparr>me = blank_client (ct_key ct) (ct_options ct) (cs_node (ct_site ct)), proc = pr\<rparr> (Inl e))
      \<lparr>me = blank_client (ct_key ct) (ct_options ct) (cs_node (ct_site ct)), proc = pr\<rparr>"
    by (rule construct_settles [OF _ assms(1)]) simp
  then show ?thesis using assms(2) by (simp add: wp_def split: sum.splits)
qed

lemma new_client_created:
  assumes "world_ok w" and "wd_clients w p = None" and "cl_phase c = Established" and "client_ok c"
    and "cl_key c \<notin> ps_active_clients (wd_process w)"
    and "ps_active_clients pr = insert (cl_key c) (ps_active_clients (wd_process w))"
    and "ps_quarantine pr = ps_quarantine (wd_process w)"
  shows "world_ok \<lparr>wd_clients = (wd_clients w)(p \<mapsto> c), wd_process = pr\<rparr>
    \<and> grows w \<lparr>wd_clients = (wd_clients w)(p \<mapsto> c), wd_process = pr\<rparr>"
proof -
  let ?cl = "wd_clients w" and ?w = "\<lparr>wd_clients = (wd_clients w)(p \<mapsto> c), wd_process = pr\<rparr>"
  have sub: "live_keys ?cl \<subseteq> ps_active_clients (wd_process w)" using assms(1) by (simp add: world_ok_def)
  have l: "live_keys (?cl(p \<mapsto> c)) = insert (cl_key c) (live_keys ?cl)" using assms(2,3) by (rule live_keys_join)
  have fresh: "cl_key d \<noteq> cl_key c" if "?cl q = Some d" "cl_phase d = Established" for q d
    using mem_live [of ?cl q d] that sub assms(5) by auto
  have one: "one_client_per_key (?cl(p \<mapsto> c))"
  proof -
    have "one_client_per_key ?cl" using assms(1) by (simp add: world_ok_def)
    then show ?thesis using fresh unfolding one_client_per_key_def by (metis fun_upd_apply option.inject)
  qed
  have "insert (cl_key c) A - insert (cl_key c) (live_keys ?cl) = A - live_keys ?cl" if "cl_key c \<notin> A" for A
    using that by blast
  from this [OF assms(5)] have k: "poisoned ?w = poisoned w" by (simp add: poisoned_def l assms(6))
  have "live_keys (?cl(p \<mapsto> c)) \<subseteq> ps_active_clients pr" using l sub assms(6) by auto
  then show ?thesis using assms(1,4,6,7) one k by (simp add: world_ok_def grows_def)
qed

lemma new_client_tail:
  assumes "world_ok w" and "key \<notin> ps_active_clients (wd_process w)"
    and "ps_active_clients pr = insert key (ps_active_clients (wd_process w))"
    and "ps_quarantine pr = r # ps_quarantine (wd_process w)" and "retained r" and "qr_submesh_owner r = Some (fst key)"
  shows "world_ok (w\<lparr>wd_process := pr\<rparr>) \<and> grows w (w\<lparr>wd_process := pr\<rparr>)"
proof -
  have sub: "live_keys (wd_clients w) \<subseteq> ps_active_clients (wd_process w)" using assms(1) by (simp add: world_ok_def)
  have k: "poisoned (w\<lparr>wd_process := pr\<rparr>) = insert key (poisoned w)" "key \<notin> poisoned w"
    using sub assms(2,3) by (auto simp: poisoned_def)
  have f: "finite (poisoned w)" using assms(1) by (simp add: poisoned_def world_ok_def)
  have "mset (map qr_submesh_owner (ps_quarantine pr)) = image_mset (\<lambda>k. Some (fst k)) (mset_set (poisoned (w\<lparr>wd_process := pr\<rparr>)))"
    unfolding k(1) assms(4) using f k(2) assms(1,6) by (simp add: world_ok_def)
  moreover have "live_keys (wd_clients w) \<subseteq> ps_active_clients pr" using sub assms(3) by auto
  moreover have "grows w (w\<lparr>wd_process := pr\<rparr>)"
    unfolding grows_def k(1) using assms(4) by (auto intro: exI [of _ "[r]"])
  ultimately show ?thesis using assms(1,3-5) by (simp add: world_ok_def)
qed

lemma new_client_preserves:
  assumes "world_ok w" and "wd_clients w p = None" and "length (he_attempts (ct_handshake ct)) < 4294967296"
  shows "world_ok (snd (new_client p ct w)) \<and> grows w (snd (new_client p ct w))
    \<and> (\<forall>c. wd_clients (snd (new_client p ct w)) p = Some c \<longrightarrow> \<not> unsynced c)
    \<and> (\<forall>q. q \<noteq> p \<longrightarrow> wd_clients (snd (new_client p ct w)) q = wd_clients w q)
    \<and> (fst (new_client p ct w) = Inr () \<longrightarrow> ct_key ct \<notin> ps_active_clients (wd_process w))"
proof -
  let ?b = "blank_client (ct_key ct) (ct_options ct) (cs_node (ct_site ct))"
  obtain r s where run: "construct_client (ct_environment ct) (ct_fabric ct) (ct_site ct) (ct_handshake ct)
      \<lparr>me = ?b, proc = wd_process w\<rparr> = (r, s)"
    by force
  note settled = construction_run [OF assms(3) run]
  have key: "cl_key ?b = ct_key ct" by (simp add: blank_client_def)
  show ?thesis
  proof (cases r)
    case (Inr u)
    have c: "cl_phase (me s) = Established" "client_ok (me s)" "\<not> unsynced (me s)" "cl_key (me s) = ct_key ct"
        "ct_key ct \<notin> ps_active_clients (wd_process w)"
        "ps_active_clients (proc s) = insert (ct_key ct) (ps_active_clients (wd_process w))"
        "ps_quarantine (proc s) = ps_quarantine (wd_process w)"
      using settled by (simp_all add: construction_settled_def Inr key Let_def client_ok_def unsynced_def)
    from new_client_created [OF assms(1,2) c(1,2), of "proc s"] c show ?thesis
      by (simp add: new_client_def run Inr)
  next
    case (Inl e)
    let ?pr = "proc (snd (destroy_members s))"
    have "world_ok (w\<lparr>wd_process := ?pr\<rparr>) \<and> grows w (w\<lparr>wd_process := ?pr\<rparr>)"
    proof (cases "cl_may_have_started (me s)")
      case True
      have q: "ct_key ct \<notin> ps_active_clients (wd_process w)"
          "ps_active_clients ?pr = insert (ct_key ct) (ps_active_clients (wd_process w))"
        using settled destroy_members_proc [of s] by (simp_all add: construction_settled_def Inl True key Let_def)
      obtain r0 where "ps_quarantine ?pr = r0 # ps_quarantine (wd_process w)" "retained r0"
          "qr_submesh_owner r0 = Some (fst (ct_key ct))"
        using settled destroy_members_proc [of s]
        by (auto simp: construction_settled_def Inl True key Let_def retained_def)
      then show ?thesis by (rule new_client_tail [OF assms(1) q])
    next
      case False
      then have "ps_active_clients (proc s) = ps_active_clients (wd_process w)" "ps_quarantine (proc s) = ps_quarantine (wd_process w)"
        using settled by (simp_all add: construction_settled_def Inl Let_def)
      then show ?thesis
        using assms(1) destroy_members_proc [of s] by (simp add: world_ok_def grows_def poisoned_def)
    qed
    then show ?thesis using assms(2) by (simp add: new_client_def run Inl)
  qed
qed

lemma wp_on_client:
  "wp (on_client p m) Q E w =
     (case wd_clients w p of
        None \<Rightarrow> E (Fatal ''no such client'') w
      | Some c \<Rightarrow> wp m (\<lambda>a s. Q a \<lparr>wd_clients = (wd_clients w)(p \<mapsto> me s), wd_process = proc s\<rparr>)
                    (\<lambda>e s. E e \<lparr>wd_clients = (wd_clients w)(p \<mapsto> me s), wd_process = proc s\<rparr>)
                    \<lparr>me = c, proc = wd_process w\<rparr>)"
  by (simp add: wp_def on_client_def split: option.splits prod.splits sum.splits)

text \<open>Between steps every established client knows whether its backend is quarantined.\<close>

definition world_safe :: "client_world \<Rightarrow> bool" where
  "world_safe w \<longleftrightarrow> world_ok w \<and> (\<forall>p c. wd_clients w p = Some c \<longrightarrow> \<not> unsynced c)"

lemma on_client_safe:
  assumes "world_safe w"
    and "\<And>s. client_ok (me s) \<Longrightarrow> \<not> unsynced (me s) \<Longrightarrow> wp m (\<lambda>_. moves_on s) (\<lambda>_. moves_on s) s"
  shows "world_safe (snd (on_client p m w)) \<and> grows w (snd (on_client p m w))"
proof -
  have "wp m (\<lambda>_ t. effect s t \<and> client_ok (me t)) (\<lambda>_ t. effect s t \<and> client_ok (me t)) s"
    if "client_ok (me s)" "wd_clients w p = Some (me s)" for s
    using assms(1) that by (intro wp_mono [OF assms(2)]) (auto simp: world_safe_def moves_on_def)
  moreover have "world_ok w" using assms(1) by (simp add: world_safe_def)
  ultimately have "world_ok (snd (on_client p m w)) \<and> grows w (snd (on_client p m w))" by (intro on_client_preserves)
  moreover have "\<not> unsynced c" if "wd_clients (snd (on_client p m w)) q = Some c" for q c
  proof (cases "wd_clients w p")
    case None
    then show ?thesis using that assms(1) by (simp add: on_client_def world_safe_def)
  next
    case (Some d)
    obtain r t where run: "m \<lparr>me = d, proc = wd_process w\<rparr> = (r, t)" by force
    have "client_ok d \<and> \<not> unsynced d" using assms(1) Some by (auto simp: world_safe_def world_ok_def)
    then have "moves_on \<lparr>me = d, proc = wd_process w\<rparr> t"
      using assms(2) [of "\<lparr>me = d, proc = wd_process w\<rparr>"] run by (cases r) (simp_all add: wp_def)
    then show ?thesis
      using that assms(1) by (auto simp: on_client_def Some run world_safe_def moves_on_def split: if_splits)
  qed
  ultimately show ?thesis by (simp add: world_safe_def)
qed

lemma delete_client_safe:
  assumes "world_safe w"
  shows "world_safe (snd (delete_client p ba w)) \<and> grows w (snd (delete_client p ba w))"
proof (cases "wd_clients w p")
  case None
  then have "w\<lparr>wd_clients := (wd_clients w)(p := None)\<rparr> = w" by (cases w) auto
  then show ?thesis using assms None by (simp add: delete_client_def on_client_def)
next
  case (Some c)
  let ?s = "\<lparr>me = c, proc = wd_process w\<rparr>"
  obtain r t where run: "seqE (destroy_client ba) destroy_members ?s = (r, t)" by force
  have ok: "world_ok w" "client_ok c" "\<not> unsynced c" using assms Some by (auto simp: world_safe_def world_ok_def)
  have "effect ?s t \<and> cl_phase (me t) \<noteq> Established"
    using destroy_effect [of ?s ba] ok run by (cases r) (simp_all add: wp_def)
  then have "world_ok \<lparr>wd_clients = (wd_clients w)(p := None), wd_process = proc t\<rparr>
      \<and> grows w \<lparr>wd_clients = (wd_clients w)(p := None), wd_process = proc t\<rparr>"
    by (intro effect_preserves [OF ok(1) Some refl]) simp_all
  then show ?thesis
    using assms by (simp add: delete_client_def on_client_def Some run world_safe_def)
qed

lemma new_client_safe:
  assumes "world_safe w" and "wd_clients w p = None" and "length (he_attempts (ct_handshake ct)) < 4294967296"
  shows "world_safe (snd (new_client p ct w)) \<and> grows w (snd (new_client p ct w))"
proof -
  have ok: "world_ok w" using assms(1) by (simp add: world_safe_def)
  from new_client_preserves [OF this assms(2,3)] show ?thesis
    using assms(1) unfolding world_safe_def by metis
qed

section \<open>Parallel gets\<close>

definition unaware :: "client_world \<Rightarrow> nat set" where
  "unaware w = {p. \<exists>c. wd_clients w p = Some c \<and> unsynced c}"

text \<open>All clients of the list are there, and only those in \<open>U\<close> may not have noticed a quarantine.\<close>

definition in_call :: "nat list \<Rightarrow> nat set \<Rightarrow> client_world \<Rightarrow> client_world \<Rightarrow> bool" where
  "in_call ps U w0 w \<longleftrightarrow> world_ok w \<and> grows w0 w \<and> unaware w \<subseteq> U \<and> (\<forall>p \<in> set ps. wd_clients w p \<noteq> None)"

lemma checked_world:
  "wp (on_client p checked_operations) (\<lambda>_ w'. w' = w \<and> wd_clients w p \<noteq> None) (\<lambda>_ w'. w' = w) w"
  unfolding wp_on_client checked_operations_def
  by (cases w) (auto simp: wp_rules fun_upd_idem split: option.split)

lemma checked_all:
  "wp (forE ps (\<lambda>p. on_client p checked_operations)) (\<lambda>_ w'. w' = w \<and> (\<forall>p \<in> set ps. wd_clients w p \<noteq> None)) (\<lambda>_ w'. w' = w) w"
proof (induction ps)
  case Nil
  then show ?case by (simp add: wp_rules)
next
  case (Cons p ps)
  show ?case
    unfolding forE.simps wp_seqE
  proof (rule wp_mono [OF checked_world [of p w]], goal_cases)
    case (1 a t)
    then have "t = w" "wd_clients w p \<noteq> None" by auto
    then show ?case by (auto intro: wp_mono [OF Cons.IH])
  qed simp
qed

lemma in_call_step:
  assumes "in_call ps U w0 w" and "p \<in> set ps"
    and "\<And>s. client_ok (me s) \<Longrightarrow> wp m (\<lambda>_ t. effect s t \<and> client_ok (me t) \<and> (unsynced (me t) \<longrightarrow> p \<in> V)) (\<lambda>_ _. False) s"
    and "U - {p} \<subseteq> V"
  shows "wp (on_client p m) (\<lambda>_. in_call ps V w0) (\<lambda>_ _. False) w"
proof -
  obtain c where c: "wd_clients w p = Some c" using assms(1,2) by (auto simp: in_call_def)
  have ok: "world_ok w" "client_ok c" using assms(1) c by (auto simp: in_call_def world_ok_def)
  let ?s = "\<lparr>me = c, proc = wd_process w\<rparr>"
  have "in_call ps V w0 \<lparr>wd_clients = (wd_clients w)(p \<mapsto> me t), wd_process = proc t\<rparr>"
    if "effect ?s t" "client_ok (me t)" "unsynced (me t) \<longrightarrow> p \<in> V" for t
  proof -
    have "world_ok \<lparr>wd_clients = (wd_clients w)(p \<mapsto> me t), wd_process = proc t\<rparr>
        \<and> grows w \<lparr>wd_clients = (wd_clients w)(p \<mapsto> me t), wd_process = proc t\<rparr>"
      by (rule effect_preserves [OF ok(1) c refl that(1)]) (simp add: that(2))
    moreover have "unaware \<lparr>wd_clients = (wd_clients w)(p \<mapsto> me t), wd_process = proc t\<rparr> \<subseteq> V"
      using assms(1,4) that(3) by (auto simp: in_call_def unaware_def split: if_splits)
    ultimately show ?thesis using assms(1) by (auto simp: in_call_def intro: grows_trans)
  qed
  then show ?thesis
    unfolding wp_on_client c option.case using assms(3) [of ?s] ok(2) by (auto intro: wp_mono)
qed

lemma answers_all:
  assumes "in_call ps (set ps) w0 w" and "set qs \<subseteq> set ps"
  shows "wp (forE qs (\<lambda>p. on_client p (on_me (cl_operations_update (map_option (\<lambda>_. pa_states pa p))))))
    (\<lambda>_. in_call ps (set ps) w0) (\<lambda>_ _. False) w"
proof (rule wp_forE [where I = "in_call ps (set ps) w0", OF assms(1)])
  fix p w'
  assume p: "p \<in> set qs" and w': "in_call ps (set ps) w0 w'"
  show "wp (on_client p (on_me (cl_operations_update (map_option (\<lambda>_. pa_states pa p))))) (\<lambda>_. in_call ps (set ps) w0) (\<lambda>_ _. False) w'"
    by (rule in_call_step [OF w'])
      (use p assms(2) in \<open>auto simp: wp_rules client_ok_answer effect_def Let_def\<close>)
qed

lemma sync_all_world:
  assumes "in_call ps (set qs) w0 w" and "set qs \<subseteq> set ps"
  shows "wp (forE qs (\<lambda>p. on_client p sync_operations_quarantine)) (\<lambda>_. in_call ps {} w0) (\<lambda>_ _. False) w"
  using assms
proof (induction qs arbitrary: w)
  case Nil
  then show ?case by (simp add: wp_rules)
next
  case (Cons p qs)
  have "wp (on_client p sync_operations_quarantine) (\<lambda>_. in_call ps (set qs) w0) (\<lambda>_ _. False) w"
  proof (rule in_call_step [OF Cons.prems(1)])
    fix s :: session
    assume "client_ok (me s)"
    then show "wp sync_operations_quarantine (\<lambda>_ t. effect s t \<and> client_ok (me t) \<and> (unsynced (me t) \<longrightarrow> p \<in> set qs)) (\<lambda>_ _. False) s"
      using sync_moves_on [of s] by (simp add: wp_rules moves_on_def)
  qed (use Cons.prems(2) in auto)
  then show ?case
    unfolding forE.simps wp_seqE using Cons by (auto intro: wp_mono)
qed

lemma get_parallel_safe:
  assumes "world_safe w"
  shows "world_safe (snd (get_parallel clients keys pa w)) \<and> grows w (snd (get_parallel clients keys pa w))"
proof -
  let ?Q = "\<lambda>w'. world_safe w' \<and> grows w w'"
  have same: "?Q w" using assms by simp
  have done_all: "?Q w'" if "in_call ps {} w w'" for ps w'
    using that by (auto simp: in_call_def world_safe_def unaware_def)
  have answered: "wp (catchE (bindE (lift_sum (pa_result pa)) (\<lambda>found.
             seqE (forE ps (\<lambda>p. on_client p sync_operations_quarantine)) (ret found)))
          (\<lambda>e. seqE (forE ps (\<lambda>p. on_client p sync_operations_quarantine)) (throw e))) (\<lambda>_. ?Q) (\<lambda>_. ?Q) u"
    if u: "in_call ps (set ps) w u" for ps u
  proof -
    have sync: "wp (forE ps (\<lambda>p. on_client p sync_operations_quarantine)) (\<lambda>_. ?Q) (\<lambda>_ _. False) u"
      by (rule wp_mono [OF sync_all_world [OF u subset_refl]]) (auto dest: done_all)
    show ?thesis
    proof (cases "pa_result pa")
      case (Inl e)
      show ?thesis unfolding wp_catchE wp_bindE wp_lift_sum Inl sum.case wp_seqE
        by (rule wp_mono [OF sync]) (simp_all add: wp_throw)
    next
      case (Inr found)
      show ?thesis unfolding wp_catchE wp_bindE wp_lift_sum Inr sum.case wp_seqE
        by (rule wp_mono [OF sync]) (simp_all add: wp_ret)
    qed
  qed
  have calls: "wp (seqE (forE ps (\<lambda>p. on_client p checked_operations))
      (seqE (forE ps (\<lambda>p. on_client p (on_me (cl_operations_update (map_option (\<lambda>_. pa_states pa p))))))
        (catchE (bindE (lift_sum (pa_result pa)) (\<lambda>found.
             seqE (forE ps (\<lambda>p. on_client p sync_operations_quarantine)) (ret found)))
          (\<lambda>e. seqE (forE ps (\<lambda>p. on_client p sync_operations_quarantine)) (throw e))))) (\<lambda>_. ?Q) (\<lambda>_. ?Q) w" for ps
    unfolding wp_seqE [of "forE ps _"]
  proof (rule wp_mono [OF checked_all [of ps w]], goal_cases)
    case (1 a t)
    then have "in_call ps (set ps) w w"
      using assms by (auto simp: in_call_def world_safe_def unaware_def)
    moreover have "t = w" using 1 by simp
    ultimately show ?case
      by (auto intro!: wp_mono [OF answers_all [OF _ subset_refl]] answered)
  next
    case (2 e t)
    then show ?case using same by simp
  qed
  have "wp (get_parallel clients keys pa) (\<lambda>_. ?Q) (\<lambda>_. ?Q) w"
    unfolding get_parallel_def Let_def using same calls by (simp add: wp_seqE wp_bindE wp_lift_sum split: sum.split)
  then show ?thesis by (simp add: wp_def split: prod.splits sum.splits)
qed

section \<open>Every reachable state\<close>

lemma step_safe: "client_step w w' \<Longrightarrow> world_safe w \<Longrightarrow> world_safe w' \<and> grows w w'"
proof (induction rule: client_step.induct)
  case (call w p be c)
  then show ?case by (intro on_client_safe client_call_moves_on)
next
  case (close w p ba)
  have "wp (close_client ba) (\<lambda>_. moves_on s) (\<lambda>_. moves_on s) s" if "client_ok (me s)" "\<not> unsynced (me s)" for s
    by (rule wp_mono [OF close_moves_on [OF that]]) simp_all
  with close show ?case by (intro on_client_safe)
qed (simp_all add: new_client_safe get_parallel_safe delete_client_safe)

lemma reach_safe: "client_reach w \<Longrightarrow> world_safe w"
proof (induction rule: client_reach.induct)
  case start
  then show ?case
    by (simp add: world_safe_def world_ok_def no_clients_def one_client_per_key_def live_keys_def poisoned_def)
qed (simp add: step_safe)

lemma later_grows: "client_step\<^sup>*\<^sup>* w w' \<Longrightarrow> client_reach w \<Longrightarrow> client_reach w' \<and> grows w w'"
proof (induction rule: rtranclp_induct)
  case (step v u)
  then have "client_reach v" "grows w v" by auto
  then show ?case using step.hyps(2) step_safe [OF step.hyps(2)] reach_safe client_reach.step by (metis grows_trans)
qed simp

text \<open>
  C9: In every state a process can reach, with any interleaving of constructions, calls, parallel gets,
  closes and destructions: an established client holds its mesh, buffers and operations, any other
  holds nothing; no two established clients share a chip of a mesh; every established client is
  registered; no established client has a backend that is in quarantine; and for every registered key
  without an established client there is exactly one entry of the quarantine list, which owns that
  key's mesh and its three buffers.
\<close>

theorem client_sessions_safe:
  assumes "client_reach w"
  shows "world_safe w"
  using assms by (rule reach_safe)

lemma new_client_failed: "isl (fst (new_client p ct w)) \<Longrightarrow> wd_clients (snd (new_client p ct w)) = wd_clients w"
  by (auto simp: new_client_def split: prod.splits sum.splits)

definition sample_construction :: "attempt list \<Rightarrow> construction" where
  "sample_construction attempts =
     \<lparr>ct_key = (7, 0, 0),
      ct_options = \<lparr>co_static = False, co_server_node = Some \<lparr>fn_mesh_id = 0, fn_chip_id = 3\<rparr>, co_worker_group = 0, co_lane = 0\<rparr>,
      ct_environment = sample_client_environment, ct_fabric = sample_fabric, ct_site = sample_site,
      ct_handshake = sample_handshake attempts []\<rparr>"

lemma sample_reach:
  "client_reach (snd (new_client 0 (sample_construction [sample_attempt 2]) no_clients))"
  by (rule client_reach.step [OF client_reach.start client_step.create])
    (simp_all add: no_clients_def sample_construction_def sample_handshake_def)

theorem client_sessions_safe_witness:
  "world_safe (snd (new_client 0 (sample_construction [sample_attempt 2]) no_clients))"
  by (rule client_sessions_safe) (rule sample_reach)

text \<open>
  C26: A quarantine is permanent. Once a key is registered without an established client, then in every
  later state it still is, its mesh and buffers are still retained, and constructing a client for it
  throws.
\<close>

theorem quarantine_is_permanent:
  assumes "client_reach w" and "k \<in> poisoned w" and "client_step\<^sup>*\<^sup>* w w'"
    and "wd_clients w' p = None" and "ct_key ct = k" and "length (he_attempts (ct_handshake ct)) < 4294967296"
  shows "k \<in> poisoned w'
    \<and> (\<exists>r \<in> set (ps_quarantine (wd_process w')). retained r \<and> qr_submesh_owner r = Some (fst k))
    \<and> fst (new_client p ct w') \<noteq> Inr ()"
proof -
  have "world_ok w'" and k: "k \<in> poisoned w'"
    using later_grows [OF assms(3,1)] reach_safe assms(2) by (auto simp: grows_def world_safe_def)
  then have q: "mset (map qr_submesh_owner (ps_quarantine (wd_process w'))) = image_mset (\<lambda>k. Some (fst k)) (mset_set (poisoned w'))"
      "finite (poisoned w')" "\<forall>r \<in> set (ps_quarantine (wd_process w')). retained r"
    by (auto simp: world_ok_def poisoned_def)
  have "Some (fst k) \<in> set_mset (image_mset (\<lambda>k. Some (fst k)) (mset_set (poisoned w')))" using k q(2) by auto
  then have "Some (fst k) \<in> set (map qr_submesh_owner (ps_quarantine (wd_process w')))"
    unfolding q(1) [symmetric] by (simp only: set_mset_mset)
  then have "\<exists>r \<in> set (ps_quarantine (wd_process w')). retained r \<and> qr_submesh_owner r = Some (fst k)" using q(3) by auto
  moreover have "fst (new_client p ct w') \<noteq> Inr ()"
    using new_client_preserves [OF \<open>world_ok w'\<close> assms(4,6)] k assms(5) by (auto simp: poisoned_def)
  ultimately show ?thesis using k by blast
qed

theorem quarantine_is_permanent_witness:
  "fst (new_client 0 (sample_construction [sample_attempt 1])
     (snd (new_client 0 (sample_construction [sample_attempt 2]) no_clients))) \<noteq> Inr ()"
proof -
  let ?w = "snd (new_client 0 (sample_construction [sample_attempt 2]) no_clients)"
  have "isl (fst (new_client 0 (sample_construction [sample_attempt 2]) no_clients))
      \<and> ps_active_clients (wd_process ?w) = {(7, 0, 0)}"
    by code_simp
  then have "wd_clients ?w = (\<lambda>_. None)" "ps_active_clients (wd_process ?w) = {(7, 0, 0)}"
    using new_client_failed [of 0 "sample_construction [sample_attempt 2]" no_clients] by (simp_all add: no_clients_def)
  then have "(7, 0, 0) \<in> poisoned ?w" and n: "wd_clients ?w 0 = None"
    by (simp_all add: poisoned_def live_keys_def)
  from quarantine_is_permanent [OF sample_reach this(1) rtranclp.rtrancl_refl n, of "sample_construction [sample_attempt 1]"]
  show ?thesis by (simp add: sample_construction_def sample_handshake_def)
qed

section \<open>Taking the lifecycle mutexes\<close>

text \<open>
  Threads that run parallel gets, or single calls, which take one mutex. A thread holds some mutexes
  and still has to take the others, in its order; a call returns or throws when it has them all, and
  releases them.
\<close>

type_synonym locker = "nat list \<times> nat list"

definition mutex_free :: "nat \<Rightarrow> locker list \<Rightarrow> bool" where
  "mutex_free m ts \<longleftrightarrow> (\<forall>t \<in> set ts. m \<notin> set (fst t))"

inductive lock_step :: "locker list \<Rightarrow> locker list \<Rightarrow> bool" where
  begin_call: "i < length ts \<Longrightarrow> ts ! i = ([], []) \<Longrightarrow> lock_order clients = Inr order \<Longrightarrow>
     lock_step ts (ts[i := ([], order)])"
| acquire: "i < length ts \<Longrightarrow> ts ! i = (held, m # todo) \<Longrightarrow> mutex_free m ts \<Longrightarrow>
     lock_step ts (ts[i := (m # held, todo)])"
| end_call: "i < length ts \<Longrightarrow> ts ! i = (held, []) \<Longrightarrow> held \<noteq> [] \<Longrightarrow> lock_step ts (ts[i := ([], [])])"

inductive lock_reach :: "locker list \<Rightarrow> bool" where
  idle: "lock_reach (replicate n ([], []))"
| step: "lock_reach ts \<Longrightarrow> lock_step ts ts' \<Longrightarrow> lock_reach ts'"

definition ordered :: "locker \<Rightarrow> bool" where
  "ordered t \<longleftrightarrow> sorted_wrt (<) (snd t) \<and> (\<forall>h \<in> set (fst t). \<forall>m \<in> set (snd t). h < m)"

lemma lock_order_sorted: "lock_order clients = Inr order \<Longrightarrow> sorted_wrt (<) order"
  by (auto simp: lock_order_def Let_def ensure_Inr strict_sorted_iff elim!: sum_bind_InrE)

lemma locks_ordered: "lock_reach ts \<Longrightarrow> t \<in> set ts \<Longrightarrow> ordered t"
proof (induction arbitrary: t rule: lock_reach.induct)
  case (idle n)
  then show ?case by (simp add: ordered_def)
next
  case (step ts ts')
  have upd: "ordered t" if "t \<in> set (ts[i := x])" "ordered x" for i x
    using that set_update_subset_insert step.IH by (metis insertE subsetD)
  from step.hyps(2) show ?case
  proof cases
    case (begin_call i clients order)
    then show ?thesis using step.prems upd by (auto simp: ordered_def dest: lock_order_sorted)
  next
    case (acquire i held m todo)
    then have "(held, m # todo) \<in> set ts" by (metis nth_mem)
    then have "ordered (m # held, todo)" using step.IH by (force simp: ordered_def)
    then show ?thesis using acquire(1) step.prems upd by simp
  next
    case (end_call i held)
    then show ?thesis using step.prems upd by (auto simp: ordered_def)
  qed
qed

text \<open>
  C27: Parallel gets and single calls never deadlock on the clients' mutexes: as long as some call is
  under way, some thread can take its next mutex or finish. The order in which \<open>get_parallel\<close> sorts
  its clients is what makes it so.
\<close>

theorem parallel_gets_never_deadlock:
  assumes "lock_reach ts" and "i < length ts" and "ts ! i \<noteq> ([], [])"
  shows "\<exists>j ts'. lock_step ts ts' \<and> j < length ts \<and> ts ! j \<noteq> ([], []) \<and> ts' ! j \<noteq> ts ! j"
proof (cases "\<exists>j < length ts. snd (ts ! j) = [] \<and> fst (ts ! j) \<noteq> []")
  case True
  then obtain j held where j: "j < length ts" "ts ! j = (held, [])" "held \<noteq> []" by (metis prod.collapse)
  then have "lock_step ts (ts[j := ([], [])])" by (rule lock_step.end_call)
  with j show ?thesis by (intro exI [of _ j]) auto
next
  case False
  let ?W = "{j. j < length ts \<and> snd (ts ! j) \<noteq> []}"
  have "i \<in> ?W" using assms(2,3) False by (metis (mono_tags, lifting) mem_Collect_eq prod.collapse)
  then have "Max ((\<lambda>k. hd (snd (ts ! k))) ` ?W) \<in> (\<lambda>k. hd (snd (ts ! k))) ` ?W" by (intro Max_in) auto
  then obtain j where j: "j \<in> ?W" "Max ((\<lambda>k. hd (snd (ts ! k))) ` ?W) = hd (snd (ts ! j))" by auto
  have max: "hd (snd (ts ! k)) \<le> hd (snd (ts ! j))" if "k \<in> ?W" for k
    unfolding j(2) [symmetric] using that by (intro Max_ge) auto
  obtain held m todo where t: "ts ! j = (held, m # todo)"
    using j(1) by (cases "ts ! j"; cases "snd (ts ! j)") auto
  have "mutex_free m ts"
    unfolding mutex_free_def
  proof (intro ballI notI)
    fix u
    assume "u \<in> set ts" and mu: "m \<in> set (fst u)"
    then obtain k where k: "k < length ts" "ts ! k = u" by (metis in_set_conv_nth)
    then have "k \<in> ?W" using False mu by auto
    then have "hd (snd u) \<in> set (snd u)" "hd (snd u) \<le> m" using k max [of k] t by auto
    moreover have "ordered u" using locks_ordered [OF assms(1)] \<open>u \<in> set ts\<close> by blast
    ultimately show False using mu unfolding ordered_def by (meson leD)
  qed
  with j(1) t have "lock_step ts (ts[j := (m # held, todo)])" by (auto intro: lock_step.acquire)
  with j(1) t show ?thesis by (intro exI [of _ j] exI [of _ "ts[j := (m # held, todo)]"]) auto
qed

theorem parallel_gets_never_deadlock_witness:
  "let ts = [([], [1, 4]), ([], [])] :: locker list
   in \<exists>j ts'. lock_step ts ts' \<and> j < length ts \<and> ts ! j \<noteq> ([], []) \<and> ts' ! j \<noteq> ts ! j"
  unfolding Let_def
proof (rule parallel_gets_never_deadlock [where i = 0])
  have "lock_order [Some 4, Some 1] = Inr [1, 4]" by (simp add: lock_order_def ensure_def)
  then have "lock_reach ((replicate 2 ([], []))[0 := ([], [1, 4])])"
    by (intro lock_reach.step [OF lock_reach.idle lock_step.begin_call]) simp_all
  then show "lock_reach [([], [1, 4]), ([], [])]" by (simp add: numeral_2_eq_2)
qed simp_all

end
