(* ===== verification/Client_Handshake.thy ===== *)
theory Client_Handshake
  imports Client_World
begin

text \<open>
  The two ends together: a client that meets a server which publishes a valid descriptor, over a
  device that answers, gets its session.
\<close>

text \<open>What the server's kernel sends back: the host's template with the nonce echoed and a token.\<close>

definition server_reply :: "server_descriptor \<Rightarrow> u64 \<Rightarrow> u32 \<Rightarrow> establish_response" where
  "server_reply d nonce token =
     (response_template d)\<lparr>er_nonce_low := ucast nonce, er_nonce_high := ucast (drop_bit 32 nonce),
        er_client_token := token\<rparr>"

definition client_nonce :: "u64 \<Rightarrow> u64 \<Rightarrow> u64" where
  "client_nonce now counter =
     (let nonce = xor now (counter * 0x9E3779B97F4A7C15) in if nonce = 0 then 1 else nonce)"

text \<open>The device carries out the first attempt, and the environment variables are valid.\<close>

definition device_answers :: "handshake_environment \<Rightarrow> u32 \<Rightarrow> byte list \<Rightarrow> bool" where
  "device_answers he depth bytes \<longleftrightarrow>
     \<not> isl (resolve_establish_timeout_ms (he_timeout he)) \<and> 0 < he_clock_mhz he
     \<and> \<not> isl (he_profile he) \<and> \<not> isl (he_put_phase_profile he) \<and> \<not> isl (he_profile_detail he)
     \<and> resolve_client_value_ring_depth (he_ring_depth he) = Inr depth \<and> (\<forall>config. he_create he config = None)
     \<and> (case (he_tx_buf he, he_response_buf he, he_sem_buf he) of
          (Inr tx, Inr rx, Inr sem) \<Rightarrow> tx mod 16 = 0 \<and> rx mod 16 = 0 \<and> sem mod 16 = 0 | _ \<Rightarrow> False)
     \<and> he_device he \<and> (\<forall>desc token. he_configure he desc token = None) \<and> he_response he = Inr bytes
     \<and> (case he_attempts he of
          [] \<Rightarrow> False
        | at # _ \<Rightarrow> at_program at = None \<and> at_enqueue at = None \<and> at_in_time at
            \<and> (case at_status at of Inl _ \<Rightarrow> False | Inr sb \<Rightarrow> 8 \<le> length sb \<and> read_le32 sb 4 = 1))"

text \<open>The descriptor is that of the server the client was told to meet.\<close>

definition descriptor_fits :: "client_options \<Rightarrow> connection \<Rightarrow> server_descriptor \<Rightarrow> bool" where
  "descriptor_fits co cn d \<longleftrightarrow>
     (case co_server_node co of None \<Rightarrow> True
      | Some n \<Rightarrow> n = \<lparr>fn_mesh_id = sd_fabric_mesh_id d, fn_chip_id = sd_fabric_chip_id d\<rparr>)
     \<and> sd_l1_base d + kBootstrapRequestBaseOffset = cn_bootstrap_addr cn
     \<and> sd_noc_x d = cn_server_noc_x cn \<and> sd_noc_y d = cn_server_noc_y cn"

lemma wp_make_nonce [wp_rules]:
  "wp (make_establish_nonce now) Q E s =
     Q (client_nonce now (ps_nonce_counter (proc s)))
       (s\<lparr>proc := ps_nonce_counter_update (\<lambda>n. n + 1) (proc s)\<rparr>)"
  unfolding make_establish_nonce_def client_nonce_def by (simp add: wp_rules Let_def)

lemma checks_pass: "(\<forall>c \<in> set cs. fst c) \<Longrightarrow> ensure cs = Inr ()"
  by (simp add: ensure_Inr)

lemma apply_reply:
  assumes "he_response he = Inr (encode_response (server_reply d nonce token) @ rest)" and "\<And>desc token. he_configure he desc token = None"
    and "cl_nonce_low (me s) = ucast nonce" and "cl_nonce_high (me s) = ucast (drop_bit 32 nonce)"
    and "client_generation_from_token token \<noteq> 0" and "client_id_from_token token = cn_chip_id (cl_connection (me s))"
    and "validate_server_descriptor d = None" and "descriptor_fits (cl_options (me s)) (cl_connection (me s)) d"
    and "cl_ring_depth (me s) = sd_value_ring_depth d" and "cl_operations (me s) = Some Ops_Constructing"
  shows "wp (apply_establish_response he)
     (\<lambda>_ t. cl_token (me t) = token \<and> cl_server_desc (me t) = Some d) (\<lambda>_ _. False) s"
proof -
  define r where "r = server_reply d nonce token"
  have dec: "decode_response (encode_response r @ rest) = r" by (rule decode_encode_response)
  have r: "er_status r = 0" "er_descriptor r = d" "er_client_token r = token"
    by (simp_all add: r_def server_reply_def response_template_def)
  have mine: "ensure (response_is_mine (me s) r) = Inr ()"
    using assms(3,4) by (intro checks_pass) (simp add: response_is_mine_def r_def server_reply_def response_template_def)
  have sess: "ensure (session_is_mine (me s) r) = Inr ()"
    using assms(5,6) by (intro checks_pass) (simp add: session_is_mine_def r_def server_reply_def response_template_def)
  have desc: "ensure (descriptor_is_mine (me s) d) = Inr ()"
    using assms(8,9) by (intro checks_pass) (simp add: descriptor_is_mine_def descriptor_fits_def Let_def)
  show ?thesis
    unfolding apply_establish_response_def mark_established_def
    using mine sess desc assms(1,2,7,10) by (simp add: wp_rules r_def [symmetric] dec r Let_def)
qed

lemma not_isl: "\<not> isl x \<longleftrightarrow> (\<exists>a. x = Inr a)"
  by (cases x) auto

lemma resolved_connection:
  assumes "resolve_client_connection fa co cs = Inr cn"
  shows "\<exists>conn. server_connection fa co (cs_node cs) (cn_link_idx cn) = Inr conn"
  using assms unfolding resolve_client_connection_def
  by (auto simp: Let_def split: prod.splits elim!: sum_bind_InrE dest!: resolve_route_usable)

lemma send_answered:
  assumes "device_answers he depth bytes"
    and "server_connection fa (cl_options (me s)) (cl_node (me s)) (cn_link_idx (cl_connection (me s))) = Inr conn"
  shows "wp (send_establish_request fa he) (\<lambda>_ t. attempt_view t = attempt_view s) (\<lambda>_ _. False) s"
proof -
  obtain at ats sb where at: "he_attempts he = at # ats" "at_program at = None" "at_enqueue at = None" "at_in_time at"
      "at_status at = Inr sb" "8 \<le> length sb" "read_le32 sb 4 = 1" "he_device he"
    using assms(1) by (auto simp: device_answers_def isl_def split: list.splits sum.splits)
  have "wp (send_establish_request fa he) (\<lambda>_ _. True) (\<lambda>_ _. False) s"
    unfolding send_establish_request_def by (simp add: wp_rules at launch_establish_client_def assms(2) Let_def)
  from wp_conj [OF this keeps_wp [OF send_keeps]] show ?thesis by (rule wp_mono) simp_all
qed

lemma establish_answered:
  assumes "device_answers he (sd_value_ring_depth d) (encode_response (server_reply d nonce token) @ rest)"
    and "server_connection fa (cl_options (me s)) (cl_node (me s)) (cn_link_idx (cl_connection (me s))) = Inr conn"
    and "cl_nonce_low (me s) = ucast nonce" and "cl_nonce_high (me s) = ucast (drop_bit 32 nonce)"
    and "client_generation_from_token token \<noteq> 0" and "client_id_from_token token = cn_chip_id (cl_connection (me s))"
    and "validate_server_descriptor d = None" and "descriptor_fits (cl_options (me s)) (cl_connection (me s)) d"
  shows "wp (establish_session fa he) (\<lambda>_ t. cl_token (me t) = token \<and> cl_server_desc (me t) = Some d) (\<lambda>_ _. False) s"
    (is "wp _ ?Q ?E s")
proof -
  note ans = assms(1)
  obtain tx rx sem where buf: "he_tx_buf he = Inr tx" "he_response_buf he = Inr rx" "he_sem_buf he = Inr sem"
      "tx mod 16 = 0" "rx mod 16 = 0" "sem mod 16 = 0"
    using ans by (auto simp: device_answers_def split: sum.splits)
  obtain b1 b2 det where env: "he_profile he = Inr b1" "he_put_phase_profile he = Inr b2" "he_profile_detail he = Inr det"
      "resolve_client_value_ring_depth (he_ring_depth he) = Inr (sd_value_ring_depth d)" "\<And>config. he_create he config = None"
      "\<And>desc token. he_configure he desc token = None" "he_response he = Inr (encode_response (server_reply d nonce token) @ rest)"
    using ans by (auto simp: device_answers_def not_isl)
  define same where "same t = (cl_options (me t) = cl_options (me s) \<and> cl_node (me t) = cl_node (me s)
    \<and> cl_connection (me t) = cl_connection (me s) \<and> cl_nonce_low (me t) = cl_nonce_low (me s)
    \<and> cl_nonce_high (me t) = cl_nonce_high (me s) \<and> cl_ring_depth (me t) = sd_value_ring_depth d
    \<and> cl_operations (me t) = Some Ops_Constructing)" for t :: session
  have apply_it: "wp (apply_establish_response he) ?Q ?E t" if "same t" for t
    by (rule apply_reply) (use that assms(3-8) env in \<open>simp_all add: same_def\<close>)
  have rest_it: "wp (seqE (reserve_bootstrap_l1 he) (seqE (send_establish_request fa he) (apply_establish_response he))) ?Q ?E t"
    if t: "same t" for t
  proof -
    have sent: "wp (seqE (send_establish_request fa he) (apply_establish_response he)) ?Q ?E u" if u: "same u" for u
    proof -
      have "wp (send_establish_request fa he) (\<lambda>_ t. attempt_view t = attempt_view u) (\<lambda>_ _. False) u"
        by (rule send_answered [OF ans]) (use u assms(2) in \<open>simp add: same_def\<close>)
      then show ?thesis
        unfolding wp_seqE using u
        by (elim wp_mono) (auto simp: attempt_view_def anchored_def Let_def same_def intro!: apply_it)
    qed
    show ?thesis
      unfolding reserve_bootstrap_l1_def
      using t buf by (simp add: wp_bindE wp_lift_sum wp_on_me wp_check wp_seqE [of _ "seqE (send_establish_request fa he) _"]
          wp_seqE [of "on_me _"]) (simp add: same_def sent)
  qed
  define rest_of where "rest_of = seqE (reserve_bootstrap_l1 he) (seqE (send_establish_request fa he) (apply_establish_response he))"
  have rest_of: "wp rest_of ?Q ?E t" if "same t" for t using rest_it [OF that] by (simp only: rest_of_def)
  show ?thesis
    unfolding establish_session_def rest_of_def [symmetric]
    by (simp add: wp_rules env bool_env_or_false_def) (rule rest_of, simp add: same_def)
qed

lemma keeps_established:
  "wp (establish_session fa he) Q (\<lambda>_ _. False) s \<Longrightarrow>
   wp (establish_session fa he) (\<lambda>a t. Q a t \<and> anchored t = anchored s) (\<lambda>_ _. False) s"
  by (drule wp_conj [OF _ keeps_wp [OF establish_keeps]]) (erule wp_mono, simp_all)

text \<open>
  C11: A client meets a server. Let the server's descriptor be valid and be that of the server the
  client was told to meet, let its kernel answer with the template, the echoed nonce and a token of
  the client's chip with a non-zero generation, and let the device carry out the first attempt. Then
  the construction of a client on a free key succeeds: it is established, registered, and has exactly
  the server's descriptor and token.
\<close>

theorem client_meets_server:
  assumes "check_client_config ve = Inr ()" and "resolve_client_connection fa co cs = Inr cn"
    and "validate_server_descriptor d = None" and "descriptor_fits co cn d"
    and "client_generation_from_token token \<noteq> 0" and "client_id_from_token token = cn_chip_id cn"
    and "me s = blank_client key co (cs_node cs)" and "key \<notin> ps_active_clients (proc s)"
    and "device_answers he (sd_value_ring_depth d)
      (encode_response (server_reply d (client_nonce (he_now he) (ps_nonce_counter (proc s))) token) @ rest)"
  shows "case construct_client ve fa cs he s of (r, t) \<Rightarrow>
    r = Inr () \<and> is_established (me t) \<and> cl_server_desc (me t) = Some d \<and> cl_token (me t) = token
    \<and> ps_active_clients (proc t) = insert key (ps_active_clients (proc s))"
proof -
  obtain conn where conn: "server_connection fa co (cs_node cs) (cn_link_idx cn) = Inr conn"
    using resolved_connection [OF assms(2)] by blast
  obtain tmo where tmo: "resolve_establish_timeout_ms (he_timeout he) = Inr tmo" and clock: "0 < he_clock_mhz he"
    using assms(9) by (auto simp: device_answers_def not_isl)
  let ?Q = "\<lambda>t. is_established (me t) \<and> cl_server_desc (me t) = Some d \<and> cl_token (me t) = token
    \<and> ps_active_clients (proc t) = insert key (ps_active_clients (proc s))"
  define tail where "tail = seqE (catchE (establish_session fa he) (\<lambda>failure.
             bindE (gets (\<lambda>s. cl_may_have_started (me s))) (\<lambda>outcome_unknown.
             seqE (if outcome_unknown
                   then seqE (on_me (cl_phase_update (\<lambda>_. Quarantined))) quarantine_resources
                   else erase_client)
                  (throw failure))))
          (on_me (\<lambda>c. c\<lparr>cl_workload := None, cl_phase := Established\<rparr>))"
  have tail: "wp tail (\<lambda>_. ?Q) (\<lambda>_ _. False) u"
    if u: "cl_options (me u) = co" "cl_node (me u) = cs_node cs" "cl_connection (me u) = cn"
      "cl_nonce_low (me u) = ucast (client_nonce (he_now he) (ps_nonce_counter (proc s)))"
      "cl_nonce_high (me u) = ucast (drop_bit 32 (client_nonce (he_now he) (ps_nonce_counter (proc s))))"
      "ps_active_clients (proc u) = insert key (ps_active_clients (proc s))" for u
  proof -
    have "wp (establish_session fa he) (\<lambda>_ t. cl_token (me t) = token \<and> cl_server_desc (me t) = Some d) (\<lambda>_ _. False) u"
      by (rule establish_answered [OF assms(9)]) (use u conn assms(3-6) in simp_all)
    from keeps_established [OF this] show ?thesis
      unfolding tail_def wp_seqE wp_catchE
      by (rule wp_mono) (use u(6) in \<open>simp_all add: wp_rules is_established_def anchored_def Let_def\<close>)
  qed
  have "wp (construct_client ve fa cs he) (\<lambda>_. ?Q) (\<lambda>_ _. False) s"
    unfolding construct_client_def initialize_session_def prepare_session_def tail_def [symmetric]
    by (simp add: wp_rules assms(1,2,7,8) tmo clock blank_client_def) (intro conjI impI tail; simp)
  then show ?thesis by (simp add: wp_def split: prod.splits sum.splits)
qed

definition sample_descriptor :: server_descriptor where
  "sample_descriptor =
     \<lparr>sd_fabric_mesh_id = 0, sd_fabric_chip_id = 3, sd_l1_base = 1024, sd_noc_x = 18, sd_noc_y = 18,
      sd_ring_slots = 64, sd_value_ring_depth = 8, sd_max_value_bytes = 67108864, sd_max_key_bytes = 128,
      sd_max_clients = 32, sd_reserved = 0, sd_num_dram_channels = 12, sd_dram_grid_x = 12, sd_dram_grid_y = 1,
      sd_wire_layout_version = 4\<rparr>"

lemma read_le32_second: "read_le32 (le32 0 @ le32 x) 4 = x"
  using read_le32_words [of 1 "[0, x]" "[]"] by simp

theorem client_meets_server_witness:
  "case construct_client sample_client_environment sample_fabric sample_site
      (sample_handshake [sample_attempt 1]
        (encode_response (server_reply sample_descriptor (client_nonce 77 1) (make_client_token 5 17)) @ []))
      (sample_session {(9, 0, 0)}) of (r, t) \<Rightarrow>
    r = Inr () \<and> is_established (me t) \<and> cl_server_desc (me t) = Some sample_descriptor
    \<and> cl_token (me t) = make_client_token 5 17 \<and> ps_active_clients (proc t) = insert (7, 0, 0) {(9, 0, 0)}"
proof -
  let ?co = "\<lparr>co_static = False, co_server_node = Some \<lparr>fn_mesh_id = 0, fn_chip_id = 3\<rparr>, co_worker_group = 0, co_lane = 0\<rparr>"
  let ?cn = "\<lparr>cn_server_noc_x = 18, cn_server_noc_y = 18, cn_bootstrap_addr = 1040, cn_client_noc_x = 18, cn_client_noc_y = 18,
      cn_mesh_id = 0, cn_chip_id = 5, cn_route_word = 3, cn_return_route = 0, cn_link_idx = 0\<rparr>"
  let ?he = "sample_handshake [sample_attempt 1]
        (encode_response (server_reply sample_descriptor (client_nonce 77 1) (make_client_token 5 17)) @ [])"
  have "check_client_config sample_client_environment = Inr ()" by code_simp
  moreover have "resolve_client_connection sample_fabric ?co sample_site = Inr ?cn" by code_simp
  moreover have "validate_server_descriptor sample_descriptor = None" by code_simp
  moreover have "descriptor_fits ?co ?cn sample_descriptor" by code_simp
  moreover have "client_generation_from_token (make_client_token 5 17) \<noteq> 0" by code_simp
  moreover have "client_id_from_token (make_client_token 5 17) = cn_chip_id ?cn" by code_simp
  moreover have "me (sample_session {(9, 0, 0)}) = blank_client (7, 0, 0) ?co (cs_node sample_site)" by code_simp
  moreover have "(7, 0, 0) \<notin> ps_active_clients (proc (sample_session {(9, 0, 0)}))" by (simp add: sample_session_def)
  moreover have "device_answers ?he (sd_value_ring_depth sample_descriptor)
      (encode_response (server_reply sample_descriptor
         (client_nonce (he_now ?he) (ps_nonce_counter (proc (sample_session {(9, 0, 0)})))) (make_client_token 5 17)) @ [])"
  proof -
    have "resolve_establish_timeout_ms (Inr None) = Inr 5000" "resolve_client_value_ring_depth (Inr None) = Inr 8"
      by code_simp+
    then show ?thesis
      by (simp add: device_answers_def sample_handshake_def sample_attempt_def sample_descriptor_def sample_session_def
          read_le32_second)
  qed
  ultimately have "case construct_client sample_client_environment sample_fabric sample_site ?he
      (sample_session {(9, 0, 0)}) of (r, t) \<Rightarrow>
    r = Inr () \<and> is_established (me t) \<and> cl_server_desc (me t) = Some sample_descriptor
    \<and> cl_token (me t) = make_client_token 5 17
    \<and> ps_active_clients (proc t) = insert (7, 0, 0) (ps_active_clients (proc (sample_session {(9, 0, 0)})))"
    by (rule client_meets_server)
  then show ?thesis by (simp add: sample_session_def)
qed

end
