(* ===== verification/Host_Api.thy ===== *)
theory Host_Api
  imports Runtime_Core Server_Layout
begin

text \<open>
  The host's direct access to a running server (\<^verbatim>\<open>server_runtime/server_host_api.cpp\<close>): waiting for the
  commits of issued puts, reading the directory and values past the device, the host's remove request,
  the counters read back, and the mode and completion word of the mapped GET ingress, whose requests are
  in \<open>Get_Ingress\<close>. What the device answers, and what the worker thread has recorded by the time of a poll, are arguments. Every wait loop takes
  the list of the polls before its deadline.
\<close>

section \<open>Readiness\<close>

definition check_ready_core :: "('z core_state_scheme, unit) io" where
  "check_ready_core =
     bindE (gets (\<lambda>s. core_lifecycle s = Core_Ready \<and> server_workload_running s)) (\<lambda>ready.
     seqE (check ready (Thrown ''ServerRuntimeCore is not ready (closing, quarantined, or closed)''))
          throw_if_core_worker_failed)"

definition is_ready_core :: "'z core_state_scheme \<Rightarrow> bool" where
  "is_ready_core s \<longleftrightarrow> core_lifecycle s = Core_Ready \<and> server_workload_running s \<and> \<not> core_worker_failed s"

section \<open>Waiting for the commits of issued puts\<close>

definition cumulative_counter_is_ahead :: "u32 \<Rightarrow> u32 \<Rightarrow> bool" where
  "cumulative_counter_is_ahead candidate baseline =
     (let delta = candidate - baseline in delta \<noteq> 0 \<and> delta < push_bit 31 1)"

text \<open>
  One poll: the failure the worker has recorded by then, if any, and the commit line read back. The
  list ends where the deadline is found passed.
\<close>

record device_poll =
  dp_failure :: "fault option"
  dp_read :: "fault + byte list"

fun drain_wait :: "u32 \<Rightarrow> device_poll list \<Rightarrow> fault + unit" where
  "drain_wait target [] = Inl (Fatal ''drain_inflight_puts: commit_done did not reach the target within timeout'')"
| "drain_wait target (p # ps) =
     (case dp_failure p of
        Some e \<Rightarrow> Inl e
      | None \<Rightarrow>
          case dp_read p of
            Inl e \<Rightarrow> Inl e
          | Inr sem \<Rightarrow>
              (let observed = read_le32 sem 0 in
               if observed = target \<or> cumulative_counter_is_ahead observed target then Inr ()
               else drain_wait target ps))"

record drain_answers =
  dr_device :: bool
  dr_issued :: "fault + byte list"
  dr_polls :: "device_poll list"

definition drain_inflight_puts :: "drain_answers \<Rightarrow> ('z core_state_scheme, unit) io" where
  "drain_inflight_puts da =
     bindE (gets server_workload_running) (\<lambda>running.
     whenE running
       (seqE throw_if_core_worker_failed
       (seqE (check (dr_device da) (Fatal ''drain_inflight_puts: server_submesh has no chip at (0,0)''))
       (bindE (lift_sum (dr_issued da)) (\<lambda>issued.
        lift_sum (drain_wait (read_le32 issued 0) (dr_polls da)))))))"

definition flush_core :: "drain_answers \<Rightarrow> ('z core_state_scheme, unit) io" where
  "flush_core da = seqE check_ready_core (drain_inflight_puts da)"

text \<open>The issued and the committed count, read in one access.\<close>

definition put_drain_progress :: "bool \<Rightarrow> fault + byte list \<Rightarrow> ('z core_state_scheme, u32 \<times> u32) io" where
  "put_drain_progress device line =
     seqE check_ready_core
    (seqE throw_if_core_worker_failed
    (seqE (check device (Fatal ''put_drain_progress: server_submesh has no chip at (0,0)''))
    (bindE (lift_sum line) (\<lambda>bs.
     ret (read_le32 bs 0, read_le32 bs (unat kPutCommitIssuedSemSize))))))"

section \<open>The directory\<close>

definition kLocationDevice :: u32 where "kLocationDevice = 0"
definition kLocationHost :: u32 where "kLocationHost = 1"
definition kEntryDeviceValueByteOffset :: nat where "kEntryDeviceValueByteOffset = 16"
definition kEntryLocationByteOffset :: nat where "kEntryLocationByteOffset = 24"
definition kDirReadMaxRetries :: nat where "kDirReadMaxRetries = 16"

definition entry_matches :: "nat \<Rightarrow> byte list \<Rightarrow> byte list \<Rightarrow> nat \<Rightarrow> bool" where
  "entry_matches stride key dir i \<longleftrightarrow>
     (let e = stride * i in
      read_le32 dir e = 1 \<and> unat (read_le32 dir (e + 4)) = length key
      \<and> take (length key) (drop (e + unat kDirEntryHeaderBytes) dir) = key)"

text \<open>The scan stops at the first slot that matches.\<close>

definition find_entry :: "nat \<Rightarrow> nat \<Rightarrow> byte list \<Rightarrow> byte list \<Rightarrow> nat option" where
  "find_entry stride n key dir = find (entry_matches stride key dir) [0 ..< n]"

fun find_retrying :: "nat \<Rightarrow> (nat \<Rightarrow> fault + byte list) \<Rightarrow> (byte list \<Rightarrow> nat option) \<Rightarrow> nat \<Rightarrow>
    fault + (byte list \<times> nat) option" where
  "find_retrying left snapshot look attempt =
     (case snapshot attempt of
        Inl e \<Rightarrow> Inl e
      | Inr dir \<Rightarrow>
          (case look dir of
             Some i \<Rightarrow> Inr (Some (dir, i))
           | None \<Rightarrow> (case left of 0 \<Rightarrow> Inr None | Suc l \<Rightarrow> find_retrying l snapshot look (Suc attempt))))"

record directory_answers =
  dy_buffer :: bool
  dy_stride :: nat
  dy_max_keys :: nat
  dy_snapshot :: "nat \<Rightarrow> fault + byte list"

definition get_core ::
  "drain_answers \<Rightarrow> directory_answers \<Rightarrow> geometry \<Rightarrow> dram_reader \<Rightarrow> byte list \<Rightarrow> ('z core_state_scheme, byte list option) io" where
  "get_core da dy geo rd key =
     seqE check_ready_core
    (seqE (drain_inflight_puts da)
    (seqE (check (dy_buffer dy) (Fatal ''ServerRuntimeCore::get: directory MeshBuffer has no device buffer at (0,0)''))
    (bindE (lift_sum (find_retrying kDirReadMaxRetries (dy_snapshot dy)
                        (find_entry (dy_stride dy) (dy_max_keys dy) key) 0)) (\<lambda>hit.
     case hit of
       None \<Rightarrow> ret None
     | Some (dir, i) \<Rightarrow>
         (let e = dy_stride dy * i;
              total_len = read_le32 dir (e + 8);
              value_byte_off = read_le32 dir (e + kEntryDeviceValueByteOffset);
              location = read_le32 dir (e + kEntryLocationByteOffset)
          in if location = kLocationHost
             then bindE (gets (\<lambda>s. map_option (\<lambda>hv. host_value_bytes s hv (unat (hv_len hv)))
                                     (map_of (host_values s) (of_nat i)))) ret
             else bindE (lift_sum (read_value_units geo rd value_byte_off total_len)) (\<lambda>bytes. ret (Some bytes)))))))"

definition exists_core :: "drain_answers \<Rightarrow> directory_answers \<Rightarrow> byte list \<Rightarrow> ('z core_state_scheme, bool) io" where
  "exists_core da dy key =
     seqE check_ready_core
    (seqE (drain_inflight_puts da)
    (seqE (check (dy_buffer dy) (Fatal ''ServerRuntimeCore::exists: directory MeshBuffer has no device buffer at (0,0)''))
    (bindE (lift_sum (dy_snapshot dy 0)) (\<lambda>dir.
     ret (find_entry (dy_stride dy) (dy_max_keys dy) key dir \<noteq> None)))))"

record cache_state =
  ch_found :: bool
  ch_device_resident :: bool
  ch_host_backed :: bool

definition cache_state_core :: "drain_answers \<Rightarrow> directory_answers \<Rightarrow> byte list \<Rightarrow> ('z core_state_scheme, cache_state) io" where
  "cache_state_core da dy key =
     seqE check_ready_core
    (seqE (drain_inflight_puts da)
    (seqE (check (dy_buffer dy) (Fatal ''ServerRuntimeCore::cache_state: directory MeshBuffer has no device buffer at (0,0)''))
    (bindE (lift_sum (dy_snapshot dy 0)) (\<lambda>dir.
     case find_entry (dy_stride dy) (dy_max_keys dy) key dir of
       None \<Rightarrow> ret \<lparr>ch_found = False, ch_device_resident = False, ch_host_backed = False\<rparr>
     | Some i \<Rightarrow>
         gets (\<lambda>s.
           \<lparr>ch_found = True,
            ch_device_resident = read_le32 dir (dy_stride dy * i + kEntryLocationByteOffset) \<noteq> kLocationHost,
            ch_host_backed = (case map_of (host_values s) (of_nat i) of
               None \<Rightarrow> False
             | Some hv \<Rightarrow> hv_len hv = read_le32 dir (dy_stride dy * i + 8))\<rparr>)))))"

section \<open>The host's remove request\<close>

definition kDirReqMailboxHeaderBytes :: nat where "kDirReqMailboxHeaderBytes = 32"
definition kOpRemove :: u32 where "kOpRemove = 14"
definition kStatusFlagRemoved :: u32 where "kStatusFlagRemoved = push_bit 0 1"

definition remove_request :: "byte list \<Rightarrow> byte list" where
  "remove_request key =
     memcpy kDirReqMailboxHeaderBytes key
       (memcpy 4 (le32 (of_nat (length key)))
         (memcpy 0 (le32 kOpRemove) (replicate (unat kDirReqMailboxSize) 0)))"

fun remove_wait :: "u32 \<Rightarrow> device_poll list \<Rightarrow> fault + unit" where
  "remove_wait issued [] = Inl (Fatal ''ServerRuntimeCore::remove timed out waiting for directory request'')"
| "remove_wait issued (p # ps) =
     (case dp_failure p of
        Some e \<Rightarrow> Inl e
      | None \<Rightarrow>
          case dp_read p of
            Inl e \<Rightarrow> Inl e
          | Inr sem \<Rightarrow> if read_le32 sem 0 = issued then Inr () else remove_wait issued ps)"

record remove_answers =
  rm_device :: bool
  rm_request_sem :: "fault + byte list"
  rm_polls :: "device_poll list"
  rm_response :: "fault + byte list"

definition remove_core ::
  "drain_answers \<Rightarrow> remove_answers \<Rightarrow> u32 \<Rightarrow> l1_layout \<Rightarrow> byte list \<Rightarrow> ('z core_state_scheme, bool) io" where
  "remove_core da rm l1_base layout key =
     seqE check_ready_core
    (seqE (drain_inflight_puts da)
    (bindE (gets max_key_len) (\<lambda>limit.
     seqE (check (key \<noteq> [] \<and> length key \<le> unat limit)
             (Fatal ''ServerRuntimeCore::remove key length is out of range''))
    (seqE (check (rm_device rm) (Fatal ''ServerRuntimeCore::remove: server_submesh has no chip at (0,0)''))
    (bindE (lift_sum (rm_request_sem rm)) (\<lambda>req_sem.
     let issued = read_le32 req_sem 0 + 1 in
     seqE (write_l1 (l1_base + dir_req_mailbox_offset layout) (remove_request key))
    (seqE (write_l1 (l1_base + dir_req_sem_offset layout) (memcpy 0 (le32 issued) req_sem))
    (seqE (lift_sum (remove_wait issued (rm_polls rm)))
    (bindE (lift_sum (rm_response rm)) (\<lambda>response.
     ret (and (read_le32 response 0) kStatusFlagRemoved \<noteq> 0)))))))))))"

section \<open>Profiles\<close>

record allocator_profile =
  ap_allocation_calls :: u64
  ap_allocation_successes :: u64
  ap_allocation_failures :: u64
  ap_victim_scans :: u64
  ap_victims_evicted :: u64
  ap_lease_calls :: u64
  ap_lease_successes :: u64
  ap_lease_failures :: u64
  ap_lease_victim_scans :: u64
  ap_lease_victims_evicted :: u64
  ap_scan_cycles :: u64
  ap_lease_scan_cycles :: u64
  ap_allocation_cycles :: u64
  ap_clock_mhz :: u32

definition pair_u64 :: "byte list \<Rightarrow> nat \<Rightarrow> nat \<Rightarrow> u64" where
  "pair_u64 ws low_word high_word =
     or (ucast (read_le32 ws (4 * low_word))) (push_bit 32 (ucast (read_le32 ws (4 * high_word))))"

definition allocator_profile_core :: "bool \<Rightarrow> fault + byte list \<Rightarrow> 32 word \<Rightarrow>
    ('z core_state_scheme, allocator_profile) io" where
  "allocator_profile_core device profile_words clock =
     seqE check_ready_core
    (seqE throw_if_core_worker_failed
    (seqE (check device (Fatal ''allocator_profile: server_submesh has no chip at (0,0)''))
    (bindE (lift_sum profile_words) (\<lambda>ws.
     seqE (check (0 < sint clock) (Fatal ''allocator_profile: server_submesh AI clock must be positive''))
    (let w = \<lambda>i. ucast (read_le32 ws (4 * i)) in
     ret \<lparr>ap_allocation_calls = w 0, ap_allocation_successes = w 1, ap_allocation_failures = w 2,
          ap_victim_scans = w 3, ap_victims_evicted = w 4, ap_lease_calls = w 5,
          ap_lease_successes = w 6, ap_lease_failures = w 7, ap_lease_victim_scans = w 8,
          ap_lease_victims_evicted = w 9, ap_scan_cycles = pair_u64 ws 10 11,
          ap_lease_scan_cycles = pair_u64 ws 12 13, ap_allocation_cycles = pair_u64 ws 14 15,
          ap_clock_mhz = clock\<rparr>)))))"

record admission_progress =
  am_enabled :: bool
  am_ready :: u32
  am_source_done :: u32
  am_durable_done :: u32

text \<open>The ready count is read from the admission core only when the admission stage is enabled.\<close>

definition test_get_admission_progress ::
  "bool \<Rightarrow> fault + byte list \<Rightarrow> bool \<Rightarrow> u32 \<Rightarrow> fault + byte list \<Rightarrow> ('z core_state_scheme, admission_progress) io" where
  "test_get_admission_progress device progress_line admission initial_counter ready_words =
     seqE check_ready_core
    (seqE throw_if_core_worker_failed
    (seqE (check device (Fatal ''test_get_admission_progress: server_submesh has no chip at (0,0)''))
    (bindE (lift_sum progress_line) (\<lambda>p.
     bindE (if admission then bindE (lift_sum ready_words) (\<lambda>r. ret (read_le32 r 0)) else ret initial_counter)
       (\<lambda>ready.
     ret \<lparr>am_enabled = admission, am_ready = ready, am_source_done = read_le32 p 0,
          am_durable_done = read_le32 p 4\<rparr>)))))"

section \<open>The mapped GET completion word\<close>

text \<open>
  \<^verbatim>\<open>wait_for_mapped_get_completion\<close>. A spin reads the word; every 256th spin, when it found no
  completion, then looks at the worker's failure and at the deadline, so each spin carries what
  these would show. \<open>None\<close>: the loop is still waiting when the spins are used up.
\<close>

record spin =
  sp_word :: u32
  sp_failure :: "fault option"
  sp_expired :: bool

fun completion_wait :: "u32 \<Rightarrow> spin list \<Rightarrow> (fault + u32) option" where
  "completion_wait spins [] = None"
| "completion_wait spins (p # ps) =
     (let raw_status = sp_word p in
      if raw_status \<noteq> 0
      then Some (if raw_status = 1 \<or> raw_status = 2 \<or> raw_status = 4 then Inr (raw_status - 1)
                 else Inl (Fatal ''mapped GET completion has invalid status encoding''))
      else
        let spins = spins + 1 in
        if and spins 0xFF = 0
        then (case sp_failure p of
                Some e \<Rightarrow> Some (Inl e)
              | None \<Rightarrow>
                  if sp_expired p then Some (Inl (Thrown ''mapped GET completion did not arrive within timeout''))
                  else completion_wait spins ps)
        else completion_wait spins ps)"

record scalar_get_mode =
  mapped_completion :: bool
  mapped_ingress :: bool

text \<open>The pipeline's flags, and which of the host pointers and private L1 allocations are there.\<close>

record get_pipeline =
  completion_enabled :: bool
  completion_host_ptr :: bool
  ingress_enabled :: bool
  ingress_host_ptr :: bool
  ingress_l1 :: bool

definition scalar_get_mode_of :: "get_pipeline \<Rightarrow> scalar_get_mode" where
  "scalar_get_mode_of p =
     (let completion = completion_enabled p \<and> completion_host_ptr p;
          ingress = ingress_enabled p \<and> completion \<and> ingress_host_ptr p \<and> ingress_l1 p
      in \<lparr>mapped_completion = completion, mapped_ingress = ingress\<rparr>)"

definition test_mapped_get_ingress_enabled :: "get_pipeline \<Rightarrow> bool" where
  "test_mapped_get_ingress_enabled p = mapped_ingress (scalar_get_mode_of p)"

definition wait_for_mapped_get_completion :: "get_pipeline \<Rightarrow> spin list \<Rightarrow> (fault + u32) option" where
  "wait_for_mapped_get_completion p ps =
     (if \<not> mapped_completion (scalar_get_mode_of p)
      then Some (Inl (Fatal ''scalar_get_mode().mapped_completion'')) else completion_wait 0 ps)"

section \<open>Counters that wrap\<close>

lemma counter_equal_iff:
  "c < t + 2 ^ 31 \<Longrightarrow> t < c + 2 ^ 31 \<Longrightarrow> (of_nat c :: u32) = of_nat t \<longleftrightarrow> c = t"
proof -
  assume b: "c < t + 2 ^ 31" "t < c + 2 ^ 31"
  have aux: "x = y" if "(of_nat x :: u32) = of_nat y" "x \<le> y" "y < x + 2 ^ 31" for x y :: nat
  proof -
    have "(of_nat (y - x) :: u32) = 0" using that by (simp add: of_nat_diff)
    then have "2 ^ 32 dvd y - x" by (simp add: word_of_nat_eq_0_iff)
    moreover have "y - x < 2 ^ 32" using that(3) by simp
    ultimately show ?thesis using that(2) by (metis dvd_imp_le not_le zero_less_diff le_neq_implies_less)
  qed
  show ?thesis using aux [of c t] aux [of t c] b by (cases "c \<le> t") auto
qed

lemma counter_ahead_nat:
  "cumulative_counter_is_ahead x y \<longleftrightarrow> 0 < unat (x - y) \<and> unat (x - y) < 2 ^ 31"
  by (simp add: cumulative_counter_is_ahead_def word_less_nat_alt unat_gt_0)

lemma counter_ahead_iff:
  assumes "c < t + 2 ^ 31" and "t < c + 2 ^ 31"
  shows "cumulative_counter_is_ahead (of_nat c) (of_nat t) \<longleftrightarrow> t < c"
proof (cases "t \<le> c")
  case True
  then have d: "(of_nat c :: u32) - of_nat t = of_nat (c - t)" by (simp only: of_nat_diff)
  have "unat (of_nat (c - t) :: u32) = c - t"
    using assms True by (simp add: unat_of_nat del: of_nat_diff)
  moreover have "c - t < 2 ^ 31" using assms(1) True by linarith
  ultimately show ?thesis by (simp add: counter_ahead_nat d del: of_nat_diff)
next
  case False
  then have d: "(of_nat c :: u32) - of_nat t = - of_nat (t - c)" by (simp add: of_nat_diff)
  have n: "unat (of_nat (t - c) :: u32) = t - c"
    using assms False by (simp add: unat_of_nat del: of_nat_diff)
  then have nz: "(of_nat (t - c) :: u32) \<noteq> 0" using False by (metis unat_0 not_le zero_less_diff less_irrefl)
  have "unat (- of_nat (t - c) :: u32) = 2 ^ 32 - (t - c)"
    using n nz unat_sub_if' [of "0 :: u32" "of_nat (t - c)"] False by (simp del: of_nat_diff)
  moreover have "2 ^ 31 < (2 :: nat) ^ 32 - (t - c)" using assms(2) by (simp add: less_diff_conv)
  ultimately show ?thesis using False by (simp add: counter_ahead_nat d del: of_nat_diff)
qed

lemma counter_reached_iff:
  "c < t + 2 ^ 31 \<Longrightarrow> t < c + 2 ^ 31 \<Longrightarrow>
     (of_nat c :: u32) = of_nat t \<or> cumulative_counter_is_ahead (of_nat c) (of_nat t) \<longleftrightarrow> t \<le> c"
  using counter_equal_iff [of c t] counter_ahead_iff [of c t] by auto

section \<open>What the operations do\<close>

lemma check_ready_run [simp]: "is_ready_core s \<Longrightarrow> check_ready_core s = (Inr (), s)"
  by (simp add: is_ready_core_def check_ready_core_def throw_if_core_worker_failed_def io_defs)

lemma check_ready_stops: "\<not> is_ready_core s \<Longrightarrow> \<exists>e. check_ready_core s = (Inl e, s)"
  by (auto simp: is_ready_core_def check_ready_core_def throw_if_core_worker_failed_def io_defs split: option.split)

lemma seqE_run: "m s = (Inr a, t) \<Longrightarrow> seqE m n s = n t"
  by (simp add: seqE_def bindE_def)

lemma bindE_run: "m s = (Inr a, t) \<Longrightarrow> bindE m f s = f a t"
  by (simp add: bindE_def)

lemma seqE_stop: "m s = (Inl e, t) \<Longrightarrow> seqE m n s = (Inl e, t)"
  by (simp add: seqE_def bindE_def)

lemma check_run [simp]: "b \<Longrightarrow> check b e s = (Inr (), s)"
  by (simp add: check_def ret_def)

lemma lift_sum_run [simp]: "lift_sum (Inr a) s = (Inr a, s)" "lift_sum (Inl e) s = (Inl e, s)"
  by (simp_all add: lift_sum_def io_defs)

definition commit_poll :: "nat \<Rightarrow> device_poll" where
  "commit_poll c = \<lparr>dp_failure = None, dp_read = Inr (memcpy 0 (le32 (of_nat c)) (replicate 16 0))\<rparr>"

definition end_poll :: "fault option \<Rightarrow> device_poll list" where
  "end_poll stop = (case stop of None \<Rightarrow> [] | Some e \<Rightarrow> [\<lparr>dp_failure = Some e, dp_read = Inr []\<rparr>])"

lemma drain_wait_counts:
  "\<forall>c \<in> set cs. c < t + 2 ^ 31 \<and> t < c + 2 ^ 31 \<Longrightarrow>
   drain_wait (of_nat t) (map commit_poll cs @ rest) =
     (if \<exists>c \<in> set cs. t \<le> c then Inr () else drain_wait (of_nat t) rest)"
proof (induction cs)
  case (Cons c cs)
  then have n: "c < t + 2 ^ 31" "t < c + 2 ^ 31" by auto
  have r: "read_le32 (memcpy 0 (le32 (of_nat c)) (replicate 16 0)) 0 = of_nat c"
    by (simp add: memcpy_def)
  show ?case
    using Cons counter_reached_iff [OF n]
    by (simp add: commit_poll_def r Let_def)
qed simp

lemma drain_run:
  assumes "server_workload_running s" and "\<not> core_worker_failed s" and "dr_device da"
    and "dr_issued da = Inr line"
  shows "drain_inflight_puts da s = (drain_wait (read_le32 line 0) (dr_polls da), s)"
  using assms
  by (cases "drain_wait (read_le32 line 0) (dr_polls da)")
     (simp_all add: drain_inflight_puts_def throw_if_core_worker_failed_def io_defs lift_sum_def)

text \<open>
  C20: draining waits for the commits, across the wrap-around of the counters. The device counts puts
  and commits modulo \<open>2 ^ 32\<close>; let \<open>t\<close> be the true number of puts issued when the drain starts and \<open>cs\<close>
  the true numbers of commits at its polls, less than \<open>2 ^ 31\<close> away from \<open>t\<close>. The drain
  returns if and only if one of the polls saw all \<open>t\<close> puts committed; otherwise it fails, with the
  worker's failure if that ended the polls and with its own timeout if not. It changes no state.
\<close>

theorem drain_waits_for_commits:
  assumes "server_workload_running s" and "\<not> core_worker_failed s" and "dr_device da"
    and "dr_issued da = Inr line" and "read_le32 line 0 = of_nat t"
    and "dr_polls da = map commit_poll cs @ end_poll stop"
    and "\<forall>c \<in> set cs. c < t + 2 ^ 31 \<and> t < c + 2 ^ 31"
  shows "drain_inflight_puts da s =
    (if \<exists>c \<in> set cs. t \<le> c then Inr ()
     else Inl (case stop of Some e \<Rightarrow> e
       | None \<Rightarrow> Fatal ''drain_inflight_puts: commit_done did not reach the target within timeout''), s)"
  using drain_run [OF assms(1-4)] drain_wait_counts [OF assms(7), of "end_poll stop"] assms(5,6)
  by (auto simp: end_poll_def split: option.split)

lemma find_entry_is:
  "i < n \<Longrightarrow> entry_matches stride key dir i \<Longrightarrow> \<forall>j < i. \<not> entry_matches stride key dir j \<Longrightarrow>
     find_entry stride n key dir = Some i"
  by (auto simp: find_entry_def find_Some_iff)

lemma find_entry_none: "\<forall>j < n. \<not> entry_matches stride key dir j \<Longrightarrow> find_entry stride n key dir = None"
  by (auto simp: find_entry_def find_None_iff)

lemma find_retrying_hit:
  "\<forall>a < n. \<exists>d. snap (k + a) = Inr d \<and> look d = None \<Longrightarrow> snap (k + n) = Inr dir \<Longrightarrow> look dir = Some i \<Longrightarrow>
     n \<le> left \<Longrightarrow> find_retrying left snap look k = Inr (Some (dir, i))"
proof (induction n arbitrary: left k)
  case 0 then show ?case by (subst find_retrying.simps) simp
next
  case (Suc n)
  from Suc.prems(1) obtain d where d: "snap k = Inr d" "look d = None" by force
  have t: "\<exists>d. snap (Suc k + a) = Inr d \<and> look d = None" if "a < n" for a
    using Suc.prems(1) that by (metis add_Suc_right add_Suc Suc_less_eq)
  obtain l where l: "left = Suc l" "n \<le> l" using Suc.prems(4) by (cases left) auto
  have "find_retrying l snap look (Suc k) = Inr (Some (dir, i))"
    using t Suc.prems(2,3) l by (intro Suc.IH) auto
  then show ?case using d l by (subst find_retrying.simps) simp
qed

lemma find_retrying_miss:
  "\<forall>a \<le> left. \<exists>d. snap (k + a) = Inr d \<and> look d = None \<Longrightarrow> find_retrying left snap look k = Inr None"
proof (induction left arbitrary: k)
  case 0 then show ?case by (subst find_retrying.simps) auto
next
  case (Suc l)
  from Suc.prems obtain d where d: "snap k = Inr d" "look d = None" by force
  have "\<exists>d. snap (Suc k + a) = Inr d \<and> look d = None" if "a \<le> l" for a
    using Suc.prems that by (metis add_Suc_right add_Suc Suc_le_mono)
  then have "find_retrying l snap look (Suc k) = Inr None" by (intro Suc.IH) auto
  then show ?case using d by (subst find_retrying.simps) simp
qed

declare find_retrying.simps [simp del]

definition entry_field :: "directory_answers \<Rightarrow> byte list \<Rightarrow> nat \<Rightarrow> nat \<Rightarrow> u32" where
  "entry_field dy dir i off = read_le32 dir (dy_stride dy * i + off)"

definition lacks :: "directory_answers \<Rightarrow> byte list \<Rightarrow> nat \<Rightarrow> bool" where
  "lacks dy key a \<longleftrightarrow> (\<exists>d. dy_snapshot dy a = Inr d \<and> find_entry (dy_stride dy) (dy_max_keys dy) key d = None)"

lemma read_value_units_steady:
  assumes "steady mem rd" and "device_found geo" and "value_buffer_found geo"
    and "heap_fits geo (off div kMaxChunkValueBytes) (chunk_count_for len)"
  shows "read_value_units geo rd off len =
    Inr (take (unat len) (value_image geo mem (unat off div 4288) (unat (chunk_count_for len))))"
  using read_steady [OF assms, of "replicate (unat (chunk_count_for len) * unat kMaxChunkValueBytes) 0"]
  by (auto simp: read_value_units_def kMaxChunkValueBytes_eq)

text \<open>
  C21: a host read returns the stored value. With the puts drained, if the first \<open>n \<le> 16\<close> directory
  snapshots lack the key and the next holds it first in slot \<open>i\<close>, then the read returns, for an
  entry in the host tier, the bytes of the host copy of slot \<open>i\<close>, or a miss when the slot has no copy; for an
  entry on the device, the bytes of the value's units in order, cut to its length. No
  state changes.
\<close>

theorem get_core_exact:
  assumes "is_ready_core s" and "drain_inflight_puts da s = (Inr (), s)" and "dy_buffer dy"
    and "\<forall>a < n. lacks dy key a" and "n \<le> 16" and "dy_snapshot dy n = Inr dir"
    and "i < dy_max_keys dy" and "entry_matches (dy_stride dy) key dir i"
    and "\<forall>j < i. \<not> entry_matches (dy_stride dy) key dir j"
    and "steady mem rd" and "device_found geo" and "value_buffer_found geo"
    and "heap_fits geo (entry_field dy dir i 16 div kMaxChunkValueBytes) (chunk_count_for (entry_field dy dir i 8))"
  shows "get_core da dy geo rd key s =
    (Inr (if entry_field dy dir i 24 = kLocationHost
          then map_option (\<lambda>hv. host_value_bytes s hv (unat (hv_len hv))) (map_of (host_values s) (of_nat i))
          else Some (take (unat (entry_field dy dir i 8))
            (value_image geo mem (unat (entry_field dy dir i 16) div 4288)
              (unat (chunk_count_for (entry_field dy dir i 8)))))), s)"
proof -
  have "find_retrying kDirReadMaxRetries (dy_snapshot dy) (find_entry (dy_stride dy) (dy_max_keys dy) key) 0 =
      Inr (Some (dir, i))"
    using assms(4-9) by (intro find_retrying_hit [where n = n])
      (auto simp: kDirReadMaxRetries_def lacks_def intro: find_entry_is)
  then show ?thesis
    using assms(1-3) read_value_units_steady [OF assms(10-13)]
    by (simp add: get_core_def seqE_run bindE_run entry_field_def kEntryDeviceValueByteOffset_def
        kEntryLocationByteOffset_def Let_def gets_def ret_def)
qed

lemma get_core_miss:
  assumes "is_ready_core s" and "drain_inflight_puts da s = (Inr (), s)" and "dy_buffer dy"
    and "\<forall>a \<le> 16. lacks dy key a"
  shows "get_core da dy geo rd key s = (Inr None, s)"
proof -
  have "find_retrying kDirReadMaxRetries (dy_snapshot dy) (find_entry (dy_stride dy) (dy_max_keys dy) key) 0 = Inr None"
    using assms(4) by (intro find_retrying_miss) (auto simp: kDirReadMaxRetries_def lacks_def)
  then show ?thesis using assms(1-3) by (simp add: get_core_def seqE_run bindE_run ret_def)
qed

lemma exists_core_run:
  assumes "is_ready_core s" and "drain_inflight_puts da s = (Inr (), s)" and "dy_buffer dy" and "dy_snapshot dy 0 = Inr dir"
  shows "exists_core da dy key s =
    (Inr (\<exists>i < dy_max_keys dy. entry_matches (dy_stride dy) key dir i), s)"
proof -
  have "find_entry (dy_stride dy) (dy_max_keys dy) key dir \<noteq> None \<longleftrightarrow>
      (\<exists>i < dy_max_keys dy. entry_matches (dy_stride dy) key dir i)"
    by (auto simp: find_entry_def find_None_iff)
  then show ?thesis using assms by (simp add: exists_core_def seqE_run bindE_run ret_def)
qed

lemma remove_wait_done:
  "\<forall>p \<in> set ps. dp_failure p = None \<and> (\<exists>b. dp_read p = Inr b \<and> read_le32 b 0 \<noteq> n) \<Longrightarrow>
   dp_failure q = None \<Longrightarrow> dp_read q = Inr b \<Longrightarrow> read_le32 b 0 = n \<Longrightarrow>
   remove_wait n (ps @ q # qs) = Inr ()"
  by (induction ps) auto

lemma remove_request_reads:
  assumes "length key \<le> 128"
  shows "length (remove_request key) = 160" and "read_le32 (remove_request key) 0 = kOpRemove"
    and "read_le32 (remove_request key) 4 = of_nat (length key)"
    and "take (length key) (drop 32 (remove_request key)) = key"
proof -
  have m: "unat kDirReqMailboxSize = 160" by (simp add: kDirReqMailboxSize_def kMaxPutKeyBytes_def)
  have e: "remove_request key =
      le32 kOpRemove @ le32 (of_nat (length key)) @ replicate 24 0 @ key @ replicate (128 - length key) 0"
    using assms
    by (simp add: remove_request_def m memcpy_def kDirReqMailboxHeaderBytes_def min_def)
  show "length (remove_request key) = 160" using assms by (simp add: e)
  show "read_le32 (remove_request key) 0 = kOpRemove" by (simp add: e)
  show "read_le32 (remove_request key) 4 = of_nat (length key)"
    using read_le32_skip [of "le32 kOpRemove" "le32 (of_nat (length key)) @ replicate 24 0 @ key @ replicate (128 - length key) 0" 0]
    by (simp add: e)
  show "take (length key) (drop 32 (remove_request key)) = key" by (simp add: e)
qed

text \<open>
  C28: a host remove is one request, posted whole and answered. With the puts drained, for a key within the
  server's limit and a device whose done counter differs from the new request number until the poll that
  shows it, the call returns the removed flag of the response. The device has seen two
  writes, in this order: the request, whose operation, length and key can be read back from it, and the
  request counter, one more than the one read and with its other bytes as they were. Nothing else changes.
\<close>

theorem remove_core_exact:
  assumes "is_ready_core s" and "drain_inflight_puts da s = (Inr (), s)"
    and "key \<noteq> []" and "length key \<le> unat (max_key_len s)" and "unat (max_key_len s) \<le> 128" and "rm_device rm"
    and "rm_request_sem rm = Inr sem" and "length sem = 16" and "rm_response rm = Inr response"
    and "rm_polls rm = waiting @ answered # rest"
    and "\<forall>p \<in> set waiting. dp_failure p = None \<and> (\<exists>b. dp_read p = Inr b \<and> read_le32 b 0 \<noteq> read_le32 sem 0 + 1)"
    and "dp_failure answered = None" and "dp_read answered = Inr done_sem" and "read_le32 done_sem 0 = read_le32 sem 0 + 1"
  shows "\<exists>posted counter. remove_core da rm l1_base layout key s =
      (Inr (bit (read_le32 response 0) 0),
       s\<lparr>events := events s @ [L1_Write (l1_base + dir_req_mailbox_offset layout) posted,
                               L1_Write (l1_base + dir_req_sem_offset layout) counter]\<rparr>)
    \<and> length posted = 160 \<and> read_le32 posted 0 = kOpRemove \<and> read_le32 posted 4 = of_nat (length key)
    \<and> take (length key) (drop 32 posted) = key
    \<and> read_le32 counter 0 = read_le32 sem 0 + 1 \<and> drop 4 counter = drop 4 sem"
proof -
  have l: "length key \<le> 128" using assms(4,5) by simp
  have w: "remove_wait (read_le32 sem 0 + 1) (rm_polls rm) = Inr ()"
    using assms(10-14) remove_wait_done by metis
  have f: "and (read_le32 response 0) kStatusFlagRemoved \<noteq> 0 \<longleftrightarrow> bit (read_le32 response 0) 0"
    by (simp add: kStatusFlagRemoved_def and_one_eq odd_iff_mod_2_eq_one bit_0 flip: push_bit_0_id)
  have "remove_core da rm l1_base layout key s =
      (Inr (bit (read_le32 response 0) 0),
       s\<lparr>events := events s @ [L1_Write (l1_base + dir_req_mailbox_offset layout) (remove_request key),
          L1_Write (l1_base + dir_req_sem_offset layout) (memcpy 0 (le32 (read_le32 sem 0 + 1)) sem)]\<rparr>)"
    using assms(1-4,6,7,9) w f
    by (simp add: remove_core_def seqE_run bindE_run Let_def gets_def write_l1_def modify_def ret_def)
  then show ?thesis
    using remove_request_reads [OF l] assms(8) by (intro exI conjI) (assumption | simp add: memcpy_def)+
qed

section \<open>Witnesses\<close>

definition demo_core :: core_state where
  "demo_core = external_state.extend (demo_external\<lparr>host_values :=
       [(2, \<lparr>hv_heap = [7, 8], hv_len = 2, hv_pool_unit = 0, hv_pool_units = 0, hv_generation = 0\<rparr>)]\<rparr>)
     (core_state.fields (0, 1) [(0, 1)] [] False True True True True True False False None)"

lemma demo_core_fields [simp]:
  "is_ready_core demo_core" "server_workload_running demo_core" "\<not> core_worker_failed demo_core"
  "max_key_len demo_core = 128"
  "host_values demo_core = [(2, \<lparr>hv_heap = [7, 8], hv_len = 2, hv_pool_unit = 0, hv_pool_units = 0, hv_generation = 0\<rparr>)]"
  by (simp_all add: is_ready_core_def demo_core_def core_state.defs external_state.defs demo_external_def
      demo_host_def host_state.defs)

text \<open>The issued counter has wrapped: 4294967296 puts were issued, and the first poll has seen all but two commits.\<close>

definition demo_drain :: drain_answers where
  "demo_drain = \<lparr>dr_device = True, dr_issued = Inr (replicate 16 0),
     dr_polls = map commit_poll [4294967294, 4294967297] @ end_poll None\<rparr>"

theorem drain_waits_for_commits_witness:
  "drain_inflight_puts demo_drain demo_core = (Inr (), demo_core)"
  using drain_waits_for_commits [of demo_core demo_drain "replicate 16 0" 4294967296
      "[4294967294, 4294967297]" None]
  by (simp add: demo_drain_def read_le32_def)

lemma demo_drained [simp]: "drain_inflight_puts demo_drain demo_core = (Inr (), demo_core)"
  by (subst drain_run [of _ _ "replicate 16 0"])
     (simp_all add: demo_drain_def commit_poll_def memcpy_def read_le32_def le32_def cumulative_counter_is_ahead_def
        Let_def)

text \<open>The key \<open>[5, 6]\<close> is in slot 2 of the second snapshot, in the host tier.\<close>

definition demo_directory :: directory_answers where
  "demo_directory = \<lparr>dy_buffer = True, dy_stride = 64, dy_max_keys = 3,
     dy_snapshot = (\<lambda>a. Inr (if a = 0 then replicate 192 0
       else replicate 128 0 @ concat (map le32 [1, 2, 2, 0, 0, 0, 1, 0]) @ [5, 6] @ replicate 30 0))\<rparr>"

lemma demo_directory_entries:
  "\<not> entry_matches 64 [5, 6] (replicate 192 0) 0" "\<not> entry_matches 64 [5, 6] (replicate 192 0) 1"
  "\<not> entry_matches 64 [5, 6] (replicate 192 0) 2"
  "\<not> entry_matches 64 [5, 6] (replicate 128 0 @ concat (map le32 [1, 2, 2, 0, 0, 0, 1, 0]) @ [5, 6] @ replicate 30 0) 0"
  "\<not> entry_matches 64 [5, 6] (replicate 128 0 @ concat (map le32 [1, 2, 2, 0, 0, 0, 1, 0]) @ [5, 6] @ replicate 30 0) 1"
  "entry_matches 64 [5, 6] (replicate 128 0 @ concat (map le32 [1, 2, 2, 0, 0, 0, 1, 0]) @ [5, 6] @ replicate 30 0) 2"
  "read_le32 (replicate 128 0 @ concat (map le32 [1, 2, 2, 0, 0, 0, 1, 0]) @ [5, 6] @ replicate 30 0) 136 = 2"
  "read_le32 (replicate 128 0 @ concat (map le32 [1, 2, 2, 0, 0, 0, 1, 0]) @ [5, 6] @ replicate 30 0) 144 = 0"
  "read_le32 (replicate 128 0 @ concat (map le32 [1, 2, 2, 0, 0, 0, 1, 0]) @ [5, 6] @ replicate 30 0) 152 = 1"
  by code_simp+

lemma demo_directory_lacks: "lacks demo_directory [5, 6] 0"
proof -
  have "\<forall>j < 3. \<not> entry_matches 64 [5, 6] (replicate 192 0) j"
    using demo_directory_entries(1-3) by (simp add: numeral_eq_Suc less_Suc_eq)
  then show ?thesis by (simp add: lacks_def demo_directory_def find_entry_none)
qed

theorem get_core_exact_witness:
  "get_core demo_drain demo_directory demo_geometry
      (\<lambda>i bank addr n. map (\<lambda>k. of_nat (unat bank * 7 + unat addr + k)) [0 ..< n]) [5, 6] demo_core =
    (Inr (Some [7, 8]), demo_core)"
proof -
  have c: "chunk_count_for 2 = 1" by code_simp
  have "heap_fits demo_geometry (0 div kMaxChunkValueBytes) (chunk_count_for 2)"
    by (simp add: heap_fits_def demo_geometry_def c word_less_nat_alt)
  moreover have "\<forall>j < 2. \<not> entry_matches 64 [5, 6]
      (replicate 128 0 @ concat (map le32 [1, 2, 2, 0, 0, 0, 1, 0]) @ [5, 6] @ replicate 30 0) j"
    using demo_directory_entries(4,5) by (simp add: less_2_cases_iff)
  ultimately show ?thesis
    using get_core_exact [of demo_core demo_drain demo_directory 1 "[5, 6]"
        "replicate 128 0 @ concat (map le32 [1, 2, 2, 0, 0, 0, 1, 0]) @ [5, 6] @ replicate 30 0" 2
        "\<lambda>bank a. of_nat (bank * 7 + a)"
        "\<lambda>i bank addr n. map (\<lambda>k. of_nat (unat bank * 7 + unat addr + k)) [0 ..< n]" demo_geometry]
      demo_directory_lacks demo_directory_entries(6-9)
    by (simp add: steady_def add.assoc entry_field_def demo_directory_def kLocationHost_def host_value_bytes_def
        demo_geometry_def)
qed

definition demo_rm :: remove_answers where
  "demo_rm = \<lparr>rm_device = True, rm_request_sem = Inr (replicate 16 255),
     rm_polls = [\<lparr>dp_failure = None, dp_read = Inr (replicate 16 255)\<rparr>,
                 \<lparr>dp_failure = None, dp_read = Inr (replicate 16 0)\<rparr>],
     rm_response = Inr (5 # replicate 31 0)\<rparr>"

lemma demo_rm_words: "read_le32 (replicate 16 255) 0 = -1" "read_le32 (replicate 16 0) 0 = 0"
  "bit (read_le32 (5 # replicate 31 0) 0) 0"
  by code_simp+

definition demo_layout :: l1_layout where
  "demo_layout = (l1_layout.make 0 0 0 0 0 0 0 0 0 0 0 0 0 0 0 0 0 0 0 0 0 0 0 0 0 0 0 0 0 0 0)
     \<lparr>dir_req_mailbox_offset := 256, dir_req_sem_offset := 512\<rparr>"

theorem remove_core_exact_witness:
  "\<exists>posted counter. remove_core demo_drain demo_rm 4096 demo_layout [5, 6] demo_core =
      (Inr True, demo_core\<lparr>events := events demo_core @ [L1_Write 4352 posted, L1_Write 4608 counter]\<rparr>)
    \<and> read_le32 posted 4 = 2 \<and> read_le32 counter 0 = 0"
proof -
  have l: "4096 + dir_req_mailbox_offset demo_layout = 4352" "4096 + dir_req_sem_offset demo_layout = 4608"
    by (simp_all add: demo_layout_def l1_layout.defs)
  show ?thesis
    using remove_core_exact [of demo_core demo_drain "[5, 6]" demo_rm "replicate 16 255" "5 # replicate 31 0"
        "[\<lparr>dp_failure = None, dp_read = Inr (replicate 16 255)\<rparr>]" "\<lparr>dp_failure = None, dp_read = Inr (replicate 16 0)\<rparr>" "[]"
        "replicate 16 0" 4096 demo_layout]
      demo_rm_words
    unfolding l by (simp add: demo_rm_def) blast
qed

end
