(* ===== verification/Get_Ingress.thy ===== *)
theory Get_Ingress
  imports Host_Api Client_Bootstrap
begin

text \<open>
  The mapped GET ingress: \<^verbatim>\<open>submit_mapped_get_ingress\<close>, \<^verbatim>\<open>prepare_mapped_get_completion\<close> and
  \<^verbatim>\<open>wait_for_mapped_get_completion\<close> of \<^verbatim>\<open>server_host_api.cpp\<close>, and \<^verbatim>\<open>get_ingress_kernel.cpp\<close> (in the patch
  series), which copies a submitted request into the request ring. The descriptor area is host memory
  that the kernel reads; the doorbell is a word of the kernel's core. Asserts are checks. The state
  machine at the end runs the two sides against each other, with the host's copy into
  the descriptor byte by byte in any order; the fence before the doorbell means that the
  doorbell is written after all of these bytes.
\<close>

section \<open>The descriptor\<close>

definition kOpGetChunkReq :: u32 where "kOpGetChunkReq = 10"
definition kGetCompletionCumulativeV2 :: u32 where "kGetCompletionCumulativeV2 = 2"
definition kGetIngressDescriptorSlots :: u32 where "kGetIngressDescriptorSlots = 2"
definition kGetIngressDescriptorBytes :: nat where "kGetIngressDescriptorBytes = 224"
definition kGetIngressPacketCapacity :: u32 where "kGetIngressPacketCapacity = 16 + 32 + 128"

record get_request =
  gr_ring_slot :: u32
  gr_client_token :: u32
  gr_seq :: u32
  gr_key_len :: u32
  gr_key :: "byte list"
  gr_dram_base :: u32
  gr_page_size :: u32
  gr_capacity :: u32
  gr_completion_addr :: u32

definition make_get_ingress_packet_header :: "u32 \<Rightarrow> u32 \<Rightarrow> u32 \<Rightarrow> u32 list" where
  "make_get_ingress_packet_header seq key_len client_token = [kOpGetChunkReq, seq, 32 + key_len, client_token]"

definition ingress_packet :: "get_request \<Rightarrow> byte list" where
  "ingress_packet r =
     concat (map le32 (make_get_ingress_packet_header (gr_seq r) (gr_key_len r) (gr_client_token r)
       @ [gr_seq r, 0, gr_key_len r, gr_dram_base r, gr_page_size r, gr_capacity r, gr_completion_addr r,
          kGetCompletionCumulativeV2]))
     @ take 128 (gr_key r)"

definition ingress_packet_bytes :: "get_request \<Rightarrow> u32" where
  "ingress_packet_bytes r = and (16 + 32 + gr_key_len r + 15) (not 15)"

definition ingress_descriptor :: "u32 \<Rightarrow> get_request \<Rightarrow> byte list" where
  "ingress_descriptor generation r =
     concat (map le32 [generation, gr_ring_slot r, ingress_packet_bytes r, 0])
     @ ingress_packet r @ le32 generation @ replicate 28 0"

section \<open>The host's side\<close>

record ingress_state =
  get_ingress_generation :: u32
  get_ingress_host :: "byte list"
  get_completion :: u32
  ingress_doorbell :: u32
  ingress_seen :: u32
  request_ring :: "u32 \<Rightarrow> byte list"
  request_ring_sem :: "u32 \<Rightarrow> u32"

definition request_fits :: "u32 \<Rightarrow> u32 \<Rightarrow> get_request \<Rightarrow> bool" where
  "request_fits ring_slots key_limit r \<longleftrightarrow>
     (let client_id = client_id_from_token (gr_client_token r);
          ring_slots_per_client = ring_slots div kMaxClients in
      gr_ring_slot r < ring_slots \<and> client_id < kMaxClients
      \<and> client_generation_from_token (gr_client_token r) \<noteq> 0
      \<and> ring_slots mod kMaxClients = 0 \<and> 0 < ring_slots_per_client
      \<and> gr_ring_slot r div ring_slots_per_client = client_id
      \<and> 1 \<le> gr_key_len r \<and> gr_key_len r \<le> key_limit
      \<and> gr_completion_addr r \<noteq> 0 \<and> gr_completion_addr r mod 4 = 0)"

definition prepare_mapped_get_completion :: "get_pipeline \<Rightarrow> ('z ingress_state_scheme, unit) io" where
  "prepare_mapped_get_completion p =
     seqE (check (mapped_completion (scalar_get_mode_of p)) (Fatal ''scalar_get_mode().mapped_completion''))
          (modify (get_completion_update (\<lambda>_. 0)))"

definition submit_mapped_get_ingress :: "get_pipeline \<Rightarrow> u32 \<Rightarrow> u32 \<Rightarrow> get_request \<Rightarrow> ('z ingress_state_scheme, unit) io" where
  "submit_mapped_get_ingress p ring_slots key_limit r =
     seqE (check (mapped_ingress (scalar_get_mode_of p)) (Fatal ''scalar_get_mode().mapped_ingress''))
    (seqE (check (request_fits ring_slots key_limit r) (Fatal ''submit_mapped_get_ingress''))
    (seqE (modify (get_ingress_generation_update (\<lambda>g. g + 1)))
    (bindE (gets get_ingress_generation) (\<lambda>generation.
     let descriptor_slot = generation mod kGetIngressDescriptorSlots in
     seqE (modify (get_ingress_host_update
             (memcpy (unat descriptor_slot * kGetIngressDescriptorBytes) (ingress_descriptor generation r))))
          (modify (ingress_doorbell_update (\<lambda>_. generation)))))))"

section \<open>The kernel's side\<close>

definition fetched :: "'z ingress_state_scheme \<Rightarrow> byte list" where
  "fetched s =
     take kGetIngressDescriptorBytes
       (drop (unat (ingress_doorbell s mod kGetIngressDescriptorSlots) * kGetIngressDescriptorBytes) (get_ingress_host s))"

definition ingress_rings :: "'z ingress_state_scheme \<Rightarrow> bool" where
  "ingress_rings s = cumulative_counter_is_ahead (ingress_doorbell s) (ingress_seen s)"

text \<open>The kernel's assertions on a descriptor it has read.\<close>

definition ingress_asserts :: "u32 \<Rightarrow> u32 \<Rightarrow> byte list \<Rightarrow> bool" where
  "ingress_asserts ring_slots generation d \<longleftrightarrow>
     read_le32 d 0 = generation \<and> read_le32 d 192 = generation \<and> read_le32 d 4 < ring_slots
     \<and> 16 + 32 \<le> read_le32 d 8 \<and> read_le32 d 8 \<le> kGetIngressPacketCapacity
     \<and> and (read_le32 d 8) 15 = 0 \<and> read_le32 d 16 = kOpGetChunkReq"

text \<open>One turn of the kernel's loop, without the termination word.\<close>

definition ingress_poll :: "'z ingress_state_scheme \<Rightarrow> 'z ingress_state_scheme" where
  "ingress_poll s =
     (if \<not> ingress_rings s then s
      else
        let d = fetched s;
            ring_slot = read_le32 d 4;
            packet = take (unat (read_le32 d 8)) (drop 16 d)
        in s\<lparr>request_ring := (request_ring s)(ring_slot := memcpy 0 packet (request_ring s ring_slot)),
             request_ring_sem := (request_ring_sem s)(ring_slot := request_ring_sem s ring_slot + 1),
             ingress_seen := ingress_doorbell s\<rparr>)"

section \<open>The two sides together\<close>

datatype host_phase = Host_Idle | Host_Storing get_request "nat list" | Host_Waiting | Host_Failed

record ingress_run = ingress_state +
  in_phase :: host_phase
  in_submitted :: "get_request list"
  in_delivered :: "(u32 \<times> byte list) list"
  in_returned :: "u32 list"

text \<open>What the ring holds after a poll, at the slot whose semaphore the poll raised.\<close>

definition ingress_taken :: "ingress_run \<Rightarrow> ingress_run" where
  "ingress_taken s =
     (if \<not> ingress_rings s then s
      else let s' = ingress_poll s; q = read_le32 (fetched s) 4 in
        s'\<lparr>in_delivered := in_delivered s @ [(q, take (unat (read_le32 (fetched s) 8)) (request_ring s' q))]\<rparr>)"

definition ingress_slot :: "'z ingress_state_scheme \<Rightarrow> nat" where
  "ingress_slot s = unat (get_ingress_generation s mod kGetIngressDescriptorSlots) * kGetIngressDescriptorBytes"

text \<open>
  \<open>complete\<close> is the rest of the device: it answers a request that it has received, once, with the status
  plus one. The host starts a request when the call for the one before has returned; after a call
  that failed it makes no other.
\<close>

inductive ingress_step :: "u32 \<Rightarrow> u32 \<Rightarrow> ingress_run \<Rightarrow> ingress_run \<Rightarrow> bool" for n k where
  start: "in_phase s = Host_Idle \<Longrightarrow> request_fits n k r \<Longrightarrow> length (gr_key r) = 128 \<Longrightarrow>
    ingress_step n k s (s\<lparr>get_completion := 0, get_ingress_generation := get_ingress_generation s + 1,
      in_phase := Host_Storing r [0 ..< kGetIngressDescriptorBytes]\<rparr>)"
| store: "in_phase s = Host_Storing r pend \<Longrightarrow> i \<in> set pend \<Longrightarrow>
    ingress_step n k s (s\<lparr>get_ingress_host :=
        (get_ingress_host s)[ingress_slot s + i := ingress_descriptor (get_ingress_generation s) r ! i],
      in_phase := Host_Storing r (removeAll i pend)\<rparr>)"
| ring: "in_phase s = Host_Storing r [] \<Longrightarrow>
    ingress_step n k s (s\<lparr>ingress_doorbell := get_ingress_generation s, in_phase := Host_Waiting,
      in_submitted := in_submitted s @ [r]\<rparr>)"
| poll: "ingress_step n k s (ingress_taken s)"
| complete: "length (in_returned s) < length (in_delivered s) \<Longrightarrow> raw \<in> {1, 2, 4} \<Longrightarrow>
    ingress_step n k s (s\<lparr>get_completion := raw\<rparr>)"
| finish: "in_phase s = Host_Waiting \<Longrightarrow> mapped_completion (scalar_get_mode_of g) \<Longrightarrow>
    wait_for_mapped_get_completion g [p] = Some (Inr v) \<Longrightarrow>
    sp_word p = get_completion s \<Longrightarrow>
    ingress_step n k s (s\<lparr>in_phase := Host_Idle, in_returned := in_returned s @ [v]\<rparr>)"
| fail: "in_phase s = Host_Waiting \<Longrightarrow> ingress_step n k s (s\<lparr>in_phase := Host_Failed\<rparr>)"

definition ingress_start :: "u32 \<Rightarrow> (u32 \<Rightarrow> byte list) \<Rightarrow> ingress_run" where
  "ingress_start initial_counter rings =
     \<lparr>get_ingress_generation = initial_counter, get_ingress_host = replicate 448 0, get_completion = 0,
      ingress_doorbell = initial_counter, ingress_seen = initial_counter, request_ring = rings,
      request_ring_sem = (\<lambda>_. initial_counter), in_phase = Host_Idle, in_submitted = [], in_delivered = [],
      in_returned = []\<rparr>"

inductive ingress_reach :: "u32 \<Rightarrow> u32 \<Rightarrow> u32 \<Rightarrow> (u32 \<Rightarrow> byte list) \<Rightarrow> ingress_run \<Rightarrow> bool" for n k c rings where
  begins: "ingress_reach n k c rings (ingress_start c rings)"
| steps: "ingress_reach n k c rings s \<Longrightarrow> ingress_step n k s t \<Longrightarrow> ingress_reach n k c rings t"

definition sent :: "get_request \<Rightarrow> u32 \<times> byte list" where
  "sent r = (gr_ring_slot r, take (unat (ingress_packet_bytes r)) (ingress_packet r))"

section \<open>A complete descriptor\<close>

lemma and_not_15: "and (x :: u32) (not 15) = push_bit 4 (drop_bit 4 x)"
proof -
  have m: "(15 :: u32) = mask 4" by (simp add: mask_eq_exp_minus_1)
  show ?thesis unfolding m by (rule bit_word_eqI) (auto simp: bit_simps)
qed

lemma ingress_packet_bytes_bounds:
  assumes "1 \<le> gr_key_len r" and "gr_key_len r \<le> 128"
  shows "unat (ingress_packet_bytes r) mod 16 = 0" and "48 + unat (gr_key_len r) \<le> unat (ingress_packet_bytes r)"
    and "unat (ingress_packet_bytes r) \<le> 176"
proof -
  have n: "unat (gr_key_len r) \<le> 128" using assms(2) by (simp add: word_le_nat_alt)
  have "unat (gr_key_len r + 63) = unat (gr_key_len r) + 63" using n by (simp add: unat_word_ariths)
  then have d: "unat (drop_bit 4 (gr_key_len r + 63)) = (unat (gr_key_len r) + 63) div 16"
    by (simp add: drop_bit_eq_div unat_div)
  have "ingress_packet_bytes r = drop_bit 4 (gr_key_len r + 63) * 16"
    unfolding ingress_packet_bytes_def and_not_15 push_bit_eq_mult by (simp add: add.commute)
  then have e: "unat (ingress_packet_bytes r) = (unat (gr_key_len r) + 63) div 16 * 16"
    using d unat_mult_fits [of "drop_bit 4 (gr_key_len r + 63)" 16] n by simp
  show "unat (ingress_packet_bytes r) mod 16 = 0" by (simp add: e)
  show "48 + unat (gr_key_len r) \<le> unat (ingress_packet_bytes r)" unfolding e by linarith
  show "unat (ingress_packet_bytes r) \<le> 176"
    unfolding e using n div_le_mono [of "unat (gr_key_len r) + 63" 191 16] by simp
qed

lemma length_ingress_packet [simp]: "length (gr_key r) = 128 \<Longrightarrow> length (ingress_packet r) = 176"
  by (simp add: ingress_packet_def make_get_ingress_packet_header_def)

lemma length_ingress_descriptor [simp]:
  "length (gr_key r) = 128 \<Longrightarrow> length (ingress_descriptor g r) = 224"
  by (simp add: ingress_descriptor_def)

lemma descriptor_words:
  assumes "length (gr_key r) = 128"
  shows "read_le32 (ingress_descriptor g r) 0 = g" and "read_le32 (ingress_descriptor g r) 4 = gr_ring_slot r"
    and "read_le32 (ingress_descriptor g r) 8 = ingress_packet_bytes r"
    and "read_le32 (ingress_descriptor g r) 16 = kOpGetChunkReq" and "read_le32 (ingress_descriptor g r) 192 = g"
    and "take m (drop 16 (ingress_descriptor g r)) = take m (ingress_packet r @ le32 g @ replicate 28 0)"
proof -
  define ws where "ws = [g, gr_ring_slot r, ingress_packet_bytes r, 0 :: u32]"
  define tail where "tail = ingress_packet r @ le32 g @ replicate 28 (0 :: byte)"
  have e: "ingress_descriptor g r = concat (map le32 ws) @ tail"
    by (simp add: ingress_descriptor_def ws_def tail_def)
  show "read_le32 (ingress_descriptor g r) 0 = g" "read_le32 (ingress_descriptor g r) 4 = gr_ring_slot r"
    "read_le32 (ingress_descriptor g r) 8 = ingress_packet_bytes r"
    using read_le32_words [of 0 ws tail] read_le32_words [of 1 ws tail] read_le32_words [of 2 ws tail]
    unfolding e by (simp_all add: ws_def)
  have l: "length (concat (map le32 ws)) = 16" by (simp add: ws_def)
  then show "take m (drop 16 (ingress_descriptor g r)) = take m tail" for m unfolding e by simp
  have "read_le32 (ingress_descriptor g r) 16 = read_le32 tail 0"
    using read_le32_skip [of "concat (map le32 ws)" tail 0] l unfolding e by simp
  also have "\<dots> = kOpGetChunkReq"
    by (simp add: tail_def ingress_packet_def make_get_ingress_packet_header_def)
  finally show "read_le32 (ingress_descriptor g r) 16 = kOpGetChunkReq" .
  have "read_le32 (ingress_descriptor g r) 192 = read_le32 (le32 g @ replicate 28 0) 0"
    using read_le32_skip [of "concat (map le32 ws) @ ingress_packet r" "le32 g @ replicate 28 0" 0] l assms
    unfolding e by (simp add: tail_def)
  then show "read_le32 (ingress_descriptor g r) 192 = g" by simp
qed

lemma descriptor_accepted:
  assumes "request_fits n k r" and "unat k \<le> 128" and "length (gr_key r) = 128"
  shows "ingress_asserts n g (ingress_descriptor g r)"
proof -
  have kl: "1 \<le> gr_key_len r" "gr_key_len r \<le> 128"
    using assms(1,2) by (auto simp: request_fits_def Let_def word_le_nat_alt)
  note b = ingress_packet_bytes_bounds [OF kl]
  have "and (ingress_packet_bytes r) 15 = 0"
    unfolding ingress_packet_bytes_def by (rule bit_word_eqI) (auto simp: bit_simps)
  moreover have "48 \<le> ingress_packet_bytes r" "ingress_packet_bytes r \<le> 176"
    using b by (simp_all add: word_le_nat_alt)
  ultimately show ?thesis
    using assms(1) by (simp add: ingress_asserts_def descriptor_words [OF assms(3)] request_fits_def Let_def
        kGetIngressPacketCapacity_def)
qed

text \<open>The packet that arrives carries the request: its sequence, length, token and key can be read from it.\<close>

lemma sent_reads:
  assumes "1 \<le> gr_key_len r" and "gr_key_len r \<le> 128" and "length (gr_key r) = 128"
  shows "read_le32 (snd (sent r)) 4 = gr_seq r" and "read_le32 (snd (sent r)) 12 = gr_client_token r"
    and "read_le32 (snd (sent r)) 24 = gr_key_len r" and "read_le32 (snd (sent r)) 40 = gr_completion_addr r"
    and "take (unat (gr_key_len r)) (drop 48 (snd (sent r))) = take (unat (gr_key_len r)) (gr_key r)"
proof -
  define ws where "ws = make_get_ingress_packet_header (gr_seq r) (gr_key_len r) (gr_client_token r)
       @ [gr_seq r, 0, gr_key_len r, gr_dram_base r, gr_page_size r, gr_capacity r, gr_completion_addr r,
          kGetCompletionCumulativeV2]"
  define len where "len = unat (ingress_packet_bytes r) - 48"
  have l: "unat (ingress_packet_bytes r) = 48 + len" "unat (gr_key_len r) \<le> len"
    using ingress_packet_bytes_bounds [OF assms(1,2)] by (simp_all add: len_def)
  have w: "length ws = 12" "length (concat (map le32 ws)) = 48"
    by (simp_all add: ws_def make_get_ingress_packet_header_def)
  have e: "snd (sent r) = concat (map le32 ws) @ take len (gr_key r)"
    using assms(3) w by (simp add: sent_def ingress_packet_def l flip: ws_def)
  show "read_le32 (snd (sent r)) 4 = gr_seq r" "read_le32 (snd (sent r)) 12 = gr_client_token r"
    "read_le32 (snd (sent r)) 24 = gr_key_len r" "read_le32 (snd (sent r)) 40 = gr_completion_addr r"
    using read_le32_words [of 1 ws] read_le32_words [of 3 ws] read_le32_words [of 6 ws] read_le32_words [of 10 ws] w
    unfolding e by (simp_all add: ws_def make_get_ingress_packet_header_def)
  show "take (unat (gr_key_len r)) (drop 48 (snd (sent r))) = take (unat (gr_key_len r)) (gr_key r)"
    using l w assms(3) by (simp add: e min_def)
qed

section \<open>The invariant\<close>

definition stored :: "ingress_run \<Rightarrow> get_request \<Rightarrow> nat list \<Rightarrow> bool" where
  "stored s r pend \<longleftrightarrow> (\<forall>i < 224. i \<notin> set pend \<longrightarrow>
     get_ingress_host s ! (ingress_slot s + i) = ingress_descriptor (get_ingress_generation s) r ! i)"

definition request_good :: "u32 \<Rightarrow> u32 \<Rightarrow> get_request \<Rightarrow> bool" where
  "request_good n k r \<longleftrightarrow> request_fits n k r \<and> length (gr_key r) = 128"

text \<open>After the doorbell: the kernel has taken the request, or the completion word is still clear.\<close>

definition rung :: "ingress_run \<Rightarrow> bool" where
  "rung s \<longleftrightarrow> ingress_doorbell s = get_ingress_generation s \<and> in_submitted s \<noteq> []
     \<and> stored s (last (in_submitted s)) [] \<and> length (in_submitted s) = length (in_returned s) + 1
     \<and> (ingress_seen s = ingress_doorbell s \<and> length (in_delivered s) = length (in_submitted s)
        \<or> ingress_doorbell s = ingress_seen s + 1 \<and> length (in_submitted s) = length (in_delivered s) + 1
          \<and> get_completion s = 0)"

fun phase_ok :: "u32 \<Rightarrow> u32 \<Rightarrow> ingress_run \<Rightarrow> host_phase \<Rightarrow> bool" where
  "phase_ok n k s Host_Idle \<longleftrightarrow> ingress_doorbell s = get_ingress_generation s \<and> ingress_seen s = ingress_doorbell s
     \<and> length (in_delivered s) = length (in_submitted s) \<and> length (in_returned s) = length (in_submitted s)"
| "phase_ok n k s (Host_Storing r pend) \<longleftrightarrow> get_ingress_generation s = ingress_doorbell s + 1
     \<and> ingress_seen s = ingress_doorbell s \<and> length (in_delivered s) = length (in_submitted s)
     \<and> length (in_returned s) = length (in_submitted s) \<and> get_completion s = 0
     \<and> request_good n k r \<and> set pend \<subseteq> {..<224} \<and> stored s r pend"
| "phase_ok n k s Host_Waiting \<longleftrightarrow> rung s"
| "phase_ok n k s Host_Failed \<longleftrightarrow> rung s"

definition delivered_ok :: "(u32 \<times> byte list) list \<Rightarrow> get_request list \<Rightarrow> bool" where
  "delivered_ok ds rs \<longleftrightarrow> ds = map sent (take (length ds) rs)"

definition ingress_inv :: "u32 \<Rightarrow> u32 \<Rightarrow> ingress_run \<Rightarrow> bool" where
  "ingress_inv n k s \<longleftrightarrow> length (get_ingress_host s) = 448 \<and> (\<forall>r \<in> set (in_submitted s). request_good n k r)
     \<and> delivered_ok (in_delivered s) (in_submitted s) \<and> phase_ok n k s (in_phase s)"

lemma ingress_invD:
  assumes "ingress_inv n k s"
  shows "length (get_ingress_host s) = 448" and "\<And>r. r \<in> set (in_submitted s) \<Longrightarrow> request_good n k r"
    and "phase_ok n k s (in_phase s)"
  using assms unfolding ingress_inv_def by blast+

lemma ahead_next [simp]: "cumulative_counter_is_ahead (g + 1) g" "\<not> cumulative_counter_is_ahead g g"
  by (simp_all add: cumulative_counter_is_ahead_def Let_def)

lemma ingress_slot_bound: "ingress_slot s + 224 \<le> 448"
proof -
  have "unat (get_ingress_generation s mod 2) < 2" by (simp add: unat_mod)
  then show ?thesis by (simp add: ingress_slot_def kGetIngressDescriptorSlots_def kGetIngressDescriptorBytes_def)
qed

lemma fetched_stored:
  assumes "length (get_ingress_host s) = 448" and "ingress_doorbell s = get_ingress_generation s"
    and "stored s r []" and "length (gr_key r) = 128"
  shows "fetched s = ingress_descriptor (get_ingress_generation s) r"
proof (rule nth_equalityI)
  have o: "unat (ingress_doorbell s mod kGetIngressDescriptorSlots) * kGetIngressDescriptorBytes = ingress_slot s"
    by (simp add: ingress_slot_def assms(2))
  show l: "length (fetched s) = length (ingress_descriptor (get_ingress_generation s) r)"
    using ingress_slot_bound [of s] assms(1,4) unfolding fetched_def o by (simp add: kGetIngressDescriptorBytes_def)
  fix i assume "i < length (fetched s)"
  then have "i < 224" using l assms(4) by simp
  then show "fetched s ! i = ingress_descriptor (get_ingress_generation s) r ! i"
    using ingress_slot_bound [of s] assms(1,3) unfolding fetched_def o
    by (simp add: stored_def kGetIngressDescriptorBytes_def)
qed

lemma ingress_rings_phase:
  assumes "ingress_inv n k s" and "ingress_rings s"
  shows "rung s \<and> in_phase s \<in> {Host_Waiting, Host_Failed} \<and> ingress_doorbell s = ingress_seen s + 1
    \<and> length (in_submitted s) = length (in_delivered s) + 1"
proof -
  have "phase_ok n k s (in_phase s)" by (rule ingress_invD(3) [OF assms(1)])
  then show ?thesis using assms(2) by (cases "in_phase s") (auto simp: ingress_rings_def rung_def)
qed

lemma ingress_asserts_hold:
  assumes "ingress_inv n k s" and "unat k \<le> 128" and "ingress_rings s"
  shows "ingress_asserts n (ingress_doorbell s) (fetched s)"
    and "fetched s = ingress_descriptor (ingress_doorbell s) (last (in_submitted s))"
proof -
  have r: "rung s" using ingress_rings_phase [OF assms(1,3)] by simp
  then have "last (in_submitted s) \<in> set (in_submitted s)" by (simp add: rung_def)
  then have g: "request_good n k (last (in_submitted s))" and h: "length (get_ingress_host s) = 448"
    using ingress_invD [OF assms(1)] by blast+
  have "ingress_doorbell s = get_ingress_generation s" "stored s (last (in_submitted s)) []"
    using r by (auto simp: rung_def)
  then show f: "fetched s = ingress_descriptor (ingress_doorbell s) (last (in_submitted s))"
    using g fetched_stored [OF h] by (simp add: request_good_def)
  show "ingress_asserts n (ingress_doorbell s) (fetched s)"
    using g unfolding f request_good_def by (intro descriptor_accepted [OF _ assms(2)]) auto
qed

lemma take_memcpy_front: "length p = m \<Longrightarrow> take m (memcpy 0 p xs) = p"
  by (simp add: memcpy_def)

lemma ingress_taken_run:
  assumes "ingress_inv n k s" and "unat k \<le> 128" and "ingress_rings s"
  shows "in_delivered (ingress_taken s) = in_delivered s @ [sent (last (in_submitted s))]"
    and "ingress_seen (ingress_taken s) = ingress_doorbell s"
    and "get_ingress_host (ingress_taken s) = get_ingress_host s" and "ingress_doorbell (ingress_taken s) = ingress_doorbell s"
    and "get_ingress_generation (ingress_taken s) = get_ingress_generation s" and "in_phase (ingress_taken s) = in_phase s"
    and "in_submitted (ingress_taken s) = in_submitted s" and "in_returned (ingress_taken s) = in_returned s"
    and "get_completion (ingress_taken s) = get_completion s"
proof -
  define r where "r = last (in_submitted s)"
  have g: "request_good n k r"
    using ingress_invD(2) [OF assms(1)] ingress_rings_phase [OF assms(1,3)] last_in_set [of "in_submitted s"]
    by (simp add: r_def rung_def)
  then have l: "length (gr_key r) = 128" by (simp add: request_good_def)
  have "1 \<le> gr_key_len r" "gr_key_len r \<le> 128"
    using g assms(2) by (auto simp: request_good_def request_fits_def Let_def word_le_nat_alt)
  note b = ingress_packet_bytes_bounds [OF this]
  have f: "fetched s = ingress_descriptor (ingress_doorbell s) r"
    using ingress_asserts_hold(2) [OF assms] by (simp add: r_def)
  have p: "take (unat (ingress_packet_bytes r)) (drop 16 (ingress_descriptor g r)) =
      take (unat (ingress_packet_bytes r)) (ingress_packet r)" for g
    using b(3) l by (simp add: descriptor_words(6) [OF l])
  show "in_delivered (ingress_taken s) = in_delivered s @ [sent (last (in_submitted s))]"
    using assms(3) b(3) l unfolding r_def [symmetric]
    by (simp add: ingress_taken_def ingress_poll_def f descriptor_words(2,3) [OF l] p sent_def take_memcpy_front Let_def)
  show "ingress_seen (ingress_taken s) = ingress_doorbell s"
    "get_ingress_host (ingress_taken s) = get_ingress_host s" "ingress_doorbell (ingress_taken s) = ingress_doorbell s"
    "get_ingress_generation (ingress_taken s) = get_ingress_generation s" "in_phase (ingress_taken s) = in_phase s"
    "in_submitted (ingress_taken s) = in_submitted s" "in_returned (ingress_taken s) = in_returned s"
    "get_completion (ingress_taken s) = get_completion s"
    using assms(3) by (simp_all add: ingress_taken_def ingress_poll_def Let_def)
qed

lemma ingress_taken_idle: "\<not> ingress_rings s \<Longrightarrow> ingress_taken s = s"
  by (simp add: ingress_taken_def)

lemma ingress_inv_start: "ingress_inv n k (ingress_start c rings)"
  by (simp add: ingress_inv_def ingress_start_def delivered_ok_def)

lemma ingress_slot_update [simp]:
  "ingress_slot (s\<lparr>get_ingress_host := x, in_phase := h\<rparr>) = ingress_slot s"
  "ingress_slot (s\<lparr>ingress_doorbell := x', in_phase := h, in_submitted := y\<rparr>) = ingress_slot s"
  by (simp_all add: ingress_slot_def)

lemma delivered_ok_snoc:
  "delivered_ok ds rs \<Longrightarrow> length ds = length rs \<Longrightarrow> delivered_ok ds (rs @ [r])"
  by (simp add: delivered_ok_def)

lemma delivered_ok_take:
  assumes "delivered_ok ds rs" and "length rs = length ds + 1"
  shows "delivered_ok (ds @ [sent (last rs)]) rs"
proof -
  obtain bs l where rs: "rs = bs @ [l]" using assms(2) by (cases rs rule: rev_cases) auto
  then have n: "length bs = length ds" using assms(2) by simp
  then have "take (length ds) rs = bs" by (simp add: rs)
  then have "ds = map sent bs" using assms(1) by (simp only: delivered_ok_def)
  then show ?thesis by (simp add: delivered_ok_def rs)
qed

lemma ingress_inv_poll:
  assumes "ingress_inv n k s" and "unat k \<le> 128"
  shows "ingress_inv n k (ingress_taken s)"
proof (cases "ingress_rings s")
  case True
  note run = ingress_taken_run [OF assms True]
  note ph = ingress_rings_phase [OF assms(1) True]
  have "stored (ingress_taken s) r [] \<longleftrightarrow> stored s r []" for r
    by (simp add: stored_def ingress_slot_def run)
  then have "rung (ingress_taken s)" using ph by (auto simp: rung_def run)
  then have "phase_ok n k (ingress_taken s) (in_phase (ingress_taken s))" using ph run(6) by auto
  moreover have "delivered_ok (in_delivered (ingress_taken s)) (in_submitted (ingress_taken s))"
    unfolding run using assms(1) ph by (intro delivered_ok_take) (auto simp: ingress_inv_def)
  ultimately show ?thesis using ingress_invD [OF assms(1)] by (simp add: ingress_inv_def run)
qed (simp add: ingress_taken_idle assms(1))

lemma ingress_inv_step:
  assumes "ingress_step n k s t" and "ingress_inv n k s" and "unat k \<le> 128"
  shows "ingress_inv n k t"
  using assms(1)
proof cases
  case (start r)
  then show ?thesis using assms(2) by (auto simp: ingress_inv_def request_good_def stored_def kGetIngressDescriptorBytes_def)
next
  case (store r pend i)
  have p: "phase_ok n k s (Host_Storing r pend)" using ingress_invD(3) [OF assms(2)] store by simp
  then have "i < 224" using store(3) by auto
  then have "stored t r (removeAll i pend)"
    using p ingress_slot_bound [of s] ingress_invD(1) [OF assms(2)] unfolding store
    by (auto simp: stored_def nth_list_update)
  then show ?thesis using p assms(2) store by (auto simp: ingress_inv_def stored_def)
next
  case (ring r)
  have p: "phase_ok n k s (Host_Storing r [])" using ingress_invD(3) [OF assms(2)] ring by simp
  then have "rung t" by (auto simp: rung_def ring stored_def)
  then show ?thesis using p assms(2) ring by (auto simp: ingress_inv_def delivered_ok_snoc)
next
  case poll
  then show ?thesis using ingress_inv_poll [OF assms(2,3)] by simp
next
  case (complete raw)
  have "phase_ok n k s (in_phase s)" by (rule ingress_invD(3) [OF assms(2)])
  then have "phase_ok n k t (in_phase t)"
    using complete by (cases "in_phase s") (auto simp: rung_def stored_def ingress_slot_def)
  then show ?thesis using assms(2) complete by (simp add: ingress_inv_def)
next
  case (finish g p v)
  have "rung s" using ingress_invD(3) [OF assms(2)] finish by simp
  moreover have "get_completion s \<noteq> 0"
    using finish by (auto simp: wait_for_mapped_get_completion_def Let_def split: if_splits option.splits)
  ultimately show ?thesis using assms(2) finish by (auto simp: ingress_inv_def rung_def)
next
  case fail
  then have "rung s" using ingress_invD(3) [OF assms(2)] by simp
  then show ?thesis using assms(2) fail by (auto simp: ingress_inv_def rung_def stored_def ingress_slot_def)
qed

lemma ingress_inv_reach: "ingress_reach n k c rings s \<Longrightarrow> unat k \<le> 128 \<Longrightarrow> ingress_inv n k s"
  by (induction rule: ingress_reach.induct) (auto intro: ingress_inv_start ingress_inv_step)

text \<open>
  C14: the mapped GET ingress delivers every request once, whole and in order. Whatever the interleaving of the
  host's stores with the kernel's polls, and wherever the generation counter starts: what the kernel has
  put into the request ring are the packets of the first requests submitted, all of them but at most the
  last; no call has returned that the kernel had not taken; and whenever the kernel finds the doorbell
  rung, the descriptor it reads passes all its assertions.
\<close>

theorem ingress_delivers_in_order:
  assumes "ingress_reach n k c rings s" and "unat k \<le> 128"
  shows "in_delivered s = map sent (take (length (in_delivered s)) (in_submitted s))
    \<and> length (in_submitted s) \<le> length (in_delivered s) + 1
    \<and> length (in_returned s) \<le> length (in_delivered s)
    \<and> (ingress_rings s \<longrightarrow> ingress_asserts n (ingress_doorbell s) (fetched s))"
proof (intro conjI impI)
  note inv = ingress_inv_reach [OF assms]
  show "in_delivered s = map sent (take (length (in_delivered s)) (in_submitted s))"
    using inv by (simp only: ingress_inv_def delivered_ok_def)
  show "length (in_submitted s) \<le> length (in_delivered s) + 1" "length (in_returned s) \<le> length (in_delivered s)"
    using ingress_invD(3) [OF inv] by (cases "in_phase s", auto simp: rung_def)+
  show "ingress_asserts n (ingress_doorbell s) (fetched s)" if "ingress_rings s"
    by (rule ingress_asserts_hold(1) [OF inv assms(2) that])
qed

section \<open>The call and its steps\<close>

text \<open>The state machine can make the stores of one call, and then holds what the call leaves.\<close>

lemma memcpy_stores:
  assumes "off + length d \<le> length h"
  shows "m \<le> length d \<Longrightarrow> fold (\<lambda>i x. x[off + i := d ! i]) [0 ..< m] h = memcpy off (take m d) h"
proof (induction m)
  case 0 show ?case by (simp add: memcpy_def)
next
  case (Suc m)
  have "(memcpy off (take m d) h)[off + m := d ! m] = memcpy off (take (Suc m) d) h"
  proof (rule nth_equalityI)
    fix i assume "i < length ((memcpy off (take m d) h)[off + m := d ! m])"
    then show "(memcpy off (take m d) h)[off + m := d ! m] ! i = memcpy off (take (Suc m) d) h ! i"
      using Suc.prems assms by (cases "i = off + m"; cases "i < off + m") (auto simp: nth_list_update nth_memcpy min_def)
  qed (use Suc.prems assms in \<open>simp add: min_def\<close>)
  then show ?case using Suc by simp
qed

lemma reach_stores:
  "ingress_reach n k c rings s \<Longrightarrow> in_phase s = Host_Storing r pend \<Longrightarrow> distinct pend \<Longrightarrow>
   ingress_reach n k c rings (s\<lparr>get_ingress_host :=
       fold (\<lambda>i x. x[ingress_slot s + i := ingress_descriptor (get_ingress_generation s) r ! i]) pend (get_ingress_host s),
     in_phase := Host_Storing r []\<rparr>)"
proof (induction pend arbitrary: s)
  case Nil
  have "s\<lparr>in_phase := Host_Storing r []\<rparr> = s" using Nil(2) by (cases s) simp
  then have "ingress_reach n k c rings (s\<lparr>in_phase := Host_Storing r []\<rparr>)" using Nil(1) by (simp only:)
  then show ?case by simp
next
  case (Cons i pend)
  let ?t = "s\<lparr>get_ingress_host :=
        (get_ingress_host s)[ingress_slot s + i := ingress_descriptor (get_ingress_generation s) r ! i],
      in_phase := Host_Storing r (removeAll i (i # pend))\<rparr>"
  have "ingress_reach n k c rings ?t"
    using Cons.prems by (intro steps [OF Cons.prems(1)] ingress_step.store) auto
  moreover have "removeAll i (i # pend) = pend" using Cons.prems(3) by simp
  ultimately show ?case using Cons.IH [of ?t] Cons.prems(3) by simp
qed

theorem submit_reaches:
  assumes "ingress_reach n k c rings s" and "in_phase s = Host_Idle" and "unat k \<le> 128"
    and "request_fits n k r" and "length (gr_key r) = 128" and "mapped_ingress (scalar_get_mode_of p)"
  shows "\<exists>t. seqE (prepare_mapped_get_completion p) (submit_mapped_get_ingress p n k r) s = (Inr (), t)
    \<and> ingress_reach n k c rings (t\<lparr>in_phase := Host_Waiting, in_submitted := in_submitted s @ [r]\<rparr>)"
proof -
  let ?s = "s\<lparr>get_completion := 0, get_ingress_generation := get_ingress_generation s + 1,
      in_phase := Host_Storing r [0 ..< 224]\<rparr>"
  let ?d = "ingress_descriptor (get_ingress_generation s + 1) r"
  have "ingress_reach n k c rings ?s"
    using steps [OF assms(1) ingress_step.start [OF assms(2,4,5)]] by (simp add: kGetIngressDescriptorBytes_def)
  note st = reach_stores [OF this, of r "[0 ..< 224]"]
  have l: "length (get_ingress_host s) = 448" by (rule ingress_invD(1) [OF ingress_inv_reach [OF assms(1,3)]])
  let ?o = "unat ((get_ingress_generation s + 1) mod kGetIngressDescriptorSlots) * kGetIngressDescriptorBytes"
  have slot: "ingress_slot ?s = ?o" by (simp add: ingress_slot_def)
  have m: "fold (\<lambda>i x. x[?o + i := ?d ! i]) [0 ..< 224] (get_ingress_host s) = memcpy ?o ?d (get_ingress_host s)"
    using memcpy_stores [of ?o ?d "get_ingress_host s" 224] ingress_slot_bound [of ?s] l assms(5) slot by simp
  let ?t = "s\<lparr>get_completion := 0, get_ingress_generation := get_ingress_generation s + 1,
      get_ingress_host := memcpy ?o ?d (get_ingress_host s), in_phase := Host_Storing r []\<rparr>"
  have t: "ingress_reach n k c rings ?t" using st m slot by simp
  have "ingress_reach n k c rings (?t\<lparr>ingress_doorbell := get_ingress_generation ?t, in_phase := Host_Waiting,
      in_submitted := in_submitted ?t @ [r]\<rparr>)"
    by (rule steps [OF t ingress_step.ring]) simp
  moreover have "mapped_completion (scalar_get_mode_of p)"
    using assms(6) by (simp add: scalar_get_mode_of_def Let_def)
  ultimately show ?thesis using assms(4,6)
    by (cases s) (simp add: prepare_mapped_get_completion_def submit_mapped_get_ingress_def seqE_def bindE_def modify_def gets_def
        Let_def)
qed

definition demo_get :: get_request where
  "demo_get = \<lparr>gr_ring_slot = 3, gr_client_token = make_client_token 1 9, gr_seq = 17, gr_key_len = 5,
     gr_key = replicate 128 7, gr_dram_base = 65536, gr_page_size = 2048, gr_capacity = 4096,
     gr_completion_addr = 1024\<rparr>"

lemma demo_get_fits: "request_fits 64 128 demo_get"
  by code_simp

text \<open>A request submitted at the wrap-around of the generation, and taken.\<close>

lemma demo_ingress_reach:
  "\<exists>s. ingress_reach 64 128 4294967295 (\<lambda>_. []) s \<and> in_submitted s = [demo_get] \<and> length (in_delivered s) = 1"
proof -
  have z: "ingress_reach 64 128 4294967295 (\<lambda>_. []) (ingress_start 4294967295 (\<lambda>_. []))" by (rule begins)
  obtain t where t: "ingress_reach 64 128 4294967295 (\<lambda>_. []) t" "in_phase t = Host_Waiting" "in_submitted t = [demo_get]"
    "ingress_doorbell t = 0" "ingress_seen t = 4294967295" "in_delivered t = []"
    using submit_reaches [OF z, of demo_get "\<lparr>completion_enabled = True, completion_host_ptr = True,
      ingress_enabled = True, ingress_host_ptr = True, ingress_l1 = True\<rparr>"] demo_get_fits
    by (auto simp: scalar_get_mode_of_def ingress_start_def demo_get_def prepare_mapped_get_completion_def submit_mapped_get_ingress_def
        seqE_def bindE_def modify_def gets_def check_def ret_def throw_def Let_def split: if_splits)
  have i: "ingress_inv 64 128 t" using t(1) by (rule ingress_inv_reach) simp
  have r: "ingress_rings t" by (simp add: ingress_rings_def t cumulative_counter_is_ahead_def)
  have "ingress_reach 64 128 4294967295 (\<lambda>_. []) (ingress_taken t)" by (rule steps [OF t(1) ingress_step.poll])
  then show ?thesis
    using ingress_taken_run(1,7) [OF i _ r] t by (intro exI [of _ "ingress_taken t"]) simp
qed

theorem ingress_delivers_in_order_witness:
  "\<exists>s. ingress_reach 64 128 4294967295 (\<lambda>_. []) s \<and> in_delivered s = [sent demo_get]"
proof -
  obtain s where s: "ingress_reach 64 128 4294967295 (\<lambda>_. []) s" "in_submitted s = [demo_get]" "length (in_delivered s) = 1"
    using demo_ingress_reach by blast
  have "in_delivered s = map sent (take (length (in_delivered s)) (in_submitted s))"
    using ingress_delivers_in_order [OF s(1)] by simp
  then have "in_delivered s = [sent demo_get]" unfolding s(2,3) by simp
  then show ?thesis using s(1) by blast
qed

end
