(* ===== verification/Mux_Service.thy ===== *)
theory Mux_Service
  imports Device_Runtime
begin

text \<open>
  The servers of a static inter-mesh endpoint that share one persistent workload
  (\<^verbatim>\<open>StaticIntermeshMuxService\<close> and its users in \<^verbatim>\<open>server_program.cpp\<close>, \<^verbatim>\<open>server.cpp\<close> and
  \<^verbatim>\<open>server_device_runtime.cpp\<close>), for the external host policy, which the public server uses. A shard is one
  \<^verbatim>\<open>ServerDeviceRuntime\<close> with its core; a number names one object for good. The service lives while
  a shard or a quarantine holder refers to it (the registry keeps a weak reference); with it go its
  workload and the resources retired into it. Each call is one step, since it holds the service's mutex
  while it uses the service. What the device answers is an argument. \<open>running_program\<close> is a ghost: the shards
  whose kernels, and so whose device memory, the workload being executed uses.
\<close>

section \<open>The state\<close>

text \<open>Where the device allocations of a shard are: in its members, in the service, in a quarantine holder, or released.\<close>

datatype residence = Unreserved | Held | Retired | Parked | Freed

record shard =
  sh_alive :: bool
  sh_group :: u32
  sh_lifecycle :: core_lifecycle
  sh_phase :: runtime_phase
  sh_service :: bool
  sh_holder :: bool
  sh_launch_may_have_started :: bool
  sh_workload_running :: bool
  sh_termination_signalled :: bool
  sh_cancelled :: bool

record mux_world =
  mux_exists :: bool
  mx_shard_count :: u32
  mx_servers :: "nat list"
  mx_program :: "nat list"
  mx_retired :: "nat list"
  mx_terminated :: u32
  mx_prepared :: bool
  mx_preparation_failed :: bool
  mx_workload :: bool
  mx_launched :: bool
  shards :: "nat \<Rightarrow> shard"
  known_shards :: "nat list"
  residence_of :: "nat \<Rightarrow> residence"
  parked_mux :: bool
  running_program :: "nat list"

definition on_shard :: "nat \<Rightarrow> (shard \<Rightarrow> shard) \<Rightarrow> (mux_world, unit) io" where
  "on_shard i f = modify (\<lambda>s. s\<lparr>shards := (shards s)(i := f (shards s i))\<rparr>)"

definition move_resources :: "nat \<Rightarrow> residence \<Rightarrow> (mux_world, unit) io" where
  "move_resources i r = modify (\<lambda>s. s\<lparr>residence_of := (residence_of s)(i := r)\<rparr>)"

text \<open>The last reference to the service is gone: its workload and what was retired into it go with it.\<close>

definition release_unreferenced_mux :: "(mux_world, unit) io" where
  "release_unreferenced_mux =
     modify (\<lambda>s. if parked_mux s \<or> (\<exists>j \<in> set (known_shards s). sh_service (shards s j)) then s
       else s\<lparr>mux_exists := False, mx_workload := False, mx_retired := [],
              residence_of := (\<lambda>j. if j \<in> set (mx_retired s) then Freed else residence_of s j)\<rparr>)"

definition drop_service :: "nat \<Rightarrow> (mux_world, unit) io" where
  "drop_service i = seqE (on_shard i (sh_service_update (\<lambda>_. False))) release_unreferenced_mux"

section \<open>Preparation\<close>

definition kMuxLinks :: u32 where "kMuxLinks = 2"

definition mux_lane_channels :: "u32 \<Rightarrow> u32 \<Rightarrow> u32" where
  "mux_lane_channels shard_count lane = (shard_count + (kMuxLinks - 1 - lane)) div kMuxLinks"

definition create_mux_service :: "u32 \<Rightarrow> fault option \<Rightarrow> (mux_world, unit) io" where
  "create_mux_service shard_count platform =
     seqE (check (kMuxLinks \<le> shard_count) (Fatal ''dual-link KVM MUX requires at least two Server shards''))
    (seqE (raise_if platform)
    (seqE (forE [0, 1] (\<lambda>lane. check (0 < mux_lane_channels shard_count lane \<and> mux_lane_channels shard_count lane \<le> 4)
             (Fatal ''KVM MUX lane has invalid channel count'')))
          (modify (\<lambda>s. s\<lparr>mux_exists := True, mx_shard_count := shard_count, mx_servers := [], mx_program := [],
             mx_retired := [], mx_terminated := 0, mx_prepared := False, mx_preparation_failed := False,
             mx_workload := False, mx_launched := False\<rparr>))))"

text \<open>What the platform answers while the shared program is prepared.\<close>

record prepare_answers =
  pr_links :: bool
  pr_platform :: "fault option"
  pr_append :: "fault option"
  pr_compile :: "fault option"

text \<open>The last shard compiles the program of all of them.\<close>

definition seal_shared_program :: "nat \<Rightarrow> u32 \<Rightarrow> prepare_answers \<Rightarrow> (mux_world, unit) io" where
  "seal_shared_program i shard_count pa =
     seqE (modify (\<lambda>s. s\<lparr>mx_servers := mx_servers s @ [i]\<rparr>))
    (bindE (gets (\<lambda>s. length (mx_servers s))) (\<lambda>n.
     if n < unat shard_count then ret ()
     else
       seqE (check (n = unat shard_count) (Fatal ''shared KVM MUX program expected another number of shards''))
            (catchE
               (seqE (raise_if (pr_compile pa))
                     (modify (\<lambda>s. s\<lparr>mx_workload := True, mx_prepared := True\<rparr>)))
               (\<lambda>e. seqE (modify (\<lambda>s. s\<lparr>mx_preparation_failed := True,
                                  mx_servers := removeAll i (mx_servers s)\<rparr>)) (throw e)))))"

text \<open>The part of the preparation after which the shared program cannot be reused when it throws.\<close>

definition append_shard :: "nat \<Rightarrow> u32 \<Rightarrow> prepare_answers \<Rightarrow> (mux_world, unit) io" where
  "append_shard i shard_count pa =
     catchE
       (seqE (modify (\<lambda>s. s\<lparr>mx_program := mx_program s @ [i]\<rparr>))
       (seqE (raise_if (pr_append pa))
             (seal_shared_program i shard_count pa)))
       (\<lambda>e. seqE (modify (mx_preparation_failed_update (\<lambda>_. True))) (throw e))"

definition prepare_shared_program :: "nat \<Rightarrow> u32 \<Rightarrow> prepare_answers \<Rightarrow> (mux_world, unit) io" where
  "prepare_shared_program i shard_count pa =
     bindE (gets (\<lambda>s. (mux_exists s, sh_group (shards s i)))) (\<lambda>(exists, wg).
     seqE (check (wg < shard_count) (Fatal ''static intermesh KVM Server worker group is outside the configured shards''))
    (seqE (check (pr_links pa) (Fatal ''multi-shard static intermesh KVM requires exactly two endpoint links''))
    (seqE (whenE (\<not> exists) (create_mux_service shard_count (pr_platform pa)))
    (seqE (on_shard i (sh_service_update (\<lambda>_. True)))
    (bindE (gets (\<lambda>s. s)) (\<lambda>s.
     seqE (check (mx_shard_count s = shard_count) (Fatal ''all KVM Server shards must agree on T3KNIC_SERVER_SHARDS''))
    (seqE (check (\<not> mx_preparation_failed s) (Fatal ''the shared KVM MUX program cannot be reused''))
    (seqE (check (\<not> mx_prepared s \<and> \<not> mx_launched s)
             (Fatal ''cannot append a KVM Server shard after the shared MUX program was prepared''))
          (append_shard i shard_count pa)))))))))"

definition blank_shard :: "u32 \<Rightarrow> shard" where
  "blank_shard wg =
     \<lparr>sh_alive = True, sh_group = wg, sh_lifecycle = Core_Constructing, sh_phase = Prepared, sh_service = False, sh_holder = True,
      sh_launch_may_have_started = False, sh_workload_running = False, sh_termination_signalled = False,
      sh_cancelled = False\<rparr>"

text \<open>
  The constructor of a runtime of the external policy: it never launches, so a failure releases what was
  reserved and drops the reference to the service.
\<close>

definition create_shard :: "nat \<Rightarrow> u32 \<Rightarrow> u32 \<Rightarrow> prepare_answers \<Rightarrow> (mux_world, unit) io" where
  "create_shard i wg shard_count pa =
     seqE (modify (\<lambda>s. s\<lparr>known_shards := i # known_shards s\<rparr>))
    (seqE (on_shard i (\<lambda>_. blank_shard wg))
    (seqE (move_resources i Held)
          (catchE (prepare_shared_program i shard_count pa)
             (\<lambda>e. seqE (on_shard i (\<lambda>x. x\<lparr>sh_alive := False, sh_holder := False\<rparr>))
                  (seqE (move_resources i Freed) (seqE (drop_service i) (throw e)))))))"

section \<open>Quarantine\<close>

definition quarantine_shard :: "nat \<Rightarrow> (mux_world, unit) io" where
  "quarantine_shard i =
     bindE (gets (\<lambda>s. shards s i)) (\<lambda>sh.
     whenE (sh_holder sh)
       (seqE (on_shard i (\<lambda>x. x\<lparr>sh_holder := False, sh_service := False\<rparr>))
       (seqE (modify (\<lambda>s. s\<lparr>parked_mux := (parked_mux s \<or> sh_service sh)\<rparr>))
             (move_resources i Parked))))"

definition quarantine_external_shard :: "nat \<Rightarrow> (mux_world, unit) io" where
  "quarantine_external_shard i =
     seqE (on_shard i (\<lambda>x. x\<lparr>sh_cancelled := True, sh_workload_running := False, sh_lifecycle := Core_Quarantined\<rparr>))
          (quarantine_shard i)"

section \<open>Launch\<close>

text \<open>Enqueueing: whether the workload may have reached the device, and the exception if one was thrown.\<close>

definition launch_shared_workload :: "nat \<Rightarrow> bool \<times> fault option \<Rightarrow> (mux_world, unit) io" where
  "launch_shared_workload i enqueue =
     bindE (gets (\<lambda>s. s)) (\<lambda>s.
     if \<not> mx_prepared s then ret ()
     else
       seqE (check (\<not> mx_preparation_failed s) (Fatal ''the shared KVM MUX program became unusable before launch''))
      (seqE (check (length (mx_servers s) = unat (mx_shard_count s))
               (Fatal ''shared KVM MUX launch expected another number of live shards''))
      (if mx_launched s then ret ()
       else
         seqE (check (mx_workload s) (Fatal ''shared KVM MUX workload was not prepared''))
        (seqE (forE (mx_servers s) (\<lambda>j. on_shard j (sh_launch_may_have_started_update (\<lambda>_. True))))
        (seqE (modify (\<lambda>s. if snd enqueue = None \<or> fst enqueue then s\<lparr>running_program := mx_program s\<rparr> else s))
        (seqE (catchE
                 (seqE (raise_if (snd enqueue)) (modify (mx_launched_update (\<lambda>_. True))))
                 (\<lambda>e. seqE (forE (mx_servers s) quarantine_external_shard) (throw e)))
              (forE (mx_servers s) (\<lambda>j. on_shard j (sh_workload_running_update (\<lambda>_. True)))))))))) "

definition launch_external_shard :: "nat \<Rightarrow> bool \<times> fault option \<Rightarrow> (mux_world, unit) io" where
  "launch_external_shard i enqueue =
     bindE (gets (\<lambda>s. sh_lifecycle (shards s i))) (\<lambda>state.
     seqE (check (state = Core_Constructing)
             (Fatal ''external ServerRuntimeCore runtime can launch only from its prepared state''))
    (seqE (on_shard i (sh_cancelled_update (\<lambda>_. False)))
    (seqE (catchE (launch_shared_workload i enqueue)
             (\<lambda>e. bindE (gets (\<lambda>s. sh_launch_may_have_started (shards s i))) (\<lambda>may.
                seqE (whenE may (seqE (on_shard i (sh_lifecycle_update (\<lambda>_. Core_Quarantined))) (quarantine_shard i)))
                     (throw e))))
          (on_shard i (sh_lifecycle_update (\<lambda>_. Core_Ready))))))"

definition launch_shard :: "nat \<Rightarrow> bool \<times> fault option \<Rightarrow> (mux_world, unit) io" where
  "launch_shard i enqueue =
     bindE (gets (\<lambda>s. sh_phase (shards s i))) (\<lambda>phase.
     seqE (check (phase = Prepared) (Fatal ''ServerDeviceRuntime can launch only from Prepared''))
    (seqE (catchE (launch_external_shard i enqueue)
             (\<lambda>e. seqE (on_shard i (\<lambda>x. if sh_lifecycle x = Core_Quarantined then x\<lparr>sh_phase := Runtime_Quarantined\<rparr> else x))
                       (throw e)))
          (on_shard i (sh_phase_update (\<lambda>_. Running)))))"

section \<open>Termination\<close>

record terminate_answers =
  tm_signal :: "fault option"
  tm_finish :: "fault option"

definition terminate_shared_workload :: "nat \<Rightarrow> terminate_answers \<Rightarrow> (mux_world, unit) io" where
  "terminate_shared_workload i ta =
     bindE (gets (\<lambda>s. (sh_service (shards s i), mx_launched s))) (\<lambda>(service, launched).
     if \<not> service then ret ()
     else if \<not> launched then
       seqE (on_shard i (sh_workload_running_update (\<lambda>_. False)))
            (modify (\<lambda>s. s\<lparr>mx_preparation_failed := True, mx_servers := remove1 i (mx_servers s)\<rparr>))
     else
       bindE (gets (\<lambda>s. sh_termination_signalled (shards s i))) (\<lambda>signalled.
       seqE (whenE (\<not> signalled)
               (seqE (raise_if (tm_signal ta))
               (seqE (on_shard i (sh_termination_signalled_update (\<lambda>_. True)))
                     (modify (\<lambda>s. s\<lparr>mx_terminated := mx_terminated s + 1\<rparr>)))))
      (seqE (on_shard i (sh_workload_running_update (\<lambda>_. False)))
      (bindE (gets (\<lambda>s. s)) (\<lambda>s.
       seqE (check (mx_terminated s \<le> mx_shard_count s)
               (Fatal ''shared KVM Server shard termination count exceeded its shard count''))
            (whenE (mx_terminated s = mx_shard_count s \<and> mx_workload s)
               (seqE (raise_if (tm_finish ta))
                     (modify (\<lambda>s. s\<lparr>running_program := [], mx_workload := False, mx_retired := [], mx_launched := False,
                        residence_of := (\<lambda>j. if j \<in> set (mx_retired s) then Freed else residence_of s j)\<rparr>)))))))))"

definition terminate_external_shard :: "nat \<Rightarrow> terminate_answers \<Rightarrow> (mux_world, unit) io" where
  "terminate_external_shard i ta =
     bindE (gets (\<lambda>s. sh_lifecycle (shards s i))) (\<lambda>state.
     if state = Core_Closed \<or> state = Core_Quarantined then ret ()
     else
       seqE (check (state = Core_Ready \<or> state = Core_Closing)
               (Fatal ''external ServerRuntimeCore runtime cannot terminate from its current lifecycle state''))
      (seqE (on_shard i (sh_lifecycle_update (\<lambda>_. Core_Closing)))
            (terminate_shared_workload i ta)))"

definition terminate_shard :: "nat \<Rightarrow> terminate_answers \<Rightarrow> (mux_world, unit) io" where
  "terminate_shard i ta =
     bindE (gets (\<lambda>s. sh_phase (shards s i))) (\<lambda>phase.
     if phase = Terminated \<or> phase = Runtime_Quarantined then ret ()
     else
       seqE (check (phase = Running \<or> phase = Runtime_Closing)
               (Fatal ''ServerDeviceRuntime can terminate only from Running or Closing''))
      (seqE (on_shard i (sh_phase_update (\<lambda>_. Runtime_Closing)))
      (seqE (terminate_external_shard i ta)
            (on_shard i (\<lambda>x. x\<lparr>sh_cancelled := True, sh_phase := Terminated\<rparr>)))))"

section \<open>Release\<close>

text \<open>The resources go into the service while it has a workload; otherwise they are released at the end of the call.\<close>

definition retire_into_service :: "nat \<Rightarrow> (mux_world, unit) io" where
  "retire_into_service i =
     bindE (gets mx_workload) (\<lambda>workload.
     if workload
     then seqE (modify (\<lambda>s. s\<lparr>mx_retired := i # mx_retired s\<rparr>)) (move_resources i Retired)
     else move_resources i Freed)"

definition preserve_kernel_resources :: "nat \<Rightarrow> (mux_world, unit) io" where
  "preserve_kernel_resources i =
     bindE (gets (\<lambda>s. sh_service (shards s i) \<and> sh_holder (shards s i))) (\<lambda>preserves.
     whenE preserves (seqE (on_shard i (sh_holder_update (\<lambda>_. False))) (retire_into_service i)))"

definition release_external_shard :: "nat \<Rightarrow> (mux_world, unit) io" where
  "release_external_shard i =
     bindE (gets (\<lambda>s. sh_lifecycle (shards s i))) (\<lambda>state.
     seqE (check (state = Core_Constructing \<or> state = Core_Closing \<or> state = Core_Closed)
             (Fatal ''external ServerRuntimeCore runtime resources cannot be released while its device workload may be running''))
    (if state = Core_Closed then ret ()
     else
       seqE (preserve_kernel_resources i)
      (seqE (drop_service i)
      (seqE (modify (\<lambda>s. if residence_of s i = Held then s\<lparr>residence_of := (residence_of s)(i := Freed)\<rparr> else s))
            (on_shard i (\<lambda>x. x\<lparr>sh_holder := False, sh_lifecycle := Core_Closed\<rparr>))))))"

text \<open>The destructors of the runtime and of its core.\<close>

definition destroy_shard :: "nat \<Rightarrow> (mux_world, unit) io" where
  "destroy_shard i =
     bindE (gets (\<lambda>s. sh_phase (shards s i))) (\<lambda>phase.
     seqE (catchE
             (if phase = Prepared \<or> phase = Terminated then release_external_shard i
              else if phase = Running \<or> phase = Runtime_Closing
              then seqE (quarantine_external_shard i) (on_shard i (sh_phase_update (\<lambda>_. Runtime_Quarantined)))
              else ret ())
             (\<lambda>e. seqE (quarantine_external_shard i) (on_shard i (sh_phase_update (\<lambda>_. Runtime_Quarantined)))))
    (seqE (bindE (gets (\<lambda>s. sh_lifecycle (shards s i))) (\<lambda>state.
             if state = Core_Constructing then release_external_shard i
             else if state = Core_Ready \<or> state = Core_Closing then quarantine_external_shard i
             else ret ()))
          (on_shard i (sh_alive_update (\<lambda>_. False)))))"

section \<open>Steps\<close>

text \<open>
  Any call on any shard at any time, with any answers; what a call throws is the caller's. \<open>orderly\<close>: a
  runtime that was never launched is destroyed only when the shared program cannot be launched any more.
\<close>

datatype mux_call =
  Create nat u32 u32 prepare_answers
| Launch nat "bool \<times> fault option"
| Terminate nat terminate_answers
| Destroy nat

fun mux_call_step :: "mux_call \<Rightarrow> (mux_world, unit) io" where
  "mux_call_step (Create i wg n pa) = create_shard i wg n pa"
| "mux_call_step (Launch i enqueue) = launch_shard i enqueue"
| "mux_call_step (Terminate i ta) = terminate_shard i ta"
| "mux_call_step (Destroy i) = destroy_shard i"

fun callable :: "mux_world \<Rightarrow> mux_call \<Rightarrow> bool" where
  "callable s (Create i wg n pa) = (i \<notin> set (known_shards s))"
| "callable s (Launch i enqueue) = sh_alive (shards s i)"
| "callable s (Terminate i ta) = sh_alive (shards s i)"
| "callable s (Destroy i) = sh_alive (shards s i)"

fun orderly :: "mux_world \<Rightarrow> mux_call \<Rightarrow> bool" where
  "orderly s (Destroy i) = (sh_phase (shards s i) = Prepared \<longrightarrow> mx_preparation_failed s)"
| "orderly s _ = True"

definition no_shards :: mux_world where
  "no_shards =
     \<lparr>mux_exists = False, mx_shard_count = 0, mx_servers = [], mx_program = [], mx_retired = [], mx_terminated = 0,
      mx_prepared = False, mx_preparation_failed = False, mx_workload = False, mx_launched = False,
      shards = (\<lambda>_. (blank_shard 0)\<lparr>sh_alive := False, sh_holder := False\<rparr>), known_shards = [], residence_of = (\<lambda>_. Unreserved), parked_mux = False,
      running_program = []\<rparr>"

fun run_calls :: "mux_call list \<Rightarrow> mux_world \<Rightarrow> mux_world" where
  "run_calls [] s = s"
| "run_calls (c # cs) s = run_calls cs (snd (mux_call_step c s))"

fun calls_ok :: "mux_call list \<Rightarrow> mux_world \<Rightarrow> bool" where
  "calls_ok [] s = True"
| "calls_ok (c # cs) s = (callable s c \<and> orderly s c \<and> calls_ok cs (snd (mux_call_step c s)))"

end
