(* ===== verification/Mux_Safety.thy ===== *)
theory Mux_Safety
  imports Mux_Service
begin

text \<open>
  The invariant of the servers that share a workload, its preservation by every call of
  \<^verbatim>\<open>Mux_Service\<close>, and what it means for the memory that the device uses.
\<close>

section \<open>The invariant\<close>

definition dead_shard :: "mux_world \<Rightarrow> nat \<Rightarrow> bool" where
  "dead_shard s j \<longleftrightarrow> \<not> sh_alive (shards s j) \<and> \<not> sh_holder (shards s j) \<and> \<not> sh_service (shards s j)"

definition live_shard :: "mux_world \<Rightarrow> nat \<Rightarrow> bool" where
  "live_shard s j \<longleftrightarrow> sh_alive (shards s j) \<and> sh_holder (shards s j) \<and> sh_service (shards s j) \<and> mux_exists s
     \<and> j \<in> set (known_shards s) \<and> residence_of s j = Held \<and> sh_lifecycle (shards s j) \<noteq> Core_Closed
     \<and> sh_lifecycle (shards s j) \<noteq> Core_Quarantined \<and> sh_phase (shards s j) \<noteq> Runtime_Quarantined
     \<and> (sh_phase (shards s j) = Terminated \<longrightarrow> mx_preparation_failed s \<or> mx_prepared s)"

definition parked_shard :: "mux_world \<Rightarrow> nat \<Rightarrow> bool" where
  "parked_shard s j \<longleftrightarrow> sh_alive (shards s j) \<and> \<not> sh_holder (shards s j) \<and> \<not> sh_service (shards s j)
     \<and> j \<in> set (known_shards s) \<and> residence_of s j = Parked \<and> sh_lifecycle (shards s j) = Core_Quarantined
     \<and> parked_mux s"

definition shard_ok :: "mux_world \<Rightarrow> nat \<Rightarrow> bool" where
  "shard_ok s j \<longleftrightarrow> dead_shard s j \<or> live_shard s j \<or> parked_shard s j"

lemmas shard_states = dead_shard_def live_shard_def parked_shard_def

definition launchable :: "mux_world \<Rightarrow> bool" where
  "launchable s \<longleftrightarrow> \<not> mx_preparation_failed s \<and> (mx_workload s \<or> \<not> mx_prepared s)"

definition signalled :: "mux_world \<Rightarrow> nat \<Rightarrow> bool" where
  "signalled s j = sh_termination_signalled (shards s j)"

definition mux_lists_ok :: "mux_world \<Rightarrow> bool" where
  "mux_lists_ok s \<longleftrightarrow>
     distinct (mx_servers s) \<and> set (mx_servers s) \<subseteq> set (known_shards s)
     \<and> (\<forall>j \<in> set (mx_retired s). j \<in> set (known_shards s) \<and> residence_of s j = Retired)
     \<and> (mx_launched s \<longrightarrow> mx_workload s \<and> \<not> mx_preparation_failed s \<and> length (mx_servers s) = unat (mx_shard_count s))
     \<and> (mx_workload s \<longrightarrow> mx_prepared s \<and> mux_exists s) \<and> (parked_mux s \<longrightarrow> mux_exists s)
     \<and> (\<not> mx_workload s \<longrightarrow> mx_retired s = [])
     \<and> (\<not> mx_preparation_failed s \<longrightarrow> mx_program s = mx_servers s
          \<and> (\<forall>j. sh_service (shards s j) \<longrightarrow> j \<in> set (mx_servers s)))"

text \<open>The allocations of the shards in a program that can still run, or runs, exist.\<close>

definition servers_kept :: "mux_world \<Rightarrow> bool" where
  "servers_kept s \<longleftrightarrow> launchable s \<longrightarrow> (\<forall>j \<in> set (mx_servers s).
     residence_of s j = Held \<or> residence_of s j = Parked \<or> residence_of s j = Retired \<and> mx_workload s)"

text \<open>Unless the service is kept for good, a shard that has not signalled keeps it.\<close>

definition unsignalled_bound :: "mux_world \<Rightarrow> bool" where
  "unsignalled_bound s \<longleftrightarrow> launchable s \<and> \<not> parked_mux s \<longrightarrow> (\<forall>j \<in> set (mx_servers s).
     \<not> signalled s j \<longrightarrow> sh_service (shards s j) \<and> sh_phase (shards s j) \<noteq> Terminated)"

definition terminated_counted :: "mux_world \<Rightarrow> bool" where
  "terminated_counted s \<longleftrightarrow> launchable s \<longrightarrow>
     mx_terminated s = of_nat (length (filter (signalled s) (mx_servers s)))
     \<and> (\<not> mx_launched s \<longrightarrow> (\<forall>j \<in> set (mx_servers s). \<not> signalled s j))"

text \<open>When all have signalled and the workload has not been finished, one shard is still to finish it.\<close>

definition finisher_left :: "mux_world \<Rightarrow> bool" where
  "finisher_left s \<longleftrightarrow> mx_launched s \<and> \<not> parked_mux s \<and> (\<forall>j \<in> set (mx_servers s). signalled s j) \<longrightarrow>
     (\<exists>j \<in> set (mx_servers s). sh_service (shards s j) \<and> sh_phase (shards s j) = Runtime_Closing)"

definition mux_running_ok :: "mux_world \<Rightarrow> bool" where
  "mux_running_ok s \<longleftrightarrow> running_program s \<noteq> [] \<longrightarrow>
     mx_workload s \<and> \<not> mx_preparation_failed s \<and> set (running_program s) \<subseteq> set (mx_servers s)
     \<and> (\<not> mx_launched s \<longrightarrow> parked_mux s \<and> (\<forall>j. \<not> sh_service (shards s j)))"

definition mux_inv :: "mux_world \<Rightarrow> bool" where
  "mux_inv s \<longleftrightarrow> (\<forall>j. shard_ok s j) \<and> mux_lists_ok s \<and> servers_kept s \<and> unsignalled_bound s
     \<and> terminated_counted s \<and> finisher_left s \<and> mux_running_ok s"

lemma mux_inv_start: "mux_inv no_shards"
  by (simp add: mux_inv_def shard_ok_def dead_shard_def mux_lists_ok_def servers_kept_def unsignalled_bound_def
      terminated_counted_def finisher_left_def mux_running_ok_def no_shards_def signalled_def blank_shard_def)

section \<open>What the pieces do\<close>

lemma wp_on_shard [wp_rules]:
  "wp (on_shard i f) Q E s = Q () (s\<lparr>shards := (shards s)(i := f (shards s i))\<rparr>)"
  by (simp add: on_shard_def wp_modify)

lemma wp_move_resources [wp_rules]:
  "wp (move_resources i r) Q E s = Q () (s\<lparr>residence_of := (residence_of s)(i := r)\<rparr>)"
  by (simp add: move_resources_def wp_modify)

lemma forE_on_shards:
  "distinct js \<Longrightarrow> forE js (\<lambda>j. on_shard j f) s =
     (Inr (), s\<lparr>shards := (\<lambda>j. if j \<in> set js then f (shards s j) else shards s j)\<rparr>)"
proof (induction js arbitrary: s)
  case Nil then show ?case by (simp add: ret_def)
next
  case (Cons i js)
  let ?t = "s\<lparr>shards := (shards s)(i := f (shards s i))\<rparr>"
  have "?t\<lparr>shards := (\<lambda>j. if j \<in> set js then f (shards ?t j) else shards ?t j)\<rparr> =
      s\<lparr>shards := (\<lambda>j. if j \<in> set (i # js) then f (shards s j) else shards s j)\<rparr>"
    using Cons.prems by (auto simp: fun_eq_iff intro!: mux_world.equality)
  then show ?case using Cons by (simp add: seqE_def bindE_def on_shard_def modify_def)
qed

definition quarantined :: "shard \<Rightarrow> shard" where
  "quarantined x = x\<lparr>sh_cancelled := True, sh_workload_running := False, sh_lifecycle := Core_Quarantined,
     sh_holder := False, sh_service := (sh_service x \<and> \<not> sh_holder x)\<rparr>"

definition quarantine_all :: "nat set \<Rightarrow> mux_world \<Rightarrow> mux_world" where
  "quarantine_all J s = s\<lparr>
     shards := (\<lambda>j. if j \<in> J then quarantined (shards s j) else shards s j),
     parked_mux := (parked_mux s \<or> (\<exists>j \<in> J. sh_holder (shards s j) \<and> sh_service (shards s j))),
     residence_of := (\<lambda>j. if j \<in> J \<and> sh_holder (shards s j) then Parked else residence_of s j)\<rparr>"

lemma quarantine_external_run: "quarantine_external_shard i s = (Inr (), quarantine_all {i} s)"
  by (cases "shards s i")
    (auto simp: quarantine_external_shard_def quarantine_shard_def quarantine_all_def quarantined_def
      on_shard_def move_resources_def io_defs fun_eq_iff)

lemma forE_quarantine:
  "distinct js \<Longrightarrow> forE js quarantine_external_shard s = (Inr (), quarantine_all (set js) s)"
proof (induction js arbitrary: s)
  case Nil then show ?case by (simp add: ret_def quarantine_all_def)
next
  case (Cons i js)
  have "quarantine_all (set js) (quarantine_all {i} s) = quarantine_all (set (i # js)) s"
    using Cons.prems by (intro mux_world.equality) (auto simp: quarantine_all_def fun_eq_iff)
  then show ?case using Cons by (simp add: seqE_def bindE_def quarantine_external_run)
qed

lemma quarantined_fields [simp]:
  "sh_alive (quarantined x) = sh_alive x" "sh_phase (quarantined x) = sh_phase x"
  "sh_lifecycle (quarantined x) = Core_Quarantined" "sh_holder (quarantined x) = False"
  "sh_service (quarantined x) = (sh_service x \<and> \<not> sh_holder x)"
  "sh_termination_signalled (quarantined x) = sh_termination_signalled x"
  by (simp_all add: quarantined_def)

lemma quarantined_lifecycle [simp]: "(quarantined x)\<lparr>sh_lifecycle := Core_Quarantined\<rparr> = quarantined x"
  by (cases x) (simp add: quarantined_def)

lemma quarantine_all_fields [simp]:
  "shards (quarantine_all J s) j = (if j \<in> J then quarantined (shards s j) else shards s j)"
  "residence_of (quarantine_all J s) j = (if j \<in> J \<and> sh_holder (shards s j) then Parked else residence_of s j)"
  "parked_mux (quarantine_all J s) = (parked_mux s \<or> (\<exists>j \<in> J. sh_holder (shards s j) \<and> sh_service (shards s j)))"
  "mx_servers (quarantine_all J s) = mx_servers s" "mx_retired (quarantine_all J s) = mx_retired s"
  "known_shards (quarantine_all J s) = known_shards s" "mx_launched (quarantine_all J s) = mx_launched s"
  "mx_workload (quarantine_all J s) = mx_workload s" "mx_prepared (quarantine_all J s) = mx_prepared s"
  "mx_preparation_failed (quarantine_all J s) = mx_preparation_failed s" "mux_exists (quarantine_all J s) = mux_exists s"
  "mx_program (quarantine_all J s) = mx_program s" "mx_shard_count (quarantine_all J s) = mx_shard_count s"
  "mx_terminated (quarantine_all J s) = mx_terminated s" "running_program (quarantine_all J s) = running_program s"
  "launchable (quarantine_all J s) = launchable s"
  by (simp_all add: quarantine_all_def launchable_def)

text \<open>A shard stays as it was when what it depends on does.\<close>

lemma shard_ok_keep:
  assumes "shard_ok s j" and "shards t j = shards s j" and "residence_of t j = residence_of s j"
    and "set (known_shards s) \<subseteq> set (known_shards t)" and "mux_exists s \<Longrightarrow> mux_exists t" and "parked_mux s \<Longrightarrow> parked_mux t"
    and "mx_preparation_failed s \<or> mx_prepared s \<Longrightarrow> mx_preparation_failed t \<or> mx_prepared t"
  shows "shard_ok t j"
  using assms(1) unfolding shard_ok_def
proof (elim disjE)
  assume "dead_shard s j"
  then show "dead_shard t j \<or> live_shard t j \<or> parked_shard t j" by (simp add: dead_shard_def assms(2))
next
  assume "live_shard s j"
  then show "dead_shard t j \<or> live_shard t j \<or> parked_shard t j"
    using assms(4,5,7) by (auto simp: live_shard_def assms(2,3))
next
  assume "parked_shard s j"
  then show "dead_shard t j \<or> live_shard t j \<or> parked_shard t j"
    using assms(4,6) by (auto simp: parked_shard_def assms(2,3))
qed

lemma shard_okD:
  assumes "shard_ok s j"
  shows "sh_service (shards s j) \<Longrightarrow> live_shard s j" and "sh_holder (shards s j) \<Longrightarrow> live_shard s j"
    and "sh_alive (shards s j) \<Longrightarrow> \<not> sh_service (shards s j) \<Longrightarrow> parked_shard s j"
  using assms by (auto simp: shard_ok_def dead_shard_def live_shard_def parked_shard_def)

lemma mux_invD:
  assumes "mux_inv s"
  shows "shard_ok s j" and "mux_lists_ok s" and "servers_kept s" and "unsignalled_bound s"
    and "terminated_counted s" and "finisher_left s" and "mux_running_ok s"
  using assms by (simp_all add: mux_inv_def)

lemma shard_ok_quarantine:
  assumes "shard_ok s j"
  shows "shard_ok (quarantine_all J s) j"
proof (cases "j \<in> J")
  case True
  have "parked_shard (quarantine_all J s) j" if "live_shard s j"
    using that True by (auto simp: live_shard_def parked_shard_def)
  moreover have "dead_shard (quarantine_all J s) j" if "dead_shard s j" using that True by (simp add: dead_shard_def)
  moreover have "parked_shard (quarantine_all J s) j" if "parked_shard s j" using that True by (simp add: parked_shard_def)
  ultimately show ?thesis using assms by (auto simp: shard_ok_def)
qed (intro shard_ok_keep [OF assms]; simp)

lemma mux_inv_quarantine:
  assumes "mux_inv s"
  shows "mux_inv (quarantine_all J s)"
proof -
  note a = mux_invD [OF assms]
  have sv: "sh_service (shards s j) \<Longrightarrow> sh_holder (shards s j) \<and> mux_exists s"
    "sh_holder (shards s j) \<Longrightarrow> residence_of s j = Held" for j
    using shard_okD [OF a(1) [of j]] by (auto simp: live_shard_def)
  have svc: "sh_service (shards (quarantine_all J s) j) \<longleftrightarrow> sh_service (shards s j) \<and> j \<notin> J" for j
    using sv(1) by auto
  have ph: "sh_phase (shards (quarantine_all J s) j) = sh_phase (shards s j)" for j by simp
  have fs: "signalled (quarantine_all J s) = signalled s" by (simp add: signalled_def fun_eq_iff)
  have l: "mux_lists_ok (quarantine_all J s)"
    using a(2) sv unfolding mux_lists_ok_def svc by auto
  have k: "servers_kept (quarantine_all J s)" using a(3) sv(2) unfolding servers_kept_def by auto
  have u: "unsignalled_bound (quarantine_all J s)"
    using a(4) sv(1) unfolding unsignalled_bound_def fs by (auto split: if_splits)
  have t: "terminated_counted (quarantine_all J s)" using a(5) unfolding terminated_counted_def fs by simp
  have f: "finisher_left (quarantine_all J s)"
    using a(6) sv(1) unfolding finisher_left_def fs svc ph by auto
  have r: "mux_running_ok (quarantine_all J s)"
    using a(7) unfolding mux_running_ok_def svc by auto
  show ?thesis using shard_ok_quarantine [OF a(1)] l k u t f r by (simp add: mux_inv_def)
qed

section \<open>Updates that keep the invariant\<close>

definition shard_sim :: "shard \<Rightarrow> shard \<Rightarrow> bool" where
  "shard_sim x y \<longleftrightarrow> sh_alive y = sh_alive x \<and> sh_holder y = sh_holder x \<and> sh_service y = sh_service x
     \<and> sh_lifecycle y = sh_lifecycle x \<and> sh_phase y = sh_phase x
     \<and> sh_termination_signalled y = sh_termination_signalled x"

lemma mux_inv_sim:
  assumes "mux_inv s" and "\<And>j. shard_sim (shards s j) (f j)"
  shows "mux_inv (s\<lparr>shards := f\<rparr>)"
proof -
  note a = mux_invD [OF assms(1)]
  have f: "sh_alive (f j) = sh_alive (shards s j)" "sh_holder (f j) = sh_holder (shards s j)"
    "sh_service (f j) = sh_service (shards s j)" "sh_lifecycle (f j) = sh_lifecycle (shards s j)"
    "sh_phase (f j) = sh_phase (shards s j)" "sh_termination_signalled (f j) = sh_termination_signalled (shards s j)" for j
    using assms(2) [of j] by (simp_all add: shard_sim_def)
  have g: "signalled (s\<lparr>shards := f\<rparr>) = signalled s" by (simp add: signalled_def f fun_eq_iff)
  have "shard_ok (s\<lparr>shards := f\<rparr>) j" for j using a(1) [of j] by (simp add: shard_ok_def shard_states f)
  moreover have "mux_lists_ok (s\<lparr>shards := f\<rparr>)" using a(2) by (simp add: mux_lists_ok_def f)
  ultimately show ?thesis
    using a(3-7) by (simp add: mux_inv_def servers_kept_def unsignalled_bound_def
        terminated_counted_def finisher_left_def mux_running_ok_def launchable_def g f)
qed

text \<open>A live or parked shard changes its phase and lifecycle.\<close>

definition moved :: "nat \<Rightarrow> core_lifecycle \<Rightarrow> runtime_phase \<Rightarrow> mux_world \<Rightarrow> mux_world" where
  "moved i l p s = s\<lparr>shards := (shards s)(i := (shards s i)\<lparr>sh_lifecycle := l, sh_phase := p\<rparr>)\<rparr>"

lemma moved_fields [simp]:
  "shards (moved i l p s) j = (if j = i then (shards s i)\<lparr>sh_lifecycle := l, sh_phase := p\<rparr> else shards s j)"
  "residence_of (moved i l p s) = residence_of s" "parked_mux (moved i l p s) = parked_mux s"
  "mx_servers (moved i l p s) = mx_servers s" "mx_retired (moved i l p s) = mx_retired s"
  "known_shards (moved i l p s) = known_shards s" "mx_launched (moved i l p s) = mx_launched s"
  "mx_workload (moved i l p s) = mx_workload s" "mx_prepared (moved i l p s) = mx_prepared s"
  "mx_preparation_failed (moved i l p s) = mx_preparation_failed s" "mux_exists (moved i l p s) = mux_exists s"
  "mx_program (moved i l p s) = mx_program s" "mx_shard_count (moved i l p s) = mx_shard_count s"
  "mx_terminated (moved i l p s) = mx_terminated s" "running_program (moved i l p s) = running_program s"
  "launchable (moved i l p s) = launchable s" "signalled (moved i l p s) = signalled s"
  by (simp_all add: moved_def launchable_def signalled_def fun_eq_iff)

lemma mux_inv_moved:
  assumes "mux_inv s"
    and "sh_service (shards s i) \<Longrightarrow> l \<noteq> Core_Closed \<and> l \<noteq> Core_Quarantined \<and> p \<noteq> Runtime_Quarantined"
    and "\<not> sh_service (shards s i) \<Longrightarrow> l = Core_Quarantined"
    and "sh_phase (shards s i) = Runtime_Closing \<Longrightarrow> sh_service (shards s i) \<Longrightarrow> p \<noteq> Runtime_Closing \<Longrightarrow>
       \<not> mx_launched s \<or> (\<exists>j \<in> set (mx_servers s). \<not> signalled s j)"
    and "sh_service (shards s i) \<Longrightarrow> p = Terminated \<Longrightarrow>
       (mx_preparation_failed s \<or> mx_prepared s) \<and> (launchable s \<longrightarrow> signalled s i)"
  shows "mux_inv (moved i l p s)"
proof -
  note a = mux_invD [OF assms(1)]
  have o: "shard_ok (moved i l p s) j" for j
  proof (cases "j = i")
    case True
    have "live_shard (moved i l p s) i" if "live_shard s i"
      using that assms(2,5) by (auto simp: live_shard_def)
    moreover have "dead_shard (moved i l p s) i" if "dead_shard s i" using that by (simp add: dead_shard_def)
    moreover have "parked_shard (moved i l p s) i" if "parked_shard s i"
      using that assms(3) by (simp add: parked_shard_def)
    ultimately show ?thesis using a(1) [of i] True by (auto simp: shard_ok_def)
  qed (intro shard_ok_keep [OF a(1) [of j]]; simp)
  have sv: "sh_service (shards (moved i l p s) j) = sh_service (shards s j)" for j by simp
  have l: "mux_lists_ok (moved i l p s)" using a(2) unfolding mux_lists_ok_def sv by simp
  have k: "servers_kept (moved i l p s)" using a(3) unfolding servers_kept_def by simp
  have u: "unsignalled_bound (moved i l p s)"
    using a(4) assms(5) unfolding unsignalled_bound_def sv by auto
  have t: "terminated_counted (moved i l p s)" using a(5) unfolding terminated_counted_def by simp
  have f: "finisher_left (moved i l p s)"
    unfolding finisher_left_def
  proof (intro impI)
    assume h: "mx_launched (moved i l p s) \<and> \<not> parked_mux (moved i l p s)
      \<and> (\<forall>j \<in> set (mx_servers (moved i l p s)). signalled (moved i l p s) j)"
    then obtain j where j: "j \<in> set (mx_servers s)" "sh_service (shards s j)" "sh_phase (shards s j) = Runtime_Closing"
      using a(6) by (auto simp: finisher_left_def)
    moreover have "j = i \<Longrightarrow> p = Runtime_Closing" using assms(4) j h by auto
    ultimately show "\<exists>j \<in> set (mx_servers (moved i l p s)).
        sh_service (shards (moved i l p s) j) \<and> sh_phase (shards (moved i l p s) j) = Runtime_Closing"
      by (intro bexI [of _ j]) auto
  qed
  have r: "mux_running_ok (moved i l p s)" using a(7) unfolding mux_running_ok_def sv by simp
  show ?thesis using o l k u t f r by (simp add: mux_inv_def)
qed

text \<open>Without a reference to the service nothing runs.\<close>

lemma unreferenced_idle:
  assumes "mux_inv s" and "\<not> parked_mux s" and "\<And>j. \<not> sh_service (shards s j)"
  shows "\<not> mx_launched s" and "running_program s = []" and "launchable s \<Longrightarrow> mx_servers s = []"
proof -
  note a = mux_invD [OF assms(1)]
  show l: "\<not> mx_launched s"
  proof
    assume "mx_launched s"
    moreover from this have "launchable s" using a(2) by (simp add: mux_lists_ok_def launchable_def)
    ultimately show False using a(4,6) assms(2,3) unfolding unsignalled_bound_def finisher_left_def by blast
  qed
  then show "running_program s = []" using a(7) assms(2) by (auto simp: mux_running_ok_def)
  show "mx_servers s = []" if "launchable s"
    using that l a(4,5) assms(2,3) by (cases "mx_servers s") (auto simp: unsignalled_bound_def terminated_counted_def)
qed

definition expired :: "mux_world \<Rightarrow> mux_world" where
  "expired s = s\<lparr>mux_exists := False, mx_workload := False, mx_retired := [],
     residence_of := (\<lambda>j. if j \<in> set (mx_retired s) then Freed else residence_of s j)\<rparr>"

lemma mux_inv_expired:
  assumes "mux_inv s" and "\<not> parked_mux s" and "\<And>j. \<not> sh_service (shards s j)"
  shows "mux_inv (expired s)"
proof -
  note a = mux_invD [OF assms(1)] and idle = unreferenced_idle [OF assms]
  have [simp]: "mx_launched (expired s) = mx_launched s" "running_program (expired s) = running_program s"
    by (simp_all add: expired_def)
  have "shard_ok (expired s) j" for j
    using a(1) [of j] assms(2,3) by (auto simp: shard_ok_def shard_states expired_def)
  moreover have "mux_lists_ok (expired s)"
    using a(2) idle(1) assms(2,3) by (auto simp: mux_lists_ok_def expired_def)
  moreover have e: "launchable (expired s) \<Longrightarrow> mx_servers (expired s) = []"
    using idle(3) a(2) by (auto simp: expired_def launchable_def mux_lists_ok_def)
  moreover have "terminated_counted (expired s)"
    using a(5) e by (auto simp: terminated_counted_def expired_def launchable_def)
  ultimately show ?thesis
    using idle by (simp add: mux_inv_def servers_kept_def unsignalled_bound_def finisher_left_def mux_running_ok_def)
qed

definition unreferenced :: "mux_world \<Rightarrow> bool" where
  "unreferenced s \<longleftrightarrow> \<not> parked_mux s \<and> (\<forall>j \<in> set (known_shards s). \<not> sh_service (shards s j))"

lemma wp_release_unreferenced_mux [wp_rules]:
  "wp release_unreferenced_mux Q E s = Q () (if unreferenced s then expired s else s)"
  by (simp add: release_unreferenced_mux_def wp_modify unreferenced_def expired_def)

lemma mux_inv_unreferenced:
  assumes "mux_inv s"
  shows "mux_inv (if unreferenced s then expired s else s)"
proof (cases "unreferenced s")
  case True
  have "\<not> sh_service (shards s j)" for j
    using True shard_okD(1) [OF mux_invD(1) [OF assms]] by (auto simp: unreferenced_def live_shard_def)
  then show ?thesis using True mux_inv_expired [OF assms] by (simp add: unreferenced_def)
qed (simp add: assms)

text \<open>A shard ceases to exist, with its allocations retired into the workload or released.\<close>

definition released :: "nat \<Rightarrow> shard \<Rightarrow> mux_world \<Rightarrow> mux_world" where
  "released i x s = s\<lparr>shards := (shards s)(i := x),
     mx_retired := (if mx_workload s then i # mx_retired s else mx_retired s),
     residence_of := (residence_of s)(i := (if mx_workload s then Retired else Freed))\<rparr>"

lemma mux_inv_released:
  assumes "mux_inv s" and "sh_service (shards s i)" and "sh_phase (shards s i) = Prepared \<Longrightarrow> mx_preparation_failed s"
    and "sh_phase (shards s i) = Prepared \<or> sh_phase (shards s i) = Terminated"
    and "\<not> sh_alive x" and "\<not> sh_holder x" and "\<not> sh_service x"
    and "sh_termination_signalled x = sh_termination_signalled (shards s i)"
  shows "mux_inv (released i x s)"
proof -
  note a = mux_invD [OF assms(1)]
  have live: "live_shard s i" by (rule shard_okD(1) [OF a(1) assms(2)])
  have p: "mx_preparation_failed s \<or> mx_prepared s" using live assms(3,4) by (auto simp: live_shard_def)
  have sg: "signalled (released i x s) = signalled s" using assms(8) by (simp add: signalled_def released_def fun_eq_iff)
  have sv: "sh_service (shards (released i x s) j) \<longleftrightarrow> sh_service (shards s j) \<and> j \<noteq> i" for j
    using assms(7) by (simp add: released_def)
  have ph: "j \<noteq> i \<Longrightarrow> shards (released i x s) j = shards s j" for j by (simp add: released_def)
  have la [simp]: "launchable (released i x s) = launchable s" "mx_servers (released i x s) = mx_servers s"
    "mx_launched (released i x s) = mx_launched s" "parked_mux (released i x s) = parked_mux s"
    "mx_workload (released i x s) = mx_workload s" "mx_terminated (released i x s) = mx_terminated s"
    "running_program (released i x s) = running_program s" "mx_preparation_failed (released i x s) = mx_preparation_failed s"
    by (simp_all add: launchable_def released_def)
  have "shard_ok (released i x s) j" for j
  proof (cases "j = i")
    case True then show ?thesis using assms(5-7) by (simp add: shard_ok_def dead_shard_def released_def)
  qed (intro shard_ok_keep [OF a(1) [of j]]; simp add: released_def)
  moreover have "mux_lists_ok (released i x s)"
    using a(2) live sv by (auto simp: mux_lists_ok_def released_def live_shard_def)
  moreover have "servers_kept (released i x s)"
    using a(3) p by (auto simp: servers_kept_def launchable_def released_def)
  moreover have "unsignalled_bound (released i x s)"
    unfolding unsignalled_bound_def
  proof (intro impI ballI)
    fix j assume h: "launchable (released i x s) \<and> \<not> parked_mux (released i x s)" "j \<in> set (mx_servers (released i x s))"
      "\<not> signalled (released i x s) j"
    then have b: "sh_service (shards s j) \<and> sh_phase (shards s j) \<noteq> Terminated"
      using a(4) by (simp add: unsignalled_bound_def sg)
    then have "j \<noteq> i" using h(1) assms(3,4) by (auto simp: launchable_def)
    then show "sh_service (shards (released i x s) j) \<and> sh_phase (shards (released i x s) j) \<noteq> Terminated"
      using b ph sv by simp
  qed
  moreover have "terminated_counted (released i x s)" using a(5) by (simp add: terminated_counted_def sg)
  moreover have "finisher_left (released i x s)"
    unfolding finisher_left_def sg
  proof (intro impI)
    assume "mx_launched (released i x s) \<and> \<not> parked_mux (released i x s) \<and> (\<forall>j \<in> set (mx_servers (released i x s)). signalled s j)"
    then obtain j where j: "j \<in> set (mx_servers s)" "sh_service (shards s j)" "sh_phase (shards s j) = Runtime_Closing"
      using a(6) by (auto simp: finisher_left_def)
    then have "j \<noteq> i" using assms(4) by auto
    then show "\<exists>j \<in> set (mx_servers (released i x s)). sh_service (shards (released i x s) j)
        \<and> sh_phase (shards (released i x s) j) = Runtime_Closing"
      using j ph sv by (intro bexI [of _ j]) simp_all
  qed
  moreover have "mux_running_ok (released i x s)" using a(7) by (auto simp: mux_running_ok_def sv)
  ultimately show ?thesis by (simp add: mux_inv_def)
qed

section \<open>Every call keeps the invariant\<close>

lemma quarantine_external_wp [wp_rules]:
  "wp (quarantine_external_shard i) Q E s = Q () (quarantine_all {i} s)"
  by (simp add: wp_def quarantine_external_run)

lemma live_unless_quarantined:
  assumes "mux_inv s" and "sh_alive (shards s i)" and "sh_lifecycle (shards s i) \<noteq> Core_Quarantined"
  shows "live_shard s i"
  using mux_invD(1) [OF assms(1), of i] assms(2,3) by (auto simp: shard_ok_def shard_states)

lemma mux_inv_failed:
  assumes "mux_inv s" and "\<not> mx_launched s" and "running_program s = []" and "distinct q" and "set q \<subseteq> set (known_shards s)"
  shows "mux_inv (s\<lparr>mx_preparation_failed := True, mx_servers := q\<rparr>)"
    and "mux_inv (s\<lparr>mx_program := r, mx_servers := q, mx_preparation_failed := True\<rparr>)"
proof -
  note a = mux_invD [OF assms(1)]
  let ?t = "s\<lparr>mx_program := r, mx_servers := q, mx_preparation_failed := True\<rparr>"
  have "shard_ok ?t j" for j by (intro shard_ok_keep [OF a(1) [of j]]) auto
  moreover have "mux_lists_ok ?t" using a(2) assms(2,4,5) by (auto simp: mux_lists_ok_def)
  ultimately show t: "mux_inv ?t" for r
    using assms(2,3) by (simp add: mux_inv_def servers_kept_def unsignalled_bound_def terminated_counted_def finisher_left_def
        mux_running_ok_def launchable_def)
  let ?t = "s\<lparr>mx_preparation_failed := True, mx_servers := q\<rparr>"
  have "shard_ok ?t j" for j by (intro shard_ok_keep [OF a(1) [of j]]) auto
  moreover have "mux_lists_ok ?t" using a(2) assms(2,4,5) by (auto simp: mux_lists_ok_def)
  ultimately show "mux_inv ?t"
    using assms(2,3) by (simp add: mux_inv_def servers_kept_def unsignalled_bound_def terminated_counted_def finisher_left_def
        mux_running_ok_def launchable_def)
qed

definition signal_sent :: "nat \<Rightarrow> mux_world \<Rightarrow> mux_world" where
  "signal_sent i s = s\<lparr>shards := (shards s)(i := (shards s i)\<lparr>sh_termination_signalled := True\<rparr>),
     mx_terminated := mx_terminated s + 1\<rparr>"

lemma length_filter_insert:
  assumes "distinct xs" and "i \<in> set xs" and "\<not> P i" and "\<And>j. Q j \<longleftrightarrow> P j \<or> j = i"
  shows "length (filter Q xs) = length (filter P xs) + 1"
proof -
  have "set (filter Q xs) = insert i (set (filter P xs))" using assms(2,4) by auto
  then have "card (set (filter Q xs)) = Suc (card (set (filter P xs)))" using assms(3) by simp
  moreover have "distinct (filter R xs)" for R using assms(1) by simp
  ultimately show ?thesis by (metis Suc_eq_plus1 distinct_card)
qed

lemma mux_inv_signal_sent:
  assumes "mux_inv s" and "mx_launched s" and "sh_service (shards s i)" and "sh_phase (shards s i) = Runtime_Closing"
    and "\<not> signalled s i"
  shows "mux_inv (signal_sent i s)"
proof -
  note a = mux_invD [OF assms(1)]
  have i: "i \<in> set (mx_servers s)" and d: "distinct (mx_servers s)"
    using a(2) assms(2,3) by (auto simp: mux_lists_ok_def)
  have sg: "signalled (signal_sent i s) j \<longleftrightarrow> signalled s j \<or> j = i" for j by (auto simp: signalled_def signal_sent_def)
  have f [simp]: "sh_service (shards (signal_sent i s) j) = sh_service (shards s j)"
    "sh_phase (shards (signal_sent i s) j) = sh_phase (shards s j)" for j by (simp_all add: signal_sent_def)
  have g [simp]: "launchable (signal_sent i s) = launchable s" "mx_servers (signal_sent i s) = mx_servers s"
    "mx_launched (signal_sent i s) = mx_launched s" "parked_mux (signal_sent i s) = parked_mux s"
    "mx_workload (signal_sent i s) = mx_workload s" "residence_of (signal_sent i s) = residence_of s"
    "running_program (signal_sent i s) = running_program s" "mx_preparation_failed (signal_sent i s) = mx_preparation_failed s"
    by (simp_all add: launchable_def signal_sent_def)
  have "shard_ok (signal_sent i s) j" for j
    using a(1) [of j] by (auto simp: shard_ok_def shard_states signal_sent_def)
  moreover have "mux_lists_ok (signal_sent i s)" using a(2) by (simp add: mux_lists_ok_def signal_sent_def)
  moreover have "servers_kept (signal_sent i s)" using a(3) by (simp add: servers_kept_def)
  moreover have "unsignalled_bound (signal_sent i s)" using a(4) by (auto simp: unsignalled_bound_def sg)
  moreover have "terminated_counted (signal_sent i s)"
    using a(5) length_filter_insert [of _ i "signalled s" "signalled (signal_sent i s)", OF d i assms(5) sg] assms(2)
    by (simp add: terminated_counted_def) (simp add: signal_sent_def)
  moreover have "finisher_left (signal_sent i s)"
    using i assms(3,4) by (auto simp: finisher_left_def)
  moreover have "mux_running_ok (signal_sent i s)" using a(7) by (simp add: mux_running_ok_def)
  ultimately show ?thesis by (simp add: mux_inv_def)
qed

definition workload_finished :: "mux_world \<Rightarrow> mux_world" where
  "workload_finished s = s\<lparr>running_program := [], mx_workload := False, mx_retired := [], mx_launched := False,
     residence_of := (\<lambda>j. if j \<in> set (mx_retired s) then Freed else residence_of s j)\<rparr>"

lemma mux_inv_workload_finished:
  assumes "mux_inv s" and "mx_launched s"
  shows "mux_inv (workload_finished s)"
proof -
  note a = mux_invD [OF assms(1)]
  have p: "mx_prepared s" using a(2) assms(2) by (simp add: mux_lists_ok_def)
  have "shard_ok (workload_finished s) j" for j
    using a(1) [of j] a(2) by (auto simp: shard_ok_def shard_states workload_finished_def mux_lists_ok_def)
  moreover have "mux_lists_ok (workload_finished s)" using a(2) by (auto simp: mux_lists_ok_def workload_finished_def)
  moreover have "\<not> launchable (workload_finished s)" using p by (simp add: launchable_def workload_finished_def)
  ultimately show ?thesis
    by (simp add: mux_inv_def servers_kept_def unsignalled_bound_def terminated_counted_def finisher_left_def mux_running_ok_def)
      (simp add: workload_finished_def)
qed

text \<open>Fewer terminated shards than the workload has: one has not signalled.\<close>

lemma some_unsignalled:
  assumes "mux_inv s" and "mx_launched s" and "mx_terminated s \<noteq> mx_shard_count s"
  shows "\<exists>j \<in> set (mx_servers s). \<not> signalled s j"
proof (rule ccontr)
  note a = mux_invD [OF assms(1)]
  assume "\<not> (\<exists>j \<in> set (mx_servers s). \<not> signalled s j)"
  then have "filter (signalled s) (mx_servers s) = mx_servers s" by (simp add: filter_id_conv)
  moreover have "launchable s" "length (mx_servers s) = unat (mx_shard_count s)"
    using a(2) assms(2) by (auto simp: mux_lists_ok_def launchable_def)
  ultimately have "mx_terminated s = of_nat (unat (mx_shard_count s))"
    using a(5) by (simp add: terminated_counted_def)
  then show False using assms(3) by simp
qed

lemma on_shard_sim:
  assumes "mux_inv s" and "shard_sim (shards s i) x"
  shows "mux_inv (s\<lparr>shards := (shards s)(i := x)\<rparr>)"
proof (rule mux_inv_sim [OF assms(1)])
  show "shard_sim (shards s j) (((shards s)(i := x)) j)" for j
    using assms(2) by (cases "j = i") (simp_all add: shard_sim_def)
qed

lemma terminate_shared_workload_inv:
  assumes "mux_inv s" and "sh_service (shards s i)" and "sh_phase (shards s i) = Runtime_Closing"
  shows "wp (terminate_shared_workload i ta)
    (\<lambda>_ t. mux_inv t \<and> sh_service (shards t i) \<and> sh_lifecycle (shards t i) = sh_lifecycle (shards s i)
       \<and> (\<not> mx_launched t \<or> (\<exists>j \<in> set (mx_servers t). \<not> signalled t j))
       \<and> (mx_preparation_failed t \<or> mx_prepared t) \<and> (launchable t \<longrightarrow> signalled t i))
    (\<lambda>_. mux_inv) s"
proof (cases "mx_launched s")
  case False
  note a = mux_invD [OF assms(1)]
  let ?u = "s\<lparr>shards := (shards s)(i := (shards s i)\<lparr>sh_workload_running := False\<rparr>)\<rparr>"
  have u: "mux_inv ?u" by (rule on_shard_sim [OF assms(1)]) (simp add: shard_sim_def)
  have "running_program s = []" using a(7) False assms(2) by (auto simp: mux_running_ok_def)
  then have "mux_inv (?u\<lparr>mx_preparation_failed := True, mx_servers := remove1 i (mx_servers s)\<rparr>)"
    using a(2) False by (intro mux_inv_failed(1) [OF u])
      (auto simp: mux_lists_ok_def dest: set_remove1_subset [THEN subsetD])
  then show ?thesis
    using False assms(2) by (simp add: terminate_shared_workload_def wp_rules launchable_def)
next
  case True
  note a = mux_invD [OF assms(1)]
  have p: "mx_prepared s" "mx_workload s" using a(2) True by (auto simp: mux_lists_ok_def)
  define u where "u = (if signalled s i then s else signal_sent i s)"
  define v where "v = u\<lparr>shards := (shards u)(i := (shards u i)\<lparr>sh_workload_running := False\<rparr>)\<rparr>"
  have u: "mux_inv u" using assms True mux_inv_signal_sent by (simp add: u_def)
  have v: "mux_inv v" unfolding v_def by (rule on_shard_sim [OF u]) (simp add: shard_sim_def)
  have f: "mx_launched v" "mx_prepared v" "mx_workload v" "sh_service (shards v i)"
    "sh_lifecycle (shards v i) = sh_lifecycle (shards s i)" "signalled v i"
    using True p assms(2) by (simp_all add: v_def u_def signal_sent_def signalled_def)
  have w: "mux_inv (workload_finished v)" by (rule mux_inv_workload_finished [OF v f(1)])
  have e: "wp (terminate_shared_workload i ta) Q E s =
      (if \<not> signalled s i \<and> tm_signal ta \<noteq> None then E (the (tm_signal ta)) s
       else if \<not> mx_terminated v \<le> mx_shard_count v
       then E (Fatal ''shared KVM Server shard termination count exceeded its shard count'') v
       else if mx_terminated v = mx_shard_count v then
         (case tm_finish ta of None \<Rightarrow> Q () (workload_finished v) | Some e \<Rightarrow> E e v)
       else Q () v)" for Q E
    using True assms(2) p
    by (auto simp: terminate_shared_workload_def wp_rules v_def u_def signalled_def signal_sent_def
        workload_finished_def split: option.split)
  show ?thesis
    unfolding e using assms(1) v f w some_unsignalled [OF v f(1)]
    by (auto simp: workload_finished_def signalled_def split: option.split)
qed

lemma moved_phase: "s\<lparr>shards := (shards s)(i := sh_phase_update (\<lambda>_. p) (shards s i))\<rparr> = moved i (sh_lifecycle (shards s i)) p s"
  by (simp add: moved_def)

lemma moved_lifecycle:
  "s\<lparr>shards := (shards s)(i := sh_lifecycle_update (\<lambda>_. l) (shards s i))\<rparr> = moved i l (sh_phase (shards s i)) s"
  by (simp add: moved_def)

lemma moved_all:
  "s\<lparr>shards := (shards s)(i := x)\<rparr> = (moved i (sh_lifecycle x) (sh_phase x) s)\<lparr>shards := (shards s)(i := x)\<rparr>"
  by (simp add: moved_def)

text \<open>A change of one shard that keeps what it owns.\<close>

lemma mux_inv_shard:
  assumes "mux_inv (moved i (sh_lifecycle x) (sh_phase x) s)"
    and "sh_alive x = sh_alive (shards s i)" and "sh_holder x = sh_holder (shards s i)"
    and "sh_service x = sh_service (shards s i)" and "sh_termination_signalled x = sh_termination_signalled (shards s i)"
  shows "mux_inv (s\<lparr>shards := (shards s)(i := x)\<rparr>)"
proof -
  have "mux_inv ((moved i (sh_lifecycle x) (sh_phase x) s)\<lparr>shards :=
      (shards (moved i (sh_lifecycle x) (sh_phase x) s))(i := x)\<rparr>)"
    using assms(2-5) by (intro on_shard_sim [OF assms(1)]) (simp add: shard_sim_def)
  then show ?thesis by (simp add: moved_def)
qed

lemma terminate_shard_inv:
  assumes "mux_inv s" and "sh_alive (shards s i)"
  shows "wp (terminate_shard i ta) (\<lambda>_. mux_inv) (\<lambda>_. mux_inv) s"
proof -
  let ?sh = "shards s i"
  consider (skip) "sh_phase ?sh = Terminated \<or> sh_phase ?sh = Runtime_Quarantined"
    | (refuse) "sh_phase ?sh = Prepared" | (go) "sh_phase ?sh = Running \<or> sh_phase ?sh = Runtime_Closing"
    by (cases "sh_phase ?sh") auto
  then show ?thesis
  proof cases
    case skip then show ?thesis using assms(1) by (auto simp: terminate_shard_def wp_rules)
  next
    case refuse then show ?thesis using assms(1) by (simp add: terminate_shard_def wp_rules)
  next
    case go
    define c where "c = moved i (sh_lifecycle ?sh) Runtime_Closing s"
    note o = mux_invD(1) [OF assms(1), of i]
    have c: "mux_inv c" unfolding c_def
      using o assms(2) by (intro mux_inv_moved [OF assms(1)]) (auto simp: shard_ok_def shard_states)
    have start: "wp (terminate_shard i ta) Q E s =
        wp (seqE (terminate_external_shard i ta) (on_shard i (\<lambda>x. x\<lparr>sh_cancelled := True, sh_phase := Terminated\<rparr>))) Q E c" for Q E
      using go by (auto simp: terminate_shard_def wp_rules c_def moved_phase)
    show ?thesis
    proof (cases "sh_lifecycle ?sh = Core_Quarantined")
      case True
      then have "\<not> sh_service ?sh" using o by (auto simp: shard_ok_def shard_states)
      then have "mux_inv (moved i Core_Quarantined Terminated c)"
        by (intro mux_inv_moved [OF c]) (simp_all add: c_def)
      then have "mux_inv (c\<lparr>shards := (shards c)(i := (shards c i)\<lparr>sh_cancelled := True, sh_phase := Terminated\<rparr>)\<rparr>)"
        using True by (intro mux_inv_shard) (simp_all add: c_def)
      then show ?thesis
        using True unfolding start by (simp add: wp_rules terminate_external_shard_def) (simp add: c_def)
    next
      case False
      then have live: "live_shard s i" by (rule live_unless_quarantined [OF assms])
      then have sv: "sh_service (shards c i)" "sh_phase (shards c i) = Runtime_Closing"
        "sh_lifecycle (shards c i) = sh_lifecycle ?sh" "sh_lifecycle ?sh \<noteq> Core_Closed"
        by (simp_all add: c_def live_shard_def)
      define d where "d = moved i Core_Closing Runtime_Closing c"
      have d: "mux_inv d" unfolding d_def using sv by (intro mux_inv_moved [OF c]) auto
      have e: "wp (terminate_external_shard i ta) Q E c =
          (if sh_lifecycle ?sh = Core_Ready \<or> sh_lifecycle ?sh = Core_Closing then wp (terminate_shared_workload i ta) Q E d
           else E (Fatal ''external ServerRuntimeCore runtime cannot terminate from its current lifecycle state'') c)" for Q E
        using sv False by (simp add: terminate_external_shard_def wp_rules d_def moved_lifecycle)
      have "wp (terminate_shared_workload i ta)
          (\<lambda>_. wp (on_shard i (\<lambda>x. x\<lparr>sh_cancelled := True, sh_phase := Terminated\<rparr>)) (\<lambda>_. mux_inv) (\<lambda>_. mux_inv))
          (\<lambda>_. mux_inv) d"
      proof (rule wp_mono [OF terminate_shared_workload_inv [OF d]])
        show "sh_service (shards d i)" "sh_phase (shards d i) = Runtime_Closing" using sv by (simp_all add: d_def)
        fix a t assume t: "mux_inv t \<and> sh_service (shards t i) \<and> sh_lifecycle (shards t i) = sh_lifecycle (shards d i)
            \<and> (\<not> mx_launched t \<or> (\<exists>j \<in> set (mx_servers t). \<not> signalled t j))
            \<and> (mx_preparation_failed t \<or> mx_prepared t) \<and> (launchable t \<longrightarrow> signalled t i)"
        then have "mux_inv (moved i Core_Closing Terminated t)"
          by (intro mux_inv_moved) auto
        then have "mux_inv (t\<lparr>shards := (shards t)(i := (shards t i)\<lparr>sh_cancelled := True, sh_phase := Terminated\<rparr>)\<rparr>)"
          using t by (intro mux_inv_shard) (simp_all add: d_def)
        then show "wp (on_shard i (\<lambda>x. x\<lparr>sh_cancelled := True, sh_phase := Terminated\<rparr>)) (\<lambda>_. mux_inv) (\<lambda>_. mux_inv) t"
          by (simp add: wp_on_shard)
      qed
      then show ?thesis unfolding start wp_seqE e using c by simp
    qed
  qed
qed

lemma mux_inv_dead:
  assumes "mux_inv s" and "parked_shard s i"
  shows "mux_inv (s\<lparr>shards := (shards s)(i := (shards s i)\<lparr>sh_alive := False\<rparr>)\<rparr>)"
proof -
  note a = mux_invD [OF assms(1)]
  let ?t = "s\<lparr>shards := (shards s)(i := (shards s i)\<lparr>sh_alive := False\<rparr>)\<rparr>"
  have f: "sh_service (shards ?t j) = sh_service (shards s j)" "sh_phase (shards ?t j) = sh_phase (shards s j)" for j
    by simp_all
  have g: "signalled ?t = signalled s" "launchable ?t = launchable s" by (simp_all add: signalled_def launchable_def fun_eq_iff)
  have "shard_ok ?t j" for j
  proof (cases "j = i")
    case True then show ?thesis using assms(2) by (simp add: shard_ok_def shard_states)
  qed (intro shard_ok_keep [OF a(1) [of j]]; simp)
  moreover have "mux_lists_ok ?t" using a(2) unfolding mux_lists_ok_def f by simp
  moreover have "servers_kept ?t" using a(3) by (simp add: servers_kept_def g)
  moreover have "unsignalled_bound ?t" using a(4) unfolding unsignalled_bound_def g f by simp
  moreover have "terminated_counted ?t" using a(5) by (simp add: terminated_counted_def g)
  moreover have "finisher_left ?t" using a(6) unfolding finisher_left_def g f by simp
  moreover have "mux_running_ok ?t" using a(7) unfolding mux_running_ok_def f by simp
  ultimately show ?thesis by (simp add: mux_inv_def)
qed

lemma parked_after_quarantine:
  assumes "mux_inv s" and "sh_alive (shards s i)"
  shows "parked_shard (quarantine_all {i} s) i"
  using mux_invD(1) [OF assms(1), of i] assms(2)
  by (auto simp: shard_ok_def dead_shard_def live_shard_def parked_shard_def)

lemma release_live_run:
  assumes "mux_inv s" and "live_shard s i" and "sh_lifecycle (shards s i) = Core_Constructing \<or> sh_lifecycle (shards s i) = Core_Closing"
  shows "wp (seqE (release_external_shard i) (on_shard i (sh_alive_update (\<lambda>_. False)))) Q E s =
    (let t = released i ((shards s i)\<lparr>sh_service := False, sh_holder := False, sh_lifecycle := Core_Closed, sh_alive := False\<rparr>) s
     in Q () (if unreferenced t then expired t else t))"
proof -
  let ?x = "(shards s i)\<lparr>sh_holder := False, sh_service := False\<rparr>"
  let ?u = "released i ?x s"
  let ?t = "released i ((shards s i)\<lparr>sh_service := False, sh_holder := False, sh_lifecycle := Core_Closed, sh_alive := False\<rparr>) s"
  have l: "sh_service (shards s i)" "sh_holder (shards s i)" using assms(2) by (simp_all add: live_shard_def)
  have un: "unreferenced ?t = unreferenced ?u" by (auto simp: unreferenced_def released_def)
  let ?h = "released i ((shards s i)\<lparr>sh_holder := False\<rparr>) s"
  have preserve: "wp (preserve_kernel_resources i) Q E s = Q () ?h" for Q E
    using l by (cases "mx_workload s") (simp_all add: preserve_kernel_resources_def retire_into_service_def wp_rules released_def)
  have "?h\<lparr>shards := (shards ?h)(i := sh_service_update (\<lambda>_. False) (shards ?h i))\<rparr> = ?u"
    by (simp add: released_def)
  then have drop: "wp (drop_service i) Q E ?h = Q () (if unreferenced ?u then expired ?u else ?u)" for Q E
    by (simp add: drop_service_def wp_rules)
  define w where "w = (if unreferenced ?u then expired ?u else ?u)"
  have nh: "residence_of w i \<noteq> Held" by (auto simp: w_def expired_def released_def)
  have "wp (seqE (release_external_shard i) (on_shard i (sh_alive_update (\<lambda>_. False)))) Q E s =
      Q () (w\<lparr>shards := (shards w)(i := (shards w i)\<lparr>sh_holder := False, sh_lifecycle := Core_Closed, sh_alive := False\<rparr>)\<rparr>)"
    using assms(3) nh unfolding release_external_shard_def wp_seqE wp_bindE wp_gets
    by (auto simp: wp_check wp_if wp_seqE preserve drop wp_modify wp_on_shard simp flip: w_def)
  also have "w\<lparr>shards := (shards w)(i := (shards w i)\<lparr>sh_holder := False, sh_lifecycle := Core_Closed, sh_alive := False\<rparr>)\<rparr> =
      (if unreferenced ?t then expired ?t else ?t)"
    using un by (intro mux_world.equality) (simp_all add: w_def expired_def released_def fun_eq_iff)
  also have "Q () \<dots> = (let t = ?t in Q () (if unreferenced t then expired t else t))" by (simp add: Let_def)
  finally show ?thesis .
qed

lemma destroy_quarantined_inv:
  assumes "mux_inv s" and "sh_alive (shards s i)"
  shows "mux_inv (let t = moved i Core_Quarantined Runtime_Quarantined (quarantine_all {i} s)
    in t\<lparr>shards := (shards t)(i := (shards t i)\<lparr>sh_alive := False\<rparr>)\<rparr>)"
proof -
  let ?q = "quarantine_all {i} s"
  have p: "parked_shard ?q i" by (rule parked_after_quarantine [OF assms])
  then have "mux_inv (moved i Core_Quarantined Runtime_Quarantined ?q)"
    by (intro mux_inv_moved [OF mux_inv_quarantine [OF assms(1)]]) (auto simp: parked_shard_def)
  then show ?thesis unfolding Let_def
    by (rule mux_inv_dead) (use p in \<open>simp add: parked_shard_def\<close>)
qed

lemma wp_run: "wp m Q E s \<Longrightarrow> (\<And>e t. \<not> E e t) \<Longrightarrow> \<exists>a t. m s = (Inr a, t) \<and> Q a t"
  by (auto simp: wp_def split: prod.splits sum.splits)

lemma destroy_shard_inv:
  assumes "mux_inv s" and "sh_alive (shards s i)" and "sh_phase (shards s i) = Prepared \<Longrightarrow> mx_preparation_failed s"
  shows "wp (destroy_shard i) (\<lambda>_. mux_inv) (\<lambda>_. mux_inv) s"
proof -
  let ?sh = "shards s i"
  note o = mux_invD(1) [OF assms(1), of i]
  let ?rel = "sh_lifecycle ?sh = Core_Constructing \<or> sh_lifecycle ?sh = Core_Closing"
  consider (release) "sh_phase ?sh = Prepared \<or> sh_phase ?sh = Terminated" ?rel
    | (refused) "sh_phase ?sh = Prepared \<or> sh_phase ?sh = Terminated" "\<not> ?rel"
    | (live) "sh_phase ?sh = Running \<or> sh_phase ?sh = Runtime_Closing"
    | (parked) "sh_phase ?sh = Runtime_Quarantined"
    by (cases "sh_phase ?sh") auto
  then show ?thesis
  proof cases
    case release
    then have l: "live_shard s i" using live_unless_quarantined [OF assms(1,2)] by auto
    have "\<exists>a t. release_external_shard i s = (Inr a, t) \<and> sh_lifecycle (shards t i) = Core_Closed"
      using release(2) by (intro wp_run [where E = "\<lambda>_ _. False"])
        (auto simp: release_external_shard_def preserve_kernel_resources_def retire_into_service_def drop_service_def wp_rules)
    then obtain t where t: "release_external_shard i s = (Inr (), t)" "sh_lifecycle (shards t i) = Core_Closed" by auto
    have "wp (destroy_shard i) Q E s =
        wp (seqE (release_external_shard i) (on_shard i (sh_alive_update (\<lambda>_. False)))) Q E s" for Q E
      using release(1) t by (auto simp: destroy_shard_def wp_def seqE_def bindE_def gets_def catchE_def ret_def)
    then show ?thesis
      unfolding release_live_run [OF assms(1) l release(2)] Let_def
      using release(1) assms(3) l
      by (simp only: ) (intro mux_inv_unreferenced mux_inv_released [OF assms(1)]; simp add: live_shard_def)
  next
    case refused
    then have "release_external_shard i s = (Inl (Fatal ''external ServerRuntimeCore runtime resources cannot be released while its device workload may be running''), s)"
      using o assms(2) by (auto simp: release_external_shard_def io_defs shard_ok_def shard_states)
    then have "wp (destroy_shard i) Q E s = Q () (let t = moved i Core_Quarantined Runtime_Quarantined (quarantine_all {i} s)
        in t\<lparr>shards := (shards t)(i := (shards t i)\<lparr>sh_alive := False\<rparr>)\<rparr>)" for Q E
      using refused(1)
      by (auto simp: destroy_shard_def wp_def seqE_def bindE_def gets_def catchE_def ret_def quarantine_external_run
          on_shard_def modify_def moved_def Let_def)
    then show ?thesis using destroy_quarantined_inv [OF assms(1,2)] by simp
  next
    case live
    then have "wp (destroy_shard i) Q E s = Q () (let t = moved i Core_Quarantined Runtime_Quarantined (quarantine_all {i} s)
        in t\<lparr>shards := (shards t)(i := (shards t i)\<lparr>sh_alive := False\<rparr>)\<rparr>)" for Q E
      by (auto simp: destroy_shard_def wp_def seqE_def bindE_def gets_def catchE_def ret_def quarantine_external_run
          on_shard_def modify_def moved_def Let_def)
    then show ?thesis using destroy_quarantined_inv [OF assms(1,2)] by simp
  next
    case parked
    then have p: "parked_shard s i" using o assms(2) by (auto simp: shard_ok_def shard_states)
    then show ?thesis using parked mux_inv_dead [OF assms(1) p]
      by (simp add: destroy_shard_def wp_rules parked_shard_def)
  qed
qed

lemma wp_forE_on_shards:
  "distinct js \<Longrightarrow> wp (forE js (\<lambda>j. on_shard j f)) Q E s =
     Q () (s\<lparr>shards := (\<lambda>j. if j \<in> set js then f (shards s j) else shards s j)\<rparr>)"
  by (simp add: wp_def forE_on_shards)

lemma wp_forE_quarantine:
  "distinct js \<Longrightarrow> wp (forE js quarantine_external_shard) Q E s = Q () (quarantine_all (set js) s)"
  by (simp add: wp_def forE_quarantine)

lemma mux_inv_launched:
  assumes "mux_inv s" and "launchable s" and "mx_workload s" and "length (mx_servers s) = unat (mx_shard_count s)"
    and "\<not> mx_launched s" and "sh_service (shards s i)"
  shows "mux_inv (s\<lparr>running_program := mx_program s, mx_launched := True\<rparr>)"
proof -
  note a = mux_invD [OF assms(1)]
  let ?t = "s\<lparr>running_program := mx_program s, mx_launched := True\<rparr>"
  have f: "\<not> mx_preparation_failed s" using assms(2) by (simp add: launchable_def)
  then have i: "i \<in> set (mx_servers s)" using a(2) assms(6) by (auto simp: mux_lists_ok_def)
  have g: "signalled ?t = signalled s" "launchable ?t = launchable s" by (simp_all add: signalled_def launchable_def fun_eq_iff)
  have n: "\<not> signalled s j" if "j \<in> set (mx_servers s)" for j
    using that a(5) assms(2,5) by (simp add: terminated_counted_def)
  have "shard_ok ?t j" for j by (intro shard_ok_keep [OF a(1) [of j]]) auto
  moreover have "mux_lists_ok ?t" using a(2) f assms(3,4) by (simp add: mux_lists_ok_def)
  moreover have "servers_kept ?t" using a(3) by (simp add: servers_kept_def g)
  moreover have "unsignalled_bound ?t" using a(4) by (simp add: unsignalled_bound_def g)
  moreover have "terminated_counted ?t" using a(5) by (simp add: terminated_counted_def g)
  moreover have "finisher_left ?t" using n i by (auto simp: finisher_left_def g)
  moreover have "mux_running_ok ?t" using a(2) f assms(3) by (simp add: mux_running_ok_def mux_lists_ok_def)
  ultimately show ?thesis by (simp add: mux_inv_def)
qed

lemma mux_inv_running:
  assumes "mux_inv s" and "mx_workload s" and "\<not> mx_preparation_failed s" and "parked_mux s"
    and "\<And>j. \<not> sh_service (shards s j)"
  shows "mux_inv (s\<lparr>running_program := mx_program s\<rparr>)"
proof -
  note a = mux_invD [OF assms(1)]
  let ?t = "s\<lparr>running_program := mx_program s\<rparr>"
  have g: "signalled ?t = signalled s" "launchable ?t = launchable s" by (simp_all add: signalled_def launchable_def fun_eq_iff)
  have "shard_ok ?t j" for j by (intro shard_ok_keep [OF a(1) [of j]]) auto
  moreover have "mux_lists_ok ?t" using a(2) by (simp add: mux_lists_ok_def)
  moreover have "servers_kept ?t" using a(3) by (simp add: servers_kept_def g)
  moreover have "unsignalled_bound ?t" using a(4) by (simp add: unsignalled_bound_def g)
  moreover have "terminated_counted ?t" using a(5) by (simp add: terminated_counted_def g)
  moreover have "finisher_left ?t" using a(6) by (simp add: finisher_left_def g)
  moreover have "mux_running_ok ?t" using a(2) assms(2-5) by (simp add: mux_running_ok_def mux_lists_ok_def)
  ultimately show ?thesis by (simp add: mux_inv_def)
qed

text \<open>A throwing enqueue quarantines all shards of the program, whether or not the device has got it.\<close>

lemma mux_inv_lost_enqueue:
  assumes "mux_inv s" and "mx_workload s" and "\<not> mx_preparation_failed s" and "sh_service (shards s i)"
  shows "mux_inv (quarantine_all (set (mx_servers s)) s)"
    and "mux_inv (quarantine_all (set (mx_servers s)) (s\<lparr>running_program := mx_program s\<rparr>))"
proof -
  note a = mux_invD [OF assms(1)]
  let ?q = "quarantine_all (set (mx_servers s)) s"
  show q: "mux_inv ?q" by (rule mux_inv_quarantine [OF assms(1)])
  have m: "j \<in> set (mx_servers s) \<and> sh_holder (shards s j)" if "sh_service (shards s j)" for j
    using that a(2) assms(3) shard_okD(1) [OF a(1) that] by (auto simp: mux_lists_ok_def live_shard_def)
  have "parked_mux ?q" using m [OF assms(4)] assms(4) by auto
  moreover have "\<not> sh_service (shards ?q j)" for j using m by auto
  ultimately have "mux_inv (?q\<lparr>running_program := mx_program ?q\<rparr>)"
    using assms(2,3) by (intro mux_inv_running [OF q]) simp_all
  moreover have "quarantine_all J (s\<lparr>running_program := r\<rparr>) = (quarantine_all J s)\<lparr>running_program := r\<rparr>" for J r
    by (intro mux_world.equality) (simp_all add: quarantine_all_def fun_eq_iff)
  ultimately show "mux_inv (quarantine_all (set (mx_servers s)) (s\<lparr>running_program := mx_program s\<rparr>))"
    by simp
qed

lemma quarantine_alive [simp]: "sh_alive (shards (quarantine_all J s) j) = sh_alive (shards s j)"
  "sh_phase (shards (quarantine_all J s) j) = sh_phase (shards s j)"
  by simp_all

lemma launch_shared_workload_inv:
  assumes "mux_inv s" and "live_shard s i"
  shows "wp (launch_shared_workload i enqueue)
    (\<lambda>_ t. mux_inv t \<and> sh_service (shards t i) \<and> sh_phase (shards t i) = sh_phase (shards s i))
    (\<lambda>_ t. mux_inv t \<and> sh_alive (shards t i) \<and> sh_phase (shards t i) = sh_phase (shards s i)) s"
proof (cases "mx_prepared s \<and> \<not> mx_preparation_failed s \<and> length (mx_servers s) = unat (mx_shard_count s)
    \<and> \<not> mx_launched s \<and> mx_workload s")
  case False
  then show ?thesis using assms
    by (auto simp: launch_shared_workload_def wp_rules live_shard_def)
next
  case True
  note a = mux_invD [OF assms(1)]
  have d: "distinct (mx_servers s)" using a(2) by (simp add: mux_lists_ok_def)
  define m where "m = s\<lparr>shards := (\<lambda>j. if j \<in> set (mx_servers s)
      then (shards s j)\<lparr>sh_launch_may_have_started := True\<rparr> else shards s j)\<rparr>"
  have m: "mux_inv m" unfolding m_def by (rule mux_inv_sim [OF assms(1)]) (simp add: shard_sim_def)
  have f: "mx_servers m = mx_servers s" "mx_workload m" "launchable m" "sh_service (shards m i)" "sh_alive (shards m i)"
    "sh_phase (shards m i) = sh_phase (shards s i)" "length (mx_servers m) = unat (mx_shard_count m)" "\<not> mx_launched m"
    "\<not> mx_preparation_failed m" "mx_program m = mx_program s"
    using True assms(2) by (simp_all add: m_def launchable_def live_shard_def)
  note lost = mux_inv_lost_enqueue [OF m f(2,9,4)]
  note won = mux_inv_launched [OF m f(3,2,7,8,4)]
  define v where "v = m\<lparr>running_program := mx_program m, mx_launched := True\<rparr>"
  have "mux_inv (v\<lparr>shards := (\<lambda>j. if j \<in> set (mx_servers s) then (shards m j)\<lparr>sh_workload_running := True\<rparr> else shards m j)\<rparr>)"
    using won by (intro mux_inv_sim) (simp_all add: v_def shard_sim_def)
  then show ?thesis
    using True lost f
    by (cases "snd enqueue")
      (auto simp: launch_shared_workload_def wp_rules wp_forE_on_shards [OF d] wp_forE_quarantine [OF d] v_def
        cong: if_cong simp flip: m_def)
qed

lemma quarantine_after_launch_inv:
  assumes "mux_inv s" and "sh_alive (shards s i)"
  shows "wp (seqE (on_shard i (sh_lifecycle_update (\<lambda>_. Core_Quarantined))) (quarantine_shard i))
    (\<lambda>_ t. mux_inv t \<and> sh_alive (shards t i) \<and> sh_phase (shards t i) = sh_phase (shards s i)) E s"
proof -
  let ?x = "(shards s i)\<lparr>sh_lifecycle := Core_Quarantined, sh_holder := False, sh_service := False\<rparr>"
  let ?q = "quarantine_all {i} s"
  have f: "sh_service (shards s i) = sh_holder (shards s i)"
    using mux_invD(1) [OF assms(1), of i] assms(2) by (auto simp: shard_ok_def shard_states)
  have "wp (seqE (on_shard i (sh_lifecycle_update (\<lambda>_. Core_Quarantined))) (quarantine_shard i)) Q E s =
      Q () (?q\<lparr>shards := (shards s)(i := ?x)\<rparr>)" for Q
    using f by (cases "sh_holder (shards s i)"; cases "shards s i")
      (auto simp: quarantine_shard_def wp_rules quarantine_all_def fun_eq_iff intro!: arg_cong [of _ _ "Q ()"] mux_world.equality)
  moreover have "mux_inv (?q\<lparr>shards := (shards s)(i := ?x)\<rparr>)"
  proof (rule mux_inv_sim [OF mux_inv_quarantine [OF assms(1)]])
    show "shard_sim (shards ?q j) (((shards s)(i := ?x)) j)" for j using f by (cases "j = i") (auto simp: shard_sim_def)
  qed
  ultimately show ?thesis using assms(2) by simp
qed

lemma launch_external_shard_inv:
  assumes "mux_inv s" and "sh_alive (shards s i)" and "sh_phase (shards s i) = Prepared"
  shows "wp (launch_external_shard i enqueue)
    (\<lambda>_ t. mux_inv t \<and> sh_service (shards t i) \<and> sh_phase (shards t i) = Prepared)
    (\<lambda>_ t. mux_inv t \<and> sh_alive (shards t i) \<and> sh_phase (shards t i) = Prepared) s"
proof (cases "sh_lifecycle (shards s i) = Core_Constructing")
  case False
  then show ?thesis using assms by (simp add: launch_external_shard_def wp_rules)
next
  case True
  define c where "c = s\<lparr>shards := (shards s)(i := (shards s i)\<lparr>sh_cancelled := False\<rparr>)\<rparr>"
  have c: "mux_inv c" unfolding c_def by (rule on_shard_sim [OF assms(1)]) (simp add: shard_sim_def)
  have l: "live_shard c i" using True assms(2) by (intro live_unless_quarantined [OF c]) (simp_all add: c_def)
  have p: "sh_phase (shards c i) = Prepared" using assms(3) by (simp add: c_def)
  have "wp (launch_shared_workload i enqueue)
      (\<lambda>_. wp (on_shard i (sh_lifecycle_update (\<lambda>_. Core_Ready)))
         (\<lambda>_ t. mux_inv t \<and> sh_service (shards t i) \<and> sh_phase (shards t i) = Prepared)
         (\<lambda>_ t. mux_inv t \<and> sh_alive (shards t i) \<and> sh_phase (shards t i) = Prepared))
      (\<lambda>e. wp (bindE (gets (\<lambda>s. sh_launch_may_have_started (shards s i))) (\<lambda>may.
           seqE (whenE may (seqE (on_shard i (sh_lifecycle_update (\<lambda>_. Core_Quarantined))) (quarantine_shard i))) (throw e)))
         (\<lambda>_. wp (on_shard i (sh_lifecycle_update (\<lambda>_. Core_Ready)))
           (\<lambda>_ t. mux_inv t \<and> sh_service (shards t i) \<and> sh_phase (shards t i) = Prepared)
           (\<lambda>_ t. mux_inv t \<and> sh_alive (shards t i) \<and> sh_phase (shards t i) = Prepared))
         (\<lambda>_ t. mux_inv t \<and> sh_alive (shards t i) \<and> sh_phase (shards t i) = Prepared)) c"
  proof (rule wp_mono [OF launch_shared_workload_inv [OF c l]])
    fix a t assume t: "mux_inv t \<and> sh_service (shards t i) \<and> sh_phase (shards t i) = sh_phase (shards c i)"
    then have "mux_inv (moved i Core_Ready Prepared t)" using p by (intro mux_inv_moved) auto
    then show "wp (on_shard i (sh_lifecycle_update (\<lambda>_. Core_Ready)))
         (\<lambda>_ t. mux_inv t \<and> sh_service (shards t i) \<and> sh_phase (shards t i) = Prepared)
         (\<lambda>_ t. mux_inv t \<and> sh_alive (shards t i) \<and> sh_phase (shards t i) = Prepared) t"
      using t p by (simp add: wp_on_shard moved_lifecycle)
  next
    fix e t assume t: "mux_inv t \<and> sh_alive (shards t i) \<and> sh_phase (shards t i) = sh_phase (shards c i)"
    note q = quarantine_after_launch_inv [OF conjunct1 [OF t] conjunct1 [OF conjunct2 [OF t]]]
    show "wp (bindE (gets (\<lambda>s. sh_launch_may_have_started (shards s i))) (\<lambda>may.
           seqE (whenE may (seqE (on_shard i (sh_lifecycle_update (\<lambda>_. Core_Quarantined))) (quarantine_shard i))) (throw e)))
         (\<lambda>_. wp (on_shard i (sh_lifecycle_update (\<lambda>_. Core_Ready)))
           (\<lambda>_ t. mux_inv t \<and> sh_service (shards t i) \<and> sh_phase (shards t i) = Prepared)
           (\<lambda>_ t. mux_inv t \<and> sh_alive (shards t i) \<and> sh_phase (shards t i) = Prepared))
         (\<lambda>_ t. mux_inv t \<and> sh_alive (shards t i) \<and> sh_phase (shards t i) = Prepared) t"
      unfolding wp_bindE wp_gets wp_seqE [of "whenE _ _"] wp_whenE wp_throw using t p q by simp
  qed
  then show ?thesis using True unfolding launch_external_shard_def
    by (simp only: wp_bindE wp_gets wp_seqE wp_check wp_on_shard wp_catchE c_def simp_thms if_True)
qed

lemma launch_shard_inv:
  assumes "mux_inv s" and "sh_alive (shards s i)"
  shows "wp (launch_shard i enqueue) (\<lambda>_. mux_inv) (\<lambda>_. mux_inv) s"
proof (cases "sh_phase (shards s i) = Prepared")
  case False
  then show ?thesis using assms by (simp add: launch_shard_def wp_rules)
next
  case True
  have "wp (launch_external_shard i enqueue)
      (\<lambda>_. wp (on_shard i (sh_phase_update (\<lambda>_. Running))) (\<lambda>_. mux_inv) (\<lambda>_. mux_inv))
      (\<lambda>e. wp (seqE (on_shard i (\<lambda>x. if sh_lifecycle x = Core_Quarantined then x\<lparr>sh_phase := Runtime_Quarantined\<rparr> else x)) (throw e))
         (\<lambda>_. wp (on_shard i (sh_phase_update (\<lambda>_. Running))) (\<lambda>_. mux_inv) (\<lambda>_. mux_inv)) (\<lambda>_. mux_inv)) s"
  proof (rule wp_mono [OF launch_external_shard_inv [OF assms True]])
    fix a t assume t: "mux_inv t \<and> sh_service (shards t i) \<and> sh_phase (shards t i) = Prepared"
    then have l: "live_shard t i" using shard_okD(1) [OF mux_invD(1)] by blast
    then have "mux_inv (moved i (sh_lifecycle (shards t i)) Running t)"
      using t by (intro mux_inv_moved) (auto simp: live_shard_def)
    then show "wp (on_shard i (sh_phase_update (\<lambda>_. Running))) (\<lambda>_. mux_inv) (\<lambda>_. mux_inv) t"
      by (simp add: wp_on_shard moved_phase)
  next
    fix e t assume t: "mux_inv t \<and> sh_alive (shards t i) \<and> sh_phase (shards t i) = Prepared"
    note o = mux_invD(1) [OF conjunct1 [OF t], of i]
    have "mux_inv (moved i Core_Quarantined Runtime_Quarantined t)" if "sh_lifecycle (shards t i) = Core_Quarantined"
      using t o that by (intro mux_inv_moved) (auto simp: shard_ok_def shard_states)
    then show "wp (seqE (on_shard i (\<lambda>x. if sh_lifecycle x = Core_Quarantined then x\<lparr>sh_phase := Runtime_Quarantined\<rparr> else x)) (throw e))
         (\<lambda>_. wp (on_shard i (sh_phase_update (\<lambda>_. Running))) (\<lambda>_. mux_inv) (\<lambda>_. mux_inv)) (\<lambda>_. mux_inv) t"
      using t by (auto simp: wp_rules moved_phase)
  qed
  then show ?thesis using True unfolding launch_shard_def
    by (simp only: wp_bindE wp_gets wp_seqE wp_check wp_catchE simp_thms if_True)
qed

definition joined :: "nat \<Rightarrow> shard \<Rightarrow> residence \<Rightarrow> mux_world \<Rightarrow> mux_world" where
  "joined i x r s = s\<lparr>known_shards := i # known_shards s, shards := (shards s)(i := x),
     residence_of := (residence_of s)(i := r)\<rparr>"

lemma joined_fields [simp]:
  "shards (joined i x r s) j = (if j = i then x else shards s j)"
  "residence_of (joined i x r s) j = (if j = i then r else residence_of s j)"
  "known_shards (joined i x r s) = i # known_shards s"
  "parked_mux (joined i x r s) = parked_mux s" "mx_servers (joined i x r s) = mx_servers s"
  "mx_retired (joined i x r s) = mx_retired s" "mx_launched (joined i x r s) = mx_launched s"
  "mx_workload (joined i x r s) = mx_workload s" "mx_prepared (joined i x r s) = mx_prepared s"
  "mx_preparation_failed (joined i x r s) = mx_preparation_failed s" "mux_exists (joined i x r s) = mux_exists s"
  "mx_program (joined i x r s) = mx_program s" "mx_shard_count (joined i x r s) = mx_shard_count s"
  "mx_terminated (joined i x r s) = mx_terminated s" "running_program (joined i x r s) = running_program s"
  "launchable (joined i x r s) = launchable s"
  by (simp_all add: joined_def launchable_def)

definition created_mux :: "u32 \<Rightarrow> mux_world \<Rightarrow> mux_world" where
  "created_mux n s = s\<lparr>mux_exists := True, mx_shard_count := n, mx_servers := [], mx_program := [],
     mx_retired := [], mx_terminated := 0, mx_prepared := False, mx_preparation_failed := False,
     mx_workload := False, mx_launched := False\<rparr>"

lemma mux_inv_created:
  assumes "mux_inv s" and "\<not> mux_exists s"
  shows "mux_inv (created_mux n s)"
proof -
  note a = mux_invD [OF assms(1)]
  have w: "\<not> mx_workload s" "\<not> parked_mux s" using a(2) assms(2) by (auto simp: mux_lists_ok_def)
  have n: "\<not> sh_service (shards s j)" for j
    using shard_okD(1) [OF a(1) [of j]] assms(2) by (auto simp: live_shard_def)
  have "running_program s = []" using a(7) w by (auto simp: mux_running_ok_def)
  moreover have "shard_ok (created_mux n s) j" for j
    using a(1) [of j] n w by (auto simp: shard_ok_def shard_states created_mux_def)
  ultimately show ?thesis using n w
    by (simp add: mux_inv_def mux_lists_ok_def servers_kept_def unsignalled_bound_def terminated_counted_def
        finisher_left_def mux_running_ok_def launchable_def) (simp add: created_mux_def)
qed

lemma mux_inv_joined_dead:
  assumes "mux_inv s" and "i \<notin> set (known_shards s)" and "\<not> sh_alive x" and "\<not> sh_holder x" and "\<not> sh_service x"
  shows "mux_inv (joined i x Freed s)"
proof -
  note a = mux_invD [OF assms(1)]
  have m: "i \<notin> set (mx_servers s)" using a(2) assms(2) by (auto simp: mux_lists_ok_def)
  have out: "\<not> sh_service (shards s i)" "\<not> sh_holder (shards s i)"
    using a(1) [of i] assms(2) by (auto simp: shard_ok_def shard_states)
  have sv: "sh_service (shards (joined i x Freed s) j) = sh_service (shards s j)" for j using assms(5) out by simp
  have sg: "j \<in> set (mx_servers s) \<Longrightarrow> signalled (joined i x Freed s) j = signalled s j" for j
    using m by (auto simp: signalled_def)
  have "shard_ok (joined i x Freed s) j" for j
  proof (cases "j = i")
    case True then show ?thesis using assms(3-5) by (simp add: shard_ok_def dead_shard_def)
  qed (intro shard_ok_keep [OF a(1) [of j]]; auto)
  moreover have "mux_lists_ok (joined i x Freed s)"
    using a(2) assms(2) unfolding mux_lists_ok_def sv by auto
  moreover have "servers_kept (joined i x Freed s)" using a(3) m by (auto simp: servers_kept_def)
  moreover have "unsignalled_bound (joined i x Freed s)"
    using a(4) m sg by (auto simp: unsignalled_bound_def)
  moreover have "terminated_counted (joined i x Freed s)"
    using a(5) sg by (simp add: terminated_counted_def cong: filter_cong)
  moreover have "finisher_left (joined i x Freed s)" using a(6) m sg by (fastforce simp: finisher_left_def)
  moreover have "mux_running_ok (joined i x Freed s)" using a(7) unfolding mux_running_ok_def sv by simp
  ultimately show ?thesis by (simp add: mux_inv_def)
qed

lemma mux_inv_joined:
  assumes "mux_inv s" and "i \<notin> set (known_shards s)" and "mux_exists s" and "\<not> mx_preparation_failed s"
    and "\<not> mx_prepared s" and "\<not> mx_launched s"
  shows "mux_inv ((joined i ((blank_shard wg)\<lparr>sh_service := True\<rparr>) Held s)
    \<lparr>mx_program := mx_program s @ [i], mx_servers := mx_servers s @ [i], mx_workload := w, mx_prepared := w\<rparr>)" (is "mux_inv ?t")
proof -
  note a = mux_invD [OF assms(1)]
  have m: "i \<notin> set (mx_servers s)" "\<not> mx_workload s" "mx_retired s = []" "running_program s = []"
    using a(2,7) assms(2,5) by (auto simp: mux_lists_ok_def mux_running_ok_def)
  have l: "launchable s" "launchable ?t" using assms(4,5) by (auto simp: launchable_def)
  have sg: "signalled ?t j \<longleftrightarrow> j \<noteq> i \<and> signalled s j" for j by (simp add: signalled_def blank_shard_def)
  have none: "\<not> signalled s j" if "j \<in> set (mx_servers s)" for j
    using that a(5) l(1) assms(6) by (simp add: terminated_counted_def)
  have "shard_ok ?t j" for j
  proof (cases "j = i")
    case True then show ?thesis using assms(3) by (simp add: shard_ok_def live_shard_def blank_shard_def)
  qed (intro shard_ok_keep [OF a(1) [of j]]; auto simp: assms(4,5))
  moreover have "mux_lists_ok ?t"
    using a(2) assms(2-6) m by (auto simp: mux_lists_ok_def)
  moreover have "servers_kept ?t" using a(3) l m by (auto simp: servers_kept_def)
  moreover have "unsignalled_bound ?t"
    using a(4) l m none by (auto simp: unsignalled_bound_def blank_shard_def)
  moreover have "filter (signalled ?t) (mx_servers ?t) = []" using none sg by (auto simp: filter_empty_conv)
  moreover have "filter (signalled s) (mx_servers s) = []" using none by (simp add: filter_empty_conv)
  ultimately show ?thesis
    using a(5) l assms(6) m none sg
    by (simp add: mux_inv_def terminated_counted_def finisher_left_def mux_running_ok_def)
qed

text \<open>The end of a constructor that fails.\<close>

definition abandoned :: "nat \<Rightarrow> mux_world \<Rightarrow> mux_world" where
  "abandoned i t = (let u = t\<lparr>residence_of := (residence_of t)(i := Freed),
       shards := (shards t)(i := (shards t i)\<lparr>sh_alive := False, sh_holder := False, sh_service := False\<rparr>)\<rparr>
     in if unreferenced u then expired u else u)"

lemma abandon_run:
  "wp (seqE (on_shard i (\<lambda>x. x\<lparr>sh_alive := False, sh_holder := False\<rparr>))
         (seqE (move_resources i Freed) (seqE (drop_service i) (throw e)))) Q E t = E e (abandoned i t)"
  by (simp add: wp_rules drop_service_def abandoned_def Let_def)

lemma mux_inv_abandoned:
  assumes "mux_inv b" and "i \<notin> set (known_shards b)"
    and "t = joined i y r b \<or> \<not> mx_prepared b \<and> \<not> mx_launched b \<and> distinct q \<and> set q \<subseteq> set (i # known_shards b)
       \<and> t = (joined i y r b)\<lparr>mx_program := p, mx_servers := q, mx_preparation_failed := True\<rparr>"
  shows "mux_inv (abandoned i t)"
proof -
  let ?x = "y\<lparr>sh_alive := False, sh_holder := False, sh_service := False\<rparr>"
  let ?u = "t\<lparr>residence_of := (residence_of t)(i := Freed),
       shards := (shards t)(i := (shards t i)\<lparr>sh_alive := False, sh_holder := False, sh_service := False\<rparr>)\<rparr>"
  have d: "mux_inv (joined i ?x Freed b)" by (rule mux_inv_joined_dead [OF assms(1,2)]) simp_all
  have "running_program b = []" if "\<not> mx_prepared b"
    using that mux_invD(2,7) [OF assms(1)] by (auto simp: mux_lists_ok_def mux_running_ok_def)
  then have f: "mux_inv ((joined i ?x Freed b)\<lparr>mx_program := p, mx_servers := q, mx_preparation_failed := True\<rparr>)"
    if "\<not> mx_prepared b" "\<not> mx_launched b" "distinct q" "set q \<subseteq> set (i # known_shards b)"
    using that by (intro mux_inv_failed(2) [OF d]) simp_all
  from assms(3) have "?u = joined i ?x Freed b \<or> \<not> mx_prepared b \<and> \<not> mx_launched b \<and> distinct q \<and> set q \<subseteq> set (i # known_shards b)
       \<and> ?u = (joined i ?x Freed b)\<lparr>mx_program := p, mx_servers := q, mx_preparation_failed := True\<rparr>"
    by (cases b) (auto simp: joined_def)
  then have "mux_inv ?u" using d f by auto
  then show ?thesis unfolding abandoned_def Let_def by (rule mux_inv_unreferenced)
qed

lemma wp_create_mux_service:
  assumes "\<And>e. E e s" and "Q () (created_mux n s)"
  shows "wp (create_mux_service n platform) Q E s"
  using assms by (auto simp: create_mux_service_def wp_rules created_mux_def split: option.split)

lemma append_shard_inv:
  assumes "mux_inv b" and "i \<notin> set (known_shards b)" and "mux_exists b" and "\<not> mx_preparation_failed b"
    and "\<not> mx_prepared b" and "\<not> mx_launched b" and "x = (blank_shard wg)\<lparr>sh_service := True\<rparr>"
  shows "wp (append_shard i n pa) (\<lambda>_. mux_inv) (\<lambda>_ t. mux_inv (abandoned i t)) (joined i x Held b)"
proof -
  have l: "distinct (mx_servers b)" "set (mx_servers b) \<subseteq> set (known_shards b)" "\<not> mx_workload b"
    using mux_invD(2) [OF assms(1)] assms(5) by (auto simp: mux_lists_ok_def)
  have i: "i \<notin> set (mx_servers b)" using l(2) assms(2) by auto
  let ?j = "joined i x Held b"
  have ok: "mux_inv (?j\<lparr>mx_program := mx_program b @ [i], mx_servers := mx_servers b @ [i]\<rparr>)"
    "mux_inv (?j\<lparr>mx_program := mx_program b @ [i], mx_servers := mx_servers b @ [i], mx_workload := True, mx_prepared := True\<rparr>)"
  proof -
    have "?j\<lparr>mx_program := p, mx_servers := q, mx_workload := False, mx_prepared := False\<rparr> = ?j\<lparr>mx_program := p, mx_servers := q\<rparr>" for p q
      using l(3) assms(5) by (cases b) (simp add: joined_def)
    then show "mux_inv (?j\<lparr>mx_program := mx_program b @ [i], mx_servers := mx_servers b @ [i]\<rparr>)"
      using mux_inv_joined [OF assms(1-6), where wg = wg and w = False] assms(7) by simp
    show "mux_inv (?j\<lparr>mx_program := mx_program b @ [i], mx_servers := mx_servers b @ [i], mx_workload := True, mx_prepared := True\<rparr>)"
      using mux_inv_joined [OF assms(1-6), where wg = wg and w = True] assms(7) by simp
  qed
  have bad: "mux_inv (abandoned i (?j\<lparr>mx_program := p, mx_servers := q, mx_preparation_failed := True\<rparr>))"
    if "distinct q" "set q \<subseteq> set (i # known_shards b)" for p q
    using that assms(5,6) by (intro mux_inv_abandoned [OF assms(1,2)]) blast
  have bad': "mux_inv (abandoned i (?j\<lparr>mx_program := p, mx_preparation_failed := True\<rparr>))"
    "mux_inv (abandoned i (?j\<lparr>mx_program := p, mx_servers := mx_servers b, mx_preparation_failed := True\<rparr>))" for p
  proof -
    have eq: "?j\<lparr>mx_program := p, mx_servers := mx_servers b, mx_preparation_failed := True\<rparr> = ?j\<lparr>mx_program := p, mx_preparation_failed := True\<rparr>"
      by (cases b) (simp add: joined_def)
    show all: "mux_inv (abandoned i (?j\<lparr>mx_program := p, mx_servers := mx_servers b, mx_preparation_failed := True\<rparr>))"
      using l(1,2) by (intro bad) auto
    show "mux_inv (abandoned i (?j\<lparr>mx_program := p, mx_preparation_failed := True\<rparr>))"
      by (rule all [unfolded eq])
  qed
  show ?thesis
    using ok bad [of "mx_servers b @ [i]"] bad' l(1,2) i
    by (auto simp: append_shard_def seal_shared_program_def wp_rules split: option.split)
qed

lemma create_shard_inv:
  assumes "mux_inv s" and "i \<notin> set (known_shards s)"
  shows "wp (create_shard i wg n pa) (\<lambda>_. mux_inv) (\<lambda>_. mux_inv) s"
proof -
  let ?k = "joined i (blank_shard wg) Held s"
  let ?x = "(blank_shard wg)\<lparr>sh_service := True\<rparr>"
  define b where "b = (if mux_exists s then s else created_mux n s)"
  have b: "mux_inv b" "i \<notin> set (known_shards b)" "mux_exists b"
    using assms mux_inv_created by (auto simp: b_def created_mux_def)
  have start: "mux_inv (abandoned i ?k)" by (rule mux_inv_abandoned [OF assms disjI1]) rule
  have checked: "mux_inv (abandoned i (joined i ?x Held b))" by (rule mux_inv_abandoned [OF b(1,2) disjI1]) rule
  have tail: "wp (bindE (gets (\<lambda>s. s)) (\<lambda>s.
       seqE (check (mx_shard_count s = n) (Fatal ''all KVM Server shards must agree on T3KNIC_SERVER_SHARDS''))
      (seqE (check (\<not> mx_preparation_failed s) (Fatal ''the shared KVM MUX program cannot be reused''))
      (seqE (check (\<not> mx_prepared s \<and> \<not> mx_launched s)
               (Fatal ''cannot append a KVM Server shard after the shared MUX program was prepared''))
            (append_shard i n pa)))))
      (\<lambda>_. mux_inv) (\<lambda>_ t. mux_inv (abandoned i t)) (joined i ?x Held b)"
    using checked append_shard_inv [OF b, of ?x wg n pa] by (simp add: wp_bindE wp_gets wp_seqE wp_check)
  have eq: "(joined i (blank_shard wg) Held s)\<lparr>shards := (shards ?k)(i := ?x)\<rparr> = joined i ?x Held s"
    "(created_mux n ?k)\<lparr>shards := (shards (created_mux n ?k))(i := (shards (created_mux n ?k) i)\<lparr>sh_service := True\<rparr>)\<rparr>
       = joined i ?x Held (created_mux n s)"
    by (cases s; simp add: joined_def created_mux_def)+
  have "wp (prepare_shared_program i n pa) (\<lambda>_. mux_inv) (\<lambda>_ t. mux_inv (abandoned i t)) ?k"
  proof (cases "mux_exists s")
    case True
    then show ?thesis using start tail eq(1)
      by (simp add: prepare_shared_program_def wp_bindE [of "gets (\<lambda>s. (mux_exists s, sh_group (shards s i)))"] wp_gets wp_seqE
          wp_check wp_whenE wp_on_shard b_def)
  next
    case False
    have "wp (create_mux_service n (pr_platform pa))
        (\<lambda>_. wp (seqE (on_shard i (sh_service_update (\<lambda>_. True))) (bindE (gets (\<lambda>s. s)) (\<lambda>s.
           seqE (check (mx_shard_count s = n) (Fatal ''all KVM Server shards must agree on T3KNIC_SERVER_SHARDS''))
          (seqE (check (\<not> mx_preparation_failed s) (Fatal ''the shared KVM MUX program cannot be reused''))
          (seqE (check (\<not> mx_prepared s \<and> \<not> mx_launched s)
                   (Fatal ''cannot append a KVM Server shard after the shared MUX program was prepared''))
                (append_shard i n pa))))))
          (\<lambda>_. mux_inv) (\<lambda>_ t. mux_inv (abandoned i t)))
        (\<lambda>_ t. mux_inv (abandoned i t)) ?k"
      by (rule wp_create_mux_service)
        (use start tail eq(2) False in \<open>simp_all only: b_def if_False wp_seqE [of "on_shard _ _"] wp_on_shard\<close>)
    then show ?thesis using start False
      by (simp add: prepare_shared_program_def wp_bindE [of "gets (\<lambda>s. (mux_exists s, sh_group (shards s i)))"] wp_gets wp_seqE
          wp_check wp_whenE wp_on_shard)
  qed
  moreover have "s\<lparr>known_shards := i # known_shards s, shards := (shards s)(i := blank_shard wg),
      residence_of := (residence_of s)(i := Held)\<rparr> = ?k" by (simp add: joined_def)
  ultimately show ?thesis
    by (simp add: create_shard_def wp_seqE [of "modify _"] wp_seqE [of "on_shard _ (\<lambda>_. blank_shard wg)"]
        wp_seqE [of "move_resources i Held"] wp_modify wp_on_shard wp_move_resources wp_catchE abandon_run [abs_def])
qed

lemma mux_call_inv:
  assumes "mux_inv s" and "callable s c" and "orderly s c"
  shows "mux_inv (snd (mux_call_step c s))"
proof -
  have "wp (mux_call_step c) (\<lambda>_. mux_inv) (\<lambda>_. mux_inv) s"
    using assms create_shard_inv launch_shard_inv terminate_shard_inv destroy_shard_inv by (cases c) auto
  then show ?thesis by (cases "mux_call_step c s") (auto simp: wp_def split: sum.splits)
qed

lemma mux_calls_inv: "mux_inv s \<Longrightarrow> calls_ok cs s \<Longrightarrow> mux_inv (run_calls cs s)"
  by (induction cs arbitrary: s) (auto intro: mux_call_inv)


definition fine_prepare :: prepare_answers where
  "fine_prepare = \<lparr>pr_links = True, pr_platform = None, pr_append = None, pr_compile = None\<rparr>"

definition fine_terminate :: terminate_answers where
  "fine_terminate = \<lparr>tm_signal = None, tm_finish = None\<rparr>"

text \<open>Two shards; the second launches for both, the first terminates and is destroyed.\<close>

definition demo_calls :: "mux_call list" where
  "demo_calls = [Create 0 0 2 fine_prepare, Launch 0 (False, None), Create 1 1 2 fine_prepare, Launch 1 (False, None),
     Terminate 0 fine_terminate, Destroy 0]"

lemmas mux_runs = create_shard_def launch_shard_def terminate_shard_def destroy_shard_def prepare_shared_program_def
  create_mux_service_def append_shard_def seal_shared_program_def launch_external_shard_def launch_shared_workload_def terminate_external_shard_def
  terminate_shared_workload_def release_external_shard_def preserve_kernel_resources_def retire_into_service_def drop_service_def
  release_unreferenced_mux_def quarantine_external_shard_def quarantine_shard_def on_shard_def move_resources_def
  raise_if_def io_defs fine_prepare_def fine_terminate_def blank_shard_def mux_lane_channels_def kMuxLinks_def

lemma demo_calls_run:
  "calls_ok demo_calls no_shards" "running_program (run_calls demo_calls no_shards) = [0, 1]"
  by (simp_all add: demo_calls_def mux_runs no_shards_def)



end
