(* ===== verification/Server_Peers.thy ===== *)
theory Server_Peers
  imports Client_Connection Mux_Service
begin

text \<open>
  Which fabric connections a server opens and what its kernel finds for a client's chip: the peer part of
  \<^verbatim>\<open>ServerRuntimeCore::prepare_server_kernel\<close> (\<^verbatim>\<open>server_program.cpp\<close>) with the wire functions of
  \<^verbatim>\<open>fabric_helpers.hpp\<close>, and the kernel's \<^verbatim>\<open>peer_lookup\<close>. What the control plane knows (neighbours, forwarding
  directions and links) is the argument \<open>wire_plane\<close>; a direction is the byte of \<^verbatim>\<open>eth_chan_directions\<close>.
\<close>

section \<open>The wire\<close>

record wire_plane =
  pl_2d :: bool
  pl_neighbor_directions :: "fabric_node \<Rightarrow> fabric_node \<Rightarrow> byte list"
  pl_forwarding_direction :: "fabric_node \<Rightarrow> fabric_node \<Rightarrow> byte option"
  pl_forwarding_links :: "fabric_node \<Rightarrow> fabric_node \<Rightarrow> u32 list"
  pl_link_index :: env_u64

definition kDirectNeighborHopCount :: u32 where "kDirectNeighborHopCount = 1"
definition kPeerLookupTableMaxEntries :: u32 where "kPeerLookupTableMaxEntries = 32"
definition kPeerLookupEmptySentinel :: u32 where "kPeerLookupEmptySentinel = 0xFFFFFFFF"
definition kMaxServerConnections :: u32 where "kMaxServerConnections = 5"

definition kvcache_unicast_route_word :: "wire_plane \<Rightarrow> fabric_node \<Rightarrow> fault + u32" where
  "kvcache_unicast_route_word pl dst =
     (if \<not> pl_2d pl then Inr kDirectNeighborHopCount
      else sum_bind (ensure [(fn_mesh_id dst \<le> 0xFFFF \<and> fn_chip_id dst \<le> 0xFFFF,
                      Fatal ''FabricNodeId does not fit the 16-bit wire route encoding'')])
             (\<lambda>_. Inr (or (push_bit 16 (fn_mesh_id dst)) (fn_chip_id dst))))"

definition is_direct_fabric_neighbor :: "wire_plane \<Rightarrow> fabric_node \<Rightarrow> fabric_node \<Rightarrow> bool" where
  "is_direct_fabric_neighbor pl src dst =
     (if fn_mesh_id src \<noteq> fn_mesh_id dst then False else pl_neighbor_directions pl src dst \<noteq> [])"

definition kvcache_first_hop_direction :: "wire_plane \<Rightarrow> fabric_node \<Rightarrow> fabric_node \<Rightarrow> byte option" where
  "kvcache_first_hop_direction pl src dst =
     (if fn_mesh_id src \<noteq> fn_mesh_id dst then None
      else if \<not> pl_2d pl then
        (case pl_neighbor_directions pl src dst of [] \<Rightarrow> None | d # _ \<Rightarrow> Some d)
      else pl_forwarding_direction pl src dst)"

definition is_kvcache_wire_reachable :: "wire_plane \<Rightarrow> fabric_node \<Rightarrow> fabric_node \<Rightarrow> bool" where
  "is_kvcache_wire_reachable pl first second =
     (if \<not> pl_2d pl then is_direct_fabric_neighbor pl first second \<and> is_direct_fabric_neighbor pl second first
      else if fn_mesh_id first \<noteq> fn_mesh_id second then False
      else pl_forwarding_links pl first second \<noteq> [] \<and> pl_forwarding_links pl second first \<noteq> [])"

definition kvcache_requested_wire_link_index :: "wire_plane \<Rightarrow> fault + u32 option" where
  "kvcache_requested_wire_link_index pl =
     sum_bind (pl_link_index pl) (\<lambda>requested.
       case requested of
         None \<Rightarrow> Inr None
       | Some l \<Rightarrow> sum_bind (ensure [(l \<le> 0xFFFFFFFF, Fatal ''KVM_WIRE_LINK_INDEX exceeds the uint32 link-index range'')])
                     (\<lambda>_. Inr (Some (ucast l))))"

definition kvcache_wire_link_indices :: "wire_plane \<Rightarrow> fabric_node \<Rightarrow> fabric_node \<Rightarrow> fault + u32 list" where
  "kvcache_wire_link_indices pl src dst =
     (if \<not> pl_2d pl then Inr [0]
      else
        (let links = pl_forwarding_links pl src dst in
         sum_bind (ensure [(links \<noteq> [], Fatal ''no fabric forwarding link'')]) (\<lambda>_.
         sum_bind (kvcache_requested_wire_link_index pl) (\<lambda>requested.
         case requested of
           None \<Rightarrow> Inr links
         | Some wanted \<Rightarrow>
             sum_bind (ensure [(wanted \<in> set links, Fatal ''KVM_WIRE_LINK_INDEX cannot forward between the chips'')])
               (\<lambda>_. Inr [wanted])))))"

section \<open>Enumerating the peers\<close>

record peer_enumeration =
  direction_to_conn_idx :: "(byte \<times> u32) list"
  connection_peers :: "fabric_node list"
  connection_links :: "u32 list list"
  peer_entries :: "(u32 \<times> u32 \<times> u32) list"
  unregisterable_peers :: "u32 list"
  next_conn_idx :: u32

definition no_peers :: peer_enumeration where
  "no_peers = \<lparr>direction_to_conn_idx = [], connection_peers = [], connection_links = [], peer_entries = [],
     unregisterable_peers = [], next_conn_idx = 0\<rparr>"

text \<open>A peer on a direction: the first opens the connection, a later one narrows its links.\<close>

definition assign_connection ::
  "byte \<Rightarrow> fabric_node \<Rightarrow> u32 list \<Rightarrow> peer_enumeration \<Rightarrow> fault + u32 \<times> peer_enumeration" where
  "assign_connection dir peer peer_links st =
     (case map_of (direction_to_conn_idx st) dir of
        None \<Rightarrow>
          Inr (next_conn_idx st,
               st\<lparr>next_conn_idx := next_conn_idx st + 1,
                  direction_to_conn_idx := (dir, next_conn_idx st) # direction_to_conn_idx st,
                  connection_peers := connection_peers st @ [peer],
                  connection_links := connection_links st @ [peer_links]\<rparr>)
      | Some conn_idx \<Rightarrow>
          (let common_links = [link \<leftarrow> connection_links st ! unat conn_idx. link \<in> set peer_links] in
           sum_bind (ensure [(common_links \<noteq> [],
               Fatal ''peers sharing one first-hop direction have no common forwarding link plane'')])
             (\<lambda>_. Inr (conn_idx, st\<lparr>connection_links := (connection_links st)[unat conn_idx := common_links]\<rparr>))))"

definition add_peer :: "wire_plane \<Rightarrow> fabric_node \<Rightarrow> fabric_node \<Rightarrow> peer_enumeration \<Rightarrow> fault + peer_enumeration" where
  "add_peer pl server peer st =
     (if fn_mesh_id peer = fn_mesh_id server \<and> fn_chip_id peer = fn_chip_id server then Inr st
      else if \<not> is_kvcache_wire_reachable pl server peer then Inr st
      else if kPeerLookupTableMaxEntries \<le> fn_chip_id peer then
        Inr (st\<lparr>unregisterable_peers := unregisterable_peers st @ [fn_chip_id peer]\<rparr>)
      else
        case kvcache_first_hop_direction pl server peer of
          None \<Rightarrow> Inl (Fatal ''peer chip is reachable but has no forwarding direction'')
        | Some dir \<Rightarrow>
            sum_bind (kvcache_unicast_route_word pl peer) (\<lambda>route_word.
            sum_bind (kvcache_wire_link_indices pl server peer) (\<lambda>peer_links.
            sum_bind (assign_connection dir peer peer_links st) (\<lambda>(conn_idx, st').
            Inr (st'\<lparr>peer_entries := peer_entries st' @ [(fn_chip_id peer, conn_idx, route_word)]\<rparr>)))))"

fun enumerate_peers :: "wire_plane \<Rightarrow> fabric_node \<Rightarrow> fabric_node list \<Rightarrow> peer_enumeration \<Rightarrow> fault + peer_enumeration" where
  "enumerate_peers pl server [] st = Inr st"
| "enumerate_peers pl server (peer # coords) st =
     sum_bind (add_peer pl server peer st) (\<lambda>st'. enumerate_peers pl server coords st')"

text \<open>A connection of the server's kernel, in the order in which the runtime arguments name them.\<close>

datatype server_link =
    Endpoint_Lane u32
  | Mux_Channel u32 byte
  | Peer_Link fabric_node fabric_node u32

definition standard_connections ::
  "wire_plane \<Rightarrow> fabric_node \<Rightarrow> fabric_node list \<Rightarrow> fault + server_link list \<times> (u32 \<times> u32 \<times> u32) list" where
  "standard_connections pl server coords =
     sum_bind (enumerate_peers pl server coords no_peers) (\<lambda>st.
       let num_connections = of_nat (length (direction_to_conn_idx st)) :: u32 in
       sum_bind (ensure
         [(num_connections \<le> kMaxServerConnections, Fatal ''more fabric connections than the server kernel holds''),
          (length (connection_peers st) = unat num_connections \<and> length (connection_links st) = unat num_connections,
           Fatal ''connection_peers and connection_links have another length''),
          ([] \<notin> set (connection_links st), Fatal ''connection_links is empty'')])
         (\<lambda>_. Inr (map (\<lambda>(peer, links). Peer_Link server peer (hd links)) (zip (connection_peers st) (connection_links st)),
                   peer_entries st)))"

section \<open>The static endpoint\<close>

definition provisional_route :: "u32 \<Rightarrow> u32 \<Rightarrow> u32" where
  "provisional_route remote_mesh galaxy_chip_id =
     pack_return_route galaxy_chip_id remote_mesh (galaxy_chip_id div 4) (galaxy_chip_id mod 4) 1 1"

definition static_peer_entries :: "bool \<Rightarrow> u32 \<Rightarrow> u32 \<Rightarrow> (u32 \<times> u32 \<times> u32) list" where
  "static_peer_entries mux num_connections remote_mesh =
     map (\<lambda>i. let galaxy_chip_id = of_nat i in
            (galaxy_chip_id, if mux then 0 else galaxy_chip_id mod num_connections, provisional_route remote_mesh galaxy_chip_id))
       [0 ..< unat kPeerLookupTableMaxEntries]"

definition mux_channel :: "u32 \<Rightarrow> u32 \<times> byte" where
  "mux_channel worker_group = (worker_group mod kMuxLinks, ucast (worker_group div kMuxLinks))"

definition static_connections ::
  "bool \<Rightarrow> u32 \<Rightarrow> u32 \<Rightarrow> u32 \<Rightarrow> fault + server_link list \<times> (u32 \<times> u32 \<times> u32) list" where
  "static_connections mux worker_group endpoint_links remote_mesh =
     sum_bind (ensure [(0 < endpoint_links \<and> endpoint_links \<le> kMaxServerConnections,
         Fatal ''static inter-mesh KVM server requested more endpoint lanes than its kernel supports'')])
       (\<lambda>_. let links = (if mux then [case mux_channel worker_group of (lane, channel) \<Rightarrow> Mux_Channel lane channel]
                         else map (\<lambda>lane. Endpoint_Lane (of_nat lane)) [0 ..< unat endpoint_links])
            in Inr (links, static_peer_entries mux (of_nat (length links)) remote_mesh))"

section \<open>The table\<close>

fun fill_peer_table :: "(u32 \<times> u32 \<times> u32) list \<Rightarrow> u32 list \<Rightarrow> fault + u32 list" where
  "fill_peer_table [] table = Inr table"
| "fill_peer_table ((chip_id, conn_idx, route_word) # entries) table =
     sum_bind (ensure [(chip_id < kPeerLookupTableMaxEntries, Fatal ''peer chip_id exceeds kPeerLookupTableMaxEntries'')])
       (\<lambda>_. fill_peer_table entries (table[2 * unat chip_id := conn_idx, 2 * unat chip_id + 1 := route_word]))"

definition empty_peer_table :: "u32 list" where
  "empty_peer_table = concat (replicate (unat kPeerLookupTableMaxEntries) [kPeerLookupEmptySentinel, 0])"

text \<open>What the kernel finds for a client's chip.\<close>

definition peer_lookup :: "u32 list \<Rightarrow> u32 \<Rightarrow> u32 \<times> u32" where
  "peer_lookup table chip_id = (table ! (2 * unat chip_id), table ! (2 * unat chip_id + 1))"

section \<open>Every client's chip has a connection that reaches it\<close>

definition served :: "wire_plane \<Rightarrow> fabric_node \<Rightarrow> fabric_node \<Rightarrow> bool" where
  "served pl server p \<longleftrightarrow>
     p \<noteq> server \<and> is_kvcache_wire_reachable pl server p \<and> fn_chip_id p < kPeerLookupTableMaxEntries"

lemma same_node: "fn_mesh_id a = fn_mesh_id b \<and> fn_chip_id a = fn_chip_id b \<longleftrightarrow> (a :: fabric_node) = b"
  by (cases a; cases b) simp

lemma served_mesh: "served pl server p \<Longrightarrow> fn_mesh_id p = fn_mesh_id server"
  by (auto simp: served_def is_kvcache_wire_reachable_def is_direct_fabric_neighbor_def split: if_splits)

lemma wire_links_nonempty: "kvcache_wire_link_indices pl src dst = Inr ls \<Longrightarrow> ls \<noteq> []"
  by (auto simp: kvcache_wire_link_indices_def ensure_Inr Let_def elim!: sum_bind_InrE split: if_splits option.splits)

lemma directions_bounded: "distinct ds \<Longrightarrow> length (ds :: byte list) \<le> 256"
proof -
  assume "distinct ds"
  then have "length ds = card (set ds)" by (simp add: distinct_card)
  also have "\<dots> \<le> card (UNIV :: byte set)" by (rule card_mono) simp_all
  finally show ?thesis by (simp add: card_word)
qed

text \<open>Connection \<open>c\<close> leaves on the peer's first hop and its candidate links all lead to the peer.\<close>

definition connected :: "wire_plane \<Rightarrow> fabric_node \<Rightarrow> peer_enumeration \<Rightarrow> fabric_node \<Rightarrow> u32 \<Rightarrow> bool" where
  "connected pl server st p c \<longleftrightarrow>
     (\<exists>dir ls. kvcache_first_hop_direction pl server p = Some dir \<and> map_of (direction_to_conn_idx st) dir = Some c
        \<and> kvcache_wire_link_indices pl server p = Inr ls \<and> set (connection_links st ! unat c) \<subseteq> set ls)"

definition connections_ok :: "wire_plane \<Rightarrow> fabric_node \<Rightarrow> peer_enumeration \<Rightarrow> bool" where
  "connections_ok pl server st \<longleftrightarrow>
     unat (next_conn_idx st) = length (direction_to_conn_idx st)
     \<and> length (connection_peers st) = length (direction_to_conn_idx st)
     \<and> length (connection_links st) = length (direction_to_conn_idx st)
     \<and> distinct (map fst (direction_to_conn_idx st))
     \<and> [] \<notin> set (connection_links st)
     \<and> (\<forall>dir c. map_of (direction_to_conn_idx st) dir = Some c \<longrightarrow> unat c < length (direction_to_conn_idx st)
          \<and> kvcache_first_hop_direction pl server (connection_peers st ! unat c) = Some dir)"

lemma assign_connection_ok:
  assumes ok: "connections_ok pl server st" and dir: "kvcache_first_hop_direction pl server peer = Some dir"
    and links: "kvcache_wire_link_indices pl server peer = Inr ls"
    and a: "assign_connection dir peer ls st = Inr (c, st')"
  shows "connections_ok pl server st'" (is ?ok) and "connected pl server st' peer c" (is ?new)
    and "connected pl server st q i \<Longrightarrow> connected pl server st' q i"
    and "peer_entries st' = peer_entries st" (is ?same)
proof -
  note o = ok [unfolded connections_ok_def]
  have "?ok \<and> ?new \<and> (\<forall>q i. connected pl server st q i \<longrightarrow> connected pl server st' q i) \<and> ?same"
  proof (cases "map_of (direction_to_conn_idx st) dir")
    case None
    then have c: "c = next_conn_idx st"
      and st': "st' = st\<lparr>next_conn_idx := c + 1, direction_to_conn_idx := (dir, c) # direction_to_conn_idx st,
        connection_peers := connection_peers st @ [peer], connection_links := connection_links st @ [ls]\<rparr>"
      using a by (auto simp: assign_connection_def)
    have small: "length (direction_to_conn_idx st) \<le> 256" using directions_bounded [of "map fst (direction_to_conn_idx st)"] o by simp
    have following: "unat (c + 1) = Suc (length (direction_to_conn_idx st))"
      using o small unfolding c by (subst unat_plus_fits) simp_all
    have fresh: "dir \<notin> fst ` set (direction_to_conn_idx st)" using None by (simp add: map_of_eq_None_iff)
    have old: "unat i < length (direction_to_conn_idx st)" "d \<noteq> dir" if "map_of (direction_to_conn_idx st) d = Some i" for d i
      using that o None by auto
    have ?ok unfolding connections_ok_def st'
      using o following fresh wire_links_nonempty [OF links] dir old(1) c by (auto simp: nth_append less_Suc_eq)
    moreover have ?new using dir links o c by (auto simp: connected_def st' nth_append)
    moreover have "connected pl server st' q i" if "connected pl server st q i" for q i
      using that old o by (fastforce simp: connected_def st' nth_append)
    moreover have ?same by (simp add: st')
    ultimately show ?thesis by blast
  next
    case (Some i)
    let ?common = "[link \<leftarrow> connection_links st ! unat i. link \<in> set ls]"
    have c: "c = i" and st': "st' = st\<lparr>connection_links := (connection_links st)[unat i := ?common]\<rparr>" and ne: "?common \<noteq> []"
      using a Some by (auto simp: assign_connection_def Let_def ensure_Inr elim!: sum_bind_InrE)
    have i: "unat i < length (connection_links st)" using o Some by metis
    have sub: "set (connection_links st' ! j) \<subseteq> set (connection_links st ! j)" for j
      by (cases "j = unat i") (use i in \<open>auto simp: st' nth_list_update\<close>)
    have ?ok unfolding connections_ok_def st'
      using o ne by (auto dest!: set_update_subset_insert [THEN subsetD])
    moreover have ?new using dir links Some i by (auto simp: connected_def st' c)
    moreover have "connected pl server st' q j" if "connected pl server st q j" for q j
      using that sub [of "unat j"] by (fastforce simp: connected_def st')
    moreover have ?same by (simp add: st')
    ultimately show ?thesis by blast
  qed
  then show ?ok ?new "connected pl server st q i \<Longrightarrow> connected pl server st' q i" ?same by blast+
qed

definition entries_ok :: "wire_plane \<Rightarrow> fabric_node \<Rightarrow> fabric_node set \<Rightarrow> peer_enumeration \<Rightarrow> bool" where
  "entries_ok pl server ps st \<longleftrightarrow>
     (\<forall>(chip, c, r) \<in> set (peer_entries st). \<exists>p \<in> ps. served pl server p \<and> fn_chip_id p = chip
        \<and> kvcache_unicast_route_word pl p = Inr r \<and> connected pl server st p c)
     \<and> (\<forall>p \<in> ps. served pl server p \<longrightarrow> fn_chip_id p \<in> fst ` set (peer_entries st))"

lemma add_peer_ok:
  assumes ok: "connections_ok pl server st" and en: "entries_ok pl server ps st"
    and a: "add_peer pl server peer st = Inr st'"
  shows "connections_ok pl server st' \<and> entries_ok pl server (insert peer ps) st'"
proof (cases "served pl server peer")
  case False
  then have "st' = st \<or> st' = st\<lparr>unregisterable_peers := unregisterable_peers st @ [fn_chip_id peer]\<rparr>"
    using a unfolding add_peer_def same_node by (auto simp: served_def not_le split: if_splits)
  then have "connections_ok pl server st'" and "connected pl server st' = connected pl server st"
      and "peer_entries st' = peer_entries st"
    using ok by (auto simp: connections_ok_def connected_def fun_eq_iff)
  then show ?thesis using en False by (auto simp: entries_ok_def)
next
  case True
  then have served: "peer \<noteq> server" "is_kvcache_wire_reachable pl server peer" "\<not> kPeerLookupTableMaxEntries \<le> fn_chip_id peer"
    by (simp_all add: served_def not_le)
  obtain dir where dir: "kvcache_first_hop_direction pl server peer = Some dir"
    using a served unfolding add_peer_def same_node by (auto split: option.splits)
  obtain r where r: "kvcache_unicast_route_word pl peer = Inr r"
    using a served dir unfolding add_peer_def same_node by (auto elim!: sum_bind_InrE)
  obtain ls where ls: "kvcache_wire_link_indices pl server peer = Inr ls"
    using a served dir r unfolding add_peer_def same_node by (auto elim!: sum_bind_InrE)
  obtain c st1 where asg: "assign_connection dir peer ls st = Inr (c, st1)"
      and st': "st' = st1\<lparr>peer_entries := peer_entries st1 @ [(fn_chip_id peer, c, r)]\<rparr>"
    using a served dir r ls unfolding add_peer_def same_node by (auto elim!: sum_bind_InrE)
  note post = assign_connection_ok [OF ok dir ls asg]
  have conn: "connected pl server st' = connected pl server st1" by (simp add: connected_def st' fun_eq_iff)
  have "connections_ok pl server st'" using post(1) by (simp add: connections_ok_def st')
  moreover have "entries_ok pl server (insert peer ps) st'"
    using en post(2,3,4) True r unfolding entries_ok_def conn by (fastforce simp: st')
  ultimately show ?thesis by blast
qed

lemma enumerate_peers_ok:
  assumes "connections_ok pl server st" and "entries_ok pl server ps st"
    and "enumerate_peers pl server coords st = Inr st'"
  shows "connections_ok pl server st' \<and> entries_ok pl server (ps \<union> set coords) st'"
  using assms
proof (induction coords arbitrary: st ps)
  case (Cons p coords)
  then obtain st1 where "add_peer pl server p st = Inr st1" and "enumerate_peers pl server coords st1 = Inr st'"
    by (auto elim!: sum_bind_InrE)
  then show ?case using Cons.IH [of st1 "insert p ps"] add_peer_ok [OF Cons.prems(1,2)] by simp
qed simp

lemma no_peers_ok: "connections_ok pl server no_peers" "entries_ok pl server {} no_peers"
  by (simp_all add: connections_ok_def entries_ok_def no_peers_def)

lemma fill_peer_table_lookup:
  assumes "fill_peer_table entries table = Inr table'" and "length table = 64" and "unat chip < 32"
  shows "length table' = 64
    \<and> (if chip \<in> fst ` set entries then (chip, peer_lookup table' chip) \<in> set entries
       else peer_lookup table' chip = peer_lookup table chip)"
  using assms
proof (induction entries table rule: fill_peer_table.induct)
  case (2 chip_id conn route entries table)
  let ?t = "table[2 * unat chip_id := conn, 2 * unat chip_id + 1 := route]"
  have c: "unat chip_id < 32" and f: "fill_peer_table entries ?t = Inr table'"
    using "2.prems"(1) by (auto simp: ensure_Inr kPeerLookupTableMaxEntries_def word_less_nat_alt elim!: sum_bind_InrE)
  have ih: "length table' = 64 \<and> (if chip \<in> fst ` set entries then (chip, peer_lookup table' chip) \<in> set entries
       else peer_lookup table' chip = peer_lookup ?t chip)"
    by (rule "2.IH" [OF f _ "2.prems"(3)]) (use "2.prems" c in
      \<open>auto simp: ensure_Inr kPeerLookupTableMaxEntries_def word_less_nat_alt elim!: sum_bind_InrE\<close>)
  have "peer_lookup ?t chip = (if chip = chip_id then (conn, route) else peer_lookup table chip)"
  proof (cases "chip = chip_id")
    case False
    then have "unat chip \<noteq> unat chip_id" by (simp add: word_unat_eq_iff)
    then have "2 * unat chip \<noteq> 2 * unat chip_id + 1" "2 * unat chip + 1 \<noteq> 2 * unat chip_id" "2 * unat chip \<noteq> 2 * unat chip_id"
      by presburger+
    then show ?thesis using False by (simp add: peer_lookup_def)
  qed (use "2.prems"(2) c in \<open>simp add: peer_lookup_def\<close>)
  then show ?case using ih by (auto split: if_splits)
qed simp

lemma empty_peer_table_lookup:
  assumes "unat chip < 32"
  shows "length empty_peer_table = 64" and "peer_lookup empty_peer_table chip = (kPeerLookupEmptySentinel, 0)"
proof -
  have e: "empty_peer_table = concat (map (\<lambda>_. [kPeerLookupEmptySentinel, 0]) [0 ..< 32])"
    by (simp add: empty_peer_table_def kPeerLookupTableMaxEntries_def map_replicate_const)
  show "length empty_peer_table = 64" by (simp add: e length_concat comp_def sum_list_triv)
  have "concat (map (\<lambda>_. [a, b]) [0 ..< n]) ! (2 * k) = a \<and> concat (map (\<lambda>_. [a, b]) [0 ..< n]) ! (2 * k + 1) = b"
    if "k < n" for a b :: u32 and k n
    using that
  proof (induction n)
    case (Suc n)
    have l: "length (concat (map (\<lambda>_. [a, b]) [0 ..< n])) = 2 * n" by (induction n) simp_all
    show ?case using Suc l by (cases "k = n") (simp_all add: nth_append)
  qed simp
  then show "peer_lookup empty_peer_table chip = (kPeerLookupEmptySentinel, 0)"
    using assms unfolding e peer_lookup_def by simp
qed

lemma enumerated_peers:
  assumes "standard_connections pl server coords = Inr (links, entries)"
  obtains st where "connections_ok pl server st" and "entries_ok pl server (set coords) st"
    and "entries = peer_entries st" and "length links = length (direction_to_conn_idx st)" and "length links \<le> 5"
    and "\<And>i. i < length links \<Longrightarrow> links ! i = Peer_Link server (connection_peers st ! i) (hd (connection_links st ! i))"
proof -
  obtain st where st: "enumerate_peers pl server coords no_peers = Inr st"
    and le: "(of_nat (length (direction_to_conn_idx st)) :: u32) \<le> kMaxServerConnections"
    and links: "links = map (\<lambda>(peer, links). Peer_Link server peer (hd links)) (zip (connection_peers st) (connection_links st))"
    and entries: "entries = peer_entries st"
    using assms by (auto simp: standard_connections_def Let_def ensure_Inr elim!: sum_bind_InrE)
  have ok: "connections_ok pl server st" "entries_ok pl server (set coords) st"
    using enumerate_peers_ok [OF no_peers_ok st] by simp_all
  have "length (direction_to_conn_idx st) \<le> 256"
    using ok(1) directions_bounded [of "map fst (direction_to_conn_idx st)"] by (simp add: connections_ok_def)
  then have "length (direction_to_conn_idx st) \<le> 5"
    using le by (simp add: kMaxServerConnections_def word_le_nat_alt unat_of_nat)
  then show thesis using that [OF ok entries] ok(1) by (simp add: links connections_ok_def)
qed

text \<open>What the filled table holds for a chip: an entry of the served node of that number, or the sentinel.\<close>

lemma peer_table_entry:
  assumes en: "entries_ok pl server (set coords) st" and f: "fill_peer_table (peer_entries st) empty_peer_table = Inr table"
    and chip: "unat chip < 32" and p: "p = \<lparr>fn_mesh_id = fn_mesh_id server, fn_chip_id = chip\<rparr>"
  shows "if p \<in> set coords \<and> served pl server p
    then \<exists>c r. peer_lookup table chip = (c, r) \<and> kvcache_unicast_route_word pl p = Inr r \<and> connected pl server st p c
    else peer_lookup table chip = (kPeerLookupEmptySentinel, 0)"
proof -
  have unique: "q = p" if "served pl server q" "fn_chip_id q = chip" for q
    using served_mesh [OF that(1)] that(2) by (simp add: p same_node [symmetric])
  have entry: "p \<in> set coords \<and> served pl server p \<and> kvcache_unicast_route_word pl p = Inr r \<and> connected pl server st p c"
    if e: "(chip, c, r) \<in> set (peer_entries st)" for c r
  proof -
    obtain q where "q \<in> set coords" "served pl server q" "fn_chip_id q = chip" "kvcache_unicast_route_word pl q = Inr r"
        "connected pl server st q c"
      using bspec [OF conjunct1 [OF en [unfolded entries_ok_def]] e] by auto
    then show ?thesis using unique by metis
  qed
  have t: "if chip \<in> fst ` set (peer_entries st) then (chip, peer_lookup table chip) \<in> set (peer_entries st)
      else peer_lookup table chip = (kPeerLookupEmptySentinel, 0)"
    using fill_peer_table_lookup [OF f empty_peer_table_lookup(1) [OF chip] chip] empty_peer_table_lookup(2) [OF chip] by simp
  show ?thesis
  proof (cases "p \<in> set coords \<and> served pl server p")
    case True
    then have "fn_chip_id p \<in> fst ` set (peer_entries st)"
      using bspec [OF conjunct2 [OF en [unfolded entries_ok_def]]] by blast
    then have "(chip, peer_lookup table chip) \<in> set (peer_entries st)" using t by (simp add: p)
    then show ?thesis using entry True by (cases "peer_lookup table chip") simp
  next
    case False
    then have "chip \<notin> fst ` set (peer_entries st)" using entry by force
    then show ?thesis using t False by metis
  qed
qed

text \<open>
  C15: what the kernel of a server finds for a client's chip. When the host enumerates any list of coordinates without
  an exception, then for every chip number below the table's size: if the node with that number in the server's mesh is
  among them, is not the server itself and can reach it and be reached, its entry names one of the opened connections, at
  most five; that connection leaves in the first-hop direction of this node, over one link that can forward to it (also
  when it was opened toward another node of the direction); and the route word is the node's. Otherwise the entry is the
  empty sentinel, which the kernel answers with a rejection.
\<close>

theorem standard_peers_sound:
  assumes "standard_connections pl server coords = Inr (links, entries)"
    and "fill_peer_table entries empty_peer_table = Inr table"
    and "chip < kPeerLookupTableMaxEntries"
  shows "let p = \<lparr>fn_mesh_id = fn_mesh_id server, fn_chip_id = chip\<rparr>; (c, r) = peer_lookup table chip in
    if p \<in> set coords \<and> served pl server p then
      length links \<le> 5 \<and> unat c < length links \<and> kvcache_unicast_route_word pl p = Inr r
      \<and> (\<exists>toward link ls. links ! unat c = Peer_Link server toward link
           \<and> kvcache_first_hop_direction pl server toward = kvcache_first_hop_direction pl server p
           \<and> kvcache_wire_link_indices pl server p = Inr ls \<and> link \<in> set ls)
    else c = kPeerLookupEmptySentinel"
proof -
  obtain st where ok: "connections_ok pl server st" and en: "entries_ok pl server (set coords) st"
    and entries: "entries = peer_entries st" and len: "length links = length (direction_to_conn_idx st)" "length links \<le> 5"
    and nth: "\<And>i. i < length links \<Longrightarrow> links ! i = Peer_Link server (connection_peers st ! i) (hd (connection_links st ! i))"
    using enumerated_peers [OF assms(1)] by blast
  have chip: "unat chip < 32" using assms(3) by (simp add: kPeerLookupTableMaxEntries_def word_less_nat_alt)
  define p where "p = \<lparr>fn_mesh_id = fn_mesh_id server, fn_chip_id = chip\<rparr>"
  note entry = peer_table_entry [OF en assms(2) [unfolded entries] chip p_def]
  show ?thesis
  proof (cases "p \<in> set coords \<and> served pl server p")
    case True
    then obtain c r where cr: "peer_lookup table chip = (c, r)" "kvcache_unicast_route_word pl p = Inr r"
        and "connected pl server st p c"
      using entry by auto
    then obtain dir ls where d: "kvcache_first_hop_direction pl server p = Some dir"
        "map_of (direction_to_conn_idx st) dir = Some c" "kvcache_wire_link_indices pl server p = Inr ls"
        "set (connection_links st ! unat c) \<subseteq> set ls"
      by (auto simp: connected_def)
    have c: "unat c < length links" using ok d(2) len by (simp add: connections_ok_def)
    then have "connection_links st ! unat c \<noteq> []" using ok len(1) by (metis connections_ok_def nth_mem)
    then have "hd (connection_links st ! unat c) \<in> set ls" using d(4) hd_in_set by blast
    moreover have "kvcache_first_hop_direction pl server (connection_peers st ! unat c) = Some dir"
      using ok d(2) unfolding connections_ok_def by blast
    ultimately show ?thesis using True c cr d(1,3) len(2) nth [OF c] by (auto simp: Let_def p_def)
  next
    case False
    then show ?thesis using entry by (auto simp: Let_def p_def)
  qed
qed

definition row_of_three :: wire_plane where
  "row_of_three =
     \<lparr>pl_2d = True, pl_neighbor_directions = (\<lambda>_ _. []),
      pl_forwarding_direction = (\<lambda>a b. if fn_chip_id a < fn_chip_id b then Some 0 else Some 1),
      pl_forwarding_links = (\<lambda>a b. if fn_chip_id b = 2 then [3, 1] else [0, 1]), pl_link_index = Inr None\<rparr>"

definition row_nodes :: "fabric_node list" where
  "row_nodes = map (\<lambda>c. \<lparr>fn_mesh_id = 4, fn_chip_id = c\<rparr>) [0, 1, 2, 40]"

lemmas wire_defs = standard_connections_def row_of_three_def row_nodes_def no_peers_def add_peer_def assign_connection_def
  is_kvcache_wire_reachable_def kvcache_first_hop_direction_def kvcache_unicast_route_word_def
  kvcache_wire_link_indices_def kvcache_requested_wire_link_index_def ensure_def kPeerLookupTableMaxEntries_def
  kMaxServerConnections_def kPeerLookupEmptySentinel_def kDirectNeighborHopCount_def

theorem standard_peers_sound_witness:
  "let (links, entries) = projr (standard_connections row_of_three (row_nodes ! 0) row_nodes);
       table = projr (fill_peer_table entries empty_peer_table) in
   links = [Peer_Link (row_nodes ! 0) (row_nodes ! 1) 1] \<and> fst (peer_lookup table 2) = 0 \<and> fst (peer_lookup table 0) = 0xFFFFFFFF"
proof -
  let ?n = "\<lambda>c. \<lparr>fn_mesh_id = 4, fn_chip_id = c\<rparr>"
  have s: "standard_connections row_of_three (?n 0) row_nodes = Inr ([Peer_Link (?n 0) (?n 1) 1], [(1, 0, 0x40001), (2, 0, 0x40002)])"
    by (simp add: wire_defs word_le_nat_alt)
  obtain table where f: "fill_peer_table [(1, 0, 0x40001), (2, 0, 0x40002)] empty_peer_table = Inr table"
    by (simp add: ensure_def kPeerLookupTableMaxEntries_def)
  have n0: "row_nodes ! 0 = ?n 0" "row_nodes ! Suc 0 = ?n 1" by (simp_all add: row_nodes_def)
  have "fst (peer_lookup table 2) = 0" 
    using standard_peers_sound [OF s f, of 2]
    by (cases "peer_lookup table 2") (simp add: wire_defs served_def)
  moreover have "fst (peer_lookup table 0) = 0xFFFFFFFF"
    using standard_peers_sound [OF s f, of 0]
    by (cases "peer_lookup table 0") (simp add: wire_defs served_def)
  ultimately show ?thesis using s f by (simp add: n0)
qed

section \<open>The static endpoint\<close>

lemma static_entry:
  assumes "chip < kPeerLookupTableMaxEntries"
  shows "(chip, c, r) \<in> set (static_peer_entries mux n remote_mesh)
    \<longleftrightarrow> c = (if mux then 0 else chip mod n) \<and> r = provisional_route remote_mesh chip"
proof -
  have "chip \<in> of_nat ` {0 ..< unat kPeerLookupTableMaxEntries}"
    using assms by (intro image_eqI [of _ _ "unat chip"]) (simp_all add: word_less_nat_alt)
  then show ?thesis by (auto simp: static_peer_entries_def Let_def)
qed

text \<open>
  On a static endpoint every chip number has an entry: its lane is one of the opened ones, chips spread over the lanes in
  turn, the single channel of a shared MUX is connection 0, and the provisional route decodes to that chip of the remote mesh.
\<close>

theorem static_endpoint_sound:
  assumes "static_connections mux worker_group endpoint_links remote_mesh = Inr (links, entries)"
    and "fill_peer_table entries empty_peer_table = Inr table" and "chip < kPeerLookupTableMaxEntries"
  shows "let (c, r) = peer_lookup table chip in
    length links \<le> 5 \<and> unat c < length links
    \<and> links ! unat c = (if mux then Mux_Channel (worker_group mod 2) (ucast (worker_group div 2)) else Endpoint_Lane (chip mod endpoint_links))
    \<and> return_route_dst_chip r = chip \<and> return_route_dst_mesh r = and remote_mesh 0xFFFF"
proof -
  have pos: "0 < endpoint_links" "endpoint_links \<le> 5"
    and links: "links = (if mux then [Mux_Channel (worker_group mod 2) (ucast (worker_group div 2))]
                        else map (\<lambda>lane. Endpoint_Lane (of_nat lane)) [0 ..< unat endpoint_links])"
    and entries: "entries = static_peer_entries mux (of_nat (length links)) remote_mesh"
    using assms(1) by (auto simp: static_connections_def ensure_Inr kMaxServerConnections_def mux_channel_def kMuxLinks_def
        Let_def elim!: sum_bind_InrE)
  have chip: "unat chip < 32" using assms(3) by (simp add: kPeerLookupTableMaxEntries_def word_less_nat_alt)
  obtain c r where cr: "peer_lookup table chip = (c, r)" by (cases "peer_lookup table chip")
  have "(chip, if mux then 0 else chip mod of_nat (length links), provisional_route remote_mesh chip) \<in> set entries"
    unfolding entries using static_entry [OF assms(3)] by blast
  then have "chip \<in> fst ` set entries" by force
  then have "(chip, c, r) \<in> set entries"
    using fill_peer_table_lookup [OF assms(2) empty_peer_table_lookup(1) [OF chip] chip] cr by simp
  then have c: "c = (if mux then 0 else chip mod of_nat (length links))" and r: "r = provisional_route remote_mesh chip"
    unfolding entries using static_entry [OF assms(3)] by blast+
  have five: "unat endpoint_links \<le> 5" using pos(2) by (simp add: word_le_nat_alt)
  have low: "and chip 0x1F = chip"
  proof -
    have "and chip 0x1F = take_bit 5 chip" by (simp add: take_bit_eq_mask mask_eq_exp_minus_1)
    also have "\<dots> = chip" using chip by (simp add: take_bit_eq_mod word_mod_less_divisor word_less_nat_alt word_unat_eq_iff unat_mod)
    finally show ?thesis .
  qed
  have "unat c < length links \<and> length links \<le> 5 \<and>
      links ! unat c = (if mux then Mux_Channel (worker_group mod 2) (ucast (worker_group div 2)) else Endpoint_Lane (chip mod endpoint_links))"
  proof (cases mux)
    case False
    have n: "links = map (\<lambda>lane. Endpoint_Lane (of_nat lane)) [0 ..< unat endpoint_links]" using False links by simp
    then have cm: "c = chip mod endpoint_links" using c False by simp
    moreover have "unat (chip mod endpoint_links) < unat endpoint_links"
      using pos(1) by (simp add: unat_mod word_less_nat_alt)
    ultimately show ?thesis using five False by (simp add: n)
  qed (use c links in simp)
  then show ?thesis using low by (simp add: cr r provisional_route_def return_route_fields)
qed

text \<open>
  Shards that share the MUX pairs never share a channel, and the channel of each is one of those its lane's MUX was
  configured with.
\<close>

theorem mux_channels_disjoint:
  assumes "n \<le> 8" and "a < n" and "b < n"
  shows "mux_channel a = mux_channel b \<longleftrightarrow> a = b"
    and "unat (snd (mux_channel a)) < unat (mux_lane_channels n (fst (mux_channel a)))"
proof -
  have s: "unat n \<le> 8" "unat a < unat n" "unat b < unat n"
    using assms by (simp_all add: word_le_nat_alt word_less_nat_alt)
  have m: "unat (w mod 2) = unat w mod 2" "unat (ucast (w div 2) :: byte) = unat w div 2" if "unat w < 8" for w :: u32
    using that by (simp_all add: unat_mod unat_div unsigned_ucast_eq take_bit_eq_mod)
  have "a = b" if "mux_channel a = mux_channel b"
  proof -
    have "unat a mod 2 = unat b mod 2" "unat a div 2 = unat b div 2"
      using that s m [of a] m [of b] by (auto simp: mux_channel_def kMuxLinks_def)
    then show ?thesis by (metis div_mult_mod_eq word_unat_eq_iff)
  qed
  then show "mux_channel a = mux_channel b \<longleftrightarrow> a = b" by blast
  have lane: "unat (1 - a mod 2) = 1 - unat a mod 2"
  proof -
    have "a mod 2 \<le> 1" using m(1) [of a] s unfolding word_le_nat_alt by simp
    then have "unat (1 - a mod 2) = unat (1 :: u32) - unat (a mod 2)" by (rule unat_sub)
    then show ?thesis using m(1) [of a] s by simp
  qed
  have "unat n + unat (1 - a mod 2) < 4294967296" using s(1) unfolding lane by linarith
  then have "unat (n + (1 - a mod 2)) = unat n + (1 - unat a mod 2)" by (simp only: unat_plus_fits lane)
  then have "unat (mux_lane_channels n (a mod 2)) = (unat n + (1 - unat a mod 2)) div 2"
    by (simp only: mux_lane_channels_def kMuxLinks_def unat_div diff_numeral_special) simp
  moreover have "x div 2 < (y + (1 - x mod 2)) div 2" if "x < y" for x y :: nat using that by arith
  ultimately show "unat (snd (mux_channel a)) < unat (mux_lane_channels n (fst (mux_channel a)))"
    using s(2) m(2) [of a] s(1) by (simp add: mux_channel_def kMuxLinks_def)
qed

end
