(* ===== verification/Server_Kernels.thy ===== *)
theory Server_Kernels
  imports Server_Peers Device_Reserve
begin

text \<open>
  What \<^verbatim>\<open>ServerRuntimeCore::prepare_server_kernel\<close> (\<^verbatim>\<open>server_program.cpp\<close>) gives the four kernels of a server
  beside the peer table: the compile-time defines with the optimisation level, the runtime arguments, and the words it
  writes to the cores' memories before the launch; with \<^verbatim>\<open>kvcache_kernel_defines\<close> of \<^verbatim>\<open>fabric_helpers.hpp\<close> and
  the argument lists as the kernels read them. Compiling and uploading is the platform's.
\<close>

section \<open>Defines\<close>

type_synonym kernel_defines = "(string \<times> string) list"

definition emplace :: "string \<Rightarrow> string \<Rightarrow> kernel_defines \<Rightarrow> kernel_defines" where
  "emplace k v d = (if k \<in> fst ` set d then d else d @ [(k, v)])"

definition emplace_if :: "bool \<Rightarrow> string \<Rightarrow> kernel_defines \<Rightarrow> kernel_defines" where
  "emplace_if b k d = (if b then emplace k ''1'' d else d)"

fun decimal :: "nat \<Rightarrow> string" where
  "decimal n = (if n < 10 then [char_of (48 + n)] else decimal (n div 10) @ [char_of (48 + n mod 10)])"

declare decimal.simps [simp del]

definition bool_define :: "bool \<Rightarrow> string" where "bool_define b = (if b then ''1'' else ''0'')"

datatype profile_detail = Detail_None | Detail_Put | Detail_Get | Detail_Get_Host | Detail_Move

datatype kernel_target = ClientUnprofiled | ClientPut | ClientGet | ClientMove | ServerTransport | ServerDirectory

datatype route_mode = Standard | StaticIntermeshGalaxyToT3k | StaticIntermeshT3kToGalaxy

record directory_policy =
  dp_allocator_profile_enabled :: bool
  dp_put_lease_evict :: bool
  dp_put_lease_evict_on_repeat_only :: bool

definition route_define :: "route_mode \<Rightarrow> kernel_defines \<Rightarrow> kernel_defines" where
  "route_define mode d =
     (case mode of
        Standard \<Rightarrow> d
      | StaticIntermeshGalaxyToT3k \<Rightarrow> emplace ''KVM_STATIC_INTERMESH_GALAXY_TO_T3K'' ''1'' d
      | StaticIntermeshT3kToGalaxy \<Rightarrow> emplace ''KVM_STATIC_INTERMESH_T3K_TO_GALAXY'' ''1'' d)"

definition policy_defines :: "directory_policy option \<Rightarrow> kernel_defines \<Rightarrow> kernel_defines" where
  "policy_defines policy d =
     (case policy of
        None \<Rightarrow> d
      | Some p \<Rightarrow>
          emplace ''KVM_SERVER_PUT_LEASE_EVICT_ON_REPEAT_ONLY'' (bool_define (dp_put_lease_evict_on_repeat_only p))
            (emplace ''KVM_SERVER_PUT_LEASE_EVICT'' (bool_define (dp_put_lease_evict p))
               (emplace_if (dp_allocator_profile_enabled p) ''KVM_SERVER_ALLOCATOR_PROFILE'' d)))"

definition profile_define :: "profile_detail \<Rightarrow> kernel_target \<Rightarrow> kernel_defines \<Rightarrow> kernel_defines" where
  "profile_define detail target d =
     (case detail of
        Detail_None \<Rightarrow> d
      | Detail_Put \<Rightarrow>
          if target = ClientPut then emplace ''KVM_PROFILE_CLIENT_PUT'' ''1'' d
          else if target = ServerDirectory then emplace ''KVM_PROFILE_DIRECTORY_PUT'' ''1'' d else d
      | Detail_Move \<Rightarrow>
          if target = ClientMove then emplace ''KVM_PROFILE_CLIENT_MOVE'' ''1'' d
          else if target = ServerDirectory then emplace ''KVM_PROFILE_DIRECTORY_MOVE'' ''1'' d else d
      | _ \<Rightarrow>
          if target = ClientGet then emplace ''KVM_PROFILE_CLIENT_GET'' ''1'' d
          else if target = ServerDirectory then emplace ''KVM_PROFILE_DIRECTORY_GET'' ''1'' d else d)"

text \<open>\<open>fused\<close> is what reading \<^verbatim>\<open>KVM_COMMON_FUSED_FLUSH\<close> gives or throws.\<close>

definition kvcache_kernel_defines ::
  "fault + bool option \<Rightarrow> u32 \<Rightarrow> u32 \<Rightarrow> kernel_target \<Rightarrow> profile_detail \<Rightarrow> directory_policy option \<Rightarrow> route_mode
     \<Rightarrow> fault + kernel_defines" where
  "kvcache_kernel_defines fused ring_slots value_ring_depth target detail policy mode =
     sum_bind (ensure
       [((target = ServerDirectory) = (policy \<noteq> None),
           Fatal ''ServerDirectory requires a policy snapshot, and other KV cache kernels must not receive one''),
        (mode \<noteq> StaticIntermeshGalaxyToT3k \<or> target \<in> {ClientUnprofiled, ClientPut, ClientGet, ClientMove},
           Fatal ''the Galaxy-to-T3K static inter-mesh route is valid only for Client kernels''),
        (mode \<noteq> StaticIntermeshT3kToGalaxy \<or> target = ServerTransport,
           Fatal ''the T3K-to-Galaxy static inter-mesh route is valid only for the Server transport kernel'')])
       (\<lambda>_. sum_bind fused (\<lambda>flush.
         Inr (profile_define detail target
               (policy_defines policy
                 (emplace ''KVM_COMMON_FUSED_FLUSH'' (bool_define (flush = Some True))
                   (route_define mode
                     [(''KVM_RING_NUM_SLOTS'', decimal (unat ring_slots)),
                      (''KVM_CLIENT_RING_SLOTS'', decimal (unat value_ring_depth))]))))))"

section \<open>The builds\<close>

datatype opt_level = Opt_O2 | Opt_Os | Opt_Oz

record build_inputs =
  bi_static :: bool
  bi_mux :: bool
  bi_2d :: bool
  bi_delay_establish_ack :: bool
  bi_drop_first_establish_response :: bool
  bi_ring_slots :: u32
  bi_value_ring_depth :: u32
  bi_detail :: profile_detail
  bi_policy :: directory_policy
  bi_fused :: "fault + bool option"

definition contains_define :: "string \<Rightarrow> kernel_defines \<Rightarrow> bool" where
  "contains_define k d = (k \<in> fst ` set d)"

definition directory_defines :: "build_inputs \<Rightarrow> fault + kernel_defines" where
  "directory_defines bi =
     kvcache_kernel_defines (bi_fused bi) (bi_ring_slots bi) (bi_value_ring_depth bi) ServerDirectory (bi_detail bi)
       (Some (bi_policy bi)) Standard"

definition instrumented_directory :: "kernel_defines \<Rightarrow> bool" where
  "instrumented_directory d =
     (contains_define ''KVM_SERVER_ALLOCATOR_PROFILE'' d \<or> contains_define ''KVM_PROFILE_DIRECTORY_PUT'' d
      \<or> contains_define ''KVM_PROFILE_DIRECTORY_GET'' d \<or> contains_define ''KVM_PROFILE_DIRECTORY_MOVE'' d)"

text \<open>The directory kernel and the transport kernel: defines and optimisation level.\<close>

definition directory_build :: "build_inputs \<Rightarrow> fault + kernel_defines \<times> opt_level" where
  "directory_build bi =
     sum_bind (directory_defines bi) (\<lambda>d.
       Inr (emplace_if (instrumented_directory d) ''KVM_SERVER_DIAGNOSTIC_SIZE_BUILD'' d,
            if instrumented_directory d then Opt_Oz else Opt_O2))"

definition size_build :: "build_inputs \<Rightarrow> bool \<Rightarrow> (string \<times> opt_level) option" where
  "size_build bi instrumented =
     (if instrumented then Some (''KVM_SERVER_DIAGNOSTIC_SIZE_BUILD'', Opt_Oz)
      else if bi_mux bi then Some (''KVM_STATIC_INTERMESH_MUX_OZ_BUILD'', Opt_Oz)
      else if bi_static bi then Some (''KVM_STATIC_INTERMESH_SERVER_OS_BUILD'', Opt_Os)
      else if bi_2d bi then Some (''KVM_FABRIC_2D_SERVER_OS_BUILD'', Opt_Os)
      else None)"

definition transport_build :: "build_inputs \<Rightarrow> u32 \<Rightarrow> fault + kernel_defines \<times> opt_level" where
  "transport_build bi num_connections =
     sum_bind (directory_defines bi) (\<lambda>dd.
     sum_bind (kvcache_kernel_defines (bi_fused bi) (bi_ring_slots bi) (bi_value_ring_depth bi) ServerTransport
                 (bi_detail bi) None (if bi_static bi then StaticIntermeshT3kToGalaxy else Standard)) (\<lambda>d0.
     (let d1 = emplace_if (bi_mux bi) ''KVM_SERVER_USE_MUX_V2'' d0;
          d2 = emplace_if (bi_delay_establish_ack bi) ''KVM_INJECT_DELAY_ESTABLISH_RESPONSE'' d1;
          d3 = emplace_if (bi_drop_first_establish_response bi) ''KVM_INJECT_DROP_FIRST_ESTABLISH_RESPONSE'' d2;
          (d4, level) = (case size_build bi (instrumented_directory dd) of
              None \<Rightarrow> (d3, Opt_O2)
            | Some (tag, level) \<Rightarrow> (emplace tag ''1'' d3, level))
      in Inr (emplace_if (num_connections = 0) ''KVM_SERVER_IDLE_ONLY'' d4, level))))"

section \<open>The level can be read off the defines\<close>

definition define_names :: "kernel_defines \<Rightarrow> string set" where
  "define_names d = fst ` set d"

lemma emplace_names [simp]: "define_names (emplace k v d) = insert k (define_names d)"
  by (auto simp: emplace_def define_names_def)

lemma emplace_if_names [simp]:
  "define_names (emplace_if b k d) = (if b then insert k (define_names d) else define_names d)"
  by (simp add: emplace_if_def)

lemma contains_names: "contains_define k d \<longleftrightarrow> k \<in> define_names d"
  by (simp add: contains_define_def define_names_def)

lemma route_define_names [simp]: "define_names (route_define mode d) =
    (case mode of Standard \<Rightarrow> {} | StaticIntermeshGalaxyToT3k \<Rightarrow> {''KVM_STATIC_INTERMESH_GALAXY_TO_T3K''}
       | StaticIntermeshT3kToGalaxy \<Rightarrow> {''KVM_STATIC_INTERMESH_T3K_TO_GALAXY''}) \<union> define_names d"
  by (cases mode) (simp_all add: route_define_def)

lemma policy_defines_names [simp]: "define_names (policy_defines policy d) =
    (case policy of None \<Rightarrow> {} | Some p \<Rightarrow> {''KVM_SERVER_PUT_LEASE_EVICT_ON_REPEAT_ONLY'', ''KVM_SERVER_PUT_LEASE_EVICT''}
       \<union> (if dp_allocator_profile_enabled p then {''KVM_SERVER_ALLOCATOR_PROFILE''} else {})) \<union> define_names d"
  by (cases policy) (auto simp: policy_defines_def)

lemma ring_define_names [simp]:
  "define_names [(''KVM_RING_NUM_SLOTS'', a), (''KVM_CLIENT_RING_SLOTS'', b)] = {''KVM_RING_NUM_SLOTS'', ''KVM_CLIENT_RING_SLOTS''}"
  by (simp add: define_names_def)

lemma profile_define_server:
  "define_names (profile_define detail ServerTransport d) = define_names d"
  "define_names (profile_define detail ServerDirectory d) \<subseteq>
     {''KVM_PROFILE_DIRECTORY_PUT'', ''KVM_PROFILE_DIRECTORY_GET'', ''KVM_PROFILE_DIRECTORY_MOVE''} \<union> define_names d"
  by (cases detail; auto simp: profile_define_def)+

lemma kernel_defines_form:
  assumes "kvcache_kernel_defines fused r v target detail policy mode = Inr d"
  obtains flush where "d = profile_define detail target (policy_defines policy
      (emplace ''KVM_COMMON_FUSED_FLUSH'' flush (route_define mode
        [(''KVM_RING_NUM_SLOTS'', decimal (unat r)), (''KVM_CLIENT_RING_SLOTS'', decimal (unat v))])))"
  using assms unfolding kvcache_kernel_defines_def
  by (elim sum_bind_InrE) (drule sum.inject(2) [THEN iffD1], rule that, erule sym)

lemma transport_base_names:
  assumes "kvcache_kernel_defines fused r v ServerTransport detail None mode = Inr d"
  shows "define_names d \<subseteq> {''KVM_RING_NUM_SLOTS'', ''KVM_CLIENT_RING_SLOTS'', ''KVM_STATIC_INTERMESH_T3K_TO_GALAXY'',
    ''KVM_STATIC_INTERMESH_GALAXY_TO_T3K'', ''KVM_COMMON_FUSED_FLUSH''}"
proof -
  obtain flush where d: "d = profile_define detail ServerTransport (policy_defines None
      (emplace ''KVM_COMMON_FUSED_FLUSH'' flush (route_define mode
        [(''KVM_RING_NUM_SLOTS'', decimal (unat r)), (''KVM_CLIENT_RING_SLOTS'', decimal (unat v))])))"
    using assms by (rule kernel_defines_form)
  show ?thesis unfolding d by (cases mode) (simp_all add: profile_define_server)
qed

lemma directory_base_names:
  assumes "directory_defines bi = Inr d"
  shows "''KVM_SERVER_DIAGNOSTIC_SIZE_BUILD'' \<notin> define_names d"
proof -
  obtain flush where d: "d = profile_define (bi_detail bi) ServerDirectory
      (policy_defines (Some (bi_policy bi)) (emplace ''KVM_COMMON_FUSED_FLUSH'' flush (route_define Standard
        [(''KVM_RING_NUM_SLOTS'', decimal (unat (bi_ring_slots bi))),
         (''KVM_CLIENT_RING_SLOTS'', decimal (unat (bi_value_ring_depth bi)))])))"
    using assms unfolding directory_defines_def by (rule kernel_defines_form)
  show ?thesis
    unfolding d by (rule notI, drule subsetD [OF profile_define_server(2)]) (simp split: if_splits)
qed

text \<open>The level as a function of the defines alone.\<close>

definition tagged_level :: "string set \<Rightarrow> opt_level" where
  "tagged_level names =
     (if ''KVM_SERVER_DIAGNOSTIC_SIZE_BUILD'' \<in> names \<or> ''KVM_STATIC_INTERMESH_MUX_OZ_BUILD'' \<in> names then Opt_Oz
      else if ''KVM_STATIC_INTERMESH_SERVER_OS_BUILD'' \<in> names \<or> ''KVM_FABRIC_2D_SERVER_OS_BUILD'' \<in> names
      then Opt_Os else Opt_O2)"

lemma directory_build_level:
  assumes "directory_build bi = Inr (d, level)"
  shows "level = (if ''KVM_SERVER_DIAGNOSTIC_SIZE_BUILD'' \<in> define_names d then Opt_Oz else Opt_O2)"
proof -
  obtain dd where "directory_defines bi = Inr dd"
    and "d = emplace_if (instrumented_directory dd) ''KVM_SERVER_DIAGNOSTIC_SIZE_BUILD'' dd"
    and "level = (if instrumented_directory dd then Opt_Oz else Opt_O2)"
    using assms unfolding directory_build_def by (elim sum_bind_InrE) simp
  then show ?thesis using directory_base_names [of bi dd] by simp
qed

lemma transport_build_level:
  assumes "transport_build bi n = Inr (d, level)"
  shows "level = tagged_level (define_names d) \<and> (n = 0 \<longleftrightarrow> ''KVM_SERVER_IDLE_ONLY'' \<in> define_names d)"
proof -
  obtain dd d0 where dd: "directory_defines bi = Inr dd" and d0: "kvcache_kernel_defines (bi_fused bi) (bi_ring_slots bi) (bi_value_ring_depth bi) ServerTransport
        (bi_detail bi) None (if bi_static bi then StaticIntermeshT3kToGalaxy else Standard) = Inr d0"
    using assms unfolding transport_build_def by (elim sum_bind_InrE)
  have d: "(d, level) = (case size_build bi (instrumented_directory dd) of
              None \<Rightarrow> (emplace_if (n = 0) ''KVM_SERVER_IDLE_ONLY'' (emplace_if (bi_drop_first_establish_response bi)
                ''KVM_INJECT_DROP_FIRST_ESTABLISH_RESPONSE'' (emplace_if (bi_delay_establish_ack bi)
                ''KVM_INJECT_DELAY_ESTABLISH_RESPONSE'' (emplace_if (bi_mux bi) ''KVM_SERVER_USE_MUX_V2'' d0))), Opt_O2)
            | Some (tag, l) \<Rightarrow> (emplace_if (n = 0) ''KVM_SERVER_IDLE_ONLY'' (emplace tag ''1'' (emplace_if (bi_drop_first_establish_response bi)
                ''KVM_INJECT_DROP_FIRST_ESTABLISH_RESPONSE'' (emplace_if (bi_delay_establish_ack bi)
                ''KVM_INJECT_DELAY_ESTABLISH_RESPONSE'' (emplace_if (bi_mux bi) ''KVM_SERVER_USE_MUX_V2'' d0)))), l))"
    using assms by (auto simp: transport_build_def dd d0 Let_def split: option.splits)
  have base: "''KVM_SERVER_DIAGNOSTIC_SIZE_BUILD'' \<notin> define_names d0" "''KVM_STATIC_INTERMESH_MUX_OZ_BUILD'' \<notin> define_names d0"
      "''KVM_STATIC_INTERMESH_SERVER_OS_BUILD'' \<notin> define_names d0" "''KVM_FABRIC_2D_SERVER_OS_BUILD'' \<notin> define_names d0"
      "''KVM_SERVER_IDLE_ONLY'' \<notin> define_names d0"
    by (rule notI, drule subsetD [OF transport_base_names [OF d0]], simp)+
  show ?thesis
  proof (cases "size_build bi (instrumented_directory dd)")
    case None
    then show ?thesis using d base by (simp add: tagged_level_def split: if_splits)
  next
    case (Some t)
    then have "t \<in> {(''KVM_SERVER_DIAGNOSTIC_SIZE_BUILD'', Opt_Oz), (''KVM_STATIC_INTERMESH_MUX_OZ_BUILD'', Opt_Oz),
        (''KVM_STATIC_INTERMESH_SERVER_OS_BUILD'', Opt_Os), (''KVM_FABRIC_2D_SERVER_OS_BUILD'', Opt_Os)}"
      by (simp add: size_build_def split: if_splits)
    then show ?thesis using d base Some by (elim insertE emptyE) (simp_all add: tagged_level_def)
  qed
qed

text \<open>
  C24: the platform's kernel cache is keyed by the source and the defines, not by the optimisation level. Two builds of the
  directory kernel, or of the transport kernel, with the same set of defines have the same level, whatever the two
  configurations and peer counts are, so a cached image is never one of another level. The transport kernel is the
  idle-only build exactly when the server opened no connection, which is what its two branches assert.
\<close>

theorem kernel_builds_cache_safe:
  assumes "transport_build a m = Inr (da, la)" and "transport_build b n = Inr (db, lb)"
    and "directory_build a = Inr (dda, lda)" and "directory_build b = Inr (ddb, ldb)"
  shows "(set da = set db \<longrightarrow> la = lb \<and> (m = 0) = (n = 0)) \<and> (set dda = set ddb \<longrightarrow> lda = ldb)
    \<and> (contains_define ''KVM_SERVER_IDLE_ONLY'' da \<longleftrightarrow> m = 0)"
proof -
  have "define_names x = define_names y" if "set x = set y" for x y using that by (simp add: define_names_def)
  then show ?thesis
    using transport_build_level [OF assms(1)] transport_build_level [OF assms(2)]
      directory_build_level [OF assms(3)] directory_build_level [OF assms(4)] unfolding contains_names by metis
qed

definition plain_build :: build_inputs where
  "plain_build =
     \<lparr>bi_static = False, bi_mux = False, bi_2d = True, bi_delay_establish_ack = False,
      bi_drop_first_establish_response = False, bi_ring_slots = 32, bi_value_ring_depth = 8, bi_detail = Detail_None,
      bi_policy = \<lparr>dp_allocator_profile_enabled = False, dp_put_lease_evict = True, dp_put_lease_evict_on_repeat_only = True\<rparr>,
      bi_fused = Inr None\<rparr>"

lemma plain_builds:
  "\<exists>d. transport_build plain_build n = Inr (d, Opt_Os)" "\<exists>d. directory_build plain_build = Inr (d, Opt_O2)"
proof -
  note defs = plain_build_def transport_build_def directory_build_def directory_defines_def kvcache_kernel_defines_def ensure_def
    instrumented_directory_def contains_names profile_define_def size_build_def Let_def
  show "\<exists>d. transport_build plain_build n = Inr (d, Opt_Os)" by (simp add: defs)
  show "\<exists>d. directory_build plain_build = Inr (d, Opt_O2)" by (simp add: defs)
qed

theorem kernel_builds_cache_safe_witness:
  "contains_define ''KVM_SERVER_IDLE_ONLY'' (fst (projr (transport_build plain_build 0)))
   \<and> \<not> contains_define ''KVM_SERVER_IDLE_ONLY'' (fst (projr (transport_build plain_build 1)))"
proof -
  obtain d0 d1 dd where t0: "transport_build plain_build 0 = Inr (d0, Opt_Os)" and t1: "transport_build plain_build 1 = Inr (d1, Opt_Os)"
    and dd: "directory_build plain_build = Inr (dd, Opt_O2)"
    using plain_builds by metis
  have "contains_define ''KVM_SERVER_IDLE_ONLY'' d0" using kernel_builds_cache_safe [OF t0 t1 dd dd] by simp
  moreover have "\<not> contains_define ''KVM_SERVER_IDLE_ONLY'' d1" using kernel_builds_cache_safe [OF t1 t0 dd dd] by simp
  ultimately show ?thesis by (simp add: t0 t1)
qed

section \<open>Runtime arguments\<close>

text \<open>The members of the core that the argument lists are built from.\<close>

record kernel_inputs =
  ki_l1_base :: u32
  ki_layout :: l1_layout
  ki_max_keys :: u32
  ki_dir_entry_bytes :: u32
  ki_max_key_len :: u32
  ki_num_buckets :: u32
  ki_value_heap_bytes :: u32
  ki_dram_value_base :: u32
  ki_dram_directory_base :: u32
  ki_dram_put_host_queue_base :: u32
  ki_dram_hashmap_base :: u32
  ki_dram_heap_metadata_base :: u32
  ki_residency_lru_base :: u32
  ki_stage_pcie_xy_enc :: u32
  ki_stage_addr_lo :: u32
  ki_stage_addr_hi :: u32
  ki_stage_noc_ok :: bool
  ki_stage_completion_offset :: u32
  ki_mapped_completion_enabled :: bool
  ki_get_completion_offset :: u32
  ki_get_ingress_offset :: u32
  ki_pool_meta_read_off :: u32
  ki_ingress :: fabric_free_worker
  ki_admission :: fabric_free_worker
  ki_server_virtual :: core_coord
  ki_admission_virtual :: core_coord
  ki_get_value_cb_base :: u32
  ki_ring_slots :: u32
  ki_delay_cycles :: u32
  ki_initial_counter :: u32
  ki_generation_seed :: u32
  ki_remote_mesh_id :: u32

definition flag :: "bool \<Rightarrow> u32" where "flag b = (if b then 1 else 0)"

definition kServerTransportFixedRtArgs :: nat where "kServerTransportFixedRtArgs = 20"
definition kGetIngressDoorbellOffset :: u32 where "kGetIngressDoorbellOffset = 16"
definition kGetIngressScratchOffset :: u32 where "kGetIngressScratchOffset = 32"
definition kGetAdmissionReadyOffset :: u32 where "kGetAdmissionReadyOffset = 16"
definition kGetAdmissionDescriptorOffset :: u32 where "kGetAdmissionDescriptorOffset = 32"
definition kGetAdmissionScratchOffset :: u32 where "kGetAdmissionScratchOffset = 64"

definition put_stream_progress_offset :: "u32 \<Rightarrow> u32" where
  "put_stream_progress_offset region_base = region_base + kMaxClients * kPutDirectDoneSemSize"

definition server_rt_args :: "kernel_inputs \<Rightarrow> u32 \<Rightarrow> u32 list" where
  "server_rt_args ki num_connections =
     (let l1_base = ki_l1_base ki; l = ki_layout ki in
      [termination_addr l, num_connections, l1_base, ki_dram_value_base ki, ki_max_keys ki,
       l1_base + direct_put_done_offset l, l1_base + put_readback_scratch_offset l,
       l1_base + host_any_get_done_monitor_offset l, l1_base + get_credit_sem_offset l, flag (fw_enabled (ki_admission ki)),
       l1_base + dir_req_mailbox_offset l, l1_base + dir_req_sem_offset l, l1_base + dir_done_sem_offset l,
       l1_base + dir_resp_mailbox_offset l, l1_base + cold_start_done_offset l, l1_base + commit_issued_offset l,
       l1_base + commit_done_offset l, ki_initial_counter ki, ki_generation_seed ki, ki_remote_mesh_id ki])"

definition dir_rt_args :: "kernel_inputs \<Rightarrow> u32 list" where
  "dir_rt_args ki =
     (let l1_base = ki_l1_base ki; l = ki_layout ki in
      [termination_addr l, ki_dram_directory_base ki, ki_max_keys ki, ki_dir_entry_bytes ki, ki_max_key_len ki,
       l1_base + dir_scan_staging_offset l, l1_base + dir_req_mailbox_offset l, l1_base + dir_req_sem_offset l,
       l1_base + dir_done_sem_offset l, l1_base + dir_resp_mailbox_offset l, l1_base + dir_epoch_counter_offset l,
       ki_dram_put_host_queue_base ki, l1_base + commit_done_offset l, l1_base + dir_commit_entry_staging_offset l,
       l1_base + move_req_sem_offset l, l1_base + move_req_offset l, l1_base + commit_req_sem_offset l,
       l1_base + commit_req_offset l, ki_value_heap_bytes ki, l1_base + heap_allocator_offset l,
       l1_base + move_processed_offset l, ki_dram_value_base ki, ki_stage_pcie_xy_enc ki, ki_stage_addr_lo ki,
       ki_stage_addr_hi ki, flag (ki_stage_noc_ok ki), ki_stage_completion_offset ki, flag (ki_mapped_completion_enabled ki),
       ki_get_completion_offset ki, l1_base + host_any_get_done_monitor_offset l, ki_pool_meta_read_off ki,
       l1_base + stage_progress_offset l, l1_base + promote_done_offset l, l1_base + evict_ack_sem_offset l,
       l1_base + evict_ack_offset l, l1_base + evict_done_offset l, ki_dram_hashmap_base ki, ki_num_buckets ki,
       l1_base + hash_probe_staging_offset l, ki_dram_heap_metadata_base ki, l1_base + heap_metadata_staging_offset l,
       l1_base + cold_start_done_offset l, ki_delay_cycles ki, ki_initial_counter ki,
       l1_base + put_stream_progress_offset (direct_put_done_offset l), l1_base + allocator_profile_offset l,
       ki_residency_lru_base ki, flag (fw_enabled (ki_admission ki)), ucast (fst (ki_admission_virtual ki)),
       ucast (snd (ki_admission_virtual ki)), fw_l1_base (ki_admission ki) + kGetAdmissionReadyOffset,
       fw_l1_base (ki_admission ki) + kGetAdmissionDescriptorOffset, ki_get_value_cb_base ki,
       l1_base + get_credit_sem_offset l])"

definition ingress_rt_args :: "kernel_inputs \<Rightarrow> u32 list" where
  "ingress_rt_args ki =
     (let l1_base = ki_l1_base ki; l = ki_layout ki; w = ki_ingress ki in
      [fw_termination_addr w, fw_l1_base w + kGetIngressDoorbellOffset, fw_l1_base w + kGetIngressScratchOffset,
       ki_stage_pcie_xy_enc ki, ki_stage_addr_lo ki, ki_stage_addr_hi ki, ki_get_ingress_offset ki,
       ucast (fst (ki_server_virtual ki)), ucast (snd (ki_server_virtual ki)), l1_base + kRingBaseOffset,
       l1_base + ring_sem_base_offset l, ki_ring_slots ki, ki_initial_counter ki])"

definition admission_rt_args :: "kernel_inputs \<Rightarrow> u32 list" where
  "admission_rt_args ki =
     (let l1_base = ki_l1_base ki; l = ki_layout ki; w = ki_admission ki in
      [fw_termination_addr w, fw_l1_base w + kGetAdmissionReadyOffset, fw_l1_base w + kGetAdmissionDescriptorOffset,
       fw_l1_base w + kGetAdmissionScratchOffset, ucast (fst (ki_server_virtual ki)), ucast (snd (ki_server_virtual ki)),
       ki_get_value_cb_base ki, l1_base + get_credit_sem_offset l, ki_dram_value_base ki, ki_initial_counter ki])"

section \<open>The arguments as the kernels read them\<close>

record transport_kernel_args =
  tk_termination_addr :: u32
  tk_num_connections :: u32
  tk_server_l1_base :: u32
  tk_dram_value_base :: u32
  tk_max_keys :: u32
  tk_direct_put_done_addr :: u32
  tk_rb_scratch_addr :: u32
  tk_any_get_done_monitor_addr :: u32
  tk_get_admission_progress_addr :: u32
  tk_get_admission_worker_enabled :: bool
  tk_dir_req_mailbox_addr :: u32
  tk_dir_req_sem_addr :: u32
  tk_dir_done_sem_addr :: u32
  tk_dir_resp_mailbox_addr :: u32
  tk_cold_start_done_addr :: u32
  tk_commit_issued_addr :: u32
  tk_commit_done_addr :: u32
  tk_initial_counter :: u32
  tk_session_generation_seed :: u32
  tk_static_intermesh_remote_mesh_id :: u32

definition read_transport_args :: "u32 list \<Rightarrow> transport_kernel_args" where
  "read_transport_args args =
     \<lparr>tk_termination_addr = args ! 0, tk_num_connections = args ! 1, tk_server_l1_base = args ! 2,
      tk_dram_value_base = args ! 3, tk_max_keys = args ! 4, tk_direct_put_done_addr = args ! 5,
      tk_rb_scratch_addr = args ! 6, tk_any_get_done_monitor_addr = args ! 7,
      tk_get_admission_progress_addr = args ! 8, tk_get_admission_worker_enabled = (args ! 9 \<noteq> 0),
      tk_dir_req_mailbox_addr = args ! 10, tk_dir_req_sem_addr = args ! 11, tk_dir_done_sem_addr = args ! 12,
      tk_dir_resp_mailbox_addr = args ! 13, tk_cold_start_done_addr = args ! 14,
      tk_commit_issued_addr = args ! 15, tk_commit_done_addr = args ! 16, tk_initial_counter = args ! 17,
      tk_session_generation_seed = args ! 18, tk_static_intermesh_remote_mesh_id = args ! 19\<rparr>"

record directory_kernel_args =
  dk_termination_addr :: u32
  dk_dram_directory_base :: u32
  dk_max_keys :: u32
  dk_dir_entry_stride :: u32
  dk_max_key_len :: u32
  dk_scan_staging_addr :: u32
  dk_req_mailbox_addr :: u32
  dk_req_sem_addr :: u32
  dk_done_sem_addr :: u32
  dk_resp_mailbox_addr :: u32
  dk_epoch_counter_addr :: u32
  dk_dram_put_host_queue_base :: u32
  dk_commit_done_addr :: u32
  dk_commit_entry_staging_addr :: u32
  dk_move_req_sem_addr :: u32
  dk_move_req_addr :: u32
  dk_commit_req_sem_addr :: u32
  dk_commit_req_addr :: u32
  dk_value_heap_bytes :: u32
  dk_heap_allocator_addr :: u32
  dk_move_processed_addr :: u32
  dk_dram_value_base :: u32
  dk_stage_pcie_xy_enc :: u32
  dk_stage_addr_lo :: u32
  dk_stage_addr_hi :: u32
  dk_stage_enabled :: u32
  dk_stage_completion_offset :: u32
  dk_get_host_completion_enabled :: u32
  dk_get_host_completion_offset :: u32
  dk_get_completion_ack_addr :: u32
  dk_pool_meta_read_off :: u32
  dk_stage_progress_addr :: u32
  dk_promote_done_addr :: u32
  dk_evict_ack_sem_addr :: u32
  dk_evict_ack_addr :: u32
  dk_evict_done_addr :: u32
  dk_dram_hashmap_base :: u32
  dk_num_buckets :: u32
  dk_hash_probe_staging :: u32
  dk_dram_heap_metadata_base :: u32
  dk_heap_metadata_staging :: u32
  dk_cold_start_done_addr :: u32
  dk_test_first_put_commit_delay_cycles :: u32
  dk_initial_counter :: u32
  dk_direct_put_progress_addr :: u32
  dk_allocator_profile_addr :: u32
  dk_residency_lru_addr :: u32
  dk_get_admission_worker_enabled :: bool
  dk_get_admission_noc_x :: u32
  dk_get_admission_noc_y :: u32
  dk_get_admission_ready_addr :: u32
  dk_get_admission_descriptor_addr :: u32
  dk_get_value_cb_base :: u32
  dk_get_admission_progress_addr :: u32

definition read_directory_args :: "u32 list \<Rightarrow> directory_kernel_args" where
  "read_directory_args args =
     \<lparr>dk_termination_addr = args ! 0, dk_dram_directory_base = args ! 1, dk_max_keys = args ! 2,
      dk_dir_entry_stride = args ! 3, dk_max_key_len = args ! 4, dk_scan_staging_addr = args ! 5,
      dk_req_mailbox_addr = args ! 6, dk_req_sem_addr = args ! 7, dk_done_sem_addr = args ! 8,
      dk_resp_mailbox_addr = args ! 9, dk_epoch_counter_addr = args ! 10,
      dk_dram_put_host_queue_base = args ! 11, dk_commit_done_addr = args ! 12,
      dk_commit_entry_staging_addr = args ! 13, dk_move_req_sem_addr = args ! 14,
      dk_move_req_addr = args ! 15, dk_commit_req_sem_addr = args ! 16, dk_commit_req_addr = args ! 17,
      dk_value_heap_bytes = args ! 18, dk_heap_allocator_addr = args ! 19, dk_move_processed_addr = args ! 20,
      dk_dram_value_base = args ! 21, dk_stage_pcie_xy_enc = args ! 22, dk_stage_addr_lo = args ! 23,
      dk_stage_addr_hi = args ! 24, dk_stage_enabled = args ! 25, dk_stage_completion_offset = args ! 26,
      dk_get_host_completion_enabled = args ! 27, dk_get_host_completion_offset = args ! 28,
      dk_get_completion_ack_addr = args ! 29, dk_pool_meta_read_off = args ! 30,
      dk_stage_progress_addr = args ! 31, dk_promote_done_addr = args ! 32, dk_evict_ack_sem_addr = args ! 33,
      dk_evict_ack_addr = args ! 34, dk_evict_done_addr = args ! 35, dk_dram_hashmap_base = args ! 36,
      dk_num_buckets = args ! 37, dk_hash_probe_staging = args ! 38, dk_dram_heap_metadata_base = args ! 39,
      dk_heap_metadata_staging = args ! 40, dk_cold_start_done_addr = args ! 41,
      dk_test_first_put_commit_delay_cycles = args ! 42, dk_initial_counter = args ! 43,
      dk_direct_put_progress_addr = args ! 44, dk_allocator_profile_addr = args ! 45,
      dk_residency_lru_addr = args ! 46, dk_get_admission_worker_enabled = (args ! 47 \<noteq> 0),
      dk_get_admission_noc_x = args ! 48, dk_get_admission_noc_y = args ! 49,
      dk_get_admission_ready_addr = args ! 50, dk_get_admission_descriptor_addr = args ! 51,
      dk_get_value_cb_base = args ! 52, dk_get_admission_progress_addr = args ! 53\<rparr>"

record ingress_kernel_args =
  gk_termination_addr :: u32
  gk_doorbell_addr :: u32
  gk_scratch_addr :: u32
  gk_stage_pcie_xy_enc :: u32
  gk_stage_addr_lo :: u32
  gk_stage_addr_hi :: u32
  gk_ingress_host_offset :: u32
  gk_server_noc_x :: u32
  gk_server_noc_y :: u32
  gk_server_ring_base_addr :: u32
  gk_server_ring_sem_base_addr :: u32
  gk_ring_slots :: u32
  gk_seen_generation :: u32

definition read_ingress_args :: "u32 list \<Rightarrow> ingress_kernel_args" where
  "read_ingress_args args =
     \<lparr>gk_termination_addr = args ! 0, gk_doorbell_addr = args ! 1, gk_scratch_addr = args ! 2,
      gk_stage_pcie_xy_enc = args ! 3, gk_stage_addr_lo = args ! 4, gk_stage_addr_hi = args ! 5,
      gk_ingress_host_offset = args ! 6, gk_server_noc_x = args ! 7, gk_server_noc_y = args ! 8,
      gk_server_ring_base_addr = args ! 9, gk_server_ring_sem_base_addr = args ! 10,
      gk_ring_slots = args ! 11, gk_seen_generation = args ! 12\<rparr>"

record admission_kernel_args =
  ak_termination_addr :: u32
  ak_ready_addr :: u32
  ak_descriptor_addr :: u32
  ak_scratch_addr :: u32
  ak_server_noc0_x :: u32
  ak_server_noc0_y :: u32
  ak_get_cb_base :: u32
  ak_admission_progress_addr :: u32
  ak_dram_value_base :: u32
  ak_seen_ready :: u32

definition read_admission_args :: "u32 list \<Rightarrow> admission_kernel_args" where
  "read_admission_args args =
     \<lparr>ak_termination_addr = args ! 0, ak_ready_addr = args ! 1, ak_descriptor_addr = args ! 2,
      ak_scratch_addr = args ! 3, ak_server_noc0_x = args ! 4, ak_server_noc0_y = args ! 5,
      ak_get_cb_base = args ! 6, ak_admission_progress_addr = args ! 7, ak_dram_value_base = args ! 8,
      ak_seen_ready = args ! 9\<rparr>"

end
