(* ===== verification/Server_Start.thy ===== *)
theory Server_Start
  imports Server_Kernels
begin

text \<open>
  What the host and the four kernels of a server have in common when the kernels start: the addresses in their runtime
  arguments and the words that the host has written there. The writes are those of \<open>server_init_writes\<close> and
  the later ones of \<^verbatim>\<open>ServerRuntimeCore::prepare_server_kernel\<close> (\<^verbatim>\<open>server_program.cpp\<close>), in the order of the
  source; a core's memory is a function from addresses to bytes.
\<close>

section \<open>The same addresses\<close>

text \<open>
  C29: the four kernels and the host agree on where they meet. Whatever connection arguments follow the fixed ones, the
  transport kernel finds exactly the fixed number of arguments before them, and the number of connections among them. The
  transport and the directory kernel have the same termination word, mailboxes, semaphores, completion lines,
  cold-start gate, value base and starting counter, and the same idea whether GET is admitted by the third kernel; the
  progress line that the directory kernel watches is the one behind the last client's completion line; the admission
  kernel has the directory kernel's mailbox, circular buffer and progress line; the ingress kernel rings the
  semaphores behind the very slots that the transport kernel scans, and all start from the same counter.
\<close>

theorem kernels_meet:
  "let t = read_transport_args (server_rt_args ki n @ connections); d = read_directory_args (dir_rt_args ki);
      g = read_ingress_args (ingress_rt_args ki); a = read_admission_args (admission_rt_args ki); l = ki_layout ki in
    length (server_rt_args ki n) = kServerTransportFixedRtArgs \<and> tk_num_connections t = n
    \<and> tk_termination_addr t = dk_termination_addr d \<and> tk_termination_addr t = termination_addr l
    \<and> tk_dir_req_mailbox_addr t = dk_req_mailbox_addr d \<and> tk_dir_req_sem_addr t = dk_req_sem_addr d
    \<and> tk_dir_done_sem_addr t = dk_done_sem_addr d \<and> tk_dir_resp_mailbox_addr t = dk_resp_mailbox_addr d
    \<and> tk_cold_start_done_addr t = dk_cold_start_done_addr d \<and> tk_commit_done_addr t = dk_commit_done_addr d
    \<and> tk_dram_value_base t = dk_dram_value_base d \<and> tk_max_keys t = dk_max_keys d
    \<and> tk_any_get_done_monitor_addr t = dk_get_completion_ack_addr d
    \<and> put_stream_progress_offset (tk_direct_put_done_addr t) = dk_direct_put_progress_addr d
    \<and> tk_get_admission_worker_enabled t = dk_get_admission_worker_enabled d
    \<and> tk_get_admission_progress_addr t = dk_get_admission_progress_addr d
    \<and> ak_admission_progress_addr a = tk_get_admission_progress_addr t
    \<and> ak_ready_addr a = dk_get_admission_ready_addr d \<and> ak_descriptor_addr a = dk_get_admission_descriptor_addr d
    \<and> ak_get_cb_base a = dk_get_value_cb_base d \<and> ak_dram_value_base a = dk_dram_value_base d
    \<and> gk_server_ring_base_addr g = tk_server_l1_base t + kRingBaseOffset
    \<and> gk_server_ring_sem_base_addr g = tk_server_l1_base t + ring_sem_base_offset l
    \<and> (gk_stage_pcie_xy_enc g, gk_stage_addr_lo g, gk_stage_addr_hi g) = (dk_stage_pcie_xy_enc d, dk_stage_addr_lo d, dk_stage_addr_hi d)
    \<and> tk_initial_counter t = dk_initial_counter d \<and> gk_seen_generation g = dk_initial_counter d
    \<and> ak_seen_ready a = dk_initial_counter d"
  by (simp add: Let_def server_rt_args_def dir_rt_args_def ingress_rt_args_def admission_rt_args_def
      read_transport_args_def read_directory_args_def read_ingress_args_def read_admission_args_def
      kServerTransportFixedRtArgs_def put_stream_progress_offset_def nth_append flag_def add.assoc)

section \<open>The words the kernels start from\<close>

definition move_req_sem_image :: "u32 \<Rightarrow> byte list" where
  "move_req_sem_image counter = memcpy 0 (le32 counter) (replicate (unat (of_nat kMoveReqSemSize :: u32)) 0)"

definition promote_done_image :: "u32 \<Rightarrow> byte list" where
  "promote_done_image counter = memcpy 0 (le32 counter) (replicate (unat kPromoteDoneSemSize) 0)"

definition evict_handshake_image :: "u32 \<Rightarrow> byte list" where
  "evict_handshake_image counter =
     memcpy (unat kEvictAckSemSize + unat kEvictAckSize) (le32 counter)
       (memcpy 0 (le32 counter) (replicate (unat kEvictAckSemSize + unat kEvictAckSize + unat kEvictDoneSemSize) 0))"

definition kGetAdmissionSourceDoneWord :: nat where "kGetAdmissionSourceDoneWord = 0"
definition kGetAdmissionWriteDoneWord :: nat where "kGetAdmissionWriteDoneWord = 1"

definition admission_progress_image :: "u32 \<Rightarrow> byte list" where
  "admission_progress_image counter =
     memcpy (kGetAdmissionWriteDoneWord * 4) (le32 counter)
       (memcpy (kGetAdmissionSourceDoneWord * 4) (le32 counter) (replicate (unat kGetCreditSemSize) 0))"

definition cold_start_image :: "byte list" where
  "cold_start_image = replicate (unat kColdStartDoneSize + unat kAllocatorProfileSize) 0"

definition server_core_writes :: "u32 \<Rightarrow> l1_layout \<Rightarrow> u32 \<Rightarrow> byte list \<Rightarrow> u32 list \<Rightarrow> (u32 \<times> byte list) list" where
  "server_core_writes l1_base l counter template table =
     server_init_writes l1_base l counter template @
     [(l1_base + peer_lookup_table_offset l, concat (map le32 table)),
      (l1_base + get_credit_sem_offset l, admission_progress_image counter),
      (l1_base + move_req_sem_offset l, move_req_sem_image counter),
      (l1_base + promote_done_offset l, promote_done_image counter),
      (l1_base + evict_ack_sem_offset l, evict_handshake_image counter),
      (l1_base + cold_start_done_offset l, cold_start_image)]"

text \<open>The private memories of the ingress and the admission core.\<close>

definition ingress_init :: "fabric_free_worker \<Rightarrow> u32 \<Rightarrow> u32 \<times> byte list" where
  "ingress_init w counter =
     (fw_l1_base w, memcpy (unat kGetIngressDoorbellOffset) (le32 counter) (replicate (unat kGetIngressDoorbellOffset + 16) 0))"

definition admission_init :: "fabric_free_worker \<Rightarrow> u32 \<Rightarrow> u32 \<times> byte list" where
  "admission_init w counter =
     (fw_l1_base w, memcpy (unat kGetAdmissionReadyOffset) (le32 counter) (replicate (unat kGetAdmissionDescriptorOffset + 32) 0))"

definition store_l1 :: "u32 \<times> byte list \<Rightarrow> (nat \<Rightarrow> byte) \<Rightarrow> nat \<Rightarrow> byte" where
  "store_l1 w mem = (\<lambda>a. if unat (fst w) \<le> a \<and> a < unat (fst w) + length (snd w) then snd w ! (a - unat (fst w)) else mem a)"

definition l1_word :: "(nat \<Rightarrow> byte) \<Rightarrow> nat \<Rightarrow> u32" where
  "l1_word mem a = read_le32 (map mem [a ..< a + 4]) 0"

lemma l1_word_miss:
  "b + 4 \<le> unat a \<or> unat a + length bs \<le> b \<Longrightarrow> l1_word (store_l1 (a, bs) mem) b = l1_word mem b"
  by (auto simp: l1_word_def store_l1_def read_le32_def)

lemma l1_word_hit:
  assumes "unat a \<le> b" and "b + 4 \<le> unat a + length bs"
  shows "l1_word (store_l1 (a, bs) mem) b = read_le32 bs (b - unat a)"
proof -
  obtain k where "b = unat a + k" using assms(1) le_Suc_ex by blast
  then show ?thesis using assms by (simp add: l1_word_def store_l1_def read_le32_def numeral_2_eq_2 numeral_3_eq_3)
qed

lemma read_le32_patched [simp]:
  "off + 4 \<le> length bs \<Longrightarrow> read_le32 (memcpy off (le32 c) bs) off = c"
  "off + 4 \<le> length bs \<Longrightarrow> i + 4 \<le> length bs \<Longrightarrow> i + 4 \<le> off \<or> off + 4 \<le> i \<Longrightarrow>
     read_le32 (memcpy off (le32 c) bs) i = read_le32 bs i"
proof -
  assume *: "off + 4 \<le> length bs"
  then have "read_le32 (memcpy off (le32 c) bs) off = read_le32 (le32 c) 0" by (simp add: read_le32_def nth_memcpy numeral_2_eq_2)
  then show "read_le32 (memcpy off (le32 c) bs) off = c" by simp
  assume "i + 4 \<le> length bs" "i + 4 \<le> off \<or> off + 4 \<le> i"
  with * show "read_le32 (memcpy off (le32 c) bs) i = read_le32 bs i" by (auto simp: read_le32_def nth_memcpy)
qed

lemma read_le32_zeros [simp]: "i + 4 \<le> n \<Longrightarrow> read_le32 (replicate n 0) i = 0"
  by (simp add: read_le32_def)

text \<open>Where the regions are, as numbers: as offsets and as addresses.\<close>

definition offsets_at :: "l1_layout \<Rightarrow> nat \<Rightarrow> bool" where
  "offsets_at l n \<longleftrightarrow>
     unat (peer_lookup_table_offset l) = 6800 + 4368 * n
     \<and> unat (get_credit_sem_offset l) = 7072 + 4368 * n
     \<and> unat (direct_put_done_offset l) = 7088 + 4368 * n
     \<and> unat (commit_issued_offset l) = 7648 + 4368 * n
     \<and> unat (commit_done_offset l) = 7664 + 4368 * n
     \<and> unat (move_req_sem_offset l) = 10784 + 4368 * n
     \<and> unat (promote_done_offset l) = 11168 + 4368 * n
     \<and> unat (evict_ack_sem_offset l) = 11184 + 4368 * n
     \<and> unat (evict_ack_offset l) = 11200 + 4368 * n
     \<and> unat (evict_done_offset l) = 11216 + 4368 * n
     \<and> unat (cold_start_done_offset l) = 11328 + 4368 * n"

definition addresses_at :: "u32 \<Rightarrow> l1_layout \<Rightarrow> nat \<Rightarrow> bool" where
  "addresses_at l1_base l n \<longleftrightarrow>
     unat (l1_base + peer_lookup_table_offset l) = unat l1_base + (6800 + 4368 * n)
     \<and> unat (l1_base + get_credit_sem_offset l) = unat l1_base + (7072 + 4368 * n)
     \<and> unat (l1_base + direct_put_done_offset l) = unat l1_base + (7088 + 4368 * n)
     \<and> unat (l1_base + commit_issued_offset l) = unat l1_base + (7648 + 4368 * n)
     \<and> unat (l1_base + move_req_sem_offset l) = unat l1_base + (10784 + 4368 * n)
     \<and> unat (l1_base + promote_done_offset l) = unat l1_base + (11168 + 4368 * n)
     \<and> unat (l1_base + evict_ack_sem_offset l) = unat l1_base + (11184 + 4368 * n)
     \<and> unat (l1_base + cold_start_done_offset l) = unat l1_base + (11328 + 4368 * n)
     \<and> unat (l1_base + 4112) = unat l1_base + 4112
     \<and> unat (l1_base + 4624) = unat l1_base + 4624"

lemma layout_positions:
  assumes "unat l1_base mod 32 = 0" and "unat l1_base + 524288 < 2 ^ 32"
    and "server_pipeline_end (ucast ring_slots) \<le> ucast reserve" and "reserve \<le> kServerL1ReserveMaxBytes"
    and plan: "plan_server_l1 l1_base reserve ring_slots = Inr l"
  obtains n where "termination_addr l = l1_base" and "offsets_at l n" and "addresses_at l1_base l n"
proof -
  define n where "n = unat ring_slots"
  have t: "tiles 0 (l1_regions ring_slots l) (unat (allocator_profile_offset l + kAllocatorProfileSize))"
    using server_l1_tiled [OF assms(1-4)] plan by simp
  have "11440 + 4368 * n \<le> unat reserve" "unat reserve \<le> 524288"
    using assms(3,4) prefix_end(7) [of ring_slots] by (simp_all add: word_le_nat_alt kServerL1ReserveMaxBytes_def n_def)
  then have n: "n \<le> 117" by linarith
  have "termination_addr l = l1_base"
    using plan by (auto simp: plan_server_l1_def Let_def layout_behind_def kTerminationOffset_def split: sum.splits option.splits)
  moreover have off: "offsets_at l n"
    using t n ring_bytes [of ring_slots] by (simp add: offsets_at_def n_def l1_regions_def layout_sizes)
  moreover have at: "unat (l1_base + off) = unat l1_base + unat off" if "unat off < 524288" for off
    using that assms(2) by (intro unat_plus_fits) simp
  have "addresses_at l1_base l n" using off n by (simp add: addresses_at_def offsets_at_def at)
  ultimately show thesis using that by blast
qed

lemma image_lengths [simp]:
  "length (direct_done_image c) = 528" "length (commit_counters_image c) = 32" "length (admission_progress_image c) = 16"
  "length (move_req_sem_image c) = 16" "length (promote_done_image c) = 16" "length (evict_handshake_image c) = 48"
  "length cold_start_image = 80"
  using direct_done_words [of 0 c] by (simp_all add: commit_counters_image_def admission_progress_image_def move_req_sem_image_def
      promote_done_image_def evict_handshake_image_def cold_start_image_def layout_sizes
      kGetAdmissionWriteDoneWord_def kGetAdmissionSourceDoneWord_def)



end
