(* ===== verification/Server_Facade.thy ===== *)
theory Server_Facade
  imports Server_Close Host_Api
begin

text \<open>
  The accessors of the public server (\<^verbatim>\<open>src/server.cpp\<close> over \<^verbatim>\<open>server_lifecycle.cpp\<close>) down to the core:
  each layer makes its own checks, of the manager's lifecycle and worker, of the runtime's phase and of the core's
  lifecycle, workload and worker. What reading the device gives or throws is an argument.
\<close>

definition runtime_put_drain_progress ::
  "bool \<Rightarrow> fault + byte list \<Rightarrow> ('z device_runtime_state_scheme, u32 \<times> u32) io" where
  "runtime_put_drain_progress device line =
     bindE (gets runtime_phase) (\<lambda>phase.
     seqE (check (phase = Running) (Fatal ''ServerDeviceRuntime PUT progress requires Running state''))
          (put_drain_progress device line))"

definition runtime_allocator_profile ::
  "bool \<Rightarrow> fault + byte list \<Rightarrow> 32 word \<Rightarrow> ('z device_runtime_state_scheme, allocator_profile) io" where
  "runtime_allocator_profile device profile_words clock =
     bindE (gets runtime_phase) (\<lambda>phase.
     seqE (check (phase = Running) (Fatal ''ServerDeviceRuntime allocator profile requires Running''))
          (allocator_profile_core device profile_words clock))"

definition server_put_drain_progress ::
  "bool \<Rightarrow> fault + byte list \<Rightarrow> ('z server_state_scheme, u32 \<times> u32) io" where
  "server_put_drain_progress device line =
     bindE (gets server_lifecycle) (\<lambda>l.
     seqE (check (l = Server_Ready) (Runtime_Error ''Server is not ready''))
    (seqE throw_if_manager_failed
    (seqE checked_runtime (runtime_put_drain_progress device line))))"

definition server_allocator_profile ::
  "bool \<Rightarrow> fault + byte list \<Rightarrow> 32 word \<Rightarrow> ('z server_state_scheme, allocator_profile) io" where
  "server_allocator_profile device profile_words clock =
     bindE (gets server_lifecycle) (\<lambda>l.
     seqE (check (l = Server_Ready) (Runtime_Error ''Server is not ready''))
    (seqE throw_if_manager_failed
    (seqE checked_runtime (runtime_allocator_profile device profile_words clock))))"

definition server_moves_completed :: "('z server_state_scheme, u64) io" where
  "server_moves_completed = gets moves_completed"

section \<open>Ready means ready at every layer\<close>

lemma server_ready_layers:
  "server_is_ready s \<longleftrightarrow> server_lifecycle s = Server_Ready \<and> \<not> manager_failed s \<and> runtime_present s
     \<and> runtime_phase s = Running \<and> is_ready_core s"
  by (auto simp: server_is_ready_def runtime_is_ready_def is_ready_core_def)

text \<open>
  The readiness a client sees is the readiness that the accessors need. Reading the put progress or the allocator's
  profile changes no state; it returns exactly when \<^verbatim>\<open>is_ready\<close> holds and the device answers (with a positive clock),
  with the words of its line; in every other case, whichever layer refuses first, it throws.
\<close>

theorem accessors_need_ready:
  fixes s :: "'z server_state_scheme"
  shows "wp (server_put_drain_progress device line)
      (\<lambda>v t. t = s \<and> server_is_ready s \<and> device \<and> (\<exists>bs. line = Inr bs \<and> v = (read_le32 bs 0, read_le32 bs 16)))
      (\<lambda>_ t. t = s \<and> \<not> (server_is_ready s \<and> device \<and> \<not> isl line)) s
    \<and> wp (server_allocator_profile device line clock)
      (\<lambda>v t. t = s \<and> server_is_ready s \<and> device \<and> 0 < sint clock \<and> (\<exists>bs. line = Inr bs
         \<and> ap_allocation_calls v = ucast (read_le32 bs 0) \<and> ap_clock_mhz v = clock))
      (\<lambda>_ t. t = s \<and> \<not> (server_is_ready s \<and> device \<and> \<not> isl line \<and> 0 < sint clock)) s"
proof -
  note defs = server_put_drain_progress_def server_allocator_profile_def runtime_put_drain_progress_def
    runtime_allocator_profile_def put_drain_progress_def allocator_profile_core_def throw_if_manager_failed_def checked_runtime_def
    check_ready_core_def throw_if_core_worker_failed_def server_ready_layers is_ready_core_def wp_rules
  show ?thesis
    by (cases line) (simp_all add: defs Let_def kPutCommitIssuedSemSize_def split: option.split, blast?)
qed

section \<open>The quarantine list and its test hooks\<close>

text \<open>
  What a failed teardown parks: the submesh, the slot it keeps occupied, and whether a test may release it. The list is
  taken as a whole; what may not be released is pushed back one by one, in front of whatever was parked meanwhile.
\<close>

record parked_server =
  pk_submesh :: nat
  pk_slot :: "nat \<times> u32"
  pk_safe_to_release_for_test :: bool

definition test_quarantine_holds_submesh :: "parked_server list \<Rightarrow> nat \<Rightarrow> bool" where
  "test_quarantine_holds_submesh parked submesh = (\<exists>r \<in> set parked. pk_submesh r = submesh)"

fun release_parked :: "parked_server list \<Rightarrow> parked_server list \<Rightarrow> (nat \<times> u32) set \<Rightarrow> parked_server list \<times> (nat \<times> u32) set" where
  "release_parked [] head slots = (head, slots)"
| "release_parked (r # resources) head slots =
     (if pk_safe_to_release_for_test r then release_parked resources head (slots - {pk_slot r})
      else release_parked resources (r # head) slots)"

definition release_test_quarantined_servers ::
  "parked_server list \<Rightarrow> (nat \<times> u32) set \<Rightarrow> parked_server list \<times> (nat \<times> u32) set" where
  "release_test_quarantined_servers parked slots = release_parked parked [] slots"

lemma release_parked_exact:
  "release_parked resources head slots =
     (rev [r \<leftarrow> resources. \<not> pk_safe_to_release_for_test r] @ head,
      slots - pk_slot ` {r \<in> set resources. pk_safe_to_release_for_test r})"
  by (induction resources head slots rule: release_parked.induct) auto

text \<open>
  The test hook frees exactly the slots of the servers a test may release; every production quarantine stays, with its
  submesh and its slot (slots of parked servers are distinct, since a parked one keeps its slot occupied).
\<close>

theorem release_keeps_production_quarantine:
  assumes "distinct (map pk_slot parked)" and "pk_slot ` set parked \<subseteq> slots"
    and "release_test_quarantined_servers parked slots = (left, slots')"
  shows "set left = {r \<in> set parked. \<not> pk_safe_to_release_for_test r} \<and> pk_slot ` set left \<subseteq> slots'"
    and "r \<in> set parked \<Longrightarrow> pk_safe_to_release_for_test r \<Longrightarrow> pk_slot r \<notin> slots'"
proof -
  have e: "left = rev [r \<leftarrow> parked. \<not> pk_safe_to_release_for_test r]"
    "slots' = slots - pk_slot ` {r \<in> set parked. pk_safe_to_release_for_test r}"
    using assms(3) by (auto simp: release_test_quarantined_servers_def release_parked_exact)
  have "inj_on pk_slot (set parked)" using assms(1) by (simp add: distinct_map)
  then show "set left = {r \<in> set parked. \<not> pk_safe_to_release_for_test r} \<and> pk_slot ` set left \<subseteq> slots'"
    using assms(2) by (auto simp: e inj_on_def)
  show "r \<in> set parked \<Longrightarrow> pk_safe_to_release_for_test r \<Longrightarrow> pk_slot r \<notin> slots'" by (auto simp: e)
qed

end
