(* ===== verification/Shard_Config.thy ===== *)
theory Shard_Config
  imports Server_Config
begin

text \<open>
  The number of server shards is read twice from \<^verbatim>\<open>T3KNIC_SERVER_SHARDS\<close>: by the core with the exact decimal
  parser of \<^verbatim>\<open>config.cpp\<close>, and again by \<^verbatim>\<open>configured_static_server_shards\<close> of \<^verbatim>\<open>server_program.cpp\<close> with
  \<^verbatim>\<open>strtoul\<close>. Both are modelled on the characters of the variable; \<^verbatim>\<open>std::from_chars\<close> and \<^verbatim>\<open>strtoul\<close> are as
  the standards define them for base 10.
\<close>

definition is_digit :: "char \<Rightarrow> bool" where
  "is_digit c \<longleftrightarrow> 48 \<le> (of_char c :: nat) \<and> (of_char c :: nat) \<le> 57"

definition is_space :: "char \<Rightarrow> bool" where
  "is_space c \<longleftrightarrow> (of_char c :: nat) = 32 \<or> 9 \<le> (of_char c :: nat) \<and> (of_char c :: nat) \<le> 13"

definition digits_value :: "string \<Rightarrow> nat" where
  "digits_value ds = foldl (\<lambda>n c. 10 * n + (of_char c - 48)) 0 ds"

definition parse_u64_exact :: "string \<Rightarrow> fault + u64" where
  "parse_u64_exact value =
     (let ds = takeWhile is_digit value in
      if value = [] \<or> ds = [] \<or> dropWhile is_digit value \<noteq> [] then
        Inl (Thrown ''must be an unsigned decimal integer with no whitespace or trailing characters'')
      else if 2 ^ 64 \<le> digits_value ds then Inl (Thrown ''exceeds uint64 range'')
      else Inr (of_nat (digits_value ds)))"

definition read_u64_env :: "string option \<Rightarrow> env_u64" where
  "read_u64_env value = (case value of None \<Rightarrow> Inr None | Some v \<Rightarrow> map_sum id Some (parse_u64_exact v))"

text \<open>The number, and what is left behind it; nothing was parsed when all of the string is left.\<close>

definition strtoul10 :: "string \<Rightarrow> u64 \<times> string" where
  "strtoul10 value =
     (let s = dropWhile is_space value;
          negative = (s \<noteq> [] \<and> hd s = CHR ''-'');
          s' = (if s \<noteq> [] \<and> (hd s = CHR ''-'' \<or> hd s = CHR ''+'') then tl s else s);
          ds = takeWhile is_digit s'
      in if ds = [] then (0, value)
         else (if 2 ^ 64 \<le> digits_value ds then 0xFFFFFFFFFFFFFFFF
               else if negative then - of_nat (digits_value ds) else of_nat (digits_value ds),
               dropWhile is_digit s'))"

definition configured_static_server_shards :: "string option \<Rightarrow> fault + u32" where
  "configured_static_server_shards value =
     (case value of
        None \<Rightarrow> Inr 1
      | Some v \<Rightarrow>
          if v = [] then Inr 1
          else
            (let (parsed, rest) = strtoul10 v in
             if rest \<noteq> v \<and> rest = [] \<and> 1 \<le> parsed \<and> parsed \<le> 8 then Inr (ucast parsed)
             else Inl (Fatal ''T3KNIC_SERVER_SHARDS must be in [1,8]'')))"

lemma digit_start:
  assumes "is_digit c"
  shows "\<not> is_space c" and "c \<noteq> CHR ''-''" and "c \<noteq> CHR ''+''"
  using assms by (auto simp: is_digit_def is_space_def)

lemma strtoul10_digits:
  assumes "v \<noteq> []" and "\<And>c. c \<in> set v \<Longrightarrow> is_digit c" and "digits_value v < 2 ^ 64"
  shows "strtoul10 v = (of_nat (digits_value v), [])"
proof -
  obtain c w where v: "v = c # w" using assms(1) by (cases v) auto
  then have "is_digit c" using assms(2) by simp
  note c = digit_start [OF this]
  have "dropWhile is_space v = v" using c(1) by (simp add: v)
  moreover have "takeWhile is_digit v = v" "dropWhile is_digit v = []" using assms(2) by simp_all
  ultimately show ?thesis using assms(1,3) c by (simp add: strtoul10_def Let_def v)
qed

text \<open>
  C37: the two readers of the number of shards agree: for every value of the variable, unset included, on which the core
  accepts a number of worker groups, the preparation of the kernels reads the same number, so the service is built for as
  many shards as memory was reserved for.
\<close>

theorem shard_readers_agree:
  assumes "configured_server_worker_groups (read_u64_env value) = Inr n"
  shows "configured_static_server_shards value = Inr n"
proof (cases "value")
  case (Some v)
  have p: "parse_u64_exact v = Inr m" "1 \<le> m" "m \<le> 8" "n = ucast m" if "parse_u64_exact v = Inr m" for m
    using assms that by (auto simp: Some read_u64_env_def configured_server_worker_groups_def env_or_def split: if_splits)
  obtain m where m: "parse_u64_exact v = Inr m"
    using assms by (cases "parse_u64_exact v")
      (auto simp: Some read_u64_env_def configured_server_worker_groups_def env_or_def)
  then have v: "v \<noteq> []" "dropWhile is_digit v = []" "digits_value (takeWhile is_digit v) < 2 ^ 64"
      "m = of_nat (digits_value (takeWhile is_digit v))"
    by (auto simp: parse_u64_exact_def Let_def not_le split: if_splits)
  have all: "c \<in> set v \<Longrightarrow> is_digit c" for c using v(2) by (simp add: dropWhile_eq_Nil_conv)
  then have w: "takeWhile is_digit v = v" by (simp add: takeWhile_eq_all_conv)
  have "strtoul10 v = (m, [])" using strtoul10_digits [OF v(1) all] v(3,4) unfolding w by simp
  then show ?thesis using p(2-4) [OF m] v(1) by (simp add: configured_static_server_shards_def Some)
qed (use assms in \<open>simp add: read_u64_env_def configured_server_worker_groups_def env_or_def configured_static_server_shards_def\<close>)

theorem shard_readers_agree_witness:
  "configured_static_server_shards (Some ''004'') = Inr 4 \<and> configured_static_server_shards None = Inr 1"
proof -
  have "configured_server_worker_groups (read_u64_env (Some ''004'')) = Inr 4"
    by (simp add: read_u64_env_def parse_u64_exact_def digits_value_def is_digit_def configured_server_worker_groups_def env_or_def)
  moreover have "configured_server_worker_groups (read_u64_env None) = Inr 1"
    by (simp add: read_u64_env_def configured_server_worker_groups_def env_or_def)
  ultimately show ?thesis using shard_readers_agree by blast
qed

end
