(* ===== verification/Shared_Memory.thy ===== *)
theory Shared_Memory
  imports Kvm_Prelude
begin

text \<open>
  \<^verbatim>\<open>SharedMemoryMapping\<close> (\<^verbatim>\<open>shared_memory_mapping.cpp\<close>): the pinned host memory when there is no huge page. The
  operating system is a state: the objects that exist under this process's name prefix (their sequence numbers), the open
  descriptors, the mappings with their contents. What a call does when it succeeds is as POSIX documents it; whether it
  fails, and with which error, is an argument.
\<close>

record shm_os =
  os_names :: "u64 list"
  os_fds :: "nat list"
  os_maps :: "(nat \<times> byte list) list"
  os_sequence :: u64

record shm_answers =
  sa_open :: "u64 \<Rightarrow> nat option"
  sa_fd :: nat
  sa_ftruncate :: "nat option"
  sa_mmap :: "nat option"
  sa_address :: nat
  sa_contents :: "byte list"
  sa_unlink :: "nat option"

definition kEexist :: nat where "kEexist = 17"

definition unlink_name :: "shm_answers \<Rightarrow> u64 \<Rightarrow> (shm_os, nat option) io" where
  "unlink_name sa name =
     seqE (whenE (sa_unlink sa = None) (modify (\<lambda>s. s\<lparr>os_names := remove1 name (os_names s)\<rparr>))) (ret (sa_unlink sa))"

definition close_fd :: "shm_answers \<Rightarrow> (shm_os, unit) io" where
  "close_fd sa = modify (\<lambda>s. s\<lparr>os_fds := remove1 (sa_fd sa) (os_fds s)\<rparr>)"

definition unmap :: "nat \<Rightarrow> (shm_os, unit) io" where
  "unmap address = modify (\<lambda>s. s\<lparr>os_maps := [m \<leftarrow> os_maps s. fst m \<noteq> address]\<rparr>)"

text \<open>Creating exclusively fails on a name that exists; each attempt takes the next number.\<close>

definition shm_open_excl :: "shm_answers \<Rightarrow> u64 \<Rightarrow> (shm_os, nat option) io" where
  "shm_open_excl sa name =
     bindE (gets os_names) (\<lambda>names.
     if name \<in> set names then ret (Some kEexist)
     else case sa_open sa name of
            Some error \<Rightarrow> ret (Some error)
          | None \<Rightarrow> seqE (modify (\<lambda>s. s\<lparr>os_names := name # os_names s, os_fds := sa_fd sa # os_fds s\<rparr>)) (ret None))"

fun open_unique :: "shm_answers \<Rightarrow> nat \<Rightarrow> (shm_os, u64 option) io" where
  "open_unique sa 0 = ret None"
| "open_unique sa (Suc attempts) =
     bindE (gets os_sequence) (\<lambda>name.
     seqE (modify (os_sequence_update (\<lambda>_. name + 1)))
    (bindE (shm_open_excl sa name) (\<lambda>answer.
     case answer of
       None \<Rightarrow> ret (Some name)
     | Some error \<Rightarrow> if error \<noteq> kEexist then throw (Runtime_Error ''shm_open'') else open_unique sa attempts)))"

definition create_mapping :: "shm_answers \<Rightarrow> nat \<Rightarrow> (shm_os, nat \<times> nat) io" where
  "create_mapping sa bytes =
     seqE (check (bytes \<noteq> 0) (Invalid_Argument ''shared-memory mapping size must be positive''))
    (bindE (open_unique sa 32) (\<lambda>found.
     case found of
       None \<Rightarrow> throw (Runtime_Error ''failed to allocate a unique shared-memory name'')
     | Some name \<Rightarrow>
         if sa_ftruncate sa \<noteq> None then
           seqE (close_fd sa) (bindE (unlink_name sa name) (\<lambda>_. throw (Runtime_Error ''ftruncate'')))
         else
           seqE (whenE (sa_mmap sa = None) (modify (\<lambda>s. s\<lparr>os_maps := (sa_address sa, take bytes (sa_contents sa @ replicate bytes 0)) # os_maps s\<rparr>)))
          (seqE (close_fd sa)
          (if sa_mmap sa \<noteq> None then bindE (unlink_name sa name) (\<lambda>_. throw (Runtime_Error ''mmap''))
           else
             bindE (unlink_name sa name) (\<lambda>error.
             if error \<noteq> None then seqE (unmap (sa_address sa)) (throw (Runtime_Error ''shm_unlink''))
             else
               seqE (modify (\<lambda>s. s\<lparr>os_maps := (sa_address sa, replicate bytes 0) # tl (os_maps s)\<rparr>))
                    (ret (sa_address sa, bytes)))))))"

text \<open>The object: the address and size, or nothing.\<close>

definition reset_mapping :: "(nat \<times> nat) option \<Rightarrow> (shm_os, (nat \<times> nat) option) io" where
  "reset_mapping m = (case m of None \<Rightarrow> ret None | Some (address, bytes) \<Rightarrow> seqE (unmap address) (ret None))"

definition move_assign :: "bool \<Rightarrow> (nat \<times> nat) option \<Rightarrow> (nat \<times> nat) option
    \<Rightarrow> (shm_os, (nat \<times> nat) option \<times> (nat \<times> nat) option) io" where
  "move_assign same self other =
     (if same then ret (self, other) else bindE (reset_mapping self) (\<lambda>_. ret (other, None)))"

section \<open>Nothing is left behind\<close>

definition opened :: "shm_answers \<Rightarrow> shm_os \<Rightarrow> u64 \<Rightarrow> shm_os \<Rightarrow> bool" where
  "opened sa s name t \<longleftrightarrow>
     name \<notin> set (os_names s) \<and> os_names t = name # os_names s \<and> os_fds t = sa_fd sa # os_fds s \<and> os_maps t = os_maps s"

definition untouched :: "shm_os \<Rightarrow> shm_os \<Rightarrow> bool" where
  "untouched s t \<longleftrightarrow> os_names t = os_names s \<and> os_fds t = os_fds s \<and> os_maps t = os_maps s"

lemma open_unique_result:
  "wp (open_unique sa n) (\<lambda>found t. case found of None \<Rightarrow> untouched s t | Some name \<Rightarrow> opened sa s name t)
     (\<lambda>_ t. untouched s t) s0" if "untouched s s0"
  using that
proof (induction n arbitrary: s0)
  case (Suc n)
  let ?s = "s0\<lparr>os_sequence := os_sequence s0 + 1\<rparr>"
  have u: "untouched s ?s" using Suc.prems by (simp add: untouched_def)
  note ih = Suc.IH [OF u]
  show ?case
    using u ih
    by (auto simp: shm_open_excl_def wp_rules untouched_def opened_def split: option.split)
qed (simp add: wp_rules)

text \<open>
  C38: a failed creation leaks nothing. Whatever the calls answer and however many names are taken: no descriptor stays open; no
  object of another creation is unlinked; when the creation throws no mapping stays, and the object it made is gone
  unless the unlinking itself failed; when it returns the object's name is gone, and the one new mapping has the requested
  positive size and is all zero.
\<close>

theorem create_mapping_clean:
  assumes "sa_address sa \<notin> fst ` set (os_maps s)"
  shows "wp (create_mapping sa bytes)
    (\<lambda>m t. m = (sa_address sa, bytes) \<and> 0 < bytes \<and> os_names t = os_names s \<and> os_fds t = os_fds s
       \<and> os_maps t = (sa_address sa, replicate bytes 0) # os_maps s)
    (\<lambda>_ t. os_fds t = os_fds s \<and> os_maps t = os_maps s
       \<and> (if sa_unlink sa = None then os_names t = os_names s else set (os_names s) \<subseteq> set (os_names t))) s"
proof -
  have f: "[m \<leftarrow> os_maps s. fst m \<noteq> sa_address sa] = os_maps s"
    using assms by (force intro: filter_True)
  have "untouched s s" by (simp add: untouched_def)
  note o = open_unique_result [OF this, of sa 32]
  show ?thesis
  proof (cases "bytes = 0")
    case False
    then show ?thesis
      unfolding create_mapping_def wp_seqE wp_check wp_bindE
      by (simp, intro wp_mono [OF o])
         (auto simp: wp_rules untouched_def opened_def unlink_name_def close_fd_def unmap_def f split: option.splits)
  qed (simp add: create_mapping_def wp_rules)
qed

definition busy_shm :: shm_os where
  "busy_shm = \<lparr>os_names = [3, 4], os_fds = [0, 1, 2], os_maps = [(4096, [1])], os_sequence = 3\<rparr>"

definition fine_shm :: shm_answers where
  "fine_shm = \<lparr>sa_open = (\<lambda>_. None), sa_fd = 7, sa_ftruncate = None, sa_mmap = None, sa_address = 8192, sa_contents = [], sa_unlink = None\<rparr>"

theorem create_mapping_clean_witness:
  "wp (create_mapping fine_shm 2)
     (\<lambda>m t. m = (8192, 2) \<and> os_names t = [3, 4] \<and> os_maps t = [(8192, [0, 0]), (4096, [1])]) (\<lambda>_ _. True) busy_shm"
proof -
  have "sa_address fine_shm \<notin> fst ` set (os_maps busy_shm)" by (simp add: fine_shm_def busy_shm_def)
  from create_mapping_clean [OF this, of 2] show ?thesis
    by (rule wp_mono) (simp_all add: fine_shm_def busy_shm_def numeral_2_eq_2)
qed

end
