(* ===== verification/Linked_List.thy ===== *)
theory Linked_List
  imports Kvm_Prelude
begin

text \<open>
  Doubly linked lists over indices, as the device keeps them in its free lists and in the residency list:
  \<open>link\<close> is the chain of next and previous words from a head to an end. The lemmas say what a chain that
  is given stands for, and which words an insertion at the head and a removal anywhere have to change.
\<close>

definition kNoLink :: u32 where
  "kNoLink = 0xFFFFFFFF"

text \<open>
  \<open>link nx pv p h xs q e\<close>: the nodes \<open>xs\<close> in order, from the head \<open>h\<close> whose predecessor is \<open>p\<close> to the last
  node \<open>q\<close> whose successor is \<open>e\<close>.
\<close>

fun link :: "(u32 \<Rightarrow> u32) \<Rightarrow> (u32 \<Rightarrow> u32) \<Rightarrow> u32 \<Rightarrow> u32 \<Rightarrow> u32 list \<Rightarrow> u32 \<Rightarrow> u32 \<Rightarrow> bool" where
  "link nx pv p h [] q e = (h = e \<and> q = p)"
| "link nx pv p h (x # xs) q e = (h = x \<and> x \<noteq> kNoLink \<and> pv x = p \<and> link nx pv x (nx x) xs q e)"

text \<open>A whole list, with its head and its tail.\<close>

definition linked :: "(u32 \<Rightarrow> u32) \<Rightarrow> (u32 \<Rightarrow> u32) \<Rightarrow> u32 \<Rightarrow> u32 list \<Rightarrow> u32 \<Rightarrow> bool" where
  "linked nx pv h xs t \<longleftrightarrow> link nx pv kNoLink h xs t kNoLink \<and> distinct xs"

lemma link_append:
  "link nx pv p h (xs @ ys) q e \<longleftrightarrow> (\<exists>a b. link nx pv p h xs a b \<and> link nx pv a b ys q e)"
  by (induction xs arbitrary: p h) auto

lemma link_cong:
  "(\<And>x. x \<in> set xs \<Longrightarrow> nx x = nx' x \<and> pv x = pv' x) \<Longrightarrow> link nx pv p h xs q e = link nx' pv' p h xs q e"
  by (induction xs arbitrary: p h) auto

lemma link_last: "link nx pv p h xs q e \<Longrightarrow> q = (if xs = [] then p else last xs)"
  by (induction xs arbitrary: p h) auto

lemma link_hd: "link nx pv p h xs q e \<Longrightarrow> h = (if xs = [] then e else hd xs)"
  by (cases xs) auto

lemma link_not_none: "link nx pv p h xs q e \<Longrightarrow> kNoLink \<notin> set xs"
  by (induction xs arbitrary: p h) auto

text \<open>Another end, when the last node's next word is changed; another predecessor of the first node.\<close>

lemma link_new_end:
  assumes "link nx pv p h xs q e" and "distinct xs" and "xs \<noteq> []"
  shows "link (nx(q := e')) pv p h xs q e'"
  using assms
proof (induction xs arbitrary: p h)
  case Nil
  then show ?case by simp
next
  case (Cons x xs)
  show ?case
  proof (cases "xs = []")
    case True
    then show ?thesis using Cons.prems by auto
  next
    case False
    then have "q \<in> set xs" using Cons.prems(1) link_last [of nx pv x "nx x" xs q e] by auto
    then have "q \<noteq> x" using Cons.prems(2) by auto
    then show ?thesis using Cons.IH [of x "nx x"] Cons.prems False by auto
  qed
qed

lemma link_new_start:
  assumes "link nx pv p h xs q e" and "distinct xs" and "xs \<noteq> []"
  shows "link nx (pv(h := p')) p' h xs q e"
  using assms
proof (cases xs)
  case (Cons x ys)
  then have "link nx (pv(x := p')) x (nx x) ys q e = link nx pv x (nx x) ys q e"
    using assms(2) by (intro link_cong) auto
  then show ?thesis using assms Cons by auto
qed simp

section \<open>Insertion at the head\<close>

definition push_next :: "u32 \<Rightarrow> u32 \<Rightarrow> (u32 \<Rightarrow> u32) \<Rightarrow> u32 \<Rightarrow> u32" where
  "push_next u h nx = nx(u := h)"

definition push_prev :: "u32 \<Rightarrow> u32 \<Rightarrow> (u32 \<Rightarrow> u32) \<Rightarrow> u32 \<Rightarrow> u32" where
  "push_prev u h pv = (if h = kNoLink then pv(u := kNoLink) else pv(u := kNoLink, h := u))"

lemma linked_push:
  assumes "linked nx pv h xs t" and u: "u \<notin> set xs" "u \<noteq> kNoLink"
  shows "linked (push_next u h nx) (push_prev u h pv) u (u # xs) (if h = kNoLink then u else t)"
proof (cases xs)
  case Nil
  then show ?thesis using assms by (auto simp: linked_def push_next_def push_prev_def)
next
  case (Cons x ys)
  then have hx: "h = x" "x \<noteq> kNoLink" and d: "distinct (u # xs)" using assms by (auto simp: linked_def)
  have "link nx (pv(h := u)) u h xs t kNoLink"
    using assms Cons by (intro link_new_start) (auto simp: linked_def)
  moreover have "link (push_next u h nx) (push_prev u h pv) u h xs t kNoLink = link nx (pv(h := u)) u h xs t kNoLink"
    using u hx by (intro link_cong) (auto simp: push_next_def push_prev_def)
  moreover have "u \<noteq> x" using u Cons by auto
  ultimately show ?thesis using hx u d Cons by (simp add: linked_def push_next_def push_prev_def)
qed

section \<open>Removal\<close>

definition unlink_next :: "u32 \<Rightarrow> (u32 \<Rightarrow> u32) \<Rightarrow> (u32 \<Rightarrow> u32) \<Rightarrow> u32 \<Rightarrow> u32" where
  "unlink_next u nx pv = (if pv u = kNoLink then nx else nx(pv u := nx u))"

definition unlink_prev :: "u32 \<Rightarrow> (u32 \<Rightarrow> u32) \<Rightarrow> (u32 \<Rightarrow> u32) \<Rightarrow> u32 \<Rightarrow> u32" where
  "unlink_prev u nx pv = (if nx u = kNoLink then pv else pv(nx u := pv u))"

lemma linked_remove:
  assumes "linked nx pv h (xs @ u # ys) t"
  shows "linked (unlink_next u nx pv) (unlink_prev u nx pv) (if pv u = kNoLink then nx u else h) (xs @ ys)
           (if nx u = kNoLink then pv u else t)"
    and "pv u = (if xs = [] then kNoLink else last xs)"
    and "nx u = (if ys = [] then kNoLink else hd ys)"
    and "pv u = kNoLink \<Longrightarrow> h = u"
    and "nx u = kNoLink \<Longrightarrow> t = u"
proof -
  obtain a where l1: "link nx pv kNoLink h xs a u" and a: "pv u = a" and unn: "u \<noteq> kNoLink"
    and l2: "link nx pv u (nx u) ys t kNoLink" and d: "distinct xs" "distinct ys" "u \<notin> set xs" "u \<notin> set ys"
      "set xs \<inter> set ys = {}"
    using assms by (auto simp: linked_def link_append)
  note nn = link_not_none [OF l1] link_not_none [OF l2]
  show pu: "pv u = (if xs = [] then kNoLink else last xs)" using link_last [OF l1] a by simp
  show nu: "nx u = (if ys = [] then kNoLink else hd ys)" using link_hd [OF l2] .
  have xs_iff: "pv u = kNoLink \<longleftrightarrow> xs = []" using pu nn(1) by (auto dest: last_in_set)
  have ys_iff: "nx u = kNoLink \<longleftrightarrow> ys = []" using nu nn(2) by (auto dest: hd_in_set)
  show "pv u = kNoLink \<Longrightarrow> h = u" using l1 xs_iff by simp
  show "nx u = kNoLink \<Longrightarrow> t = u" using l2 ys_iff by simp
  let ?nx = "unlink_next u nx pv" and ?pv = "unlink_prev u nx pv"
  have xs: "link ?nx ?pv kNoLink (if pv u = kNoLink then nx u else h) xs a (nx u)"
  proof (cases "xs = []")
    case True
    then show ?thesis using l1 xs_iff by simp
  next
    case False
    have "nx u \<notin> set xs" if "ys \<noteq> []" using nu that d(5) hd_in_set [OF that] by auto
    then have "link ?nx ?pv kNoLink h xs a (nx u) = link (nx(a := nx u)) pv kNoLink h xs a (nx u)"
      using False xs_iff ys_iff a by (intro link_cong) (auto simp: unlink_next_def unlink_prev_def)
    then show ?thesis using link_new_end [OF l1 d(1) False, of "nx u"] False xs_iff by simp
  qed
  have ys: "link ?nx ?pv a (nx u) ys (if nx u = kNoLink then a else t) kNoLink"
  proof (cases "ys = []")
    case True
    then show ?thesis using l2 ys_iff by simp
  next
    case False
    have "a \<notin> set ys" if "xs \<noteq> []" using pu that d(5) last_in_set [OF that] a
      by (metis disjoint_iff)
    then have "link ?nx ?pv a (nx u) ys t kNoLink = link nx (pv(nx u := a)) a (nx u) ys t kNoLink"
      using False xs_iff ys_iff a by (intro link_cong) (auto simp: unlink_next_def unlink_prev_def)
    then show ?thesis using link_new_start [OF l2 d(2) False, of a] False ys_iff by simp
  qed
  show "linked ?nx ?pv (if pv u = kNoLink then nx u else h) (xs @ ys) (if nx u = kNoLink then pv u else t)"
    using xs ys d a by (auto simp: linked_def link_append)
qed

text \<open>Words of other nodes do not matter.\<close>

lemma linked_cong:
  "(\<And>x. x \<in> set xs \<Longrightarrow> nx x = nx' x \<and> pv x = pv' x) \<Longrightarrow> linked nx pv h xs t = linked nx' pv' h xs t"
  unfolding linked_def by (subst link_cong [of xs nx nx' pv pv']) auto

lemma linked_ends:
  assumes "linked nx pv h xs t"
  shows "h = (if xs = [] then kNoLink else hd xs)" and "t = (if xs = [] then kNoLink else last xs)"
    and "kNoLink \<notin> set xs" and "h = kNoLink \<longleftrightarrow> xs = []"
proof -
  have l: "link nx pv kNoLink h xs t kNoLink" using assms by (simp add: linked_def)
  show h: "h = (if xs = [] then kNoLink else hd xs)" by (rule link_hd [OF l])
  show "t = (if xs = [] then kNoLink else last xs)" by (rule link_last [OF l])
  show n: "kNoLink \<notin> set xs" by (rule link_not_none [OF l])
  show "h = kNoLink \<longleftrightarrow> xs = []" using h n by (auto dest: hd_in_set)
qed

end
