(* ===== verification/Buddy_Heap.thy ===== *)
theory Buddy_Heap
  imports Linked_List Protocol
begin

unbundle bit_operations_syntax

text \<open>
  The buddy allocator of the device's value heap: \<^verbatim>\<open>buddy_allocate\<close>, \<^verbatim>\<open>buddy_free\<close> and what they are made
  of in \<^verbatim>\<open>dram_worker_kernel.cpp\<close>. Every unit of the heap has a page of metadata in DRAM, whose first four
  words are the record \<open>heap_block\<close> (the other four are zero); the free blocks of an order are a doubly linked
  list whose head is in L1. The metadata of a unit that is not the start of a block means nothing and is
  not even initialised.
\<close>

section \<open>State and operations\<close>

record heap_block =
  hb_state :: u32
  hb_order :: u32
  hb_next :: u32
  hb_prev :: u32

record buddy_heap =
  bh_blocks :: "heap_block list"
  bh_heads :: "u32 list"
  bh_max_order :: u32

definition kHeapFreeListNone :: u32 where
  "kHeapFreeListNone = 0xFFFFFFFF"

definition kHeapBlockFree :: u32 where
  "kHeapBlockFree = 0xFFFFFFFE"

definition kHeapBlockContinuation :: u32 where
  "kHeapBlockContinuation = 0xFFFFFFFD"

definition kHeapBlockPutLease :: u32 where
  "kHeapBlockPutLease = 0xFFFFFFFC"

definition kHeapAllocatorMaxOrders :: nat where
  "kHeapAllocatorMaxOrders = 32"

function floor_log2_loop :: "u32 \<Rightarrow> u32 \<Rightarrow> u32" where
  "floor_log2_loop value order =
     (if value > 1 then floor_log2_loop (drop_bit 1 value) (order + 1) else order)"
  by pat_completeness auto
termination
  by (relation "measure (\<lambda>(v, _). unat v)")
    (auto simp: drop_bit_eq_div word_less_nat_alt unat_div)

definition floor_log2_u32 :: "u32 \<Rightarrow> u32" where
  "floor_log2_u32 value = floor_log2_loop value 0"

text \<open>Above \<open>2\<^sup>3\<^sup>1\<close> units the doubling wraps to zero and the loop of the source does not return (\<open>None\<close>).\<close>

partial_function (option) buddy_order_loop :: "u32 \<Rightarrow> u32 \<Rightarrow> u32 \<Rightarrow> u32 option" where
  "buddy_order_loop units block_units order =
     (if block_units < units then buddy_order_loop units (push_bit 1 block_units) (order + 1) else Some order)"

definition buddy_order_for_units :: "u32 \<Rightarrow> u32 option" where
  "buddy_order_for_units units = buddy_order_loop units 1 0"

definition read_heap_block :: "u32 \<Rightarrow> ('z buddy_heap_scheme, heap_block) io" where
  "read_heap_block u = gets (\<lambda>s. bh_blocks s ! unat u)"

definition store_heap_block :: "u32 \<Rightarrow> heap_block \<Rightarrow> ('z buddy_heap_scheme, unit) io" where
  "store_heap_block u b = modify (\<lambda>s. s\<lparr>bh_blocks := (bh_blocks s)[unat u := b]\<rparr>)"

definition write_heap_block :: "u32 \<Rightarrow> u32 \<Rightarrow> u32 \<Rightarrow> u32 \<Rightarrow> u32 \<Rightarrow> ('z buddy_heap_scheme, unit) io" where
  "write_heap_block u state order next prev =
     store_heap_block u \<lparr>hb_state = state, hb_order = order, hb_next = next, hb_prev = prev\<rparr>"

definition set_free_head :: "u32 \<Rightarrow> u32 \<Rightarrow> ('z buddy_heap_scheme, unit) io" where
  "set_free_head order u = modify (\<lambda>s. s\<lparr>bh_heads := (bh_heads s)[unat order := u]\<rparr>)"

definition buddy_remove_free :: "u32 \<Rightarrow> u32 \<Rightarrow> ('z buddy_heap_scheme, unit) io" where
  "buddy_remove_free u order =
     bindE (read_heap_block u) (\<lambda>block.
     seqE (check (hb_state block = kHeapBlockFree) (Fatal ''block is not free''))
    (seqE (check (hb_order block = order) (Fatal ''block of another order''))
      (let next = hb_next block; prev = hb_prev block
       in seqE (if prev = kHeapFreeListNone then set_free_head order next
                else bindE (read_heap_block prev) (\<lambda>b. store_heap_block prev (b\<lparr>hb_next := next\<rparr>)))
         (seqE (whenE (next \<noteq> kHeapFreeListNone)
                 (bindE (read_heap_block next) (\<lambda>b. store_heap_block next (b\<lparr>hb_prev := prev\<rparr>))))
               (write_heap_block u kHeapBlockContinuation order kHeapFreeListNone kHeapFreeListNone)))))"

definition buddy_push_free :: "u32 \<Rightarrow> u32 \<Rightarrow> ('z buddy_heap_scheme, unit) io" where
  "buddy_push_free u order =
     bindE (gets (\<lambda>s. bh_heads s ! unat order)) (\<lambda>old_head.
     seqE (write_heap_block u kHeapBlockFree order old_head kHeapFreeListNone)
    (seqE (whenE (old_head \<noteq> kHeapFreeListNone)
            (bindE (read_heap_block old_head) (\<lambda>b. store_heap_block old_head (b\<lparr>hb_prev := u\<rparr>))))
          (set_free_head order u)))"

text \<open>The heads from the order that is needed on. Past \<open>max_order\<close> the search has failed.\<close>

fun first_free_order :: "u32 \<Rightarrow> u32 \<Rightarrow> u32 list \<Rightarrow> u32" where
  "first_free_order max_order order [] = order"
| "first_free_order max_order order (h # hs) =
     (if order \<le> max_order \<and> h = kHeapFreeListNone then first_free_order max_order (order + 1) hs else order)"

text \<open>Splitting from \<open>order\<close> down: the counter is the number of halvings left.\<close>

fun buddy_split :: "nat \<Rightarrow> u32 \<Rightarrow> u32 \<Rightarrow> ('z buddy_heap_scheme, unit) io" where
  "buddy_split 0 u order = ret ()"
| "buddy_split (Suc n) u order =
     (let order = order - 1
      in seqE (buddy_push_free (u + push_bit (unat order) 1) order) (buddy_split n u order))"

definition order_for_units_io :: "u32 \<Rightarrow> ('z buddy_heap_scheme, u32) io" where
  "order_for_units_io units =
     (case buddy_order_for_units units of None \<Rightarrow> throw (Fatal ''does not return'') | Some order \<Rightarrow> ret order)"

definition buddy_allocate :: "u32 \<Rightarrow> u32 \<Rightarrow> ('z buddy_heap_scheme, (u32 \<times> u32) option) io" where
  "buddy_allocate units owner_slot =
     bindE (order_for_units_io units) (\<lambda>need_order.
     bindE (gets bh_max_order) (\<lambda>max_order.
     bindE (gets (\<lambda>s. first_free_order max_order need_order (drop (unat need_order) (bh_heads s)))) (\<lambda>order.
     if order > max_order then ret None
     else bindE (gets (\<lambda>s. bh_heads s ! unat order)) (\<lambda>u.
          seqE (buddy_remove_free u order)
         (seqE (buddy_split (unat order - unat need_order) u order)
         (seqE (write_heap_block u owner_slot need_order kHeapFreeListNone kHeapFreeListNone)
               (ret (Some (u, need_order)))))))))"

text \<open>Merging from \<open>order\<close> up: the counter is the number of orders left below the largest one.\<close>

fun buddy_merge :: "nat \<Rightarrow> u32 \<Rightarrow> u32 \<Rightarrow> u32 \<Rightarrow> ('z buddy_heap_scheme, u32 \<times> u32) io" where
  "buddy_merge 0 u order num_units = ret (u, order)"
| "buddy_merge (Suc n) u order num_units =
     (let buddy = u XOR push_bit (unat order) 1
      in if buddy \<ge> num_units then ret (u, order)
         else bindE (read_heap_block buddy) (\<lambda>b.
              if hb_state b \<noteq> kHeapBlockFree \<or> hb_order b \<noteq> order then ret (u, order)
              else seqE (buddy_remove_free buddy order)
                     (buddy_merge n (if buddy < u then buddy else u) (order + 1) num_units)))"

definition buddy_free :: "u32 \<Rightarrow> u32 \<Rightarrow> u32 \<Rightarrow> ('z buddy_heap_scheme, unit) io" where
  "buddy_free u order num_units =
     bindE (gets bh_max_order) (\<lambda>max_order.
     bindE (buddy_merge (unat max_order - unat order) u order num_units) (\<lambda>(u, order).
     buddy_push_free u order))"

text \<open>The cold start: no free list, and then the aligned blocks of the heap from the left.\<close>

fun lower_to_alignment :: "nat \<Rightarrow> u32 \<Rightarrow> nat" where
  "lower_to_alignment 0 first_unit = 0"
| "lower_to_alignment (Suc order) first_unit =
     (if first_unit AND (push_bit (Suc order) 1 - 1) \<noteq> 0 then lower_to_alignment order first_unit else Suc order)"

declare floor_log2_loop.simps [simp del]

lemma pow2_pos: "(0::nat) < 2 ^ k"
  by simp

lemma unat_push_bit_1: "k < 32 \<Longrightarrow> unat (push_bit k 1 :: u32) = 2 ^ k"
  by (simp add: push_bit_eq_mult unat_pow2_u32)

lemma floor_log2_loop_bounds:
  assumes "0 < v" and "unat order + k < 2 ^ 32" and "unat v < 2 ^ k"
  shows "\<exists>j < k. unat (floor_log2_loop v order) = unat order + j \<and> 2 ^ j \<le> unat v \<and> unat v < 2 ^ Suc j"
  using assms
proof (induction v order arbitrary: k rule: floor_log2_loop.induct)
  case (1 v order)
  show ?case
  proof (cases "v > 1")
    case False
    then have "v = 1" using 1(2) by (simp add: word_less_nat_alt word_unat_eq_iff)
    moreover have "0 < k" using 1(4) \<open>v = 1\<close> by (cases k) simp_all
    ultimately show ?thesis by (subst floor_log2_loop.simps) auto
  next
    case True
    then have v: "1 < unat v" by (simp add: word_less_nat_alt)
    have half: "unat (drop_bit 1 v) = unat v div 2" by (simp add: drop_bit_eq_div unat_div)
    obtain k' where k: "k = Suc k'" using 1(4) v by (cases k) auto
    have up: "unat (order + 1) = Suc (unat order)" using 1(3) k by (simp add: unat_word_ariths)
    have "\<exists>j < k'. unat (floor_log2_loop (drop_bit 1 v) (order + 1)) = unat (order + 1) + j
        \<and> 2 ^ j \<le> unat (drop_bit 1 v) \<and> unat (drop_bit 1 v) < 2 ^ Suc j"
    proof (rule 1(1) [OF True])
      show "0 < drop_bit 1 v" using v half by (simp add: word_less_nat_alt)
      show "unat (order + 1) + k' < 2 ^ 32" using 1(3) k up by simp
      show "unat (drop_bit 1 v) < 2 ^ k'" using half 1(4) k by simp
    qed
    then obtain j where "j < k'" "unat (floor_log2_loop (drop_bit 1 v) (order + 1)) = unat order + Suc j"
      "2 ^ j \<le> unat v div 2" "unat v div 2 < 2 ^ Suc j" using up half by auto
    moreover from this(3,4) have "2 ^ Suc j \<le> unat v" "unat v < 2 ^ Suc (Suc j)" by simp_all
    moreover have "floor_log2_loop v order = floor_log2_loop (drop_bit 1 v) (order + 1)"
      using True by (subst floor_log2_loop.simps) simp
    ultimately show ?thesis using k by (intro exI [of _ "Suc j"]) auto
  qed
qed

lemma floor_log2_bounds:
  assumes "0 < v"
  shows "unat (floor_log2_u32 v) < 32" and "2 ^ unat (floor_log2_u32 v) \<le> unat v"
    and "unat v < 2 ^ Suc (unat (floor_log2_u32 v))"
  using floor_log2_loop_bounds [OF assms, of 0 32] unat_less_4G [of v] by (auto simp: floor_log2_u32_def)

lemma lower_to_alignment_le: "lower_to_alignment k x \<le> k"
  by (induction k) auto

function buddy_seed :: "u32 \<Rightarrow> u32 \<Rightarrow> ('z buddy_heap_scheme, unit) io" where
  "buddy_seed first_unit remaining_units =
     (if remaining_units = 0 then ret ()
      else let order = lower_to_alignment (unat (floor_log2_u32 remaining_units)) first_unit;
               block_units = push_bit order 1
           in seqE (buddy_push_free first_unit (of_nat order))
                   (buddy_seed (first_unit + block_units) (remaining_units - block_units)))"
  by pat_completeness auto
termination
proof (relation "measure (\<lambda>(_, r). unat r)")
  fix first_unit remaining_units order block_units :: u32 and k
  assume r: "remaining_units \<noteq> 0" and k: "k = lower_to_alignment (unat (floor_log2_u32 remaining_units)) first_unit"
    and b: "block_units = push_bit k 1"
  have pos: "0 < remaining_units" using r by (simp add: word_gt_0)
  have le: "k \<le> unat (floor_log2_u32 remaining_units)" unfolding k by (rule lower_to_alignment_le)
  then have "k < 32" using floor_log2_bounds(1) [OF pos] by linarith
  then have u: "unat block_units = 2 ^ k" unfolding b by (rule unat_push_bit_1)
  have "(2::nat) ^ k \<le> unat remaining_units"
    using floor_log2_bounds(2) [OF pos] le by (meson le_trans one_le_numeral power_increasing)
  then have "unat (remaining_units - block_units) < unat remaining_units"
    using u pow2_pos [of k] by (simp only: unat_sub word_le_nat_alt)
  then show "((first_unit + block_units, remaining_units - block_units), (first_unit, remaining_units))
      \<in> measure (\<lambda>(_, r). unat r)" by simp
qed simp

declare buddy_seed.simps [simp del]

definition buddy_cold_start :: "u32 \<Rightarrow> ('z buddy_heap_scheme, unit) io" where
  "buddy_cold_start num_units =
     seqE (modify (\<lambda>s. s\<lparr>bh_max_order := floor_log2_u32 num_units,
                          bh_heads := replicate kHeapAllocatorMaxOrders kHeapFreeListNone\<rparr>))
          (buddy_seed 0 num_units)"

section \<open>Aligned blocks\<close>

text \<open>A block is a unit and an order; the unit is a multiple of two to the order.\<close>

definition in_block :: "nat \<Rightarrow> nat \<Rightarrow> nat \<Rightarrow> bool" where
  "in_block u k y \<longleftrightarrow> u \<le> y \<and> y < u + 2 ^ k"

definition buddy_of :: "nat \<Rightarrow> nat \<Rightarrow> nat" where
  "buddy_of u k = (if even (u div 2 ^ k) then u + 2 ^ k else u - 2 ^ k)"

lemma div_eq_iff_interval: "0 < (n::nat) \<Longrightarrow> y div n = a \<longleftrightarrow> n * a \<le> y \<and> y < n * a + n"
  using div_nat_eqI [of n a y] times_div_less_eq_dividend [of n y] dividend_less_times_div [of n y]
  by (auto simp: ac_simps)

lemma in_block_div: "2 ^ k dvd u \<Longrightarrow> in_block u k y \<longleftrightarrow> y div 2 ^ k = u div 2 ^ k"
  by (auto simp: in_block_def div_eq_iff_interval elim!: dvdE)

lemma block_nested:
  assumes "2 ^ k dvd u" "2 ^ p dvd v" "k \<le> p" "in_block u k y" "in_block v p y" "in_block u k z"
  shows "in_block v p z"
proof -
  have pk: "x div 2 ^ p = x div 2 ^ k div 2 ^ (p - k)" for x :: nat
    using assms(3) by (simp add: div_mult2_eq [symmetric] power_add [symmetric])
  have "z div 2 ^ k = y div 2 ^ k" using assms(1,4,6) by (simp add: in_block_div)
  then have "z div 2 ^ p = y div 2 ^ p" by (simp add: pk)
  then show ?thesis using assms(2,5) by (simp add: in_block_div)
qed

lemma block_self [simp]: "in_block u k u"
  by (simp add: in_block_def)

lemma block_same: "2 ^ k dvd u \<Longrightarrow> 2 ^ k dvd v \<Longrightarrow> in_block u k v \<Longrightarrow> u = v"
  by (auto simp: in_block_div elim!: dvdE)

lemma block_halves: "in_block u (Suc k) y \<longleftrightarrow> in_block u k y \<or> in_block (u + 2 ^ k) k y"
  by (auto simp: in_block_def)

lemma block_halves_disjoint: "\<not> (in_block u k y \<and> in_block (u + 2 ^ k) k y)"
  by (auto simp: in_block_def)

lemma buddy_cases:
  assumes "2 ^ k dvd u"
  shows "2 ^ Suc k dvd u \<and> buddy_of u k = u + 2 ^ k
       \<or> 2 ^ Suc k dvd u - 2 ^ k \<and> 2 ^ k \<le> u \<and> buddy_of u k = u - 2 ^ k"
proof -
  obtain a where u: "u = 2 ^ k * a" using assms by (rule dvdE)
  show ?thesis
  proof (cases "even a")
    case True
    then show ?thesis by (auto simp: buddy_of_def u elim!: evenE)
  next
    case False
    then obtain b where "a = 2 * b + 1" by (rule oddE)
    then show ?thesis by (auto simp: buddy_of_def u)
  qed
qed

lemma buddy_aligned: "2 ^ k dvd u \<Longrightarrow> 2 ^ k dvd buddy_of u k"
  using buddy_cases [of k u] by (auto intro: dvd_diff_nat)

lemma buddy_other: "2 ^ k dvd u \<Longrightarrow> buddy_of u k \<noteq> u"
  using buddy_cases [of k u] pow2_pos [of k] by linarith

lemma buddy_buddy: "2 ^ k dvd u \<Longrightarrow> buddy_of (buddy_of u k) k = u"
proof -
  assume "2 ^ k dvd u"
  then obtain a where u: "u = 2 ^ k * a" by (rule dvdE)
  show ?thesis
  proof (cases "even a")
    case True
    have "(2 ^ k * a + 2 ^ k) div 2 ^ k = Suc a" using div_mult_self1 [of "2 ^ k" "2 ^ k" a] by (simp add: ac_simps)
    then show ?thesis using True by (simp add: buddy_of_def u)
  next
    case False
    then obtain b where "a = 2 * b + 1" by (rule oddE)
    then show ?thesis by (simp add: buddy_of_def u)
  qed
qed

lemma buddy_lower: "2 ^ k dvd u \<Longrightarrow> 2 ^ Suc k dvd min u (buddy_of u k)"
  using buddy_cases [of k u] by auto

lemma buddy_upper: "2 ^ k dvd u \<Longrightarrow> max u (buddy_of u k) = min u (buddy_of u k) + 2 ^ k"
  using buddy_cases [of k u] by auto

lemma unset_bit_nat_eq:
  assumes "bit (a :: nat) k"
  shows "unset_bit k a = a - 2 ^ k"
proof -
  have "set_bit k (unset_bit k a) = a"
    using assms by (intro bit_eqI) (auto simp: bit_set_bit_iff bit_unset_bit_iff)
  then show ?thesis using set_bit_eq [of k "unset_bit k a"] by (simp add: bit_unset_bit_iff)
qed

lemma unat_buddy:
  assumes "k < 32"
  shows "unat (u XOR push_bit k (1 :: u32)) = buddy_of (unat u) k"
proof -
  have "unat (u XOR push_bit k 1) = unat u XOR push_bit k 1"
    by (simp add: unsigned_xor_eq unat_push_bit_1 [OF assms] push_bit_eq_mult [of k "1::nat"]
        del: push_bit_of_1)
  also have "\<dots> = flip_bit k (unat u)" by (simp add: flip_bit_eq_xor)
  also have "\<dots> = buddy_of (unat u) k"
    by (auto simp: flip_bit_eq_if set_bit_eq unset_bit_nat_eq bit_iff_odd buddy_of_def)
  finally show ?thesis .
qed

section \<open>The free lists\<close>

text \<open>
  \<open>free_lists N s fl\<close>: the list of order \<open>k\<close> is \<open>fl k\<close>, doubly linked from its head, and every block on
  it says that it is free and of that order.
\<close>

abbreviation nxt :: "'z buddy_heap_scheme \<Rightarrow> u32 \<Rightarrow> u32" where
  "nxt s u \<equiv> hb_next (bh_blocks s ! unat u)"

abbreviation prv :: "'z buddy_heap_scheme \<Rightarrow> u32 \<Rightarrow> u32" where
  "prv s u \<equiv> hb_prev (bh_blocks s ! unat u)"

definition tag :: "'z buddy_heap_scheme \<Rightarrow> nat \<Rightarrow> u32 \<times> u32" where
  "tag s u = (hb_state (bh_blocks s ! u), hb_order (bh_blocks s ! u))"

definition free_lists :: "nat \<Rightarrow> 'z buddy_heap_scheme \<Rightarrow> (nat \<Rightarrow> u32 list) \<Rightarrow> bool" where
  "free_lists N s fl \<longleftrightarrow> length (bh_blocks s) = N \<and> length (bh_heads s) = 32 \<and> N < 2 ^ 31
     \<and> (\<forall>k < 32. (\<exists>t. linked (nxt s) (prv s) (bh_heads s ! k) (fl k) t)
          \<and> (\<forall>u \<in> set (fl k). unat u < N \<and> tag s (unat u) = (kHeapBlockFree, of_nat k)))"

text \<open>Everything but the blocks and the heads stays.\<close>

definition same_rest :: "'z buddy_heap_scheme \<Rightarrow> 'z buddy_heap_scheme \<Rightarrow> bool" where
  "same_rest s s' \<longleftrightarrow> s' = s\<lparr>bh_blocks := bh_blocks s', bh_heads := bh_heads s'\<rparr>"

lemma same_rest_refl [simp]: "same_rest s s"
  by (simp add: same_rest_def)

lemma same_rest_trans: "same_rest s t \<Longrightarrow> same_rest t r \<Longrightarrow> same_rest s r"
  by (auto simp: same_rest_def) (metis buddy_heap.update_convs(1,2) buddy_heap.surjective)

lemma same_rest_max [simp]: "same_rest s s' \<Longrightarrow> bh_max_order s' = bh_max_order s"
  by (auto simp: same_rest_def) (metis buddy_heap.select_convs(3) buddy_heap.surjective buddy_heap.update_convs(1,2))

lemma unat_of_order [simp]: "k < 32 \<Longrightarrow> unat (of_nat k :: u32) = k"
  by (simp add: unat_of_nat)

lemma of_nat_order_inj: "k < 32 \<Longrightarrow> l < 32 \<Longrightarrow> (of_nat k :: u32) = of_nat l \<Longrightarrow> k = l"
  by (metis unat_of_order)

lemma free_lists_linked:
  "free_lists N s fl \<Longrightarrow> k < 32 \<Longrightarrow> \<exists>t. linked (nxt s) (prv s) (bh_heads s ! k) (fl k) t"
  unfolding free_lists_def by blast

lemma free_lists_node:
  assumes "free_lists N s fl" and "k < 32" and "u \<in> set (fl k)"
  shows "unat u < N" and "tag s (unat u) = (kHeapBlockFree, of_nat k)"
  using assms unfolding free_lists_def by blast+

lemma free_lists_len:
  assumes "free_lists N s fl"
  shows "length (bh_blocks s) = N" "length (bh_heads s) = 32" "N < 2 ^ 31"
  using assms unfolding free_lists_def by blast+

lemma free_lists_apart:
  assumes "free_lists N s fl" "k < 32" "l < 32" "x \<in> set (fl k)" "x \<in> set (fl l)"
  shows "k = l"
  using free_lists_node(2) [OF assms(1,2,4)] free_lists_node(2) [OF assms(1,3,5)] of_nat_order_inj [OF assms(2,3)]
  by simp

lemma nth_update_unat:
  "unat (u :: u32) < length xs \<Longrightarrow> xs[unat u := b] ! unat x = (if x = u then b else xs ! unat x)"
  by (auto simp: nth_list_update word_unat_eq_iff)

lemma kNoLink_heap: "kHeapFreeListNone = kNoLink"
  by (simp add: kHeapFreeListNone_def kNoLink_def)

lemma buddy_push_free_ok:
  assumes fl: "free_lists N s fl" and k: "k < 32" and u: "unat u < N" "\<And>l. l < 32 \<Longrightarrow> u \<notin> set (fl l)"
  shows "wp (buddy_push_free u (of_nat k))
     (\<lambda>_ s'. free_lists N s' (fl(k := u # fl k)) \<and> tag s' = (tag s)(unat u := (kHeapBlockFree, of_nat k))
            \<and> same_rest s s') (\<lambda>_ _. False) s"
proof -
  let ?h = "bh_heads s ! k"
  let ?b = "\<lparr>hb_state = kHeapBlockFree, hb_order = of_nat k, hb_next = ?h, hb_prev = kNoLink\<rparr>"
  let ?B = "(bh_blocks s)[unat u := ?b]"
  let ?B' = "if ?h = kNoLink then ?B else ?B[unat ?h := (?B ! unat ?h)\<lparr>hb_prev := u\<rparr>]"
  let ?s = "s\<lparr>bh_blocks := ?B', bh_heads := (bh_heads s)[k := u]\<rparr>"
  obtain t where lk: "linked (nxt s) (prv s) ?h (fl k) t" using free_lists_linked [OF fl k] by blast
  note len = free_lists_len(1,2) [OF fl] and N = free_lists_len(3) [OF fl]
  have h: "?h \<in> set (fl k)" if "?h \<noteq> kNoLink" using linked_ends [OF lk] that by (auto split: if_splits)
  then have hN: "unat ?h < N" and hu: "?h \<noteq> u" if "?h \<noteq> kNoLink"
    using that free_lists_node(1) [OF fl k] u(2) [OF k] by auto
  have run: "wp (buddy_push_free u (of_nat k)) (\<lambda>_ s'. s' = ?s) (\<lambda>_ _. False) s"
    using k by (simp add: buddy_push_free_def write_heap_block_def store_heap_block_def read_heap_block_def
        set_free_head_def wp_rules kNoLink_heap)
  have nx: "nxt ?s x = push_next u ?h (nxt s) x" and pv: "prv ?s x = push_prev u ?h (prv s) x" for x
    using u(1) hN hu by (cases "?h = kNoLink"; simp add: push_next_def push_prev_def nth_update_unat len)+
  have tags: "tag ?s = (tag s)(unat u := (kHeapBlockFree, of_nat k))"
    using u(1) hN hu by (cases "?h = kNoLink"; simp add: fun_eq_iff tag_def nth_list_update len)
  have lists: "\<exists>t. linked (nxt ?s) (prv ?s) (bh_heads ?s ! l) ((fl(k := u # fl k)) l) t" if l: "l < 32" for l
  proof (cases "l = k")
    case True
    have "unat u < 2 ^ 31" using u(1) N by simp
    then have "u \<noteq> kNoLink" by (auto simp: kNoLink_def)
    from linked_push [OF lk u(2) [OF k] this]
    have "\<exists>t. linked (push_next u ?h (nxt s)) (push_prev u ?h (prv s)) u (u # fl k) t" by blast
    moreover have "linked (nxt ?s) (prv ?s) u (u # fl k) t
        = linked (push_next u ?h (nxt s)) (push_prev u ?h (prv s)) u (u # fl k) t" for t
      by (rule linked_cong) (simp only: nx pv)
    ultimately show ?thesis using True k by (simp add: len)
  next
    case False
    obtain t' where "linked (nxt s) (prv s) (bh_heads s ! l) (fl l) t'" using free_lists_linked [OF fl l] by blast
    moreover have "linked (nxt ?s) (prv ?s) (bh_heads s ! l) (fl l) t'
        = linked (nxt s) (prv s) (bh_heads s ! l) (fl l) t'"
    proof (rule linked_cong)
      fix x assume x: "x \<in> set (fl l)"
      then have "x \<noteq> u" using u(2) [OF l] by blast
      moreover have "x \<noteq> ?h" if "?h \<noteq> kNoLink"
        using free_lists_apart [OF fl l k x] h [OF that] False by blast
      ultimately show "nxt ?s x = nxt s x \<and> prv ?s x = prv s x"
        by (simp only: nx pv) (auto simp: push_next_def push_prev_def)
    qed
    ultimately show ?thesis using False by auto
  qed
  have "free_lists N ?s (fl(k := u # fl k))"
    unfolding free_lists_def
  proof (intro conjI allI impI ballI)
    fix l x assume l: "l < 32" and x: "x \<in> set ((fl(k := u # fl k)) l)"
    show "unat x < N" using x u free_lists_node(1) [OF fl l] by (cases "l = k") auto
    show "tag ?s (unat x) = (kHeapBlockFree, of_nat l)"
    proof (cases "x = u")
      case True
      then have "l = k" using x u(2) [OF l] by (cases "l = k") auto
      then show ?thesis unfolding tags using True by simp
    next
      case False
      then have "x \<in> set (fl l)" using x by (cases "l = k") auto
      then show ?thesis unfolding tags using False free_lists_node(2) [OF fl l] by (simp add: word_unat_eq_iff)
    qed
  next
    show "N < 2 ^ 31" by (rule N)
  qed (use lists in \<open>simp_all add: len\<close>)
  then show ?thesis using run tags by (elim wp_mono) (auto simp: same_rest_def)
qed

lemma buddy_remove_free_ok:
  assumes fl: "free_lists N s fl" and k: "k < 32" and u: "u \<in> set (fl k)"
  shows "wp (buddy_remove_free u (of_nat k))
     (\<lambda>_ s'. free_lists N s' (fl(k := remove1 u (fl k)))
            \<and> tag s' = (tag s)(unat u := (kHeapBlockContinuation, of_nat k)) \<and> same_rest s s') (\<lambda>_ _. False) s"
proof -
  let ?p = "prv s u" and ?n = "nxt s u"
  let ?B1 = "if ?p = kNoLink then bh_blocks s else (bh_blocks s)[unat ?p := (bh_blocks s ! unat ?p)\<lparr>hb_next := ?n\<rparr>]"
  let ?B2 = "if ?n = kNoLink then ?B1 else ?B1[unat ?n := (?B1 ! unat ?n)\<lparr>hb_prev := ?p\<rparr>]"
  let ?B3 = "?B2[unat u := \<lparr>hb_state = kHeapBlockContinuation, hb_order = of_nat k, hb_next = kNoLink, hb_prev = kNoLink\<rparr>]"
  let ?s = "s\<lparr>bh_blocks := ?B3, bh_heads := if ?p = kNoLink then (bh_heads s)[k := ?n] else bh_heads s\<rparr>"
  obtain xs ys where xs: "fl k = xs @ u # ys" using u by (meson split_list)
  obtain t where lk: "linked (nxt s) (prv s) (bh_heads s ! k) (xs @ u # ys) t"
    using free_lists_linked [OF fl k] xs by auto
  note rem = linked_remove [OF lk]
  note len = free_lists_len(1,2) [OF fl] and N = free_lists_len(3) [OF fl]
  have d: "distinct (xs @ u # ys)" using lk by (simp add: linked_def)
  have uN: "unat u < N" and ut: "tag s (unat u) = (kHeapBlockFree, of_nat k)"
    using free_lists_node [OF fl k u] by blast+
  have pin: "?p \<in> set (fl k) - {u}" if "?p \<noteq> kNoLink" using rem(2) that d xs by (auto split: if_splits)
  have nin: "?n \<in> set (fl k) - {u}" if "?n \<noteq> kNoLink" using rem(3) that d xs by (auto split: if_splits)
  have pN: "unat ?p < N" and pu: "?p \<noteq> u" if "?p \<noteq> kNoLink" using pin [OF that] free_lists_node(1) [OF fl k] by auto
  have nN: "unat ?n < N" and nu: "?n \<noteq> u" if "?n \<noteq> kNoLink" using nin [OF that] free_lists_node(1) [OF fl k] by auto
  have run: "wp (buddy_remove_free u (of_nat k)) (\<lambda>_ s'. s' = ?s) (\<lambda>_ _. False) s"
    using k ut by (simp add: buddy_remove_free_def write_heap_block_def store_heap_block_def read_heap_block_def
        set_free_head_def wp_rules kNoLink_heap tag_def Let_def)
  have nx: "nxt ?s x = unlink_next u (nxt s) (prv s) x" and pv: "prv ?s x = unlink_prev u (nxt s) (prv s) x"
    if "x \<noteq> u" for x
    using that uN pN pu nN nu
    by (cases "?p = kNoLink"; cases "?n = kNoLink"; simp add: unlink_next_def unlink_prev_def nth_update_unat len)+
  have tags: "tag ?s = (tag s)(unat u := (kHeapBlockContinuation, of_nat k))"
    using uN pN pu nN nu
    by (cases "?p = kNoLink"; cases "?n = kNoLink"; simp add: fun_eq_iff tag_def nth_list_update len)
  have r1: "remove1 u (fl k) = xs @ ys" using xs d by (simp add: remove1_append)
  have lists: "\<exists>t. linked (nxt ?s) (prv ?s) (bh_heads ?s ! l) ((fl(k := remove1 u (fl k))) l) t" if l: "l < 32" for l
  proof (cases "l = k")
    case True
    have "linked (nxt ?s) (prv ?s) h (xs @ ys) t
        = linked (unlink_next u (nxt s) (prv s)) (unlink_prev u (nxt s) (prv s)) h (xs @ ys) t" for h t
    proof (rule linked_cong)
      fix x assume "x \<in> set (xs @ ys)"
      then have "x \<noteq> u" using d by auto
      then show "nxt ?s x = unlink_next u (nxt s) (prv s) x \<and> prv ?s x = unlink_prev u (nxt s) (prv s) x"
        by (simp only: nx pv simp_thms)
    qed
    moreover have "bh_heads ?s ! k = (if ?p = kNoLink then ?n else bh_heads s ! k)" using k by (simp add: len)
    ultimately have "linked (nxt ?s) (prv ?s) (bh_heads ?s ! k) (xs @ ys) (if ?n = kNoLink then ?p else t)"
      using rem(1) by (simp only:)
    then show ?thesis unfolding True fun_upd_same r1 by (rule exI)
  next
    case False
    obtain t' where "linked (nxt s) (prv s) (bh_heads s ! l) (fl l) t'" using free_lists_linked [OF fl l] by blast
    moreover have "linked (nxt ?s) (prv ?s) (bh_heads s ! l) (fl l) t'
        = linked (nxt s) (prv s) (bh_heads s ! l) (fl l) t'"
    proof (rule linked_cong)
      fix x assume x: "x \<in> set (fl l)"
      have out: "x \<notin> set (fl k)" using free_lists_apart [OF fl l k x] False by blast
      then have xu: "x \<noteq> u" using u by blast
      have "x \<noteq> ?p" if "?p \<noteq> kNoLink" using pin [OF that] out by blast
      moreover have "x \<noteq> ?n" if "?n \<noteq> kNoLink" using nin [OF that] out by blast
      ultimately show "nxt ?s x = nxt s x \<and> prv ?s x = prv s x"
        unfolding nx [OF xu] pv [OF xu] by (simp add: unlink_next_def unlink_prev_def)
    qed
    ultimately show ?thesis using False by auto
  qed
  have "free_lists N ?s (fl(k := remove1 u (fl k)))"
    unfolding free_lists_def
  proof (intro conjI allI impI ballI)
    fix l x assume l: "l < 32" and x: "x \<in> set ((fl(k := remove1 u (fl k))) l)"
    then have xl: "x \<in> set (fl l)" by (cases "l = k") (auto dest: set_remove1_subset [THEN subsetD])
    then show "unat x < N" by (rule free_lists_node(1) [OF fl l])
    have "x \<noteq> u" using x d r1 free_lists_apart [OF fl l k] xl u by (cases "l = k") auto
    then show "tag ?s (unat x) = (kHeapBlockFree, of_nat l)"
      unfolding tags using free_lists_node(2) [OF fl l xl] by (simp add: word_unat_eq_iff)
  next
    show "N < 2 ^ 31" by (rule N)
  qed (use lists in \<open>simp_all add: len\<close>)
  then show ?thesis using run tags by (elim wp_mono) (auto simp: same_rest_def)
qed

lemma free_lists_other:
  assumes fl: "free_lists N s fl" and out: "\<And>l. l < 32 \<Longrightarrow> u \<notin> set (fl l)" and u: "unat u < N"
  shows "free_lists N (s\<lparr>bh_blocks := (bh_blocks s)[unat u := b]\<rparr>) fl"
  unfolding free_lists_def
proof (intro conjI allI impI ballI)
  let ?s = "s\<lparr>bh_blocks := (bh_blocks s)[unat u := b]\<rparr>"
  note len = free_lists_len [OF fl]
  fix l :: nat assume l: "l < 32"
  obtain t where t: "linked (nxt s) (prv s) (bh_heads s ! l) (fl l) t" using free_lists_linked [OF fl l] by blast
  have "linked (nxt ?s) (prv ?s) (bh_heads s ! l) (fl l) t = linked (nxt s) (prv s) (bh_heads s ! l) (fl l) t"
    by (rule linked_cong) (use out [OF l] u len in \<open>auto simp: nth_update_unat\<close>)
  then show "\<exists>t. linked (nxt ?s) (prv ?s) (bh_heads ?s ! l) (fl l) t" using t by auto
  fix x assume x: "x \<in> set (fl l)"
  then have "x \<noteq> u" using out [OF l] by blast
  then show "tag ?s (unat x) = (kHeapBlockFree, of_nat l)"
    using free_lists_node(2) [OF fl l x] u len by (simp add: tag_def nth_update_unat)
  show "unat x < N" by (rule free_lists_node(1) [OF fl l x])
qed (use free_lists_len [OF fl] in simp_all)

section \<open>The blocks tile the heap\<close>

text \<open>
  The allocated blocks are a map from the unit where a block starts to its order and its owner, the word in
  its metadata. \<open>heap_inv N s fl al X\<close>: the free blocks, the allocated ones and those of \<open>X\<close>, which an operation
  holds at the moment, tile the heap, no two free blocks are buddies, and every allocated block says so.
\<close>

type_synonym block_map = "nat \<Rightarrow> (nat \<times> u32) option"

definition free_set :: "(nat \<Rightarrow> u32 list) \<Rightarrow> (nat \<times> nat) set" where
  "free_set fl = {(unat u, k) | u k. k < 32 \<and> u \<in> set (fl k)}"

definition alloc_set :: "block_map \<Rightarrow> (nat \<times> nat) set" where
  "alloc_set al = {(u, k). \<exists>w. al u = Some (k, w)}"

definition tiles :: "nat \<Rightarrow> (nat \<times> nat) set \<Rightarrow> bool" where
  "tiles N B \<longleftrightarrow> (\<forall>u k. (u, k) \<in> B \<longrightarrow> 2 ^ k dvd u \<and> u + 2 ^ k \<le> N)
     \<and> (\<forall>y < N. \<exists>u k. (u, k) \<in> B \<and> in_block u k y)
     \<and> (\<forall>u k v p y. (u, k) \<in> B \<longrightarrow> (v, p) \<in> B \<longrightarrow> in_block u k y \<longrightarrow> in_block v p y \<longrightarrow> u = v \<and> k = p)"

definition coalesced :: "nat \<Rightarrow> (nat \<times> nat) set \<Rightarrow> bool" where
  "coalesced m F \<longleftrightarrow> (\<forall>u k. (u, k) \<in> F \<longrightarrow> k < m \<longrightarrow> (buddy_of u k, k) \<notin> F)"

definition heap_inv :: "nat \<Rightarrow> 'z buddy_heap_scheme \<Rightarrow> (nat \<Rightarrow> u32 list) \<Rightarrow> block_map \<Rightarrow> (nat \<times> nat) set \<Rightarrow> bool" where
  "heap_inv N s fl al X \<longleftrightarrow> free_lists N s fl
     \<and> 2 ^ unat (bh_max_order s) \<le> N \<and> N < 2 ^ Suc (unat (bh_max_order s))
     \<and> tiles N (free_set fl \<union> alloc_set al \<union> X) \<and> X \<inter> (free_set fl \<union> alloc_set al) = {}
     \<and> coalesced (unat (bh_max_order s)) (free_set fl)
     \<and> (\<forall>u k w. al u = Some (k, w) \<longrightarrow> w \<noteq> kHeapBlockFree \<and> tag s u = (w, of_nat k))"

definition buddy_ok :: "nat \<Rightarrow> 'z buddy_heap_scheme \<Rightarrow> block_map \<Rightarrow> bool" where
  "buddy_ok N s al \<longleftrightarrow> (\<exists>fl. heap_inv N s fl al {})"

lemma tilesD:
  assumes "tiles N B"
  shows "(u, k) \<in> B \<Longrightarrow> 2 ^ k dvd u" and "(u, k) \<in> B \<Longrightarrow> u + 2 ^ k \<le> N"
    and "y < N \<Longrightarrow> \<exists>u k. (u, k) \<in> B \<and> in_block u k y"
    and "(u, k) \<in> B \<Longrightarrow> (v, p) \<in> B \<Longrightarrow> in_block u k y \<Longrightarrow> in_block v p y \<Longrightarrow> u = v \<and> k = p"
  using assms unfolding tiles_def by simp_all

lemma tiles_start: "tiles N B \<Longrightarrow> (u, k) \<in> B \<Longrightarrow> (u, p) \<in> B \<Longrightarrow> k = p"
  using tilesD(4) [of N B u k u p u] by simp

lemma block_start_less: "u + 2 ^ k \<le> N \<Longrightarrow> u < (N :: nat)"
  by (rule less_le_trans [of _ "u + 2 ^ k"]) simp_all

lemma tilesI:
  assumes "\<And>u k. (u, k) \<in> B \<Longrightarrow> 2 ^ k dvd u \<and> u + 2 ^ k \<le> N"
    and "\<And>y. y < N \<Longrightarrow> \<exists>u k. (u, k) \<in> B \<and> in_block u k y"
    and "\<And>u k v p y. (u, k) \<in> B \<Longrightarrow> (v, p) \<in> B \<Longrightarrow> in_block u k y \<Longrightarrow> in_block v p y \<Longrightarrow> u = v \<and> k = p"
  shows "tiles N B"
  using assms unfolding tiles_def by (intro conjI allI impI) blast+

text \<open>Halving a block, and joining two buddies.\<close>

lemma tiles_halve:
  assumes "tiles N (insert (u, Suc k) B)" and "(u, Suc k) \<notin> B"
  shows "tiles N (insert (u, k) (insert (u + 2 ^ k, k) B))"
proof (rule tilesI)
  note t = tilesD [OF assms(1)]
  have big: "2 ^ Suc k dvd u" "u + 2 ^ Suc k \<le> N" using t(1,2) by blast+
  fix v p assume "(v, p) \<in> insert (u, k) (insert (u + 2 ^ k, k) B)"
  then show "2 ^ p dvd v \<and> v + 2 ^ p \<le> N" using big t(1,2) by (auto intro: dvd_mult_right)
next
  fix y assume "y < N"
  then obtain v p where "(v, p) \<in> insert (u, Suc k) B" "in_block v p y" using tilesD(3) [OF assms(1)] by blast
  then show "\<exists>v p. (v, p) \<in> insert (u, k) (insert (u + 2 ^ k, k) B) \<and> in_block v p y"
    using block_halves [of u k y] by blast
next
  fix v p w q y
  assume v: "(v, p) \<in> insert (u, k) (insert (u + 2 ^ k, k) B)" and w: "(w, q) \<in> insert (u, k) (insert (u + 2 ^ k, k) B)"
    and y: "in_block v p y" "in_block w q y"
  have out: "\<not> in_block u (Suc k) y" if "(x, r) \<in> B" "in_block x r y" for x r
    using tilesD(4) [OF assms(1), of x r u "Suc k" y] that assms(2) by auto
  have "v = w \<and> p = q" if "(v, p) \<in> B" "(w, q) \<in> B" using tilesD(4) [OF assms(1)] that y by blast
  then show "v = w \<and> p = q"
    using v w y out block_halves_disjoint [of u k y] by (auto simp: block_halves)
qed

lemma tiles_join:
  assumes "tiles N (insert (u, k) (insert (buddy_of u k, k) B))" and "(u, k) \<notin> B" "(buddy_of u k, k) \<notin> B"
  shows "tiles N (insert (min u (buddy_of u k), Suc k) B)"
proof (rule tilesI)
  let ?a = "min u (buddy_of u k)" and ?C = "insert (u, k) (insert (buddy_of u k, k) B)"
  note t = tilesD [OF assms(1)]
  have u: "2 ^ k dvd u" "u + 2 ^ k \<le> N" "buddy_of u k + 2 ^ k \<le> N" using t(1,2) by blast+
  have up: "max u (buddy_of u k) = ?a + 2 ^ k" and low: "2 ^ Suc k dvd ?a"
    using buddy_upper buddy_lower u(1) by blast+
  have join: "in_block ?a (Suc k) y \<longleftrightarrow> in_block u k y \<or> in_block (buddy_of u k) k y" for y
    unfolding block_halves up [symmetric] by (auto simp: min_def max_def)
  have out: "\<not> in_block ?a (Suc k) y" if b: "(x, r) \<in> B" "in_block x r y" for x r y
  proof
    assume "in_block ?a (Suc k) y"
    then consider "in_block u k y" | "in_block (buddy_of u k) k y" using join by blast
    then show False
    proof cases
      case 1
      then show False using t(4) [of x r u k y] b assms(2) by blast
    next
      case 2
      then show False using t(4) [of x r "buddy_of u k" k y] b assms(3) by blast
    qed
  qed
  { fix v p assume "(v, p) \<in> insert (?a, Suc k) B"
    moreover have "?a + 2 ^ Suc k \<le> N" using up u by (simp add: max_def split: if_splits)
    ultimately show "2 ^ p dvd v \<and> v + 2 ^ p \<le> N" using low t(1,2) by blast }
  { fix y assume "y < N"
    then obtain v p where "(v, p) \<in> ?C" "in_block v p y" using t(3) by blast
    then show "\<exists>v p. (v, p) \<in> insert (?a, Suc k) B \<and> in_block v p y" using join by blast }
  fix v p w q y
  assume "(v, p) \<in> insert (?a, Suc k) B" "(w, q) \<in> insert (?a, Suc k) B" "in_block v p y" "in_block w q y"
  then show "v = w \<and> p = q" using out t(4) by blast
qed

section \<open>What an operation holds\<close>

lemma free_set_push: "k < 32 \<Longrightarrow> free_set (fl(k := u # fl k)) = insert (unat u, k) (free_set fl)"
  by (auto simp: free_set_def split: if_splits)

lemma free_set_remove:
  assumes "k < 32" and "distinct (fl k)"
  shows "free_set (fl(k := remove1 u (fl k))) = free_set fl - {(unat u, k)}"
  using assms by (auto simp: free_set_def word_unat_eq_iff split: if_splits)

lemma free_setD: "(u, k) \<in> free_set fl \<Longrightarrow> k < 32 \<and> (\<exists>x. u = unat x \<and> x \<in> set (fl k))"
  by (auto simp: free_set_def)

lemma free_setI: "k < 32 \<Longrightarrow> x \<in> set (fl k) \<Longrightarrow> (unat x, k) \<in> free_set fl"
  by (auto simp: free_set_def)

lemma alloc_set_iff: "(u, k) \<in> alloc_set al \<longleftrightarrow> (\<exists>w. al u = Some (k, w))"
  by (simp add: alloc_set_def)

lemma heap_invD:
  assumes "heap_inv N s fl al X"
  shows "free_lists N s fl" and "tiles N (free_set fl \<union> alloc_set al \<union> X)"
    and "X \<inter> (free_set fl \<union> alloc_set al) = {}" and "coalesced (unat (bh_max_order s)) (free_set fl)"
    and "al u = Some (k, w) \<Longrightarrow> w \<noteq> kHeapBlockFree \<and> tag s u = (w, of_nat k)"
    and "2 ^ unat (bh_max_order s) \<le> N" and "N < 2 ^ Suc (unat (bh_max_order s))"
  using assms unfolding heap_inv_def by blast+

lemma heap_inv_max: "heap_inv N s fl al X \<Longrightarrow> unat (bh_max_order s) < 31"
proof -
  assume "heap_inv N s fl al X"
  then have "2 ^ unat (bh_max_order s) < (2::nat) ^ 31"
    using heap_invD(6) free_lists_len(3) [OF heap_invD(1)] by (meson le_less_trans)
  then show ?thesis by (rule power_less_imp_less_exp [rotated]) simp
qed

text \<open>The start of a block that is free or held is not the start of an allocated one.\<close>

lemma heap_inv_start:
  assumes "heap_inv N s fl al X" and "(u, k) \<in> free_set fl \<union> X"
  shows "al u = None"
proof (rule ccontr)
  assume "al u \<noteq> None"
  then obtain p w where al: "al u = Some (p, w)" by auto
  then have pa: "(u, p) \<in> alloc_set al" by (auto simp: alloc_set_iff)
  then have "k = p" using tiles_start [OF heap_invD(2) [OF assms(1)], of u k p] assms(2) by blast
  then have "(u, k) \<in> free_set fl" using assms pa heap_invD(3) [OF assms(1)] by blast
  then obtain x where x: "u = unat x" "k < 32" "x \<in> set (fl k)" by (auto dest: free_setD)
  have "tag s u = (kHeapBlockFree, of_nat k)"
    using free_lists_node(2) [OF heap_invD(1) [OF assms(1)]] x by blast
  then show False using heap_invD(5) [OF assms(1) al] by simp
qed

lemma order_bound:
  assumes "heap_inv N s fl al X" and "(u, k) \<in> free_set fl \<union> alloc_set al \<union> X"
  shows "k < 31"
proof -
  have "2 ^ k < (2::nat) ^ 31"
    using tilesD(2) [OF heap_invD(2) [OF assms(1)] assms(2)] free_lists_len(3) [OF heap_invD(1) [OF assms(1)]]
    by linarith
  then show ?thesis by (rule power_less_imp_less_exp [rotated]) simp
qed

text \<open>Taking a free block into one's hands, and giving back a block that has no free buddy.\<close>

lemma take_free_block:
  assumes inv: "heap_inv N s fl al X" and k: "k < 32" and u: "u \<in> set (fl k)"
  shows "wp (buddy_remove_free u (of_nat k))
     (\<lambda>_ s'. heap_inv N s' (fl(k := remove1 u (fl k))) al (insert (unat u, k) X) \<and> same_rest s s') (\<lambda>_ _. False) s"
proof -
  let ?fl = "fl(k := remove1 u (fl k))"
  note d = heap_invD [OF inv]
  obtain t where "linked (nxt s) (prv s) (bh_heads s ! k) (fl k) t" using free_lists_linked [OF d(1) k] by blast
  then have fs: "free_set ?fl = free_set fl - {(unat u, k)}"
    by (intro free_set_remove k) (simp add: linked_def)
  have uf: "(unat u, k) \<in> free_set fl" using k u by (auto simp: free_set_def)
  then have none: "al (unat u) = None" using heap_inv_start [OF inv] by blast
  have eq: "free_set ?fl \<union> alloc_set al \<union> insert (unat u, k) X = free_set fl \<union> alloc_set al \<union> X"
    using fs uf by blast
  have apart: "insert (unat u, k) X \<inter> (free_set ?fl \<union> alloc_set al) = {}"
    using d(3) fs none by (auto simp: alloc_set_iff)
  have co: "coalesced (unat (bh_max_order s)) (free_set ?fl)" using d(4) fs unfolding coalesced_def by blast
  have "heap_inv N s' ?fl al (insert (unat u, k) X)"
    if "free_lists N s' ?fl" "tag s' = (tag s)(unat u := (kHeapBlockContinuation, of_nat k))" "same_rest s s'" for s'
    using that d apart co none unfolding heap_inv_def eq by auto
  then show ?thesis by (intro wp_mono [OF buddy_remove_free_ok [OF d(1) k u]]) auto
qed

lemma give_free_block:
  assumes inv: "heap_inv N s fl al (insert (unat u, k) X)" and new: "(unat u, k) \<notin> X"
    and nobuddy: "k < unat (bh_max_order s) \<Longrightarrow> (buddy_of (unat u) k, k) \<notin> free_set fl"
  shows "wp (buddy_push_free u (of_nat k))
     (\<lambda>_ s'. heap_inv N s' (fl(k := u # fl k)) al X \<and> same_rest s s') (\<lambda>_ _. False) s"
proof -
  let ?fl = "fl(k := u # fl k)"
  note d = heap_invD [OF inv]
  have k: "k < 32" using order_bound [OF inv, of "unat u" k] by simp
  have uN: "unat u < N" using tilesD(2) [OF d(2), of "unat u" k] by (simp add: block_start_less)
  have al: "2 ^ k dvd unat u" using tilesD(1) [OF d(2), of "unat u" k] by simp
  have none: "al (unat u) = None" using heap_inv_start [OF inv] by blast
  have out: "u \<notin> set (fl l)" if l: "l < 32" for l
  proof
    assume "u \<in> set (fl l)"
    then have f: "(unat u, l) \<in> free_set fl" using l by (auto simp: free_set_def)
    then have "k = l" using tiles_start [OF d(2)] by blast
    then show False using d(3) f by blast
  qed
  have fs: "free_set ?fl = insert (unat u, k) (free_set fl)" by (rule free_set_push [OF k])
  have eq: "free_set ?fl \<union> alloc_set al \<union> X = free_set fl \<union> alloc_set al \<union> insert (unat u, k) X" using fs by blast
  have apart: "X \<inter> (free_set ?fl \<union> alloc_set al) = {}" unfolding fs using d(3) new by blast
  have co: "coalesced (unat (bh_max_order s)) (free_set ?fl)"
    unfolding coalesced_def
  proof (intro allI impI)
    fix v p assume v: "(v, p) \<in> free_set ?fl" and p: "p < unat (bh_max_order s)"
    consider "v = unat u" "p = k" | "(v, p) \<in> free_set fl" using v fs by blast
    then show "(buddy_of v p, p) \<notin> free_set ?fl"
    proof cases
      case 1
      then show ?thesis using nobuddy p buddy_other [OF al] fs by auto
    next
      case 2
      have va: "2 ^ p dvd v" using tilesD(1) [OF d(2)] 2 by blast
      have "buddy_of (unat u) k = v" if "buddy_of v p = unat u" "p = k" using buddy_buddy [OF va] that by simp
      moreover have "(buddy_of v p, p) \<notin> free_set fl" using d(4) 2 p unfolding coalesced_def by blast
      ultimately show ?thesis using nobuddy p 2 fs by auto
    qed
  qed
  have "heap_inv N s' ?fl al X"
    if "free_lists N s' ?fl" "tag s' = (tag s)(unat u := (kHeapBlockFree, of_nat k))" "same_rest s s'" for s'
    using that d apart co none unfolding heap_inv_def eq by auto
  then show ?thesis by (intro wp_mono [OF buddy_push_free_ok [OF d(1) k uN out]]) auto
qed

text \<open>Splitting, joining, giving a block an owner and taking it back, without touching the lists.\<close>

lemma heap_inv_halve:
  assumes inv: "heap_inv N s fl al {(u, Suc k)}"
  shows "heap_inv N s fl al {(u + 2 ^ k, k), (u, k)}"
proof -
  note d = heap_invD [OF inv]
  let ?B = "free_set fl \<union> alloc_set al"
  have t: "tiles N (insert (u, Suc k) ?B)" using d(2) by simp
  have out: "(u, Suc k) \<notin> ?B" using d(3) by blast
  have t': "tiles N (insert (u, k) (insert (u + 2 ^ k, k) ?B))" by (rule tiles_halve [OF t out])
  have no: "(v, k) \<notin> ?B" if "in_block u (Suc k) v" for v
    using tilesD(4) [OF t, of v k u "Suc k" v] that by auto
  have "in_block u (Suc k) u" "in_block u (Suc k) (u + 2 ^ k)" by (auto simp: in_block_def)
  then have apart: "{(u + 2 ^ k, k), (u, k)} \<inter> ?B = {}" using no by blast
  have "?B \<union> {(u + 2 ^ k, k), (u, k)} = insert (u, k) (insert (u + 2 ^ k, k) ?B)" by blast
  then show ?thesis using d t' apart unfolding heap_inv_def by simp
qed

lemma heap_inv_join:
  assumes inv: "heap_inv N s fl al {(buddy_of u k, k), (u, k)}"
  shows "heap_inv N s fl al {(min u (buddy_of u k), Suc k)}"
proof -
  note d = heap_invD [OF inv]
  let ?B = "free_set fl \<union> alloc_set al" and ?a = "min u (buddy_of u k)"
  have eq: "?B \<union> {(buddy_of u k, k), (u, k)} = insert (u, k) (insert (buddy_of u k, k) ?B)" by blast
  have t: "tiles N (insert (u, k) (insert (buddy_of u k, k) ?B))" using d(2) unfolding eq .
  have out: "(u, k) \<notin> ?B" "(buddy_of u k, k) \<notin> ?B" using d(3) by blast+
  have t': "tiles N (insert (?a, Suc k) ?B)" by (rule tiles_join [OF t out])
  have "(?a, k) \<in> insert (u, k) (insert (buddy_of u k, k) ?B)" by (simp add: min_def)
  then have "(?a, Suc k) \<notin> ?B" using tiles_start [OF t, of ?a k "Suc k"] by auto
  then have apart: "{(?a, Suc k)} \<inter> ?B = {}" by blast
  have "?B \<union> {(?a, Suc k)} = insert (?a, Suc k) ?B" by blast
  then show ?thesis using d t' apart unfolding heap_inv_def by simp
qed

lemma heap_inv_disown:
  assumes inv: "heap_inv N s fl al {}" and al: "al u = Some (k, w)"
  shows "heap_inv N s fl (al(u := None)) {(u, k)}"
proof -
  note d = heap_invD [OF inv]
  have as: "alloc_set al = insert (u, k) (alloc_set (al(u := None)))"
    using al by (auto simp: alloc_set_def split: if_splits)
  have nf: "(u, k) \<notin> free_set fl"
  proof
    assume "(u, k) \<in> free_set fl"
    then show False using heap_inv_start [OF inv, of u k] al by simp
  qed
  have na: "(u, k) \<notin> alloc_set (al(u := None))" by (simp add: alloc_set_iff)
  have eq: "free_set fl \<union> alloc_set (al(u := None)) \<union> {(u, k)} = free_set fl \<union> alloc_set al \<union> {}"
    using as by blast
  show ?thesis using d nf na unfolding heap_inv_def eq by (auto split: if_splits)
qed

lemma own_block:
  assumes inv: "heap_inv N s fl al {(unat u, k)}" and w: "w \<noteq> kHeapBlockFree"
  shows "wp (write_heap_block u w (of_nat k) nx pv)
     (\<lambda>_ s'. heap_inv N s' fl (al(unat u \<mapsto> (k, w))) {} \<and> same_rest s s') (\<lambda>_ _. False) s"
proof -
  let ?b = "\<lparr>hb_state = w, hb_order = of_nat k, hb_next = nx, hb_prev = pv\<rparr>"
  let ?s = "s\<lparr>bh_blocks := (bh_blocks s)[unat u := ?b]\<rparr>"
  note d = heap_invD [OF inv]
  have uN: "unat u < N" using tilesD(2) [OF d(2), of "unat u" k] by (simp add: block_start_less)
  have none: "al (unat u) = None" using heap_inv_start [OF inv] by blast
  have out: "u \<notin> set (fl l)" if l: "l < 32" for l
  proof
    assume "u \<in> set (fl l)"
    then have f: "(unat u, l) \<in> free_set fl" using l by (auto simp: free_set_def)
    then have "k = l" using tiles_start [OF d(2)] by blast
    then show False using d(3) f by blast
  qed
  have as: "alloc_set (al(unat u \<mapsto> (k, w))) = insert (unat u, k) (alloc_set al)"
    using none by (auto simp: alloc_set_def split: if_splits)
  have eq: "free_set fl \<union> alloc_set (al(unat u \<mapsto> (k, w))) \<union> {} = free_set fl \<union> alloc_set al \<union> {(unat u, k)}"
    using as by blast
  have tags: "tag ?s v = (if v = unat u then (w, of_nat k) else tag s v)" for v
    using uN free_lists_len(1) [OF d(1)] by (simp add: tag_def nth_list_update)
  have "free_lists N ?s fl" by (rule free_lists_other [OF d(1) out uN])
  then have ok: "heap_inv N ?s fl (al(unat u \<mapsto> (k, w))) {}"
    using d w unfolding heap_inv_def eq tags by (auto split: if_splits)
  have rest: "same_rest s ?s" by (simp add: same_rest_def)
  show ?thesis
    unfolding write_heap_block_def store_heap_block_def wp_modify using ok rest by blast
qed

section \<open>Splitting and merging\<close>

lemma of_nat_pred: "(of_nat (Suc k) :: u32) - 1 = of_nat k"
  by simp

lemma buddy_split_ok:
  assumes "heap_inv N s fl al {(unat u, k)}" and "n \<le> k"
  shows "wp (buddy_split n u (of_nat k))
     (\<lambda>_ s'. (\<exists>fl'. heap_inv N s' fl' al {(unat u, k - n)}) \<and> same_rest s s') (\<lambda>_ _. False) s"
  using assms
proof (induction n arbitrary: k s fl)
  case 0
  then show ?case by (auto simp: wp_ret)
next
  case (Suc n)
  then obtain j where k: "k = Suc j" by (cases k) auto
  have j: "j < 32" using order_bound [OF Suc.prems(1), of "unat u" k] k by simp
  note inv = Suc.prems(1) [unfolded k]
  note d = heap_invD [OF inv]
  have ual: "2 ^ Suc j dvd unat u" and uN: "unat u + 2 ^ Suc j \<le> N" using tilesD(1,2) [OF d(2)] by blast+
  let ?v = "u + push_bit j 1"
  have "unat u + 2 ^ j < 2 ^ 32" using uN free_lists_len(3) [OF d(1)] by simp
  then have v: "unat ?v = unat u + 2 ^ j" by (simp only: unat_word_ariths unat_push_bit_1 [OF j]) simp
  note half = heap_inv_halve [OF inv, folded v]
  have "odd (unat ?v div 2 ^ j)" using ual v by (auto elim!: dvdE) presburger
  then have b: "buddy_of (unat ?v) j = unat u" unfolding buddy_of_def v by simp
  have nof: "(unat u, j) \<notin> free_set fl" using heap_invD(3) [OF half] by blast
  have new: "(unat ?v, j) \<notin> {(unat u, j)}" using v pow2_pos [of j] by auto
  have "wp (buddy_push_free ?v (of_nat j))
     (\<lambda>_ s'. heap_inv N s' (fl(j := ?v # fl j)) al {(unat u, j)} \<and> same_rest s s') (\<lambda>_ _. False) s"
    by (rule give_free_block [OF half new]) (simp only: b nof not_False_eq_True)
  then have "wp (buddy_push_free ?v (of_nat j))
     (\<lambda>_ s'. wp (buddy_split n u (of_nat j)) (\<lambda>_ r. (\<exists>fl'. heap_inv N r fl' al {(unat u, j - n)}) \<and> same_rest s r)
        (\<lambda>_ _. False) s') (\<lambda>_ _. False) s"
  proof (rule wp_mono)
    fix a s' assume s': "heap_inv N s' (fl(j := ?v # fl j)) al {(unat u, j)} \<and> same_rest s s'"
    then have "wp (buddy_split n u (of_nat j))
        (\<lambda>_ r. (\<exists>fl'. heap_inv N r fl' al {(unat u, j - n)}) \<and> same_rest s' r) (\<lambda>_ _. False) s'"
      using Suc.prems(2) k by (intro Suc.IH) auto
    then show "wp (buddy_split n u (of_nat j))
        (\<lambda>_ r. (\<exists>fl'. heap_inv N r fl' al {(unat u, j - n)}) \<and> same_rest s r) (\<lambda>_ _. False) s'"
      by (rule wp_mono) (use s' in \<open>auto intro: same_rest_trans\<close>)
  qed auto
  then show ?case by (simp only: buddy_split.simps Let_def k of_nat_pred unat_of_order [OF j] wp_seqE diff_Suc_Suc)
qed

text \<open>
  The metadata that \<open>buddy_free\<close> reads is always that of the start of a block, though nothing else of the heap
  has valid metadata: a block that holds the buddy's first unit and starts elsewhere would be larger than the
  buddy, and would hold the block that is freed as well.
\<close>

lemma buddy_is_start:
  assumes t: "tiles N B" and u: "(u, k) \<in> B" and b: "buddy_of u k < N"
  shows "\<exists>p. (buddy_of u k, p) \<in> B"
proof -
  obtain v p where v: "(v, p) \<in> B" "in_block v p (buddy_of u k)" using tilesD(3) [OF t b] by blast
  have ual: "2 ^ k dvd u" and val: "2 ^ p dvd v" using tilesD(1) [OF t] u v by blast+
  show ?thesis
  proof (cases "p \<le> k")
    case True
    then have "2 ^ p dvd buddy_of u k" using buddy_aligned [OF ual] by (meson dvd_trans le_imp_power_dvd)
    then have "v = buddy_of u k" using block_same val v(2) by blast
    then show ?thesis using v by blast
  next
    case False
    let ?a = "min u (buddy_of u k)"
    have up: "max u (buddy_of u k) = ?a + 2 ^ k" by (rule buddy_upper [OF ual])
    have "in_block ?a (Suc k) u" "in_block ?a (Suc k) (buddy_of u k)"
      using up by (auto simp: in_block_def min_def max_def split: if_splits)
    then have "in_block v p u"
      using block_nested [OF buddy_lower [OF ual] val, of "buddy_of u k" u] False v(2) by simp
    then have "p = k" using tilesD(4) [OF t v(1) u] by simp
    then show ?thesis using False by simp
  qed
qed

lemma buddy_tag_free:
  assumes inv: "heap_inv N s fl al {(u, k)}" and b: "buddy_of u k < N" and tg: "tag s (buddy_of u k) = (kHeapBlockFree, of_nat k)"
  shows "(buddy_of u k, k) \<in> free_set fl"
proof -
  note d = heap_invD [OF inv]
  obtain p where p: "(buddy_of u k, p) \<in> free_set fl \<union> alloc_set al \<union> {(u, k)}"
    using buddy_is_start [OF d(2) _ b] by blast
  have "2 ^ k dvd u" using tilesD(1) [OF d(2)] by blast
  then have "(buddy_of u k, p) \<in> free_set fl \<union> alloc_set al" using p buddy_other by blast
  then show ?thesis
  proof
    assume f: "(buddy_of u k, p) \<in> free_set fl"
    then obtain x where x: "buddy_of u k = unat x" "p < 32" "x \<in> set (fl p)" by (auto dest: free_setD)
    have "tag s (buddy_of u k) = (kHeapBlockFree, of_nat p)" unfolding x(1) by (rule free_lists_node(2) [OF d(1) x(2,3)])
    then have "(of_nat p :: u32) = of_nat k" using tg by simp
    then have "p = k" using of_nat_order_inj x(2) order_bound [OF inv, of u k] by auto
    then show ?thesis using f by simp
  next
    assume "(buddy_of u k, p) \<in> alloc_set al"
    then obtain w where "al (buddy_of u k) = Some (p, w)" by (auto simp: alloc_set_iff)
    then show ?thesis using d(5) tg by fastforce
  qed
qed

lemma buddy_merge_ok:
  assumes "heap_inv N s fl al {(unat u, k)}" and "unat nu = N" and "n = unat (bh_max_order s) - k"
  shows "wp (buddy_merge n u (of_nat k) nu)
     (\<lambda>(v, o') s'. \<exists>fl' j. o' = of_nat j \<and> heap_inv N s' fl' al {(unat v, j)} \<and> same_rest s s'
          \<and> (j < unat (bh_max_order s) \<longrightarrow> (buddy_of (unat v) j, j) \<notin> free_set fl')) (\<lambda>_ _. False) s"
  using assms
proof (induction n arbitrary: u k s fl)
  case 0
  have "\<exists>fl' j. (of_nat k :: u32) = of_nat j \<and> heap_inv N s fl' al {(unat u, j)} \<and> same_rest s s
      \<and> (j < unat (bh_max_order s) \<longrightarrow> (buddy_of (unat u) j, j) \<notin> free_set fl')"
    using 0 by (intro exI [of _ fl] exI [of _ k]) simp
  then show ?case by (simp add: wp_ret)
next
  case (Suc n)
  note inv = Suc.prems(1)
  note d = heap_invD [OF inv]
  have k: "k < 32" using order_bound [OF inv, of "unat u" k] by simp
  let ?b = "u XOR push_bit k 1"
  have b: "unat ?b = buddy_of (unat u) k" by (rule unat_buddy [OF k])
  have ual: "2 ^ k dvd unat u" using tilesD(1) [OF d(2)] by blast
  let ?Q = "\<lambda>t (v, o' :: u32) s'. \<exists>fl' j. o' = of_nat j \<and> heap_inv N s' fl' al {(unat v, j)} \<and> same_rest t s'
          \<and> (j < unat (bh_max_order t) \<longrightarrow> (buddy_of (unat v) j, j) \<notin> free_set fl')"
  show ?case
  proof (cases "(buddy_of (unat u) k, k) \<in> free_set fl")
    case False
    have "\<exists>fl' j. (of_nat k :: u32) = of_nat j \<and> heap_inv N s fl' al {(unat u, j)} \<and> same_rest s s
        \<and> (j < unat (bh_max_order s) \<longrightarrow> (buddy_of (unat u) j, j) \<notin> free_set fl')"
      using inv False by (intro exI [of _ fl] exI [of _ k]) simp
    then have stop: "wp (ret (u, of_nat k)) (?Q s) (\<lambda>_ _. False) s" by (simp add: wp_ret)
    have "?b \<ge> nu \<or> tag s (unat ?b) \<noteq> (kHeapBlockFree, of_nat k)"
      unfolding word_le_nat_alt b Suc.prems(2) using False buddy_tag_free [OF inv] by (meson not_le)
    then show ?thesis
      using stop k by (auto simp: Let_def wp_rules read_heap_block_def tag_def)
  next
    case True
    then obtain x where x: "unat ?b = unat x" "x \<in> set (fl k)" unfolding b by (blast dest: free_setD)
    then have bs: "?b \<in> set (fl k)" by (metis word_unat_eq_iff)
    have tg: "tag s (unat ?b) = (kHeapBlockFree, of_nat k)" by (rule free_lists_node(2) [OF d(1) k bs])
    have lt: "\<not> ?b \<ge> nu" using free_lists_node(1) [OF d(1) k bs] Suc.prems(2) by (simp add: word_le_nat_alt)
    let ?u = "if ?b < u then ?b else u"
    have u': "unat ?u = min (unat u) (buddy_of (unat u) k)" by (simp add: b [symmetric] word_less_nat_alt min_def)
    have "wp (buddy_remove_free ?b (of_nat k))
       (\<lambda>_ s'. wp (buddy_merge n ?u (of_nat (Suc k)) nu) (?Q s) (\<lambda>_ _. False) s') (\<lambda>_ _. False) s"
    proof (rule wp_mono [OF take_free_block [OF inv k bs]])
      fix a s' assume s': "heap_inv N s' (fl(k := remove1 ?b (fl k))) al {(unat ?b, k), (unat u, k)} \<and> same_rest s s'"
      then have "heap_inv N s' (fl(k := remove1 ?b (fl k))) al {(unat ?u, Suc k)}"
        unfolding u' using heap_inv_join b by auto
      moreover have "n = unat (bh_max_order s') - Suc k" using Suc.prems(3) same_rest_max [OF conjunct2 [OF s']] by simp
      ultimately have "wp (buddy_merge n ?u (of_nat (Suc k)) nu) (?Q s') (\<lambda>_ _. False) s'"
        by (intro Suc.IH [OF _ Suc.prems(2)])
      then show "wp (buddy_merge n ?u (of_nat (Suc k)) nu) (?Q s) (\<lambda>_ _. False) s'"
      proof (rule wp_mono)
        fix x r assume q: "?Q s' x r"
        have "bh_max_order s' = bh_max_order s" by (rule same_rest_max [OF conjunct2 [OF s']])
        then show "?Q s x r"
          using q same_rest_trans [OF conjunct2 [OF s']] by (cases x) (simp only: prod.case, blast)
      qed auto
    qed auto
    then show ?thesis
      using lt tg k by (cases "?b < u") (simp_all add: Let_def wp_rules read_heap_block_def tag_def add.commute)
  qed
qed

lemma buddy_free_ok:
  assumes ok: "buddy_ok N s al" and al: "al (unat u) = Some (k, w)" and nu: "unat nu = N"
  shows "wp (buddy_free u (of_nat k) nu) (\<lambda>_ s'. buddy_ok N s' (al(unat u := None)) \<and> same_rest s s') (\<lambda>_ _. False) s"
proof -
  obtain fl where inv: "heap_inv N s fl al {}" using ok by (auto simp: buddy_ok_def)
  let ?al = "al(unat u := None)"
  have inv': "heap_inv N s fl ?al {(unat u, k)}" by (rule heap_inv_disown [OF inv al])
  have k: "k < 32" using order_bound [OF inv', of "unat u" k] by simp
  have "wp (buddy_merge (unat (bh_max_order s) - k) u (of_nat k) nu)
     (\<lambda>(v, o') s'. wp (buddy_push_free v o') (\<lambda>_ s'. buddy_ok N s' ?al \<and> same_rest s s') (\<lambda>_ _. False) s') (\<lambda>_ _. False) s"
  proof (rule wp_mono [OF buddy_merge_ok [OF inv' nu refl]], clarify)
    fix v o' :: u32 and s' :: "'a buddy_heap_scheme" and fl' j
    assume s': "heap_inv N s' fl' ?al {(unat v, j)}" "same_rest s s'"
      and nb: "j < unat (bh_max_order s) \<longrightarrow> (buddy_of (unat v) j, j) \<notin> free_set fl'"
    have "wp (buddy_push_free v (of_nat j)) (\<lambda>_ r. heap_inv N r (fl'(j := v # fl' j)) ?al {} \<and> same_rest s' r)
       (\<lambda>_ _. False) s'"
      by (rule give_free_block) (use s' nb in auto)
    then show "wp (buddy_push_free v (of_nat j)) (\<lambda>_ s'. buddy_ok N s' ?al \<and> same_rest s s') (\<lambda>_ _. False) s'"
      by (rule wp_mono) (use s' in \<open>auto simp: buddy_ok_def intro: same_rest_trans\<close>)
  qed auto
  then show ?thesis using k by (simp add: buddy_free_def wp_rules case_prod_unfold)
qed

section \<open>Allocation\<close>

text \<open>The order of a request: the least one whose blocks are large enough.\<close>

definition order_fits :: "nat \<Rightarrow> nat \<Rightarrow> bool" where
  "order_fits units k \<longleftrightarrow> units \<le> 2 ^ k \<and> (k = 0 \<or> 2 ^ (k - 1) < units)"

lemma buddy_order_loop_ok:
  assumes "unat p = 2 ^ k" and "k \<le> 31" and "unat units \<le> 2 ^ 31" and "k = 0 \<or> 2 ^ (k - 1) < unat units"
  shows "\<exists>j. buddy_order_loop units p (of_nat k) = Some (of_nat j) \<and> j \<le> 31 \<and> order_fits (unat units) j"
  using assms
proof (induction "31 - k" arbitrary: k p)
  case (0 k p)
  then have "\<not> p < units" by (simp add: word_less_nat_alt)
  then show ?case using 0
    by (subst buddy_order_loop.simps) (auto simp: order_fits_def word_less_nat_alt intro!: exI [of _ k])
next
  case (Suc d k p)
  show ?case
  proof (cases "p < units")
    case False
    then show ?thesis using Suc.prems
      by (subst buddy_order_loop.simps) (auto simp: order_fits_def word_less_nat_alt intro!: exI [of _ k])
  next
    case True
    have k31: "k < 31" using Suc.hyps(2) by simp
    then have "(2::nat) ^ k \<le> 2 ^ 30" by (intro power_increasing) auto
    then have u: "unat (push_bit 1 p) = 2 ^ Suc k" using Suc.prems(1) unat_shift1_u32 [of p] by simp
    have "d = 31 - Suc k" using Suc.hyps(2) by simp
    moreover have "2 ^ (Suc k - 1) < unat units" using True Suc.prems(1) by (simp add: word_less_nat_alt)
    ultimately have "\<exists>j. buddy_order_loop units (push_bit 1 p) (of_nat (Suc k)) = Some (of_nat j) \<and> j \<le> 31
        \<and> order_fits (unat units) j"
      using Suc.hyps(1) [of "Suc k" "push_bit 1 p"] u Suc.prems(3) k31 by auto
    moreover have "buddy_order_loop units p (of_nat k) = buddy_order_loop units (push_bit 1 p) (of_nat (Suc k))"
      using True by (subst buddy_order_loop.simps) (simp add: add.commute)
    ultimately show ?thesis by simp
  qed
qed

lemma order_fits_unique: "order_fits n j \<Longrightarrow> order_fits n k \<Longrightarrow> j = k"
proof (induction j k rule: linorder_wlog)
  case (le j k)
  show ?case
  proof (rule ccontr)
    assume "j \<noteq> k"
    then have "j \<le> k - 1" "k \<noteq> 0" using le by auto
    then have "(2::nat) ^ j \<le> 2 ^ (k - 1)" by (intro power_increasing) auto
    moreover have "n \<le> 2 ^ j" "2 ^ (k - 1) < n" using le \<open>k \<noteq> 0\<close> by (simp_all add: order_fits_def)
    ultimately show False by linarith
  qed
qed auto

lemma buddy_order_for_units_ok:
  assumes "unat units \<le> 2 ^ 31" and "order_fits (unat units) k"
  shows "buddy_order_for_units units = Some (of_nat k)" and "k \<le> 31"
  using buddy_order_loop_ok [of 1 0 units] assms order_fits_unique by (auto simp: buddy_order_for_units_def)

lemma first_free_order_ok:
  assumes "k + length hs = 32" and "unat m < 32" and "r = unat (first_free_order m (of_nat k) hs)"
  shows "k \<le> r \<and> r \<le> 32 \<and> (\<forall>i. k \<le> i \<and> i < r \<and> i \<le> unat m \<longrightarrow> hs ! (i - k) = kHeapFreeListNone)
     \<and> (r \<le> unat m \<longrightarrow> hs ! (r - k) \<noteq> kHeapFreeListNone)"
  using assms
proof (induction hs arbitrary: k r)
  case Nil
  then have "k = 32" by simp
  then show ?case using Nil by auto
next
  case (Cons h hs)
  have k: "k < 32" using Cons.prems(1) by simp
  have le: "of_nat k \<le> m \<longleftrightarrow> k \<le> unat m" using k by (simp add: word_le_nat_alt)
  show ?case
  proof (cases "k \<le> unat m \<and> h = kHeapFreeListNone")
    case True
    then have r: "r = unat (first_free_order m (of_nat (Suc k)) hs)" using Cons.prems(3) le by (simp add: add.commute)
    have ih: "Suc k \<le> r \<and> r \<le> 32 \<and> (\<forall>i. Suc k \<le> i \<and> i < r \<and> i \<le> unat m \<longrightarrow> hs ! (i - Suc k) = kHeapFreeListNone)
        \<and> (r \<le> unat m \<longrightarrow> hs ! (r - Suc k) \<noteq> kHeapFreeListNone)"
      by (rule Cons.IH) (use Cons.prems r in simp_all)
    have nth: "(h # hs) ! (i - k) = (if i = k then h else hs ! (i - Suc k))" if "k \<le> i" for i
      using that by (auto simp: nth_Cons' )
    have "(h # hs) ! (i - k) = kHeapFreeListNone" if "k \<le> i \<and> i < r \<and> i \<le> unat m" for i
      using nth [of i] ih True that by (cases "i = k") simp_all
    moreover have "(h # hs) ! (r - k) \<noteq> kHeapFreeListNone" if "r \<le> unat m" using nth [of r] ih that by simp
    ultimately show ?thesis using ih by auto
  next
    case False
    then have "r = k" using Cons.prems(3) le k by auto
    then show ?thesis using False k by auto
  qed
qed

text \<open>A block that an allocation may return: aligned, in the heap, and disjoint from what is allocated.\<close>

definition fits :: "block_map \<Rightarrow> nat \<Rightarrow> nat \<Rightarrow> nat \<Rightarrow> bool" where
  "fits al N u k \<longleftrightarrow> 2 ^ k dvd u \<and> u + 2 ^ k \<le> N
     \<and> (\<forall>v p w y. al v = Some (p, w) \<longrightarrow> in_block u k y \<longrightarrow> \<not> in_block v p y)"

lemma fits_half:
  assumes "fits al N u (Suc k)"
  shows "fits al N u k" and "fits al N (u + 2 ^ k) k"
  using assms by (auto simp: fits_def block_halves intro: dvd_mult_right)

text \<open>Coalescing is complete: an aligned block of free units lies in one free block.\<close>

lemma fits_in_free_block:
  assumes inv: "heap_inv N s fl al {}" and "fits al N u k"
  shows "\<exists>v p. (v, p) \<in> free_set fl \<and> k \<le> p \<and> in_block v p u"
  using assms(2)
proof (induction k arbitrary: u)
  case 0
  note t = heap_invD(2) [OF inv]
  have "u < N" using 0 by (auto simp: fits_def)
  then obtain v p where v: "(v, p) \<in> free_set fl \<union> alloc_set al \<union> {}" "in_block v p u" using tilesD(3) [OF t] by blast
  have "(v, p) \<notin> alloc_set al" using 0 v(2) by (auto simp: fits_def alloc_set_iff)
  then show ?case using v by auto
next
  case (Suc k)
  note d = heap_invD [OF inv]
  let ?u = "u + 2 ^ k"
  obtain v p where v: "(v, p) \<in> free_set fl" "k \<le> p" "in_block v p u" using Suc.IH fits_half(1) [OF Suc.prems] by blast
  obtain w q where w: "(w, q) \<in> free_set fl" "k \<le> q" "in_block w q ?u" using Suc.IH fits_half(2) [OF Suc.prems] by blast
  have al: "2 ^ Suc k dvd u" "2 ^ k dvd u" "2 ^ k dvd ?u" using Suc.prems by (auto simp: fits_def intro: dvd_mult_right)
  have vw: "2 ^ p dvd v" "2 ^ q dvd w" using tilesD(1) [OF d(2)] v w by blast+
  have in_u: "in_block u (Suc k) u" "in_block u (Suc k) ?u" by (auto simp: in_block_def)
  show ?case
  proof (cases "p = k \<and> q = k")
    case True
    then have "v = u" "w = ?u" using block_same v(3) w(3) vw al by blast+
    moreover have "buddy_of u k = ?u" using al(1) by (auto simp: buddy_of_def elim!: dvdE)
    moreover have "k < unat (bh_max_order s)"
    proof -
      have "2 ^ Suc k < (2::nat) ^ Suc (unat (bh_max_order s))"
        using Suc.prems d(7) unfolding fits_def by linarith
      then have "Suc k < Suc (unat (bh_max_order s))" by (rule power_less_imp_less_exp [rotated]) simp
      then show ?thesis by simp
    qed
    ultimately show ?thesis using d(4) v(1) w(1) True unfolding coalesced_def by metis
  next
    case False
    then consider "Suc k \<le> p" | "Suc k \<le> q" using v(2) w(2) by linarith
    then show ?thesis
    proof cases
      case 1
      then show ?thesis using v by blast
    next
      case 2
      then have "in_block w q u" using block_nested [OF al(1) vw(2) 2 in_u(2) w(3) in_u(1)] by blast
      then show ?thesis using w 2 by blast
    qed
  qed
qed

lemma buddy_none:
  assumes inv: "heap_inv N s fl al {}" and none: "\<And>i. k \<le> i \<Longrightarrow> i \<le> unat (bh_max_order s) \<Longrightarrow> bh_heads s ! i = kHeapFreeListNone"
  shows "\<not> fits al N u k"
proof
  assume "fits al N u k"
  then obtain v p where v: "(v, p) \<in> free_set fl" "k \<le> p" using fits_in_free_block [OF inv] by blast
  note d = heap_invD [OF inv]
  obtain x where p: "p < 32" "x \<in> set (fl p)" using v by (auto dest: free_setD)
  have "2 ^ p < (2::nat) ^ Suc (unat (bh_max_order s))" using tilesD(2) [OF d(2), of v p] v(1) d(7) by simp
  then have "p < Suc (unat (bh_max_order s))" by (rule power_less_imp_less_exp [rotated]) simp
  then have "bh_heads s ! p = kNoLink" using none [OF v(2)] by (simp add: kNoLink_heap)
  moreover obtain t where "linked (nxt s) (prv s) (bh_heads s ! p) (fl p) t" using free_lists_linked [OF d(1) p(1)] by blast
  ultimately show False using linked_ends(4) p(2) by fastforce
qed

lemma fits_held: "heap_inv N s fl al {(u, k)} \<Longrightarrow> fits al N u k"
proof -
  assume inv: "heap_inv N s fl al {(u, k)}"
  note d = heap_invD [OF inv]
  have False if "al v = Some (p, w)" "in_block u k y" "in_block v p y" for v p w y
  proof -
    have "(v, p) \<in> alloc_set al" using that by (auto simp: alloc_set_iff)
    then have "(u, k) \<in> alloc_set al" using tilesD(4) [OF d(2), of u k v p y] that by blast
    then show False using d(3) by blast
  qed
  then show ?thesis using tilesD(1,2) [OF d(2), of u k] by (auto simp: fits_def)
qed

text \<open>
  An allocation returns the start of a block of the least sufficient order that is disjoint from everything
  allocated, and fails only when there is none.
\<close>

lemma buddy_allocate_ok:
  assumes ok: "buddy_ok N s al" and "unat units \<le> 2 ^ 31" and fit: "order_fits (unat units) k"
    and w: "w \<noteq> kHeapBlockFree"
  shows "wp (buddy_allocate units w)
     (\<lambda>r s'. same_rest s s' \<and>
        (case r of None \<Rightarrow> s' = s \<and> (\<forall>u. \<not> fits al N u k)
         | Some (u, ord) \<Rightarrow> ord = of_nat k \<and> fits al N (unat u) k \<and> buddy_ok N s' (al(unat u \<mapsto> (k, w)))))
     (\<lambda>_ _. False) s" (is "wp _ ?Q _ _")
proof -
  obtain fl where inv: "heap_inv N s fl al {}" using ok by (auto simp: buddy_ok_def)
  note d = heap_invD [OF inv]
  have need: "buddy_order_for_units units = Some (of_nat k)" and k: "k \<le> 31"
    using buddy_order_for_units_ok [OF assms(2) fit] by blast+
  have m: "unat (bh_max_order s) < 31" by (rule heap_inv_max [OF inv])
  let ?ord = "first_free_order (bh_max_order s) (of_nat k) (drop k (bh_heads s))"
  note srch = first_free_order_ok [of k "drop k (bh_heads s)" "bh_max_order s" "unat ?ord"]
  have len: "length (bh_heads s) = 32" by (rule free_lists_len(2) [OF d(1)])
  show ?thesis
  proof (cases "?ord > bh_max_order s")
    case True
    then have lt: "unat (bh_max_order s) < unat ?ord" by (simp add: word_less_nat_alt)
    have "bh_heads s ! i = kHeapFreeListNone" if "k \<le> i" "i \<le> unat (bh_max_order s)" for i
      using srch that lt k m len by auto
    then have "\<forall>u. \<not> fits al N u k" using buddy_none [OF inv] by blast
    then show ?thesis
      using True k need by (simp add: buddy_allocate_def order_for_units_io_def wp_rules)
  next
    case False
    define j where "j = unat ?ord"
    have jm: "j \<le> unat (bh_max_order s)" and j: "j < 32" and kj: "k \<le> j"
      using False m srch k len by (auto simp: j_def word_less_nat_alt)
    have ordj: "?ord = of_nat j" by (simp add: j_def)
    let ?u = "bh_heads s ! j"
    have "?u \<noteq> kNoLink" using srch jm k m len kj unfolding j_def [symmetric] kNoLink_heap by simp
    moreover obtain t where "linked (nxt s) (prv s) ?u (fl j) t" using free_lists_linked [OF d(1) j] by blast
    ultimately have u: "?u \<in> set (fl j)" using linked_ends by (metis hd_in_set)
    have "wp (buddy_remove_free ?u (of_nat j))
       (\<lambda>_ s1. wp (buddy_split (j - k) ?u (of_nat j))
         (\<lambda>_ s2. wp (write_heap_block ?u w (of_nat k) kHeapFreeListNone kHeapFreeListNone)
            (\<lambda>_. ?Q (Some (?u, of_nat k))) (\<lambda>_ _. False) s2) (\<lambda>_ _. False) s1) (\<lambda>_ _. False) s"
    proof (rule wp_mono [OF take_free_block [OF inv j u]])
      fix a s1 assume s1: "heap_inv N s1 (fl(j := remove1 ?u (fl j))) al {(unat ?u, j)} \<and> same_rest s s1"
      show "wp (buddy_split (j - k) ?u (of_nat j))
         (\<lambda>_ s2. wp (write_heap_block ?u w (of_nat k) kHeapFreeListNone kHeapFreeListNone)
            (\<lambda>_. ?Q (Some (?u, of_nat k))) (\<lambda>_ _. False) s2) (\<lambda>_ _. False) s1"
      proof (rule wp_mono [OF buddy_split_ok [OF conjunct1 [OF s1], of "j - k"]])
        fix b s2 assume "(\<exists>fl'. heap_inv N s2 fl' al {(unat ?u, j - (j - k))}) \<and> same_rest s1 s2"
        then obtain fl2 where s2: "heap_inv N s2 fl2 al {(unat ?u, k)}" "same_rest s1 s2" using kj by auto
        have r2: "same_rest s s2" using s1 s2(2) same_rest_trans by blast
        show "wp (write_heap_block ?u w (of_nat k) kHeapFreeListNone kHeapFreeListNone)
            (\<lambda>_. ?Q (Some (?u, of_nat k))) (\<lambda>_ _. False) s2"
        proof (rule wp_mono [OF own_block [OF s2(1) w]])
          fix c s3 assume s3: "heap_inv N s3 fl2 (al(unat ?u \<mapsto> (k, w))) {} \<and> same_rest s2 s3"
          then have "buddy_ok N s3 (al(unat ?u \<mapsto> (k, w)))" by (auto simp: buddy_ok_def)
          then show "?Q (Some (?u, of_nat k)) s3" using fits_held [OF s2(1)] same_rest_trans [OF r2] s3 by simp
        qed auto
      qed auto
    qed auto
    then show ?thesis
      using False k need j
      by (simp add: buddy_allocate_def order_for_units_io_def wp_rules ordj ext [OF wp_seqE] ext [OF wp_ret])
  qed
qed

section \<open>The cold start\<close>

lemma lower_to_alignment_aligned:
  assumes "k < 32" and "2 ^ k dvd unat first"
  shows "lower_to_alignment k first = k"
proof (cases k)
  case (Suc j)
  have "unat (first AND (push_bit k 1 - 1)) = unat first mod 2 ^ k"
    using unat_and_mask [OF unat_push_bit_1 [OF assms(1)], of first] by (simp only: unat_push_bit_1 [OF assms(1)])
  then have "first AND (push_bit k 1 - 1) = 0" using assms(2) by (simp add: unat_eq_0 del: push_bit_of_1)
  then show ?thesis using Suc by simp
qed simp

lemma tiles_extend:
  assumes t: "tiles n B" and "2 ^ k dvd n"
  shows "tiles (n + 2 ^ k) (insert (n, k) B)"
proof (rule tilesI)
  have low: "y < n" if "(u, p) \<in> B" "in_block u p y" for u p y
    using tilesD(2) [OF t that(1)] that(2) by (auto simp: in_block_def)
  { fix u p assume "(u, p) \<in> insert (n, k) B"
    then show "2 ^ p dvd u \<and> u + 2 ^ p \<le> n + 2 ^ k" using tilesD(1,2) [OF t] assms(2) by fastforce }
  { fix y assume y: "y < n + 2 ^ k"
    show "\<exists>u p. (u, p) \<in> insert (n, k) B \<and> in_block u p y"
    proof (cases "y < n")
      case True
      then show ?thesis using tilesD(3) [OF t, of y] by blast
    next
      case False
      then have "in_block n k y" using y by (simp add: in_block_def)
      then show ?thesis by blast
    qed }
  fix u p v q y
  assume "(u, p) \<in> insert (n, k) B" "(v, q) \<in> insert (n, k) B" "in_block u p y" "in_block v q y"
  then show "u = v \<and> p = q" using low tilesD(4) [OF t] by (auto simp: in_block_def not_less [symmetric])
qed

text \<open>What the seeding loop keeps: the blocks so far tile the units so far, with one block of each order at most.\<close>

definition seed_inv :: "nat \<Rightarrow> 'z buddy_heap_scheme \<Rightarrow> (nat \<Rightarrow> u32 list) \<Rightarrow> nat \<Rightarrow> nat \<Rightarrow> nat \<Rightarrow> bool" where
  "seed_inv N s fl n r j \<longleftrightarrow> free_lists N s fl \<and> n + r = N \<and> r < 2 ^ j \<and> 2 ^ j dvd n \<and> tiles n (free_set fl)
     \<and> (\<forall>u k. (u, k) \<in> free_set fl \<longrightarrow> j \<le> k \<and> (\<forall>v. (v, k) \<in> free_set fl \<longrightarrow> v = u))"

lemma buddy_seed_ok:
  assumes "seed_inv N s fl (unat first) (unat rem) j" and "j \<le> 32"
  shows "wp (buddy_seed first rem) (\<lambda>_ s'. (\<exists>fl' j'. seed_inv N s' fl' N 0 j') \<and> same_rest s s') (\<lambda>_ _. False) s"
  using assms
proof (induction first rem arbitrary: s fl j rule: buddy_seed.induct)
  case (1 first rem)
  note fl = 1(2) [unfolded seed_inv_def]
  show ?case
  proof (cases "rem = 0")
    case True
    then have "seed_inv N s fl N 0 j" using 1(2) fl by simp
    then show ?thesis using True by (subst buddy_seed.simps) (auto simp: wp_ret)
  next
    case False
    then have pos: "0 < rem" by (simp add: word_gt_0)
    define k where "k = unat (floor_log2_u32 rem)"
    note b = floor_log2_bounds [OF pos, folded k_def]
    have "2 ^ k < (2::nat) ^ j" using b(2) fl by linarith
    then have kj: "k < j" by (rule power_less_imp_less_exp [rotated]) simp
    have al: "2 ^ k dvd unat first" using fl kj by (meson dvd_trans le_imp_power_dvd less_imp_le)
    have low: "lower_to_alignment k first = k" by (rule lower_to_alignment_aligned [OF b(1) al])
    have N31: "N < 2 ^ 31" using free_lists_len(3) fl by blast
    have sum: "unat first + 2 ^ k \<le> N" using b(2) fl by linarith
    have f': "unat (first + push_bit k 1) = unat first + 2 ^ k"
      using sum N31 by (simp only: unat_word_ariths unat_push_bit_1 [OF b(1)]) simp
    have r': "unat (rem - push_bit k 1) = unat rem - 2 ^ k"
      using b(2) by (simp only: unat_sub word_le_nat_alt unat_push_bit_1 [OF b(1)])
    have out: "first \<notin> set (fl l)" if l: "l < 32" for l
    proof
      assume "first \<in> set (fl l)"
      then have "(unat first, l) \<in> free_set fl" using l by (auto simp: free_set_def)
      then have "unat first + 2 ^ l \<le> unat first" using tilesD(2) [of "unat first" "free_set fl"] fl by blast
      then show False by simp
    qed
    have fs: "free_set (fl(k := first # fl k)) = insert (unat first, k) (free_set fl)" by (rule free_set_push [OF b(1)])
    have t: "tiles (unat first + 2 ^ k) (insert (unat first, k) (free_set fl))"
      by (rule tiles_extend) (use fl al in blast)+
    have d': "2 ^ k dvd unat first + 2 ^ k" using al by simp
    have none: "(v, k) \<notin> free_set fl" for v using fl kj by (meson not_le)
    have ge: "j \<le> p" if "(v, p) \<in> free_set fl" for v p using fl that by blast
    have one: "w = v" if "(v, p) \<in> free_set fl" "(w, p) \<in> free_set fl" for v w p using fl that by blast
    have step: "seed_inv N s' (fl(k := first # fl k)) (unat (first + push_bit k 1)) (unat (rem - push_bit k 1)) k"
      if "free_lists N s' (fl(k := first # fl k))" for s'
    proof -
      have "k \<le> p \<and> (\<forall>w. (w, p) \<in> insert (unat first, k) (free_set fl) \<longrightarrow> w = v)"
        if "(v, p) \<in> insert (unat first, k) (free_set fl)" for v p
      proof (cases "p = k")
        case True
        then show ?thesis using that none by blast
      next
        case False
        then have vp: "(v, p) \<in> free_set fl" using that by blast
        have "j \<le> p" by (rule ge [OF vp])
        then show ?thesis using one [OF vp] kj False by auto
      qed
      moreover have "unat first + 2 ^ k + (unat rem - 2 ^ k) = N" "unat rem - 2 ^ k < 2 ^ k" using fl b(2,3) by auto
      ultimately show ?thesis using that t d' unfolding seed_inv_def fs f' r' by blast
    qed
    have uN: "unat first < N" using sum by (rule block_start_less)
    have "wp (buddy_push_free first (of_nat k))
       (\<lambda>_ s1. wp (buddy_seed (first + push_bit k 1) (rem - push_bit k 1))
          (\<lambda>_ s'. (\<exists>fl' j'. seed_inv N s' fl' N 0 j') \<and> same_rest s s') (\<lambda>_ _. False) s1) (\<lambda>_ _. False) s"
    proof (rule wp_mono [OF buddy_push_free_ok [OF _ b(1) uN out]])
      show "free_lists N s fl" using fl by blast
      fix a s1
      assume s1: "free_lists N s1 (fl(k := first # fl k)) \<and> tag s1 = (tag s)(unat first := (kHeapBlockFree, of_nat k))
          \<and> same_rest s s1"
      have "wp (buddy_seed (first + push_bit k 1) (rem - push_bit k 1))
          (\<lambda>_ s'. (\<exists>fl' j'. seed_inv N s' fl' N 0 j') \<and> same_rest s1 s') (\<lambda>_ _. False) s1"
        by (rule 1(1) [OF False refl refl, unfolded k_def [symmetric] low, OF step])
          (use s1 b(1) in auto)
      then show "wp (buddy_seed (first + push_bit k 1) (rem - push_bit k 1))
          (\<lambda>_ s'. (\<exists>fl' j'. seed_inv N s' fl' N 0 j') \<and> same_rest s s') (\<lambda>_ _. False) s1"
        by (rule wp_mono) (use s1 in \<open>auto intro: same_rest_trans\<close>)
    qed auto
    then show ?thesis
      by (subst buddy_seed.simps) (simp add: False Let_def wp_rules low k_def [symmetric] del: push_bit_of_1)
  qed
qed

text \<open>Whatever the metadata in DRAM holds, the cold start leaves a well-formed heap with nothing allocated.\<close>

lemma buddy_cold_start_ok:
  assumes nu: "unat nu = N" "0 < N" "N < 2 ^ 31" and len: "length (bh_blocks s) = N"
  shows "wp (buddy_cold_start nu) (\<lambda>_ s'. buddy_ok N s' Map.empty) (\<lambda>_ _. False) s"
proof -
  let ?s = "s\<lparr>bh_max_order := floor_log2_u32 nu, bh_heads := replicate kHeapAllocatorMaxOrders kHeapFreeListNone\<rparr>"
  have "free_lists N ?s (\<lambda>_. [])"
    using nu len by (simp add: free_lists_def linked_def kHeapAllocatorMaxOrders_def kNoLink_heap)
  then have start: "seed_inv N ?s (\<lambda>_. []) (unat (0 :: u32)) (unat nu) 32"
    using nu by (auto simp: seed_inv_def free_set_def tiles_def)
  have "buddy_ok N s' Map.empty" if fin: "seed_inv N s' fl N 0 j" and rest: "same_rest ?s s'" for s' fl j
  proof -
    have f: "free_lists N s' fl" "tiles N (free_set fl)"
      and one: "\<And>u v k. (u, k) \<in> free_set fl \<Longrightarrow> (v, k) \<in> free_set fl \<Longrightarrow> v = u"
      using fin unfolding seed_inv_def by blast+
    have "bh_max_order s' = floor_log2_u32 nu" using same_rest_max [OF rest] by simp
    moreover have "coalesced (unat (floor_log2_u32 nu)) (free_set fl)"
      unfolding coalesced_def using one buddy_other tilesD(1) [OF f(2)] by metis
    moreover have "0 < nu" using nu by (simp add: word_less_nat_alt)
    ultimately show ?thesis
      using f floor_log2_bounds [of nu] nu(1)
      by (auto simp: buddy_ok_def heap_inv_def alloc_set_def intro!: exI [of _ fl])
  qed
  then show ?thesis
    unfolding buddy_cold_start_def wp_seqE wp_modify
    by (intro wp_mono [OF buddy_seed_ok [OF start]]) auto
qed

end
