(* ===== verification/Buddy_Safety.thy ===== *)
theory Buddy_Safety
  imports Buddy_Heap
begin

text \<open>
  The buddy allocator over any sequence of its calls, and the interface that the rest of the device's
  directory needs of an allocator of aligned blocks.
\<close>

section \<open>The contract of a block allocator\<close>

text \<open>
  What an allocator of aligned blocks promises over a map of the blocks that are out: the blocks lie in the
  heap and do not overlap, an allocation adds a block of the least sufficient order and fails only when none
  fits, and a block that is out can be given back.
\<close>

locale block_allocator =
  fixes ok :: "'s \<Rightarrow> block_map \<Rightarrow> bool"
    and alloc :: "u32 \<Rightarrow> u32 \<Rightarrow> 's \<Rightarrow> (fault + (u32 \<times> u32) option) \<times> 's"
    and free :: "u32 \<Rightarrow> u32 \<Rightarrow> 's \<Rightarrow> (fault + unit) \<times> 's"
    and N :: nat
  assumes blocks_apart: "ok s al \<Longrightarrow> al u = Some (k, w) \<Longrightarrow> al v = Some (p, x) \<Longrightarrow> u \<noteq> v \<Longrightarrow>
      in_block u k y \<Longrightarrow> \<not> in_block v p y"
    and block_inside: "ok s al \<Longrightarrow> al u = Some (k, w) \<Longrightarrow> 2 ^ k dvd u \<and> u + 2 ^ k \<le> N"
    and alloc_block: "ok s al \<Longrightarrow> unat units \<le> 2 ^ 31 \<Longrightarrow> order_fits (unat units) k \<Longrightarrow> w \<noteq> kHeapBlockFree \<Longrightarrow>
      (alloc units w s = (Inr None, s) \<and> (\<forall>v. \<not> fits al N v k))
      \<or> (\<exists>b s'. alloc units w s = (Inr (Some (b, of_nat k)), s') \<and> fits al N (unat b) k
            \<and> ok s' (al(unat b \<mapsto> (k, w))))"
    and free_block: "ok s al \<Longrightarrow> al (unat b) = Some (k, w) \<Longrightarrow>
      \<exists>s'. free b (of_nat k) s = (Inr (), s') \<and> ok s' (al(unat b := None))"
begin

text \<open>Giving back what one has just got makes the same blocks fit as before.\<close>

lemma alloc_free:
  assumes "ok s al" "unat units \<le> 2 ^ 31" "order_fits (unat units) k" "w \<noteq> kHeapBlockFree"
    and "alloc units w s = (Inr (Some (u, ord)), s')"
  shows "\<exists>s''. free u ord s' = (Inr (), s'') \<and> ok s'' al"
proof -
  have "ord = of_nat k" and fit: "fits al N (unat u) k" and ok': "ok s' (al(unat u \<mapsto> (k, w)))"
    using alloc_block [OF assms(1-4)] assms(5) by auto
  have "al (unat u) = None"
  proof (rule ccontr)
    assume "al (unat u) \<noteq> None"
    then obtain p x where "al (unat u) = Some (p, x)" by auto
    then have "\<not> in_block (unat u) p (unat u)" using fit block_self unfolding fits_def by blast
    then show False by simp
  qed
  then have "al(unat u := None) = al" by auto
  then show ?thesis using free_block [OF ok', of u k w] \<open>ord = of_nat k\<close> by simp
qed

text \<open>An allocation succeeds whenever an aligned block of units is free.\<close>

lemma alloc_complete:
  assumes "ok s al" "unat units \<le> 2 ^ 31" "order_fits (unat units) k" "w \<noteq> kHeapBlockFree" and "fits al N v k"
  shows "\<exists>u s'. alloc units w s = (Inr (Some (u, of_nat k)), s') \<and> fits al N (unat u) k"
  using alloc_block [OF assms(1-4)] assms(5) by blast

end

section \<open>The buddy allocator keeps it\<close>

definition num_units_ok :: "u32 \<Rightarrow> bool" where
  "num_units_ok nu \<longleftrightarrow> 0 < unat nu \<and> unat nu < 2 ^ 31"

lemma buddy_apart:
  assumes "buddy_ok N s al" and "al u = Some (k, w)" "al v = Some (p, x)" "u \<noteq> v" "in_block u k y"
  shows "\<not> in_block v p y"
proof
  assume y: "in_block v p y"
  obtain fl where "heap_inv N s fl al {}" using assms(1) by (auto simp: buddy_ok_def)
  from heap_invD(2) [OF this] have "u = v \<and> k = p"
    by (rule tilesD(4)) (use assms y in \<open>auto simp: alloc_set_iff\<close>)
  then show False using assms(4) by simp
qed

lemma buddy_inside:
  assumes "buddy_ok N s al" and "al u = Some (k, w)"
  shows "2 ^ k dvd u \<and> u + 2 ^ k \<le> N"
proof -
  obtain fl where "heap_inv N s fl al {}" using assms(1) by (auto simp: buddy_ok_def)
  note t = tilesD(1,2) [OF heap_invD(2) [OF this], of u k]
  have "(u, k) \<in> alloc_set al" using assms(2) by (simp add: alloc_set_iff)
  then show ?thesis using t by blast
qed

lemma wp_exists:
  "wp m Q (\<lambda>_ _. False) s \<Longrightarrow> \<exists>a s'. m s = (Inr a, s') \<and> Q a s'"
  by (cases "m s"; cases "fst (m s)") (auto simp: wp_def)

lemma wp_exists_unit: "wp m Q (\<lambda>_ _. False) s \<Longrightarrow> \<exists>s'. m s = (Inr (), s') \<and> Q () s'"
  by (drule wp_exists) simp

interpretation buddy: block_allocator "buddy_ok (unat nu)" buddy_allocate "\<lambda>u k. buddy_free u k nu" "unat nu" for nu
proof
  fix s :: "'a buddy_heap_scheme" and al u k w v p x y
  assume "buddy_ok (unat nu) s al" "al u = Some (k, w)" "al v = Some (p, x)" "u \<noteq> v" "in_block u k y"
  then show "\<not> in_block v p y" by (rule buddy_apart)
next
  fix s :: "'a buddy_heap_scheme" and al u k w
  assume "buddy_ok (unat nu) s al" "al u = Some (k, w)"
  then show "2 ^ k dvd u \<and> u + 2 ^ k \<le> unat nu" by (rule buddy_inside)
next
  fix s :: "'a buddy_heap_scheme" and al k and units w :: u32
  assume "buddy_ok (unat nu) s al" "unat units \<le> 2 ^ 31" "order_fits (unat units) k" "w \<noteq> kHeapBlockFree"
  from wp_exists [OF buddy_allocate_ok [OF this]]
  obtain r s' where run: "buddy_allocate units w s = (Inr r, s')"
    and q: "case r of None \<Rightarrow> s' = s \<and> (\<forall>u. \<not> fits al (unat nu) u k)
         | Some (u, ord) \<Rightarrow> ord = of_nat k \<and> fits al (unat nu) (unat u) k \<and> buddy_ok (unat nu) s' (al(unat u \<mapsto> (k, w)))"
    by (elim exE conjE)
  show "buddy_allocate units w s = (Inr None, s) \<and> (\<forall>u. \<not> fits al (unat nu) u k)
      \<or> (\<exists>u s'. buddy_allocate units w s = (Inr (Some (u, of_nat k)), s') \<and> fits al (unat nu) (unat u) k
            \<and> buddy_ok (unat nu) s' (al(unat u \<mapsto> (k, w))))"
  proof (cases r)
    case None
    then show ?thesis using run q by simp
  next
    case (Some b)
    obtain u ord where "b = (u, ord)" by (cases b)
    then show ?thesis using run q Some by (intro disjI2 exI [of _ u] exI [of _ s']) (simp del: fun_upd_apply)
  qed
next
  fix s :: "'a buddy_heap_scheme" and al k w and u :: u32
  assume "buddy_ok (unat nu) s al" "al (unat u) = Some (k, w)"
  from wp_exists_unit [OF buddy_free_ok [OF this refl]]
  show "\<exists>s'. buddy_free u (of_nat k) nu s = (Inr (), s') \<and> buddy_ok (unat nu) s' (al(unat u := None))"
    by (elim exE conjE) (intro exI conjI)
qed

section \<open>Any sequence of calls\<close>

text \<open>
  \<open>al\<close> is the record of what the calls returned: a successful allocation enters its block, and only a block
  that is entered is freed. The metadata in DRAM is arbitrary before the cold start.
\<close>

inductive heap_reach :: "u32 \<Rightarrow> buddy_heap \<Rightarrow> block_map \<Rightarrow> bool" for nu where
  heap_cold: "length (bh_blocks s) = unat nu \<Longrightarrow> buddy_cold_start nu s = (Inr (), s') \<Longrightarrow>
    heap_reach nu s' Map.empty"
| heap_alloc: "heap_reach nu s al \<Longrightarrow> unat units \<le> 2 ^ 31 \<Longrightarrow> owner \<noteq> kHeapBlockFree \<Longrightarrow>
    buddy_allocate units owner s = (Inr (Some (u, ord)), s') \<Longrightarrow>
    heap_reach nu s' (al(unat u \<mapsto> (unat ord, owner)))"
| heap_alloc_fails: "heap_reach nu s al \<Longrightarrow> unat units \<le> 2 ^ 31 \<Longrightarrow> owner \<noteq> kHeapBlockFree \<Longrightarrow>
    buddy_allocate units owner s = (Inr None, s') \<Longrightarrow> heap_reach nu s' al"
| heap_free: "heap_reach nu s al \<Longrightarrow> al (unat u) = Some (unat ord, owner) \<Longrightarrow>
    buddy_free u ord nu s = (Inr (), s') \<Longrightarrow> heap_reach nu s' (al(unat u := None))"

lemma order_fits_exists: "unat (units :: u32) \<le> 2 ^ 31 \<Longrightarrow> \<exists>k \<le> 31. order_fits (unat units) k"
  using buddy_order_loop_ok [of 1 0 units] by auto

lemma heap_reach_ok:
  assumes "heap_reach nu s al" and "num_units_ok nu"
  shows "buddy_ok (unat nu) s al"
  using assms
proof (induction rule: heap_reach.induct)
  case (heap_cold s s')
  then show ?case
    using wp_exists [OF buddy_cold_start_ok [of nu "unat nu" s]] by (auto simp: num_units_ok_def)
next
  case (heap_alloc s al units owner u ord s')
  then obtain k where k: "k \<le> 31" "order_fits (unat units) k" using order_fits_exists by blast
  have ord: "ord = of_nat k" and ok: "buddy_ok (unat nu) s' (al(unat u \<mapsto> (k, owner)))"
    using buddy.alloc_block [OF heap_alloc.IH [OF heap_alloc.prems] heap_alloc.hyps(2) k(2) heap_alloc.hyps(3)] heap_alloc.hyps(4) by auto
  have "unat ord = k" using k(1) by (simp add: ord)
  then show ?case using ok by (simp only:)
next
  case (heap_alloc_fails s al units owner s')
  then obtain k where k: "order_fits (unat units) k" using order_fits_exists by blast
  show ?case
    using buddy.alloc_block [OF heap_alloc_fails.IH [OF heap_alloc_fails.prems] heap_alloc_fails.hyps(2) k heap_alloc_fails.hyps(3)]
      heap_alloc_fails.hyps(4) heap_alloc_fails.IH [OF heap_alloc_fails.prems] by auto
next
  case (heap_free s al u ord owner s')
  have "\<exists>s'. buddy_free u (of_nat (unat ord)) nu s = (Inr (), s') \<and> buddy_ok (unat nu) s' (al(unat u := None))"
    by (rule buddy.free_block [OF heap_free.IH [OF heap_free.prems] heap_free.hyps(2)])
  then show ?case using heap_free.hyps(3) by (simp del: fun_upd_apply)
qed

text \<open>
  C6: The buddy allocator of the value heap is safe and complete over any sequence of allocations and frees,
  for any number of units (not only powers of two) and whatever the uninitialised metadata in DRAM holds: blocks
  that are out are aligned, lie in the heap and do not overlap; no assertion fails, neither in an allocation
  nor in a free of a block that is out; and an allocation fails exactly when no aligned block of the least
  sufficient order is free, so that freeing merges everything that can be merged.
\<close>

theorem buddy_heap_safe:
  assumes reach: "heap_reach nu s al" and nu: "num_units_ok nu"
    and units: "unat units \<le> 2 ^ 31" "order_fits (unat units) k" and owner: "owner \<noteq> kHeapBlockFree"
  shows "(\<forall>u v i j w x. al u = Some (i, w) \<longrightarrow>
            2 ^ i dvd u \<and> u + 2 ^ i \<le> unat nu \<and>
            (al v = Some (j, x) \<longrightarrow> u \<noteq> v \<longrightarrow> (\<forall>y. in_block u i y \<longrightarrow> \<not> in_block v j y)))
    \<and> (\<forall>u i w. al (unat u) = Some (i, w) \<longrightarrow> (\<exists>s'. buddy_free u (of_nat i) nu s = (Inr (), s')))
    \<and> (if \<exists>v. fits al (unat nu) v k
       then \<exists>u s'. buddy_allocate units owner s = (Inr (Some (u, of_nat k)), s') \<and> fits al (unat nu) (unat u) k
       else buddy_allocate units owner s = (Inr None, s))"
proof -
  have ok: "buddy_ok (unat nu) s al" by (rule heap_reach_ok [OF reach nu])
  have "if \<exists>v. fits al (unat nu) v k
       then \<exists>u s'. buddy_allocate units owner s = (Inr (Some (u, of_nat k)), s') \<and> fits al (unat nu) (unat u) k
       else buddy_allocate units owner s = (Inr None, s)"
    using buddy.alloc_block [OF ok units owner] by auto
  moreover have "\<exists>s'. buddy_free u (of_nat i) nu s = (Inr (), s')" if "al (unat u) = Some (i, w)" for u i w
    using buddy.free_block [OF ok that] by blast
  ultimately show ?thesis using buddy.block_inside [OF ok] buddy.blocks_apart [OF ok] by blast
qed

text \<open>Three units of a heap whose metadata is garbage: two units are free, so that a request for two succeeds.\<close>

theorem buddy_heap_safe_witness:
  "\<exists>u s'. buddy_allocate 2 0 (snd (buddy_cold_start 3 \<lparr>bh_blocks = replicate 3 \<lparr>hb_state = kHeapBlockFree,
       hb_order = 0, hb_next = 7, hb_prev = 7\<rparr>, bh_heads = [], bh_max_order = 9\<rparr>)) = (Inr (Some (u, 1)), s')
     \<and> fits Map.empty 3 (unat u) 1"
proof -
  let ?g = "\<lparr>bh_blocks = replicate 3 \<lparr>hb_state = kHeapBlockFree, hb_order = 0, hb_next = 7, hb_prev = 7\<rparr>,
     bh_heads = [], bh_max_order = 9\<rparr>"
  have nu: "num_units_ok 3" by (simp add: num_units_ok_def)
  obtain s' where s': "buddy_cold_start 3 ?g = (Inr (), s')"
    using wp_exists [OF buddy_cold_start_ok [of 3 3 ?g]] by auto
  have r: "heap_reach 3 s' Map.empty" by (rule heap_cold [OF _ s']) simp
  have k: "unat (2 :: u32) \<le> 2 ^ 31" "order_fits (unat (2 :: u32)) 1" "(0 :: u32) \<noteq> kHeapBlockFree"
    by (simp_all add: order_fits_def kHeapBlockFree_def)
  have "fits Map.empty (unat (3 :: u32)) 0 1" by (simp add: fits_def)
  then have "\<exists>v. fits Map.empty (unat (3 :: u32)) v 1" by blast
  then obtain u s'' where "buddy_allocate 2 0 s' = (Inr (Some (u, of_nat 1)), s'')" "fits Map.empty (unat (3 :: u32)) (unat u) 1"
    using buddy_heap_safe [OF r nu k] by (simp only: if_True) blast
  then show ?thesis using s' by simp
qed

end
