(* ===== verification/Hash_Index.thy ===== *)
theory Hash_Index
  imports Protocol
begin

unbundle bit_operations_syntax

text \<open>
  The hash index of the device's directory: \<^verbatim>\<open>fnv1a_hash\<close>, \<^verbatim>\<open>hashmap_lookup\<close>, \<^verbatim>\<open>hashmap_insert\<close> and
  \<^verbatim>\<open>hashmap_delete\<close> of \<^verbatim>\<open>dram_worker_kernel.cpp\<close>, an open-addressed table with linear probing and
  backward-shift deletion. A bucket is one page of DRAM and the table is the list of its pages. Every
  candidate of a lookup is checked against the directory entry. A read is one page and a write is fenced by
  a read of the same page, so that both are single steps of the model.
\<close>

section \<open>Directory entries and buckets\<close>

record dir_entry =
  e_valid :: u32
  e_key_len :: u32
  e_total_len :: u32
  e_last_access :: u32
  e_value_off :: u32
  e_host_generation :: u32
  e_location :: u32
  e_block_order :: u32
  e_key :: "byte list"

record bucket =
  bk_key_hash :: u32
  bk_dir_slot :: u32

definition kBucketDirSlotEmpty :: u32 where
  "kBucketDirSlotEmpty = 0xFFFFFFFF"

definition kBucketDirSlotTombstone :: u32 where
  "kBucketDirSlotTombstone = 0xFFFFFFFE"

text \<open>The first \<open>len\<close> bytes of two regions. Both regions are longer than any length in the source.\<close>

fun key_equals :: "byte list \<Rightarrow> byte list \<Rightarrow> nat \<Rightarrow> bool" where
  "key_equals a b 0 = True"
| "key_equals (x # a) (y # b) (Suc n) = (if x \<noteq> y then False else key_equals a b n)"
| "key_equals a b (Suc n) = False"

fun fnv1a_loop :: "u32 \<Rightarrow> byte list \<Rightarrow> u32" where
  "fnv1a_loop h [] = h"
| "fnv1a_loop h (b # bs) = fnv1a_loop ((h XOR ucast b) * 16777619) bs"

definition fnv1a_hash :: "byte list \<Rightarrow> u32 \<Rightarrow> u32" where
  "fnv1a_hash key len = fnv1a_loop 2166136261 (take (unat len) key)"

section \<open>The operations\<close>

text \<open>The counter of each loop runs down where the source's runs up to \<open>num_buckets\<close>.\<close>

fun lookup_probe :: "nat \<Rightarrow> u32 \<Rightarrow> u32 \<Rightarrow> byte list \<Rightarrow> u32 \<Rightarrow> u32 \<Rightarrow> bucket list \<Rightarrow> dir_entry list \<Rightarrow> u32" where
  "lookup_probe 0 idx key_hash key key_len msk tbl dir = kBucketDirSlotEmpty"
| "lookup_probe (Suc n) idx key_hash key key_len msk tbl dir =
     (let bkt = tbl ! unat idx; slot = bk_dir_slot bkt
      in if slot = kBucketDirSlotEmpty then kBucketDirSlotEmpty
         else if slot \<noteq> kBucketDirSlotTombstone \<and> bk_key_hash bkt = key_hash
              \<and> (let e = dir ! unat slot
                 in e_valid e = 1 \<and> e_key_len e = key_len \<and> key_equals (e_key e) key (unat key_len))
         then slot
         else lookup_probe n ((idx + 1) AND msk) key_hash key key_len msk tbl dir)"

definition hashmap_lookup :: "u32 \<Rightarrow> byte list \<Rightarrow> u32 \<Rightarrow> u32 \<Rightarrow> bucket list \<Rightarrow> dir_entry list \<Rightarrow> u32" where
  "hashmap_lookup key_hash key key_len num_buckets tbl dir =
     (let msk = num_buckets - 1
      in lookup_probe (unat num_buckets) (key_hash AND msk) key_hash key key_len msk tbl dir)"

fun insert_probe :: "nat \<Rightarrow> u32 \<Rightarrow> u32 \<Rightarrow> u32 \<Rightarrow> u32 \<Rightarrow> bucket list \<Rightarrow> fault + bucket list" where
  "insert_probe 0 idx key_hash slot msk tbl = Inl (Fatal ''hash index full'')"
| "insert_probe (Suc n) idx key_hash slot msk tbl =
     (let cur = bk_dir_slot (tbl ! unat idx)
      in if cur = kBucketDirSlotEmpty \<or> cur = kBucketDirSlotTombstone
         then Inr (tbl[unat idx := \<lparr>bk_key_hash = key_hash, bk_dir_slot = slot\<rparr>])
         else insert_probe n ((idx + 1) AND msk) key_hash slot msk tbl)"

definition hashmap_insert :: "u32 \<Rightarrow> u32 \<Rightarrow> u32 \<Rightarrow> bucket list \<Rightarrow> fault + bucket list" where
  "hashmap_insert key_hash slot num_buckets tbl =
     (let msk = num_buckets - 1
      in insert_probe (unat num_buckets) (key_hash AND msk) key_hash slot msk tbl)"

fun delete_find :: "nat \<Rightarrow> u32 \<Rightarrow> u32 \<Rightarrow> u32 \<Rightarrow> u32 \<Rightarrow> bucket list \<Rightarrow> u32 option" where
  "delete_find 0 hole key_hash target_slot msk tbl = None"
| "delete_find (Suc n) hole key_hash target_slot msk tbl =
     (let bkt = tbl ! unat hole; cur = bk_dir_slot bkt
      in if cur = kBucketDirSlotEmpty then None
         else if cur = target_slot \<and> bk_key_hash bkt = key_hash then Some hole
         else delete_find n ((hole + 1) AND msk) key_hash target_slot msk tbl)"

text \<open>
  The backward shift. \<open>bkt\<close> is the staged page, the last one read; the loop returns the final hole, the
  staged page and the table.
\<close>

fun shift_back :: "nat \<Rightarrow> u32 \<Rightarrow> u32 \<Rightarrow> u32 \<Rightarrow> bucket \<Rightarrow> bucket list \<Rightarrow> u32 \<times> bucket \<times> bucket list" where
  "shift_back 0 msk hole j bkt tbl = (hole, bkt, tbl)"
| "shift_back (Suc n) msk hole j bkt tbl =
     (let j = (j + 1) AND msk; bkt = tbl ! unat j
      in if bk_dir_slot bkt = kBucketDirSlotEmpty then (hole, bkt, tbl)
         else let home = bk_key_hash bkt AND msk;
                  can_move = (if hole \<le> j then home \<le> hole \<or> home > j else home \<le> hole \<and> home > j)
              in if can_move then shift_back n msk j j bkt (tbl[unat hole := bkt])
                 else shift_back n msk hole j bkt tbl)"

definition hashmap_delete :: "u32 \<Rightarrow> u32 \<Rightarrow> u32 \<Rightarrow> bucket list \<Rightarrow> bucket list" where
  "hashmap_delete key_hash target_slot num_buckets tbl =
     (let msk = num_buckets - 1
      in case delete_find (unat num_buckets) (key_hash AND msk) key_hash target_slot msk tbl of
           None \<Rightarrow> tbl
         | Some hole \<Rightarrow>
             let (hole, bkt, tbl) = shift_back (unat num_buckets) msk hole hole (tbl ! unat hole) tbl
             in tbl[unat hole := bkt\<lparr>bk_dir_slot := kBucketDirSlotEmpty\<rparr>])"

text \<open>The cold start writes every bucket empty.\<close>

definition hash_cold_start :: "u32 \<Rightarrow> bucket list" where
  "hash_cold_start num_buckets =
     replicate (unat num_buckets) \<lparr>bk_key_hash = 0, bk_dir_slot = kBucketDirSlotEmpty\<rparr>"

section \<open>What the index promises\<close>

text \<open>
  The content of the index is the multiset of its pairs of hash and slot. A table is well formed when it has
  room for another bucket, holds no deletion marker, and every pair is reached from its home without an empty
  bucket on the way.
\<close>

abbreviation bk_empty :: "bucket \<Rightarrow> bool" where
  "bk_empty b \<equiv> bk_dir_slot b = kBucketDirSlotEmpty"

abbreviation bk_pair :: "bucket \<Rightarrow> u32 \<times> u32" where
  "bk_pair b \<equiv> (bk_key_hash b, bk_dir_slot b)"

definition index_pairs :: "bucket list \<Rightarrow> (u32 \<times> u32) multiset" where
  "index_pairs t = image_mset bk_pair (filter_mset (\<lambda>b. \<not> bk_empty b) (mset t))"

definition bk_home :: "nat \<Rightarrow> bucket \<Rightarrow> nat" where
  "bk_home n b = unat (bk_key_hash b) mod n"

text \<open>The number of steps from \<open>a\<close> forward to \<open>b\<close> around a table of \<open>n\<close> buckets.\<close>

definition cyc :: "nat \<Rightarrow> nat \<Rightarrow> nat \<Rightarrow> nat" where
  "cyc n a b = (if a \<le> b then b - a else b + n - a)"

text \<open>No empty bucket from \<open>a\<close> up to, and not including, \<open>b\<close>.\<close>

definition clear_path :: "bucket list \<Rightarrow> nat \<Rightarrow> nat \<Rightarrow> bool" where
  "clear_path t a b \<longleftrightarrow> (\<forall>i < length t. cyc (length t) a i < cyc (length t) a b \<longrightarrow> \<not> bk_empty (t ! i))"

definition reachable_pairs :: "bucket list \<Rightarrow> bool" where
  "reachable_pairs t \<longleftrightarrow> (\<forall>i < length t. \<not> bk_empty (t ! i) \<longrightarrow> clear_path t (bk_home (length t) (t ! i)) i)"

definition index_ok :: "u32 \<Rightarrow> bucket list \<Rightarrow> bool" where
  "index_ok num_buckets t \<longleftrightarrow> length t = unat num_buckets \<and> (\<exists>k < 32. unat num_buckets = 2 ^ k)
     \<and> size (index_pairs t) < length t \<and> (\<forall>b \<in> set t. bk_dir_slot b \<noteq> kBucketDirSlotTombstone)
     \<and> reachable_pairs t"

definition dir_matches :: "dir_entry list \<Rightarrow> byte list \<Rightarrow> u32 \<Rightarrow> u32 \<Rightarrow> bool" where
  "dir_matches dir key key_len slot \<longleftrightarrow>
     (let e = dir ! unat slot
      in e_valid e = 1 \<and> e_key_len e = key_len \<and> key_equals (e_key e) key (unat key_len))"

section \<open>Going round the table\<close>

lemma cyc_less: "a < n \<Longrightarrow> i < n \<Longrightarrow> cyc n a i < n"
  by (auto simp: cyc_def)

lemma cyc_self [simp]: "cyc n a a = 0"
  by (simp add: cyc_def)

lemma cyc_inj: "a < n \<Longrightarrow> i < n \<Longrightarrow> j < n \<Longrightarrow> cyc n a i = cyc n a j \<Longrightarrow> i = j"
  by (auto simp: cyc_def split: if_splits)

lemma cyc_0: "a < n \<Longrightarrow> i < n \<Longrightarrow> cyc n a i = 0 \<longleftrightarrow> i = a"
  by (auto simp: cyc_def split: if_splits)

lemma mod_Suc_less: "i < n \<Longrightarrow> Suc i mod n = (if Suc i = n then 0 else Suc i)"
  by auto

lemma cyc_Suc: "a < n \<Longrightarrow> i < n \<Longrightarrow> Suc (cyc n a i) < n \<Longrightarrow> cyc n a (Suc i mod n) = Suc (cyc n a i)"
  by (auto simp: cyc_def mod_Suc_less split: if_splits)

lemma cyc_pre: "a < n \<Longrightarrow> e < n \<Longrightarrow> a \<noteq> e \<Longrightarrow> cyc n a e = Suc (cyc n (Suc a mod n) e)"
  by (auto simp: cyc_def mod_Suc_less split: if_splits)

lemma cyc_between:
  "h < n \<Longrightarrow> p < n \<Longrightarrow> q < n \<Longrightarrow> i < n \<Longrightarrow> cyc n h p < cyc n h i \<Longrightarrow> cyc n p q < cyc n p i
    \<Longrightarrow> cyc n h q < cyc n h i"
  by (auto simp: cyc_def split: if_splits)

lemma cyc_order: "h < n \<Longrightarrow> p < n \<Longrightarrow> i < n \<Longrightarrow> p \<noteq> i \<Longrightarrow>
    \<not> cyc n h p < cyc n h i \<longleftrightarrow> (if p \<le> i then p < h \<and> h \<le> i else p < h \<or> h \<le> i)"
  by (auto simp: cyc_def split: if_splits)

lemma unat_next_bucket:
  assumes "unat (nb :: u32) = 2 ^ k" and "unat idx < unat nb"
  shows "unat ((idx + 1) AND (nb - 1)) = Suc (unat idx) mod unat nb"
proof -
  have "unat idx + 1 < 4294967296" using assms(2) unat_less_4G [of nb] by linarith
  then have "unat (idx + 1) = Suc (unat idx)" by (simp add: unat_word_ariths)
  then show ?thesis by (simp add: unat_and_mask [OF assms(1)])
qed

section \<open>Lookup\<close>

lemma lookup_probe_sound:
  assumes "unat nb = 2 ^ k" and "unat idx < unat nb"
    and "lookup_probe f idx hsh key len (nb - 1) t dir \<noteq> kBucketDirSlotEmpty"
  shows "\<exists>i < unat nb. bk_pair (t ! i) = (hsh, lookup_probe f idx hsh key len (nb - 1) t dir)
           \<and> dir_matches dir key len (lookup_probe f idx hsh key len (nb - 1) t dir)"
  using assms(2,3)
proof (induction f arbitrary: idx)
  case 0
  then show ?case by simp
next
  case (Suc f)
  have nx: "unat ((idx + 1) AND (nb - 1)) < unat nb"
    using unat_next_bucket [OF assms(1) Suc.prems(1)] Suc.prems(1) by simp
  show ?case
    using Suc.prems Suc.IH [OF nx] by (auto simp: Let_def dir_matches_def split: if_splits)
qed

lemma lookup_probe_complete:
  assumes nb: "unat nb = 2 ^ k" and n: "length t = unat nb" and "i < unat nb" and h: "h < unat nb"
    and pair: "bk_pair (t ! i) = (hsh, s)" "s \<noteq> kBucketDirSlotEmpty" "s \<noteq> kBucketDirSlotTombstone"
    and m: "dir_matches dir key len s" and clear: "clear_path t h i"
    and "unat idx < unat nb" and "cyc (unat nb) h (unat idx) \<le> cyc (unat nb) h i"
    and "f + cyc (unat nb) h (unat idx) = unat nb"
    and slots: "\<forall>b \<in> set t. bk_dir_slot b \<noteq> kBucketDirSlotTombstone"
  shows "lookup_probe f idx hsh key len (nb - 1) t dir \<noteq> kBucketDirSlotEmpty"
  using assms(10-12)
proof (induction f arbitrary: idx)
  case 0
  then show ?case using cyc_less [OF h 0(1)] by simp
next
  case (Suc f)
  show ?case
  proof (cases "unat idx = i")
    case True
    then show ?thesis using pair m by (simp add: Let_def dir_matches_def)
  next
    case False
    then have lt: "cyc (unat nb) h (unat idx) < cyc (unat nb) h i"
      using Suc.prems cyc_inj [OF h Suc.prems(1) \<open>i < unat nb\<close>] by fastforce
    then have ne: "bk_dir_slot (t ! unat idx) \<noteq> kBucketDirSlotEmpty"
      using clear Suc.prems(1) by (simp add: clear_path_def n)
    have step: "cyc (unat nb) h (unat ((idx + 1) AND (nb - 1))) = Suc (cyc (unat nb) h (unat idx))"
      using lt cyc_less [OF h \<open>i < unat nb\<close>] unat_next_bucket [OF nb Suc.prems(1)]
      by (simp add: cyc_Suc [OF h Suc.prems(1)])
    have nx: "unat ((idx + 1) AND (nb - 1)) < unat nb"
      using unat_next_bucket [OF nb Suc.prems(1)] Suc.prems(1) by simp
    show ?thesis
      using ne Suc.IH [OF nx] lt step Suc.prems(3) by (auto simp: Let_def)
  qed
qed

lemma index_pairs_iff:
  "(hsh, s) \<in># index_pairs t \<longleftrightarrow> s \<noteq> kBucketDirSlotEmpty \<and> (\<exists>i < length t. bk_pair (t ! i) = (hsh, s))"
  by (auto simp: index_pairs_def in_set_conv_nth image_iff)

text \<open>A lookup finds a slot exactly when the index has a pair whose entry matches the key.\<close>

lemma hashmap_lookup_cases:
  assumes "index_ok nb t"
  shows "(hashmap_lookup hsh key len nb t dir = kBucketDirSlotEmpty
           \<and> (\<forall>s. (hsh, s) \<in># index_pairs t \<longrightarrow> \<not> dir_matches dir key len s))
       \<or> ((hsh, hashmap_lookup hsh key len nb t dir) \<in># index_pairs t
           \<and> dir_matches dir key len (hashmap_lookup hsh key len nb t dir))"
proof -
  obtain k where nb: "unat nb = 2 ^ k" and n: "length t = unat nb"
    and slots: "\<forall>b \<in> set t. bk_dir_slot b \<noteq> kBucketDirSlotTombstone" and r: "reachable_pairs t"
    using assms by (auto simp: index_ok_def)
  have home: "unat (hsh AND (nb - 1)) = unat hsh mod unat nb" by (rule unat_and_mask [OF nb])
  have lt: "unat hsh mod unat nb < unat nb" using nb by simp
  show ?thesis
  proof (cases "hashmap_lookup hsh key len nb t dir = kBucketDirSlotEmpty")
    case False
    have "\<exists>i < unat nb. bk_pair (t ! i) = (hsh, hashmap_lookup hsh key len nb t dir)
            \<and> dir_matches dir key len (hashmap_lookup hsh key len nb t dir)"
      unfolding hashmap_lookup_def Let_def
      by (rule lookup_probe_sound [OF nb]) (use False home lt in \<open>simp_all add: hashmap_lookup_def Let_def\<close>)
    then show ?thesis using False by (simp add: index_pairs_iff n) blast
  next
    case True
    have "\<not> dir_matches dir key len s" if pr: "(hsh, s) \<in># index_pairs t" for s
    proof
      assume m: "dir_matches dir key len s"
      obtain i where i: "i < unat nb" "bk_pair (t ! i) = (hsh, s)" and s: "s \<noteq> kBucketDirSlotEmpty"
        using pr unfolding index_pairs_iff n by blast
      have "clear_path t (unat hsh mod unat nb) i"
        using r i s by (auto simp: reachable_pairs_def bk_home_def n)
      moreover have "s \<noteq> kBucketDirSlotTombstone" using slots i n by (metis nth_mem prod.inject)
      ultimately show False
        using True lookup_probe_complete [OF nb n i(1) lt i(2) s _ m, of "hsh AND (nb - 1)" "unat nb"] home lt slots
        by (simp add: hashmap_lookup_def Let_def)
    qed
    then show ?thesis using True by blast
  qed
qed

section \<open>Insertion\<close>

lemma index_pairs_update:
  assumes "i < length t"
  shows "index_pairs (t[i := b]) =
    (if bk_empty b then {#} else {#bk_pair b#}) + (index_pairs t - (if bk_empty (t ! i) then {#} else {#bk_pair (t ! i)#}))"
proof -
  have "t ! i \<in># mset t" using assms by simp
  then obtain M where M: "mset t = add_mset (t ! i) M" by (metis mset_add)
  then show ?thesis using assms by (simp add: index_pairs_def mset_update)
qed

lemma size_index_pairs_le: "size (index_pairs t) \<le> length t"
  by (simp add: index_pairs_def size_filter_mset_lesseq flip: size_mset)

lemma has_empty_bucket:
  assumes "size (index_pairs t) < length t"
  shows "\<exists>i < length t. bk_empty (t ! i)"
proof (rule ccontr)
  assume "\<not> ?thesis"
  then have "filter_mset (\<lambda>b. \<not> bk_empty b) (mset t) = mset t"
    by (auto simp: in_set_conv_nth intro!: filter_mset_eq_conv [THEN iffD2])
  then show False using assms by (simp add: index_pairs_def)
qed

text \<open>A probe that starts at \<open>h\<close> finds the first empty bucket.\<close>

lemma insert_probe_finds:
  assumes nb: "unat nb = 2 ^ k" and n: "length t = unat nb" and e: "e < unat nb" "bk_empty (t ! e)"
    and h: "h < unat nb" and "unat idx < unat nb" and "clear_path t h (unat idx)"
    and "f + cyc (unat nb) h (unat idx) = unat nb"
    and slots: "\<forall>b \<in> set t. bk_dir_slot b \<noteq> kBucketDirSlotTombstone"
  shows "\<exists>i < unat nb. bk_empty (t ! i) \<and> clear_path t h i
           \<and> insert_probe f idx hsh s (nb - 1) t = Inr (t[i := \<lparr>bk_key_hash = hsh, bk_dir_slot = s\<rparr>])"
  using assms(6-8)
proof (induction f arbitrary: idx)
  case 0
  then show ?case using cyc_less [OF h 0(1)] by simp
next
  case (Suc f)
  have tomb: "bk_dir_slot (t ! unat idx) \<noteq> kBucketDirSlotTombstone" using slots Suc.prems(1) n by simp
  show ?case
  proof (cases "bk_empty (t ! unat idx)")
    case True
    then show ?thesis using Suc.prems by (auto simp: Let_def)
  next
    case False
    have clear: "\<not> bk_empty (t ! i)" if "i < unat nb" "cyc (unat nb) h i \<le> cyc (unat nb) h (unat idx)" for i
      using that False Suc.prems(2) cyc_inj [OF h that(1) Suc.prems(1)]
      by (auto simp: clear_path_def n le_less)
    then have "cyc (unat nb) h (unat idx) < cyc (unat nb) h e" using e by (meson not_le)
    then have step: "cyc (unat nb) h (unat ((idx + 1) AND (nb - 1))) = Suc (cyc (unat nb) h (unat idx))"
      using cyc_less [OF h e(1)] unat_next_bucket [OF nb Suc.prems(1)] by (simp add: cyc_Suc [OF h Suc.prems(1)])
    have nx: "unat ((idx + 1) AND (nb - 1)) < unat nb"
      using unat_next_bucket [OF nb Suc.prems(1)] Suc.prems(1) by simp
    have "clear_path t h (unat ((idx + 1) AND (nb - 1)))"
      using clear step by (simp add: clear_path_def n less_Suc_eq_le)
    then show ?thesis using Suc.IH [OF nx] step Suc.prems(3) False tomb by (simp add: Let_def)
  qed
qed

lemma clear_path_fill:
  assumes "clear_path t a b" and "\<not> bk_empty x"
  shows "clear_path (t[i := x]) a b"
proof -
  have "\<not> bk_empty (t[i := x] ! j)" if "j < length t" "\<not> bk_empty (t ! j)" for j
    using that assms(2) by (cases "i = j") simp_all
  then show ?thesis using assms(1) by (simp add: clear_path_def)
qed

lemma reachable_fill:
  assumes "reachable_pairs t" and "i < length t" and "\<not> bk_empty x" and "clear_path t (bk_home (length t) x) i"
  shows "reachable_pairs (t[i := x])"
  using assms by (auto simp: reachable_pairs_def nth_list_update intro: clear_path_fill)

text \<open>An insertion below the load limit never asserts, and adds its pair.\<close>

lemma hashmap_insert_ok:
  assumes "index_ok nb t" and room: "Suc (size (index_pairs t)) < unat nb"
    and s: "s \<noteq> kBucketDirSlotEmpty" "s \<noteq> kBucketDirSlotTombstone"
  shows "\<exists>t'. hashmap_insert hsh s nb t = Inr t' \<and> index_ok nb t' \<and> index_pairs t' = add_mset (hsh, s) (index_pairs t)"
proof -
  obtain k where nb: "unat nb = 2 ^ k" "k < 32" and n: "length t = unat nb"
    and slots: "\<forall>b \<in> set t. bk_dir_slot b \<noteq> kBucketDirSlotTombstone" and r: "reachable_pairs t"
    using assms(1) by (auto simp: index_ok_def)
  obtain e where e: "e < unat nb" "bk_empty (t ! e)" using has_empty_bucket [of t] room n by auto
  have home: "unat (hsh AND (nb - 1)) = unat hsh mod unat nb" by (rule unat_and_mask [OF nb(1)])
  have lt: "unat hsh mod unat nb < unat nb" using nb by simp
  let ?b = "\<lparr>bk_key_hash = hsh, bk_dir_slot = s\<rparr>"
  obtain i where i: "i < unat nb" "bk_empty (t ! i)" "clear_path t (unat hsh mod unat nb) i"
    and eq: "hashmap_insert hsh s nb t = Inr (t[i := ?b])"
    using insert_probe_finds [OF nb(1) n e lt, of "hsh AND (nb - 1)" "unat nb" hsh s] home lt slots
    by (auto simp: hashmap_insert_def Let_def clear_path_def)
  have pairs: "index_pairs (t[i := ?b]) = add_mset (hsh, s) (index_pairs t)"
    using i s n by (simp add: index_pairs_update)
  have "reachable_pairs (t[i := ?b])"
    using i s n by (intro reachable_fill [OF r]) (simp_all add: bk_home_def)
  moreover have "\<forall>b \<in> set (t[i := ?b]). bk_dir_slot b \<noteq> kBucketDirSlotTombstone"
    using slots s by (auto dest!: set_update_subset_insert [THEN subsetD])
  ultimately have "index_ok nb (t[i := ?b])" using nb n room by (auto simp: index_ok_def pairs)
  then show ?thesis using eq pairs by blast
qed

section \<open>Deletion\<close>

text \<open>The search either proves the pair absent or finds its first bucket.\<close>

lemma delete_find_Some:
  assumes "unat nb = 2 ^ k" and "unat idx < unat nb" and "delete_find f idx hsh s (nb - 1) t = Some p"
  shows "unat p < unat nb \<and> \<not> bk_empty (t ! unat p) \<and> bk_pair (t ! unat p) = (hsh, s)"
  using assms(2,3)
proof (induction f arbitrary: idx)
  case 0
  then show ?case by simp
next
  case (Suc f)
  have nx: "unat ((idx + 1) AND (nb - 1)) < unat nb"
    using unat_next_bucket [OF assms(1) Suc.prems(1)] Suc.prems(1) by simp
  show ?case using Suc.prems Suc.IH [OF nx] by (auto simp: Let_def split: if_splits)
qed

lemma delete_find_None:
  assumes nb: "unat nb = 2 ^ k" and n: "length t = unat nb" and i: "i < unat nb" and h: "h < unat nb"
    and pair: "\<not> bk_empty (t ! i)" "bk_pair (t ! i) = (hsh, s)" and clear: "clear_path t h i"
    and "unat idx < unat nb" and "cyc (unat nb) h (unat idx) \<le> cyc (unat nb) h i"
    and "f + cyc (unat nb) h (unat idx) = unat nb"
  shows "delete_find f idx hsh s (nb - 1) t \<noteq> None"
  using assms(8-10)
proof (induction f arbitrary: idx)
  case 0
  then show ?case using cyc_less [OF h 0(1)] by simp
next
  case (Suc f)
  show ?case
  proof (cases "unat idx = i")
    case True
    then show ?thesis using pair by (simp add: Let_def)
  next
    case False
    then have lt: "cyc (unat nb) h (unat idx) < cyc (unat nb) h i"
      using Suc.prems cyc_inj [OF h Suc.prems(1) i] by fastforce
    then have ne: "\<not> bk_empty (t ! unat idx)" using clear Suc.prems(1) by (simp add: clear_path_def n)
    have step: "cyc (unat nb) h (unat ((idx + 1) AND (nb - 1))) = Suc (cyc (unat nb) h (unat idx))"
      using lt cyc_less [OF h i] unat_next_bucket [OF nb Suc.prems(1)] by (simp add: cyc_Suc [OF h Suc.prems(1)])
    have nx: "unat ((idx + 1) AND (nb - 1)) < unat nb"
      using unat_next_bucket [OF nb Suc.prems(1)] Suc.prems(1) by simp
    show ?thesis using ne Suc.IH [OF nx] lt step Suc.prems(3) by (auto simp: Let_def)
  qed
qed

text \<open>
  The invariant of the backward shift with its hole at \<open>p\<close> and the scan at \<open>j\<close>: every bucket from the hole
  to the scan is in use (the hole still holds a stale copy), every pair but the stale one is reached from its
  home when the hole counts as in use, and no pair that has been scanned needs the hole to be reached.
\<close>

definition shift_inv :: "bucket list \<Rightarrow> nat \<Rightarrow> nat \<Rightarrow> bool" where
  "shift_inv t p j \<longleftrightarrow> p < length t \<and> j < length t
     \<and> (\<forall>i < length t. cyc (length t) p i \<le> cyc (length t) p j \<longrightarrow> \<not> bk_empty (t ! i))
     \<and> (\<forall>i < length t. i \<noteq> p \<and> \<not> bk_empty (t ! i) \<longrightarrow> clear_path t (bk_home (length t) (t ! i)) i)
     \<and> (\<forall>i < length t. i \<noteq> p \<and> cyc (length t) p i \<le> cyc (length t) p j \<longrightarrow>
          \<not> cyc (length t) (bk_home (length t) (t ! i)) p < cyc (length t) (bk_home (length t) (t ! i)) i)"

lemma shift_inv_start:
  assumes "reachable_pairs t" and "p < length t" and "\<not> bk_empty (t ! p)"
  shows "shift_inv t p p"
proof -
  have "i = p" if "i < length t" "cyc (length t) p i \<le> cyc (length t) p p" for i
    using that assms(2) by (simp add: cyc_0)
  then show ?thesis using assms by (auto simp: shift_inv_def reachable_pairs_def)
qed

lemma bk_home_less: "0 < n \<Longrightarrow> bk_home n b < n"
  by (simp add: bk_home_def)

lemma shift_inv_end:
  assumes inv: "shift_inv t p j" and j': "j' = Suc j mod length t" and e: "bk_empty (t ! j')" and x: "bk_empty x"
  shows "reachable_pairs (t[p := x])"
  unfolding reachable_pairs_def
proof (intro allI impI)
  let ?n = "length t"
  fix i assume i: "i < length (t[p := x])" and used: "\<not> bk_empty (t[p := x] ! i)"
  have p: "p < ?n" and j: "j < ?n" using inv by (simp_all add: shift_inv_def)
  then have n0: "0 < ?n" by linarith
  have ip: "i \<noteq> p" using used x p by auto
  have i': "i < ?n" using i by simp
  have ti: "t[p := x] ! i = t ! i" and u: "\<not> bk_empty (t ! i)" using used ip by simp_all
  let ?h = "bk_home ?n (t ! i)"
  have h: "?h < ?n" by (rule bk_home_less [OF n0])
  have cl: "clear_path t ?h i" using inv i' ip u by (auto simp: shift_inv_def)
  have j'n: "j' < ?n" using n0 by (simp add: j')
  have no: "\<not> cyc ?n ?h p < cyc ?n ?h i"
  proof
    assume on: "cyc ?n ?h p < cyc ?n ?h i"
    have "\<not> cyc ?n p i \<le> cyc ?n p j" using inv i' ip on by (auto simp: shift_inv_def)
    moreover have "i \<noteq> j'" using u e by auto
    ultimately have "cyc ?n p j' < cyc ?n p i"
      using p j i' j'n j' by (auto simp: cyc_def mod_Suc_less split: if_splits)
    then have "cyc ?n ?h j' < cyc ?n ?h i" by (rule cyc_between [OF h p j'n i' on])
    then show False using cl e j'n by (simp add: clear_path_def)
  qed
  have "\<not> bk_empty (t[p := x] ! q)" if "q < ?n" "cyc ?n ?h q < cyc ?n ?h i" for q
    using that no cl by (cases "q = p") (auto simp: clear_path_def)
  then show "clear_path (t[p := x]) (bk_home (length (t[p := x])) (t[p := x] ! i)) i"
    by (simp add: clear_path_def ti)
qed

text \<open>The scan passes a bucket that does not need the hole, and moves one that does.\<close>

lemma shift_inv_scan:
  assumes inv: "shift_inv t p j" and j': "j' = Suc j mod length t" and ne: "\<not> bk_empty (t ! j')" and "p \<noteq> j'"
  shows "\<not> cyc (length t) (bk_home (length t) (t ! j')) p < cyc (length t) (bk_home (length t) (t ! j')) j'
           \<Longrightarrow> shift_inv t p j'"
    and "cyc (length t) (bk_home (length t) (t ! j')) p < cyc (length t) (bk_home (length t) (t ! j')) j'
           \<Longrightarrow> shift_inv (t[p := t ! j']) j' j'"
proof -
  let ?n = "length t"
  let ?h = "bk_home ?n (t ! j')"
  have p: "p < ?n" and j: "j < ?n" using inv by (simp_all add: shift_inv_def)
  then have j'n: "j' < ?n" unfolding j' by (intro mod_less_divisor) linarith
  have seg: "cyc ?n p i \<le> cyc ?n p j \<or> i = j'" if "i < ?n" "cyc ?n p i \<le> cyc ?n p j'" for i
    using that p j j' \<open>p \<noteq> j'\<close> by (auto simp: cyc_def mod_Suc_less split: if_splits)
  show "shift_inv t p j'" if "\<not> cyc ?n ?h p < cyc ?n ?h j'"
    using inv seg j'n ne that unfolding shift_inv_def by blast
  assume on: "cyc ?n ?h p < cyc ?n ?h j'"
  let ?t = "t[p := t ! j']"
  have h: "?h < ?n" using j'n by (intro bk_home_less) linarith
  have cl: "clear_path t ?h j'" using inv j'n ne \<open>p \<noteq> j'\<close> by (auto simp: shift_inv_def)
  have self: "i = j'" if "i < ?n" "cyc ?n j' i \<le> cyc ?n j' j'" for i using that j'n by (simp add: cyc_0)
  have "clear_path ?t (bk_home ?n (?t ! i)) i" if i: "i < ?n" "i \<noteq> j'" "\<not> bk_empty (?t ! i)" for i
  proof (cases "i = p")
    case True
    have "clear_path t ?h p" using cl on by (auto simp: clear_path_def)
    then show ?thesis using True p ne by (simp add: clear_path_fill)
  next
    case False
    then have "clear_path t (bk_home ?n (t ! i)) i" using inv i by (auto simp: shift_inv_def)
    then show ?thesis using False ne by (simp add: clear_path_fill)
  qed
  moreover have "\<not> bk_empty (?t ! j')" using ne \<open>p \<noteq> j'\<close> by simp
  ultimately show "shift_inv ?t j' j'" using self j'n by (auto simp: shift_inv_def)
qed

lemma mset_move_hole:
  assumes "p < length t" "q < length t" "p \<noteq> q"
  shows "mset (t[p := t ! q, q := x]) = mset (t[p := x])"
proof -
  have "mset (t[p := t ! q, q := x]) = add_mset x (add_mset (t ! q) (mset t - {#t ! p#}) - {#t ! q#})"
    using assms by (simp add: mset_update)
  then show ?thesis using assms(1) by (simp add: mset_update)
qed

lemma shift_back_ok:
  assumes nb: "unat nb = 2 ^ k" and "length t = unat nb"
    and "shift_inv t (unat p) (unat j)" and "e < unat nb" "bk_empty (t ! e)"
    and "cyc (unat nb) (unat j) e \<le> f" and "bk_empty x"
    and "shift_back f (nb - 1) p j b t = (p', b', t')"
  shows "length t' = unat nb \<and> unat p' < unat nb \<and> reachable_pairs (t'[unat p' := x])
     \<and> mset (t'[unat p' := x]) = mset (t[unat p := x])"
  using assms(2-)
proof (induction f arbitrary: p j b t)
  case 0
  then have "unat j < unat nb" by (simp add: shift_inv_def)
  then have "unat j = e" using 0 by (simp add: cyc_0)
  then show ?case using 0 by (simp add: shift_inv_def)
next
  case (Suc f)
  let ?n = "unat nb"
  let ?j = "(j + 1) AND (nb - 1)"
  note len = Suc.prems(1)
  have p: "unat p < ?n" and j: "unat j < ?n" and used: "\<not> bk_empty (t ! unat j)"
    and hole_used: "\<not> bk_empty (t ! unat p)"
    using Suc.prems(2) by (auto simp: shift_inv_def len)
  have j': "unat ?j = Suc (unat j) mod length t" using unat_next_bucket [OF nb j] by (simp add: len)
  have j'n: "unat ?j < ?n" using j' j by (simp add: len)
  have je: "unat j \<noteq> e" using used Suc.prems(4) by auto
  show ?case
  proof (cases "bk_empty (t ! unat ?j)")
    case True
    then have "p' = p" "t' = t" using Suc.prems(7) by (simp_all add: Let_def)
    then show ?thesis using shift_inv_end [OF Suc.prems(2) j' True Suc.prems(6)] len p by simp
  next
    case False
    have e': "cyc ?n (unat ?j) e \<le> f"
      using cyc_pre [OF j Suc.prems(3) je] Suc.prems(5) j' by (simp add: len)
    have pj: "unat p \<noteq> unat ?j"
    proof
      assume eq: "unat p = unat ?j"
      then have "cyc ?n (unat p) e \<le> cyc ?n (unat p) (unat j)"
        using p j je Suc.prems(3) j' by (auto simp: cyc_def mod_Suc_less len split: if_splits)
      then show False using Suc.prems(2,3,4) by (auto simp: shift_inv_def len)
    qed
    let ?h = "bk_home (length t) (t ! unat ?j)"
    let ?home = "bk_key_hash (t ! unat ?j) AND (nb - 1)"
    have home: "unat ?home = ?h" by (simp add: bk_home_def unat_and_mask [OF nb] len)
    have h: "?h < ?n" using nb by (simp add: bk_home_def len)
    have can: "(if p \<le> ?j then ?home \<le> p \<or> ?home > ?j else ?home \<le> p \<and> ?home > ?j)
        \<longleftrightarrow> cyc ?n ?h (unat p) < cyc ?n ?h (unat ?j)"
      using cyc_order [OF h p j'n pj] by (auto simp: word_le_nat_alt word_less_nat_alt home)
    note scan = shift_inv_scan [OF Suc.prems(2) j' False pj]
    show ?thesis
    proof (cases "cyc ?n ?h (unat p) < cyc ?n ?h (unat ?j)")
      case True
      let ?t = "t[unat p := t ! unat ?j]"
      have run: "shift_back f (nb - 1) ?j ?j (t ! unat ?j) ?t = (p', b', t')"
        using Suc.prems(7) False can True by (simp add: Let_def)
      have "e \<noteq> unat p" using hole_used Suc.prems(4) by auto
      then have "bk_empty (?t ! e)" using Suc.prems(4) by simp
      moreover have "shift_inv ?t (unat ?j) (unat ?j)" using scan(2) True by (simp add: len)
      ultimately have "length t' = ?n \<and> unat p' < ?n \<and> reachable_pairs (t'[unat p' := x])
          \<and> mset (t'[unat p' := x]) = mset (?t[unat ?j := x])"
        using Suc.IH [OF _ _ Suc.prems(3) _ e' Suc.prems(6) run] by (simp add: len)
      then show ?thesis using mset_move_hole [of "unat p" t "unat ?j" x] p j'n pj len by simp
    next
      case no: False
      have run: "shift_back f (nb - 1) p ?j (t ! unat ?j) t = (p', b', t')"
        using Suc.prems(7) False can no by (simp add: Let_def)
      have "shift_inv t (unat p) (unat ?j)" using scan(1) no by (simp add: len)
      then show ?thesis using Suc.IH [OF len _ Suc.prems(3,4) e' Suc.prems(6) run] by simp
    qed
  qed
qed

text \<open>
  A deletion removes its pair, if it is there, and leaves every other one reachable, without a deletion
  marker.
\<close>

lemma hashmap_delete_ok:
  assumes ok: "index_ok nb t" and s: "s \<noteq> kBucketDirSlotEmpty"
  shows "index_ok nb (hashmap_delete hsh s nb t)
    \<and> index_pairs (hashmap_delete hsh s nb t) = index_pairs t - {#(hsh, s)#}"
proof -
  obtain k where nb: "unat nb = 2 ^ k" "k < 32" and n: "length t = unat nb"
    and slots: "\<forall>b \<in> set t. bk_dir_slot b \<noteq> kBucketDirSlotTombstone" and r: "reachable_pairs t"
    and room: "size (index_pairs t) < length t"
    using ok by (auto simp: index_ok_def)
  have home: "unat (hsh AND (nb - 1)) = unat hsh mod unat nb" by (rule unat_and_mask [OF nb(1)])
  have lt: "unat hsh mod unat nb < unat nb" using nb by simp
  show ?thesis
  proof (cases "delete_find (unat nb) (hsh AND (nb - 1)) hsh s (nb - 1) t")
    case None
    have "(hsh, s) \<notin># index_pairs t"
    proof
      assume "(hsh, s) \<in># index_pairs t"
      then obtain i where i: "i < unat nb" "bk_pair (t ! i) = (hsh, s)" unfolding index_pairs_iff n by blast
      then have "clear_path t (unat hsh mod unat nb) i"
        using r s by (auto simp: reachable_pairs_def bk_home_def n)
      then show False
        using delete_find_None [OF nb(1) n i(1) lt _ i(2), of "hsh AND (nb - 1)" "unat nb"] None home i(2) lt s by simp
    qed
    then show ?thesis using None ok by (simp add: hashmap_delete_def Let_def diff_single_trivial)
  next
    case (Some p)
    have p: "unat p < unat nb" "\<not> bk_empty (t ! unat p)" "bk_pair (t ! unat p) = (hsh, s)"
      using delete_find_Some [OF nb(1) _ Some] home lt s by auto
    obtain p' b' t' where run: "shift_back (unat nb) (nb - 1) p p (t ! unat p) t = (p', b', t')"
      by (metis prod_cases3)
    let ?x = "b'\<lparr>bk_dir_slot := kBucketDirSlotEmpty\<rparr>"
    obtain e where e: "e < unat nb" "bk_empty (t ! e)" using has_empty_bucket [OF room] n by auto
    have "shift_inv t (unat p) (unat p)" using shift_inv_start [OF r] p n by simp
    from shift_back_ok [OF nb(1) n this e less_imp_le [OF cyc_less [OF p(1) e(1)]] _ run, of ?x]
    have fin: "length t' = unat nb" "unat p' < unat nb" "reachable_pairs (t'[unat p' := ?x])"
      "mset (t'[unat p' := ?x]) = mset (t[unat p := ?x])" by simp_all
    have del: "hashmap_delete hsh s nb t = t'[unat p' := ?x]" using Some run by (simp add: hashmap_delete_def Let_def)
    have pairs: "index_pairs (t'[unat p' := ?x]) = index_pairs t - {#(hsh, s)#}"
      using fin(4) index_pairs_update [of "unat p" t ?x] p n by (simp add: index_pairs_def)
    have "set (t'[unat p' := ?x]) = set (t[unat p := ?x])" using fin(4) by (metis set_mset_mset)
    then have "\<forall>b \<in> set (t'[unat p' := ?x]). bk_dir_slot b \<noteq> kBucketDirSlotTombstone"
      using slots by (auto dest!: set_update_subset_insert [THEN subsetD]
          simp: kBucketDirSlotEmpty_def kBucketDirSlotTombstone_def)
    moreover have "size (index_pairs t - {#(hsh, s)#}) < unat nb"
      using room n size_Diff1_le [of "index_pairs t" "(hsh, s)"] by linarith
    ultimately show ?thesis using nb fin by (auto simp: index_ok_def del pairs)
  qed
qed

lemma index_pairs_cold [simp]: "index_pairs (hash_cold_start nb) = {#}"
  by (simp add: hash_cold_start_def index_pairs_def)

lemma index_ok_cold: "unat nb = 2 ^ k \<Longrightarrow> index_ok nb (hash_cold_start nb)"
  using pow2_u32_exponent(1) [of nb k]
  by (auto simp: index_ok_def reachable_pairs_def) (auto simp: hash_cold_start_def kBucketDirSlotEmpty_def
      kBucketDirSlotTombstone_def)

section \<open>The index over any sequence of calls\<close>

text \<open>
  The caller keeps the load below the size of the table and never stores one of the two special slots.
  \<open>M\<close> is what the calls so far have stored.
\<close>

inductive index_reach :: "u32 \<Rightarrow> bucket list \<Rightarrow> (u32 \<times> u32) multiset \<Rightarrow> bool" for num_buckets where
  index_cold: "index_reach num_buckets (hash_cold_start num_buckets) {#}"
| index_insert: "index_reach num_buckets t M \<Longrightarrow> Suc (size M) < unat num_buckets \<Longrightarrow>
    slot \<noteq> kBucketDirSlotEmpty \<Longrightarrow> slot \<noteq> kBucketDirSlotTombstone \<Longrightarrow>
    hashmap_insert key_hash slot num_buckets t = Inr t' \<Longrightarrow>
    index_reach num_buckets t' (add_mset (key_hash, slot) M)"
| index_delete: "index_reach num_buckets t M \<Longrightarrow> slot \<noteq> kBucketDirSlotEmpty \<Longrightarrow>
    index_reach num_buckets (hashmap_delete key_hash slot num_buckets t) (M - {#(key_hash, slot)#})"

lemma index_reach_ok:
  assumes "index_reach nb t M" and "unat nb = 2 ^ k"
  shows "index_ok nb t \<and> index_pairs t = M"
  using assms
proof (induction rule: index_reach.induct)
  case index_cold
  then show ?case by (simp add: index_ok_cold)
next
  case (index_insert t M slot key_hash t')
  then show ?case using hashmap_insert_ok [of nb t slot key_hash] by auto
next
  case (index_delete t M slot key_hash)
  then show ?case using hashmap_delete_ok [of nb t slot key_hash] by simp
qed

text \<open>
  C7: After any sequence of insertions and deletions the hash index is exact: a lookup returns a slot that was
  stored under the hash of the key and not deleted and whose directory entry has the key, it misses only
  when there is none, and an insertion below the load limit does not run into the assertion. Probe chains that
  wrap round the table and the backward shift of a deletion are covered.
\<close>

theorem hash_index_exact:
  assumes "index_reach num_buckets t M" and "unat num_buckets = 2 ^ k"
  shows "(let slot = hashmap_lookup (fnv1a_hash key len) key len num_buckets t dir
          in if slot = kBucketDirSlotEmpty
             then \<forall>s. (fnv1a_hash key len, s) \<in># M \<longrightarrow> \<not> dir_matches dir key len s
             else (fnv1a_hash key len, slot) \<in># M \<and> dir_matches dir key len slot)
    \<and> (Suc (size M) < unat num_buckets \<longrightarrow> s \<noteq> kBucketDirSlotEmpty \<longrightarrow> s \<noteq> kBucketDirSlotTombstone \<longrightarrow>
         (\<exists>t'. hashmap_insert (fnv1a_hash key len) s num_buckets t = Inr t' \<and>
               index_pairs t' = add_mset (fnv1a_hash key len, s) M))"
proof -
  have ok: "index_ok num_buckets t" "index_pairs t = M" using index_reach_ok [OF assms] by blast+
  have "slot \<noteq> kBucketDirSlotEmpty" if "(h, slot) \<in># M" for h slot
    using that unfolding ok(2) [symmetric] index_pairs_iff by blast
  then show ?thesis
    using hashmap_lookup_cases [OF ok(1), of "fnv1a_hash key len" key len dir]
      hashmap_insert_ok [OF ok(1), of s "fnv1a_hash key len"] ok(2) by (auto simp: Let_def)
qed

text \<open>
  Four buckets, three keys of home three, so that their chain wraps round the end of the table; the first is
  deleted, and the other two are shifted back and found.
\<close>

definition sample_dir :: "dir_entry list" where
  "sample_dir = map (\<lambda>b. \<lparr>e_valid = 1, e_key_len = 1, e_total_len = 0, e_last_access = 0, e_value_off = 0,
     e_host_generation = 0, e_location = 0, e_block_order = 0, e_key = [b]\<rparr>) [4, 8, 12]"

definition sample_index :: "bucket list" where
  "sample_index = [\<lparr>bk_key_hash = 218917303, bk_dir_slot = 1\<rparr>, \<lparr>bk_key_hash = 151806827, bk_dir_slot = 2\<rparr>,
     \<lparr>bk_key_hash = 0, bk_dir_slot = kBucketDirSlotEmpty\<rparr>, \<lparr>bk_key_hash = 17585875, bk_dir_slot = 0\<rparr>]"

lemma sample_index_reach: "index_reach 4 sample_index {#(17585875, 0), (218917303, 1), (151806827, 2)#}"
proof -
  let ?e = "\<lparr>bk_key_hash = 0, bk_dir_slot = kBucketDirSlotEmpty\<rparr>"
  let ?t1 = "[?e, ?e, ?e, \<lparr>bk_key_hash = 17585875, bk_dir_slot = 0\<rparr>]"
  let ?t2 = "[\<lparr>bk_key_hash = 218917303, bk_dir_slot = 1\<rparr>, ?e, ?e, \<lparr>bk_key_hash = 17585875, bk_dir_slot = 0\<rparr>]"
  have t1: "hashmap_insert 17585875 0 4 (hash_cold_start 4) = Inr ?t1" by code_simp
  have t2: "hashmap_insert 218917303 1 4 ?t1 = Inr ?t2" by code_simp
  have t3: "hashmap_insert 151806827 2 4 ?t2 = Inr sample_index" by code_simp
  have "index_reach 4 ?t1 {#(17585875, 0)#}"
    by (rule index_insert [OF index_cold _ _ _ t1]) (simp_all add: kBucketDirSlotEmpty_def kBucketDirSlotTombstone_def)
  then have "index_reach 4 ?t2 {#(218917303, 1), (17585875, 0)#}"
    by (rule index_insert [OF _ _ _ _ t2]) (simp_all add: kBucketDirSlotEmpty_def kBucketDirSlotTombstone_def)
  then have "index_reach 4 sample_index {#(151806827, 2), (218917303, 1), (17585875, 0)#}"
    by (rule index_insert [OF _ _ _ _ t3]) (simp_all add: kBucketDirSlotEmpty_def kBucketDirSlotTombstone_def)
  then show ?thesis by (simp add: add_mset_commute)
qed

theorem hash_index_exact_witness:
  "hashmap_lookup (fnv1a_hash [12] 1) [12] 1 4 (hashmap_delete 17585875 0 4 sample_index) sample_dir = 2
    \<and> (\<exists>t'. hashmap_insert (fnv1a_hash [12] 1) 0 4 (hashmap_delete 17585875 0 4 sample_index) = Inr t'
         \<and> size (index_pairs t') = 3)"
proof -
  let ?M = "{#(218917303, 1), (151806827, 2)#} :: (u32 \<times> u32) multiset"
  have r: "index_reach 4 (hashmap_delete 17585875 0 4 sample_index) ?M"
    using index_delete [OF sample_index_reach, of 0 17585875] by (simp add: kBucketDirSlotEmpty_def)
  have h: "fnv1a_hash [12] 1 = 151806827" by code_simp
  have m: "dir_matches sample_dir [12] 1 2" by code_simp
  have e: "(2 :: u32) \<noteq> kBucketDirSlotEmpty" "(0 :: u32) \<noteq> kBucketDirSlotEmpty" "(0 :: u32) \<noteq> kBucketDirSlotTombstone"
    by (simp_all add: kBucketDirSlotEmpty_def kBucketDirSlotTombstone_def)
  note use = hash_index_exact [OF r, of 2 "[12]" 1 sample_dir 0, unfolded h Let_def]
  show ?thesis unfolding h using use m e by (auto split: if_splits)
qed

end
